(* ===== verification/Prelude.thy ===== *)
theory Prelude imports Main "HOL-Library.Word" begin

text \<open>
  Shared vocabulary of the development: the machine types of the sources (the fixed-width
  integers of C++ as words), byte buffers in the host's little-endian order, and the two fact
  collections the component theories use: \<open>handler_defs\<close> for the definitions of the
  handlers of a component and \<open>inv_defs\<close> for its invariants.
  An \<open>option\<close> result is used wherever the C++ has undefined behaviour (a copy outside of an
  allocated block, a shift by at least the width): \<open>None\<close> is "undefined".
\<close>

unbundle bit_operations_syntax

named_theorems handler_defs \<open>definitions of handlers\<close>
named_theorems inv_defs \<open>definitions of invariants\<close>

type_synonym u8 = "8 word"
type_synonym u32 = "32 word"
type_synonym u64 = "64 word"
type_synonym bytes = "8 word list"

section \<open>Words\<close>

lemma unat_lt2p: "unat (a :: 'a::len word) < 2 ^ LENGTH('a)"
  by (rule unsigned_less)

lemma unat_add_no_wrap:
  fixes a b :: "'a::len word"
  assumes "unat a + unat b < 2 ^ LENGTH('a)"
  shows "unat (a + b) = unat a + unat b"
  using assms by (simp add: unat_word_ariths)

lemma unat_sub_le:
  fixes a b :: "'a::len word"
  assumes "b \<le> a"
  shows "unat (a - b) = unat a - unat b"
  using assms by (simp add: unat_sub)

lemma and_mask_unat:
  fixes a :: "'a::len word"
  shows "unat (a AND mask n) = unat a mod 2 ^ n"
  by (metis unsigned_take_bit_eq take_bit_eq_mask take_bit_eq_mod)

lemma and_mask_lt:
  fixes a :: "'a::len word"
  assumes "n < LENGTH('a)"
  shows "unat (a AND mask n) < 2 ^ n"
  using assms by (simp add: and_mask_unat)

lemma drop_bit_unat:
  fixes a :: "'a::len word"
  shows "unat (drop_bit n a) = unat a div 2 ^ n"
  by (simp add: unat_drop_bit_eq flip: drop_bit_eq_div)

lemma unat_pow2: "w < LENGTH('a::len) \<Longrightarrow> unat (2 ^ w :: 'a word) = 2 ^ w"
  using unat_of_nat[of "2 ^ w", where 'a = 'a] by simp

lemma len64: "LENGTH(64) = 64"
  by simp

lemma mod_pow64: "w \<le> 64 \<Longrightarrow> (n::nat) mod 18446744073709551616 mod 2 ^ w = n mod 2 ^ w"
  using mod_mod_cancel[of "2 ^ w" "2 ^ 64" n] le_imp_power_dvd[of w 64 "2::nat"] by simp

lemma word_minus_one_mask:
  "2 ^ n - 1 = (mask n :: 'a::len word)"
  by (simp add: mask_eq_exp_minus_1)

lemma ucast_add_down:
  fixes a b :: "'a::len word"
  assumes "LENGTH('b::len) \<le> LENGTH('a)"
  shows "(ucast (a + b) :: 'b word) = ucast a + ucast b"
proof (rule unsigned_word_eqI[where 'a = nat])
  have dvd: "(2::nat) ^ LENGTH('b) dvd 2 ^ LENGTH('a)" using assms by (simp add: le_imp_power_dvd)
  have "unat (ucast (a + b) :: 'b word) = (unat a + unat b) mod 2 ^ LENGTH('a) mod 2 ^ LENGTH('b)"
    by (simp add: unsigned_ucast_eq take_bit_eq_mod unat_word_ariths)
  also have "\<dots> = (unat a + unat b) mod 2 ^ LENGTH('b)" using dvd by (rule mod_mod_cancel)
  also have "\<dots> = unat (ucast a + ucast b :: 'b word)"
    by (simp add: unsigned_ucast_eq take_bit_eq_mod unat_word_ariths mod_simps)
  finally show "unat (ucast (a + b) :: 'b word) = unat (ucast a + ucast b :: 'b word)" .
qed

subsection \<open>Sign extension\<close>

lemma ucast_scast_id:
  fixes a :: "'a::len word"
  assumes "LENGTH('a) \<le> LENGTH('b::len)"
  shows "ucast (scast a :: 'b word) = a"
proof (rule bit_word_eqI)
  fix n assume n: "n < LENGTH('a)"
  then have "n = LENGTH('a) - Suc 0 \<or> n < LENGTH('a) - Suc 0" by linarith
  then show "bit (ucast (scast a :: 'b word) :: 'a word) n = bit a n"
    using assms n by (auto simp: bit_ucast_iff bit_signed_iff min_def)
qed

lemma sint_scast:
  fixes a :: "'a::len word"
  assumes "LENGTH('a) \<le> LENGTH('b::len)"
  shows "sint (scast a :: 'b word) = sint a"
proof -
  have "sint (scast a :: 'b word) = signed_take_bit (LENGTH('b) - Suc 0) (sint a)"
    by (simp add: signed_scast_eq)
  also have "\<dots> = sint a"
  proof (rule signed_take_bit_int_eq_self)
    have "(2::int) ^ (LENGTH('a) - 1) \<le> 2 ^ (LENGTH('b) - Suc 0)"
      using assms by (intro power_increasing) auto
    then show "- (2 ^ (LENGTH('b) - Suc 0)) \<le> sint a" and "sint a < 2 ^ (LENGTH('b) - Suc 0)"
      using sint_ge[of a] sint_lt[of a] by linarith+
  qed
  finally show ?thesis .
qed

lemma sint_uint_cases:
  fixes a :: "'a::len word"
  shows "sint a = uint a - (if sint a < 0 then 2 ^ LENGTH('a) else 0)"
proof -
  have "sint a = take_bit LENGTH('a) (uint a) - 2 ^ LENGTH('a) * of_bool (bit a (LENGTH('a) - 1))"
    by (simp add: sint_uint signed_take_bit_eq_take_bit_minus bit_uint_iff)
  moreover have "take_bit LENGTH('a) (uint a) = uint a"
    by (rule take_bit_int_eq_self) (simp_all add: uint_lt2p)
  moreover have "uint a < 2 ^ LENGTH('a)" "0 \<le> uint a" by simp_all
  ultimately show ?thesis by (auto split: if_splits)
qed

lemma scast_less:
  fixes a b :: "'a::len word"
  assumes "LENGTH('a) \<le> LENGTH('b::len)"
  shows "(scast a :: 'b word) < scast b \<longleftrightarrow> a < b"
proof -
  have u: "uint (scast w :: 'b word) = sint w + (if sint w < 0 then 2 ^ LENGTH('b) else 0)" for w :: "'a word"
    using sint_uint_cases[of "scast w :: 'b word"] by (simp add: sint_scast[OF assms] split: if_splits)
  have le: "(2::int) ^ LENGTH('a) \<le> 2 ^ LENGTH('b)" using assms by (intro power_increasing) auto
  have half: "(2::int) ^ LENGTH('a) = 2 * 2 ^ (LENGTH('a) - 1)"
    by (simp flip: power_Suc)
  have bnd: "sint w < 2 ^ (LENGTH('a) - 1)" "- (2 ^ (LENGTH('a) - 1)) \<le> sint w"
    "uint w < 2 ^ LENGTH('a)" "0 \<le> uint w" for w :: "'a word"
    using sint_ge[of w] sint_lt[of w] by (simp_all add: uint_lt2p)
  note facts = sint_uint_cases[of a] sint_uint_cases[of b] le half bnd[of a] bnd[of b]
  show ?thesis unfolding word_less_def u
  proof (cases "sint a < 0"; cases "sint b < 0")
  qed (use facts in \<open>simp_all; linarith\<close>)+
qed

section \<open>Byte buffers\<close>

text \<open>\<open>memcpy\<close> of the first \<open>n\<close> bytes of \<open>src\<close> into \<open>dst\<close> at \<open>off\<close>; outside of
  either block the C++ is undefined.\<close>

definition blit :: "nat \<Rightarrow> nat \<Rightarrow> bytes \<Rightarrow> bytes \<Rightarrow> bytes option" where
  "blit off n src dst =
     (if off + n \<le> length dst \<and> n \<le> length src
      then Some (take off dst @ take n src @ drop (off + n) dst) else None)"

definition bslice :: "nat \<Rightarrow> nat \<Rightarrow> bytes \<Rightarrow> bytes option" where
  "bslice off n src = (if off + n \<le> length src then Some (take n (drop off src)) else None)"

lemma blit_SomeD:
  assumes "blit off n src dst = Some d"
  shows "off + n \<le> length dst" and "n \<le> length src"
    and "d = take off dst @ take n src @ drop (off + n) dst"
  using assms by (simp_all add: blit_def split: if_splits)

lemma blit_defined: "off + n \<le> length dst \<Longrightarrow> n \<le> length src \<Longrightarrow> \<exists>d. blit off n src dst = Some d"
  by (simp add: blit_def)

lemma blit_undefined: "length dst < off + n \<Longrightarrow> blit off n src dst = None"
  by (simp add: blit_def)

lemma blit_length:
  assumes "blit off n src dst = Some d"
  shows "length d = length dst"
  using blit_SomeD[OF assms] by simp

lemma nth_blit:
  assumes "blit off n src dst = Some d" and "i < length dst"
  shows "d ! i = (if off \<le> i \<and> i < off + n then src ! (i - off) else dst ! i)"
proof -
  note B = blit_SomeD[OF assms(1)]
  consider "i < off" | "off \<le> i" "i < off + n" | "off + n \<le> i" by linarith
  then show ?thesis
  proof cases
    case 1
    then show ?thesis using B assms(2) by (simp add: nth_append)
  next
    case 2
    then have "i - off < n" by linarith
    then show ?thesis using 2 B assms(2) by (simp add: nth_append)
  next
    case 3
    then have "\<not> i - off < n" and "off + n + (i - (off + n)) = i" by linarith+
    then show ?thesis using 3 B assms(2) by (simp add: nth_append)
  qed
qed

lemma bslice_length: "bslice off n src = Some d \<Longrightarrow> length d = n"
  by (simp add: bslice_def split: if_splits) fastforce

lemma bslice_defined: "off + n \<le> length src \<Longrightarrow> \<exists>d. bslice off n src = Some d"
  by (simp add: bslice_def)

lemma bslice_undefined: "length src < off + n \<Longrightarrow> bslice off n src = None"
  by (simp add: bslice_def)

lemma bslice_blit_same:
  assumes "blit off n src dst = Some d"
  shows "bslice off n d = Some (take n src)"
  using blit_SomeD[OF assms] by (simp add: bslice_def)

lemma bslice_eqI:
  assumes "length d = length dst" and "\<And>i. off \<le> i \<Longrightarrow> i < off + n \<Longrightarrow> i < length dst \<Longrightarrow> d ! i = dst ! i"
  shows "bslice off n d = bslice off n dst"
proof (cases "off + n \<le> length dst")
  case True
  have "take n (drop off d) = take n (drop off dst)"
    using assms True by (intro nth_equalityI) simp_all
  then show ?thesis using assms(1) True by (simp add: bslice_def)
qed (simp add: bslice_def assms(1))

lemma bslice_blit_disjoint:
  assumes "blit off n src dst = Some d" and "off' + n' \<le> off \<or> off + n \<le> off'"
  shows "bslice off' n' d = bslice off' n' dst"
proof (rule bslice_eqI)
  show "length d = length dst" by (rule blit_length[OF assms(1)])
  show "d ! i = dst ! i" if "off' \<le> i" "i < off' + n'" "i < length dst" for i
    using assms(2) that by (auto simp: nth_blit[OF assms(1) that(3)])
qed

text \<open>The host is little-endian: a \<open>memcpy\<close> of \<open>n\<close> bytes into (or out of) a zeroed 64-bit
  integer.\<close>

fun le_word :: "bytes \<Rightarrow> u64" where
  "le_word [] = 0"
| "le_word (b # bs) = ucast b OR push_bit 8 (le_word bs)"

definition le_bytes :: "nat \<Rightarrow> u64 \<Rightarrow> bytes" where
  "le_bytes n w = map (\<lambda>i. ucast (drop_bit (8 * i) w)) [0..<n]"

lemma length_le_bytes [simp]: "length (le_bytes n w) = n"
  by (simp add: le_bytes_def)

lemma bit_le_word:
  "bit (le_word bs) i \<longleftrightarrow> i < 64 \<and> i < 8 * length bs \<and> bit (bs ! (i div 8)) (i mod 8)"
proof (induction bs arbitrary: i)
  case (Cons b bs)
  show ?case
  proof (cases "i < 8")
    case True
    then show ?thesis by (auto simp: bit_or_iff bit_push_bit_iff bit_ucast_iff)
  next
    case False
    then have d: "i div 8 = Suc ((i - 8) div 8)" and m: "i mod 8 = (i - 8) mod 8"
      by (simp_all add: le_div_geq le_mod_geq)
    have hi: "\<not> bit (ucast b :: u64) i"
      using False bit_imp_le_length[of b i] by (auto simp: bit_ucast_iff)
    have "bit (le_word (b # bs)) i \<longleftrightarrow> i < 64 \<and> bit (le_word bs) (i - 8)"
      using False hi bit_imp_le_length[of "le_word (b # bs)" i]
      by (auto simp: bit_or_iff bit_push_bit_iff)
    also have "\<dots> \<longleftrightarrow> i < 64 \<and> i < 8 * length (b # bs) \<and> bit ((b # bs) ! (i div 8)) (i mod 8)"
      unfolding Cons d m using False by auto
    finally show ?thesis .
  qed
qed simp

lemma le_word_zeros [simp]: "le_word (replicate k 0) = 0"
  by (induction k) simp_all

lemma le_word_append_zeros: "le_word (bs @ replicate k 0) = le_word bs"
  by (induction bs) simp_all

lemma le_word_le_bytes: "le_word (le_bytes n w) = take_bit (8 * n) w"
proof (rule bit_word_eqI)
  fix i assume "i < LENGTH(64)"
  then have i: "i < 64" by simp
  have "8 * (i div 8) + i mod 8 = i" by simp
  then show "bit (le_word (le_bytes n w)) i \<longleftrightarrow> bit (take_bit (8 * n) w) i"
    using i by (cases "i < 8 * n")
      (auto simp: bit_le_word le_bytes_def bit_take_bit_iff bit_ucast_iff bit_drop_bit_eq)
qed

lemma le_word_le_bytes_8: "le_word (le_bytes 8 w) = w"
  by (simp add: le_word_le_bytes take_bit_word_eq_self)

lemma le_bytes_le_word:
  assumes "length bs \<le> 8"
  shows "le_bytes (length bs) (le_word bs) = bs"
proof (rule nth_equalityI)
  fix i assume "i < length (le_bytes (length bs) (le_word bs))"
  then have i: "i < length bs" by simp
  have "ucast (drop_bit (8 * i) (le_word bs)) = bs ! i"
  proof (rule bit_word_eqI)
    fix j assume "j < LENGTH(8)"
    then have j: "j < 8" by simp
    then have "(8 * i + j) div 8 = i" "(8 * i + j) mod 8 = j" by simp_all
    then show "bit (ucast (drop_bit (8 * i) (le_word bs)) :: u8) j \<longleftrightarrow> bit (bs ! i) j"
      using i j assms by (auto simp: bit_ucast_iff bit_drop_bit_eq bit_le_word)
  qed
  then show "le_bytes (length bs) (le_word bs) ! i = bs ! i"
    using i by (simp add: le_bytes_def)
qed simp

end
