(* ===== verification/IoV2.thy ===== *)
theory IoV2 imports Prelude begin

text \<open>
  The io_v2 request protocol as the models under \<open>src/models\<close> use it. The classes \<open>vp::IoReq\<close>,
  \<open>vp::IoSlave\<close> and \<open>vp::IoMaster\<close> belong to the simulation engine, which is not part of this
  repository: \<open>io_req\<close> lists the fields of a request that the models read and write, and the
  component at the other end of a master port is a parameter, an \<open>answer\<close>: the status it
  returns from \<open>req()\<close> and, unless it denies the request, the latency and the response status it
  leaves in the request (a denied request is left as it was).
  Calls a component makes on its own slave port, \<open>resp()\<close> and \<open>retry()\<close>, are values of
  \<open>io_up\<close>, in the order they are made.
\<close>

section \<open>Requests, answers, upstream calls\<close>

datatype io_status = IO_REQ_DONE | IO_REQ_GRANTED | IO_REQ_DENIED

datatype io_resp_status = IO_RESP_OK | IO_RESP_INVALID

datatype io_opcode = READ | WRITE | LR | SC | SWAP | ADD | XOR' | AND' | OR' | MIN' | MAX' | MINU | MAXU | OTHER_OP

record io_req =
  r_addr :: u64
  r_size :: u64
  r_is_write :: bool
  r_opcode :: io_opcode
  r_data :: u64            \<comment> \<open>the address of the data buffer\<close>
  r_latency :: int
  r_resp :: io_resp_status
  r_remaining :: u64
  r_parent :: nat          \<comment> \<open>the request a sub-request was made for\<close>
  r_is_first :: bool
  r_is_last :: bool

record io_answer =
  a_status :: io_status
  a_latency :: int
  a_resp :: io_resp_status

definition apply_answer :: "io_answer \<Rightarrow> 'a io_req_scheme \<Rightarrow> 'a io_req_scheme" where
  "apply_answer a r =
     (if a_status a = IO_REQ_DENIED then r
      else r\<lparr>r_latency := a_latency a, r_resp := a_resp a\<rparr>)"

datatype 'r io_up = Resp 'r | Retry

text \<open>A request as a master prepares it and the two simplest answers, for concrete runs.\<close>

definition plain_req :: "u64 \<Rightarrow> u64 \<Rightarrow> bool \<Rightarrow> io_req" where
  "plain_req a sz w = \<lparr>r_addr = a, r_size = sz, r_is_write = w, r_opcode = (if w then WRITE else READ),
     r_data = 0x1000, r_latency = 0, r_resp = IO_RESP_OK, r_remaining = 0, r_parent = 0,
     r_is_first = True, r_is_last = True\<rparr>"

definition done_answer :: "int \<Rightarrow> io_answer" where
  "done_answer lat = \<lparr>a_status = IO_REQ_DONE, a_latency = lat, a_resp = IO_RESP_OK\<rparr>"

definition denied_answer :: io_answer where
  "denied_answer = \<lparr>a_status = IO_REQ_DENIED, a_latency = 0, a_resp = IO_RESP_OK\<rparr>"

lemma plain_req_simps [simp]:
  "r_addr (plain_req a sz w) = a" "r_size (plain_req a sz w) = sz" "r_is_write (plain_req a sz w) = w"
  "r_data (plain_req a sz w) = 0x1000"
  by (simp_all add: plain_req_def)

lemma answer_status_simps [simp]:
  "a_status (done_answer lat) = IO_REQ_DONE" "a_status denied_answer = IO_REQ_DENIED"
  "a_latency (done_answer lat) = lat" "a_resp (done_answer lat) = IO_RESP_OK"
  by (simp_all add: done_answer_def denied_answer_def)

lemma apply_answer_simps [simp]:
  "r_addr (apply_answer a r) = r_addr r"
  "r_size (apply_answer a r) = r_size r"
  "r_is_write (apply_answer a r) = r_is_write r"
  "r_opcode (apply_answer a r) = r_opcode r"
  "r_data (apply_answer a r) = r_data r"
  "r_remaining (apply_answer a r) = r_remaining r"
  "r_parent (apply_answer a r) = r_parent r"
  "r_is_first (apply_answer a r) = r_is_first r"
  "r_is_last (apply_answer a r) = r_is_last r"
  by (simp_all add: apply_answer_def)

lemma apply_answer_denied [simp]: "a_status a = IO_REQ_DENIED \<Longrightarrow> apply_answer a r = r"
  by (simp add: apply_answer_def)

lemma apply_answer_form: "\<exists>l v. apply_answer a (q :: io_req) = q\<lparr>r_latency := l, r_resp := v\<rparr>"
  by (cases q) (auto simp: apply_answer_def)

section \<open>The deny / retry handshake of a forwarding component\<close>

text \<open>
  A forwarding component has one slave port and any number of master ports \<open>'p\<close>. When the port it
  chose denies a request, it denies the request upstream and owes the master one \<open>retry()\<close>, to be
  called when that port retries. The steps of such a component are the two calls it can get.
\<close>

datatype ('e, 'r, 'p) fwd_step = In 'e 'r | Out_retry 'p

fun fwd_run ::
  "('e \<Rightarrow> 'r \<Rightarrow> 's \<Rightarrow> io_status \<times> 'r \<times> 's) \<Rightarrow> ('p \<Rightarrow> 's \<Rightarrow> 'r io_up list \<times> 's)
   \<Rightarrow> ('e, 'r, 'p) fwd_step list \<Rightarrow> 's \<Rightarrow> 'r io_up list \<times> 's" where
  "fwd_run rq rt [] s = ([], s)"
| "fwd_run rq rt (In e r # xs) s = fwd_run rq rt xs (snd (snd (rq e r s)))"
| "fwd_run rq rt (Out_retry p # xs) s =
     (fst (rt p s) @ fst (fwd_run rq rt xs (snd (rt p s))), snd (fwd_run rq rt xs (snd (rt p s))))"

lemma fwd_run_append:
  "fst (fwd_run rq rt (xs @ ys) s) =
     fst (fwd_run rq rt xs s) @ fst (fwd_run rq rt ys (snd (fwd_run rq rt xs s)))"
  "snd (fwd_run rq rt (xs @ ys) s) = snd (fwd_run rq rt ys (snd (fwd_run rq rt xs s)))"
  by (induction rq rt xs s rule: fwd_run.induct) simp_all

text \<open>What a component of this kind promises: a denial is remembered against the port it came from,
  an accepted request changes nothing, the remembered port's retry is propagated exactly once and
  the retry of any other port is swallowed.\<close>

locale deny_retry =
  fixes rq :: "'e \<Rightarrow> 'r \<Rightarrow> 's \<Rightarrow> io_status \<times> 'r \<times> 's"
    and rt :: "'p \<Rightarrow> 's \<Rightarrow> 'r io_up list \<times> 's"
    and owed :: "'s \<Rightarrow> 'p option"
    and port :: "'r \<Rightarrow> 'p"
    and init :: 's
  assumes owed_init: "owed init = None"
    and rq_denied: "fst (rq e r s) = IO_REQ_DENIED \<Longrightarrow> owed (snd (snd (rq e r s))) = Some (port r)"
    and rq_denied_same: "fst (rq e r s) = IO_REQ_DENIED \<Longrightarrow> fst (snd (rq e r s)) = r"
    and rq_other: "fst (rq e r s) \<noteq> IO_REQ_DENIED \<Longrightarrow> owed (snd (snd (rq e r s))) = owed s"
    and rt_hit: "owed s = Some p \<Longrightarrow> fst (rt p s) = [Retry] \<and> owed (snd (rt p s)) = None"
    and rt_miss: "owed s \<noteq> Some p \<Longrightarrow> fst (rt p s) = [] \<and> owed (snd (rt p s)) = owed s"
begin

lemma owed_kept:
  assumes "owed s = Some p" and "Out_retry p \<notin> set xs"
    and "\<And>e r t. In e r \<in> set xs \<Longrightarrow> fst (rq e r t) \<noteq> IO_REQ_DENIED"
  shows "owed (snd (fwd_run rq rt xs s)) = Some p \<and> fst (fwd_run rq rt xs s) = []"
  using assms
proof (induction xs arbitrary: s)
  case (Cons x xs)
  show ?case
  proof (cases x)
    case (In e r)
    then have "owed (snd (snd (rq e r s))) = Some p"
      using Cons.prems by (simp add: rq_other)
    then show ?thesis using Cons In by simp
  next
    case (Out_retry q)
    then have "p \<noteq> q" using Cons.prems by auto
    then have "fst (rt q s) = []" "owed (snd (rt q s)) = Some p"
      using Cons.prems rt_miss[of s q] by auto
    then show ?thesis using Cons.IH[of "snd (rt q s)"] Cons.prems(2,3) Out_retry by auto
  qed
qed simp

text \<open>No lost wake-up: after a denial by port \<open>p\<close>, the first retry of \<open>p\<close> reaches the master, and
  nothing reaches it before.\<close>

lemma wake_up:
  assumes "fst (rq e r s) = IO_REQ_DENIED" and "Out_retry (port r) \<notin> set ys"
    and "\<And>e r t. In e r \<in> set ys \<Longrightarrow> fst (rq e r t) \<noteq> IO_REQ_DENIED"
  shows "fst (fwd_run rq rt (In e r # ys @ [Out_retry (port r)]) s) = [Retry]"
proof -
  let ?s = "snd (snd (rq e r s))"
  have o: "owed (snd (fwd_run rq rt ys ?s)) = Some (port r)" "fst (fwd_run rq rt ys ?s) = []"
    using owed_kept[OF rq_denied[OF assms(1)] assms(2,3)] by auto
  then show ?thesis using rt_hit[OF o(1)]
    by (simp add: fwd_run_append)
qed

text \<open>No spurious wake-up: the retries that reach the master never exceed the denials it got.\<close>

fun denials :: "('e, 'r, 'p) fwd_step list \<Rightarrow> 's \<Rightarrow> nat" where
  "denials [] s = 0"
| "denials (In e r # xs) s =
     (if fst (rq e r s) = IO_REQ_DENIED then 1 else 0) + denials xs (snd (snd (rq e r s)))"
| "denials (Out_retry p # xs) s = denials xs (snd (rt p s))"

lemma retries_bounded_gen:
  "length (fst (fwd_run rq rt xs s)) \<le> denials xs s + (if owed s = None then 0 else 1)"
proof (induction xs s rule: denials.induct)
  case (2 e r xs s)
  then show ?case
    by (cases "fst (rq e r s) = IO_REQ_DENIED") (auto simp: rq_denied rq_other split: if_splits)
next
  case (3 p xs s)
  then show ?case
    using rt_hit[of s p] rt_miss[of s p]
    by (cases "owed s = Some p") (auto split: if_splits)
qed simp

lemma retries_bounded: "length (fst (fwd_run rq rt xs init)) \<le> denials xs init"
  using retries_bounded_gen[of xs init] by (simp add: owed_init)

end

end
