(* ===== verification/RemapperV2.thy ===== *)
theory RemapperV2 imports IoV2 begin

text \<open>
  \<open>src/models/interco/remapper_v2.cpp\<close>: the window-based address remapper. Its state is the flag
  \<open>input_needs_retry\<close>; \<open>dn\<close> is what is bound to its output port.
\<close>

record remapper_cfg =
  rm_base :: u64
  rm_size :: u64
  rm_target_base :: u64

record remapper =
  rm_input_needs_retry :: bool

definition remapper_reset :: "bool \<Rightarrow> remapper \<Rightarrow> remapper" where
  [handler_defs]: "remapper_reset active s = (if active then s\<lparr>rm_input_needs_retry := False\<rparr> else s)"

definition remapper_in_window :: "remapper_cfg \<Rightarrow> u64 \<Rightarrow> bool" where
  "remapper_in_window c addr \<longleftrightarrow>
     rm_size c > 0 \<and> addr \<ge> rm_base c \<and> addr < rm_base c + rm_size c"

definition remapper_input_req ::
  "remapper_cfg \<Rightarrow> (io_req \<Rightarrow> io_answer) \<Rightarrow> io_req \<Rightarrow> remapper \<Rightarrow> io_status \<times> io_req \<times> remapper" where
  [handler_defs]: "remapper_input_req c dn req s =
     (let addr = r_addr req;
          in_window = remapper_in_window c addr;
          req1 = (if in_window then req\<lparr>r_addr := addr - rm_base c + rm_target_base c\<rparr> else req);
          a = dn req1;
          st = a_status a;
          req2 = apply_answer a req1
      in if st = IO_REQ_DENIED
         then (st, if in_window then req2\<lparr>r_addr := addr\<rparr> else req2, s\<lparr>rm_input_needs_retry := True\<rparr>)
         else (st, req2, s))"

definition remapper_output_resp :: "io_req \<Rightarrow> remapper \<Rightarrow> io_req io_up list \<times> remapper" where
  [handler_defs]: "remapper_output_resp req s = ([Resp req], s)"

definition remapper_output_retry :: "remapper \<Rightarrow> io_req io_up list \<times> remapper" where
  [handler_defs]: "remapper_output_retry s =
     (if rm_input_needs_retry s then ([Retry], s\<lparr>rm_input_needs_retry := False\<rparr>) else ([], s))"

section \<open>The window\<close>

lemma remapper_in_window_iff:
  assumes "unat (rm_base c) + unat (rm_size c) < 2 ^ 64"
  shows "remapper_in_window c a \<longleftrightarrow>
     unat (rm_base c) \<le> unat a \<and> unat a < unat (rm_base c) + unat (rm_size c)"
  using assms
  by (auto simp: remapper_in_window_def word_le_nat_alt word_less_nat_alt unat_add_no_wrap)

text \<open>With a window that ends inside the 64-bit address space, a request of the window is
  forwarded at the same distance from \<open>target_base\<close>, any other request at its own address; the
  downstream's status is returned, and a denied request goes back to the master exactly as it came,
  with the retry owed.\<close>

theorem remapper_input_req_spec:
  assumes "unat (rm_base c) + unat (rm_size c) < 2 ^ 64"
  shows "remapper_input_req c dn req s =
    (let d = unat (r_addr req) - unat (rm_base c);
         fwd = (if unat (rm_base c) \<le> unat (r_addr req) \<and> d < unat (rm_size c)
                then req\<lparr>r_addr := rm_target_base c + of_nat d\<rparr> else req);
         a = dn fwd
     in if a_status a = IO_REQ_DENIED then (IO_REQ_DENIED, req, \<lparr>rm_input_needs_retry = True\<rparr>)
        else (a_status a, apply_answer a fwd, s))"
proof -
  have w: "remapper_in_window c (r_addr req) \<longleftrightarrow>
      unat (rm_base c) \<le> unat (r_addr req) \<and> unat (r_addr req) - unat (rm_base c) < unat (rm_size c)"
    unfolding remapper_in_window_iff[OF assms] by auto
  have d: "r_addr req - rm_base c = of_nat (unat (r_addr req) - unat (rm_base c))"
    if "unat (rm_base c) \<le> unat (r_addr req)"
    using that by (metis unat_sub_le word_le_nat_alt of_nat_unat ucast_id)
  show ?thesis
  proof (cases "remapper_in_window c (r_addr req)")
    case True
    then show ?thesis using w d
      by (cases s) (simp add: remapper_input_req_def Let_def add.commute)
  next
    case False
    then have n: "\<not> (unat (rm_base c) \<le> unat (r_addr req) \<and>
        unat (r_addr req) - unat (rm_base c) < unat (rm_size c))" using w by blast
    show ?thesis unfolding remapper_input_req_def Let_def if_not_P[OF False] if_not_P[OF n]
      by (cases s) simp
  qed
qed

theorem remapper_input_req_spec_witness:
  "(let c = \<lparr>rm_base = 0x1000, rm_size = 0x100, rm_target_base = 0x8000\<rparr>;
        req = plain_req 0x1010 4 False;
        dn = (\<lambda>r. done_answer 3)
    in unat (rm_base c) + unat (rm_size c) < 2 ^ 64 \<and>
       r_addr (fst (snd (remapper_input_req c dn req \<lparr>rm_input_needs_retry = False\<rparr>))) = 0x8010)"
  unfolding Let_def by (subst remapper_input_req_spec) simp_all

text \<open>A window that reaches the top of the address space is never matched: the end of the
  half-open range wraps to 0, so no address is below it and every request goes out unchanged.\<close>

theorem remapper_top_window_dead:
  assumes "rm_base c + rm_size c = 0"
  shows "fst (snd (remapper_input_req c dn req s)) = apply_answer (dn req) req"
  using assms by (auto simp: remapper_input_req_def remapper_in_window_def Let_def)

theorem remapper_top_window_dead_witness:
  "(let c = \<lparr>rm_base = 0xFFFFFFFFFFFFF000, rm_size = 0x1000, rm_target_base = 0\<rparr>;
        req = plain_req 0xFFFFFFFFFFFFF010 4 False;
        dn = (\<lambda>r. done_answer 3)
    in rm_base c + rm_size c = 0 \<and>
       r_addr (fst (snd (remapper_input_req c dn req \<lparr>rm_input_needs_retry = False\<rparr>))) = 0xFFFFFFFFFFFFF010)"
  unfolding Let_def by (subst remapper_top_window_dead) simp_all

section \<open>The handshake\<close>

interpretation remapper_hs: deny_retry
  "\<lambda>dn. remapper_input_req c dn" "\<lambda>(p::unit). remapper_output_retry"
  "\<lambda>s. if rm_input_needs_retry s then Some () else None" "\<lambda>_. ()"
  "remapper_reset True \<lparr>rm_input_needs_retry = i\<rparr>" for c i
  by unfold_locales (auto simp: handler_defs Let_def split: if_splits)

text \<open>No lost wake-up: when the downstream of the remapper denies a request and later retries,
  the master gets exactly one \<open>retry()\<close>, after whatever accepted traffic came in between.\<close>

theorem remapper_wake_up:
  assumes "fst (remapper_input_req c dn req s) = IO_REQ_DENIED"
    and "Out_retry () \<notin> set ys"
    and "\<And>e r t. In e r \<in> set ys \<Longrightarrow> fst (remapper_input_req c e r t) \<noteq> IO_REQ_DENIED"
  shows "fst (fwd_run (remapper_input_req c) (\<lambda>_. remapper_output_retry)
           (In dn req # ys @ [Out_retry ()]) s) = [Retry]"
  using remapper_hs.wake_up[of c dn req s ys] assms by simp

theorem remapper_wake_up_witness:
  "(let c = \<lparr>rm_base = 0x1000, rm_size = 0x100, rm_target_base = 0x8000\<rparr>;
        req = plain_req 0x1010 4 False;
        dn = (\<lambda>r. denied_answer);
        ok = (\<lambda>r. done_answer 0)
    in fst (fwd_run (remapper_input_req c) (\<lambda>_. remapper_output_retry)
           (In dn req # [In ok req] @ [Out_retry ()]) \<lparr>rm_input_needs_retry = False\<rparr>) = [Retry])"
  unfolding Let_def by (rule remapper_wake_up) (auto simp: remapper_input_req_def Let_def)

end
