(* ===== verification/AccessLog.thy ===== *)
theory AccessLog imports IoV2 begin

text \<open>
  The access tracing shared by \<open>memory_v3.cpp\<close> and \<open>demux_v2.cpp\<close> (\<open>log_access\<close>): every access
  pulses three signals, and accesses of the same cycle are spread inside the clock period so that
  they stay visible. The signals belong to the engine; a pulse is the value the component gives
  them, its delay inside the cycle included (\<open>None\<close> where the shift count reaches 64 bits).
\<close>

record access_log =
  last_logged_access :: int
  nb_logged_access_in_same_cycle :: nat

record access_pulse =
  p_addr :: u64
  p_size :: u64
  p_is_write :: bool
  p_delay :: "int option"

definition access_log_init :: access_log where
  "access_log_init = \<lparr>last_logged_access = -1, nb_logged_access_in_same_cycle = 0\<rparr>"

text \<open>\<open>cycles\<close> and \<open>period\<close> are what the clock domain answers (\<open>clock.get_cycles()\<close> and
  \<open>clock.get_period()\<close>).\<close>

definition log_access ::
  "int \<Rightarrow> int \<Rightarrow> u64 \<Rightarrow> u64 \<Rightarrow> bool \<Rightarrow> access_log \<Rightarrow> access_pulse \<times> access_log" where
  "log_access cycles period addr sz is_write l =
     (let nb = (if cycles > last_logged_access l then 0 else nb_logged_access_in_same_cycle l);
          delay = (if nb > 0 then (if nb < 64 then Some (period - period div 2 ^ nb) else None)
                   else Some 0)
      in (\<lparr>p_addr = addr, p_size = sz, p_is_write = is_write, p_delay = delay\<rparr>,
          \<lparr>last_logged_access = cycles, nb_logged_access_in_same_cycle = nb + 1\<rparr>))"

text \<open>A burst of accesses logged in one cycle.\<close>

fun log_burst ::
  "int \<Rightarrow> int \<Rightarrow> (u64 \<times> u64 \<times> bool) list \<Rightarrow> access_log \<Rightarrow> access_pulse list" where
  "log_burst cycles period [] l = []"
| "log_burst cycles period ((a, sz, w) # xs) l =
     (let (p, l') = log_access cycles period a sz w l in p # log_burst cycles period xs l')"

lemma log_burst_length: "length (log_burst cycles period xs l) = length xs"
  by (induction cycles period xs l rule: log_burst.induct) (auto split: prod.splits)

lemma log_burst_later:
  assumes "last_logged_access l = cycles" and "i < length xs"
    and "nb_logged_access_in_same_cycle l = n" and "0 < n" and "n + i < 64"
  shows "p_delay (log_burst cycles period xs l ! i) = Some (period - period div 2 ^ (n + i))"
  using assms
proof (induction cycles period xs l arbitrary: i n rule: log_burst.induct)
  case (2 cycles period a sz w xs l)
  show ?case
  proof (cases i)
    case 0
    then show ?thesis using 2 by (simp add: log_access_def Let_def)
  next
    case (Suc j)
    have "p_delay (log_burst cycles period xs
        \<lparr>last_logged_access = cycles, nb_logged_access_in_same_cycle = Suc n\<rparr> ! j)
        = Some (period - period div 2 ^ (Suc n + j))"
      using 2 Suc by (intro "2.IH"[where n = "Suc n"]) (auto simp: log_access_def Let_def)
    then show ?thesis using 2 Suc by (simp add: log_access_def Let_def)
  qed
qed simp

lemma log_burst_first:
  assumes "last_logged_access l < cycles" and "i < length xs" and "i < 64"
  shows "p_delay (log_burst cycles period xs l ! i) = Some (period - period div 2 ^ i)"
proof (cases xs)
  case (Cons x ys)
  obtain a sz w where x: "x = (a, sz, w)" by (cases x) auto
  show ?thesis
  proof (cases i)
    case 0
    then show ?thesis using assms Cons x by (simp add: log_access_def)
  next
    case (Suc j)
    have "p_delay (log_burst cycles period ys
        \<lparr>last_logged_access = cycles, nb_logged_access_in_same_cycle = Suc 0\<rparr> ! j)
        = Some (period - period div 2 ^ (Suc 0 + j))"
      using assms Cons Suc by (intro log_burst_later) simp_all
    then show ?thesis using assms Cons x Suc by (simp add: log_access_def Let_def)
  qed
qed (use assms in simp)

end
