(* ===== verification/DemuxV2.thy ===== *)
theory DemuxV2 imports AccessLog begin

text \<open>
  \<open>src/models/interco/demux_v2.cpp\<close>: the bit-field address demultiplexer. Its state is
  \<open>denied_output\<close> (-1 for "none") and the access trace; \<open>dn i\<close> is what is bound to output \<open>i\<close>.
  The pulses given to the signals are kept in \<open>dx_pulses\<close>, newest last.
\<close>

record demux_cfg =
  dx_offset :: nat
  dx_width :: nat

record demux =
  dx_denied_output :: int
  dx_log :: access_log
  dx_pulses :: "access_pulse list"

record 'r demux_env =
  de_cycles :: int
  de_period :: int
  de_outputs :: "nat \<Rightarrow> 'r \<Rightarrow> io_answer"

definition demux_nb_outs :: "demux_cfg \<Rightarrow> nat" where
  "demux_nb_outs c = 2 ^ dx_width c"

definition demux_reset :: "bool \<Rightarrow> demux \<Rightarrow> demux" where
  [handler_defs]: "demux_reset active s = (if active then s\<lparr>dx_denied_output := -1\<rparr> else s)"

definition demux_output_id :: "demux_cfg \<Rightarrow> u64 \<Rightarrow> nat" where
  "demux_output_id c offset = unat (drop_bit (dx_offset c) offset AND mask (dx_width c))"

definition demux_input_req ::
  "demux_cfg \<Rightarrow> io_req demux_env \<Rightarrow> io_req \<Rightarrow> demux \<Rightarrow> io_status \<times> io_req \<times> demux" where
  [handler_defs]: "demux_input_req c e req s =
     (let offset = r_addr req;
          output_id = demux_output_id c offset;
          (p, l) = log_access (de_cycles e) (de_period e) offset (r_size req) (r_is_write req) (dx_log s);
          s1 = s\<lparr>dx_log := l, dx_pulses := dx_pulses s @ [p]\<rparr>;
          a = de_outputs e output_id req;
          st = a_status a
      in if st = IO_REQ_DENIED
         then (st, apply_answer a req, s1\<lparr>dx_denied_output := int output_id\<rparr>)
         else (st, apply_answer a req, s1))"

definition demux_output_resp :: "io_req \<Rightarrow> nat \<Rightarrow> demux \<Rightarrow> io_req io_up list \<times> demux" where
  [handler_defs]: "demux_output_resp req i s = ([Resp req], s)"

definition demux_output_retry :: "nat \<Rightarrow> demux \<Rightarrow> io_req io_up list \<times> demux" where
  [handler_defs]: "demux_output_retry i s =
     (if dx_denied_output s = int i then ([Retry], s\<lparr>dx_denied_output := -1\<rparr>) else ([], s))"

section \<open>Routing\<close>

lemma demux_output_id_eq:
  "demux_output_id c a = (unat a div 2 ^ dx_offset c) mod 2 ^ dx_width c"
  by (simp add: demux_output_id_def and_mask_unat drop_bit_unat)

lemma demux_output_id_lt: "demux_output_id c a < demux_nb_outs c"
  by (simp add: demux_output_id_eq demux_nb_outs_def)

text \<open>The demultiplexer sends a request, address untouched, to the output selected by the
  \<open>width\<close> address bits from bit \<open>offset\<close> on, which is one of its \<open>2 ^ width\<close> outputs; the answer
  goes back unchanged, and a denial is remembered against that output.\<close>

theorem demux_routes:
  "fst (demux_input_req c e req s) = a_status (de_outputs e (demux_output_id c (r_addr req)) req)
   \<and> fst (snd (demux_input_req c e req s)) =
     apply_answer (de_outputs e (demux_output_id c (r_addr req)) req) req
   \<and> demux_output_id c (r_addr req) = (unat (r_addr req) div 2 ^ dx_offset c) mod 2 ^ dx_width c
   \<and> demux_output_id c (r_addr req) < demux_nb_outs c
   \<and> dx_denied_output (snd (snd (demux_input_req c e req s))) =
     (if fst (demux_input_req c e req s) = IO_REQ_DENIED
      then int (demux_output_id c (r_addr req)) else dx_denied_output s)"
  by (simp add: demux_input_req_def Let_def demux_output_id_eq demux_nb_outs_def split: prod.splits)

section \<open>The handshake\<close>

definition demux_owed :: "demux \<Rightarrow> nat option" where
  "demux_owed s = (if dx_denied_output s < 0 then None else Some (nat (dx_denied_output s)))"

interpretation demux_hs: deny_retry
  "demux_input_req c" "demux_output_retry" "demux_owed" "\<lambda>r. demux_output_id c (r_addr r)"
  "demux_reset True s" for c s
proof unfold_locales
  show "demux_owed (demux_reset True s) = None" by (simp add: demux_owed_def demux_reset_def)
  show "demux_owed (snd (snd (demux_input_req c e r t))) = Some (demux_output_id c (r_addr r))"
    if "fst (demux_input_req c e r t) = IO_REQ_DENIED" for e r t
    using that by (simp add: demux_owed_def demux_input_req_def Let_def split: prod.splits if_splits)
  show "fst (snd (demux_input_req c e r t)) = r"
    if "fst (demux_input_req c e r t) = IO_REQ_DENIED" for e r t
    using that by (simp add: demux_input_req_def Let_def split: prod.splits if_splits)
  show "demux_owed (snd (snd (demux_input_req c e r t))) = demux_owed t"
    if "fst (demux_input_req c e r t) \<noteq> IO_REQ_DENIED" for e r t
    using that by (simp add: demux_owed_def demux_input_req_def Let_def split: prod.splits if_splits)
  show "fst (demux_output_retry p t) = [Retry] \<and> demux_owed (snd (demux_output_retry p t)) = None"
    if "demux_owed t = Some p" for p t
    using that by (auto simp: demux_owed_def demux_output_retry_def split: if_splits)
  show "fst (demux_output_retry p t) = [] \<and> demux_owed (snd (demux_output_retry p t)) = demux_owed t"
    if "demux_owed t \<noteq> Some p" for p t
    using that by (auto simp: demux_owed_def demux_output_retry_def split: if_splits)
qed

text \<open>The retry of the output that denied the master reaches the master exactly once, and the
  retries of the other outputs in between never do; over any run from reset, the master is never
  woken more often than it was denied.\<close>

theorem demux_wake_up:
  assumes "fst (demux_input_req c e r s) = IO_REQ_DENIED"
    and "Out_retry (demux_output_id c (r_addr r)) \<notin> set ys"
    and "\<And>e r t. In e r \<in> set ys \<Longrightarrow> fst (demux_input_req c e r t) \<noteq> IO_REQ_DENIED"
  shows "fst (fwd_run (demux_input_req c) demux_output_retry
           (In e r # ys @ [Out_retry (demux_output_id c (r_addr r))]) s) = [Retry]"
  using assms by (rule demux_hs.wake_up)

theorem demux_wake_up_witness:
  "(let c = \<lparr>dx_offset = 12, dx_width = 2\<rparr>;
        e = \<lparr>de_cycles = 5, de_period = 1000, de_outputs = (\<lambda>_ _. denied_answer)\<rparr>;
        r = plain_req 0x3004 4 False
    in demux_output_id c (r_addr r) = 3 \<and>
       fst (fwd_run (demux_input_req c) demux_output_retry
           (In e r # [Out_retry 0, Out_retry 1] @ [Out_retry (demux_output_id c (r_addr r))])
           \<lparr>dx_denied_output = -1, dx_log = access_log_init, dx_pulses = []\<rparr>) = [Retry])"
  unfolding Let_def
  by (intro conjI demux_wake_up)
    (auto simp: demux_input_req_def demux_output_id_eq Let_def split: prod.splits)

end
