(* ===== verification/RwSplitterV2.thy ===== *)
theory RwSplitterV2 imports IoV2 begin

text \<open>
  \<open>src/models/interco/rw_splitter_v2.cpp\<close>: writes go to \<open>output_write\<close> (id 1), everything else to
  \<open>output_read\<close> (id 0); \<open>dn\<close> answers for the two outputs.
\<close>

definition ID_READ :: int where "ID_READ = 0"
definition ID_WRITE :: int where "ID_WRITE = 1"

record rw_splitter =
  rw_denied_output :: int

definition rw_splitter_reset :: "bool \<Rightarrow> rw_splitter \<Rightarrow> rw_splitter" where
  [handler_defs]: "rw_splitter_reset active s = (if active then s\<lparr>rw_denied_output := -1\<rparr> else s)"

definition rw_splitter_input_req ::
  "(int \<Rightarrow> io_req \<Rightarrow> io_answer) \<Rightarrow> io_req \<Rightarrow> rw_splitter \<Rightarrow> io_status \<times> io_req \<times> rw_splitter" where
  [handler_defs]: "rw_splitter_input_req dn req s =
     (let is_write = r_is_write req;
          output_id = (if is_write then ID_WRITE else ID_READ);
          a = (if is_write then dn ID_WRITE req else dn ID_READ req);
          st = a_status a
      in if st = IO_REQ_DENIED
         then (st, apply_answer a req, s\<lparr>rw_denied_output := output_id\<rparr>)
         else (st, apply_answer a req, s))"

definition rw_splitter_output_resp :: "io_req \<Rightarrow> int \<Rightarrow> rw_splitter \<Rightarrow> io_req io_up list \<times> rw_splitter" where
  [handler_defs]: "rw_splitter_output_resp req i s = ([Resp req], s)"

definition rw_splitter_output_retry :: "int \<Rightarrow> rw_splitter \<Rightarrow> io_req io_up list \<times> rw_splitter" where
  [handler_defs]: "rw_splitter_output_retry i s =
     (if rw_denied_output s = i then ([Retry], s\<lparr>rw_denied_output := -1\<rparr>) else ([], s))"

text \<open>The ports are the booleans "is the write side".\<close>

definition rw_port_id :: "bool \<Rightarrow> int" where
  "rw_port_id w = (if w then ID_WRITE else ID_READ)"

definition rw_owed :: "rw_splitter \<Rightarrow> bool option" where
  "rw_owed s = (if rw_denied_output s = ID_READ then Some False
                else if rw_denied_output s = ID_WRITE then Some True else None)"

interpretation rw_hs: deny_retry
  "rw_splitter_input_req" "\<lambda>w. rw_splitter_output_retry (rw_port_id w)" "rw_owed" "r_is_write"
  "rw_splitter_reset True s" for s
  by unfold_locales
    (auto simp: handler_defs rw_owed_def rw_port_id_def ID_READ_def ID_WRITE_def Let_def split: if_splits)

text \<open>A write denied by the write side of the splitter (or a read by the read side) is retried
  by the master exactly when that side retries: the retries of the other side are swallowed.\<close>

theorem rw_splitter_wake_up:
  assumes "fst (rw_splitter_input_req dn r s) = IO_REQ_DENIED"
    and "Out_retry (r_is_write r) \<notin> set ys"
    and "\<And>e r t. In e r \<in> set ys \<Longrightarrow> fst (rw_splitter_input_req e r t) \<noteq> IO_REQ_DENIED"
  shows "fst (fwd_run rw_splitter_input_req (\<lambda>w. rw_splitter_output_retry (rw_port_id w))
           (In dn r # ys @ [Out_retry (r_is_write r)]) s) = [Retry]"
  using assms by (rule rw_hs.wake_up)

theorem rw_splitter_wake_up_witness:
  "(let r = plain_req 0x40 4 True; dn = (\<lambda>_ _. denied_answer); ok = (\<lambda>_ _. done_answer 2)
    in fst (fwd_run rw_splitter_input_req (\<lambda>w. rw_splitter_output_retry (rw_port_id w))
         (In dn r # [Out_retry False, In ok (plain_req 8 4 False)] @ [Out_retry (r_is_write r)])
         \<lparr>rw_denied_output = -1\<rparr>) = [Retry])"
  unfolding Let_def
  by (rule rw_splitter_wake_up) (auto simp: rw_splitter_input_req_def Let_def)

end
