(* ===== verification/MemoryV3.thy ===== *)
theory MemoryV3 imports AccessLog begin

text \<open>
  \<open>src/models/memory/memory_v3.cpp\<close>: the byte-addressable SRAM. Its state is the block \<open>mem_data\<close>
  (a byte list of \<open>cfg.size\<close> bytes), the power flag, the LR/SC reservation table, the statistics
  counters and the access trace. A request carries its data buffer \<open>r_buf\<close> and, for atomics,
  the buffer of the result \<open>r_second\<close> (\<open>None\<close> for a null pointer) and the identity of its initiator.
  A handler is \<open>None\<close> where the C++ reads or writes outside of a block.
  Not modelled: the power trigger (compiled in with tracing only), the \<open>meminfo\<close> back door.
\<close>

record mem_req = io_req +
  r_buf :: "bytes option"
  r_second :: "bytes option"
  r_initiator :: u64

record memory_cfg =
  mc_size :: u64
  mc_latency :: int
  mc_truncate :: bool
  mc_align :: nat
  mc_init :: bool
  mc_atomics :: bool

record memory =
  mm_data :: bytes
  mm_powered_up :: bool
  mm_res_table :: "u64 \<rightharpoonup> u64"
  mm_reads :: nat
  mm_writes :: nat
  mm_bytes_read :: nat
  mm_bytes_written :: nat
  mm_log :: access_log
  mm_pulses :: "access_pulse list"

definition memory_truncate_mask :: "memory_cfg \<Rightarrow> u64" where
  "memory_truncate_mask c = (if mc_truncate c then mc_size c - 1 else -1)"

text \<open>The block a memory starts with: \<open>fresh\<close> is what \<open>aligned_alloc\<close> returns, \<open>stim\<close> the contents of
  the stimuli file, if there is one; \<open>None\<close> when nothing can be read from it.\<close>

definition memory_build_data :: "memory_cfg \<Rightarrow> bytes \<Rightarrow> bytes option \<Rightarrow> bytes option" where
  "memory_build_data c fresh stim =
     (let n = unat (mc_size c);
          d0 = (if mc_align c > 0 then fresh else replicate n 0);
          d1 = (if mc_init c \<and> n < 2 * 2 ^ 24 then replicate n 0x57 else d0)
      in case stim of None \<Rightarrow> Some d1
         | Some f \<Rightarrow> (if min n (length f) = 0 then None else Some (take n f @ drop (length f) d1)))"

definition memory_reset :: "bool \<Rightarrow> memory \<Rightarrow> memory" where
  [handler_defs]: "memory_reset active s = (if active then s\<lparr>mm_powered_up := True\<rparr> else s)"

definition memory_power_ctrl_sync :: "bool \<Rightarrow> memory \<Rightarrow> memory" where
  [handler_defs]: "memory_power_ctrl_sync v s = s\<lparr>mm_powered_up := v\<rparr>"

definition memory_handle_write :: "nat \<Rightarrow> nat \<Rightarrow> bytes option \<Rightarrow> memory \<Rightarrow> memory option" where
  "memory_handle_write offset sz data s =
     (if \<not> mm_powered_up s then Some s
      else case data of None \<Rightarrow> Some s
        | Some d \<Rightarrow> map_option (\<lambda>m. s\<lparr>mm_data := m\<rparr>) (blit offset sz d (mm_data s)))"

definition memory_handle_read :: "nat \<Rightarrow> nat \<Rightarrow> bytes option \<Rightarrow> memory \<Rightarrow> bytes option option" where
  "memory_handle_read offset sz data s =
     (case data of None \<Rightarrow> Some None
      | Some d \<Rightarrow>
          if \<not> mm_powered_up s then map_option Some (blit 0 sz (replicate sz 0) d)
          else case bslice offset sz (mm_data s) of None \<Rightarrow> None
               | Some b \<Rightarrow> map_option Some (blit 0 sz b d))"

definition mem_get_signed_value :: "u64 \<Rightarrow> nat \<Rightarrow> u64 option" where
  "mem_get_signed_value v bits =
     (if 0 < bits \<and> bits \<le> 64 then Some (signed_drop_bit (64 - bits) (push_bit (64 - bits) v)) else None)"

definition sign_narrow :: "nat \<Rightarrow> u64 \<Rightarrow> u64 option" where
  "sign_narrow sz v = (if sz < 8 then mem_get_signed_value v (sz * 8) else Some v)"

text \<open>The arithmetic of the read-modify-write opcodes: old value, operand, new value.\<close>

fun amo_result :: "io_opcode \<Rightarrow> u64 \<Rightarrow> u64 \<Rightarrow> u64 option" where
  "amo_result SWAP p x = Some x"
| "amo_result ADD p x = Some (p + x)"
| "amo_result XOR' p x = Some (p XOR x)"
| "amo_result AND' p x = Some (p AND x)"
| "amo_result OR' p x = Some (p OR x)"
| "amo_result MIN' p x = Some (if sint p < sint x then p else x)"
| "amo_result MAX' p x = Some (if sint p > sint x then p else x)"
| "amo_result MINU p x = Some (if p < x then p else x)"
| "amo_result MAXU p x = Some (if p > x then p else x)"
| "amo_result _ p x = None"

definition kill_reservations :: "u64 \<Rightarrow> u64 \<Rightarrow> (u64 \<rightharpoonup> u64) \<Rightarrow> (u64 \<rightharpoonup> u64)" where
  "kill_reservations addr sz t =
     (\<lambda>i. case t i of None \<Rightarrow> None
          | Some a \<Rightarrow> Some (if a \<ge> addr \<and> a < addr + sz then -1 else a))"

text \<open>The \<open>switch\<close> of \<open>handle_atomic\<close>: the value handed back, the value to store if there is one,
  and the reservation table; \<open>None\<close> is the \<open>default\<close> case, which does nothing.\<close>

definition atomic_switch ::
  "io_opcode \<Rightarrow> u64 \<Rightarrow> u64 \<Rightarrow> u64 \<Rightarrow> u64 \<Rightarrow> u64 \<Rightarrow> (u64 \<rightharpoonup> u64)
   \<Rightarrow> (u64 \<times> u64 option \<times> (u64 \<rightharpoonup> u64)) option" where
  "atomic_switch opc addr sz initiator prev operand t =
     (case opc of
        LR \<Rightarrow> Some (prev, None, t(initiator \<mapsto> addr))
      | SC \<Rightarrow> (if t initiator = Some addr
              then Some (0, Some operand, kill_reservations addr sz t)
              else Some (1, None, t))
      | _ \<Rightarrow> (case amo_result opc prev operand of None \<Rightarrow> None | Some r \<Rightarrow> Some (prev, Some r, t)))"

definition memory_handle_atomic ::
  "u64 \<Rightarrow> u64 \<Rightarrow> bytes option \<Rightarrow> bytes option \<Rightarrow> io_opcode \<Rightarrow> u64 \<Rightarrow> memory \<Rightarrow> (bytes option \<times> memory) option" where
  "memory_handle_atomic addr sz in_data out_data opc initiator s =
     (let n = unat sz in
      case in_data of None \<Rightarrow> None
      | Some d \<Rightarrow>
        (case (blit 0 n d (replicate 8 0), memory_handle_read (unat addr) n (Some (replicate 8 0)) s) of
           (Some ob, Some (Some pb)) \<Rightarrow>
             (case (sign_narrow n (le_word ob), sign_narrow n (le_word pb)) of
                (Some operand, Some prev) \<Rightarrow>
                  (case atomic_switch opc addr sz initiator prev operand (mm_res_table s) of
                     None \<Rightarrow> Some (out_data, s)
                   | Some (ret, store, t) \<Rightarrow>
                       let s1 = s\<lparr>mm_res_table := t\<rparr>;
                           out = (case out_data of None \<Rightarrow> Some None
                                  | Some od \<Rightarrow> map_option Some (blit 0 n (le_bytes 8 ret) od))
                       in case out of None \<Rightarrow> None
                          | Some out' \<Rightarrow>
                              (case store of None \<Rightarrow> Some (out', s1)
                               | Some r \<Rightarrow> map_option (\<lambda>s2. (out', s2))
                                            (memory_handle_write (unat addr) n (Some (le_bytes 8 r)) s1)))
              | _ \<Rightarrow> None)
         | _ \<Rightarrow> None))"

definition memory_account :: "int \<Rightarrow> int \<Rightarrow> u64 \<Rightarrow> mem_req \<Rightarrow> memory \<Rightarrow> memory" where
  "memory_account cycles period offset req s =
     (let s1 = (if r_is_write req
                then s\<lparr>mm_writes := mm_writes s + 1, mm_bytes_written := mm_bytes_written s + unat (r_size req)\<rparr>
                else s\<lparr>mm_reads := mm_reads s + 1, mm_bytes_read := mm_bytes_read s + unat (r_size req)\<rparr>);
          (p, l) = log_access cycles period offset (r_size req) (r_is_write req) (mm_log s1)
      in s1\<lparr>mm_log := l, mm_pulses := mm_pulses s1 @ [p]\<rparr>)"

definition memory_req ::
  "memory_cfg \<Rightarrow> int \<Rightarrow> int \<Rightarrow> mem_req \<Rightarrow> memory \<Rightarrow> (io_status \<times> mem_req \<times> memory) option" where
  "memory_req c cycles period req s =
     (let offset = r_addr req AND memory_truncate_mask c;
          sz = r_size req;
          s1 = memory_account cycles period offset req s;
          req1 = req\<lparr>r_latency := r_latency req + mc_latency c\<rparr>
      in if offset + sz > mc_size c
         then Some (IO_REQ_DONE, req1\<lparr>r_resp := IO_RESP_INVALID\<rparr>, s1)
         else if r_opcode req = READ
         then map_option (\<lambda>b. (IO_REQ_DONE, req1\<lparr>r_buf := b\<rparr>, s1))
                (memory_handle_read (unat offset) (unat sz) (r_buf req1) s1)
         else if r_opcode req = WRITE
         then map_option (\<lambda>s2. (IO_REQ_DONE, req1, s2))
                (memory_handle_write (unat offset) (unat sz) (r_buf req1) s1)
         else if mc_atomics c
         then map_option (\<lambda>(out, s2). (IO_REQ_DONE, req1\<lparr>r_second := out\<rparr>, s2))
                (memory_handle_atomic offset sz (r_buf req1) (r_second req1) (r_opcode req)
                   (r_initiator req) s1)
         else Some (IO_REQ_DONE, req1\<lparr>r_resp := IO_RESP_INVALID\<rparr>, s1))"

section \<open>Bounds\<close>

abbreviation mem_offset :: "memory_cfg \<Rightarrow> mem_req \<Rightarrow> u64" where
  "mem_offset c req \<equiv> r_addr req AND memory_truncate_mask c"

definition memory_wf :: "memory_cfg \<Rightarrow> memory \<Rightarrow> bool" where
  [inv_defs]: "memory_wf c s \<longleftrightarrow> length (mm_data s) = unat (mc_size c)"

definition memory_in_bounds :: "memory_cfg \<Rightarrow> mem_req \<Rightarrow> bool" where
  "memory_in_bounds c req \<longleftrightarrow> unat (mem_offset c req) + unat (r_size req) \<le> unat (mc_size c)"

lemma memory_account_simps [simp]:
  "mm_data (memory_account cy per off req s) = mm_data s"
  "mm_powered_up (memory_account cy per off req s) = mm_powered_up s"
  "mm_res_table (memory_account cy per off req s) = mm_res_table s"
  by (simp_all add: memory_account_def Let_def split: prod.splits)

lemma in_bounds_check:
  fixes a b m :: u64
  assumes "unat a + unat b \<le> unat m"
  shows "\<not> m < a + b"
proof -
  have "unat a + unat b < 2 ^ LENGTH(64)" using assms unat_lt2p[of m] by simp
  then show ?thesis using assms by (simp add: word_less_nat_alt unat_add_no_wrap)
qed

lemma memory_handle_write_eq:
  assumes "mm_powered_up s" and "off + n \<le> length (mm_data s)" and "n \<le> length d"
  shows "memory_handle_write off n (Some d) s =
    Some (s\<lparr>mm_data := take off (mm_data s) @ take n d @ drop (off + n) (mm_data s)\<rparr>)"
  using assms by (simp add: memory_handle_write_def blit_def)

lemma memory_handle_read_eq:
  assumes "mm_powered_up s" and "off + n \<le> length (mm_data s)" and "n \<le> length d"
  shows "memory_handle_read off n (Some d) s = Some (Some (take n (drop off (mm_data s)) @ drop n d))"
  using assms by (simp add: memory_handle_read_def blit_def bslice_def)

lemma memory_req_read:
  assumes "memory_wf c s" and "memory_in_bounds c r" and "r_opcode r = READ"
    and "mm_powered_up s" and "r_buf r = Some d" and "unat (r_size r) \<le> length d"
  shows "memory_req c cy per r s = Some (IO_REQ_DONE,
      r\<lparr>r_latency := r_latency r + mc_latency c,
        r_buf := Some (take (unat (r_size r)) (drop (unat (mem_offset c r)) (mm_data s)) @
                       drop (unat (r_size r)) d)\<rparr>,
      memory_account cy per (mem_offset c r) r s)"
  using assms in_bounds_check[of "mem_offset c r" "r_size r" "mc_size c"]
  by (simp add: memory_req_def Let_def memory_handle_read_eq memory_in_bounds_def memory_wf_def)

lemma memory_req_write:
  assumes "memory_wf c s" and "memory_in_bounds c w" and "r_opcode w = WRITE"
    and "mm_powered_up s" and "r_buf w = Some d" and "unat (r_size w) \<le> length d"
  shows "memory_req c cy per w s = Some (IO_REQ_DONE, w\<lparr>r_latency := r_latency w + mc_latency c\<rparr>,
      (memory_account cy per (mem_offset c w) w s)\<lparr>mm_data :=
         take (unat (mem_offset c w)) (mm_data s) @ take (unat (r_size w)) d @
         drop (unat (mem_offset c w) + unat (r_size w)) (mm_data s)\<rparr>)"
  using assms in_bounds_check[of "mem_offset c w" "r_size w" "mc_size c"]
  by (simp add: memory_req_def Let_def memory_handle_write_eq memory_in_bounds_def memory_wf_def)

section \<open>Reads and writes\<close>

text \<open>C15: What a write stores is what a later read of the same range returns: for every
  in-bounds, powered access, whatever its size, address and buffers, and nothing is lost of the
  rest of the reader's buffer. The write changes the bytes of its range and no other byte of the memory,
  and the read changes none.\<close>

theorem memory_write_read:
  assumes "memory_wf c s" and "mm_powered_up s"
    and "memory_in_bounds c w" and "r_opcode w = WRITE" and "r_buf w = Some d" and "unat (r_size w) \<le> length d"
    and "r_opcode r = READ" and "r_addr r = r_addr w" and "r_size r = r_size w"
    and "r_buf r = Some buf" and "unat (r_size r) \<le> length buf"
  shows "\<exists>w' s' r' s''. memory_req c cy per w s = Some (IO_REQ_DONE, w', s') \<and>
     memory_req c cy' per' r s' = Some (IO_REQ_DONE, r', s'') \<and>
     r_buf r' = Some (take (unat (r_size w)) d @ drop (unat (r_size w)) buf) \<and>
     r_latency r' = r_latency r + mc_latency c \<and> r_resp r' = r_resp r \<and>
     length (mm_data s') = length (mm_data s) \<and>
     (\<forall>i < length (mm_data s). mm_data s' ! i = (if unat (mem_offset c w) \<le> i \<and> i < unat (mem_offset c w) + unat (r_size w)
        then d ! (i - unat (mem_offset c w)) else mm_data s ! i)) \<and>
     mm_data s'' = mm_data s'"
proof -
  let ?off = "unat (mem_offset c w)" and ?n = "unat (r_size w)"
  let ?m = "take ?off (mm_data s) @ take ?n d @ drop (?off + ?n) (mm_data s)"
  let ?s' = "(memory_account cy per (mem_offset c w) w s)\<lparr>mm_data := ?m\<rparr>"
  have le: "?off + ?n \<le> length (mm_data s)" using assms by (simp add: memory_in_bounds_def memory_wf_def)
  have w: "memory_req c cy per w s = Some (IO_REQ_DONE, w\<lparr>r_latency := r_latency w + mc_latency c\<rparr>, ?s')"
    using assms by (intro memory_req_write) simp_all
  have wf: "memory_wf c ?s'" using le assms by (simp add: memory_wf_def)
  have in_b: "memory_in_bounds c r" using assms by (simp add: memory_in_bounds_def)
  have off: "mem_offset c r = mem_offset c w" using assms by simp
  have "take ?n (drop ?off ?m) = take ?n d" using le assms(6) by simp
  moreover have "length ?m = length (mm_data s)" using le assms(6) by simp
  moreover have "\<forall>i < length (mm_data s). ?m ! i = (if ?off \<le> i \<and> i < ?off + ?n then d ! (i - ?off) else mm_data s ! i)"
    using le assms(6) by (auto simp: nth_append)
  ultimately show ?thesis
    using w memory_req_read[OF wf in_b assms(7) _ assms(10,11), of cy' per'] assms off
    by simp
qed

text \<open>A frame property: a write leaves every disjoint range of the memory as it was.\<close>

lemma memory_write_frame:
  assumes "memory_wf c s" and "mm_powered_up s"
    and "memory_in_bounds c w" and "r_opcode w = WRITE" and "r_buf w = Some d" and "unat (r_size w) \<le> length d"
    and "memory_req c cy per w s = Some (st, w', s')"
    and "o' + n \<le> unat (mem_offset c w) \<or> unat (mem_offset c w) + unat (r_size w) \<le> o'"
  shows "bslice o' n (mm_data s') = bslice o' n (mm_data s)"
proof -
  have le: "unat (mem_offset c w) + unat (r_size w) \<le> length (mm_data s)"
    using assms by (simp add: memory_in_bounds_def memory_wf_def)
  have "blit (unat (mem_offset c w)) (unat (r_size w)) d (mm_data s) = Some (mm_data s')"
    using assms memory_req_write[OF assms(1,3,4,2,5,6), of cy per] le by (auto simp: blit_def)
  then show ?thesis using assms(8) by (rule bslice_blit_disjoint)
qed

text \<open>C39: A request that ends beyond the memory, with no wrap of the 64-bit end address, is answered at once
  with \<open>IO_RESP_INVALID\<close>. Of the request only the status and the latency change, of the memory only what
  accounts for every access: its counters and its log; contents and reservations are as before.\<close>

theorem memory_out_of_bounds:
  assumes "unat (mc_size c) < unat (mem_offset c r) + unat (r_size r)"
    and "unat (mem_offset c r) + unat (r_size r) < 2 ^ 64"
  shows "\<exists>s'. memory_req c cy per r s
       = Some (IO_REQ_DONE, r\<lparr>r_latency := r_latency r + mc_latency c, r_resp := IO_RESP_INVALID\<rparr>, s') \<and>
     mm_data s' = mm_data s \<and> mm_res_table s' = mm_res_table s \<and> mm_powered_up s' = mm_powered_up s"
proof -
  have "mc_size c < mem_offset c r + r_size r"
    using assms by (simp add: word_less_nat_alt unat_add_no_wrap)
  then show ?thesis by (simp add: memory_req_def Let_def)
qed

text \<open>The bounds check adds offset and size in 64 bits: without truncation, an access whose end
  wraps past 2^64 passes the check although it lies outside of the memory, and the copy runs out of
  the block.\<close>

theorem memory_bounds_check_wraps:
  assumes "memory_wf c s" and "mm_powered_up s" and "\<not> mc_truncate c"
    and "2 ^ 64 \<le> unat (r_addr r) + unat (r_size r)"
    and "unat (r_addr r + r_size r) \<le> unat (mc_size c)"
    and "r_opcode r = READ" and "r_buf r = Some d"
  shows "memory_req c cy per r s = None"
proof -
  have off: "mem_offset c r = r_addr r" using assms(3) by (simp add: memory_truncate_mask_def)
  have "unat (mc_size c) < 2 ^ 64" using unat_lt2p[of "mc_size c"] by simp
  then have big: "length (mm_data s) < unat (r_addr r) + unat (r_size r)"
    using assms(1,4) by (simp add: memory_wf_def)
  have pass: "\<not> mc_size c < r_addr r + r_size r" using assms(5) by (simp add: word_less_nat_alt)
  have "memory_handle_read (unat (r_addr r)) (unat (r_size r)) (Some d)
      (memory_account cy per (r_addr r) r s) = None"
    using assms(2) by (simp add: memory_handle_read_def bslice_undefined[OF big])
  then show ?thesis using off pass assms(6,7) by (simp add: memory_req_def Let_def)
qed

section \<open>Atomics\<close>

definition sx :: "nat \<Rightarrow> u64 \<Rightarrow> u64" where
  "sx n v = (if n < 8 then signed_drop_bit (64 - 8 * n) (push_bit (64 - 8 * n) v) else v)"

lemma sign_narrow_eq: "0 < n \<Longrightarrow> n \<le> 8 \<Longrightarrow> sign_narrow n v = Some (sx n v)"
  by (simp add: sign_narrow_def mem_get_signed_value_def sx_def mult.commute)

lemma memory_handle_atomic_eq:
  assumes "mm_powered_up s" and n: "n = unat sz" "0 < n" "n \<le> 8"
    and "unat addr + n \<le> length (mm_data s)" and "n \<le> length d"
    and "\<And>od. out = Some od \<Longrightarrow> n \<le> length od"
  shows "memory_handle_atomic addr sz (Some d) out opc i s =
    (case atomic_switch opc addr sz i (sx n (le_word (take n (drop (unat addr) (mm_data s)))))
            (sx n (le_word (take n d))) (mm_res_table s) of
       None \<Rightarrow> Some (out, s)
     | Some (ret, store, t) \<Rightarrow>
         Some (map_option (\<lambda>od. take n (le_bytes 8 ret) @ drop n od) out,
           (case store of None \<Rightarrow> s\<lparr>mm_res_table := t\<rparr>
            | Some r \<Rightarrow> s\<lparr>mm_res_table := t, mm_data := take (unat addr) (mm_data s) @
                take n (le_bytes 8 r) @ drop (unat addr + n) (mm_data s)\<rparr>)))"
proof -
  have b: "blit 0 n d (replicate 8 0) = Some (take n d @ replicate (8 - n) 0)"
    using assms by (simp add: blit_def)
  have rd: "memory_handle_read (unat addr) n (Some (replicate 8 0)) s =
      Some (Some (take n (drop (unat addr) (mm_data s)) @ replicate (8 - n) 0))"
    using assms by (subst memory_handle_read_eq) simp_all
  show ?thesis
    unfolding memory_handle_atomic_def Let_def n(1)[symmetric] option.case b rd prod.case le_word_append_zeros
      sign_narrow_eq[OF n(2,3)]
    using assms
    by (auto simp: blit_def memory_handle_write_def split: option.splits)
qed

fun amo_spec :: "io_opcode \<Rightarrow> 'a::len word \<Rightarrow> 'a word \<Rightarrow> 'a word option" where
  "amo_spec SWAP p x = Some x"
| "amo_spec ADD p x = Some (p + x)"
| "amo_spec XOR' p x = Some (p XOR x)"
| "amo_spec AND' p x = Some (p AND x)"
| "amo_spec OR' p x = Some (p OR x)"
| "amo_spec MIN' p x = Some (if sint x < sint p then x else p)"
| "amo_spec MAX' p x = Some (if sint x > sint p then x else p)"
| "amo_spec MINU p x = Some (min p x)"
| "amo_spec MAXU p x = Some (max p x)"
| "amo_spec _ p x = None"


lemma sx_scast: "sx 4 (ucast (a :: u32)) = scast a"
proof (rule bit_word_eqI)
  fix i assume "i < LENGTH(64)"
  then have i: "i < 64" by simp
  have bl: "bit a j \<Longrightarrow> j < 32" for j using bit_imp_le_length[of a j] by simp
  consider "i < 31" | "i = 31" | "32 \<le> i" by linarith
  then show "bit (sx 4 (ucast a)) i = bit (scast a :: u64) i"
    by cases (use i bl in \<open>auto simp: sx_def bit_signed_drop_bit_iff bit_push_bit_iff bit_ucast_iff bit_signed_iff min_def\<close>)
qed
lemma sx_ucast: "sx 4 v = scast (ucast v :: u32)"
proof -
  have "push_bit 32 v = push_bit 32 (ucast (ucast v :: u32))"
    by (rule bit_word_eqI) (auto simp: bit_push_bit_iff bit_ucast_iff)
  then have "sx 4 v = sx 4 (ucast (ucast v :: u32))" by (simp add: sx_def)
  then show ?thesis by (simp add: sx_scast)
qed

lemma le_bytes_4_ucast: "le_bytes 4 v = le_bytes 4 (ucast (ucast v :: u32))"
proof (rule nth_equalityI)
  fix i assume "i < length (le_bytes 4 v)"
  then have i: "i < 4" by simp
  have "ucast (drop_bit (8 * i) v) = (ucast (drop_bit (8 * i) (ucast (ucast v :: u32) :: u64)) :: u8)"
    using i by (intro bit_word_eqI) (auto simp: bit_ucast_iff bit_drop_bit_eq)
  then show "le_bytes 4 v ! i = le_bytes 4 (ucast (ucast v :: u32)) ! i" using i by (simp add: le_bytes_def)
qed simp

lemma take_le_bytes: "n \<le> m \<Longrightarrow> take n (le_bytes m w) = le_bytes n w"
  by (simp add: le_bytes_def take_map)

text \<open>The 32-bit read-modify-write operations, on the bytes of the memory: the narrow arithmetic of
  \<open>amo_spec\<close> is what the 64-bit \<open>switch\<close> computes on sign-extended operands.\<close>

lemma amo_narrow: "map_option ucast (amo_result opc (scast (p :: u32)) (scast x)) = amo_spec opc p x"
proof -
  note u = ucast_scast_id[where 'a = 32 and 'b = 64] and n = sint_scast[where 'a = 32 and 'b = 64]
    and l = scast_less[where 'a = 32 and 'b = 64]
  have add: "ucast (scast p + scast x :: u64) = p + x"
    and xor: "ucast (scast p XOR scast x :: u64) = p XOR x"
    and an: "ucast (scast p AND scast x :: u64) = p AND x"
    and orr: "ucast (scast p OR scast x :: u64) = p OR x"
    using u[of p] u[of x]
    by (simp_all add: unsigned_xor_eq unsigned_and_eq unsigned_or_eq ucast_add_down)
  show ?thesis
    by (cases opc) (auto simp: u n l add xor an orr min_def max_def not_less word_eq_iff_signed[where ?'a = int])
qed

section \<open>Atomic requests\<close>

lemma memory_req_atomic:
  assumes "memory_in_bounds c r" and "r_opcode r \<noteq> READ" and "r_opcode r \<noteq> WRITE" and "mc_atomics c"
  shows "memory_req c cy per r s =
    map_option (\<lambda>(out, s2). (IO_REQ_DONE, r\<lparr>r_latency := r_latency r + mc_latency c, r_second := out\<rparr>, s2))
      (memory_handle_atomic (mem_offset c r) (r_size r) (r_buf r) (r_second r) (r_opcode r) (r_initiator r)
        (memory_account cy per (mem_offset c r) r s))"
  using assms in_bounds_check[of "mem_offset c r" "r_size r" "mc_size c"]
  by (simp add: memory_req_def Let_def memory_in_bounds_def)

text \<open>What an atomic access needs of its request: both buffers and a size of 1 to 8 bytes.\<close>

definition atomic_ready :: "memory_cfg \<Rightarrow> mem_req \<Rightarrow> memory \<Rightarrow> bool" where
  "atomic_ready c r s \<longleftrightarrow> memory_wf c s \<and> mm_powered_up s \<and> mc_atomics c \<and> memory_in_bounds c r \<and>
     0 < unat (r_size r) \<and> unat (r_size r) \<le> 8 \<and>
     (\<exists>d. r_buf r = Some d \<and> unat (r_size r) \<le> length d) \<and>
     (\<exists>od. r_second r = Some od \<and> unat (r_size r) \<le> length od)"

lemma memory_req_atomic_eq:
  assumes "atomic_ready c r s" and "r_opcode r \<noteq> READ" and "r_opcode r \<noteq> WRITE"
    and "r_buf r = Some d" and "r_second r = Some od"
    and "n = unat (r_size r)" and "off = unat (mem_offset c r)"
  shows "memory_req c cy per r s =
    (case atomic_switch (r_opcode r) (mem_offset c r) (r_size r) (r_initiator r)
            (sx n (le_word (take n (drop off (mm_data s))))) (sx n (le_word (take n d))) (mm_res_table s) of
       None \<Rightarrow> Some (IO_REQ_DONE, r\<lparr>r_latency := r_latency r + mc_latency c\<rparr>,
                 memory_account cy per (mem_offset c r) r s)
     | Some (ret, store, t) \<Rightarrow> Some (IO_REQ_DONE,
           r\<lparr>r_latency := r_latency r + mc_latency c, r_second := Some (le_bytes n ret @ drop n od)\<rparr>,
           (case store of None \<Rightarrow> (memory_account cy per (mem_offset c r) r s)\<lparr>mm_res_table := t\<rparr>
            | Some v \<Rightarrow> (memory_account cy per (mem_offset c r) r s)\<lparr>mm_res_table := t,
                mm_data := take off (mm_data s) @ le_bytes n v @ drop (off + n) (mm_data s)\<rparr>)))"
proof -
  let ?s = "memory_account cy per (mem_offset c r) r s"
  have ready: "mc_atomics c" "memory_in_bounds c r" "mm_powered_up ?s" "0 < n" "n \<le> 8"
    "n \<le> length d" "n \<le> length od" "off + n \<le> length (mm_data ?s)"
    using assms by (auto simp: atomic_ready_def memory_wf_def memory_in_bounds_def)
  have eq: "memory_handle_atomic (mem_offset c r) (r_size r) (Some d) (Some od) (r_opcode r) (r_initiator r) ?s =
    (case atomic_switch (r_opcode r) (mem_offset c r) (r_size r) (r_initiator r)
            (sx n (le_word (take n (drop (unat (mem_offset c r)) (mm_data ?s)))))
            (sx n (le_word (take n d))) (mm_res_table ?s) of
       None \<Rightarrow> Some (Some od, ?s)
     | Some (ret, store, t) \<Rightarrow>
         Some (map_option (\<lambda>od. take n (le_bytes 8 ret) @ drop n od) (Some od),
           (case store of None \<Rightarrow> ?s\<lparr>mm_res_table := t\<rparr>
            | Some v \<Rightarrow> ?s\<lparr>mm_res_table := t, mm_data := take (unat (mem_offset c r)) (mm_data ?s) @
                take n (le_bytes 8 v) @ drop (unat (mem_offset c r) + n) (mm_data ?s)\<rparr>)))"
    using ready assms(6,7) by (intro memory_handle_atomic_eq) auto
  have upd: "r\<lparr>r_latency := l, r_second := Some od\<rparr> = r\<lparr>r_latency := l\<rparr>" for l
    using assms(5) by (cases r) simp
  show ?thesis
    using memory_req_atomic[OF ready(2) assms(2,3) ready(1), of cy per s] ready(5) assms(4-7)
    by (simp add: eq upd take_le_bytes split: option.splits)
qed

lemma amo_spec_result:
  assumes "amo_spec opc (ucast a :: u32) (ucast b) = Some res"
  obtains v where "amo_result opc (sx 4 a) (sx 4 b) = Some v" and "ucast v = res"
  using assms amo_narrow[of opc "ucast a" "ucast b"] by (auto simp: sx_ucast)

lemma atomic_switch_amo:
  assumes "amo_result opc p x = Some v"
  shows "atomic_switch opc a sz i p x t = Some (p, Some v, t)"
  using assms by (cases opc) (simp_all add: atomic_switch_def)

text \<open>A 32-bit read-modify-write returns the old bytes of the word in the second buffer and
  leaves in memory, in place of that word only, the 32-bit result of the operation (\<open>amo_spec\<close>: the
  RISC-V arithmetic on 32-bit words, signed and unsigned minimum and maximum included).\<close>

theorem memory_amo_word:
  assumes "atomic_ready c r s" and "unat (r_size r) = 4" and "r_buf r = Some d" and "r_second r = Some od"
    and "off = unat (mem_offset c r)" and "old = take 4 (drop off (mm_data s))"
    and "amo_spec (r_opcode r) (ucast (le_word old) :: u32) (ucast (le_word (take 4 d))) = Some res"
  shows "\<exists>r' s'. memory_req c cy per r s = Some (IO_REQ_DONE, r', s') \<and>
    r_second r' = Some (old @ drop 4 od) \<and>
    mm_data s' = take off (mm_data s) @ le_bytes 4 (ucast res) @ drop (off + 4) (mm_data s) \<and>
    mm_res_table s' = mm_res_table s"
proof -
  obtain v where v: "amo_result (r_opcode r) (sx 4 (le_word old)) (sx 4 (le_word (take 4 d))) = Some v"
    and res: "ucast v = res" using assms(7) by (rule amo_spec_result)
  have "length old = 4" using assms by (auto simp: atomic_ready_def memory_wf_def memory_in_bounds_def)
  then have old: "le_bytes 4 (sx 4 (le_word old)) = old"
    using le_bytes_4_ucast[of "le_word old"] le_bytes_le_word[of old]
    by (simp add: sx_ucast le_bytes_4_ucast[of "scast _"] ucast_scast_id)
  have new: "le_bytes 4 v = le_bytes 4 (ucast res)" using le_bytes_4_ucast[of v] res by simp
  have opc: "r_opcode r \<noteq> READ" "r_opcode r \<noteq> WRITE" using assms(7) by (cases "r_opcode r"; simp)+
  show ?thesis
    unfolding memory_req_atomic_eq[OF assms(1) opc assms(3,4) assms(2)[symmetric] assms(5)]
      assms(6)[symmetric] atomic_switch_amo[OF v]
    by (simp add: old new)
qed

section \<open>Load-reserved / store-conditional\<close>

lemma memory_sc_eq:
  assumes "atomic_ready c r s" and "r_opcode r = SC" and "r_buf r = Some d" and "r_second r = Some od"
    and "n = unat (r_size r)" and "off = unat (mem_offset c r)"
  shows "\<exists>r' s'. memory_req c cy per r s = Some (IO_REQ_DONE, r', s') \<and>
    (if mm_res_table s (r_initiator r) = Some (mem_offset c r)
     then r_second r' = Some (le_bytes n 0 @ drop n od) \<and>
          mm_data s' = take off (mm_data s) @ le_bytes n (sx n (le_word (take n d))) @ drop (off + n) (mm_data s) \<and>
          mm_res_table s' = kill_reservations (mem_offset c r) (r_size r) (mm_res_table s)
     else r_second r' = Some (le_bytes n 1 @ drop n od) \<and> mm_data s' = mm_data s \<and>
          mm_res_table s' = mm_res_table s) \<and>
    mm_powered_up s' = mm_powered_up s \<and> length (mm_data s') = length (mm_data s)"
proof -
  have opc: "r_opcode r \<noteq> READ" "r_opcode r \<noteq> WRITE" using assms(2) by simp_all
  have le: "off + n \<le> length (mm_data s)"
    using assms by (auto simp: atomic_ready_def memory_wf_def memory_in_bounds_def)
  show ?thesis
    unfolding memory_req_atomic_eq[OF assms(1) opc assms(3-6)] assms(2)
    using le by (simp add: atomic_switch_def)
qed

lemma atomic_ready_cong:
  assumes "atomic_ready c r s" and "length (mm_data s') = length (mm_data s)" and "mm_powered_up s'"
  shows "atomic_ready c r s'"
  using assms by (simp add: atomic_ready_def memory_wf_def)

text \<open>A store-conditional that holds its reservation stores and answers 0; it also consumes every
  reservation on the range, so that a second store-conditional to the same address, by the same or
  any other initiator, answers 1 and stores nothing.\<close>

theorem memory_sc_exclusive:
  assumes "atomic_ready c r s" and "r_opcode r = SC" and "r_buf r = Some d" and "r_second r = Some od"
    and "mm_res_table s (r_initiator r) = Some (mem_offset c r)"
    and "atomic_ready c q s" and "r_opcode q = SC" and "r_second q = Some oq"
    and "mem_offset c q = mem_offset c r"
  shows "\<exists>r' s' q' s''. memory_req c cy per r s = Some (IO_REQ_DONE, r', s') \<and>
    r_second r' = Some (le_bytes (unat (r_size r)) 0 @ drop (unat (r_size r)) od) \<and>
    memory_req c cy' per' q s' = Some (IO_REQ_DONE, q', s'') \<and>
    r_second q' = Some (le_bytes (unat (r_size q)) 1 @ drop (unat (r_size q)) oq) \<and>
    mm_data s'' = mm_data s'"
proof -
  obtain r' s' where sc: "memory_req c cy per r s = Some (IO_REQ_DONE, r', s')"
    "r_second r' = Some (le_bytes (unat (r_size r)) 0 @ drop (unat (r_size r)) od)"
    "mm_res_table s' = kill_reservations (mem_offset c r) (r_size r) (mm_res_table s)"
    "mm_powered_up s' = mm_powered_up s" "length (mm_data s') = length (mm_data s)"
    using memory_sc_eq[OF assms(1-4) refl refl, of cy per] assms(5) by auto
  have pw: "mm_powered_up s" using assms(1) by (simp add: atomic_ready_def)
  have ready: "atomic_ready c q s'"
    using assms(6) by (rule atomic_ready_cong) (use sc(4,5) pw in simp_all)
  obtain dq where dq: "r_buf q = Some dq" using assms(6) by (auto simp: atomic_ready_def)
  have b: "0 < unat (r_size r)" "unat (mem_offset c r) + unat (r_size r) \<le> unat (mc_size c)"
    using assms(1) by (simp_all add: atomic_ready_def memory_in_bounds_def)
  have lt: "unat (mem_offset c r) + unat (r_size r) < 2 ^ 64"
    using b(2) unat_lt2p[of "mc_size c"] by simp
  have in_range: "mem_offset c r < mem_offset c r + r_size r"
    using b(1) lt by (simp add: word_less_nat_alt unat_add_no_wrap)
  have top: "mem_offset c r \<noteq> -1"
    using order_less_le_trans[OF in_range word_order.extremum] by simp
  have "kill_reservations (mem_offset c r) (r_size r) (mm_res_table s) i \<noteq> Some (mem_offset c r)" for i
    using in_range top by (auto simp: kill_reservations_def split: option.splits)
  then have "mm_res_table s' (r_initiator q) \<noteq> Some (mem_offset c q)" using sc(3) assms(9) by simp
  then show ?thesis
    using memory_sc_eq[OF ready assms(7) dq assms(8) refl refl, of cy' per'] sc(1,2) by auto
qed

text \<open>An ordinary store does not end a reservation: whatever any initiator writes, to the reserved
  word included, between the load-reserved and the store-conditional, the store-conditional
  succeeds and overwrites it (RISC-V requires it to fail).\<close>

theorem memory_store_keeps_reservation:
  assumes "atomic_ready c r s" and "r_opcode r = SC" and "r_buf r = Some d" and "r_second r = Some od"
    and "mm_res_table s (r_initiator r) = Some (mem_offset c r)"
    and "memory_in_bounds c w" and "r_opcode w = WRITE" and "r_buf w = Some dw" and "unat (r_size w) \<le> length dw"
  shows "\<exists>w' s' r' s''. memory_req c cy per w s = Some (IO_REQ_DONE, w', s') \<and>
    memory_req c cy' per' r s' = Some (IO_REQ_DONE, r', s'') \<and>
    r_second r' = Some (le_bytes (unat (r_size r)) 0 @ drop (unat (r_size r)) od)"
proof -
  have wf: "memory_wf c s" and pw: "mm_powered_up s" using assms(1) by (simp_all add: atomic_ready_def)
  obtain w' s' where w: "memory_req c cy per w s = Some (IO_REQ_DONE, w', s')"
    "mm_res_table s' = mm_res_table s" "mm_powered_up s' = mm_powered_up s" "length (mm_data s') = length (mm_data s)"
    using memory_req_write[OF wf assms(6,7) pw assms(8,9), of cy per] assms(6,9) wf
    by (auto simp: memory_in_bounds_def memory_wf_def)
  have "atomic_ready c r s'"
    using assms(1) by (rule atomic_ready_cong) (use w(3,4) pw in simp_all)
  from memory_sc_eq[OF this assms(2-4) refl refl, of cy' per'] show ?thesis
    using w assms(5) by auto
qed

section \<open>No access outside of a block\<close>

definition mem_req_ok :: "memory_cfg \<Rightarrow> mem_req \<Rightarrow> bool" where
  "mem_req_ok c r \<longleftrightarrow>
     unat (mem_offset c r) + unat (r_size r) < 2 ^ 64 \<and>
     (\<forall>d. r_buf r = Some d \<longrightarrow> unat (r_size r) \<le> length d) \<and>
     (\<forall>d. r_second r = Some d \<longrightarrow> unat (r_size r) \<le> length d) \<and>
     (r_opcode r \<noteq> READ \<and> r_opcode r \<noteq> WRITE \<longrightarrow>
        r_buf r \<noteq> None \<and> 0 < unat (r_size r) \<and> unat (r_size r) \<le> 8)"

lemma memory_handle_read_defined:
  assumes "off + n \<le> length (mm_data s)" and "\<And>d. b = Some d \<Longrightarrow> n \<le> length d"
  obtains b' where "memory_handle_read off n b s = Some b'" and "b = None \<longleftrightarrow> b' = None"
  using assms by (cases b; cases "mm_powered_up s") (auto simp: memory_handle_read_def blit_def bslice_def)

lemma memory_handle_write_defined:
  assumes "off + n \<le> length (mm_data s)" and "\<And>d. b = Some d \<Longrightarrow> n \<le> length d"
  obtains s' where "memory_handle_write off n b s = Some s'" and "length (mm_data s') = length (mm_data s)"
  using assms by (cases b; cases "mm_powered_up s") (auto simp: memory_handle_write_def blit_def)

lemma memory_handle_atomic_defined:
  assumes b: "unat addr + unat sz \<le> length (mm_data s)" and n: "0 < unat sz" "unat sz \<le> 8"
    and d: "unat sz \<le> length d" and out: "\<And>od. out = Some od \<Longrightarrow> unat sz \<le> length od"
  obtains out' s' where "memory_handle_atomic addr sz (Some d) out opc i s = Some (out', s')"
    and "length (mm_data s') = length (mm_data s)"
proof -
  let ?n = "unat sz"
  obtain ob where ob: "blit 0 ?n d (replicate 8 0) = Some ob"
    using n d by (auto simp: blit_def)
  obtain pb where pb: "memory_handle_read (unat addr) ?n (Some (replicate 8 0)) s = Some (Some pb)"
    using b n by (auto intro: memory_handle_read_defined[of "unat addr" ?n s "Some (replicate 8 0)"])
  show ?thesis
  proof (cases "atomic_switch opc addr sz i (sx ?n (le_word pb)) (sx ?n (le_word ob)) (mm_res_table s)")
    case None
    then show ?thesis using that[of out s] ob pb n
      by (simp add: memory_handle_atomic_def sign_narrow_eq)
  next
    case (Some x)
    obtain ret store t where x: "x = (ret, store, t)" by (cases x) auto
    let ?s1 = "s\<lparr>mm_res_table := t\<rparr>"
    obtain o' where o': "(case out of None \<Rightarrow> Some None
        | Some od \<Rightarrow> map_option Some (blit 0 ?n (le_bytes 8 ret) od)) = Some o'"
      using out n by (cases out) (auto simp: blit_def)
    show ?thesis
    proof (cases store)
      case None
      then show ?thesis using that[of o' ?s1] ob pb n Some x o'
        by (simp add: memory_handle_atomic_def sign_narrow_eq)
    next
      case (Some r)
      obtain s2 where "memory_handle_write (unat addr) ?n (Some (le_bytes 8 r)) ?s1 = Some s2"
        "length (mm_data s2) = length (mm_data s)"
        using b n by (auto intro: memory_handle_write_defined[of "unat addr" ?n ?s1 "Some (le_bytes 8 r)"])
      then show ?thesis using that[of o' s2] ob pb n \<open>atomic_switch _ _ _ _ _ _ _ = Some x\<close> x o' Some
        by (simp add: memory_handle_atomic_def sign_narrow_eq)
    qed
  qed
qed

text \<open>As long as the end address does not wrap, no request makes the memory read or write outside
  of its block or of the request's buffers, powered or not, in range or not: every request is
  answered \<open>IO_REQ_DONE\<close> and the memory keeps its size.\<close>

theorem memory_no_undefined_access:
  assumes wf: "memory_wf c s" and ok: "mem_req_ok c r"
  shows "\<exists>r' s'. memory_req c cy per r s = Some (IO_REQ_DONE, r', s') \<and> memory_wf c s'"
proof (cases "memory_in_bounds c r")
  case False
  then have "mc_size c < mem_offset c r + r_size r"
    using ok by (simp add: memory_in_bounds_def mem_req_ok_def word_less_nat_alt unat_add_no_wrap)
  then show ?thesis using wf by (simp add: memory_req_def Let_def memory_wf_def)
next
  case True
  let ?s = "memory_account cy per (mem_offset c r) r s" and ?off = "unat (mem_offset c r)" and ?n = "unat (r_size r)"
  have b: "?off + ?n \<le> length (mm_data ?s)" using True wf by (simp add: memory_in_bounds_def memory_wf_def)
  have chk: "\<not> mc_size c < mem_offset c r + r_size r"
    using True by (intro in_bounds_check) (simp add: memory_in_bounds_def)
  have lens: "\<And>d. r_buf r = Some d \<Longrightarrow> ?n \<le> length d" "\<And>d. r_second r = Some d \<Longrightarrow> ?n \<le> length d"
    using ok by (simp_all add: mem_req_ok_def)
  consider "r_opcode r = READ" | "r_opcode r = WRITE" | "r_opcode r \<noteq> READ" "r_opcode r \<noteq> WRITE" by blast
  then show ?thesis
  proof cases
    case 1
    obtain b' where "memory_handle_read ?off ?n (r_buf r) ?s = Some b'"
      using memory_handle_read_defined[OF b lens(1)] by blast
    then show ?thesis using 1 chk wf by (simp add: memory_req_def Let_def memory_wf_def)
  next
    case 2
    obtain s2 where "memory_handle_write ?off ?n (r_buf r) ?s = Some s2"
      "length (mm_data s2) = length (mm_data ?s)"
      using memory_handle_write_defined[OF b lens(1)] by blast
    then show ?thesis using 2 chk wf by (simp add: memory_req_def Let_def memory_wf_def)
  next
    case 3
    then obtain d where d: "r_buf r = Some d" "0 < ?n" "?n \<le> 8" using ok by (auto simp: mem_req_ok_def)
    obtain o' s2 where "memory_handle_atomic (mem_offset c r) (r_size r) (Some d) (r_second r)
        (r_opcode r) (r_initiator r) ?s = Some (o', s2)" "length (mm_data s2) = length (mm_data ?s)"
      using memory_handle_atomic_defined[OF b d(2,3) lens(1)[OF d(1)] lens(2)] by blast
    then show ?thesis using 3 d chk wf by (simp add: memory_req_def Let_def memory_wf_def)
  qed
qed

section \<open>A concrete memory\<close>

definition demo_cfg :: memory_cfg where
  "demo_cfg = \<lparr>mc_size = 16, mc_latency = 1, mc_truncate = True, mc_align = 0, mc_init = False, mc_atomics = True\<rparr>"

definition demo_mem :: "(u64 \<rightharpoonup> u64) \<Rightarrow> memory" where
  "demo_mem t = \<lparr>mm_data = [1, 2, 3, 4, 5, 6, 7, 8, 9, 10, 11, 12, 13, 14, 15, 16], mm_powered_up = True,
     mm_res_table = t, mm_reads = 0, mm_writes = 0, mm_bytes_read = 0, mm_bytes_written = 0,
     mm_log = access_log_init, mm_pulses = []\<rparr>"

definition demo_req :: "u64 \<Rightarrow> u64 \<Rightarrow> io_opcode \<Rightarrow> u64 \<Rightarrow> bytes \<Rightarrow> mem_req" where
  "demo_req a sz opc i d = \<lparr>r_addr = a, r_size = sz, r_is_write = (opc = WRITE), r_opcode = opc, r_data = 0,
     r_latency = 0, r_resp = IO_RESP_OK, r_remaining = 0, r_parent = 0, r_is_first = True, r_is_last = True,
     r_buf = Some d, r_second = Some [0, 0, 0, 0], r_initiator = i\<rparr>"

lemmas demo_defs = demo_cfg_def demo_mem_def demo_req_def memory_truncate_mask_def

lemma demo_ready: "atomic_ready demo_cfg (demo_req 4 4 opc i [255, 255, 255, 255]) (demo_mem t)"
  by (simp add: atomic_ready_def memory_wf_def memory_in_bounds_def demo_defs)

theorem memory_write_read_witness:
  "\<exists>w' s' r' s''. memory_req demo_cfg 0 1000 (demo_req 20 2 WRITE 1 [0xaa, 0xbb]) (demo_mem Map.empty)
       = Some (IO_REQ_DONE, w', s') \<and>
     memory_req demo_cfg 1 1000 (demo_req 20 2 READ 2 [0, 0, 7]) s' = Some (IO_REQ_DONE, r', s'') \<and>
     r_buf r' = Some [0xaa, 0xbb, 7] \<and> r_latency r' = 1 \<and> r_resp r' = IO_RESP_OK \<and> mm_data s'' = mm_data s'"
proof -
  define w where "w = demo_req 20 2 WRITE 1 [0xaa, 0xbb]"
  define r where "r = demo_req 20 2 READ 2 [0, 0, 7]"
  have h: "memory_wf demo_cfg (demo_mem Map.empty)" "mm_powered_up (demo_mem Map.empty)" "memory_in_bounds demo_cfg w"
    "r_opcode w = WRITE" "r_buf w = Some [0xaa, 0xbb]" "unat (r_size w) \<le> length [0xaa, 0xbb :: u8]"
    "r_opcode r = READ" "r_addr r = r_addr w" "r_size r = r_size w" "r_buf r = Some [0, 0, 7]"
    "unat (r_size r) \<le> length [0, 0, 7 :: u8]"
    by (simp_all add: memory_wf_def memory_in_bounds_def w_def r_def demo_defs)
  have v: "take (unat (r_size w)) [0xaa, 0xbb] @ drop (unat (r_size w)) [0, 0, 7] = [0xaa, 0xbb, 7 :: u8]"
    "r_latency r + mc_latency demo_cfg = 1" "r_resp r = IO_RESP_OK"
    by (simp_all add: w_def r_def demo_defs)
  show ?thesis using memory_write_read[OF h, of 0 1000 1 1000] unfolding v w_def[symmetric] r_def[symmetric] by blast
qed

theorem memory_out_of_bounds_witness:
  "\<exists>r' s'. memory_req demo_cfg 0 1000 (demo_req 14 4 READ 1 [0, 0, 0, 0]) (demo_mem Map.empty)
       = Some (IO_REQ_DONE, r', s') \<and> r_resp r' = IO_RESP_INVALID \<and> r_buf r' = Some [0, 0, 0, 0]"
  using memory_out_of_bounds[of demo_cfg "demo_req 14 4 READ 1 [0, 0, 0, 0]" 0 1000 "demo_mem Map.empty"]
  by (auto simp: demo_defs)

theorem memory_bounds_check_wraps_witness:
  "memory_req (demo_cfg\<lparr>mc_truncate := False\<rparr>) 0 1000
     (demo_req 0xFFFFFFFFFFFFFFFC 8 READ 1 [0, 0, 0, 0, 0, 0, 0, 0]) (demo_mem Map.empty) = None"
  by (rule memory_bounds_check_wraps) (simp_all add: memory_wf_def demo_defs)

theorem memory_amo_word_witness:
  "\<exists>r' s'. memory_req demo_cfg 0 1000 (demo_req 4 4 MINU 1 [255, 255, 255, 255]) (demo_mem Map.empty)
       = Some (IO_REQ_DONE, r', s') \<and> r_second r' = Some [5, 6, 7, 8] \<and>
     mm_data s' = mm_data (demo_mem Map.empty)"
proof -
  let ?r = "demo_req 4 4 MINU 1 [255, 255, 255, 255]" and ?s = "demo_mem Map.empty"
  have bytes: "le_bytes 4 0x08070605 = [5, 6, 7, 8]" by (simp add: le_bytes_def upt_rec)
  have r: "unat (r_size ?r) = 4" "r_buf ?r = Some [255, 255, 255, 255]" "r_second ?r = Some [0, 0, 0, 0]"
    "4 = unat (mem_offset demo_cfg ?r)" "[5, 6, 7, 8] = take 4 (drop 4 (mm_data ?s))"
    by (simp_all add: demo_defs)
  have "r_opcode ?r = MINU" "le_word [5, 6, 7, 8] = 0x08070605"
    "le_word (take 4 [255, 255, 255, 255]) = 0xFFFFFFFF" by (simp_all add: demo_req_def)
  then have res: "amo_spec (r_opcode ?r) (ucast (le_word [5, 6, 7, 8]) :: u32)
      (ucast (le_word (take 4 [255, 255, 255, 255]))) = Some 0x08070605"
    by (simp only: amo_spec.simps) (simp add: min_def)
  obtain r' s' where "memory_req demo_cfg 0 1000 ?r ?s = Some (IO_REQ_DONE, r', s')"
    "r_second r' = Some [5, 6, 7, 8]"
    "mm_data s' = take 4 (mm_data ?s) @ le_bytes 4 (ucast (0x08070605 :: u32)) @ drop (4 + 4) (mm_data ?s)"
    using memory_amo_word[OF demo_ready r res, of 0 1000] by auto
  moreover have "take 4 (mm_data ?s) @ le_bytes 4 (ucast (0x08070605 :: u32)) @ drop (4 + 4) (mm_data ?s) = mm_data ?s"
    by (simp add: bytes demo_mem_def)
  ultimately show ?thesis by (intro exI[of _ r'] exI[of _ s']) simp
qed

theorem memory_sc_exclusive_witness:
  "\<exists>r' s' q' s''. memory_req demo_cfg 0 1000 (demo_req 4 4 SC 1 [255, 255, 255, 255]) (demo_mem [1 \<mapsto> 4, 2 \<mapsto> 4])
       = Some (IO_REQ_DONE, r', s') \<and> r_second r' = Some [0, 0, 0, 0] \<and>
     memory_req demo_cfg 0 1000 (demo_req 4 4 SC 2 [255, 255, 255, 255]) s' = Some (IO_REQ_DONE, q', s'') \<and>
     r_second q' = Some [1, 0, 0, 0] \<and> mm_data s'' = mm_data s'"
  using memory_sc_exclusive[OF demo_ready[of SC 1 "[1 \<mapsto> 4, 2 \<mapsto> 4]"] _ _ _ _ demo_ready[of SC 2],
      of "[255, 255, 255, 255]" "[0, 0, 0, 0]" "[0, 0, 0, 0]" 0 1000 0 1000]
  by (simp add: demo_defs le_bytes_def upt_rec)

theorem memory_store_keeps_reservation_witness:
  "\<exists>w' s' r' s''. memory_req demo_cfg 0 1000 (demo_req 4 4 WRITE 2 [9, 9, 9, 9]) (demo_mem [1 \<mapsto> 4])
       = Some (IO_REQ_DONE, w', s') \<and>
     memory_req demo_cfg 0 1000 (demo_req 4 4 SC 1 [255, 255, 255, 255]) s' = Some (IO_REQ_DONE, r', s'') \<and>
     r_second r' = Some [0, 0, 0, 0]"
  using memory_store_keeps_reservation[OF demo_ready[of SC 1 "[1 \<mapsto> 4]"],
      of "[255, 255, 255, 255]" "[0, 0, 0, 0]" "demo_req 4 4 WRITE 2 [9, 9, 9, 9]" "[9, 9, 9, 9]" 0 1000 0 1000]
  by (simp add: memory_in_bounds_def demo_defs le_bytes_def upt_rec)

theorem memory_no_undefined_access_witness:
  "\<exists>r' s'. memory_req demo_cfg 0 1000 (demo_req 4 4 MAX' 1 [255, 255, 255, 255]) (demo_mem Map.empty)
       = Some (IO_REQ_DONE, r', s') \<and> memory_wf demo_cfg s'"
  by (rule memory_no_undefined_access) (simp_all add: memory_wf_def mem_req_ok_def demo_defs)

end
