(* ===== verification/LogIcoV2.thy ===== *)
theory LogIcoV2 imports IoV2 begin

text \<open>
  \<open>src/models/interco/log_ico_v2.cpp\<close>: the bank-interleaved crossbar with round-robin arbitration.
  Its state is \<open>in_election\<close> and, per bank, the mask of the inputs that were denied and the position
  where the next scan starts. What it does to its neighbours is a list of actions: it forwards a
  request to a bank, or arms its event. \<open>masters i\<close> are the requests master \<open>i\<close> issues inside
  its \<open>retry()\<close> callback, \<open>banks\<close> answers for the memories.
  \<open>None\<close> is a run that does not go on: a bank index beyond the vector of banks, or the failed
  assertion when a bank answers anything but \<open>IO_REQ_DONE\<close>.
\<close>

record log_ico_cfg =
  li_nb_masters :: nat
  li_nb_slaves :: nat
  li_interleaving_width :: nat

record bank_state =
  bk_pending_mask :: u64
  bk_rr_next :: nat

record log_ico =
  li_in_election :: bool
  li_banks :: "bank_state list"

datatype ico_action = Forward nat nat io_req | Enqueue nat

fun bit_len :: "nat \<Rightarrow> nat" where
  "bit_len n = (if n = 0 then 0 else Suc (bit_len (n div 2)))"

declare bit_len.simps [simp del]

text \<open>\<open>__builtin_clz\<close> of a non-zero 32-bit value, \<open>__builtin_ctzll\<close> of a non-zero 64-bit value.\<close>

definition clz32 :: "nat \<Rightarrow> nat" where "clz32 n = 32 - bit_len n"

definition ctz64 :: "u64 \<Rightarrow> nat" where
  "ctz64 w = length (takeWhile (\<lambda>i. \<not> bit w i) [0..<64])"

definition ceil_log2_u :: "nat \<Rightarrow> nat" where
  "ceil_log2_u n = (if n \<le> 1 then 0 else 32 - clz32 (n - 1))"

definition li_slave_bits :: "log_ico_cfg \<Rightarrow> nat" where
  "li_slave_bits c = ceil_log2_u (li_nb_slaves c)"

definition log_ico_reset :: "bool \<Rightarrow> log_ico \<Rightarrow> log_ico" where
  [handler_defs]: "log_ico_reset active s =
     (if active then s\<lparr>li_in_election := False,
        li_banks := map (\<lambda>b. b\<lparr>bk_pending_mask := 0, bk_rr_next := 0\<rparr>) (li_banks s)\<rparr> else s)"

definition decode_bank :: "log_ico_cfg \<Rightarrow> u64 \<Rightarrow> nat" where
  "decode_bank c offset =
     (if li_slave_bits c = 0 then 0
      else unat (drop_bit (li_interleaving_width c) offset AND mask (li_slave_bits c)))"

definition decode_offset :: "log_ico_cfg \<Rightarrow> u64 \<Rightarrow> u64" where
  "decode_offset c offset =
     (let iw = li_interleaving_width c;
          iw_mask = (if iw = 0 then 0 else push_bit iw 1 - 1);
          hi_shift = li_slave_bits c + iw
      in push_bit iw (drop_bit hi_shift offset) OR (offset AND iw_mask))"

text \<open>The election. \<open>__builtin_ctzll\<close> is undefined for 0 in the code: the case where no valid input is pending, for which the
  model takes 64 and which the properties exclude.\<close>

definition pick_winner :: "u64 \<Rightarrow> nat \<Rightarrow> nat \<Rightarrow> nat" where
  "pick_winner m rr_next nb =
     (let valid = (if nb = 64 then NOT 0 else push_bit nb 1 - 1);
          m = m AND valid;
          rotated = (if rr_next = 0 then m
                     else (drop_bit rr_next m OR push_bit (nb - rr_next) m) AND valid);
          rel = ctz64 rotated
      in (rr_next + rel) mod nb)"

definition log_ico_input_req ::
  "log_ico_cfg \<Rightarrow> (nat \<Rightarrow> io_req \<Rightarrow> io_answer) \<Rightarrow> nat \<Rightarrow> io_req \<Rightarrow> log_ico
   \<Rightarrow> (io_status \<times> io_req \<times> ico_action list \<times> log_ico) option" where
  "log_ico_input_req c banks i req s =
     (let addr = r_addr req; bank_id = decode_bank c addr
      in if bank_id \<ge> length (li_banks s) then None
         else if li_in_election s then
           (let req1 = req\<lparr>r_addr := decode_offset c addr\<rparr>; a = banks bank_id req1
            in if a_status a = IO_REQ_DONE
               then Some (IO_REQ_DONE, apply_answer a req1, [Forward i bank_id req1], s)
               else None)
         else
           (let b = li_banks s ! bank_id
            in Some (IO_REQ_DENIED, req, [Enqueue 0],
                 s\<lparr>li_banks := (li_banks s)[bank_id := b\<lparr>bk_pending_mask := bk_pending_mask b OR push_bit i 1\<rparr>]\<rparr>)))"

text \<open>The election of one bank: the winner, and the bank without its bit.\<close>

definition elect :: "nat \<Rightarrow> bank_state \<Rightarrow> nat \<times> bank_state" where
  "elect nb b =
     (let winner = pick_winner (bk_pending_mask b) (bk_rr_next b) nb
      in (winner, \<lparr>bk_pending_mask = bk_pending_mask b AND NOT (push_bit winner 1),
                   bk_rr_next = (winner + 1) mod nb\<rparr>))"

text \<open>What a master does inside its \<open>retry()\<close> callback: it issues the given requests, in order.\<close>

fun log_ico_reissue ::
  "log_ico_cfg \<Rightarrow> (nat \<Rightarrow> io_req \<Rightarrow> io_answer) \<Rightarrow> nat \<Rightarrow> io_req list \<Rightarrow> log_ico
   \<Rightarrow> (ico_action list \<times> log_ico) option" where
  "log_ico_reissue c banks i [] s = Some ([], s)"
| "log_ico_reissue c banks i (r # rs) s =
     (case log_ico_input_req c banks i r s of
        None \<Rightarrow> None
      | Some (st, r', acts, s1) \<Rightarrow>
          map_option (\<lambda>(as, s2). (acts @ as, s2)) (log_ico_reissue c banks i rs s1))"

text \<open>The loop of the arbiter over the bank indices; \<open>any\<close> is \<open>any_remaining\<close>.\<close>

fun fsm_loop ::
  "log_ico_cfg \<Rightarrow> (nat \<Rightarrow> io_req \<Rightarrow> io_answer) \<Rightarrow> (nat \<Rightarrow> io_req list) \<Rightarrow> nat list \<Rightarrow> bool \<Rightarrow> log_ico
   \<Rightarrow> (ico_action list \<times> bool \<times> log_ico) option" where
  "fsm_loop c banks masters [] any s = Some ([], any, s)"
| "fsm_loop c banks masters (k # ks) any s =
     (if bk_pending_mask (li_banks s ! k) = 0 then fsm_loop c banks masters ks any s
      else
        (let (winner, b) = elect (li_nb_masters c) (li_banks s ! k);
             s1 = s\<lparr>li_banks := (li_banks s)[k := b]\<rparr>
         in case log_ico_reissue c banks winner (masters winner) s1 of
              None \<Rightarrow> None
            | Some (acts, s2) \<Rightarrow>
                (let any' = (if bk_pending_mask (li_banks s2 ! k) \<noteq> 0 then True else any)
                 in map_option (\<lambda>(as, x). (acts @ as, x)) (fsm_loop c banks masters ks any' s2))))"

definition fsm_handler ::
  "log_ico_cfg \<Rightarrow> (nat \<Rightarrow> io_req \<Rightarrow> io_answer) \<Rightarrow> (nat \<Rightarrow> io_req list) \<Rightarrow> log_ico
   \<Rightarrow> (ico_action list \<times> log_ico) option" where
  "fsm_handler c banks masters s =
     (case fsm_loop c banks masters [0..<length (li_banks s)] False (s\<lparr>li_in_election := True\<rparr>) of
        None \<Rightarrow> None
      | Some (acts, any_remaining, s1) \<Rightarrow>
          Some (acts @ (if any_remaining then [Enqueue 1] else []), s1\<lparr>li_in_election := False\<rparr>))"

section \<open>The arbiter\<close>

lemma takeWhile_length_less: "k < length xs \<Longrightarrow> \<not> P (xs ! k) \<Longrightarrow> length (takeWhile P xs) \<le> k"
  by (metis not_le_imp_less nth_mem set_takeWhileD takeWhile_nth)

lemma ctz64_works:
  assumes "w \<noteq> (0::u64)"
  shows "bit w (ctz64 w)" "ctz64 w < 64" "j < ctz64 w \<Longrightarrow> \<not> bit w j"
proof -
  let ?P = "\<lambda>i. \<not> bit w i"
  obtain k where k: "bit w k" using assms by (metis bit_0_eq bit_word_eqI bot_apply bot_bool_def)
  then have "k < 64" using bit_imp_le_length by fastforce
  then have lt: "ctz64 w < 64"
    using takeWhile_length_less[of k "[0..<64]" ?P] k by (simp add: ctz64_def)
  then show "ctz64 w < 64" .
  have "\<not> ?P ([0..<64] ! length (takeWhile ?P [0..<64]))"
    using lt nth_length_takeWhile[of ?P "[0..<64]"] unfolding ctz64_def by simp
  then show "bit w (ctz64 w)" using lt by (simp add: ctz64_def)
  assume j: "j < ctz64 w"
  then have "takeWhile ?P [0..<64] ! j = [0..<64] ! j" "j < 64"
    using lt by (simp_all add: ctz64_def takeWhile_nth)
  moreover have "?P (takeWhile ?P [0..<64] ! j)"
    using j by (metis ctz64_def nth_mem set_takeWhileD)
  ultimately show "\<not> bit w j" by simp
qed

lemma valid_is_mask: "(if nb = 64 then NOT 0 else push_bit nb 1 - 1 :: u64) = mask nb"
proof (cases "nb = 64")
  case True
  have "NOT 0 = (mask 64 :: u64)" by (rule bit_word_eqI) (simp add: bit_simps)
  then show ?thesis by (simp only: True if_True simp_thms)
qed (simp add: mask_eq_exp_minus_1)

lemma bit_mask64: "nb \<le> 64 \<Longrightarrow> bit (mask nb :: u64) j \<longleftrightarrow> j < nb"
  by (auto simp: bit_simps)

lemma pick_winner_spec:
  fixes m :: u64
  assumes nb: "nb \<le> 64" "rr < nb" and m: "m AND mask nb \<noteq> 0"
  shows "pick_winner m rr nb < nb" "bit m (pick_winner m rr nb)"
    "\<exists>rel. pick_winner m rr nb = (rr + rel) mod nb \<and> rel < nb \<and> (\<forall>j<rel. \<not> bit m ((rr + j) mod nb))"
proof -
  define rot where "rot = (if rr = 0 then m AND mask nb
      else (drop_bit rr (m AND mask nb) OR push_bit (nb - rr) (m AND mask nb)) AND mask nb)"
  have bit_rot: "bit rot j \<longleftrightarrow> j < nb \<and> bit m ((rr + j) mod nb)" for j
  proof (cases "rr + j < nb")
    case True then show ?thesis using nb by (auto simp: rot_def bit_simps bit_mask64)
  next
    case False
    show ?thesis
    proof (cases "j < nb")
      case True
      have "(rr + j) mod nb = rr + j - nb" using False True nb
        by (metis le_mod_geq less_imp_le_nat linorder_not_less mod_less add_less_mono nat_add_left_cancel_less le_add_diff_inverse)
      then show ?thesis using False True nb by (auto simp: rot_def bit_simps bit_mask64 add.commute)
    qed (use nb in \<open>auto simp: rot_def bit_simps bit_mask64\<close>)
  qed
  have w: "pick_winner m rr nb = (rr + ctz64 rot) mod nb"
    unfolding pick_winner_def valid_is_mask Let_def rot_def by simp
  obtain k where "bit (m AND mask nb) k" using m by (metis bit_0_eq bit_word_eqI bot_apply bot_bool_def)
  then have k: "bit m k" "k < nb" using nb by (simp_all add: bit_and_iff bit_mask64)
  have "bit rot ((k + nb - rr) mod nb)"
  proof -
    have "(rr + (k + nb - rr) mod nb) mod nb = k" using k nb by (simp add: mod_add_right_eq)
    then show ?thesis using k nb by (simp add: bit_rot)
  qed
  then have "rot \<noteq> 0" by auto
  note c = ctz64_works[OF this]
  show "pick_winner m rr nb < nb" using nb w by simp
  show "bit m (pick_winner m rr nb)" using c(1) bit_rot w by simp
  have "ctz64 rot < nb" using c(1) bit_rot by blast
  then show "\<exists>rel. pick_winner m rr nb = (rr + rel) mod nb \<and> rel < nb \<and> (\<forall>j<rel. \<not> bit m ((rr + j) mod nb))"
    using c(3) bit_rot w by (intro exI[of _ "ctz64 rot"]) auto
qed


lemma bit_clear_one: "bit ((m::u64) AND NOT (push_bit w 1)) i \<longleftrightarrow> bit m i \<and> i \<noteq> w"
  using bit_imp_le_length[of m i] by (auto simp: bit_simps)

lemma elect_simps:
  "fst (elect nb b) = pick_winner (bk_pending_mask b) (bk_rr_next b) nb"
  "bk_rr_next (snd (elect nb b)) = (fst (elect nb b) + 1) mod nb"
  "bit (bk_pending_mask (snd (elect nb b))) i \<longleftrightarrow> bit (bk_pending_mask b) i \<and> i \<noteq> fst (elect nb b)"
  using bit_clear_one[of "bk_pending_mask b" "pick_winner (bk_pending_mask b) (bk_rr_next b) nb" i]
  by (simp_all add: elect_def Let_def)

text \<open>The position of input \<open>i\<close> in the scan that starts at \<open>rr\<close>.\<close>

definition scan_pos :: "nat \<Rightarrow> nat \<Rightarrow> nat \<Rightarrow> nat" where
  "scan_pos nb rr i = (i + nb - rr) mod nb"

lemma scan_pos_at: "rr < nb \<Longrightarrow> i < nb \<Longrightarrow> (rr + scan_pos nb rr i) mod nb = i"
  by (simp add: scan_pos_def mod_add_right_eq)

lemma scan_pos_eqI:
  assumes "rr < nb" "j < nb" "(rr + j) mod nb = i" shows "scan_pos nb rr i = j"
proof (cases "rr + j < nb")
  case True then show ?thesis using assms by (auto simp: scan_pos_def)
next
  case False
  then have "i = rr + j - nb" using assms by (auto simp: mod_if)
  then show ?thesis using assms False by (auto simp: scan_pos_def)
qed

lemma mask_and_nonzero: "bit (m::u64) i \<Longrightarrow> i < nb \<Longrightarrow> nb \<le> 64 \<Longrightarrow> m AND mask nb \<noteq> 0"
  by (metis bit_0_eq bit_and_iff bit_mask64 bot_apply bot_bool_def)

lemma elect_progress:
  assumes "nb \<le> 64" "bk_rr_next b < nb" "i < nb" "bit (bk_pending_mask b) i" "fst (elect nb b) \<noteq> i"
  shows "bit (bk_pending_mask (snd (elect nb b))) i"
    "bk_rr_next (snd (elect nb b)) < nb"
    "scan_pos nb (bk_rr_next (snd (elect nb b))) i < scan_pos nb (bk_rr_next b) i"
proof -
  let ?rr = "bk_rr_next b" and ?d = "scan_pos nb (bk_rr_next b) i"
  from assms(4,5) show "bit (bk_pending_mask (snd (elect nb b))) i" by (simp add: elect_simps)
  show rr: "bk_rr_next (snd (elect nb b)) < nb" using assms(2) by (simp add: elect_simps)
  obtain rel where r: "fst (elect nb b) = (?rr + rel) mod nb" "rel < nb"
      "\<forall>j<rel. \<not> bit (bk_pending_mask b) ((?rr + j) mod nb)"
    using pick_winner_spec(3)[OF assms(1,2) mask_and_nonzero[OF assms(4,3,1)]] by (auto simp: elect_simps)
  have at: "(?rr + ?d) mod nb = i" using scan_pos_at assms(2,3) by simp
  have "\<not> ?d < rel" using r(3) at assms(4) by auto
  moreover have "rel \<noteq> ?d" using r(1) at assms(5) by auto
  ultimately have lt: "rel < ?d" by simp
  have "?d < nb" using assms(2) by (simp add: scan_pos_def)
  have "bk_rr_next (snd (elect nb b)) = (?rr + rel + 1) mod nb"
    unfolding elect_simps(2) r(1) by (simp add: mod_simps)
  then have "(bk_rr_next (snd (elect nb b)) + (?d - rel - 1)) mod nb = (?rr + rel + 1 + (?d - rel - 1)) mod nb"
    by (simp only: mod_add_left_eq)
  then have "(bk_rr_next (snd (elect nb b)) + (?d - rel - 1)) mod nb = (?rr + ?d) mod nb"
    using lt by simp
  then have "scan_pos nb (bk_rr_next (snd (elect nb b))) i = ?d - rel - 1"
    using scan_pos_eqI[OF rr] at \<open>?d < nb\<close> by simp
  then show "scan_pos nb (bk_rr_next (snd (elect nb b))) i < ?d" using lt by simp
qed

text \<open>A bank over several cycles: before each election, requests \<open>m\<close> of other inputs come in.\<close>

fun serve_bank :: "nat \<Rightarrow> u64 list \<Rightarrow> bank_state \<Rightarrow> nat list" where
  "serve_bank nb [] b = []"
| "serve_bank nb (m # ms) b =
     (let b1 = b\<lparr>bk_pending_mask := bk_pending_mask b OR m\<rparr>
      in if bk_pending_mask b1 = 0 then serve_bank nb ms b1
         else fst (elect nb b1) # serve_bank nb ms (snd (elect nb b1)))"

lemma serve_bank_fair_gen:
  assumes "nb \<le> 64" "bk_rr_next b < nb" "i < nb" "bit (bk_pending_mask b) i"
    "scan_pos nb (bk_rr_next b) i < length ms"
  shows "i \<in> set (take (Suc (scan_pos nb (bk_rr_next b) i)) (serve_bank nb ms b))"
  using assms
proof (induction ms arbitrary: b)
  case (Cons m ms)
  define b1 where "b1 = b\<lparr>bk_pending_mask := bk_pending_mask b OR m\<rparr>"
  have b1: "bk_rr_next b1 = bk_rr_next b" "bit (bk_pending_mask b1) i"
    using Cons.prems by (auto simp: b1_def bit_simps)
  then have ne: "bk_pending_mask b1 \<noteq> 0" by auto
  have step: "serve_bank nb (m # ms) b = fst (elect nb b1) # serve_bank nb ms (snd (elect nb b1))"
    using ne by (simp add: b1_def Let_def)
  show ?case
  proof (cases "fst (elect nb b1) = i")
    case True then show ?thesis by (simp add: step del: serve_bank.simps)
  next
    case False
    note p = elect_progress[OF Cons.prems(1) _ Cons.prems(3) b1(2) False, unfolded b1(1), OF Cons.prems(2)]
    have "i \<in> set (take (Suc (scan_pos nb (bk_rr_next (snd (elect nb b1))) i)) (serve_bank nb ms (snd (elect nb b1))))"
      using Cons.IH[OF Cons.prems(1) p(2) Cons.prems(3) p(1)] p(3) Cons.prems(5) by simp
    then have "i \<in> set (take (scan_pos nb (bk_rr_next b) i) (serve_bank nb ms (snd (elect nb b1))))"
      using p(3) by (meson Suc_leI set_take_subset_set_take subsetD)
    then show ?thesis by (simp add: step del: serve_bank.simps)
  qed
qed simp


text \<open>The bank after one cycle of the arbiter.\<close>

definition step_bank :: "nat \<Rightarrow> bank_state \<Rightarrow> bank_state" where
  "step_bank nb b = (if bk_pending_mask b = 0 then b else snd (elect nb b))"

text \<open>A master that answers a \<open>retry()\<close> by issuing its request again, to a bank that exists.\<close>

definition master_reissues :: "log_ico_cfg \<Rightarrow> nat \<Rightarrow> io_req list \<Rightarrow> bool" where
  "master_reissues c n rs \<longleftrightarrow> (\<exists>r. rs = [r] \<and> decode_bank c (r_addr r) < n)"

definition inline_forward :: "log_ico_cfg \<Rightarrow> nat \<Rightarrow> io_req \<Rightarrow> ico_action" where
  "inline_forward c i r = Forward i (decode_bank c (r_addr r)) (r\<lparr>r_addr := decode_offset c (r_addr r)\<rparr>)"

lemma reissue_inline:
  assumes "master_reissues c (length (li_banks s)) rs" "li_in_election s"
    and "\<And>k r. a_status (banks k r) = IO_REQ_DONE"
  shows "log_ico_reissue c banks i rs s = Some ([inline_forward c i (hd rs)], s)"
  using assms by (auto simp: master_reissues_def log_ico_input_req_def inline_forward_def Let_def)

definition loop_acts where
  "loop_acts c masters bs ks =
     map (\<lambda>k. let w = fst (elect (li_nb_masters c) (bs ! k)) in inline_forward c w (hd (masters w)))
       (filter (\<lambda>k. bk_pending_mask (bs ! k) \<noteq> 0) ks)"

lemma fsm_loop_runs:
  assumes "distinct ks" "\<And>k. k \<in> set ks \<Longrightarrow> k < length (li_banks s)" "li_in_election s"
    and "\<And>k r. a_status (banks k r) = IO_REQ_DONE"
    and "\<And>i. master_reissues c (length (li_banks s)) (masters i)"
  shows "\<exists>bs. length bs = length (li_banks s) \<and>
     (\<forall>k<length bs. bs ! k = (if k \<in> set ks then step_bank (li_nb_masters c) (li_banks s ! k) else li_banks s ! k)) \<and>
     fsm_loop c banks masters ks any s = Some (loop_acts c masters (li_banks s) ks,
       any \<or> (\<exists>k\<in>set ks. bk_pending_mask (step_bank (li_nb_masters c) (li_banks s ! k)) \<noteq> 0), s\<lparr>li_banks := bs\<rparr>)"
  using assms
proof (induction ks arbitrary: s any)
  case Nil
  then show ?case by (intro exI[of _ "li_banks s"]) (simp add: loop_acts_def)
next
  case (Cons k ks)
  let ?nb = "li_nb_masters c" and ?b = "li_banks s ! k"
  show ?case
  proof (cases "bk_pending_mask ?b = 0")
    case True
    then obtain bs where "length bs = length (li_banks s)"
      "\<forall>j<length bs. bs ! j = (if j \<in> set ks then step_bank ?nb (li_banks s ! j) else li_banks s ! j)"
      "fsm_loop c banks masters ks any s = Some (loop_acts c masters (li_banks s) ks,
         any \<or> (\<exists>j\<in>set ks. bk_pending_mask (step_bank ?nb (li_banks s ! j)) \<noteq> 0), s\<lparr>li_banks := bs\<rparr>)"
      using Cons.IH[of s any] Cons.prems by auto
    with True show ?thesis
      by (intro exI[of _ bs]) (auto simp: loop_acts_def step_bank_def)
  next
    case False
    define s1 where "s1 = s\<lparr>li_banks := (li_banks s)[k := snd (elect ?nb ?b)]\<rparr>"
    define any1 where "any1 = (if bk_pending_mask (snd (elect ?nb ?b)) \<noteq> 0 then True else any)"
    have k: "k < length (li_banks s)" "k \<notin> set ks" using Cons.prems(1,2) by auto
    have l1: "length (li_banks s1) = length (li_banks s)" by (simp add: s1_def)
    have same: "j \<in> set ks \<Longrightarrow> li_banks s1 ! j = li_banks s ! j" for j
      using k by (auto simp: s1_def nth_list_update)
    have re: "log_ico_reissue c banks (fst (elect ?nb ?b)) (masters (fst (elect ?nb ?b))) s1 =
        Some ([inline_forward c (fst (elect ?nb ?b)) (hd (masters (fst (elect ?nb ?b))))], s1)"
      by (rule reissue_inline) (use Cons.prems in \<open>simp_all add: s1_def\<close>)
    obtain bs where bs: "length bs = length (li_banks s1)"
      "\<forall>j<length bs. bs ! j = (if j \<in> set ks then step_bank ?nb (li_banks s1 ! j) else li_banks s1 ! j)"
      "fsm_loop c banks masters ks any1 s1 = Some (loop_acts c masters (li_banks s1) ks,
         any1 \<or> (\<exists>j\<in>set ks. bk_pending_mask (step_bank ?nb (li_banks s1 ! j)) \<noteq> 0), s1\<lparr>li_banks := bs\<rparr>)"
      using Cons.IH[of s1 any1] Cons.prems l1 by (auto simp: s1_def)
    have acts: "loop_acts c masters (li_banks s1) ks = loop_acts c masters (li_banks s) ks"
      using same unfolding loop_acts_def by (intro map_cong filter_cong) (auto simp: Let_def)
    have ex: "(\<exists>j\<in>set ks. bk_pending_mask (step_bank ?nb (li_banks s1 ! j)) \<noteq> 0) =
        (\<exists>j\<in>set ks. bk_pending_mask (step_bank ?nb (li_banks s ! j)) \<noteq> 0)" using same by auto
    have pk: "bk_pending_mask (li_banks s1 ! k) = bk_pending_mask (snd (elect ?nb ?b))"
      using k by (simp add: s1_def)
    have run: "fsm_loop c banks masters (k # ks) any s =
        map_option (\<lambda>(as, x). ([inline_forward c (fst (elect ?nb ?b)) (hd (masters (fst (elect ?nb ?b))))] @ as, x))
          (fsm_loop c banks masters ks any1 s1)"
      using False re pk by (simp add: Let_def split_def any1_def s1_def[symmetric])
    have sb: "step_bank ?nb ?b = snd (elect ?nb ?b)" using False by (simp add: step_bank_def)
    have lac: "loop_acts c masters (li_banks s) (k # ks) =
        [inline_forward c (fst (elect ?nb ?b)) (hd (masters (fst (elect ?nb ?b))))] @ loop_acts c masters (li_banks s) ks"
      using False by (simp add: loop_acts_def Let_def)
    have anys: "(any1 \<or> (\<exists>j\<in>set ks. bk_pending_mask (step_bank ?nb (li_banks s ! j)) \<noteq> 0)) =
        (any \<or> (\<exists>j\<in>set (k # ks). bk_pending_mask (step_bank ?nb (li_banks s ! j)) \<noteq> 0))"
      by (auto simp: any1_def sb)
    have upd: "s1\<lparr>li_banks := bs\<rparr> = s\<lparr>li_banks := bs\<rparr>" by (simp add: s1_def)
    have "\<forall>j<length bs. bs ! j = (if j \<in> set (k # ks) then step_bank ?nb (li_banks s ! j) else li_banks s ! j)"
    proof (intro allI impI)
      fix j assume "j < length bs"
      then show "bs ! j = (if j \<in> set (k # ks) then step_bank ?nb (li_banks s ! j) else li_banks s ! j)"
        using bs(2) same[of j] k by (cases "j = k") (auto simp: s1_def sb)
    qed
    then show ?thesis
      unfolding run bs(3) lac acts ex anys upd using bs(1) l1 by (intro exI[of _ bs]) simp
  qed
qed

lemma fsm_handler_spec:
  assumes "\<And>k r. a_status (banks k r) = IO_REQ_DONE"
    and "\<And>i. master_reissues c (length (li_banks s)) (masters i)"
  shows "fsm_handler c banks masters s =
     Some (loop_acts c masters (li_banks s) [0..<length (li_banks s)] @
             (if \<exists>b\<in>set (li_banks s). bk_pending_mask (step_bank (li_nb_masters c) b) \<noteq> 0 then [Enqueue 1] else []),
           s\<lparr>li_in_election := False, li_banks := map (step_bank (li_nb_masters c)) (li_banks s)\<rparr>)"
proof -
  let ?s = "s\<lparr>li_in_election := True\<rparr>" and ?n = "length (li_banks s)"
  obtain bs where bs: "length bs = ?n"
     "\<forall>k<length bs. bs ! k = step_bank (li_nb_masters c) (li_banks s ! k)"
     "fsm_loop c banks masters [0..<?n] False ?s = Some (loop_acts c masters (li_banks s) [0..<?n],
       \<exists>k\<in>set [0..<?n]. bk_pending_mask (step_bank (li_nb_masters c) (li_banks s ! k)) \<noteq> 0, ?s\<lparr>li_banks := bs\<rparr>)"
    using fsm_loop_runs[of "[0..<?n]" ?s banks c masters False] assms by auto
  have "bs = map (step_bank (li_nb_masters c)) (li_banks s)"
    by (rule nth_equalityI) (use bs in simp_all)
  moreover have "(\<exists>k\<in>set [0..<?n]. bk_pending_mask (step_bank (li_nb_masters c) (li_banks s ! k)) \<noteq> 0) =
      (\<exists>b\<in>set (li_banks s). bk_pending_mask (step_bank (li_nb_masters c) b) \<noteq> 0)"
    by (auto simp: in_set_conv_nth Bex_def)
  ultimately show ?thesis using bs(3) by (auto simp: fsm_handler_def)
qed

section \<open>The address map\<close>

lemma bit_len_le: "bit_len n \<le> k \<longleftrightarrow> n < 2 ^ k"
proof (induction n arbitrary: k rule: bit_len.induct)
  case (1 n)
  show ?case
  proof (cases "n = 0")
    case False
    then show ?thesis
    proof (cases k)
      case (Suc j)
      have "n div 2 < 2 ^ j \<longleftrightarrow> n < 2 ^ Suc j" by auto
      then show ?thesis using 1[OF False, of j] False Suc by (simp add: bit_len.simps[of n])
    qed (simp add: bit_len.simps[of n])
  qed (simp add: bit_len.simps)
qed

lemma ceil_log2_least: "n \<le> 2 ^ 32 \<Longrightarrow> 0 < n \<Longrightarrow> ceil_log2_u n \<le> k \<longleftrightarrow> n \<le> 2 ^ k"
proof -
  assume n: "n \<le> 2 ^ 32" "0 < n"
  then have "bit_len (n - 1) \<le> 32" unfolding bit_len_le by simp
  then have "n > 1 \<Longrightarrow> ceil_log2_u n = bit_len (n - 1)" by (simp add: ceil_log2_u_def clz32_def)
  then show ?thesis using bit_len_le[of "n - 1" k] n
    by (cases "n = 1") (simp add: ceil_log2_u_def, auto)
qed

lemma ceil_log2_pow: "b \<le> 32 \<Longrightarrow> ceil_log2_u (2 ^ b) = b"
proof -
  assume "b \<le> 32"
  then have "(2::nat) ^ b \<le> 2 ^ 32" by (rule power_increasing) simp
  then show ?thesis using ceil_log2_least[of "2 ^ b" b] ceil_log2_least[of "2 ^ b" "ceil_log2_u (2 ^ b)"]
    by (simp add: le_antisym)
qed

lemma decode_bank_bits:
  "decode_bank c a = unat (drop_bit (li_interleaving_width c) a AND mask (li_slave_bits c))"
  by (simp add: decode_bank_def)

lemma bit_decode_offset:
  "bit (decode_offset c a) j \<longleftrightarrow>
     (if j < li_interleaving_width c then bit a j else j < 64 \<and> bit a (j + li_slave_bits c))"
proof (cases "li_interleaving_width c < 64")
  case True
  have "(if li_interleaving_width c = 0 then 0 else push_bit (li_interleaving_width c) 1 - 1)
      = (mask (li_interleaving_width c) :: u64)" by (simp add: mask_eq_exp_minus_1)
  then show ?thesis using True bit_imp_le_length[of a j]
    by (auto simp: decode_offset_def Let_def bit_simps add.commute)
next
  case False
  have "(if li_interleaving_width c = 0 then 0 else push_bit (li_interleaving_width c) 1 - 1)
      = (mask (li_interleaving_width c) :: u64)" by (simp add: mask_eq_exp_minus_1)
  then show ?thesis using False bit_imp_le_length[of a j]
    by (auto simp: decode_offset_def Let_def bit_simps add.commute)
qed

lemma decode_inj:
  assumes "decode_bank c a = decode_bank c a'" "decode_offset c a = decode_offset c a'"
  shows "a = a'"
proof (rule bit_word_eqI)
  fix j assume "j < LENGTH(64)"
  let ?iw = "li_interleaving_width c" and ?sb = "li_slave_bits c"
  have b: "drop_bit ?iw a AND mask ?sb = drop_bit ?iw a' AND mask ?sb"
    using assms(1) by (simp add: decode_bank_bits word_unat_eq_iff)
  have o: "bit (decode_offset c a) i = bit (decode_offset c a') i" for i using assms(2) by simp
  show "bit a j = bit a' j"
  proof (cases "j < ?iw")
    case True then show ?thesis using o[of j] by (simp add: bit_decode_offset)
  next
    case ge: False
    show ?thesis
    proof (cases "j < ?iw + ?sb")
      case True
      have "bit (drop_bit ?iw a AND mask ?sb) (j - ?iw) = bit (drop_bit ?iw a' AND mask ?sb) (j - ?iw)"
        using b by simp
      then show ?thesis using ge True \<open>j < LENGTH(64)\<close> by (auto simp: bit_simps)
    next
      case False
      then have "\<not> j - ?sb < ?iw" "j - ?sb + ?sb = j" "j - ?sb < 64" using \<open>j < LENGTH(64)\<close> by simp_all
      then show ?thesis using o[of "j - ?sb"] by (simp add: bit_decode_offset)
    qed
  qed
qed

lemma decode_bank_lt: "li_slave_bits c < 64 \<Longrightarrow> decode_bank c a < 2 ^ li_slave_bits c"
  using and_mask_lt[of "li_slave_bits c" "drop_bit (li_interleaving_width c) a"] by (simp add: decode_bank_bits)

lemma decode_bank_hits:
  assumes "k < 2 ^ li_slave_bits c" "li_interleaving_width c + li_slave_bits c \<le> 64"
  shows "decode_bank c (push_bit (li_interleaving_width c) (of_nat k)) = k"
proof -
  have "drop_bit (li_interleaving_width c) (push_bit (li_interleaving_width c) (of_nat k)) AND mask (li_slave_bits c)
     = (of_nat k :: u64)"
  proof (intro bit_word_eqI)
    fix n assume "n < LENGTH(64)"
    have "bit k n \<Longrightarrow> n < li_slave_bits c"
      using assms(1) by (metis bit_iff_odd div_less even_zero leI less_le_trans one_less_numeral_iff power_increasing_iff semiring_norm(76))
    then show "bit (drop_bit (li_interleaving_width c) (push_bit (li_interleaving_width c) (of_nat k :: u64)) AND mask (li_slave_bits c)) n
        = bit (of_nat k :: u64) n"
      using assms(2) \<open>n < LENGTH(64)\<close> by (auto simp: bit_simps)
  qed
  moreover have "(2::nat) ^ li_slave_bits c \<le> 2 ^ 64" by (rule power_increasing) (use assms(2) in simp_all)
  ultimately show ?thesis using assms(1)
    by (simp add: decode_bank_bits unat_of_nat)
qed
section \<open>Properties\<close>

text \<open>The winner of an election is a pending input, and it is the first one at or after the
  round-robin position: every input the scan passes before it had no pending request.\<close>

theorem log_ico_winner:
  assumes "nb \<le> 64" "bk_rr_next b < nb" "bk_pending_mask b AND mask nb \<noteq> 0"
  shows "fst (elect nb b) < nb \<and> bit (bk_pending_mask b) (fst (elect nb b)) \<and>
    (\<forall>i<nb. bit (bk_pending_mask b) i \<longrightarrow>
       scan_pos nb (bk_rr_next b) (fst (elect nb b)) \<le> scan_pos nb (bk_rr_next b) i)"
proof -
  obtain rel where r: "fst (elect nb b) = (bk_rr_next b + rel) mod nb" "rel < nb"
      "\<forall>j<rel. \<not> bit (bk_pending_mask b) ((bk_rr_next b + j) mod nb)"
    using pick_winner_spec(3)[OF assms] by (auto simp: elect_simps)
  have "rel \<le> scan_pos nb (bk_rr_next b) i" if "i < nb" "bit (bk_pending_mask b) i" for i
    using r(3) scan_pos_at[OF assms(2) that(1)] that(2) by (metis not_le)
  then show ?thesis
    using pick_winner_spec(1,2)[OF assms] scan_pos_eqI[OF assms(2) r(2) r(1)[symmetric]]
    by (simp add: elect_simps)
qed

theorem log_ico_winner_witness:
  "fst (elect 4 \<lparr>bk_pending_mask = 0b0101, bk_rr_next = 3\<rparr>) < 4"
  using log_ico_winner[of 4 "\<lparr>bk_pending_mask = 0b0101, bk_rr_next = 3\<rparr>"]
  by (simp add: mask_eq_exp_minus_1)

text \<open>C30: no starvation. An input whose request to a bank was denied is retried within
  \<open>nb_masters\<close> elections of that bank, whatever requests the other inputs add in the meantime.\<close>

theorem log_ico_fair:
  assumes "nb \<le> 64" "bk_rr_next b < nb" "i < nb" "bit (bk_pending_mask b) i" "nb \<le> length ms"
  shows "i \<in> set (take nb (serve_bank nb ms b))"
proof -
  have p: "scan_pos nb (bk_rr_next b) i < nb" using assms(2) by (simp add: scan_pos_def)
  then have "i \<in> set (take (Suc (scan_pos nb (bk_rr_next b) i)) (serve_bank nb ms b))"
    by (intro serve_bank_fair_gen) (use assms in simp_all)
  then show ?thesis using p by (meson Suc_leI set_take_subset_set_take subsetD)
qed

theorem log_ico_fair_witness:
  "1 \<in> set (take 3 (serve_bank 3 [0b101, 0b101, 0b101] \<lparr>bk_pending_mask = 0b010, bk_rr_next = 2\<rparr>))"
  by (rule log_ico_fair) (simp_all add: bit_iff_odd)

text \<open>One cycle of the arbiter. With memories that answer at once and masters that issue their
  request again when retried, each bank that has pending inputs serves exactly one, the elected one,
  with its address rebased to the bank; the other pending bits stay, and the event is armed for the
  next cycle exactly when some bank still has a pending input.\<close>

theorem log_ico_cycle:
  assumes "\<And>k r. a_status (banks k r) = IO_REQ_DONE"
    and "\<And>i. master_reissues c (length (li_banks s)) (masters i)"
  shows "fsm_handler c banks masters s =
     Some (loop_acts c masters (li_banks s) [0..<length (li_banks s)] @
             (if \<exists>b\<in>set (li_banks s). bk_pending_mask (step_bank (li_nb_masters c) b) \<noteq> 0 then [Enqueue 1] else []),
           s\<lparr>li_in_election := False, li_banks := map (step_bank (li_nb_masters c)) (li_banks s)\<rparr>)"
  using assms by (rule fsm_handler_spec)

definition demo_ico_cfg :: log_ico_cfg where
  "demo_ico_cfg = \<lparr>li_nb_masters = 3, li_nb_slaves = 2, li_interleaving_width = 2\<rparr>"

definition demo_ico :: log_ico where
  "demo_ico = \<lparr>li_in_election = False, li_banks = [\<lparr>bk_pending_mask = 0b101, bk_rr_next = 1\<rparr>,
     \<lparr>bk_pending_mask = 0, bk_rr_next = 0\<rparr>]\<rparr>"

lemma demo_ico_bits: "li_slave_bits demo_ico_cfg = 1"
  by (simp add: demo_ico_cfg_def li_slave_bits_def ceil_log2_u_def clz32_def bit_len.simps)

theorem log_ico_cycle_witness:
  "fsm_handler demo_ico_cfg (\<lambda>_ _. done_answer 1) (\<lambda>i. [plain_req 0x10 4 False]) demo_ico =
     Some (loop_acts demo_ico_cfg (\<lambda>i. [plain_req 0x10 4 False]) (li_banks demo_ico) [0..<length (li_banks demo_ico)] @
             (if \<exists>b\<in>set (li_banks demo_ico). bk_pending_mask (step_bank (li_nb_masters demo_ico_cfg) b) \<noteq> 0 then [Enqueue 1] else []),
           demo_ico\<lparr>li_in_election := False, li_banks := map (step_bank (li_nb_masters demo_ico_cfg)) (li_banks demo_ico)\<rparr>)"
proof (rule log_ico_cycle)
  show "master_reissues demo_ico_cfg (length (li_banks demo_ico)) [plain_req 0x10 4 False]" for i
    using decode_bank_lt[of demo_ico_cfg "0x10"] by (simp add: master_reissues_def demo_ico_bits) (simp add: demo_ico_def)
qed simp

text \<open>The address map of a power-of-two number of banks: every address falls in a bank that
  exists, every bank is hit, and no two addresses share a bank and an offset.\<close>

theorem log_ico_address_map:
  assumes "li_nb_slaves c = 2 ^ b" "b \<le> 31" "li_interleaving_width c + b \<le> 64"
  shows "decode_bank c a < li_nb_slaves c \<and>
    (\<forall>k<li_nb_slaves c. \<exists>a. decode_bank c a = k) \<and>
    (\<forall>a'. decode_bank c a = decode_bank c a' \<and> decode_offset c a = decode_offset c a' \<longrightarrow> a = a')"
proof -
  have sb: "li_slave_bits c = b" using assms by (simp add: li_slave_bits_def ceil_log2_pow)
  have "\<exists>a. decode_bank c a = k" if "k < li_nb_slaves c" for k
    using decode_bank_hits[of k c] that assms sb by auto
  then show ?thesis using decode_bank_lt[of c a] decode_inj assms sb by auto
qed

theorem log_ico_address_map_witness:
  "decode_bank demo_ico_cfg 0x1234 < 2"
  using log_ico_address_map[of demo_ico_cfg 1 "0x1234"] by (simp add: demo_ico_cfg_def)

text \<open>With a number of banks that is not a power of two, some address decodes to a bank that does
  not exist, and the access to the vector of banks is out of range: the caller has to keep such
  addresses out.\<close>

theorem log_ico_bank_out_of_range:
  assumes "0 < li_nb_slaves c" "li_nb_slaves c \<le> 2 ^ 31" "\<And>b. li_nb_slaves c \<noteq> 2 ^ b"
    and "li_interleaving_width c + li_slave_bits c \<le> 64" and "length (li_banks s) = li_nb_slaves c"
  shows "\<exists>a. \<forall>req. r_addr req = a \<longrightarrow> log_ico_input_req c banks i req s = None"
proof -
  have "li_nb_slaves c \<le> 2 ^ li_slave_bits c"
    using ceil_log2_least[of "li_nb_slaves c" "li_slave_bits c"] assms(1,2) by (simp add: li_slave_bits_def)
  then have "li_nb_slaves c < 2 ^ li_slave_bits c" using assms(3) by (simp add: order_less_le)
  then have "decode_bank c (push_bit (li_interleaving_width c) (of_nat (li_nb_slaves c))) = li_nb_slaves c"
    by (rule decode_bank_hits) (rule assms(4))
  then show ?thesis using assms(5)
    by (intro exI[of _ "push_bit (li_interleaving_width c) (of_nat (li_nb_slaves c))"])
      (simp add: log_ico_input_req_def Let_def)
qed

definition demo_ico_cfg3 :: log_ico_cfg where
  "demo_ico_cfg3 = \<lparr>li_nb_masters = 3, li_nb_slaves = 3, li_interleaving_width = 2\<rparr>"

lemma three_no_power: "(3::nat) \<noteq> 2 ^ b"
  by (cases b) (simp_all, presburger)

theorem log_ico_bank_out_of_range_witness:
  "\<exists>a. \<forall>req. r_addr req = a \<longrightarrow> log_ico_input_req demo_ico_cfg3 (\<lambda>_ _. done_answer 1) 0 req
     \<lparr>li_in_election = True, li_banks = replicate 3 \<lparr>bk_pending_mask = 0, bk_rr_next = 0\<rparr>\<rparr> = None"
  by (rule log_ico_bank_out_of_range)
    (simp_all add: demo_ico_cfg3_def three_no_power li_slave_bits_def ceil_log2_u_def clz32_def bit_len.simps)

end
