(* ===== verification/SplitterV2.thy ===== *)
theory SplitterV2 imports IoV2 begin

text \<open>
  \<open>src/models/interco/splitter_v2.cpp\<close>: a request is carved into phases of at most \<open>input_width\<close>
  bytes, a phase into chunks of at most \<open>output_width\<close> bytes, one per output. \<open>out i sub\<close> is what
  output \<open>i\<close> answers to a chunk; the chunks a handler sends are returned with their output and the
  status they got, in order. The pending parent and the stuck chunks are kept by value, the free
  list as the chunks that were given back. A handler is \<open>None\<close> where the code dereferences the
  null \<open>pending_parent\<close>, indexes \<open>stuck\<close> out of range, or where its loop over the phases does not
  end. The calls to the master are made at the end of the handler, so its reaction to them is a
  step of its own.
\<close>

record splitter_cfg =
  sc_input_width :: u64
  sc_output_width :: u64

record splitter =
  sp_pending_parent :: "io_req option"
  sp_total_size :: u64
  sp_bytes_planned :: u64
  sp_chunks_pending :: int
  sp_max_latency :: int
  sp_accumulated_latency :: int
  sp_admission_cycle :: int
  sp_inside_input_req :: bool
  sp_stuck :: "io_req option list"
  sp_free_list :: "io_req list"
  sp_needs_retry :: bool

type_synonym sent = "(nat \<times> io_req \<times> io_status) list"

definition splitter_nb_outputs :: "splitter_cfg \<Rightarrow> nat" where
  "splitter_nb_outputs c = unat (sc_input_width c) div unat (sc_output_width c)"

definition splitter_reset :: "bool \<Rightarrow> splitter \<Rightarrow> splitter" where
  "splitter_reset active s =
     (if active then s\<lparr>sp_pending_parent := None, sp_total_size := 0, sp_bytes_planned := 0,
        sp_chunks_pending := 0, sp_max_latency := 0, sp_accumulated_latency := 0,
        sp_admission_cycle := 0, sp_inside_input_req := False, sp_needs_retry := False,
        sp_stuck := map (\<lambda>_. None) (sp_stuck s)\<rparr> else s)"

text \<open>A new request, or the head of the free list; every field is set again by its user.\<close>

definition blank_req :: io_req where
  "blank_req = plain_req 0 0 False"

definition splitter_alloc_sub :: "splitter \<Rightarrow> io_req \<times> splitter" where
  "splitter_alloc_sub s =
     (case sp_free_list s of [] \<Rightarrow> (blank_req, s) | q # qs \<Rightarrow> (q, s\<lparr>sp_free_list := qs\<rparr>))"

definition splitter_free_sub :: "io_req \<Rightarrow> splitter \<Rightarrow> splitter" where
  "splitter_free_sub sub s = s\<lparr>sp_free_list := sub # sp_free_list s\<rparr>"

definition splitter_account_chunk :: "io_req \<Rightarrow> splitter \<Rightarrow> splitter option" where
  "splitter_account_chunk sub s =
     (case sp_pending_parent s of None \<Rightarrow> None
      | Some p \<Rightarrow>
          let p1 = (if r_resp sub = IO_RESP_INVALID then p\<lparr>r_resp := IO_RESP_INVALID\<rparr> else p);
              lat = r_latency sub;
              s1 = (if lat > sp_max_latency s then s\<lparr>sp_max_latency := lat\<rparr> else s);
              p2 = p1\<lparr>r_remaining := r_remaining p1 - r_size sub\<rparr>
          in Some (splitter_free_sub sub
               (s1\<lparr>sp_pending_parent := Some p2, sp_chunks_pending := sp_chunks_pending s1 - 1\<rparr>)))"

text \<open>A chunk as \<open>issue_phases\<close> prepares it. Whether it is a write goes with its opcode.\<close>

definition splitter_chunk :: "io_req \<Rightarrow> io_req \<Rightarrow> u64 \<Rightarrow> u64 \<Rightarrow> u64 \<Rightarrow> io_req" where
  "splitter_chunk parent q addr sz data =
     q\<lparr>r_addr := addr, r_size := sz, r_data := data, r_opcode := r_opcode parent,
       r_is_write := r_is_write parent, r_latency := 0, r_resp := IO_RESP_OK\<rparr>"

text \<open>The fan-out of one phase over the outputs \<open>is\<close>.\<close>

fun splitter_fan_out ::
  "splitter_cfg \<Rightarrow> (nat \<Rightarrow> io_req \<Rightarrow> io_answer) \<Rightarrow> nat list \<Rightarrow> u64 \<Rightarrow> u64 \<Rightarrow> u64 \<Rightarrow> io_req \<Rightarrow> splitter
   \<Rightarrow> (sent \<times> splitter) option" where
  "splitter_fan_out c out [] addr sz data parent s = Some ([], s)"
| "splitter_fan_out c out (i # is) addr sz data parent s =
     (if sz = 0 then Some ([], s)
      else
        (let ow = sc_output_width c;
             port_size = ow - (addr AND (ow - 1));
             iter_size = min port_size sz;
             (q, s1) = splitter_alloc_sub s;
             sub = splitter_chunk parent q addr iter_size data;
             s2 = s1\<lparr>sp_chunks_pending := sp_chunks_pending s1 + 1\<rparr>;
             a = out i sub; st = a_status a;
             s3 = (case st of
                     IO_REQ_DONE \<Rightarrow> splitter_account_chunk (apply_answer a sub) s2
                   | IO_REQ_DENIED \<Rightarrow> (if i < length (sp_stuck s2)
                                      then Some (s2\<lparr>sp_stuck := (sp_stuck s2)[i := Some sub]\<rparr>) else None)
                   | IO_REQ_GRANTED \<Rightarrow> Some s2)
         in case s3 of None \<Rightarrow> None
            | Some s4 \<Rightarrow>
                map_option (\<lambda>(xs, s5). ((i, sub, st) # xs, s5))
                  (splitter_fan_out c out is (addr + iter_size) (sz - iter_size) (data + iter_size) parent s4)))"

text \<open>The loop over the phases. A phase plans at least one byte, so that \<open>sp_total_size\<close> rounds are
  enough (\<open>splitter_issue_phases_ends\<close>); \<open>None\<close> when the fuel runs out.\<close>

fun splitter_phases ::
  "splitter_cfg \<Rightarrow> (nat \<Rightarrow> io_req \<Rightarrow> io_answer) \<Rightarrow> nat \<Rightarrow> splitter \<Rightarrow> (sent \<times> splitter) option" where
  "splitter_phases c out 0 s = None"
| "splitter_phases c out (Suc n) s =
     (if sp_bytes_planned s < sp_total_size s \<and> sp_chunks_pending s = 0 then
        (case sp_pending_parent s of None \<Rightarrow> None
         | Some parent \<Rightarrow>
            let base = r_addr parent + sp_bytes_planned s;
                total_rem = sp_total_size s - sp_bytes_planned s;
                iw_rem = sc_input_width c - (base AND (sc_input_width c - 1));
                phase_size = min iw_rem total_rem;
                s1 = s\<lparr>sp_max_latency := 0\<rparr>
            in case splitter_fan_out c out [0..<splitter_nb_outputs c] base phase_size
                      (r_data parent + sp_bytes_planned s) parent s1 of
                 None \<Rightarrow> None
               | Some (xs, s2) \<Rightarrow>
                   let s3 = s2\<lparr>sp_bytes_planned := sp_bytes_planned s2 + phase_size\<rparr>;
                       s4 = (if sp_chunks_pending s3 = 0
                             then s3\<lparr>sp_accumulated_latency := sp_accumulated_latency s3 + sp_max_latency s3\<rparr> else s3)
                   in map_option (\<lambda>(ys, s5). (xs @ ys, s5)) (splitter_phases c out n s4))
      else Some ([], s))"

definition splitter_issue_phases ::
  "splitter_cfg \<Rightarrow> (nat \<Rightarrow> io_req \<Rightarrow> io_answer) \<Rightarrow> splitter \<Rightarrow> (sent \<times> splitter) option" where
  "splitter_issue_phases c out s = splitter_phases c out (Suc (unat (sp_total_size s))) s"

definition splitter_finalize_parent :: "int \<Rightarrow> splitter \<Rightarrow> (io_req io_up list \<times> splitter) option" where
  "splitter_finalize_parent cycles s =
     (case sp_pending_parent s of None \<Rightarrow> None
      | Some p \<Rightarrow>
          let topup = sp_accumulated_latency s - (cycles - sp_admission_cycle s);
              p1 = p\<lparr>r_latency := (if topup > 0 then topup else 0), r_is_first := True, r_is_last := True\<rparr>;
              s1 = s\<lparr>sp_pending_parent := None, sp_total_size := 0, sp_bytes_planned := 0,
                     sp_chunks_pending := 0, sp_max_latency := 0, sp_accumulated_latency := 0\<rparr>
          in Some (if sp_needs_retry s1 then ([Resp p1, Retry], s1\<lparr>sp_needs_retry := False\<rparr>)
                   else ([Resp p1], s1)))"

definition splitter_after_chunk_completion ::
  "splitter_cfg \<Rightarrow> (nat \<Rightarrow> io_req \<Rightarrow> io_answer) \<Rightarrow> int \<Rightarrow> splitter \<Rightarrow> (sent \<times> io_req io_up list \<times> splitter) option" where
  "splitter_after_chunk_completion c out cycles s =
     (if sp_chunks_pending s \<noteq> 0 then Some ([], [], s)
      else
        (let s1 = s\<lparr>sp_accumulated_latency := sp_accumulated_latency s + sp_max_latency s\<rparr>;
             r = (if sp_bytes_planned s1 < sp_total_size s1 then splitter_issue_phases c out s1 else Some ([], s1))
         in case r of None \<Rightarrow> None
            | Some (xs, s2) \<Rightarrow>
                if sp_chunks_pending s2 \<noteq> 0 then Some (xs, [], s2)
                else if sp_inside_input_req s2 then Some (xs, [], s2)
                else map_option (\<lambda>(up, s3). (xs, up, s3)) (splitter_finalize_parent cycles s2)))"

definition splitter_input_req ::
  "splitter_cfg \<Rightarrow> (nat \<Rightarrow> io_req \<Rightarrow> io_answer) \<Rightarrow> int \<Rightarrow> io_req \<Rightarrow> splitter
   \<Rightarrow> (io_status \<times> io_req \<times> sent \<times> splitter) option" where
  "splitter_input_req c out cycles req s =
     (if sp_pending_parent s \<noteq> None then Some (IO_REQ_DENIED, req, [], s\<lparr>sp_needs_retry := True\<rparr>)
      else if r_size req = 0 then Some (IO_REQ_DONE, req\<lparr>r_resp := IO_RESP_OK\<rparr>, [], s)
      else
        (let p = req\<lparr>r_remaining := r_size req, r_resp := IO_RESP_OK\<rparr>;
             s1 = s\<lparr>sp_pending_parent := Some p, sp_total_size := r_size req, sp_bytes_planned := 0,
                    sp_chunks_pending := 0, sp_max_latency := 0, sp_accumulated_latency := 0,
                    sp_admission_cycle := cycles, sp_inside_input_req := True\<rparr>
         in case splitter_issue_phases c out s1 of None \<Rightarrow> None
            | Some (xs, s2) \<Rightarrow>
                let s3 = s2\<lparr>sp_inside_input_req := False\<rparr>
                in if sp_chunks_pending s3 = 0 \<and> sp_bytes_planned s3 = sp_total_size s3
                   then (case sp_pending_parent s3 of None \<Rightarrow> None
                         | Some p3 \<Rightarrow>
                           let topup = sp_accumulated_latency s3
                           in Some (IO_REQ_DONE, p3\<lparr>r_latency := (if topup > 0 then topup else 0)\<rparr>, xs,
                              s3\<lparr>sp_pending_parent := None, sp_total_size := 0, sp_bytes_planned := 0,
                                 sp_accumulated_latency := 0\<rparr>))
                   else (case sp_pending_parent s3 of None \<Rightarrow> None
                         | Some p3 \<Rightarrow> Some (IO_REQ_GRANTED, p3, xs, s3))))"

definition splitter_output_resp ::
  "splitter_cfg \<Rightarrow> (nat \<Rightarrow> io_req \<Rightarrow> io_answer) \<Rightarrow> int \<Rightarrow> io_req \<Rightarrow> splitter
   \<Rightarrow> (sent \<times> io_req io_up list \<times> splitter) option" where
  "splitter_output_resp c out cycles sub s =
     (case splitter_account_chunk sub s of None \<Rightarrow> None
      | Some s1 \<Rightarrow> splitter_after_chunk_completion c out cycles s1)"

definition splitter_output_retry ::
  "splitter_cfg \<Rightarrow> (nat \<Rightarrow> io_req \<Rightarrow> io_answer) \<Rightarrow> int \<Rightarrow> nat \<Rightarrow> splitter
   \<Rightarrow> (sent \<times> io_req io_up list \<times> splitter) option" where
  "splitter_output_retry c out cycles i s =
     (if i \<ge> length (sp_stuck s) then None
      else case sp_stuck s ! i of None \<Rightarrow> Some ([], [], s)
      | Some sub \<Rightarrow>
          let s1 = s\<lparr>sp_stuck := (sp_stuck s)[i := None]\<rparr>; a = out i sub; st = a_status a
          in case st of
               IO_REQ_DONE \<Rightarrow>
                 (case splitter_account_chunk (apply_answer a sub) s1 of None \<Rightarrow> None
                  | Some s2 \<Rightarrow> map_option (\<lambda>(xs, up, s3). ((i, sub, st) # xs, up, s3))
                                (splitter_after_chunk_completion c out cycles s2))
             | IO_REQ_DENIED \<Rightarrow> Some ([(i, sub, st)], [], s1\<lparr>sp_stuck := (sp_stuck s1)[i := Some sub]\<rparr>)
             | IO_REQ_GRANTED \<Rightarrow> Some ([(i, sub, st)], [], s1))"

section \<open>The chunks of a phase\<close>

text \<open>The chunks cover the bytes \<open>[a, a + sz)\<close> in order, on consecutive outputs from \<open>i\<close> on, each
  inside one aligned window of \<open>ow\<close> bytes, with the data pointer following the address.\<close>

fun chunks_tile :: "u64 \<Rightarrow> nat \<Rightarrow> u64 \<Rightarrow> u64 \<Rightarrow> u64 \<Rightarrow> sent \<Rightarrow> bool" where
  "chunks_tile ow i a sz d [] = (sz = 0)"
| "chunks_tile ow i a sz d ((j, q, st) # xs) =
     (j = i \<and> r_addr q = a \<and> r_data q = d \<and> 0 < r_size q \<and> r_size q \<le> sz \<and>
      unat (a AND (ow - 1)) + unat (r_size q) \<le> unat ow \<and>
      chunks_tile ow (Suc i) (a + r_size q) (sz - r_size q) (d + r_size q) xs)"

abbreviation sent_size :: "sent \<Rightarrow> u64" where
  "sent_size xs \<equiv> sum_list (map (\<lambda>(i, q, st). r_size q) xs)"

lemma tile_size: "chunks_tile ow i a sz d xs \<Longrightarrow> sent_size xs = sz"
  by (induction ow i a sz d xs rule: chunks_tile.induct) auto

lemma tile_ports: "chunks_tile ow i a sz d xs \<Longrightarrow> map fst xs = [i..<i + length xs]"
proof (induction ow i a sz d xs rule: chunks_tile.induct)
  case (2 ow i a sz d j q st xs)
  then have "map fst xs = [Suc i..<Suc i + length xs]" by (simp del: upt_Suc)
  with 2 show ?case by (simp add: upt_conv_Cons del: upt_Suc)
qed simp

lemma chunk_simps [simp]:
  "r_addr (splitter_chunk p q a sz d) = a" "r_size (splitter_chunk p q a sz d) = sz"
  "r_data (splitter_chunk p q a sz d) = d" "r_opcode (splitter_chunk p q a sz d) = r_opcode p"
  by (simp_all add: splitter_chunk_def)

lemma window_rest:
  fixes a :: u64
  assumes "w < 64"
  shows "unat (2 ^ w - (a AND (2 ^ w - 1))) = 2 ^ w - unat a mod 2 ^ w"
    "unat (a AND (2 ^ w - 1)) = unat a mod 2 ^ w"
proof -
  have m: "unat (a AND (2 ^ w - 1)) = unat a mod 2 ^ w" by (simp add: word_minus_one_mask and_mask_unat)
  have u: "unat (2 ^ w :: u64) = 2 ^ w" using assms by (simp add: unat_pow2)
  have "unat (a AND (2 ^ w - 1)) \<le> unat (2 ^ w :: u64)" unfolding m u by (simp add: less_imp_le)
  then have "(a AND (2 ^ w - 1)) \<le> 2 ^ w" by (simp add: word_le_nat_alt)
  then show "unat (2 ^ w - (a AND (2 ^ w - 1))) = 2 ^ w - unat a mod 2 ^ w" by (simp add: unat_sub_le m u)
  show "unat (a AND (2 ^ w - 1)) = unat a mod 2 ^ w" by (rule m)
qed

lemma fan_out_tiles:
  assumes "splitter_fan_out c out [i..<n] a sz d parent s = Some (xs, s')"
    and "sc_output_width c = 2 ^ w" "w < 64" "i \<le> n"
    and "sz \<noteq> 0 \<Longrightarrow> unat a mod 2 ^ w + unat sz \<le> (n - i) * 2 ^ w"
  shows "chunks_tile (2 ^ w) i a sz d xs"
  using assms
proof (induction "n - i" arbitrary: i a sz d s xs s')
  case 0
  then have "sz = 0" by (cases "sz = 0") (simp_all add: unat_eq_zero)
  with 0 show ?case by auto
next
  case (Suc k)
  then have in_: "[i..<n] = i # [Suc i..<n]" by (simp add: upt_conv_Cons)
  show ?case
  proof (cases "sz = 0")
    case True then show ?thesis using Suc.prems(1) in_ by simp
  next
    case False
    let ?port = "2 ^ w - (a AND (2 ^ w - 1)) :: u64" and ?it = "min (2 ^ w - (a AND (2 ^ w - 1))) sz"
    note wr = window_rest[OF Suc.prems(3), of a]
    have am: "unat a mod 2 ^ w < 2 ^ w" by simp
    have it: "unat ?it = min (2 ^ w - unat a mod 2 ^ w) (unat sz)"
      using wr(1) by (auto simp: min_def word_le_nat_alt)
    have itpos: "0 < ?it" using it am False by (simp add: word_less_nat_alt unat_gt_0)
    obtain sub st s4 ys where step: "xs = (i, sub, st) # ys" "r_addr sub = a" "r_size sub = ?it" "r_data sub = d"
      "splitter_fan_out c out [Suc i..<n] (a + ?it) (sz - ?it) (d + ?it) parent s4 = Some (ys, s')"
      using Suc.prems(1,2) False unfolding in_
      by (auto simp: Let_def split_def split: option.splits)
    have sz': "unat (sz - ?it) = unat sz - unat ?it" by (rule unat_sub_le) simp
    have fit: "unat (a + ?it) mod 2 ^ w + unat (sz - ?it) \<le> (n - Suc i) * 2 ^ w" if "sz - ?it \<noteq> 0"
    proof -
      have lt: "2 ^ w - unat a mod 2 ^ w < unat sz"
      proof (rule ccontr)
        assume "\<not> ?thesis"
        then have "unat ?it = unat sz" unfolding it by simp
        then have "?it = sz" by (simp only: word_unat_eq_iff)
        then show False using that by simp
      qed
      then have i': "unat ?it = 2 ^ w - unat a mod 2 ^ w" by (simp add: it)
      have "unat (a + ?it) mod 2 ^ w = (unat a + unat ?it) mod 2 ^ w"
        using Suc.prems(3) by (simp add: unat_word_ariths mod_pow64)
      also have "\<dots> = (unat a mod 2 ^ w + (2 ^ w - unat a mod 2 ^ w)) mod 2 ^ w"
        unfolding i' by (rule mod_add_left_eq[symmetric])
      also have "\<dots> = 0" by (simp only: le_add_diff_inverse[OF less_imp_le[OF am]] mod_self)
      finally have z: "unat (a + ?it) mod 2 ^ w = 0" .
      have "unat sz + unat a mod 2 ^ w \<le> Suc k * 2 ^ w" using Suc.prems(5) False Suc.hyps(2) by (simp add: add.commute)
      moreover have "k = n - Suc i" using Suc.hyps(2) by simp
      ultimately show ?thesis using z sz' i' am by simp
    qed
    have "chunks_tile (2 ^ w) (Suc i) (a + ?it) (sz - ?it) (d + ?it) ys"
      by (rule Suc.hyps(1)[OF _ step(5) Suc.prems(2,3) _ fit]) (use Suc.hyps(2) in simp_all)
    moreover have "unat (a AND (2 ^ w - 1)) + unat ?it \<le> unat (2 ^ w :: u64)"
      unfolding wr(2) it unat_pow2[OF Suc.prems(3)[folded len64]] using am by linarith
    ultimately show ?thesis using step itpos by simp
  qed
qed

section \<open>Conservation\<close>

text \<open>The chunks that wait for a retry, and those a handler leaves with the outputs.\<close>

definition stuck_subs :: "splitter \<Rightarrow> io_req list" where
  "stuck_subs s = concat (map (case_option [] (\<lambda>q. [q])) (sp_stuck s))"

definition granted_subs :: "sent \<Rightarrow> io_req list" where
  "granted_subs xs = map (\<lambda>(i, q, st). q) (filter (\<lambda>(i, q, st). st = IO_REQ_GRANTED) xs)"

abbreviation total_size :: "io_req list \<Rightarrow> u64" where
  "total_size qs \<equiv> sum_list (map r_size qs)"

lemma stuck_update:
  assumes "i < length ss" "ss ! i = None"
  shows "\<exists>us vs. concat (map (case_option [] (\<lambda>q. [q])) ss) = us @ vs \<and>
    concat (map (case_option [] (\<lambda>q. [q])) (ss[i := Some q])) = us @ q # vs"
proof -
  let ?f = "\<lambda>ss. concat (map (case_option [] (\<lambda>q. [q])) ss)"
  have "?f ss = ?f (take i ss) @ ?f (drop (Suc i) ss)"
    by (subst id_take_nth_drop[OF assms(1)]) (simp add: assms(2))
  moreover have "?f (ss[i := Some q]) = ?f (take i ss) @ q # ?f (drop (Suc i) ss)"
    by (simp add: upd_conv_take_nth_drop[OF assms(1)])
  ultimately show ?thesis by blast
qed

text \<open>The accounting of a burst with the chunks \<open>F\<close> in flight: the bytes still expected are the
  bytes not planned yet and the bytes of the chunks in flight or waiting for a retry, and the chunk
  counter counts the latter.\<close>

definition burst_ok :: "splitter \<Rightarrow> io_req list \<Rightarrow> bool" where
  "burst_ok s F \<longleftrightarrow> (\<exists>p. sp_pending_parent s = Some p \<and> sp_total_size s = r_size p \<and>
     r_remaining p = (sp_total_size s - sp_bytes_planned s) + total_size (stuck_subs s) + total_size F \<and>
     sp_chunks_pending s = int (length (stuck_subs s) + length F))"

text \<open>Inside a phase \<open>rest\<close> of its bytes are not sent yet.\<close>

definition phase_ok :: "splitter \<Rightarrow> io_req list \<Rightarrow> u64 \<Rightarrow> bool" where
  "phase_ok s F rest \<longleftrightarrow> (\<exists>p. sp_pending_parent s = Some p \<and> sp_total_size s = r_size p \<and>
     r_remaining p = rest + total_size (stuck_subs s) + total_size F \<and>
     sp_chunks_pending s = int (length (stuck_subs s) + length F))"

lemma burst_phase: "burst_ok s F \<longleftrightarrow> phase_ok s F (sp_total_size s - sp_bytes_planned s)"
  by (simp add: burst_ok_def phase_ok_def)

lemma alloc_phase [simp]:
  "phase_ok (snd (splitter_alloc_sub s)) F r = phase_ok s F r"
  "sp_stuck (snd (splitter_alloc_sub s)) = sp_stuck s"
  "sp_bytes_planned (snd (splitter_alloc_sub s)) = sp_bytes_planned s"
  "sp_total_size (snd (splitter_alloc_sub s)) = sp_total_size s"
  "sp_chunks_pending (snd (splitter_alloc_sub s)) = sp_chunks_pending s"
  by (simp_all add: splitter_alloc_sub_def phase_ok_def stuck_subs_def split: list.splits)

lemma account_chunk_ok:
  assumes "phase_ok s (F @ q # G) r"
  shows "\<exists>s'. splitter_account_chunk (q\<lparr>r_latency := l, r_resp := v\<rparr>) s = Some s' \<and> phase_ok s' (F @ G) r \<and>
    sp_stuck s' = sp_stuck s \<and> sp_bytes_planned s' = sp_bytes_planned s \<and> sp_total_size s' = sp_total_size s \<and>
    sp_inside_input_req s' = sp_inside_input_req s \<and>
    (case (sp_pending_parent s, sp_pending_parent s') of (Some p, Some p') \<Rightarrow>
       r_addr p' = r_addr p \<and> r_data p' = r_data p | _ \<Rightarrow> False)"
proof -
  obtain p where p: "sp_pending_parent s = Some p" "sp_total_size s = r_size p"
    "r_remaining p = r + total_size (stuck_subs s) + total_size (F @ q # G)"
    "sp_chunks_pending s = int (length (stuck_subs s) + length (F @ q # G))"
    using assms by (auto simp: phase_ok_def)
  then show ?thesis
    by (simp add: splitter_account_chunk_def Let_def phase_ok_def splitter_free_sub_def stuck_subs_def)
qed

lemma stuck_sub_update:
  assumes "i < length (sp_stuck s)" "sp_stuck s ! i = None"
  shows "total_size (stuck_subs (s\<lparr>sp_stuck := (sp_stuck s)[i := Some q]\<rparr>)) = r_size q + total_size (stuck_subs s)"
    "length (stuck_subs (s\<lparr>sp_stuck := (sp_stuck s)[i := Some q]\<rparr>)) = Suc (length (stuck_subs s))"
  using stuck_update[OF assms, of q] by (auto simp: stuck_subs_def)

text \<open>What a handler leaves alone while it sends chunks.\<close>

definition same_burst :: "splitter \<Rightarrow> splitter \<Rightarrow> bool" where
  "same_burst s s' \<longleftrightarrow> sp_bytes_planned s' = sp_bytes_planned s \<and> sp_total_size s' = sp_total_size s \<and>
     sp_inside_input_req s' = sp_inside_input_req s \<and> sp_admission_cycle s' = sp_admission_cycle s \<and>
     sp_accumulated_latency s' = sp_accumulated_latency s \<and> sp_needs_retry s' = sp_needs_retry s \<and>
     length (sp_stuck s') = length (sp_stuck s) \<and>
     map_option (\<lambda>p. (r_addr p, r_data p, r_size p, r_opcode p)) (sp_pending_parent s') =
     map_option (\<lambda>p. (r_addr p, r_data p, r_size p, r_opcode p)) (sp_pending_parent s)"

lemma same_burst_refl [simp]: "same_burst s s" by (simp add: same_burst_def)

lemma same_burst_trans: "same_burst s t \<Longrightarrow> same_burst t u \<Longrightarrow> same_burst s u"
  by (simp add: same_burst_def)

lemma account_chunk_same: "splitter_account_chunk q s = Some s' \<Longrightarrow> same_burst s s' \<and> sp_stuck s' = sp_stuck s"
  by (auto simp: splitter_account_chunk_def splitter_free_sub_def same_burst_def Let_def split: option.splits if_splits)

text \<open>One chunk: it is done, in flight or stuck afterwards, and the phase stays accounted for.\<close>

lemma send_chunk_ok:
  assumes "phase_ok s F r" "i < length (sp_stuck s)" "sp_stuck s ! i = None"
  shows "\<exists>s'. (case a_status a of
        IO_REQ_DONE \<Rightarrow> splitter_account_chunk (apply_answer a q) (s\<lparr>sp_chunks_pending := sp_chunks_pending s + 1\<rparr>)
      | IO_REQ_DENIED \<Rightarrow> Some (s\<lparr>sp_chunks_pending := sp_chunks_pending s + 1, sp_stuck := (sp_stuck s)[i := Some q]\<rparr>)
      | IO_REQ_GRANTED \<Rightarrow> Some (s\<lparr>sp_chunks_pending := sp_chunks_pending s + 1\<rparr>)) = Some s' \<and>
    phase_ok s' (F @ granted_subs [(i, q, a_status a)]) (r - r_size q) \<and> same_burst s s' \<and>
    (\<forall>j. j \<noteq> i \<longrightarrow> sp_stuck s' ! j = sp_stuck s ! j)"
proof (cases "a_status a")
  case IO_REQ_DONE
  let ?s = "s\<lparr>sp_chunks_pending := sp_chunks_pending s + 1\<rparr>"
  obtain l v where lv: "apply_answer a q = q\<lparr>r_latency := l, r_resp := v\<rparr>" using apply_answer_form by blast
  have "phase_ok ?s (F @ q # []) (r - r_size q)" using assms(1) by (auto simp: phase_ok_def stuck_subs_def)
  from account_chunk_ok[OF this, where l = l and v = v] obtain s' where
    s': "splitter_account_chunk (apply_answer a q) ?s = Some s'" "phase_ok s' (F @ []) (r - r_size q)" by (auto simp: lv)
  have "same_burst s ?s" by (simp add: same_burst_def)
  then show ?thesis using s' account_chunk_same[OF s'(1)] IO_REQ_DONE
    by (auto simp: granted_subs_def intro: same_burst_trans)
next
  case IO_REQ_GRANTED
  then show ?thesis using assms(1) by (auto simp: phase_ok_def stuck_subs_def granted_subs_def same_burst_def)
next
  case IO_REQ_DENIED
  then show ?thesis using assms stuck_sub_update[OF assms(2,3), of q]
    by (auto simp: phase_ok_def granted_subs_def same_burst_def stuck_subs_def)
qed

lemma granted_Cons: "granted_subs (x # xs) = granted_subs [x] @ granted_subs xs"
  by (simp add: granted_subs_def)

lemma granted_append: "granted_subs (xs @ ys) = granted_subs xs @ granted_subs ys"
  by (simp add: granted_subs_def)

lemma fan_out_ok:
  assumes "phase_ok s F r" "distinct is" "\<And>i. i \<in> set is \<Longrightarrow> i < length (sp_stuck s) \<and> sp_stuck s ! i = None"
  shows "\<exists>xs s'. splitter_fan_out c out is a sz d parent s = Some (xs, s') \<and>
    phase_ok s' (F @ granted_subs xs) (r - sent_size xs) \<and> same_burst s s'"
  using assms
proof (induction "is" arbitrary: a sz d s F r)
  case Nil then show ?case by (simp add: granted_subs_def)
next
  case (Cons i "is")
  show ?case
  proof (cases "sz = 0")
    case True then show ?thesis using Cons.prems by (simp add: granted_subs_def)
  next
    case False
    let ?it = "min (sc_output_width c - (a AND (sc_output_width c - 1))) sz"
    obtain q s1 where al: "splitter_alloc_sub s = (q, s1)" by fastforce
    then have s1: "s1 = snd (splitter_alloc_sub s)" by simp
    let ?sub = "splitter_chunk parent q a ?it d"
    have st1: "sp_stuck s1 = sp_stuck s" "phase_ok s1 F r" "same_burst s s1"
      using Cons.prems(1) by (simp_all add: s1) (simp add: same_burst_def splitter_alloc_sub_def split: list.splits)
    have i: "i < length (sp_stuck s1)" "sp_stuck s1 ! i = None" using Cons.prems(3)[of i] st1 by auto
    obtain s4 where s4: "(case a_status (out i ?sub) of
        IO_REQ_DONE \<Rightarrow> splitter_account_chunk (apply_answer (out i ?sub) ?sub) (s1\<lparr>sp_chunks_pending := sp_chunks_pending s1 + 1\<rparr>)
      | IO_REQ_DENIED \<Rightarrow> Some (s1\<lparr>sp_chunks_pending := sp_chunks_pending s1 + 1, sp_stuck := (sp_stuck s1)[i := Some ?sub]\<rparr>)
      | IO_REQ_GRANTED \<Rightarrow> Some (s1\<lparr>sp_chunks_pending := sp_chunks_pending s1 + 1\<rparr>)) = Some s4"
      "phase_ok s4 (F @ granted_subs [(i, ?sub, a_status (out i ?sub))]) (r - r_size ?sub)" "same_burst s1 s4"
      "\<forall>j. j \<noteq> i \<longrightarrow> sp_stuck s4 ! j = sp_stuck s1 ! j"
      using send_chunk_ok[OF st1(2) i, of "out i ?sub" ?sub] by blast
    have rest: "j < length (sp_stuck s4) \<and> sp_stuck s4 ! j = None" if "j \<in> set is" for j
      using Cons.prems(2) Cons.prems(3)[of j] that s4(3,4) st1 by (auto simp: same_burst_def)
    obtain ys s' where ys: "splitter_fan_out c out is (a + ?it) (sz - ?it) (d + ?it) parent s4 = Some (ys, s')"
      "phase_ok s' ((F @ granted_subs [(i, ?sub, a_status (out i ?sub))]) @ granted_subs ys) (r - r_size ?sub - sent_size ys)"
      "same_burst s4 s'"
      using Cons.IH[OF s4(2) _ rest] Cons.prems(2) by (meson distinct.simps(2))
    have run: "splitter_fan_out c out (i # is) a sz d parent s = Some ((i, ?sub, a_status (out i ?sub)) # ys, s')"
      using False i(1) s4(1) ys(1)
      by (cases "a_status (out i ?sub)") (simp_all add: al Let_def)
    moreover have "phase_ok s' (F @ granted_subs ((i, ?sub, a_status (out i ?sub)) # ys))
        (r - sent_size ((i, ?sub, a_status (out i ?sub)) # ys))"
      using ys(2) by (subst granted_Cons) (simp add: algebra_simps)
    moreover have "same_burst s s'" using st1(3) s4(3) ys(3) by (meson same_burst_trans)
    ultimately show ?thesis by blast
  qed
qed

section \<open>Bursts\<close>

text \<open>The widths are powers of two, the output no wider than the input.\<close>

definition splitter_cfg_ok :: "splitter_cfg \<Rightarrow> bool" where
  "splitter_cfg_ok c \<longleftrightarrow> (\<exists>w b. sc_output_width c = 2 ^ w \<and> sc_input_width c = 2 ^ (w + b) \<and> w + b < 64)"

lemma nb_outputs_pow:
  assumes "sc_output_width c = 2 ^ w" "sc_input_width c = 2 ^ (w + b)" "w + b < 64"
  shows "splitter_nb_outputs c = 2 ^ b"
proof -
  have "unat (2 ^ (w + b) :: u64) = 2 ^ (w + b)" "unat (2 ^ w :: u64) = 2 ^ w"
    using assms(3) by (simp_all add: unat_pow2 del: power_add)
  then show ?thesis unfolding splitter_nb_outputs_def assms(1,2) by (simp add: power_add)
qed

text \<open>A phase, as \<open>issue_phases\<close> sizes it, fits in the outputs.\<close>

lemma phase_tiles:
  fixes base rem :: u64
  assumes "splitter_cfg_ok c"
    and "splitter_fan_out c out [0..<splitter_nb_outputs c] base
           (min (sc_input_width c - (base AND (sc_input_width c - 1))) rem) d parent s = Some (xs, s')"
  shows "chunks_tile (sc_output_width c) 0 base (min (sc_input_width c - (base AND (sc_input_width c - 1))) rem) d xs"
proof -
  obtain w b where c: "sc_output_width c = 2 ^ w" "sc_input_width c = 2 ^ (w + b)" "w + b < 64"
    using assms(1) by (auto simp: splitter_cfg_ok_def)
  let ?p = "min (2 ^ (w + b) - (base AND (2 ^ (w + b) - 1))) rem"
  have "unat ?p \<le> unat (2 ^ (w + b) - (base AND (2 ^ (w + b) - 1)))" by (simp add: min_def word_le_nat_alt)
  also have "\<dots> = 2 ^ (w + b) - unat base mod 2 ^ (w + b)" by (rule window_rest(1)[OF c(3)])
  finally have p: "unat ?p \<le> 2 ^ (w + b) - unat base mod 2 ^ (w + b)" .
  have "unat base mod 2 ^ w \<le> unat base mod 2 ^ (w + b)"
    by (metis mod_less_eq_dividend mod_mod_cancel le_add1 le_imp_power_dvd)
  moreover have "unat base mod 2 ^ (w + b) \<le> 2 ^ (w + b)" by (simp add: less_imp_le)
  ultimately have "unat base mod 2 ^ w + unat ?p \<le> 2 ^ (w + b)" using p by linarith
  then have fit: "unat base mod 2 ^ w + unat ?p \<le> (splitter_nb_outputs c - 0) * 2 ^ w"
    unfolding nb_outputs_pow[OF c] by (simp add: power_add mult.commute)
  have "chunks_tile (2 ^ w) 0 base ?p d xs"
    by (rule fan_out_tiles[OF assms(2)[unfolded c(2)] c(1) _ _ fit]) (use c(3) in simp_all)
  then show ?thesis unfolding c .
qed

text \<open>Chunks one after the other from address \<open>a\<close> and data pointer \<open>d\<close> on.\<close>

fun chunks_chain :: "u64 \<Rightarrow> u64 \<Rightarrow> sent \<Rightarrow> bool" where
  "chunks_chain a d [] = True"
| "chunks_chain a d ((i, q, st) # xs) =
     (r_addr q = a \<and> r_data q = d \<and> 0 < r_size q \<and> chunks_chain (a + r_size q) (d + r_size q) xs)"

lemma tile_chain: "chunks_tile ow i a sz d xs \<Longrightarrow> chunks_chain a d xs"
  by (induction ow i a sz d xs rule: chunks_tile.induct) auto

lemma chain_append:
  "chunks_chain a d (xs @ ys) \<longleftrightarrow> chunks_chain a d xs \<and> chunks_chain (a + sent_size xs) (d + sent_size xs) ys"
  by (induction a d xs rule: chunks_chain.induct) (auto simp: add.assoc)

lemma phase_pos:
  fixes base rem :: u64
  assumes "splitter_cfg_ok c" "rem \<noteq> 0"
  shows "0 < unat (min (sc_input_width c - (base AND (sc_input_width c - 1))) rem)"
proof -
  obtain w b where c: "sc_input_width c = 2 ^ (w + b)" "w + b < 64"
    using assms(1) by (auto simp: splitter_cfg_ok_def)
  have "unat base mod 2 ^ (w + b) < 2 ^ (w + b)" by simp
  then have "0 < unat (2 ^ (w + b) - (base AND (2 ^ (w + b) - 1)))" unfolding window_rest(1)[OF c(2)] by simp
  then show ?thesis using assms(2) unfolding c(1) by (simp add: min_def unat_gt_0)
qed

lemma stuck_none: "stuck_subs s = [] \<Longrightarrow> i < length (sp_stuck s) \<Longrightarrow> sp_stuck s ! i = None"
proof -
  assume e: "stuck_subs s = []" and i: "i < length (sp_stuck s)"
  have "\<forall>x\<in>set (sp_stuck s). case_option [] (\<lambda>q. [q]) x = []" using e by (simp add: stuck_subs_def)
  then have "case_option [] (\<lambda>q. [q]) (sp_stuck s ! i) = []" using nth_mem[OF i] by blast
  then show ?thesis by (cases "sp_stuck s ! i") simp_all
qed

lemma burst_ok_drained:
  assumes "burst_ok s F" "sp_chunks_pending s = 0"
  shows "stuck_subs s = []" "F = []" "\<And>p. sp_pending_parent s = Some p \<Longrightarrow> r_remaining p = sp_total_size s - sp_bytes_planned s"
proof -
  obtain p where p: "sp_pending_parent s = Some p" "int (length (stuck_subs s) + length F) = 0"
    "r_remaining p = (sp_total_size s - sp_bytes_planned s) + total_size (stuck_subs s) + total_size F"
    using assms by (auto simp: burst_ok_def)
  then have "length (stuck_subs s) = 0 \<and> length F = 0" by linarith
  with p show "stuck_subs s = []" "F = []" "\<And>p. sp_pending_parent s = Some p \<Longrightarrow> r_remaining p = sp_total_size s - sp_bytes_planned s"
    by simp_all
qed

text \<open>What the phases of one call leave: \<open>s\<close> before, \<open>s'\<close> after, the chunks \<open>xs\<close> sent in between.\<close>

definition phases_post :: "splitter \<Rightarrow> io_req list \<Rightarrow> sent \<Rightarrow> splitter \<Rightarrow> bool" where
  "phases_post s F xs s' \<longleftrightarrow> burst_ok s' (F @ granted_subs xs) \<and>
     sp_bytes_planned s' \<le> sp_total_size s' \<and> sp_total_size s' = sp_total_size s \<and>
     sp_bytes_planned s' = sp_bytes_planned s + sent_size xs \<and>
     (sp_bytes_planned s' = sp_total_size s' \<or> sp_chunks_pending s' \<noteq> 0) \<and>
     sp_inside_input_req s' = sp_inside_input_req s \<and> sp_needs_retry s' = sp_needs_retry s \<and>
     sp_admission_cycle s' = sp_admission_cycle s \<and> length (sp_stuck s') = length (sp_stuck s) \<and>
     map_option (\<lambda>p. (r_addr p, r_data p, r_size p, r_opcode p)) (sp_pending_parent s') =
     map_option (\<lambda>p. (r_addr p, r_data p, r_size p, r_opcode p)) (sp_pending_parent s) \<and>
     (\<forall>p. sp_pending_parent s = Some p \<longrightarrow>
        chunks_chain (r_addr p + sp_bytes_planned s) (r_data p + sp_bytes_planned s) xs)"

lemma phases_ok:
  assumes "splitter_cfg_ok c" "burst_ok s F" "length (sp_stuck s) = splitter_nb_outputs c"
    "sp_bytes_planned s \<le> sp_total_size s" "unat (sp_total_size s - sp_bytes_planned s) < n"
  shows "\<exists>xs s'. splitter_phases c out n s = Some (xs, s') \<and> phases_post s F xs s'"
  using assms
proof (induction n arbitrary: s F)
  case (Suc n)
  show ?case
  proof (cases "sp_bytes_planned s < sp_total_size s \<and> sp_chunks_pending s = 0")
    case False
    then have "splitter_phases c out (Suc n) s = Some ([], s)" by auto
    moreover have "phases_post s F [] s"
      using Suc.prems False by (auto simp: phases_post_def granted_subs_def)
    ultimately show ?thesis by blast
  next
    case True
    obtain p where p: "sp_pending_parent s = Some p" "sp_total_size s = r_size p"
      using Suc.prems(2) unfolding burst_ok_def by blast
    have sn: "stuck_subs s = []" using burst_ok_drained(1)[OF Suc.prems(2)] True by simp
    let ?base = "r_addr p + sp_bytes_planned s" and ?rem = "sp_total_size s - sp_bytes_planned s"
    let ?ph = "min (sc_input_width c - (?base AND (sc_input_width c - 1))) ?rem"
    let ?s1 = "s\<lparr>sp_max_latency := 0\<rparr>"
    have ph1: "phase_ok ?s1 F ?rem" using Suc.prems(2) by (simp add: burst_phase phase_ok_def stuck_subs_def)
    have none: "i < length (sp_stuck ?s1) \<and> sp_stuck ?s1 ! i = None" if "i \<in> set [0..<splitter_nb_outputs c]" for i
      using stuck_none[OF sn, of i] that Suc.prems(3) by simp
    obtain xs s2 where f: "splitter_fan_out c out [0..<splitter_nb_outputs c] ?base ?ph (r_data p + sp_bytes_planned s) p ?s1 = Some (xs, s2)"
      "phase_ok s2 (F @ granted_subs xs) (?rem - sent_size xs)" "same_burst ?s1 s2"
      using fan_out_ok[OF ph1 distinct_upt none] by blast
    note tile = phase_tiles[OF Suc.prems(1) f(1)]
    have sz: "sent_size xs = ?ph" by (rule tile_size[OF tile])
    let ?s3 = "s2\<lparr>sp_bytes_planned := sp_bytes_planned s2 + ?ph\<rparr>"
    define s4 where "s4 = (if sp_chunks_pending ?s3 = 0
        then ?s3\<lparr>sp_accumulated_latency := sp_accumulated_latency ?s3 + sp_max_latency ?s3\<rparr> else ?s3)"
    have sb: "sp_bytes_planned s2 = sp_bytes_planned s" "sp_total_size s2 = sp_total_size s"
      using f(3) by (simp_all add: same_burst_def)
    have s4: "sp_bytes_planned s4 = sp_bytes_planned s + ?ph" "sp_total_size s4 = sp_total_size s"
      "sp_stuck s4 = sp_stuck s2" "sp_chunks_pending s4 = sp_chunks_pending s2"
      "sp_pending_parent s4 = sp_pending_parent s2" "sp_inside_input_req s4 = sp_inside_input_req s"
      "sp_needs_retry s4 = sp_needs_retry s" "sp_admission_cycle s4 = sp_admission_cycle s"
      "length (sp_stuck s4) = length (sp_stuck s)"
      using f(3) by (simp_all add: s4_def same_burst_def)
    have "burst_ok s4 (F @ granted_subs xs)"
      using f(2) sz s4 sb by (simp add: burst_ok_def phase_ok_def stuck_subs_def algebra_simps)
    have rem0: "?rem \<noteq> 0" using True by auto
    have phle: "?ph \<le> ?rem" by simp
    have rl: "unat ?rem = unat (sp_total_size s) - unat (sp_bytes_planned s)"
      using Suc.prems(4) by (rule unat_sub_le)
    have "unat (sp_bytes_planned s + ?ph) = unat (sp_bytes_planned s) + unat ?ph"
    proof (rule unat_add_no_wrap)
      have "unat ?ph \<le> unat ?rem" using phle by (simp add: word_le_nat_alt)
      then show "unat (sp_bytes_planned s) + unat ?ph < 2 ^ LENGTH(64)"
        using rl Suc.prems(4) unat_lt2p[of "sp_total_size s"] by (simp add: word_le_nat_alt)
    qed
    then have pl: "unat (sp_bytes_planned s4) = unat (sp_bytes_planned s) + unat ?ph" using s4(1) by simp
    have le4: "sp_bytes_planned s4 \<le> sp_total_size s4"
      using pl phle rl Suc.prems(4) s4(2) by (simp add: word_le_nat_alt)
    have "unat (sp_total_size s4 - sp_bytes_planned s4) = unat (sp_total_size s4) - unat (sp_bytes_planned s4)"
      by (rule unat_sub_le[OF le4])
    also have "\<dots> < n"
      unfolding s4(2) pl using phle[unfolded word_le_nat_alt] rl Suc.prems(5) phase_pos[OF Suc.prems(1) rem0, of ?base]
      by linarith
    finally have less: "unat (sp_total_size s4 - sp_bytes_planned s4) < n" .
    obtain ys s5 where ys: "splitter_phases c out n s4 = Some (ys, s5)" "phases_post s4 (F @ granted_subs xs) ys s5"
      using Suc.IH[OF Suc.prems(1) \<open>burst_ok s4 (F @ granted_subs xs)\<close> _ le4 less] Suc.prems(3) s4(9) by auto
    have run: "splitter_phases c out (Suc n) s = Some (xs @ ys, s5)"
      using True p(1) f(1) ys(1) by (simp add: Let_def s4_def split: if_splits)
    have par: "map_option (\<lambda>p. (r_addr p, r_data p, r_size p, r_opcode p)) (sp_pending_parent s4) =
      map_option (\<lambda>p. (r_addr p, r_data p, r_size p, r_opcode p)) (sp_pending_parent s)"
      using f(3) s4(5) by (simp add: same_burst_def)
    obtain p4 where p4: "sp_pending_parent s4 = Some p4" "r_addr p4 = r_addr p" "r_data p4 = r_data p"
      using par p(1) by auto
    have "chunks_chain ?base (r_data p + sp_bytes_planned s) (xs @ ys)"
      unfolding chain_append using tile_chain[OF tile] ys(2) p4 s4(1) sz
      by (simp add: phases_post_def add.assoc)
    note ch = this
    note y = ys(2)[unfolded phases_post_def]
    have pl5: "sp_bytes_planned s5 = sp_bytes_planned s + sent_size (xs @ ys)"
      using y s4(1) sz by (simp add: add.assoc)
    have "phases_post s F (xs @ ys) s5"
      unfolding phases_post_def granted_append append_assoc[symmetric]
    proof (intro conjI)
      show "sp_bytes_planned s5 = sp_total_size s5 \<or> sp_chunks_pending s5 \<noteq> 0"
        and "sp_bytes_planned s5 \<le> sp_total_size s5" using y by blast+
    qed (use y s4(2,6-9) pl5 par ch p(1) in simp_all)
    then show ?thesis using run by blast
  qed
qed simp

lemma issue_phases_ok:
  assumes "splitter_cfg_ok c" "burst_ok s F" "length (sp_stuck s) = splitter_nb_outputs c"
    "sp_bytes_planned s \<le> sp_total_size s"
  shows "\<exists>xs s'. splitter_issue_phases c out s = Some (xs, s') \<and> phases_post s F xs s'"
proof -
  have "unat (sp_total_size s - sp_bytes_planned s) < Suc (unat (sp_total_size s))"
    using unat_sub_le[OF assms(4)] by simp
  then show ?thesis unfolding splitter_issue_phases_def by (rule phases_ok[OF assms])
qed

section \<open>The handlers\<close>

text \<open>Between two calls: an idle splitter has nothing in flight and nothing stuck; a busy one has the
  bytes of its burst accounted for and at least one chunk in flight or stuck, so that an answer or a
  retry will come.\<close>

definition splitter_inv :: "splitter_cfg \<Rightarrow> splitter \<Rightarrow> io_req list \<Rightarrow> bool" where
  "splitter_inv c s F \<longleftrightarrow> length (sp_stuck s) = splitter_nb_outputs c \<and> \<not> sp_inside_input_req s \<and>
     (if sp_pending_parent s = None then sp_chunks_pending s = 0 \<and> stuck_subs s = [] \<and> F = []
      else burst_ok s F \<and> sp_bytes_planned s \<le> sp_total_size s \<and> stuck_subs s @ F \<noteq> [])"

definition burst_done :: "io_req \<Rightarrow> io_req \<Rightarrow> bool" where
  "burst_done p p' \<longleftrightarrow> r_addr p' = r_addr p \<and> r_size p' = r_size p \<and> r_data p' = r_data p \<and>
     r_opcode p' = r_opcode p \<and> r_remaining p' = 0 \<and> 0 \<le> r_latency p'"

lemma inv_input_req:
  assumes "splitter_cfg_ok c" "splitter_inv c s F"
  shows "\<exists>st r' xs s'. splitter_input_req c out cycles req s = Some (st, r', xs, s') \<and>
     splitter_inv c s' (F @ granted_subs xs) \<and>
     (st = IO_REQ_DENIED \<longleftrightarrow> sp_pending_parent s \<noteq> None) \<and>
     (st = IO_REQ_DENIED \<longrightarrow> r' = req \<and> xs = [] \<and> sp_needs_retry s') \<and>
     (st \<noteq> IO_REQ_DENIED \<longrightarrow> chunks_chain (r_addr req) (r_data req) xs) \<and>
     (st = IO_REQ_DONE \<longrightarrow> sent_size xs = r_size req \<and> (r_size req \<noteq> 0 \<longrightarrow> burst_done req r'))"
proof (cases "sp_pending_parent s = None \<and> r_size req \<noteq> 0")
  case False
  then show ?thesis using assms(2)
    by (auto simp: splitter_input_req_def splitter_inv_def granted_subs_def burst_ok_def stuck_subs_def)
next
  case True
  let ?p = "req\<lparr>r_remaining := r_size req, r_resp := IO_RESP_OK\<rparr>"
  let ?s1 = "s\<lparr>sp_pending_parent := Some ?p, sp_total_size := r_size req, sp_bytes_planned := 0,
                    sp_chunks_pending := 0, sp_max_latency := 0, sp_accumulated_latency := 0,
                    sp_admission_cycle := cycles, sp_inside_input_req := True\<rparr>"
  have F: "F = []" "stuck_subs s = []" using assms(2) True by (auto simp: splitter_inv_def)
  have "stuck_subs ?s1 = []" using F(2) by (simp add: stuck_subs_def)
  then have "burst_ok ?s1 []" by (simp add: burst_ok_def)
  then obtain xs s2 where x: "splitter_issue_phases c out ?s1 = Some (xs, s2)" "phases_post ?s1 [] xs s2"
    using issue_phases_ok[OF assms(1), of ?s1 "[]" out] assms(2) by (auto simp: splitter_inv_def)
  obtain p2 where p2: "sp_pending_parent s2 = Some p2" "r_addr p2 = r_addr req" "r_data p2 = r_data req"
    "r_size p2 = r_size req" "r_opcode p2 = r_opcode req"
    using x(2) by (auto simp: phases_post_def)
  have ch: "chunks_chain (r_addr req) (r_data req) xs" using x(2) by (simp add: phases_post_def)
  have b2: "burst_ok s2 (granted_subs xs)" using x(2) by (simp add: phases_post_def)
  show ?thesis
  proof (cases "sp_chunks_pending s2 = 0 \<and> sp_bytes_planned s2 = sp_total_size s2")
    case inline: True
    then have e: "stuck_subs s2 = []" "granted_subs xs = []" "r_remaining p2 = 0"
      using burst_ok_drained[OF b2] p2(1) by auto
    have "sent_size xs = r_size req" using x(2) inline by (auto simp: phases_post_def)
    then show ?thesis using x p2 inline e ch F True assms(2)
      by (auto simp: splitter_input_req_def Let_def splitter_inv_def phases_post_def burst_done_def stuck_subs_def)
  next
    case more: False
    then have "sp_chunks_pending s2 \<noteq> 0" using x(2) by (auto simp: phases_post_def)
    then have ne: "stuck_subs s2 @ granted_subs xs \<noteq> []" using b2 by (auto simp: burst_ok_def)
    have "splitter_input_req c out cycles req s = Some (IO_REQ_GRANTED, p2, xs, s2\<lparr>sp_inside_input_req := False\<rparr>)"
      using True x(1) p2(1) more by (auto simp: splitter_input_req_def Let_def)
    moreover have "splitter_inv c (s2\<lparr>sp_inside_input_req := False\<rparr>) (F @ granted_subs xs)"
    proof -
      have "burst_ok (s2\<lparr>sp_inside_input_req := False\<rparr>) (granted_subs xs)"
        "stuck_subs (s2\<lparr>sp_inside_input_req := False\<rparr>) = stuck_subs s2"
        using b2 by (simp_all add: burst_ok_def stuck_subs_def)
      moreover have "sp_bytes_planned s2 \<le> sp_total_size s2" "length (sp_stuck s2) = splitter_nb_outputs c"
        using x(2) assms(2) by (auto simp: phases_post_def splitter_inv_def)
      ultimately show ?thesis using p2(1) F ne by (simp add: splitter_inv_def)
    qed
    ultimately show ?thesis using ch True by auto
  qed
qed

text \<open>After a chunk is accounted for: nothing if chunks are left, the next phases if bytes are left,
  the end of the burst otherwise.\<close>

lemma after_chunk_ok:
  assumes "splitter_cfg_ok c" "burst_ok s F" "length (sp_stuck s) = splitter_nb_outputs c"
    "sp_bytes_planned s \<le> sp_total_size s" "\<not> sp_inside_input_req s" "sp_pending_parent s = Some p"
  shows "\<exists>xs up s'. splitter_after_chunk_completion c out cycles s = Some (xs, up, s') \<and>
    splitter_inv c s' (F @ granted_subs xs) \<and>
    (up = [] \<longrightarrow> sp_pending_parent s' \<noteq> None \<and> sp_needs_retry s' = sp_needs_retry s) \<and>
    (up \<noteq> [] \<longrightarrow> sp_pending_parent s' = None \<and> \<not> sp_needs_retry s' \<and>
       (\<exists>p'. up = Resp p' # (if sp_needs_retry s then [Retry] else []) \<and> burst_done p p'))"
proof (cases "sp_chunks_pending s = 0")
  case False
  then have "stuck_subs s @ F \<noteq> []" using assms(2) by (auto simp: burst_ok_def)
  then show ?thesis using False assms
    by (auto simp: splitter_after_chunk_completion_def splitter_inv_def granted_subs_def)
next
  case True
  let ?s1 = "s\<lparr>sp_accumulated_latency := sp_accumulated_latency s + sp_max_latency s\<rparr>"
  have b1: "burst_ok ?s1 F" using assms(2) by (simp add: burst_ok_def stuck_subs_def)
  obtain xs s2 where x: "(if sp_bytes_planned ?s1 < sp_total_size ?s1 then splitter_issue_phases c out ?s1 else Some ([], ?s1)) = Some (xs, s2)"
    "phases_post ?s1 F xs s2"
  proof (cases "sp_bytes_planned s < sp_total_size s")
    case True
    then show ?thesis using that issue_phases_ok[OF assms(1) b1, of out] assms(3,4) by auto
  next
    case False
    then have "phases_post ?s1 F [] ?s1" using b1 assms(4) by (simp add: phases_post_def granted_subs_def)
    then show ?thesis using that False by auto
  qed
  have b2: "burst_ok s2 (F @ granted_subs xs)" using x(2) by (simp add: phases_post_def)
  show ?thesis
  proof (cases "sp_chunks_pending s2 = 0")
    case False
    then have "stuck_subs s2 @ F @ granted_subs xs \<noteq> []" using b2 by (auto simp: burst_ok_def)
    moreover have "sp_pending_parent s2 \<noteq> None" using b2 by (auto simp: burst_ok_def)
    ultimately have "splitter_inv c s2 (F @ granted_subs xs)"
      using x(2) assms(3,5) b2 by (auto simp: splitter_inv_def phases_post_def)
    moreover have "splitter_after_chunk_completion c out cycles s = Some (xs, [], s2)"
      using True False x(1) by (simp add: splitter_after_chunk_completion_def Let_def)
    ultimately show ?thesis using x(2) b2 by (auto simp: phases_post_def burst_ok_def)
  next
    case fin: True
    obtain p2 where p2: "sp_pending_parent s2 = Some p2" "r_addr p2 = r_addr p" "r_data p2 = r_data p"
      "r_size p2 = r_size p" "r_opcode p2 = r_opcode p"
      using x(2) assms(6) by (auto simp: phases_post_def)
    have e: "stuck_subs s2 = []" "F = []" "granted_subs xs = []" "r_remaining p2 = 0"
      using burst_ok_drained[OF b2] p2(1) x(2) fin by (auto simp: phases_post_def)
    have in0: "\<not> sp_inside_input_req s2" "length (sp_stuck s2) = splitter_nb_outputs c" "sp_needs_retry s2 = sp_needs_retry s"
      using x(2) assms(3,5) by (auto simp: phases_post_def)
    have run: "splitter_after_chunk_completion c out cycles s =
        map_option (\<lambda>(up, s3). (xs, up, s3)) (splitter_finalize_parent cycles s2)"
      using True fin x(1) in0(1) by (simp add: splitter_after_chunk_completion_def Let_def)
    have e': "stuck_subs (s2\<lparr>sp_pending_parent := None, sp_total_size := 0, sp_bytes_planned := 0,
        sp_chunks_pending := 0, sp_max_latency := 0, sp_accumulated_latency := 0, sp_needs_retry := False\<rparr>) = []"
      "stuck_subs (s2\<lparr>sp_pending_parent := None, sp_total_size := 0, sp_bytes_planned := 0,
        sp_chunks_pending := 0, sp_max_latency := 0, sp_accumulated_latency := 0\<rparr>) = []"
      using e(1) by (simp_all add: stuck_subs_def)
    show ?thesis unfolding run using p2 e in0 e'
      by (simp add: splitter_finalize_parent_def Let_def splitter_inv_def burst_done_def)
  qed
qed

lemma inv_output_resp:
  assumes "splitter_cfg_ok c" "splitter_inv c s (F @ q # G)"
  shows "\<exists>p xs up s'. splitter_output_resp c out cycles (q\<lparr>r_latency := l, r_resp := v\<rparr>) s = Some (xs, up, s') \<and>
    sp_pending_parent s = Some p \<and>
    splitter_inv c s' ((F @ G) @ granted_subs xs) \<and>
    (up = [] \<longrightarrow> sp_pending_parent s' \<noteq> None \<and> sp_needs_retry s' = sp_needs_retry s) \<and>
    (up \<noteq> [] \<longrightarrow> sp_pending_parent s' = None \<and> \<not> sp_needs_retry s' \<and>
       (\<exists>p'. up = Resp p' # (if sp_needs_retry s then [Retry] else []) \<and> burst_done p p'))"
proof -
  obtain p where p: "sp_pending_parent s = Some p"
    using assms(2) by (cases "sp_pending_parent s") (auto simp: splitter_inv_def)
  then have b: "phase_ok s (F @ q # G) (sp_total_size s - sp_bytes_planned s)" "\<not> sp_inside_input_req s"
    "length (sp_stuck s) = splitter_nb_outputs c" "sp_bytes_planned s \<le> sp_total_size s"
    using assms(2) by (auto simp: splitter_inv_def burst_phase)
  obtain s1 where s1: "splitter_account_chunk (q\<lparr>r_latency := l, r_resp := v\<rparr>) s = Some s1"
    "phase_ok s1 (F @ G) (sp_total_size s - sp_bytes_planned s)"
    using account_chunk_ok[OF b(1), where l = l and v = v] by blast
  have sb: "same_burst s s1" using account_chunk_same[OF s1(1)] by simp
  then obtain p1 where p1: "sp_pending_parent s1 = Some p1" "r_addr p1 = r_addr p" "r_data p1 = r_data p"
     "r_size p1 = r_size p" "r_opcode p1 = r_opcode p" using p by (auto simp: same_burst_def)
  have "\<exists>xs up s'. splitter_after_chunk_completion c out cycles s1 = Some (xs, up, s') \<and>
    splitter_inv c s' ((F @ G) @ granted_subs xs) \<and>
    (up = [] \<longrightarrow> sp_pending_parent s' \<noteq> None \<and> sp_needs_retry s' = sp_needs_retry s1) \<and>
    (up \<noteq> [] \<longrightarrow> sp_pending_parent s' = None \<and> \<not> sp_needs_retry s' \<and>
       (\<exists>p'. up = Resp p' # (if sp_needs_retry s1 then [Retry] else []) \<and> burst_done p1 p'))"
    by (rule after_chunk_ok[OF assms(1)]) (use s1 sb b p1 in \<open>auto simp: same_burst_def burst_phase\<close>)
  moreover have "burst_done p1 p' = burst_done p p'" for p' using p1 by (simp add: burst_done_def)
  moreover have "sp_needs_retry s1 = sp_needs_retry s" using sb by (simp add: same_burst_def)
  ultimately show ?thesis using p s1(1) by (auto simp: splitter_output_resp_def)
qed


lemma stuck_take:
  assumes "i < length ss" "ss ! i = Some q"
  shows "\<exists>us vs. concat (map (case_option [] (\<lambda>q. [q])) ss) = us @ q # vs \<and>
    concat (map (case_option [] (\<lambda>q. [q])) (ss[i := None])) = us @ vs"
proof -
  have "(ss[i := None])[i := Some q] = ss" unfolding assms(2)[symmetric] by simp
  then show ?thesis using stuck_update[of i "ss[i := None]" q] assms(1) by auto
qed

lemma inv_output_retry:
  assumes "splitter_cfg_ok c" "splitter_inv c s F" "i < splitter_nb_outputs c"
  shows "\<exists>xs up s'. splitter_output_retry c out cycles i s = Some (xs, up, s') \<and>
    splitter_inv c s' (F @ granted_subs xs) \<and>
    (up = [] \<longrightarrow> sp_needs_retry s' = sp_needs_retry s \<and> (sp_pending_parent s' = None \<longleftrightarrow> sp_pending_parent s = None)) \<and>
    (up \<noteq> [] \<longrightarrow> sp_pending_parent s' = None \<and> \<not> sp_needs_retry s' \<and>
       (\<exists>p p'. sp_pending_parent s = Some p \<and>
          up = Resp p' # (if sp_needs_retry s then [Retry] else []) \<and> burst_done p p'))"
proof (cases "sp_stuck s ! i")
  case None
  have "i < length (sp_stuck s)" using assms(2,3) by (simp add: splitter_inv_def)
  then have "splitter_output_retry c out cycles i s = Some ([], [], s)"
    using None by (simp add: splitter_output_retry_def)
  then show ?thesis using assms(2) by (simp add: granted_subs_def)
next
  case (Some q)
  have il: "i < length (sp_stuck s)" using assms(2,3) by (simp add: splitter_inv_def)
  obtain us vs where uv: "stuck_subs s = us @ q # vs" "stuck_subs (s\<lparr>sp_stuck := (sp_stuck s)[i := None]\<rparr>) = us @ vs"
    using stuck_take[OF il Some] by (auto simp: stuck_subs_def)
  obtain p where p: "sp_pending_parent s = Some p"
    using assms(2) uv(1) by (cases "sp_pending_parent s") (auto simp: splitter_inv_def)
  have b: "burst_ok s F" "sp_bytes_planned s \<le> sp_total_size s" "\<not> sp_inside_input_req s"
    "length (sp_stuck s) = splitter_nb_outputs c" using assms(2) p by (auto simp: splitter_inv_def)
  let ?s1 = "s\<lparr>sp_stuck := (sp_stuck s)[i := None]\<rparr>"
  have ph: "phase_ok ?s1 (F @ q # []) (sp_total_size s - sp_bytes_planned s)"
    using b(1) uv by (simp add: burst_phase phase_ok_def algebra_simps)
  show ?thesis
  proof (cases "a_status (out i q)")
    case IO_REQ_DENIED
    have "(sp_stuck s)[i := None, i := Some q] = sp_stuck s" unfolding Some[symmetric] by simp
    then have "splitter_output_retry c out cycles i s = Some ([(i, q, IO_REQ_DENIED)], [], s)"
      using il Some IO_REQ_DENIED by (simp add: splitter_output_retry_def Let_def)
    then show ?thesis by (intro exI) (rule conjI, assumption, use assms(2) in \<open>simp add: granted_subs_def\<close>)
  next
    case IO_REQ_GRANTED
    then have "splitter_output_retry c out cycles i s = Some ([(i, q, IO_REQ_GRANTED)], [], ?s1)"
      using il Some by (simp add: splitter_output_retry_def Let_def)
    moreover have "splitter_inv c ?s1 (F @ [q])" using ph b p by (simp add: splitter_inv_def burst_phase)
    ultimately show ?thesis using p by (simp add: granted_subs_def)
  next
    case IO_REQ_DONE
    obtain l v where lv: "apply_answer (out i q) q = q\<lparr>r_latency := l, r_resp := v\<rparr>" using apply_answer_form by blast
    obtain s2 where s2: "splitter_account_chunk (apply_answer (out i q) q) ?s1 = Some s2"
      "phase_ok s2 (F @ []) (sp_total_size s - sp_bytes_planned s)"
      using account_chunk_ok[OF ph, where l = l and v = v] unfolding lv by blast
    have sb: "same_burst ?s1 s2" using account_chunk_same[OF s2(1)] by simp
    then obtain p1 where p1: "sp_pending_parent s2 = Some p1" "r_addr p1 = r_addr p" "r_data p1 = r_data p"
       "r_size p1 = r_size p" "r_opcode p1 = r_opcode p" using p by (auto simp: same_burst_def)
    obtain xs up s' where r: "splitter_after_chunk_completion c out cycles s2 = Some (xs, up, s')"
      "splitter_inv c s' (F @ granted_subs xs)"
      "up = [] \<longrightarrow> sp_pending_parent s' \<noteq> None \<and> sp_needs_retry s' = sp_needs_retry s2"
      "up \<noteq> [] \<longrightarrow> sp_pending_parent s' = None \<and> \<not> sp_needs_retry s' \<and>
         (\<exists>p'. up = Resp p' # (if sp_needs_retry s2 then [Retry] else []) \<and> burst_done p1 p')"
      using after_chunk_ok[OF assms(1), of s2 F p1 out cycles] s2 sb b p1 by (auto simp: same_burst_def burst_phase)
    have "splitter_output_retry c out cycles i s = Some ((i, q, IO_REQ_DONE) # xs, up, s')"
      using il Some IO_REQ_DONE s2(1) r(1) by (simp add: splitter_output_retry_def Let_def)
    moreover have "granted_subs ((i, q, IO_REQ_DONE) # xs) = granted_subs xs" by (simp add: granted_subs_def)
    moreover have "burst_done p1 p' = burst_done p p'" for p' using p1 by (simp add: burst_done_def)
    moreover have "sp_needs_retry s2 = sp_needs_retry s" using sb by (simp add: same_burst_def)
    ultimately show ?thesis using p r by auto
  qed
qed

section \<open>Runs\<close>

text \<open>A splitter and the chunks its outputs hold: a request comes in, an output responds to a chunk it
  holds, an output retries.\<close>

definition splitter_init :: "splitter_cfg \<Rightarrow> splitter" where
  "splitter_init c = splitter_reset True \<lparr>sp_pending_parent = None, sp_total_size = 0, sp_bytes_planned = 0,
     sp_chunks_pending = 0, sp_max_latency = 0, sp_accumulated_latency = 0, sp_admission_cycle = 0,
     sp_inside_input_req = False, sp_stuck = replicate (splitter_nb_outputs c) None, sp_free_list = [],
     sp_needs_retry = False\<rparr>"

inductive splitter_reach :: "splitter_cfg \<Rightarrow> splitter \<Rightarrow> io_req list \<Rightarrow> bool" for c where
  sr_init: "splitter_reach c (splitter_init c) []"
| sr_req: "splitter_reach c s F \<Longrightarrow> splitter_input_req c out cycles req s = Some (st, r', xs, s')
    \<Longrightarrow> splitter_reach c s' (F @ granted_subs xs)"
| sr_resp: "splitter_reach c s (F @ q # G)
    \<Longrightarrow> splitter_output_resp c out cycles (q\<lparr>r_latency := l, r_resp := v\<rparr>) s = Some (xs, up, s')
    \<Longrightarrow> splitter_reach c s' ((F @ G) @ granted_subs xs)"
| sr_retry: "splitter_reach c s F \<Longrightarrow> i < splitter_nb_outputs c
    \<Longrightarrow> splitter_output_retry c out cycles i s = Some (xs, up, s') \<Longrightarrow> splitter_reach c s' (F @ granted_subs xs)"

lemma splitter_init_inv: "splitter_inv c (splitter_init c) []"
  by (simp add: splitter_init_def splitter_reset_def splitter_inv_def stuck_subs_def)

lemma splitter_reach_inv:
  assumes "splitter_reach c s F" "splitter_cfg_ok c"
  shows "splitter_inv c s F"
  using assms
proof induction
  case sr_init then show ?case by (simp add: splitter_init_inv)
next
  case (sr_req s F out cycles req st r' xs s')
  then show ?case using inv_input_req[of c s F out cycles req] by auto
next
  case (sr_resp s F q G out cycles l v xs up s')
  then show ?case using inv_output_resp[of c s F q G out cycles l v] by auto
next
  case (sr_retry s F i out cycles xs up s')
  then show ?case using inv_output_retry[of c s F i out cycles] by auto
qed

section \<open>Properties\<close>

text \<open>The layout of a phase. The chunks sent for a phase cover its bytes exactly and in order, the
  k-th on output k, every chunk inside one aligned window of \<open>output_width\<close> bytes, with as many
  chunks as there are outputs at most: no byte of a phase is lost for lack of outputs.\<close>

theorem splitter_phase_layout:
  fixes base rem :: u64
  assumes "splitter_cfg_ok c"
    and "splitter_fan_out c out [0..<splitter_nb_outputs c] base
           (min (sc_input_width c - (base AND (sc_input_width c - 1))) rem) d parent s = Some (xs, s')"
  shows "chunks_tile (sc_output_width c) 0 base (min (sc_input_width c - (base AND (sc_input_width c - 1))) rem) d xs"
  using assms by (rule phase_tiles)

text \<open>C16: conservation. In every state the splitter can reach, with the chunks \<open>F\<close> in flight: an
  idle splitter has no chunk in flight or waiting; a busy one is owed exactly the bytes it has not
  planned yet plus those of the chunks in flight or waiting for a retry, and there is at least one
  such chunk, so that the burst can go on.\<close>

theorem splitter_conservation:
  assumes "splitter_reach c s F" "splitter_cfg_ok c"
  shows "case sp_pending_parent s of
      None \<Rightarrow> stuck_subs s = [] \<and> F = [] \<and> sp_chunks_pending s = 0
    | Some p \<Rightarrow> r_remaining p = (r_size p - sp_bytes_planned s) + total_size (stuck_subs s) + total_size F \<and>
        sp_chunks_pending s = int (length (stuck_subs s) + length F) \<and> stuck_subs s @ F \<noteq> []"
  using splitter_reach_inv[OF assms]
  by (cases "sp_pending_parent s") (auto simp: splitter_inv_def burst_ok_def)

text \<open>A request is denied exactly when a burst is pending, and then remembered; otherwise its
  chunks follow each other from the address and the data of the request on, and when it is done at
  once all of its bytes were sent and none is still expected.\<close>

theorem splitter_request:
  assumes "splitter_reach c s F" "splitter_cfg_ok c"
  shows "\<exists>st r' xs s'. splitter_input_req c out cycles req s = Some (st, r', xs, s') \<and>
     (st = IO_REQ_DENIED \<longleftrightarrow> sp_pending_parent s \<noteq> None) \<and>
     (st = IO_REQ_DENIED \<longrightarrow> r' = req \<and> xs = [] \<and> sp_needs_retry s') \<and>
     (st \<noteq> IO_REQ_DENIED \<longrightarrow> chunks_chain (r_addr req) (r_data req) xs) \<and>
     (st = IO_REQ_DONE \<longrightarrow> sent_size xs = r_size req \<and> (r_size req \<noteq> 0 \<longrightarrow> burst_done req r'))"
  using inv_input_req[OF assms(2) splitter_reach_inv[OF assms], of out cycles req] by blast

text \<open>Completion. The response to a chunk in flight never faults; either the burst goes on with a
  chunk in flight or waiting, or the master gets exactly one response, for its request with no byte
  left, followed by one retry exactly when it was denied a request meanwhile.\<close>

theorem splitter_response:
  assumes "splitter_reach c s (F @ q # G)" "splitter_cfg_ok c"
  shows "\<exists>p xs up s'. splitter_output_resp c out cycles (q\<lparr>r_latency := l, r_resp := v\<rparr>) s = Some (xs, up, s') \<and>
    sp_pending_parent s = Some p \<and>
    (if up = [] then stuck_subs s' @ (F @ G) @ granted_subs xs \<noteq> [] \<and> sp_needs_retry s' = sp_needs_retry s
     else sp_pending_parent s' = None \<and> \<not> sp_needs_retry s' \<and>
       (\<exists>p'. up = Resp p' # (if sp_needs_retry s then [Retry] else []) \<and> burst_done p p'))"
proof -
  obtain p xs up s' where r: "splitter_output_resp c out cycles (q\<lparr>r_latency := l, r_resp := v\<rparr>) s = Some (xs, up, s')"
    "sp_pending_parent s = Some p" "splitter_inv c s' ((F @ G) @ granted_subs xs)"
    "up = [] \<longrightarrow> sp_pending_parent s' \<noteq> None \<and> sp_needs_retry s' = sp_needs_retry s"
    "up \<noteq> [] \<longrightarrow> sp_pending_parent s' = None \<and> \<not> sp_needs_retry s' \<and>
       (\<exists>p'. up = Resp p' # (if sp_needs_retry s then [Retry] else []) \<and> burst_done p p')"
    using inv_output_resp[OF assms(2) splitter_reach_inv[OF assms], where out = out and cycles = cycles and l = l and v = v]
    by blast
  have "up = [] \<Longrightarrow> stuck_subs s' @ (F @ G) @ granted_subs xs \<noteq> []"
    using r(3,4) unfolding splitter_inv_def by meson
  with r show ?thesis by (intro exI[of _ p] exI[of _ xs] exI[of _ up] exI[of _ s']) simp
qed

text \<open>Two outputs of four bytes; output 1 grants, output 0 answers at once.\<close>

definition demo_split :: splitter_cfg where
  "demo_split = \<lparr>sc_input_width = 8, sc_output_width = 4\<rparr>"

definition demo_outs :: "nat \<Rightarrow> io_req \<Rightarrow> io_answer" where
  "demo_outs i q = \<lparr>a_status = (if i = 1 then IO_REQ_GRANTED else IO_REQ_DONE), a_latency = 2, a_resp = IO_RESP_OK\<rparr>"

lemma demo_split_ok: "splitter_cfg_ok demo_split"
  unfolding splitter_cfg_ok_def demo_split_def by (intro exI[of _ 2] exI[of _ 1]) simp

lemma demo_nb_outputs: "splitter_nb_outputs demo_split = 2"
  by (simp add: splitter_nb_outputs_def demo_split_def)

definition demo_split_req :: io_req where
  "demo_split_req = plain_req 0x10 8 False"

lemma demo_eight: "unat (8::u64) = Suc 7" and demo_upt: "[0..<2] = [0, Suc 0]"
  by (simp_all add: upt_rec)

lemma demo_two: "replicate 2 x = [x, x]"
  by (simp add: numeral_2_eq_2)

lemma demo_widths: "sc_output_width demo_split = 4" "sc_input_width demo_split = 8"
  by (simp_all add: demo_split_def)

lemma phases_stop:
  "\<not> (sp_bytes_planned s < sp_total_size s \<and> sp_chunks_pending s = 0) \<Longrightarrow> 0 < n \<Longrightarrow> splitter_phases c out n s = Some ([], s)"
  by (cases n) auto

definition demo_chunk :: "u64 \<Rightarrow> io_req" where
  "demo_chunk off = (plain_req (0x10 + off) 4 False)\<lparr>r_data := 0x1000 + off\<rparr>"

lemma demo_split_run:
  "\<exists>r' s'. splitter_input_req demo_split demo_outs 0 (plain_req 0x10 8 False) (splitter_init demo_split) =
     Some (IO_REQ_GRANTED, r', [(0, demo_chunk 0, IO_REQ_DONE), (1, demo_chunk 4, IO_REQ_GRANTED)], s') \<and>
     \<not> sp_needs_retry s'"
  by (simp add: splitter_input_req_def splitter_init_def splitter_reset_def splitter_issue_phases_def demo_nb_outputs demo_upt demo_eight
    Let_def splitter_alloc_sub_def demo_outs_def splitter_account_chunk_def splitter_free_sub_def splitter_chunk_def
    apply_answer_def blank_req_def plain_req_def demo_two demo_widths phases_stop demo_chunk_def)

theorem splitter_phase_layout_witness:
  "\<exists>xs s'. splitter_fan_out demo_split demo_outs [0..<splitter_nb_outputs demo_split] 0x12
      (min (sc_input_width demo_split - (0x12 AND (sc_input_width demo_split - 1))) 20) 0 (plain_req 0x12 20 False)
      ((splitter_init demo_split)\<lparr>sp_pending_parent := Some (plain_req 0x12 20 False)\<rparr>) = Some (xs, s') \<and>
    chunks_tile (sc_output_width demo_split) 0 0x12
      (min (sc_input_width demo_split - (0x12 AND (sc_input_width demo_split - 1))) 20) 0 xs"
proof -
  have "\<exists>r. splitter_fan_out demo_split demo_outs [0..<splitter_nb_outputs demo_split] 0x12
      (min (sc_input_width demo_split - (0x12 AND (sc_input_width demo_split - 1))) 20) 0 (plain_req 0x12 20 False)
      ((splitter_init demo_split)\<lparr>sp_pending_parent := Some (plain_req 0x12 20 False)\<rparr>) = Some r"
    by (simp add: splitter_init_def splitter_reset_def demo_nb_outputs demo_upt Let_def splitter_alloc_sub_def demo_outs_def
      splitter_account_chunk_def splitter_free_sub_def splitter_chunk_def apply_answer_def blank_req_def plain_req_def
      demo_two demo_widths)
  then show ?thesis using splitter_phase_layout[OF demo_split_ok] by fast
qed

lemma demo_split_reach:
  "\<exists>s. splitter_reach demo_split s ([] @ demo_chunk 4 # []) \<and> \<not> sp_needs_retry s"
  using demo_split_run sr_req[OF sr_init, of demo_split demo_outs 0 "plain_req 0x10 8 False"]
  by (fastforce simp: granted_subs_def)

theorem splitter_conservation_witness:
  "\<exists>s p. splitter_reach demo_split s [demo_chunk 4] \<and> sp_pending_parent s = Some p \<and>
     r_remaining p = (r_size p - sp_bytes_planned s) + total_size (stuck_subs s) + 4"
proof -
  obtain s where s: "splitter_reach demo_split s [demo_chunk 4]" using demo_split_reach by auto
  show ?thesis using splitter_conservation[OF s demo_split_ok] s
    by (cases "sp_pending_parent s") (auto simp: demo_chunk_def)
qed

theorem splitter_request_witness:
  "\<exists>st r' xs s'. splitter_input_req demo_split demo_outs 0 (plain_req 0x10 8 False) (splitter_init demo_split)
      = Some (st, r', xs, s') \<and> st \<noteq> IO_REQ_DENIED"
  using splitter_request[OF sr_init demo_split_ok, of demo_outs 0 "plain_req 0x10 8 False"]
  by (auto simp: splitter_init_def splitter_reset_def)

theorem splitter_response_witness:
  "\<exists>s xs up s'. splitter_output_resp demo_split demo_outs 3 ((demo_chunk 4)\<lparr>r_latency := 1, r_resp := IO_RESP_OK\<rparr>) s
      = Some (xs, up, s') \<and> (up = [] \<longrightarrow> stuck_subs s' @ granted_subs xs \<noteq> [])"
proof -
  obtain s where s: "splitter_reach demo_split s ([] @ demo_chunk 4 # [])" using demo_split_reach by auto
  show ?thesis
    using splitter_response[OF s demo_split_ok, where out = demo_outs and cycles = 3 and l = 1 and v = IO_RESP_OK]
    by (intro exI[of _ s]) auto
qed

end
