(* ===== verification/LimiterV2.thy ===== *)
theory LimiterV2 imports IoV2 "HOL-Library.Multiset" begin

text \<open>
  \<open>src/models/interco/limiter_v2.cpp\<close>: a request is emitted as one chunk of at most \<open>bandwidth\<close>
  bytes per cycle. The requests of the master are objects the limiter keeps pointers to: they live
  in \<open>lm_reqs\<close> under an identity the master chose, and a chunk names its parent in \<open>r_parent\<close>.
  \<open>lm_event\<close> is the delay the clock event was armed with, \<open>None\<close> when it is not enqueued; the
  engine disarms it when it calls the handler. \<open>out\<close> is what is bound to the output; the chunk a
  handler sends is returned with the status it got. \<open>None\<close> is a chunk whose parent does not exist.
  The calls to the master are made at the end of the handler, so its reaction is a step of its own.
\<close>

record limiter =
  lm_reqs :: "nat \<rightharpoonup> io_req"
  lm_event :: "int option"
  lm_free_list :: "io_req list"
  lm_pending_req :: "nat option"
  lm_pending_size :: u64
  lm_pending_addr :: u64
  lm_pending_data :: u64
  lm_needs_retry :: bool
  lm_denied_sub :: "io_req option"
  lm_next_timestamp :: int

definition limiter_reset :: "bool \<Rightarrow> limiter \<Rightarrow> limiter" where
  "limiter_reset active s =
     (if active then s\<lparr>lm_pending_req := None, lm_pending_size := 0, lm_pending_addr := 0,
        lm_pending_data := 0, lm_needs_retry := False, lm_denied_sub := None\<rparr> else s)"

definition limiter_alloc_sub :: "limiter \<Rightarrow> io_req \<times> limiter" where
  "limiter_alloc_sub s =
     (case lm_free_list s of [] \<Rightarrow> (plain_req 0 0 False, s) | q # qs \<Rightarrow> (q, s\<lparr>lm_free_list := qs\<rparr>))"

definition limiter_free_sub :: "io_req \<Rightarrow> limiter \<Rightarrow> limiter" where
  "limiter_free_sub sub s = s\<lparr>lm_free_list := sub # lm_free_list s\<rparr>"

definition limiter_input_req :: "nat \<Rightarrow> io_req \<Rightarrow> limiter \<Rightarrow> io_status \<times> limiter" where
  "limiter_input_req i req s =
     (if lm_pending_req s \<noteq> None then (IO_REQ_DENIED, s\<lparr>lm_needs_retry := True\<rparr>)
      else (let s1 = s\<lparr>lm_pending_req := Some i, lm_pending_size := r_size req, lm_pending_addr := r_addr req,
                       lm_pending_data := r_data req,
                       lm_reqs := (lm_reqs s)(i \<mapsto> req\<lparr>r_remaining := r_size req, r_resp := IO_RESP_OK\<rparr>)\<rparr>
            in (IO_REQ_GRANTED, if lm_event s1 = None then s1\<lparr>lm_event := Some 1\<rparr> else s1)))"

definition limiter_check_last_chunk :: "nat \<Rightarrow> io_req \<Rightarrow> limiter \<Rightarrow> (nat \<times> io_req) io_up list \<times> limiter" where
  "limiter_check_last_chunk i parent s =
     (if r_remaining parent \<noteq> 0 then ([], s)
      else if lm_pending_req s = None \<and> lm_needs_retry s
           then ([Resp (i, parent), Retry], s\<lparr>lm_needs_retry := False\<rparr>)
           else ([Resp (i, parent)], s))"

definition limiter_finish_chunk :: "io_req \<Rightarrow> limiter \<Rightarrow> ((nat \<times> io_req) io_up list \<times> limiter) option" where
  "limiter_finish_chunk sub s =
     (case lm_reqs s (r_parent sub) of None \<Rightarrow> None
      | Some p \<Rightarrow>
          let p1 = (if r_resp sub = IO_RESP_INVALID then p\<lparr>r_resp := IO_RESP_INVALID\<rparr> else p);
              p2 = p1\<lparr>r_remaining := r_remaining p1 - r_size sub\<rparr>;
              s1 = limiter_free_sub sub (s\<lparr>lm_reqs := (lm_reqs s)(r_parent sub \<mapsto> p2)\<rparr>)
          in Some (limiter_check_last_chunk (r_parent sub) p2 s1))"

text \<open>The end of the event handler, once the output has answered \<open>a\<close> to the chunk.\<close>

definition limiter_emitted ::
  "io_req \<Rightarrow> io_answer \<Rightarrow> limiter
   \<Rightarrow> ((io_req \<times> io_status) list \<times> (nat \<times> io_req) io_up list \<times> limiter) option" where
  "limiter_emitted sub a s =
     (let st = a_status a in
      if st = IO_REQ_DENIED then Some ([(sub, st)], [], s\<lparr>lm_denied_sub := Some sub\<rparr>)
      else case (if st = IO_REQ_DONE then limiter_finish_chunk (apply_answer a sub) s else Some ([], s)) of
        None \<Rightarrow> None
      | Some (up, s1) \<Rightarrow>
          if lm_pending_req s1 \<noteq> None \<and> lm_pending_size s1 > 0
          then Some ([(sub, st)], up, s1\<lparr>lm_event := Some 1\<rparr>)
          else if lm_needs_retry s1
          then Some ([(sub, st)], up @ [Retry], s1\<lparr>lm_needs_retry := False\<rparr>)
          else Some ([(sub, st)], up, s1))"

definition limiter_event_handler ::
  "u64 \<Rightarrow> (io_req \<Rightarrow> io_answer) \<Rightarrow> int \<Rightarrow> limiter
   \<Rightarrow> ((io_req \<times> io_status) list \<times> (nat \<times> io_req) io_up list \<times> limiter) option" where
  "limiter_event_handler bandwidth out now s0 =
     (let s = s0\<lparr>lm_event := None\<rparr> in
      if lm_denied_sub s \<noteq> None then Some ([], [], s)
      else case lm_pending_req s of None \<Rightarrow> Some ([], [], s)
      | Some i \<Rightarrow>
        if lm_pending_size s = 0 then Some ([], [], s)
        else if lm_next_timestamp s > now then Some ([], [], s\<lparr>lm_event := Some (lm_next_timestamp s - now)\<rparr>)
        else case lm_reqs s i of None \<Rightarrow> None
        | Some p \<Rightarrow>
          (let chunk = min (lm_pending_size s) bandwidth;
               (q, s1) = limiter_alloc_sub s;
               sub = q\<lparr>r_parent := i, r_addr := lm_pending_addr s1, r_size := chunk, r_data := lm_pending_data s1,
                       r_opcode := r_opcode p, r_is_write := r_is_write p, r_latency := 0, r_resp := IO_RESP_OK\<rparr>;
               s2 = s1\<lparr>lm_pending_addr := lm_pending_addr s1 + chunk, lm_pending_data := lm_pending_data s1 + chunk,
                       lm_pending_size := lm_pending_size s1 - chunk, lm_next_timestamp := now + 1\<rparr>;
               s3 = (if lm_pending_size s2 = 0 then s2\<lparr>lm_pending_req := None\<rparr> else s2)
           in limiter_emitted sub (out sub) s3))"

definition limiter_output_resp :: "io_req \<Rightarrow> limiter \<Rightarrow> ((nat \<times> io_req) io_up list \<times> limiter) option" where
  "limiter_output_resp sub s = limiter_finish_chunk sub s"

definition limiter_output_retry ::
  "(io_req \<Rightarrow> io_answer) \<Rightarrow> limiter
   \<Rightarrow> ((io_req \<times> io_status) list \<times> (nat \<times> io_req) io_up list \<times> limiter) option" where
  "limiter_output_retry out s =
     (case lm_denied_sub s of None \<Rightarrow> Some ([], [], s)
      | Some sub \<Rightarrow>
        (let s1 = s\<lparr>lm_denied_sub := None\<rparr>; a = out sub; st = a_status a
         in if st = IO_REQ_DENIED then Some ([(sub, st)], [], s1\<lparr>lm_denied_sub := Some sub\<rparr>)
            else case (if st = IO_REQ_DONE then limiter_finish_chunk (apply_answer a sub) s1 else Some ([], s1)) of
              None \<Rightarrow> None
            | Some (up, s2) \<Rightarrow>
                if lm_pending_req s2 \<noteq> None \<and> lm_pending_size s2 > 0 \<and> lm_event s2 = None
                then Some ([(sub, st)], up, s2\<lparr>lm_event := Some 1\<rparr>)
                else Some ([(sub, st)], up, s2)))"

section \<open>Accounting\<close>

abbreviation chunk_bytes :: "nat \<Rightarrow> io_req list \<Rightarrow> nat" where
  "chunk_bytes i L \<equiv> sum_list (map (\<lambda>q. unat (r_size q)) (filter (\<lambda>q. r_parent q = i) L))"

text \<open>The bytes of request \<open>i\<close> that are still to be emitted.\<close>

definition to_emit :: "limiter \<Rightarrow> nat \<Rightarrow> nat" where
  "to_emit s i = (if lm_pending_req s = Some i then unat (lm_pending_size s) else 0)"

text \<open>With the chunks \<open>L\<close> outstanding, every request expects the bytes it has not emitted and those
  of its outstanding chunks.\<close>

definition limiter_acc :: "limiter \<Rightarrow> io_req list \<Rightarrow> bool" where
  "limiter_acc s L \<longleftrightarrow>
     (\<forall>i p. lm_reqs s i = Some p \<longrightarrow> unat (r_remaining p) = to_emit s i + chunk_bytes i L) \<and>
     (\<forall>q\<in>set L. lm_reqs s (r_parent q) \<noteq> None \<and> r_size q \<noteq> 0) \<and>
     (\<forall>i. lm_pending_req s = Some i \<longrightarrow> lm_reqs s i \<noteq> None)"

lemma limiter_acc_perm:
  assumes "mset L = mset L'" shows "limiter_acc s L = limiter_acc s L'"
proof -
  have "chunk_bytes i L = chunk_bytes i L'" for i
  proof -
    have "mset (map (\<lambda>q. unat (r_size q)) (filter (\<lambda>q. r_parent q = i) L)) =
        mset (map (\<lambda>q. unat (r_size q)) (filter (\<lambda>q. r_parent q = i) L'))" by (simp add: assms)
    from arg_cong[OF this, of sum_mset] show ?thesis by (simp only: sum_mset_sum_list)
  qed
  moreover have "set L = set L'" using assms by (rule mset_eq_setD)
  ultimately show ?thesis by (simp add: limiter_acc_def)
qed

lemma chunk_bytes_0: "(\<forall>q\<in>set L. r_size q \<noteq> 0) \<Longrightarrow> chunk_bytes i L = 0 \<Longrightarrow> \<forall>q\<in>set L. r_parent q \<noteq> i"
  by (induction L) (auto simp: unat_eq_zero split: if_splits)

text \<open>The fields \<open>finish_chunk\<close> leaves alone.\<close>

definition same_emission :: "limiter \<Rightarrow> limiter \<Rightarrow> bool" where
  "same_emission s s' \<longleftrightarrow> lm_pending_req s' = lm_pending_req s \<and> lm_pending_size s' = lm_pending_size s \<and>
     lm_pending_addr s' = lm_pending_addr s \<and> lm_pending_data s' = lm_pending_data s \<and>
     lm_denied_sub s' = lm_denied_sub s \<and> lm_event s' = lm_event s \<and> lm_next_timestamp s' = lm_next_timestamp s"

text \<open>A response goes to the master when, and only when, its request has nothing left.\<close>

definition finish_up :: "limiter \<Rightarrow> io_req list \<Rightarrow> nat \<Rightarrow> (nat \<times> io_req) io_up list \<Rightarrow> limiter \<Rightarrow> bool" where
  "finish_up s L i up s' \<longleftrightarrow>
     (if lm_pending_req s = Some i \<and> lm_pending_size s \<noteq> 0 \<or> (\<exists>q\<in>set L. r_parent q = i)
      then up = [] \<and> lm_needs_retry s' = lm_needs_retry s
      else (\<exists>p. r_remaining p = 0 \<and>
        (if lm_pending_req s = None \<and> lm_needs_retry s then up = [Resp (i, p), Retry] \<and> \<not> lm_needs_retry s'
         else up = [Resp (i, p)] \<and> lm_needs_retry s' = lm_needs_retry s)))"

lemma finish_chunk_ok:
  assumes "limiter_acc s (q # L)"
  shows "\<exists>up s'. limiter_finish_chunk (q\<lparr>r_latency := l, r_resp := v\<rparr>) s = Some (up, s') \<and>
    limiter_acc s' L \<and> same_emission s s' \<and> finish_up s L (r_parent q) up s'"
proof -
  let ?i = "r_parent q"
  obtain p where p: "lm_reqs s ?i = Some p" using assms by (auto simp: limiter_acc_def)
  define p2 where "p2 = (if v = IO_RESP_INVALID then p\<lparr>r_resp := IO_RESP_INVALID\<rparr> else p)\<lparr>r_remaining := r_remaining p - r_size q\<rparr>"
  have rem: "unat (r_remaining p) = to_emit s ?i + (unat (r_size q) + chunk_bytes ?i L)"
    using assms p by (simp add: limiter_acc_def)
  then have "r_size q \<le> r_remaining p" by (simp add: word_le_nat_alt)
  then have rem2: "unat (r_remaining p2) = to_emit s ?i + chunk_bytes ?i L"
    using rem by (simp add: p2_def unat_sub_le)
  define s1 where "s1 = limiter_free_sub (q\<lparr>r_latency := l, r_resp := v\<rparr>) (s\<lparr>lm_reqs := (lm_reqs s)(?i \<mapsto> p2)\<rparr>)"
  have run: "limiter_finish_chunk (q\<lparr>r_latency := l, r_resp := v\<rparr>) s = Some (limiter_check_last_chunk ?i p2 s1)"
    using p by (cases v) (simp_all add: limiter_finish_chunk_def Let_def s1_def p2_def)
  have s1: "lm_reqs s1 = (lm_reqs s)(?i \<mapsto> p2)" "same_emission s s1" "lm_needs_retry s1 = lm_needs_retry s"
    "lm_pending_req s1 = lm_pending_req s"
    by (simp_all add: s1_def limiter_free_sub_def same_emission_def)
  have "to_emit s1 = to_emit s" using s1(2) by (auto simp: to_emit_def same_emission_def)
  then have acc: "limiter_acc s1 L"
    using assms s1 rem2 by (auto simp: limiter_acc_def)
  have pos: "\<forall>q\<in>set L. r_size q \<noteq> 0" using assms by (simp add: limiter_acc_def)
  have zero: "r_remaining p2 = 0 \<longleftrightarrow>
      \<not> (lm_pending_req s = Some ?i \<and> lm_pending_size s \<noteq> 0 \<or> (\<exists>q\<in>set L. r_parent q = ?i))"
  proof -
    have "r_remaining p2 = 0 \<longleftrightarrow> to_emit s ?i = 0 \<and> chunk_bytes ?i L = 0"
      unfolding unat_eq_zero[symmetric] rem2 by simp
    moreover have "to_emit s ?i = 0 \<longleftrightarrow> \<not> (lm_pending_req s = Some ?i \<and> lm_pending_size s \<noteq> 0)"
      by (auto simp: to_emit_def unat_eq_zero)
    moreover have "chunk_bytes ?i L = 0 \<longleftrightarrow> \<not> (\<exists>q\<in>set L. r_parent q = ?i)"
      using chunk_bytes_0[OF pos, of ?i] by (auto simp: filter_empty_conv)
    ultimately show ?thesis by blast
  qed
  obtain up s' where us: "limiter_check_last_chunk ?i p2 s1 = (up, s')" by fastforce
  have "same_emission s1 s' \<and> lm_reqs s' = lm_reqs s1"
    using us by (auto simp: limiter_check_last_chunk_def same_emission_def split: if_splits)
  then have "same_emission s s'" "limiter_acc s' L"
    using acc s1(2) by (auto simp: same_emission_def limiter_acc_def to_emit_def)
  moreover have "finish_up s L ?i up s'"
    using us zero s1(3,4) unfolding finish_up_def limiter_check_last_chunk_def by (auto split: if_splits)
  ultimately show ?thesis using run us by auto
qed

section \<open>The handlers\<close>

text \<open>The chunks outstanding: the one the output denied, and those \<open>F\<close> it holds.\<close>

definition outstanding :: "limiter \<Rightarrow> io_req list \<Rightarrow> io_req list" where
  "outstanding s F = (case lm_denied_sub s of None \<Rightarrow> [] | Some q \<Rightarrow> [q]) @ F"

definition held :: "(io_req \<times> io_status) list \<Rightarrow> io_req list" where
  "held xs = map fst (filter (\<lambda>(q, st). st = IO_REQ_GRANTED) xs)"

text \<open>Between two calls: the bytes are accounted for; an emission can go on, by the event or by the
  retry of the output; a master that was denied will be retried, by the emission or by the last
  outstanding chunk.\<close>

definition limiter_inv :: "limiter \<Rightarrow> io_req list \<Rightarrow> bool" where
  "limiter_inv s F \<longleftrightarrow> limiter_acc s (outstanding s F) \<and>
     (lm_pending_req s \<noteq> None \<longrightarrow> lm_pending_size s \<noteq> 0 \<and> (lm_denied_sub s \<noteq> None \<or> lm_event s \<noteq> None)) \<and>
     (lm_needs_retry s \<longrightarrow> lm_pending_req s \<noteq> None \<or> outstanding s F \<noteq> [])"

lemma outstanding_perm: "lm_denied_sub s' = lm_denied_sub s \<Longrightarrow> mset F = mset F'
    \<Longrightarrow> mset (outstanding s' F) = mset (outstanding s F')"
  by (simp add: outstanding_def)

text \<open>A new request: not one that is still in flight, and not an empty one.\<close>

definition fresh_req :: "limiter \<Rightarrow> io_req list \<Rightarrow> nat \<Rightarrow> io_req \<Rightarrow> bool" where
  "fresh_req s F i req \<longleftrightarrow> r_size req \<noteq> 0 \<and> (\<forall>q\<in>set (outstanding s F). r_parent q \<noteq> i)"

lemma no_chunk_bytes: "\<forall>q\<in>set L. r_parent q \<noteq> i \<Longrightarrow> chunk_bytes i L = 0"
  by (induction L) auto

lemma limiter_inv_req:
  assumes "limiter_inv s F" "fresh_req s F i req"
  shows "limiter_inv (snd (limiter_input_req i req s)) F"
proof (cases "lm_pending_req s")
  case (Some j)
  then show ?thesis using assms(1)
    by (auto simp: limiter_inv_def limiter_input_req_def limiter_acc_def to_emit_def outstanding_def)
next
  case None
  define s1 where "s1 = snd (limiter_input_req i req s)"
  have f: "lm_pending_req s1 = Some i" "lm_pending_size s1 = r_size req" "lm_denied_sub s1 = lm_denied_sub s"
    "lm_event s1 \<noteq> None" "lm_reqs s1 = (lm_reqs s)(i \<mapsto> req\<lparr>r_remaining := r_size req, r_resp := IO_RESP_OK\<rparr>)"
    "outstanding s1 F = outstanding s F"
    using None by (simp_all add: s1_def limiter_input_req_def Let_def outstanding_def)
  have "chunk_bytes i (outstanding s F) = 0"
    using assms(2) by (intro no_chunk_bytes) (simp add: fresh_req_def)
  then have "limiter_acc s1 (outstanding s F)"
    using assms None f(1,2,5) by (auto simp: limiter_inv_def limiter_acc_def to_emit_def)
  then show ?thesis using f assms(2) unfolding s1_def[symmetric] by (simp add: limiter_inv_def fresh_req_def)
qed

text \<open>A response to a chunk the output holds, or the one it gives at once.\<close>

lemma finish_inv:
  assumes "limiter_acc s (q # L)" "mset L = mset (outstanding s F)"
    and "lm_pending_req s \<noteq> None \<longrightarrow> lm_pending_size s \<noteq> 0"
  shows "\<exists>up s'. limiter_finish_chunk (q\<lparr>r_latency := l, r_resp := v\<rparr>) s = Some (up, s') \<and>
    limiter_acc s' (outstanding s' F) \<and> same_emission s s' \<and> finish_up s L (r_parent q) up s' \<and>
    (lm_needs_retry s' \<longrightarrow> lm_pending_req s' \<noteq> None \<or> outstanding s' F \<noteq> [])"
proof -
  obtain up s' where f: "limiter_finish_chunk (q\<lparr>r_latency := l, r_resp := v\<rparr>) s = Some (up, s')"
    "limiter_acc s' L" "same_emission s s'" "finish_up s L (r_parent q) up s'"
    using finish_chunk_ok[OF assms(1), where l = l and v = v] by blast
  have o: "outstanding s' F = outstanding s F" using f(3) by (simp add: outstanding_def same_emission_def)
  have "limiter_acc s' (outstanding s' F)"
    using f(2) limiter_acc_perm[OF assms(2)] by (simp add: o)
  moreover have "lm_needs_retry s' \<longrightarrow> lm_pending_req s' \<noteq> None \<or> outstanding s' F \<noteq> []"
  proof (intro impI)
    assume n: "lm_needs_retry s'"
    have "L = [] \<longleftrightarrow> outstanding s F = []" using assms(2) by (metis mset_zero_iff)
    then show "lm_pending_req s' \<noteq> None \<or> outstanding s' F \<noteq> []"
      using f(3,4) n assms(3) unfolding o by (auto simp: finish_up_def same_emission_def split: if_splits)
  qed
  ultimately show ?thesis using f by blast
qed

lemma limiter_inv_resp:
  assumes "limiter_inv s (F @ q # G)"
  shows "\<exists>up s'. limiter_output_resp (q\<lparr>r_latency := l, r_resp := v\<rparr>) s = Some (up, s') \<and>
    limiter_inv s' (F @ G) \<and> finish_up s (outstanding s (F @ G)) (r_parent q) up s'"
proof -
  have "mset (q # outstanding s (F @ G)) = mset (outstanding s (F @ q # G))" by (simp add: outstanding_def)
  from limiter_acc_perm[OF this] have "limiter_acc s (q # outstanding s (F @ G))"
    using assms by (simp add: limiter_inv_def)
  from finish_inv[OF this refl, where l = l and v = v] obtain up s' where
    f: "limiter_finish_chunk (q\<lparr>r_latency := l, r_resp := v\<rparr>) s = Some (up, s')"
    "limiter_acc s' (outstanding s' (F @ G))" "same_emission s s'"
    "finish_up s (outstanding s (F @ G)) (r_parent q) up s'"
    "lm_needs_retry s' \<longrightarrow> lm_pending_req s' \<noteq> None \<or> outstanding s' (F @ G) \<noteq> []"
    using assms by (auto simp: limiter_inv_def)
  then have "limiter_inv s' (F @ G)" using assms by (auto simp: limiter_inv_def same_emission_def)
  with f show ?thesis by (auto simp: limiter_output_resp_def)
qed

lemma limiter_inv_retry:
  assumes "limiter_inv s F"
  shows "\<exists>xs up s'. limiter_output_retry out s = Some (xs, up, s') \<and> limiter_inv s' (F @ held xs)"
proof (cases "lm_denied_sub s")
  case None
  then show ?thesis using assms by (simp add: limiter_output_retry_def held_def)
next
  case (Some q)
  let ?s1 = "s\<lparr>lm_denied_sub := None\<rparr>"
  have o: "outstanding s F = q # F" "outstanding ?s1 G = G" for G using Some by (simp_all add: outstanding_def)
  have acc: "limiter_acc ?s1 (q # F)" using assms o by (simp add: limiter_inv_def limiter_acc_def to_emit_def)
  have sz: "lm_pending_req s \<noteq> None \<longrightarrow> lm_pending_size s \<noteq> 0" using assms by (simp add: limiter_inv_def)
  show ?thesis
  proof (cases "a_status (out q)")
    case IO_REQ_DENIED
    have same: "s\<lparr>lm_denied_sub := Some q\<rparr> = s" using Some by (cases s) simp
    show ?thesis using IO_REQ_DENIED Some assms by (simp add: limiter_output_retry_def Let_def held_def same)
  next
    case IO_REQ_GRANTED
    have perm: "mset (q # F) = mset (F @ [q])" by simp
    have acc2: "limiter_acc ?s1 (F @ [q])" using acc limiter_acc_perm[OF perm] by blast
    show ?thesis using IO_REQ_GRANTED Some acc2 sz
      by (auto simp: limiter_output_retry_def Let_def held_def limiter_inv_def outstanding_def limiter_acc_def to_emit_def word_neq_0_conv)
  next
    case IO_REQ_DONE
    obtain l v where lv: "apply_answer (out q) q = q\<lparr>r_latency := l, r_resp := v\<rparr>" using apply_answer_form by blast
    obtain up s' where f: "limiter_finish_chunk (apply_answer (out q) q) ?s1 = Some (up, s')"
      "limiter_acc s' (outstanding s' F)" "same_emission ?s1 s'"
      "lm_needs_retry s' \<longrightarrow> lm_pending_req s' \<noteq> None \<or> outstanding s' F \<noteq> []"
      using finish_inv[OF acc, of F, where l = l and v = v] sz o lv by (auto simp: outstanding_def)
    show ?thesis using IO_REQ_DONE Some f sz
      by (auto simp: limiter_output_retry_def Let_def held_def limiter_inv_def same_emission_def outstanding_def
          limiter_acc_def to_emit_def word_neq_0_conv)
  qed
qed


text \<open>The chunk the event handler emits.\<close>

definition next_chunk :: "u64 \<Rightarrow> limiter \<Rightarrow> io_req \<Rightarrow> bool" where
  "next_chunk bw s q \<longleftrightarrow> lm_pending_req s = Some (r_parent q) \<and> r_addr q = lm_pending_addr s \<and>
     r_data q = lm_pending_data s \<and> r_size q = min (lm_pending_size s) bw"

lemma limiter_inv_event:
  assumes "limiter_inv s F" "bw \<noteq> 0"
  shows "\<exists>xs up s'. limiter_event_handler bw out now s = Some (xs, up, s') \<and> limiter_inv s' (F @ held xs) \<and>
    (xs = [] \<and> up = [] \<or> (\<exists>q st. xs = [(q, st)] \<and> next_chunk bw s q \<and>
       lm_next_timestamp s \<le> now \<and> lm_next_timestamp s' = now + 1)) \<and>
    (lm_denied_sub s = None \<and> lm_pending_req s \<noteq> None \<and> lm_next_timestamp s \<le> now \<longrightarrow> xs \<noteq> [])"
proof (cases "lm_denied_sub s = None \<and> lm_pending_req s \<noteq> None \<and> lm_next_timestamp s \<le> now")
  case False
  then show ?thesis using assms(1)
    by (auto simp: limiter_event_handler_def Let_def limiter_inv_def held_def outstanding_def limiter_acc_def to_emit_def
        split: option.splits)
next
  case True
  let ?s = "s\<lparr>lm_event := None\<rparr>"
  obtain i where i: "lm_pending_req s = Some i" using True by auto
  have sz: "lm_pending_size s \<noteq> 0" and acc0: "limiter_acc s (outstanding s F)"
    using assms(1) i by (auto simp: limiter_inv_def)
  have o: "outstanding s F = F" using True by (simp add: outstanding_def)
  obtain p where p: "lm_reqs s i = Some p" using acc0 i by (auto simp: limiter_acc_def)
  let ?chunk = "min (lm_pending_size s) bw"
  have c0: "?chunk \<noteq> 0" using sz assms(2) by (simp add: min_def)
  have cle: "?chunk \<le> lm_pending_size s" by simp
  obtain q0 s1 where al: "limiter_alloc_sub ?s = (q0, s1)" by fastforce
  then have s1: "lm_pending_req s1 = Some i" "lm_pending_size s1 = lm_pending_size s" "lm_reqs s1 = lm_reqs s"
    "lm_pending_addr s1 = lm_pending_addr s" "lm_pending_data s1 = lm_pending_data s" "lm_denied_sub s1 = None"
    "lm_needs_retry s1 = lm_needs_retry s" "lm_event s1 = None"
    using i True by (auto simp: limiter_alloc_sub_def split: list.splits)
  define q where "q = q0\<lparr>r_parent := i, r_addr := lm_pending_addr s1, r_size := ?chunk, r_data := lm_pending_data s1,
      r_opcode := r_opcode p, r_is_write := r_is_write p, r_latency := 0, r_resp := IO_RESP_OK\<rparr>"
  define s2 where "s2 = s1\<lparr>lm_pending_addr := lm_pending_addr s1 + ?chunk, lm_pending_data := lm_pending_data s1 + ?chunk,
      lm_pending_size := lm_pending_size s1 - ?chunk, lm_next_timestamp := now + 1\<rparr>"
  define s3 where "s3 = (if lm_pending_size s2 = 0 then s2\<lparr>lm_pending_req := None\<rparr> else s2)"
  have s3: "lm_pending_size s3 = lm_pending_size s - ?chunk" "lm_reqs s3 = lm_reqs s" "lm_denied_sub s3 = None"
    "lm_needs_retry s3 = lm_needs_retry s" "lm_event s3 = None" "lm_next_timestamp s3 = now + 1"
    "lm_pending_req s3 = (if lm_pending_size s - ?chunk = 0 then None else Some i)"
    using s1 by (simp_all add: s3_def s2_def)
  have q: "r_parent q = i" "r_size q = ?chunk" "next_chunk bw s q"
    using s1 i by (simp_all add: q_def next_chunk_def)
  have emit: "to_emit s j = to_emit s3 j + (if j = i then unat ?chunk else 0)" for j
  proof -
    have "unat (lm_pending_size s - ?chunk) = unat (lm_pending_size s) - unat ?chunk" by (rule unat_sub_le[OF cle])
    moreover have "unat ?chunk \<le> unat (lm_pending_size s)" using cle by (simp add: word_le_nat_alt)
    ultimately show ?thesis using i s3(1,7) by (auto simp: to_emit_def unat_eq_zero)
  qed
  have acc3: "limiter_acc s3 (q # F)"
    using acc0 emit q(1,2) c0 s3(2,7) p unfolding o limiter_acc_def by (auto split: if_splits)
  have sz3: "lm_pending_req s3 \<noteq> None \<longrightarrow> lm_pending_size s3 \<noteq> 0" using s3(1,7) by simp
  have body0: "limiter_event_handler bw out now s = limiter_emitted q (out q) s3"
    using True i sz p by (simp add: limiter_event_handler_def al Let_def q_def s2_def s3_def)
  note body = body0[unfolded limiter_emitted_def Let_def]
  have tail: "\<exists>xs up' s'. (if lm_pending_req s4 \<noteq> None \<and> lm_pending_size s4 > 0
          then Some ([(q, a_status (out q))], up, s4\<lparr>lm_event := Some 1\<rparr>)
          else if lm_needs_retry s4
          then Some ([(q, a_status (out q))], up @ [Retry], s4\<lparr>lm_needs_retry := False\<rparr>)
          else Some ([(q, a_status (out q))], up, s4)) = Some (xs, up', s') \<and>
      limiter_inv s' F' \<and> xs = [(q, a_status (out q))] \<and> lm_next_timestamp s' = now + 1"
    if "limiter_acc s4 (outstanding s4 F')" "same_emission s3 s4" for s4 up F'
    using that sz3 s3(6)
    by (auto simp: limiter_inv_def limiter_acc_def to_emit_def outstanding_def same_emission_def word_neq_0_conv)
  show ?thesis
  proof (cases "a_status (out q)")
    case IO_REQ_DENIED
    have "limiter_inv (s3\<lparr>lm_denied_sub := Some q\<rparr>) F"
      using acc3 sz3 by (simp add: limiter_inv_def outstanding_def limiter_acc_def to_emit_def)
    then show ?thesis using IO_REQ_DENIED q(3) s3(6) True by (simp add: body held_def)
  next
    case IO_REQ_GRANTED
    have "mset (q # F) = mset (F @ [q])" by simp
    from limiter_acc_perm[OF this] acc3 have "limiter_acc s3 (outstanding s3 (F @ [q]))"
      using s3(3) by (simp add: outstanding_def)
    then obtain xs up s' where r: "limiter_event_handler bw out now s = Some (xs, up, s')"
      "limiter_inv s' (F @ [q])" "xs = [(q, IO_REQ_GRANTED)]" "lm_next_timestamp s' = now + 1"
      using tail[of s3 "F @ [q]" "[]"] IO_REQ_GRANTED by (auto simp: body same_emission_def)
    then show ?thesis using q(3) True by (simp add: held_def)
  next
    case IO_REQ_DONE
    obtain l v where lv: "apply_answer (out q) q = q\<lparr>r_latency := l, r_resp := v\<rparr>" using apply_answer_form by blast
    obtain up s4 where f: "limiter_finish_chunk (apply_answer (out q) q) s3 = Some (up, s4)"
      "limiter_acc s4 (outstanding s4 F)" "same_emission s3 s4"
      using finish_inv[OF acc3, of F, where l = l and v = v] sz3 s3(3) lv by (auto simp: outstanding_def)
    obtain xs up' s' where r: "limiter_event_handler bw out now s = Some (xs, up', s')"
      "limiter_inv s' F" "xs = [(q, IO_REQ_DONE)]" "lm_next_timestamp s' = now + 1"
      using tail[OF f(2,3), of up] IO_REQ_DONE f(1) by (auto simp: body)
    then show ?thesis using q(3) True by (simp add: held_def)
  qed
qed

section \<open>Runs\<close>

definition limiter_init :: limiter where
  "limiter_init = limiter_reset True \<lparr>lm_reqs = Map.empty, lm_event = None, lm_free_list = [], lm_pending_req = None,
     lm_pending_size = 0, lm_pending_addr = 0, lm_pending_data = 0, lm_needs_retry = False,
     lm_denied_sub = None, lm_next_timestamp = 0\<rparr>"

text \<open>A limiter and the chunks \<open>F\<close> its output holds: a fresh request comes in, the event that was
  armed fires, the output responds to a chunk it holds, the output retries.\<close>

inductive limiter_reach :: "u64 \<Rightarrow> limiter \<Rightarrow> io_req list \<Rightarrow> bool" for bw where
  lm_init: "limiter_reach bw limiter_init []"
| lm_req: "limiter_reach bw s F \<Longrightarrow> fresh_req s F i req \<Longrightarrow> limiter_reach bw (snd (limiter_input_req i req s)) F"
| lm_fire: "limiter_reach bw s F \<Longrightarrow> lm_event s \<noteq> None \<Longrightarrow> limiter_event_handler bw out now s = Some (xs, up, s')
    \<Longrightarrow> limiter_reach bw s' (F @ held xs)"
| lm_resp: "limiter_reach bw s (F @ q # G) \<Longrightarrow> limiter_output_resp (q\<lparr>r_latency := l, r_resp := v\<rparr>) s = Some (up, s')
    \<Longrightarrow> limiter_reach bw s' (F @ G)"
| lm_retry: "limiter_reach bw s F \<Longrightarrow> limiter_output_retry out s = Some (xs, up, s') \<Longrightarrow> limiter_reach bw s' (F @ held xs)"

lemma limiter_reach_inv: "limiter_reach bw s F \<Longrightarrow> bw \<noteq> 0 \<Longrightarrow> limiter_inv s F"
proof (induction rule: limiter_reach.induct)
  case lm_init
  then show ?case by (simp add: limiter_init_def limiter_reset_def limiter_inv_def limiter_acc_def outstanding_def)
next
  case (lm_req s F i req)
  then show ?case by (simp add: limiter_inv_req)
next
  case (lm_fire s F out now xs up s')
  then show ?case using limiter_inv_event[of s F bw out now] by auto
next
  case (lm_resp s F q G v l up s')
  then show ?case using limiter_inv_resp[of s F q G, where l = l and v = v] by auto
next
  case (lm_retry s F out xs up s')
  then show ?case using limiter_inv_retry[of s F out] by auto
qed

text \<open>The calls a limiter can get, with the statuses it returned and the calls it made.\<close>

inductive limiter_run :: "u64 \<Rightarrow> limiter \<Rightarrow> io_status list \<Rightarrow> (nat \<times> io_req) io_up list \<Rightarrow> limiter \<Rightarrow> bool"
  for bw s where
  lr_nil: "limiter_run bw s [] [] s"
| lr_req: "limiter_run bw s sts ups t \<Longrightarrow> limiter_input_req i req t = (st, t') \<Longrightarrow> limiter_run bw s (sts @ [st]) ups t'"
| lr_fire: "limiter_run bw s sts ups t \<Longrightarrow> limiter_event_handler bw out now t = Some (xs, up, t')
    \<Longrightarrow> limiter_run bw s sts (ups @ up) t'"
| lr_resp: "limiter_run bw s sts ups t \<Longrightarrow> limiter_output_resp q t = Some (up, t') \<Longrightarrow> limiter_run bw s sts (ups @ up) t'"
| lr_retry: "limiter_run bw s sts ups t \<Longrightarrow> limiter_output_retry out t = Some (xs, up, t')
    \<Longrightarrow> limiter_run bw s sts (ups @ up) t'"

definition wedged :: "nat \<Rightarrow> limiter \<Rightarrow> bool" where
  "wedged i s \<longleftrightarrow> lm_pending_req s = Some i \<and> lm_pending_size s = 0 \<and> lm_denied_sub s = None"

lemma wedged_run:
  assumes "limiter_run bw s sts ups t" "wedged i s"
  shows "wedged i t \<and> set sts \<subseteq> {IO_REQ_DENIED} \<and> Retry \<notin> set ups"
  using assms
proof induction
  case (lr_resp sts ups t q up t')
  then show ?case
    by (auto simp: limiter_output_resp_def limiter_finish_chunk_def limiter_check_last_chunk_def limiter_free_sub_def
        wedged_def Let_def split: option.splits if_splits)
qed (auto simp: wedged_def limiter_input_req_def limiter_event_handler_def limiter_output_retry_def Let_def)

section \<open>Properties\<close>

text \<open>C17: conservation. At any time a request the limiter took expects exactly its bytes that are not
  emitted yet and those of its chunks that are outstanding (denied by the output or held by it).\<close>

theorem limiter_conservation:
  assumes "limiter_reach bw s F" "bw \<noteq> 0" "lm_reqs s i = Some p"
  shows "unat (r_remaining p) = to_emit s i + chunk_bytes i (outstanding s F)"
  using limiter_reach_inv[OF assms(1,2)] assms(3) by (simp add: limiter_inv_def limiter_acc_def)

text \<open>C29: the emission never stalls and no retry is lost. While a request is being emitted, the event
  is armed or the output owes a retry for the chunk it denied; while the master is owed a retry, an
  emission is under way or a chunk is outstanding whose completion triggers it. No handler faults.\<close>

theorem limiter_no_stall:
  assumes "limiter_reach bw s F" "bw \<noteq> 0"
  shows "(lm_pending_req s \<noteq> None \<longrightarrow> lm_denied_sub s \<noteq> None \<or> lm_event s \<noteq> None) \<and>
    (lm_needs_retry s \<longrightarrow> lm_pending_req s \<noteq> None \<or> outstanding s F \<noteq> []) \<and>
    limiter_event_handler bw out now s \<noteq> None \<and> limiter_output_retry out s \<noteq> None"
proof -
  have inv: "limiter_inv s F" by (rule limiter_reach_inv[OF assms])
  have "limiter_event_handler bw out now s \<noteq> None" using limiter_inv_event[OF inv assms(2), of out now] by blast
  moreover have "limiter_output_retry out s \<noteq> None" using limiter_inv_retry[OF inv, of out] by blast
  ultimately show ?thesis using inv by (simp add: limiter_inv_def)
qed

text \<open>The bandwidth. One firing of the event emits at most one chunk, of at most \<open>bandwidth\<close> bytes,
  the next ones of the pending request; it moves the watermark to the next cycle, before which
  nothing is emitted; and it does emit when the output is not stalled and the watermark is reached.\<close>

theorem limiter_rate:
  assumes "limiter_reach bw s F" "bw \<noteq> 0"
  shows "\<exists>xs up s'. limiter_event_handler bw out now s = Some (xs, up, s') \<and>
    (xs = [] \<or> (\<exists>q st. xs = [(q, st)] \<and> next_chunk bw s q \<and> r_size q \<le> bw \<and>
       lm_next_timestamp s \<le> now \<and> lm_next_timestamp s' = now + 1)) \<and>
    (lm_denied_sub s = None \<and> lm_pending_req s \<noteq> None \<and> lm_next_timestamp s \<le> now \<longrightarrow> xs \<noteq> [])"
proof -
  obtain xs up s' where e: "limiter_event_handler bw out now s = Some (xs, up, s')"
    "xs = [] \<and> up = [] \<or> (\<exists>q st. xs = [(q, st)] \<and> next_chunk bw s q \<and>
       lm_next_timestamp s \<le> now \<and> lm_next_timestamp s' = now + 1)"
    "lm_denied_sub s = None \<and> lm_pending_req s \<noteq> None \<and> lm_next_timestamp s \<le> now \<longrightarrow> xs \<noteq> []"
    using limiter_inv_event[OF limiter_reach_inv[OF assms] assms(2), of out now] by blast
  have "r_size q \<le> bw" if "next_chunk bw s q" for q using that by (simp add: next_chunk_def)
  with e show ?thesis by blast
qed

text \<open>Completion. When the output responds to a chunk, the master is answered exactly when its
  request has no byte left to emit and no other chunk outstanding, with no byte left to expect; and it
  is retried at that time exactly when it is owed a retry and no emission is under way.\<close>

theorem limiter_completion:
  assumes "limiter_reach bw s (F @ q # G)" "bw \<noteq> 0"
  shows "\<exists>up s'. limiter_output_resp (q\<lparr>r_latency := l, r_resp := v\<rparr>) s = Some (up, s') \<and>
    finish_up s (outstanding s (F @ G)) (r_parent q) up s'"
  using limiter_inv_resp[OF limiter_reach_inv[OF assms], where l = l and v = v] by blast

text \<open>An empty request wedges the limiter. It is granted, nothing is ever emitted for it, and from
  then on, whatever happens short of a reset, every request is denied and no retry is given.\<close>

theorem limiter_empty_request_wedges:
  assumes "lm_pending_req s = None" "lm_denied_sub s = None" "r_size req = 0"
    and "limiter_run bw (snd (limiter_input_req i req s)) sts ups t"
  shows "fst (limiter_input_req i req s) = IO_REQ_GRANTED \<and> set sts \<subseteq> {IO_REQ_DENIED} \<and> Retry \<notin> set ups"
proof -
  have "wedged i (snd (limiter_input_req i req s))"
    using assms(1-3) by (simp add: wedged_def limiter_input_req_def Let_def)
  from wedged_run[OF assms(4) this] show ?thesis using assms(1) by (simp add: limiter_input_req_def Let_def)
qed

text \<open>A request of twelve bytes at eight bytes per cycle; the output grants the first chunk.\<close>

definition demo_grant :: "io_req \<Rightarrow> io_answer" where
  "demo_grant q = \<lparr>a_status = IO_REQ_GRANTED, a_latency = 0, a_resp = IO_RESP_OK\<rparr>"

definition demo_lim :: limiter where
  "demo_lim = snd (limiter_input_req 7 (plain_req 0x20 12 True) limiter_init)"

definition demo_sub :: io_req where
  "demo_sub = (plain_req 0x20 8 True)\<lparr>r_parent := 7\<rparr>"

lemma demo_lim_reach: "limiter_reach 8 demo_lim []"
  unfolding demo_lim_def
  by (rule lm_req[OF lm_init]) (simp add: fresh_req_def limiter_init_def limiter_reset_def outstanding_def)

lemma demo_lim_event:
  "\<exists>s'. limiter_event_handler 8 demo_grant 1 demo_lim = Some ([(demo_sub, IO_REQ_GRANTED)], [], s') \<and>
     lm_event s' = Some 1 \<and> lm_pending_size s' = 4"
  by (simp add: limiter_event_handler_def demo_lim_def limiter_input_req_def limiter_init_def limiter_reset_def Let_def
    limiter_alloc_sub_def demo_grant_def demo_sub_def plain_req_def limiter_emitted_def min_def)

theorem limiter_conservation_witness:
  "\<exists>p. lm_reqs demo_lim 7 = Some p \<and> unat (r_remaining p) = to_emit demo_lim 7 + chunk_bytes 7 (outstanding demo_lim [])"
proof -
  have "\<exists>p. lm_reqs demo_lim 7 = Some p" by (simp add: demo_lim_def limiter_input_req_def limiter_init_def limiter_reset_def Let_def)
  then show ?thesis using limiter_conservation[OF demo_lim_reach] by auto
qed

theorem limiter_no_stall_witness:
  "limiter_event_handler 8 demo_grant 1 demo_lim \<noteq> None"
  using limiter_no_stall[OF demo_lim_reach, of demo_grant 1] by simp

theorem limiter_rate_witness:
  "\<exists>xs up s'. limiter_event_handler 8 demo_grant 1 demo_lim = Some (xs, up, s') \<and> length xs \<le> 1"
  using limiter_rate[OF demo_lim_reach, of demo_grant 1] by auto

theorem limiter_completion_witness:
  "\<exists>s up s'. limiter_output_resp (demo_sub\<lparr>r_latency := 0, r_resp := IO_RESP_OK\<rparr>) s = Some (up, s') \<and>
     finish_up s (outstanding s []) 7 up s'"
proof -
  obtain s' where e: "limiter_event_handler 8 demo_grant 1 demo_lim = Some ([(demo_sub, IO_REQ_GRANTED)], [], s')"
    using demo_lim_event by blast
  have "lm_event demo_lim \<noteq> None" by (simp add: demo_lim_def limiter_input_req_def limiter_init_def limiter_reset_def Let_def)
  from lm_fire[OF demo_lim_reach this e] have "limiter_reach 8 s' ([] @ demo_sub # [])" by (simp add: held_def)
  from limiter_completion[OF this, where l = 0 and v = IO_RESP_OK] show ?thesis
    by (auto simp: demo_sub_def)
qed

theorem limiter_empty_request_wedges_witness:
  "fst (limiter_input_req 7 (plain_req 0x20 0 True) limiter_init) = IO_REQ_GRANTED \<and>
   set [IO_REQ_DENIED] \<subseteq> {IO_REQ_DENIED} \<and> Retry \<notin> set ([] :: (nat \<times> io_req) io_up list)"
proof (rule limiter_empty_request_wedges)
  let ?s = "snd (limiter_input_req 7 (plain_req 0x20 0 True) limiter_init)"
  have "limiter_run 8 ?s ([] @ [IO_REQ_DENIED]) [] (?s\<lparr>lm_needs_retry := True\<rparr>)"
    by (rule lr_req[OF lr_nil, where i = 9 and req = "plain_req 0x40 4 True"])
      (simp add: limiter_input_req_def limiter_init_def limiter_reset_def Let_def)
  then show "limiter_run 8 ?s [IO_REQ_DENIED] [] (?s\<lparr>lm_needs_retry := True\<rparr>)" by simp
qed (simp_all add: limiter_init_def limiter_reset_def)

end
