(* ===== verification/IsaLib.thy ===== *)
theory IsaLib imports Prelude begin

text \<open>
  \<open>src/models/cpu/iss/include/isa_lib/int.h\<close>: the integer library behind the instruction handlers,
  for a 32-bit core (\<open>iss_uim_t\<close> and \<open>iss_sim_t\<close> are 32 bits wide). Unsigned and signed C values
  are words, read by \<open>unat\<close> or \<open>sint\<close>; a signed operation that overflows is undefined in C++ and
  wraps here, as the compiled code does. Shift counts reach the functions below 32 (the decoder and
  the handlers mask them); \<open>ffs\<close> and the \<open>__builtin\<close> functions are written out.
  The 96 one-line products of halfwords (\<open>lib_MAC_SL_SH\<close> and so on) are one function each of their
  two operand selectors.
\<close>

section \<open>Fields and signs\<close>

definition getField :: "u32 \<Rightarrow> nat \<Rightarrow> nat \<Rightarrow> u32" where
  "getField val sh bits = drop_bit sh val AND mask bits"

definition get_signed_value :: "u32 \<Rightarrow> nat \<Rightarrow> u32" where
  "get_signed_value val bits = signed_drop_bit (32 - bits) (push_bit (32 - bits) val)"

definition getSignedField :: "u32 \<Rightarrow> nat \<Rightarrow> nat \<Rightarrow> u32" where
  "getSignedField val sh bits = get_signed_value (getField val sh bits) bits"

section \<open>Logical and arithmetic operations\<close>

definition lib_SLL :: "u32 \<Rightarrow> u32 \<Rightarrow> u32" where "lib_SLL a b = push_bit (unat b) a"
definition lib_SRL :: "u32 \<Rightarrow> u32 \<Rightarrow> u32" where "lib_SRL a b = drop_bit (unat b) a"
definition lib_SRA :: "u32 \<Rightarrow> u32 \<Rightarrow> u32" where "lib_SRA a b = signed_drop_bit (unat b) a"
definition lib_ROR :: "u32 \<Rightarrow> u32 \<Rightarrow> u32" where
  "lib_ROR a b = drop_bit (unat b) a OR push_bit (unat (32 - b)) a"
definition lib_XOR :: "u32 \<Rightarrow> u32 \<Rightarrow> u32" where "lib_XOR a b = a XOR b"
definition lib_OR :: "u32 \<Rightarrow> u32 \<Rightarrow> u32" where "lib_OR a b = a OR b"
definition lib_AND :: "u32 \<Rightarrow> u32 \<Rightarrow> u32" where "lib_AND a b = a AND b"
definition lib_ADD :: "u32 \<Rightarrow> u32 \<Rightarrow> u32" where "lib_ADD a b = a + b"
definition lib_SUB :: "u32 \<Rightarrow> u32 \<Rightarrow> u32" where "lib_SUB a b = a - b"
definition lib_MAC :: "u32 \<Rightarrow> u32 \<Rightarrow> u32 \<Rightarrow> u32" where "lib_MAC a b c = a + b * c"
definition lib_MSU :: "u32 \<Rightarrow> u32 \<Rightarrow> u32 \<Rightarrow> u32" where "lib_MSU a b c = a - b * c"
definition lib_MMUL :: "u32 \<Rightarrow> u32 \<Rightarrow> u32 \<Rightarrow> u32" where "lib_MMUL a b c = - b * c"

section \<open>Halfword products\<close>

text \<open>The operand selectors \<open>SL\<close>, \<open>SH\<close>, \<open>ZL\<close>, \<open>ZH\<close>: low or high half, sign- or zero-extended.\<close>

datatype half = SL | SH | ZL | ZH

fun half_val :: "half \<Rightarrow> u32 \<Rightarrow> u32" where
  "half_val SL x = scast (ucast x :: 16 word)"
| "half_val SH x = scast (ucast (drop_bit 16 x) :: 16 word)"
| "half_val ZL x = ucast (ucast x :: 16 word)"
| "half_val ZH x = ucast (ucast (drop_bit 16 x) :: 16 word)"

definition L_H_TO_W :: "u32 \<Rightarrow> u32 \<Rightarrow> u32" where "L_H_TO_W l h = (l AND 0xffff) OR push_bit 16 h"

definition lib_MAC_half :: "half \<Rightarrow> half \<Rightarrow> u32 \<Rightarrow> u32 \<Rightarrow> u32 \<Rightarrow> u32" where
  "lib_MAC_half x y a b c = a + half_val x b * half_val y c"
definition lib_MSU_half :: "half \<Rightarrow> half \<Rightarrow> u32 \<Rightarrow> u32 \<Rightarrow> u32 \<Rightarrow> u32" where
  "lib_MSU_half x y a b c = a - half_val x b * half_val y c"
definition lib_MUL_half :: "half \<Rightarrow> half \<Rightarrow> u32 \<Rightarrow> u32 \<Rightarrow> u32" where
  "lib_MUL_half x y b c = half_val x b * half_val y c"
definition lib_MMUL_half :: "half \<Rightarrow> half \<Rightarrow> u32 \<Rightarrow> u32 \<Rightarrow> u32" where
  "lib_MMUL_half x y b c = - half_val x b * half_val y c"

text \<open>The variants with normalisation (\<open>NR\<close>) shift the result: the signed selectors arithmetically,
  the unsigned ones logically. Those with rounding (\<open>NR_R\<close>) add half a unit first: in 64 bits
  where the constant is \<open>1ULL\<close>, in 32 bits in the two unsigned products, where it is \<open>1\<close>.\<close>

definition norm_s :: "u32 \<Rightarrow> u32 \<Rightarrow> u32" where "norm_s r sh = signed_drop_bit (unat sh) r"
definition norm_u :: "u32 \<Rightarrow> u32 \<Rightarrow> u32" where "norm_u r sh = drop_bit (unat sh) r"

definition round_s :: "u32 \<Rightarrow> u32 \<Rightarrow> u32" where
  "round_s r sh = (if sh > 0 then ucast (drop_bit (unat sh) ((scast r :: u64) + push_bit (unat (sh - 1)) 1)) else r)"
definition round_u :: "u32 \<Rightarrow> u32 \<Rightarrow> u32" where
  "round_u r sh = (if sh > 0 then ucast (drop_bit (unat sh) ((ucast r :: u64) + push_bit (unat (sh - 1)) 1)) else r)"
definition round_u32 :: "u32 \<Rightarrow> u32 \<Rightarrow> u32" where
  "round_u32 r sh = (if sh > 0 then drop_bit (unat sh) (r + push_bit (unat (sh - 1)) 1) else r)"

fun half_signed :: "half \<Rightarrow> bool" where
  "half_signed SL = True" | "half_signed SH = True" | "half_signed ZL = False" | "half_signed ZH = False"

definition lib_MAC_half_NR :: "half \<Rightarrow> u32 \<Rightarrow> u32 \<Rightarrow> u32 \<Rightarrow> u32 \<Rightarrow> u32" where
  "lib_MAC_half_NR x a b c sh =
     (if half_signed x then norm_s (lib_MAC_half x x a b c) sh else norm_u (lib_MAC_half x x a b c) sh)"
definition lib_MAC_half_NR_R :: "half \<Rightarrow> u32 \<Rightarrow> u32 \<Rightarrow> u32 \<Rightarrow> u32 \<Rightarrow> u32" where
  "lib_MAC_half_NR_R x a b c sh =
     (if half_signed x then round_s (lib_MAC_half x x a b c) sh else round_u (lib_MAC_half x x a b c) sh)"
definition lib_MUL_half_NR :: "half \<Rightarrow> u32 \<Rightarrow> u32 \<Rightarrow> u32 \<Rightarrow> u32" where
  "lib_MUL_half_NR x b c sh =
     (if half_signed x then norm_s (lib_MUL_half x x b c) sh else norm_u (lib_MUL_half x x b c) sh)"
definition lib_MUL_half_NR_R :: "half \<Rightarrow> u32 \<Rightarrow> u32 \<Rightarrow> u32 \<Rightarrow> u32" where
  "lib_MUL_half_NR_R x b c sh =
     (if half_signed x then round_s (lib_MUL_half x x b c) sh else round_u32 (lib_MUL_half x x b c) sh)"

section \<open>Multiplication, division, minimum, maximum, average\<close>

definition lib_MULS :: "u32 \<Rightarrow> u32 \<Rightarrow> u32" where "lib_MULS a b = a * b"
definition lib_MULU :: "u64 \<Rightarrow> u64 \<Rightarrow> u64" where "lib_MULU a b = a * b"
definition lib_MULS_64 :: "u32 \<Rightarrow> u32 \<Rightarrow> u64" where "lib_MULS_64 a b = scast a * scast b"

text \<open>The signed quotient of C, \<open>None\<close> where it overflows.\<close>

definition lib_DIVS :: "u32 \<Rightarrow> u32 \<Rightarrow> u32 option" where
  "lib_DIVS a b =
     (if b = 0 then Some 0
      else if sint a = - (2 ^ 31) \<and> sint b = -1 then None
      else Some (word_of_int (sgn (sint a) * sgn (sint b) * (\<bar>sint a\<bar> div \<bar>sint b\<bar>))))"
definition lib_DIVU :: "u32 \<Rightarrow> u32 \<Rightarrow> u32" where
  "lib_DIVU a b = (if b = 0 then 0 else a div b)"
definition lib_MINU :: "u32 \<Rightarrow> u32 \<Rightarrow> u32" where "lib_MINU a b = (if a < b then a else b)"
definition lib_MINS :: "u32 \<Rightarrow> u32 \<Rightarrow> u32" where "lib_MINS a b = (if sint a < sint b then a else b)"
definition lib_MAXU :: "u32 \<Rightarrow> u32 \<Rightarrow> u32" where "lib_MAXU a b = (if a > b then a else b)"
definition lib_MAXS :: "u32 \<Rightarrow> u32 \<Rightarrow> u32" where "lib_MAXS a b = (if sint a > sint b then a else b)"
definition lib_ABS :: "u32 \<Rightarrow> u32" where "lib_ABS a = (if sint a \<ge> 0 then a else - a)"
definition lib_AVGU :: "u32 \<Rightarrow> u32 \<Rightarrow> u32" where "lib_AVGU a b = drop_bit 1 (a + b)"
definition lib_AVGS :: "u32 \<Rightarrow> u32 \<Rightarrow> u32" where "lib_AVGS a b = signed_drop_bit 1 (a + b)"
definition lib_CMOV :: "u32 \<Rightarrow> u32 \<Rightarrow> u32 \<Rightarrow> u32" where "lib_CMOV flag a b = (if flag \<noteq> 0 then a else b)"

section \<open>Bit manipulation\<close>

text \<open>\<open>ffs\<close>: one plus the position of the lowest set bit, 0 if there is none.\<close>

definition ffs :: "u32 \<Rightarrow> u32" where
  "ffs a = (case filter (\<lambda>i. bit a i) [0..<32] of [] \<Rightarrow> 0 | i # _ \<Rightarrow> of_nat (Suc i))"

definition popcount :: "u32 \<Rightarrow> nat" where
  "popcount a = length (filter (\<lambda>i. bit a i) [0..<32])"

text \<open>\<open>__builtin_clrsb\<close>: the number of bits below the sign that are equal to it, from the top.\<close>

definition clrsb :: "u32 \<Rightarrow> nat" where
  "clrsb a = length (takeWhile (\<lambda>i. bit a i = bit a 31) (rev [0..<31]))"

definition lib_FF1_or1k :: "u32 \<Rightarrow> u32" where "lib_FF1_or1k a = ffs a"

text \<open>The three lines of \<open>lib_FL1\<close> that reverse the bits inside each byte, the one that swaps the
  bytes of a half, and the swap of the halves.\<close>

definition bit_reverse :: "u32 \<Rightarrow> u32" where
  "bit_reverse t0 =
     (let t1 = drop_bit 1 (t0 AND 0xaaaaaaaa) OR push_bit 1 (t0 AND 0x55555555);
          t2 = drop_bit 2 (t1 AND 0xcccccccc) OR push_bit 2 (t1 AND 0x33333333);
          t3 = drop_bit 4 (t2 AND 0xf0f0f0f0) OR push_bit 4 (t2 AND 0x0f0f0f0f);
          t4 = drop_bit 8 (t3 AND 0xff00ff00) OR push_bit 8 (t3 AND 0x00ff00ff)
      in drop_bit 16 t4 OR push_bit 16 t4)"

definition lib_FL1_or1k :: "u32 \<Rightarrow> u32" where
  "lib_FL1_or1k t = (let r = ffs (bit_reverse t) in if r = 0 then r else 33 - r)"

definition lib_FF1 :: "u32 \<Rightarrow> u32" where
  "lib_FF1 a = (let result = ffs a in if result = 0 then 32 else result - 1)"

definition lib_FL1 :: "u32 \<Rightarrow> u32" where
  "lib_FL1 t = (let r = ffs (bit_reverse t) in if r = 0 then 32 else 32 - r)"

definition lib_CNT :: "u32 \<Rightarrow> u32" where "lib_CNT t = of_nat (popcount t)"

definition lib_CNT_64 :: "u64 \<Rightarrow> u32" where
  "lib_CNT_64 t = of_nat (popcount (ucast (drop_bit 32 t)) + popcount (ucast t))"

definition lib_CLB :: "u32 \<Rightarrow> u32" where
  "lib_CLB t = (if t = 0 then 0 else of_nat (clrsb t))"

definition lib_BSET :: "u32 \<Rightarrow> u32 \<Rightarrow> u32" where "lib_BSET val m = val OR m"
definition lib_BCLR :: "u32 \<Rightarrow> u32 \<Rightarrow> u32" where "lib_BCLR val m = val AND NOT m"

definition lib_BEXTRACT :: "u32 \<Rightarrow> u32 \<Rightarrow> u32 \<Rightarrow> u32" where
  "lib_BEXTRACT val bits sh =
     (let bits' = (if sh + bits > 32 then 32 - sh else bits)
      in getSignedField val (unat sh) (unat bits'))"

definition lib_BEXTRACTU :: "u32 \<Rightarrow> u32 \<Rightarrow> u32 \<Rightarrow> u32" where
  "lib_BEXTRACTU val m sh = drop_bit (unat sh) (val AND m)"

definition lib_BINSERT :: "u32 \<Rightarrow> u32 \<Rightarrow> u32 \<Rightarrow> u32 \<Rightarrow> u32" where
  "lib_BINSERT a b m sh = (b AND NOT m) OR (push_bit (unat sh) a AND m)"

section \<open>Vectors\<close>

text \<open>The macros read a register as an array of \<open>n\<close> elements of 8 or 16 bits, through a pointer, and
  write the result the same way; the operation is computed in \<open>int\<close> and truncated to the element.\<close>

definition lane :: "nat \<Rightarrow> u32 \<Rightarrow> 'e::len word" where
  "lane i a = ucast (drop_bit (i * LENGTH('e)) a)"

fun unlanes :: "'e::len word list \<Rightarrow> u32" where
  "unlanes [] = 0"
| "unlanes (x # xs) = ucast x OR push_bit LENGTH('e) (unlanes xs)"

definition lib_VEC :: "nat \<Rightarrow> ('e::len word \<Rightarrow> 'e word \<Rightarrow> 'e word) \<Rightarrow> u32 \<Rightarrow> u32 \<Rightarrow> u32" where
  "lib_VEC n f a b = unlanes (map (\<lambda>i. f (lane i a) (lane i b)) [0..<n])"

definition lib_VEC_SC :: "nat \<Rightarrow> ('e::len word \<Rightarrow> 'e word \<Rightarrow> 'e word) \<Rightarrow> u32 \<Rightarrow> 'e word \<Rightarrow> u32" where
  "lib_VEC_SC n f a b = unlanes (map (\<lambda>i. f (lane i a) b) [0..<n])"

text \<open>\<open>VEC_OP_DIV2\<close>, \<open>DIV4\<close> and \<open>DIV8\<close> shift each (signed) result right by 1, 2 or 3.\<close>

definition lib_VEC_OP_DIV :: "nat \<Rightarrow> nat \<Rightarrow> ('e::len word \<Rightarrow> 'e word \<Rightarrow> 'e word) \<Rightarrow> u32 \<Rightarrow> u32 \<Rightarrow> u32" where
  "lib_VEC_OP_DIV k n f a b = lib_VEC n (\<lambda>x y. signed_drop_bit k (f x y)) a b"

definition lib_VEC_CMP :: "nat \<Rightarrow> ('e::len word \<Rightarrow> 'e word \<Rightarrow> bool) \<Rightarrow> u32 \<Rightarrow> u32 \<Rightarrow> u32" where
  "lib_VEC_CMP n p a b = lib_VEC n (\<lambda>x y. if p x y then -1 else 0) a b"

definition lib_VEC_CMP_SC :: "nat \<Rightarrow> ('e::len word \<Rightarrow> 'e word \<Rightarrow> bool) \<Rightarrow> u32 \<Rightarrow> 'e word \<Rightarrow> u32" where
  "lib_VEC_CMP_SC n p a b = lib_VEC_SC n (\<lambda>x y. if p x y then -1 else 0) a b"

text \<open>\<open>VEC_ALL\<close> and \<open>VEC_ANY\<close> also give a flag.\<close>

definition lib_VEC_ALL :: "nat \<Rightarrow> ('e::len word \<Rightarrow> 'e word \<Rightarrow> bool) \<Rightarrow> u32 \<Rightarrow> u32 \<Rightarrow> u32 \<times> bool" where
  "lib_VEC_ALL n p a b =
     (lib_VEC_CMP n p a b, foldl (\<lambda>isOper i. if p (lane i a) (lane i b) then isOper else False) True [0..<n])"

definition lib_VEC_ANY :: "nat \<Rightarrow> ('e::len word \<Rightarrow> 'e word \<Rightarrow> bool) \<Rightarrow> u32 \<Rightarrow> u32 \<Rightarrow> u32 \<times> bool" where
  "lib_VEC_ANY n p a b =
     (lib_VEC_CMP n p a b, foldl (\<lambda>isOper i. if p (lane i a) (lane i b) then True else isOper) False [0..<n])"

text \<open>The element operations of \<open>VEC_EXPR\<close>.\<close>

definition vec_avg :: "'e::len word \<Rightarrow> 'e word \<Rightarrow> 'e word" where "vec_avg x y = signed_drop_bit 1 (x + y)"
definition vec_avgu :: "'e::len word \<Rightarrow> 'e word \<Rightarrow> 'e word" where "vec_avgu x y = drop_bit 1 (x + y)"
definition vec_min :: "'e::len word \<Rightarrow> 'e word \<Rightarrow> 'e word" where "vec_min x y = (if sint x > sint y then y else x)"
definition vec_minu :: "'e::len word \<Rightarrow> 'e word \<Rightarrow> 'e word" where "vec_minu x y = (if x > y then y else x)"
definition vec_max :: "'e::len word \<Rightarrow> 'e word \<Rightarrow> 'e word" where "vec_max x y = (if sint x > sint y then x else y)"
definition vec_maxu :: "'e::len word \<Rightarrow> 'e word \<Rightarrow> 'e word" where "vec_maxu x y = (if x > y then x else y)"
definition vec_srl :: "'e::len word \<Rightarrow> 'e word \<Rightarrow> 'e word" where
  "vec_srl x y = drop_bit (unat (y AND of_nat (LENGTH('e) - 1))) x"
definition vec_sra :: "'e::len word \<Rightarrow> 'e word \<Rightarrow> 'e word" where
  "vec_sra x y = signed_drop_bit (unat (y AND of_nat (LENGTH('e) - 1))) x"
definition vec_sll :: "'e::len word \<Rightarrow> 'e word \<Rightarrow> 'e word" where
  "vec_sll x y = push_bit (unat (y AND of_nat (LENGTH('e) - 1))) x"

text \<open>Insertion and extraction of an element, of \<open>e\<close> bits (8 or 16), at element \<open>sh\<close>.\<close>

definition lib_VEC_INS :: "nat \<Rightarrow> u32 \<Rightarrow> u32 \<Rightarrow> nat \<Rightarrow> u32" where
  "lib_VEC_INS e a b sh =
     (let s = sh * e; m = push_bit s (mask e); ins = push_bit s (b AND mask e)
      in (a AND NOT m) OR ins)"

definition lib_VEC_EXTU :: "nat \<Rightarrow> u32 \<Rightarrow> nat \<Rightarrow> u32" where
  "lib_VEC_EXTU e a sh = (let s = sh * e; m = push_bit s (mask e) in drop_bit s (a AND m))"

definition lib_VEC_EXT_8 :: "u32 \<Rightarrow> nat \<Rightarrow> u32" where
  "lib_VEC_EXT_8 a sh = scast (ucast (lib_VEC_EXTU 8 a sh) :: u8)"

definition lib_VEC_EXT_16 :: "u32 \<Rightarrow> nat \<Rightarrow> u32" where
  "lib_VEC_EXT_16 a sh = scast (ucast (lib_VEC_EXTU 16 a sh) :: 16 word)"

definition lib_VEC_ABS :: "'e::len word itself \<Rightarrow> nat \<Rightarrow> u32 \<Rightarrow> u32" where
  "lib_VEC_ABS ty n a = unlanes (map (\<lambda>i. let x = (lane i a :: 'e word) in if sint x > 0 then x else - x) [0..<n])"

definition getShuffleHalf :: "u32 \<Rightarrow> u32 \<Rightarrow> nat \<Rightarrow> u32" where
  "getShuffleHalf a b pos =
     (let s = push_bit 4 (drop_bit pos b AND 1) in push_bit pos (drop_bit (unat s) a AND 0xffff))"

definition lib_VEC_SHUFFLE_16 :: "u32 \<Rightarrow> u32 \<Rightarrow> u32" where
  "lib_VEC_SHUFFLE_16 a b = getShuffleHalf a b 16 OR getShuffleHalf a b 0"

definition getShuffleHalfSci :: "u32 \<Rightarrow> u32 \<Rightarrow> nat \<Rightarrow> u32" where
  "getShuffleHalfSci a b pos =
     (let bitPos = pos div 16; s = push_bit 4 (drop_bit bitPos b AND 1)
      in push_bit pos (drop_bit (unat s) a AND 0xffff))"

definition lib_VEC_SHUFFLE_SCI_16 :: "u32 \<Rightarrow> u32 \<Rightarrow> u32" where
  "lib_VEC_SHUFFLE_SCI_16 a b = getShuffleHalfSci a b 16 OR getShuffleHalfSci a b 0"

definition getShuffleByte :: "u32 \<Rightarrow> u32 \<Rightarrow> nat \<Rightarrow> u32" where
  "getShuffleByte a b pos =
     (let s = push_bit 3 (drop_bit pos b AND 3) in push_bit pos (drop_bit (unat s) a AND 0xff))"

definition lib_VEC_SHUFFLE_8 :: "u32 \<Rightarrow> u32 \<Rightarrow> u32" where
  "lib_VEC_SHUFFLE_8 a b = getShuffleByte a b 24 OR getShuffleByte a b 16 OR getShuffleByte a b 8 OR getShuffleByte a b 0"

definition getShuffleByteSci :: "u32 \<Rightarrow> u32 \<Rightarrow> nat \<Rightarrow> u32" where
  "getShuffleByteSci a b pos =
     (let bitPos = pos div 4; s = push_bit 3 (drop_bit bitPos b AND 3)
      in push_bit pos (drop_bit (unat s) a AND 0xff))"

definition lib_VEC_SHUFFLE_SCI_8 :: "u32 \<Rightarrow> u32 \<Rightarrow> u32" where
  "lib_VEC_SHUFFLE_SCI_8 a b =
     getShuffleByteSci a b 24 OR getShuffleByteSci a b 16 OR getShuffleByteSci a b 8 OR getShuffleByteSci a b 0"

text \<open>\<open>VEC_DOTP\<close> and \<open>VEC_SDOT\<close>; \<open>ea\<close> and \<open>eb\<close> extend the elements to \<open>int\<close>.\<close>

definition lib_VEC_SDOT ::
  "nat \<Rightarrow> ('e::len word \<Rightarrow> u32) \<Rightarrow> ('e word \<Rightarrow> u32) \<Rightarrow> u32 \<Rightarrow> u32 \<Rightarrow> u32 \<Rightarrow> u32" where
  "lib_VEC_SDOT n ea eb out a b = foldl (\<lambda>acc i. acc + ea (lane i a) * eb (lane i b)) out [0..<n]"

definition lib_VEC_DOTP ::
  "nat \<Rightarrow> ('e::len word \<Rightarrow> u32) \<Rightarrow> ('e word \<Rightarrow> u32) \<Rightarrow> u32 \<Rightarrow> u32 \<Rightarrow> u32" where
  "lib_VEC_DOTP n ea eb a b = lib_VEC_SDOT n ea eb 0 a b"

section \<open>Reading the definitions bit by bit\<close>

lemma less_32_cases:
  fixes i :: nat
  assumes "i < 32"
  shows "i \<in> {0, 1, 2, 3, 4, 5, 6, 7, 8, 9, 10, 11, 12, 13, 14, 15, 16, 17, 18, 19, 20, 21, 22, 23, 24, 25, 26, 27, 28, 29, 30, 31}"
  using assms unfolding insert_iff empty_iff by presburger

lemma bit_reverse_bit:
  assumes "i < 32" shows "bit (bit_reverse t) i = bit t (31 - i)"
  using less_32_cases[OF assms] unfolding insert_iff empty_iff
  by (elim disjE; simp add: bit_reverse_def Let_def bit_and_iff bit_or_iff bit_drop_bit_eq bit_push_bit_iff bit_numeral_rec mult.commute[of t 2] bit_double_iff)

lemma ROR_bits:
  assumes "unat b < 32" "i < 32" shows "bit (lib_ROR a b) i = bit a ((i + unat b) mod 32)"
proof (cases "unat b = 0")
  case True then show ?thesis using assms by (simp add: lib_ROR_def unat_eq_zero bit_simps)
next
  case False
  have "unat (32 - b) = 32 - unat b" using assms by (subst unat_sub_le) (simp_all add: word_le_nat_alt)
  then show ?thesis using assms False bit_imp_le_length[of a "unat b + i"]
    by (auto simp: lib_ROR_def bit_simps add.commute le_mod_geq mod_if)
qed

lemma ROR_rotr: "unat b < 32 \<Longrightarrow> lib_ROR a b = word_rotr (unat b) a"
  by (rule bit_word_eqI) (simp add: ROR_bits bit_word_rotr_iff add.commute)

lemma filter_upt_Nil: "filter P [0..<n] = [] \<longleftrightarrow> (\<forall>i<n. \<not> P i)" by (auto simp: filter_empty_conv)

lemma filter_upt_Cons:
  assumes "filter P [0..<n] = i # is"
  shows "i < n" "P i" "\<And>j. j < i \<Longrightarrow> \<not> P j"
proof -
  have "i \<in> set (filter P [0..<n])" using assms by simp
  then show "i < n" "P i" by simp_all
  fix j assume j: "j < i"
  show "\<not> P j"
  proof
    assume "P j"
    then have "j \<in> set (i # is)" using j \<open>i < n\<close> assms[symmetric] by simp
    moreover have "sorted (i # is)" using assms[symmetric] sorted_wrt_filter[of "(\<le>)" "[0..<n]" P] by simp
    ultimately show False using j by auto
  qed
qed

lemma ffs_spec:
  "ffs 0 = 0" "a \<noteq> 0 \<Longrightarrow> \<exists>i<32. ffs a = of_nat (Suc i) \<and> bit a i \<and> (\<forall>j<i. \<not> bit a j)"
proof -
  show "ffs 0 = 0" by (simp add: ffs_def)
  assume "a \<noteq> 0"
  then obtain k where "bit a k" by (metis bit_0_eq bit_word_eqI bot_apply bot_bool_def)
  then have "k < 32" using bit_imp_le_length[of a k] by simp
  then have "filter (bit a) [0..<32] \<noteq> []" using \<open>bit a k\<close> by (auto simp: filter_empty_conv)
  then obtain i "is" where f: "filter (bit a) [0..<32] = i # is" by (cases "filter (bit a) [0..<32]") auto
  show "\<exists>i<32. ffs a = of_nat (Suc i) \<and> bit a i \<and> (\<forall>j<i. \<not> bit a j)"
    using filter_upt_Cons[OF f] f by (intro exI[of _ i]) (simp add: ffs_def)
qed


text \<open>The position of the lowest set bit, and of the highest.\<close>

lemma FF1_spec:
  "lib_FF1 0 = 32" "a \<noteq> 0 \<Longrightarrow> \<exists>i<32. lib_FF1 a = of_nat i \<and> bit a i \<and> (\<forall>j<i. \<not> bit a j)"
proof -
  show "lib_FF1 0 = 32" by (simp add: lib_FF1_def ffs_spec(1))
  assume "a \<noteq> 0"
  then obtain i where i: "i < 32" "ffs a = of_nat (Suc i)" "bit a i" "\<forall>j<i. \<not> bit a j" using ffs_spec(2) by blast
  have "unat (of_nat (Suc i) :: u32) = Suc i" using i(1) by (simp add: unat_of_nat del: of_nat_Suc)
  then have "ffs a \<noteq> 0" using i(2) by auto
  then have "lib_FF1 a = of_nat i" unfolding lib_FF1_def Let_def i(2) by auto
  then show "\<exists>i<32. lib_FF1 a = of_nat i \<and> bit a i \<and> (\<forall>j<i. \<not> bit a j)" using i by blast
qed

lemma bit_reverse_0: "bit_reverse t = 0 \<longleftrightarrow> t = 0"
proof
  assume z: "bit_reverse t = 0"
  show "t = 0"
  proof (rule bit_word_eqI)
    fix i assume i: "i < LENGTH(32)"
    then have "bit (bit_reverse t) (31 - i) = bit t i" using bit_reverse_bit[of "31 - i" t] by simp
    then show "bit t i = bit 0 i" using z by simp
  qed
qed (simp add: bit_reverse_def)

lemma FL1_spec:
  "lib_FL1 0 = 32" "t \<noteq> 0 \<Longrightarrow> \<exists>i<32. lib_FL1 t = of_nat i \<and> bit t i \<and> (\<forall>j>i. \<not> bit t j)"
proof -
  show "lib_FL1 0 = 32" by (simp add: lib_FL1_def ffs_spec(1) bit_reverse_0[THEN iffD2])
  assume "t \<noteq> 0"
  then have "bit_reverse t \<noteq> 0" by (simp add: bit_reverse_0)
  then obtain i where i: "i < 32" "ffs (bit_reverse t) = of_nat (Suc i)" "bit (bit_reverse t) i"
      "\<forall>j<i. \<not> bit (bit_reverse t) j" using ffs_spec(2) by blast
  have u: "unat (of_nat (Suc i) :: u32) = Suc i" using i(1) by (simp add: unat_of_nat del: of_nat_Suc)
  then have "ffs (bit_reverse t) \<noteq> 0" using i(2) by auto
  then have f: "lib_FL1 t = 32 - of_nat (Suc i)" by (simp add: lib_FL1_def Let_def i(2))
  have "(of_nat (31 - i) :: u32) = 32 - of_nat (Suc i)" using i(1) by (simp add: of_nat_diff)
  moreover have "bit t (31 - i)" using i(1,3) by (simp add: bit_reverse_bit)
  moreover have "\<not> bit t j" if "j > 31 - i" for j
  proof (cases "j < 32")
    case True
    then have "\<not> bit (bit_reverse t) (31 - j)" using i(1,4) that by auto
    then show ?thesis using True bit_reverse_bit[of "31 - j" t] by simp
  next
    case False then show ?thesis using bit_imp_le_length[of t j] by auto
  qed
  ultimately show "\<exists>i<32. lib_FL1 t = of_nat i \<and> bit t i \<and> (\<forall>j>i. \<not> bit t j)"
    using f by (intro exI[of _ "31 - i"]) auto
qed

section \<open>Lanes\<close>

lemma bit_unlanes:
  fixes xs :: "'e::len word list"
  assumes "length xs * LENGTH('e) \<le> 32" "i < length xs" "j < LENGTH('e)"
  shows "bit (unlanes xs) (i * LENGTH('e) + j) = bit (xs ! i) j"
  using assms
proof (induction xs arbitrary: i)
  case (Cons x xs)
  have lim: "i * LENGTH('e) + j < 32"
  proof -
    have "Suc i * LENGTH('e) \<le> length (x # xs) * LENGTH('e)" using Cons.prems(2) by (intro mult_le_mono1) simp
    also have "\<dots> \<le> 32" by (rule Cons.prems(1))
    finally show ?thesis using Cons.prems(3) by simp
  qed
  show ?case
  proof (cases i)
    case 0 then show ?thesis using Cons.prems lim by (auto simp: bit_simps)
  next
    case (Suc k)
    then have "bit (unlanes xs) (k * LENGTH('e) + j) = bit (xs ! k) j" using Cons by simp
    moreover have "\<not> bit (ucast x :: u32) (i * LENGTH('e) + j)"
      using Suc bit_imp_le_length[of x "i * LENGTH('e) + j"] by (auto simp: bit_simps)
    ultimately show ?thesis using Suc lim by (auto simp: bit_simps add.assoc)
  qed
qed simp

lemma lane_unlanes:
  fixes xs :: "'e::len word list"
  assumes "length xs * LENGTH('e) \<le> 32" "i < length xs"
  shows "lane i (unlanes xs) = xs ! i"
  by (rule bit_word_eqI) (use bit_unlanes[OF assms] in \<open>simp add: lane_def bit_simps add.commute\<close>)

lemma lane_VEC:
  fixes f :: "'e::len word \<Rightarrow> 'e word \<Rightarrow> 'e word"
  assumes "n * LENGTH('e) \<le> 32" "i < n"
  shows "lane i (lib_VEC n f a b) = f (lane i a) (lane i b)"
  unfolding lib_VEC_def using assms by (subst lane_unlanes) simp_all

lemma lane_VEC_SC:
  fixes f :: "'e::len word \<Rightarrow> 'e word \<Rightarrow> 'e word"
  assumes "n * LENGTH('e) \<le> 32" "i < n"
  shows "lane i (lib_VEC_SC n f a b) = f (lane i a) b"
  unfolding lib_VEC_SC_def using assms by (subst lane_unlanes) simp_all

lemma ALL_flag: "snd (lib_VEC_ALL n p a b) \<longleftrightarrow> (\<forall>i<n. p (lane i a) (lane i b))"
proof -
  have "foldl (\<lambda>f i. if p (lane i a) (lane i b) then f else False) x is = (x \<and> (\<forall>i\<in>set is. p (lane i a) (lane i b)))" for x "is"
    by (induction "is" arbitrary: x) auto
  then show ?thesis by (auto simp: lib_VEC_ALL_def)
qed

lemma ANY_flag: "snd (lib_VEC_ANY n p a b) \<longleftrightarrow> (\<exists>i<n. p (lane i a) (lane i b))"
proof -
  have "foldl (\<lambda>f i. if p (lane i a) (lane i b) then True else f) x is = (x \<or> (\<exists>i\<in>set is. p (lane i a) (lane i b)))" for x "is"
    by (induction "is" arbitrary: x) auto
  then show ?thesis by (auto simp: lib_VEC_ANY_def)
qed

section \<open>Fields\<close>

lemma BINSERT_BEXTRACTU:
  assumes "unat sh < 32"
  shows "lib_BEXTRACTU (lib_BINSERT a b (push_bit (unat sh) (mask k)) sh) (push_bit (unat sh) (mask k)) sh
      = a AND mask (min k (32 - unat sh))"
    and "lib_BINSERT a b m sh AND NOT m = b AND NOT m"
  by (rule bit_word_eqI, use assms in \<open>auto simp: lib_BEXTRACTU_def lib_BINSERT_def bit_simps\<close>)+

lemma get_signed_value_sint:
  assumes "0 < bits" "bits \<le> 32"
  shows "get_signed_value val bits = word_of_int (signed_take_bit (bits - 1) (uint val))"
proof (rule bit_word_eqI)
  fix n assume n: "n < LENGTH(32)"
  show "bit (get_signed_value val bits) n = bit (word_of_int (signed_take_bit (bits - 1) (uint val)) :: u32) n"
  proof (cases "n < bits")
    case True
    then have "min (bits - 1) n = n" using assms by simp
    then show ?thesis using True n assms by (auto simp: get_signed_value_def bit_simps)
  next
    case False
    then have "min (bits - 1) n = bits - 1" by simp
    then show ?thesis using False n assms by (auto simp: get_signed_value_def bit_simps)
  qed
qed

lemma BEXTRACT_spec:
  assumes "0 < unat bits" "unat sh + unat bits \<le> 32"
  shows "lib_BEXTRACT val bits sh = word_of_int (signed_take_bit (unat bits - 1) (uint (drop_bit (unat sh) val)))"
proof -
  have "unat (sh + bits) = unat sh + unat bits" using assms(2) by (intro unat_add_no_wrap) simp
  then have "\<not> sh + bits > 32" using assms(2) by (simp add: word_less_nat_alt)
  then have "lib_BEXTRACT val bits sh = get_signed_value (getField val (unat sh) (unat bits)) (unat bits)"
    by (simp add: lib_BEXTRACT_def getSignedField_def)
  also have "\<dots> = word_of_int (signed_take_bit (unat bits - 1) (uint (getField val (unat sh) (unat bits))))"
    using assms by (intro get_signed_value_sint) simp_all
  also have "\<dots> = word_of_int (signed_take_bit (unat bits - 1) (uint (drop_bit (unat sh) val)))"
    by (rule bit_word_eqI) (use assms in \<open>auto simp: getField_def bit_simps min_def\<close>)
  finally show ?thesis .
qed

section \<open>Properties\<close>

text \<open>Find-last-one, computed by reversing the word in five masked steps and looking for the first
  one, gives the position of the highest set bit, find-first-one that of the lowest, and both give
  32 for a zero word.\<close>

theorem lib_FF1_FL1_spec:
  "lib_FF1 0 = 32 \<and> lib_FL1 0 = 32 \<and>
   (a \<noteq> 0 \<longrightarrow> (\<exists>i<32. lib_FF1 a = of_nat i \<and> bit a i \<and> (\<forall>j<i. \<not> bit a j)) \<and>
               (\<exists>i<32. lib_FL1 a = of_nat i \<and> bit a i \<and> (\<forall>j>i. \<not> bit a j)))"
  using FF1_spec FL1_spec by simp

theorem lib_FF1_FL1_spec_witness:
  "(\<exists>i<32. lib_FL1 0x60 = of_nat i \<and> bit (0x60 :: u32) i \<and> (\<forall>j>i. \<not> bit (0x60 :: u32) j))"
  using lib_FF1_FL1_spec[of "0x60"] by simp

text \<open>The packed-vector operations work lane by lane: element \<open>i\<close> of the result depends on
  element \<open>i\<close> of the operands only, with no carry across elements, and the flags of the \<open>ALL\<close> and
  \<open>ANY\<close> comparisons are the conjunction and the disjunction over the elements.\<close>

theorem lib_VEC_lanes:
  fixes f :: "'e::len word \<Rightarrow> 'e word \<Rightarrow> 'e word" and p :: "'e word \<Rightarrow> 'e word \<Rightarrow> bool"
  assumes "n * LENGTH('e) \<le> 32" "i < n"
  shows "lane i (lib_VEC n f a b) = f (lane i a) (lane i b) \<and> lane i (lib_VEC_SC n f a x) = f (lane i a) x \<and>
    lane i (lib_VEC_OP_DIV k n f a b) = signed_drop_bit k (f (lane i a) (lane i b)) \<and>
    lane i (lib_VEC_CMP n p a b) = (if p (lane i a) (lane i b) then -1 else 0 :: 'e word) \<and>
    snd (lib_VEC_ALL n p a b) = (\<forall>i<n. p (lane i a) (lane i b)) \<and>
    snd (lib_VEC_ANY n p a b) = (\<exists>i<n. p (lane i a) (lane i b))"
  using lane_VEC[OF assms] lane_VEC_SC[OF assms]
  by (simp add: lib_VEC_OP_DIV_def lib_VEC_CMP_def ALL_flag ANY_flag)

theorem lib_VEC_lanes_witness:
  "lane 1 (lib_VEC 4 ((+) :: u8 \<Rightarrow> u8 \<Rightarrow> u8) 0x01ff02ff 0x01010101) = (0x03 :: u8)"
proof -
  have "lane 1 (lib_VEC 4 ((+) :: u8 \<Rightarrow> u8 \<Rightarrow> u8) 0x01ff02ff 0x01010101) = lane 1 (0x01ff02ff :: u32) + (lane 1 (0x01010101 :: u32) :: u8)"
    by (rule lib_VEC_lanes[THEN conjunct1]) simp_all
  then show ?thesis by (simp add: lane_def)
qed

text \<open>Bit-field insertion and extraction are inverse: extracting the field that was inserted gives
  the inserted bits back, as many as fit above the shift, and insertion keeps every bit outside of
  the mask.\<close>

theorem lib_BINSERT_roundtrip:
  assumes "unat sh < 32"
  shows "lib_BEXTRACTU (lib_BINSERT a b (push_bit (unat sh) (mask k)) sh) (push_bit (unat sh) (mask k)) sh
      = a AND mask (min k (32 - unat sh)) \<and> lib_BINSERT a b m sh AND NOT m = b AND NOT m"
  using BINSERT_BEXTRACTU[OF assms] by blast

theorem lib_BINSERT_roundtrip_witness:
  "lib_BINSERT 0x5 0xffffffff 0xf0 4 AND NOT 0xf0 = 0xffffff0f"
  using lib_BINSERT_roundtrip[of 4 "0x5" "0xffffffff" 4 "0xf0"] by simp

text \<open>The two unsigned halfword products with rounding add half a unit in 32 bits, where the
  multiply-accumulate ones and the signed products add it in 64 bits: the sum can wrap, and then
  the rounded product is not the rounded multiply-accumulate of a zero accumulator.\<close>

lemma lib_MUL_rounding_wraps:
  "lib_MUL_half_NR_R ZL 0xffff 0xffff 31 = 0" "lib_MAC_half_NR_R ZL 0 0xffff 0xffff 31 = 2"
  by (simp_all add: lib_MUL_half_NR_R_def lib_MAC_half_NR_R_def lib_MUL_half_def lib_MAC_half_def
      round_u32_def round_u_def)

end
