(* ===== verification/IssCore.thy ===== *)
theory IssCore imports IsaLib begin

text \<open>
  The state of the instruction-set simulator under \<open>src/models/cpu/iss\<close> that the 32-bit integer
  instructions use, and the parts that own it: the register file with its validity bits
  (\<open>include/regfile.hpp\<close>, \<open>include/regfile_implem.hpp\<close>) and the timing model
  (\<open>include/timing_implem.hpp\<close>). The configuration is a timed 32-bit in-order core with
  \<open>VP_MEMCHECK_ACTIVE\<close>, without scoreboard, floating-point registers, pipeline threshold or GDB
  server. Energy accounting and the event traces are left out.
\<close>

section \<open>Decoded instructions\<close>

record iss_insn =
  out_regs :: "nat list"
  in_regs :: "nat list"
  uim :: "u32 list"
  sim :: "u32 list"
  insn_size :: u32

abbreviation REG_IN :: "iss_insn \<Rightarrow> nat \<Rightarrow> nat" where "REG_IN insn i \<equiv> in_regs insn ! i"
abbreviation REG_OUT :: "iss_insn \<Rightarrow> nat \<Rightarrow> nat" where "REG_OUT insn i \<equiv> out_regs insn ! i"
abbreviation UIM_GET :: "iss_insn \<Rightarrow> nat \<Rightarrow> u32" where "UIM_GET insn i \<equiv> uim insn ! i"
abbreviation SIM_GET :: "iss_insn \<Rightarrow> nat \<Rightarrow> u32" where "SIM_GET insn i \<equiv> sim insn ! i"

definition iss_insn_next :: "iss_insn \<Rightarrow> u32 \<Rightarrow> u32" where
  "iss_insn_next insn pc = pc + insn_size insn"

section \<open>The register file\<close>

text \<open>\<open>regs_memcheck\<close> has a bit per register bit, set when that bit was initialised. Register 32, the
  last of the array, takes the writes to \<open>x0\<close>.\<close>

record regfile =
  regs :: "nat \<Rightarrow> u32"
  regs_memcheck :: "nat \<Rightarrow> u32"
  memcheck_enabled :: bool
  memcheck_reg_fault :: bool
  memcheck_reg_fault_message :: string

definition set_reg :: "nat \<Rightarrow> u32 \<Rightarrow> regfile \<Rightarrow> regfile" where
  "set_reg reg v rf = rf\<lparr>regs := (regs rf)(reg := v)\<rparr>"

definition get_reg :: "nat \<Rightarrow> regfile \<Rightarrow> u32" where "get_reg reg rf = regs rf reg"
definition get_reg_untimed :: "nat \<Rightarrow> regfile \<Rightarrow> u32" where "get_reg_untimed reg rf = regs rf reg"

definition get_reg64_untimed :: "nat \<Rightarrow> regfile \<Rightarrow> u64" where
  "get_reg64_untimed reg rf =
     (if reg = 0 then 0 else push_bit 32 (ucast (regs rf (reg + 1))) + ucast (regs rf reg))"

definition get_memcheck_reg64 :: "nat \<Rightarrow> regfile \<Rightarrow> u64" where
  "get_memcheck_reg64 reg rf =
     (if reg = 0 then 0 else push_bit 32 (ucast (regs_memcheck rf (reg + 1))) + ucast (regs_memcheck rf reg))"

definition get_reg64 :: "nat \<Rightarrow> regfile \<Rightarrow> u64" where "get_reg64 reg rf = get_reg64_untimed reg rf"

definition set_reg64 :: "nat \<Rightarrow> u64 \<Rightarrow> regfile \<Rightarrow> regfile" where
  "set_reg64 reg v rf =
     (if reg \<noteq> 0
      then rf\<lparr>regs := (regs rf)(reg := ucast (v AND 0xFFFFFFFF), reg + 1 := ucast (drop_bit 32 v))\<rparr>
      else rf)"

definition memcheck_reg :: "nat \<Rightarrow> regfile \<Rightarrow> bool" where
  "memcheck_reg reg rf = (if regs_memcheck rf reg \<noteq> -1 then memcheck_enabled rf else False)"

definition memcheck_branch_reg :: "nat \<Rightarrow> regfile \<Rightarrow> regfile" where
  "memcheck_branch_reg reg rf =
     (if memcheck_reg reg rf
      then rf\<lparr>memcheck_reg_fault := True,
              memcheck_reg_fault_message := ''Conditional jump depends on uninitialised register''\<rparr> else rf)"

definition memcheck_access_reg :: "nat \<Rightarrow> regfile \<Rightarrow> regfile" where
  "memcheck_access_reg reg rf =
     (if memcheck_reg reg rf
      then rf\<lparr>memcheck_reg_fault := True,
              memcheck_reg_fault_message := ''Access address depends on uninitialised register''\<rparr> else rf)"

definition memcheck_get :: "nat \<Rightarrow> regfile \<Rightarrow> u32" where "memcheck_get reg rf = regs_memcheck rf reg"

definition memcheck_set :: "nat \<Rightarrow> u32 \<Rightarrow> regfile \<Rightarrow> regfile" where
  "memcheck_set reg v rf = rf\<lparr>regs_memcheck := (regs_memcheck rf)(reg := v)\<rparr>"

definition memcheck_get_valid :: "nat \<Rightarrow> regfile \<Rightarrow> bool" where
  "memcheck_get_valid reg rf = (memcheck_get reg rf = -1)"

definition memcheck_set_valid :: "nat \<Rightarrow> bool \<Rightarrow> regfile \<Rightarrow> regfile" where
  "memcheck_set_valid reg valid rf =
     rf\<lparr>regs_memcheck := (regs_memcheck rf)(reg := (if valid then -1 else 0))\<rparr>"

definition memcheck_merge :: "nat \<Rightarrow> nat \<Rightarrow> regfile \<Rightarrow> regfile" where
  "memcheck_merge out_reg in_reg rf = memcheck_set_valid out_reg (memcheck_get_valid in_reg rf) rf"

definition memcheck_merge64 :: "nat \<Rightarrow> nat \<Rightarrow> regfile \<Rightarrow> regfile" where
  "memcheck_merge64 out_reg in_reg rf =
     (let valid = (memcheck_get_valid in_reg rf \<and> memcheck_get_valid (in_reg + 1) rf)
      in memcheck_set_valid (out_reg + 1) valid (memcheck_set_valid out_reg valid rf))"

definition memcheck_copy :: "nat \<Rightarrow> nat \<Rightarrow> regfile \<Rightarrow> regfile" where
  "memcheck_copy out_reg in_reg rf = memcheck_set out_reg (memcheck_get in_reg rf) rf"

definition memcheck_bitwise_and :: "nat \<Rightarrow> nat \<Rightarrow> nat \<Rightarrow> regfile \<Rightarrow> regfile" where
  "memcheck_bitwise_and out_reg in_reg_0 in_reg_1 rf =
     memcheck_set out_reg (memcheck_get in_reg_0 rf AND memcheck_get in_reg_1 rf) rf"

text \<open>The shifts of the validity bits. The count is below 32; \<open>0 << 32\<close>, which \<open>memcheck_shift_right\<close>
  computes for a count of 0, is 0.\<close>

definition memcheck_shift_left :: "nat \<Rightarrow> nat \<Rightarrow> nat \<Rightarrow> regfile \<Rightarrow> regfile" where
  "memcheck_shift_left out_reg in_reg sh rf =
     memcheck_set out_reg (push_bit sh (memcheck_get in_reg rf) OR (push_bit sh 1 - 1)) rf"

definition memcheck_shift_right :: "nat \<Rightarrow> nat \<Rightarrow> nat \<Rightarrow> regfile \<Rightarrow> regfile" where
  "memcheck_shift_right out_reg in_reg sh rf =
     memcheck_set out_reg (drop_bit sh (memcheck_get in_reg rf) OR push_bit (32 - sh) (push_bit sh 1 - 1)) rf"

definition memcheck_shift_right_signed :: "nat \<Rightarrow> nat \<Rightarrow> nat \<Rightarrow> regfile \<Rightarrow> regfile" where
  "memcheck_shift_right_signed out_reg in_reg sh rf =
     (let v = memcheck_get in_reg rf; nv = drop_bit sh v
      in memcheck_set out_reg
           (if drop_bit 31 v AND 1 \<noteq> 0 then nv OR push_bit (32 - sh) (push_bit sh 1 - 1) else nv) rf)"

section \<open>Timing\<close>

text \<open>The performance counters: \<open>pccr\<close> counts event \<open>i\<close> when the counters are active and bit \<open>i\<close> of
  \<open>pcer\<close> is set.\<close>

definition CSR_PCER_CYCLES :: nat where "CSR_PCER_CYCLES = 0"
definition CSR_PCER_LD_STALL :: nat where "CSR_PCER_LD_STALL = 2"
definition CSR_PCER_LD :: nat where "CSR_PCER_LD = 5"
definition CSR_PCER_ST :: nat where "CSR_PCER_ST = 6"
definition CSR_PCER_JUMP :: nat where "CSR_PCER_JUMP = 7"
definition CSR_PCER_BRANCH :: nat where "CSR_PCER_BRANCH = 8"
definition CSR_PCER_TAKEN_BRANCH :: nat where "CSR_PCER_TAKEN_BRANCH = 9"

record timing =
  stall_cycles :: int
  pcmr :: u32
  pcer :: u32
  pccr :: "nat \<Rightarrow> u32"

definition stall_cycles_account :: "int \<Rightarrow> timing \<Rightarrow> timing" where
  "stall_cycles_account cycles t = t\<lparr>stall_cycles := stall_cycles t + cycles\<rparr>"

definition event_account :: "nat \<Rightarrow> int \<Rightarrow> timing \<Rightarrow> timing" where
  "event_account event incr t =
     (if bit (pcmr t) 0 \<and> bit (pcer t) event
      then t\<lparr>pccr := (pccr t)(event := pccr t event + word_of_int incr)\<rparr> else t)"

definition event_load_account :: "int \<Rightarrow> timing \<Rightarrow> timing" where
  "event_load_account incr = event_account CSR_PCER_LD incr"
definition event_store_account :: "int \<Rightarrow> timing \<Rightarrow> timing" where
  "event_store_account incr = event_account CSR_PCER_ST incr"
definition event_branch_account :: "timing \<Rightarrow> timing" where
  "event_branch_account = event_account CSR_PCER_BRANCH 1"
definition event_taken_branch_account :: "int \<Rightarrow> timing \<Rightarrow> timing" where
  "event_taken_branch_account incr = event_account CSR_PCER_TAKEN_BRANCH incr"
definition event_jump_account :: "int \<Rightarrow> timing \<Rightarrow> timing" where
  "event_jump_account incr = event_account CSR_PCER_JUMP incr"

definition stall_taken_branch_account :: "timing \<Rightarrow> timing" where
  "stall_taken_branch_account t =
     event_taken_branch_account 1 (event_branch_account (stall_cycles_account 2 t))"

definition stall_insn_dependency_account :: "int \<Rightarrow> timing \<Rightarrow> timing" where
  "stall_insn_dependency_account latency = stall_cycles_account (latency - 1)"

definition stall_jump_account :: "timing \<Rightarrow> timing" where
  "stall_jump_account t = event_jump_account 1 (stall_cycles_account 1 t)"

definition insn_stall_account :: "timing \<Rightarrow> timing" where
  "insn_stall_account t =
     (if stall_cycles t \<ge> 0 then event_account CSR_PCER_CYCLES (stall_cycles t) t else t)"

section \<open>The core\<close>

text \<open>\<open>exception_pc\<close> is where the core continues when \<open>has_exception\<close> is set; \<open>stalled\<close> counts the
  reasons why the core does not execute; \<open>full_mode\<close> tells that the instruction event runs
  \<open>exec_instr_check_all\<close>, which takes exceptions and interrupts, and not the fast handler. The
  caches are outside: \<open>icache_flushes\<close> counts the flushes of the instruction cache.\<close>

record lsu_pending =
  lp_signed :: bool
  lp_store :: bool
  lp_reg :: nat
  lp_size :: nat

record iss =
  iss_regfile :: regfile
  iss_timing :: timing
  mstatus :: u32
  mie :: u32
  mip :: u32
  mideleg :: u32
  medeleg :: u32
  mepc :: u32
  mcause :: u32
  mtvec :: u32
  sepc :: u32
  scause :: u32
  stvec :: u32
  stval :: u32
  csr_regs :: "u32 \<Rightarrow> u32"
  depc :: u32
  core_mode :: nat
  irq_enable :: bool
  debug_saved_irq_enable :: bool
  req_debug :: bool
  debug_handler :: u32
  debug_mode :: bool
  current_insn :: u32
  has_exception :: bool
  exception_pc :: u32
  irq_locked :: int
  wfi :: bool
  wfi_start :: int
  stalled :: int
  busy :: bool
  full_mode :: bool
  insn_on_hold :: bool
  pending_flush :: bool
  skip_irq_check :: bool
  bootaddr :: u32
  cache_sync :: bool
  icache_flushes :: nat
  lsu_stall :: "lsu_pending option"

definition on_rf :: "(regfile \<Rightarrow> regfile) \<Rightarrow> iss \<Rightarrow> iss" where
  "on_rf f s = s\<lparr>iss_regfile := f (iss_regfile s)\<rparr>"

definition on_tm :: "(timing \<Rightarrow> timing) \<Rightarrow> iss \<Rightarrow> iss" where
  "on_tm f s = s\<lparr>iss_timing := f (iss_timing s)\<rparr>"

abbreviation REG_GET :: "iss_insn \<Rightarrow> nat \<Rightarrow> iss \<Rightarrow> u32" where
  "REG_GET insn i s \<equiv> get_reg (REG_IN insn i) (iss_regfile s)"
abbreviation REG_SET :: "iss_insn \<Rightarrow> nat \<Rightarrow> u32 \<Rightarrow> iss \<Rightarrow> iss" where
  "REG_SET insn i v \<equiv> on_rf (set_reg (REG_OUT insn i) v)"

type_synonym exec = "iss_insn \<Rightarrow> u32 \<Rightarrow> iss \<Rightarrow> u32 \<times> iss"

text \<open>A core out of reset, in machine mode with interrupts off, for the examples.\<close>

definition demo_regfile :: regfile where
  "demo_regfile = \<lparr>regs = (\<lambda>_. 0), regs_memcheck = (\<lambda>_. -1), memcheck_enabled = True, memcheck_reg_fault = False,
     memcheck_reg_fault_message = []\<rparr>"

definition demo_timing :: timing where
  "demo_timing = \<lparr>stall_cycles = 0, pcmr = 0, pcer = 3, pccr = (\<lambda>_. 0)\<rparr>"

definition demo_iss :: iss where
  "demo_iss = \<lparr>iss_regfile = demo_regfile, iss_timing = demo_timing, mstatus = 0x6000, mie = 0, mip = 0, mideleg = 0,
     medeleg = 0, mepc = 0, mcause = 0, mtvec = 0x80, sepc = 0, scause = 0, stvec = 0x40, stval = 0, csr_regs = (\<lambda>_. 0),
     depc = 0, core_mode = 3, irq_enable = False, debug_saved_irq_enable = False, req_debug = False,
     debug_handler = 0x10, debug_mode = False, current_insn = 0x100, has_exception = False, exception_pc = 0,
     irq_locked = 0, wfi = False, wfi_start = 0, stalled = 0, busy = True, full_mode = True, insn_on_hold = False,
     pending_flush = False, skip_irq_check = False, bootaddr = 0, cache_sync = False, icache_flushes = 0, lsu_stall = None\<rparr>"

end
