(* ===== verification/IssTrap.thy ===== *)
theory IssTrap imports IssCore begin

text \<open>
  Traps of the core: exceptions (\<open>src/exception.cpp\<close>), the return from them and the accesses to
  \<open>mstatus\<close> (\<open>src/core.cpp\<close>), the interrupt lines, the interrupt registers and the arbitration of
  interrupts (\<open>src/irq/irq_riscv.cpp\<close>), and the generic access to the control registers of these parts
  (\<open>src/csr.cpp\<close>), under \<open>src/models/cpu/iss\<close>, for a 32-bit core with \<open>CONFIG_GVSOC_ISS_RISCV_EXCEPTIONS\<close>
  and \<open>CONFIG_GVSOC_ISS_USER_MODE\<close>. The number of the current clock cycle is the argument \<open>now\<close>.
\<close>

section \<open>The fields of mstatus\<close>

definition PRIV_U :: nat where "PRIV_U = 0"
definition PRIV_S :: nat where "PRIV_S = 1"
definition PRIV_M :: nat where "PRIV_M = 3"

abbreviation MS_SIE :: nat where "MS_SIE \<equiv> 1"
abbreviation MS_MIE :: nat where "MS_MIE \<equiv> 3"
abbreviation MS_SPIE :: nat where "MS_SPIE \<equiv> 5"
abbreviation MS_MPIE :: nat where "MS_MPIE \<equiv> 7"
abbreviation MS_SPP :: nat where "MS_SPP \<equiv> 8"
abbreviation MS_TVM :: nat where "MS_TVM \<equiv> 20"
abbreviation MS_TSR :: nat where "MS_TSR \<equiv> 22"

definition put_bit :: "nat \<Rightarrow> bool \<Rightarrow> u32 \<Rightarrow> u32" where
  "put_bit n b w = (if b then w OR push_bit n 1 else w AND NOT (push_bit n 1))"

definition get_mpp :: "u32 \<Rightarrow> nat" where "get_mpp w = of_bool (bit w 11) + 2 * of_bool (bit w 12)"
definition put_mpp :: "nat \<Rightarrow> u32 \<Rightarrow> u32" where
  "put_mpp m w = put_bit 11 (odd m) (put_bit 12 (odd (m div 2)) w)"

lemma bit_put_bit [simp]: "n < 32 \<Longrightarrow> bit (put_bit n b w) k = (if k = n then b else bit w k)"
  by (auto simp: put_bit_def bit_simps dest: bit_imp_le_length)

lemma bit_put_mpp [simp]:
  "bit (put_mpp m w) k = (if k = 11 then odd m else if k = 12 then odd (m div 2) else bit w k)"
  by (simp add: put_mpp_def)

lemma get_mpp_put_mpp [simp]: "m < 4 \<Longrightarrow> get_mpp (put_mpp m w) = m"
  unfolding get_mpp_def by (simp add: get_mpp_def) presburger

lemma get_mpp_put_bit [simp]: "n < 32 \<Longrightarrow> n \<noteq> 11 \<Longrightarrow> n \<noteq> 12 \<Longrightarrow> get_mpp (put_bit n b w) = get_mpp w"
  by (simp add: get_mpp_def)

section \<open>Exceptions and the return from them\<close>

definition switch_to_full_mode :: "iss \<Rightarrow> iss" where
  "switch_to_full_mode s = (if \<not> insn_on_hold s then s\<lparr>full_mode := True\<rparr> else s)"

definition mode_set :: "nat \<Rightarrow> iss \<Rightarrow> iss" where "mode_set mode s = s\<lparr>core_mode := mode\<rparr>"

definition irq_global_enable :: "bool \<Rightarrow> iss \<Rightarrow> iss" where
  "irq_global_enable enable s = switch_to_full_mode (s\<lparr>irq_enable := enable\<rparr>)"

definition ISS_EXCEPT_DEBUG :: nat where "ISS_EXCEPT_DEBUG = 0"
definition ISS_EXCEPT_ILLEGAL :: nat where "ISS_EXCEPT_ILLEGAL = 2"
definition ISS_EXCEPT_BREAKPOINT :: nat where "ISS_EXCEPT_BREAKPOINT = 3"
definition ISS_EXCEPT_LOAD_FAULT :: nat where "ISS_EXCEPT_LOAD_FAULT = 5"
definition ISS_EXCEPT_STORE_FAULT :: nat where "ISS_EXCEPT_STORE_FAULT = 7"
definition ISS_EXCEPT_ENV_CALL_U_MODE :: nat where "ISS_EXCEPT_ENV_CALL_U_MODE = 8"

definition raise :: "u32 \<Rightarrow> nat \<Rightarrow> iss \<Rightarrow> iss" where
  "raise pc cause s0 =
     (let s = switch_to_full_mode s0;
          (pc', s1) =
            (if cause = ISS_EXCEPT_DEBUG then
               (debug_handler s, s\<lparr>depc := pc, debug_saved_irq_enable := irq_enable s, irq_enable := False\<rparr>)
             else
               (let next_mode = (if bit (medeleg s) cause then PRIV_S else PRIV_M);
                    sa = (if next_mode = PRIV_M
                          then s\<lparr>mepc := pc,
                                 mstatus := put_mpp (core_mode s)
                                   (put_bit MS_MPIE (irq_enable s) (put_bit MS_MIE False (mstatus s)))\<rparr>
                          else s\<lparr>sepc := pc,
                                 mstatus := put_bit MS_SPP (odd (core_mode s))
                                   (put_bit MS_SPIE (irq_enable s) (put_bit MS_SIE False (mstatus s)))\<rparr>);
                    sb = (mode_set next_mode sa)\<lparr>irq_enable := False\<rparr>
                in if next_mode = PRIV_M then (mtvec sb, sb\<lparr>mcause := of_nat cause\<rparr>)
                   else (stvec sb, sb\<lparr>scause := of_nat cause\<rparr>)))
      in s1\<lparr>has_exception := True, exception_pc := pc'\<rparr>)"

definition mret_handle :: "iss \<Rightarrow> u32 \<times> iss" where
  "mret_handle s0 =
     (let s = switch_to_full_mode s0;
          sa = mode_set (get_mpp (mstatus s)) s;
          sb = sa\<lparr>mstatus := put_mpp PRIV_U (mstatus sa)\<rparr>;
          sc = sb\<lparr>irq_enable := bit (mstatus sb) MS_MPIE\<rparr>;
          sd = sc\<lparr>mstatus := put_bit MS_MPIE True (put_bit MS_MIE (bit (mstatus sc) MS_MPIE) (mstatus sc)), mcause := 0\<rparr>
      in (mepc sd, sd))"

text \<open>\<open>sret_handle\<close>, as \<open>dret_handle\<close> below, gives the next instruction. It raises from the current
  instruction of the core and then gives 0.\<close>

definition sret_handle :: "iss \<Rightarrow> u32 \<times> iss" where
  "sret_handle s0 =
     (if core_mode s0 = PRIV_S \<and> bit (mstatus s0) MS_TSR
      then (0, raise (current_insn s0) ISS_EXCEPT_ILLEGAL s0)
      else
       (let s = switch_to_full_mode s0;
            sa = mode_set (of_bool (bit (mstatus s) MS_SPP)) s;
            sb = sa\<lparr>mstatus := put_bit MS_SPP False (mstatus sa)\<rparr>;
            sc = sb\<lparr>irq_enable := bit (mstatus sb) MS_SPIE\<rparr>;
            sd = sc\<lparr>mstatus := put_bit MS_SPIE True (put_bit MS_SIE (bit (mstatus sc) MS_SPIE) (mstatus sc)), scause := 0\<rparr>
        in (sepc sd, sd)))"

definition dret_handle :: "iss \<Rightarrow> u32 \<times> iss" where
  "dret_handle s0 =
     (let s = (switch_to_full_mode s0)\<lparr>irq_enable := debug_saved_irq_enable s0, debug_mode := False\<rparr> in (depc s, s))"

text \<open>The write masks of \<open>mstatus\<close> and \<open>sstatus\<close>, as \<open>Core::build\<close> computes them.\<close>

definition mstatus_write_mask :: u32 where
  "mstatus_write_mask = 0x807FFFEA AND NOT (push_bit 9 3) AND NOT (push_bit 15 3)"
definition sstatus_write_mask :: u32 where
  "sstatus_write_mask = mstatus_write_mask AND 0x800DE762"

text \<open>The callbacks of the two registers give the value read (the value written when it is a write).\<close>

definition core_mstatus_update :: "bool \<Rightarrow> u32 \<Rightarrow> iss \<Rightarrow> u32 \<times> iss" where
  "core_mstatus_update is_write v s =
     (if is_write then
        (let sa = s\<lparr>mstatus := (mstatus s AND NOT mstatus_write_mask) OR (v AND mstatus_write_mask)\<rparr>;
             sb = on_tm (stall_insn_dependency_account 4) sa
         in (v, irq_global_enable (bit (mstatus sb) MS_MIE) sb))
      else (mstatus s, s))"

definition core_sstatus_update :: "bool \<Rightarrow> u32 \<Rightarrow> iss \<Rightarrow> u32 \<times> iss" where
  "core_sstatus_update is_write v s0 =
     (let s = on_tm (stall_insn_dependency_account 4) s0 in
      if is_write then
        (let sa = s\<lparr>mstatus := (mstatus s AND NOT sstatus_write_mask) OR (v AND sstatus_write_mask)\<rparr>
         in (v, if core_mode sa = PRIV_S then irq_global_enable (bit (mstatus sa) MS_SIE) sa else sa))
      else (mstatus s, s))"

section \<open>Interrupts\<close>

definition IRQ_M_SOFT :: nat where "IRQ_M_SOFT = 3"
definition IRQ_M_TIMER :: nat where "IRQ_M_TIMER = 7"
definition IRQ_S_EXT :: nat where "IRQ_S_EXT = 9"
definition IRQ_M_EXT :: nat where "IRQ_M_EXT = 11"

definition pending_interrupts :: "iss \<Rightarrow> u32" where "pending_interrupts s = mie s AND mip s"

definition stalled_dec :: "iss \<Rightarrow> iss" where
  "stalled_dec s = (if stalled s = 0 then s else s\<lparr>stalled := stalled s - 1\<rparr>)"

definition check_interrupts :: "int \<Rightarrow> iss \<Rightarrow> iss" where
  "check_interrupts now s0 =
     (if pending_interrupts s0 \<noteq> 0 \<and> irq_locked s0 = 0 then
        (let s = switch_to_full_mode s0 in
         if wfi s then
           (let slept = now - wfi_start s;
                sa = on_tm (\<lambda>t. t\<lparr>stall_cycles := (if stall_cycles t > slept then stall_cycles t - slept else 0)\<rparr>)
                       (s\<lparr>wfi := False\<rparr>)
            in on_tm insn_stall_account (stalled_dec (sa\<lparr>busy := True\<rparr>)))
         else s)
      else s0)"

definition irq_reset :: "bool \<Rightarrow> u32 \<Rightarrow> iss \<Rightarrow> iss" where
  "irq_reset active debug_handler_addr s =
     (if active then s\<lparr>irq_enable := False, req_debug := False, debug_handler := debug_handler_addr\<rparr> else s)"

definition irq_line_sync :: "nat \<Rightarrow> int \<Rightarrow> bool \<Rightarrow> iss \<Rightarrow> iss" where
  "irq_line_sync irq now v s =
     check_interrupts now (s\<lparr>mip := (mip s AND NOT (push_bit irq 1)) OR push_bit irq (of_bool v)\<rparr>)"

definition external_irq_sync :: "int \<Rightarrow> bool \<Rightarrow> nat \<Rightarrow> iss \<Rightarrow> iss" where
  "external_irq_sync now v irq = irq_line_sync irq now v"
definition msi_sync :: "int \<Rightarrow> bool \<Rightarrow> iss \<Rightarrow> iss" where "msi_sync = irq_line_sync IRQ_M_SOFT"
definition mti_sync :: "int \<Rightarrow> bool \<Rightarrow> iss \<Rightarrow> iss" where "mti_sync = irq_line_sync IRQ_M_TIMER"
definition mei_sync :: "int \<Rightarrow> bool \<Rightarrow> iss \<Rightarrow> iss" where "mei_sync = irq_line_sync IRQ_M_EXT"
definition sei_sync :: "int \<Rightarrow> bool \<Rightarrow> iss \<Rightarrow> iss" where "sei_sync = irq_line_sync IRQ_S_EXT"

definition mip_access :: "int \<Rightarrow> bool \<Rightarrow> u32 \<Rightarrow> iss \<Rightarrow> u32 \<times> iss" where
  "mip_access now is_write v s =
     (if is_write then (v, check_interrupts now (s\<lparr>mip := v AND 0xAAA\<rparr>)) else (mip s, check_interrupts now s))"

definition mie_access :: "int \<Rightarrow> bool \<Rightarrow> u32 \<Rightarrow> iss \<Rightarrow> u32 \<times> iss" where
  "mie_access now is_write v s =
     (if is_write then (v, check_interrupts now (s\<lparr>mie := v\<rparr>)) else (mie s, check_interrupts now s))"

definition sip_access :: "int \<Rightarrow> bool \<Rightarrow> u32 \<Rightarrow> iss \<Rightarrow> u32 \<times> iss" where
  "sip_access now is_write v s =
     (if is_write then (v, check_interrupts now (s\<lparr>mip := (mip s AND NOT 0x222) OR (v AND 0x222)\<rparr>))
      else (mip s AND 0x222, check_interrupts now s))"

definition sie_access :: "int \<Rightarrow> bool \<Rightarrow> u32 \<Rightarrow> iss \<Rightarrow> u32 \<times> iss" where
  "sie_access now is_write v s =
     (if is_write then (v, check_interrupts now (s\<lparr>mie := (mie s AND NOT 0x222) OR (v AND 0x222)\<rparr>))
      else (mie s AND 0x222, check_interrupts now s))"

definition mtvec_access :: "bool \<Rightarrow> u32 \<Rightarrow> iss \<Rightarrow> u32 \<times> iss" where
  "mtvec_access is_write v s = (if is_write then (v, s\<lparr>mtvec := v AND NOT 1\<rparr>) else (mtvec s, s))"
definition stvec_access :: "bool \<Rightarrow> u32 \<Rightarrow> iss \<Rightarrow> u32 \<times> iss" where
  "stvec_access is_write v s = (if is_write then (v, s\<lparr>stvec := v AND NOT 1\<rparr>) else (stvec s, s))"

definition wfi_handle :: "int \<Rightarrow> iss \<Rightarrow> iss" where
  "wfi_handle now s =
     (if pending_interrupts s = 0 then s\<lparr>wfi := True, wfi_start := now, busy := False, stalled := stalled s + 1\<rparr>
      else s)"

text \<open>The interrupt that is served among the enabled ones, and the whole arbitration: \<open>check\<close> gives
  whether the core was redirected.\<close>

definition irq_select :: "u32 \<Rightarrow> nat" where
  "irq_select enabled =
     (if bit enabled 11 then 11 else if bit enabled 3 then 3 else if bit enabled 7 then 7
      else if bit enabled 9 then 9 else if bit enabled 1 then 1 else if bit enabled 5 then 5
      else unat (ffs enabled) - 1)"

definition irq_enabled :: "iss \<Rightarrow> nat \<times> u32" where
  "irq_enabled s =
     (let pending = pending_interrupts s;
          enabled = pending AND NOT (mideleg s);
          m_irq_enabled = (core_mode s = PRIV_M \<and> bit (mstatus s) MS_MIE \<or> core_mode s < PRIV_M)
      in if enabled = 0 \<or> \<not> m_irq_enabled
         then (PRIV_S, if core_mode s = PRIV_S \<and> bit (mstatus s) MS_SIE \<or> core_mode s < PRIV_S
                       then pending AND mideleg s else 0)
         else (PRIV_M, enabled))"

definition irq_check :: "iss \<Rightarrow> bool \<times> iss" where
  "irq_check s =
     (if req_debug s \<and> \<not> debug_mode s then
        (True, s\<lparr>debug_mode := True, depc := current_insn s, debug_saved_irq_enable := irq_enable s,
                 irq_enable := False, req_debug := False, current_insn := debug_handler s\<rparr>)
      else if pending_interrupts s = 0 then (False, s)
      else
       (let (next_mode, enabled) = irq_enabled s in
        if enabled = 0 then (False, s)
        else
         (let irq = irq_select enabled;
              sa = s\<lparr>mepc := current_insn s, mstatus := put_bit MS_MIE False (put_bit MS_MPIE (irq_enable s) (mstatus s))\<rparr>;
              sb = (if next_mode = PRIV_M
                    then sa\<lparr>mepc := current_insn sa,
                            mstatus := put_mpp (core_mode sa)
                              (put_bit MS_MPIE (irq_enable sa) (put_bit MS_MIE False (mstatus sa))),
                            current_insn := mtvec sa, mcause := push_bit 31 1 OR of_nat irq\<rparr>
                    else sa\<lparr>sepc := current_insn sa,
                            mstatus := put_bit MS_SPP (odd (core_mode sa))
                              (put_bit MS_SPIE (irq_enable sa) (put_bit MS_SIE False (mstatus sa))),
                            current_insn := stvec sa, scause := push_bit 31 1 OR of_nat irq\<rparr>);
              sc = (mode_set next_mode sb)\<lparr>irq_enable := False\<rparr>
          in (True, on_tm (stall_insn_dependency_account 4) sc))))"

section \<open>Control registers\<close>

text \<open>The registers declared in \<open>Csr::Csr\<close> that have a part in the traps, and those that only hold a
  value. The counters, \<open>misa\<close>, the debug, vector and PMP registers are not modelled.\<close>

datatype csr = Sstatus | Sie | Stvec | Sepc | Scause | Stval | Sip | Mstatus | Medeleg | Mideleg | Mie | Mtvec
  | Mepc | Mcause | Mip | Plain u32

definition get_csr :: "u32 \<Rightarrow> csr option" where
  "get_csr a =
     (if a = 0x100 then Some Sstatus else if a = 0x104 then Some Sie else if a = 0x105 then Some Stvec
      else if a = 0x141 then Some Sepc else if a = 0x142 then Some Scause else if a = 0x143 then Some Stval
      else if a = 0x144 then Some Sip else if a = 0x300 then Some Mstatus else if a = 0x302 then Some Medeleg
      else if a = 0x303 then Some Mideleg else if a = 0x304 then Some Mie else if a = 0x305 then Some Mtvec
      else if a = 0x341 then Some Mepc else if a = 0x342 then Some Mcause else if a = 0x344 then Some Mip
      else if a \<in> {0x106, 0x140, 0x306, 0x340, 0x343} then Some (Plain a) else None)"

definition csr_masked :: "u32 \<Rightarrow> u32 \<Rightarrow> u32 \<Rightarrow> u32" where
  "csr_masked write_mask old v = (old AND NOT write_mask) OR (v AND write_mask)"

text \<open>The callbacks of the register, then the masked access when they ask for it.\<close>

fun csr_access :: "int \<Rightarrow> bool \<Rightarrow> csr \<Rightarrow> u32 \<Rightarrow> iss \<Rightarrow> u32 \<times> iss" where
  "csr_access now w Sstatus v s = core_sstatus_update w v s"
| "csr_access now w Mstatus v s = core_mstatus_update w v s"
| "csr_access now w Sie v s = sie_access now w v s"
| "csr_access now w Sip v s = sip_access now w v s"
| "csr_access now w Mie v s = mie_access now w v s"
| "csr_access now w Mip v s = mip_access now w v s"
| "csr_access now w Stvec v s = stvec_access w v s"
| "csr_access now w Mtvec v s = mtvec_access w v s"
| "csr_access now w Sepc v s = (if w then (v, s\<lparr>sepc := csr_masked (-1) (sepc s) v\<rparr>) else (sepc s, s))"
| "csr_access now w Scause v s = (if w then (v, s\<lparr>scause := csr_masked (-1) (scause s) v\<rparr>) else (scause s, s))"
| "csr_access now w Stval v s = (if w then (v, s\<lparr>stval := csr_masked (-1) (stval s) v\<rparr>) else (stval s, s))"
| "csr_access now w Medeleg v s = (if w then (v, s\<lparr>medeleg := csr_masked (-1) (medeleg s) v\<rparr>) else (medeleg s, s))"
| "csr_access now w Mideleg v s = (if w then (v, s\<lparr>mideleg := csr_masked (-1) (mideleg s) v\<rparr>) else (mideleg s, s))"
| "csr_access now w Mepc v s = (if w then (v, s\<lparr>mepc := csr_masked (NOT 1) (mepc s) v\<rparr>) else (mepc s, s))"
| "csr_access now w Mcause v s = (if w then (v, s\<lparr>mcause := csr_masked (-1) (mcause s) v\<rparr>) else (mcause s, s))"
| "csr_access now w (Plain a) v s =
     (if w then (v, s\<lparr>csr_regs := (csr_regs s)(a := csr_masked (-1) (csr_regs s a) v)\<rparr>) else (csr_regs s a, s))"

text \<open>\<open>check_access\<close> raises when it refuses; only \<open>mstatus\<close> has a check of its own.\<close>

definition csr_check_access :: "bool \<Rightarrow> bool \<Rightarrow> csr \<Rightarrow> iss \<Rightarrow> bool \<times> iss" where
  "csr_check_access wr rd c s =
     (if c = Mstatus \<and> rd \<and> core_mode s = PRIV_U then (False, raise (current_insn s) ISS_EXCEPT_ILLEGAL s)
      else (True, s))"

definition iss_csr_read :: "int \<Rightarrow> csr \<Rightarrow> iss \<Rightarrow> u32 \<times> iss" where
  "iss_csr_read now c s = csr_access now False c 0 s"

definition iss_csr_write :: "int \<Rightarrow> csr \<Rightarrow> u32 \<Rightarrow> iss \<Rightarrow> iss" where
  "iss_csr_write now c v s = snd (csr_access now True c v (switch_to_full_mode s))"

section \<open>Privileged instructions\<close>

text \<open>\<open>None\<close> when the register is not modelled. The part that the register instructions share: the
  check, the read, the update of the destination; \<open>upd\<close> gives what is written, if anything.\<close>

definition csr_handle ::
  "int \<Rightarrow> bool \<Rightarrow> (u32 \<Rightarrow> u32 option) \<Rightarrow> iss_insn \<Rightarrow> u32 \<Rightarrow> iss \<Rightarrow> (u32 \<times> iss) option" where
  "csr_handle now wr upd insn pc s =
     (case get_csr (UIM_GET insn 0) of None \<Rightarrow> None
      | Some c \<Rightarrow>
          let (ok, s1) = csr_check_access wr True c s
          in if \<not> ok then Some (pc, s1)
             else
              (let (value, s2) = iss_csr_read now c s1;
                   s3 = (if REG_OUT insn 0 \<noteq> 0
                         then REG_SET insn 0 value (on_rf (memcheck_set_valid (REG_OUT insn 0) True) s2) else s2);
                   s4 = (case upd value of None \<Rightarrow> s3 | Some v \<Rightarrow> iss_csr_write now c v s3)
               in Some (iss_insn_next insn pc, s4)))"

definition csrrw_exec :: "int \<Rightarrow> iss_insn \<Rightarrow> u32 \<Rightarrow> iss \<Rightarrow> (u32 \<times> iss) option" where
  "csrrw_exec now insn pc s = (let reg_value = REG_GET insn 0 s in csr_handle now True (\<lambda>value. Some reg_value) insn pc s)"

definition csrrc_exec :: "int \<Rightarrow> iss_insn \<Rightarrow> u32 \<Rightarrow> iss \<Rightarrow> (u32 \<times> iss) option" where
  "csrrc_exec now insn pc s =
     (let reg_value = REG_GET insn 0 s in csr_handle now True (\<lambda>value. Some (value AND NOT reg_value)) insn pc s)"

definition csrrs_exec :: "int \<Rightarrow> iss_insn \<Rightarrow> u32 \<Rightarrow> iss \<Rightarrow> (u32 \<times> iss) option" where
  "csrrs_exec now insn pc s =
     (let reg_value = REG_GET insn 0 s
      in csr_handle now (REG_IN insn 0 \<noteq> 0)
           (\<lambda>value. if REG_IN insn 0 \<noteq> 0 then Some (value OR reg_value) else None) insn pc s)"

definition csrrwi_exec :: "int \<Rightarrow> iss_insn \<Rightarrow> u32 \<Rightarrow> iss \<Rightarrow> (u32 \<times> iss) option" where
  "csrrwi_exec now insn pc s = csr_handle now True (\<lambda>value. Some (UIM_GET insn 1)) insn pc s"

definition csrrci_exec :: "int \<Rightarrow> iss_insn \<Rightarrow> u32 \<Rightarrow> iss \<Rightarrow> (u32 \<times> iss) option" where
  "csrrci_exec now insn pc s = csr_handle now True (\<lambda>value. Some (value AND NOT (UIM_GET insn 1))) insn pc s"

definition csrrsi_exec :: "int \<Rightarrow> iss_insn \<Rightarrow> u32 \<Rightarrow> iss \<Rightarrow> (u32 \<times> iss) option" where
  "csrrsi_exec now insn pc s = csr_handle now True (\<lambda>value. Some (value OR UIM_GET insn 1)) insn pc s"

definition wfi_exec :: "int \<Rightarrow> exec" where
  "wfi_exec now insn pc s = (iss_insn_next insn pc, wfi_handle now s)"

definition mret_exec :: exec where
  "mret_exec insn pc s = mret_handle (on_tm (stall_insn_dependency_account 5) s)"

definition sret_exec :: exec where
  "sret_exec insn pc s = sret_handle (on_tm (stall_insn_dependency_account 5) s)"

definition dret_exec :: exec where "dret_exec insn pc s = dret_handle s"

definition sfence_vma_exec :: exec where
  "sfence_vma_exec insn pc s =
     (if core_mode s = PRIV_S \<and> bit (mstatus s) MS_TVM then (pc, raise pc ISS_EXCEPT_ILLEGAL s)
      else (iss_insn_next insn pc, s))"

section \<open>What the operations do to the fields\<close>

lemma switch_to_full_mode_simps [simp]:
  "mstatus (switch_to_full_mode s) = mstatus s" "core_mode (switch_to_full_mode s) = core_mode s"
  "irq_enable (switch_to_full_mode s) = irq_enable s" "medeleg (switch_to_full_mode s) = medeleg s"
  "mtvec (switch_to_full_mode s) = mtvec s" "stvec (switch_to_full_mode s) = stvec s"
  "mepc (switch_to_full_mode s) = mepc s" "sepc (switch_to_full_mode s) = sepc s"
  "iss_regfile (switch_to_full_mode s) = iss_regfile s" "iss_timing (switch_to_full_mode s) = iss_timing s"
  "mie (switch_to_full_mode s) = mie s" "mip (switch_to_full_mode s) = mip s"
  "mideleg (switch_to_full_mode s) = mideleg s" "wfi (switch_to_full_mode s) = wfi s"
  "stalled (switch_to_full_mode s) = stalled s" "insn_on_hold (switch_to_full_mode s) = insn_on_hold s"
  "irq_locked (switch_to_full_mode s) = irq_locked s" "has_exception (switch_to_full_mode s) = has_exception s"
  "full_mode (switch_to_full_mode s) = (full_mode s \<or> \<not> insn_on_hold s)"
  "req_debug (switch_to_full_mode s) = req_debug s" "debug_mode (switch_to_full_mode s) = debug_mode s"
  "current_insn (switch_to_full_mode s) = current_insn s" "lsu_stall (switch_to_full_mode s) = lsu_stall s"
  by (simp_all add: switch_to_full_mode_def)

lemma raise_to_M:
  assumes "cause \<noteq> ISS_EXCEPT_DEBUG" "\<not> bit (medeleg s) cause"
  shows "raise pc cause s = (switch_to_full_mode s)\<lparr>mepc := pc,
     mstatus := put_mpp (core_mode s) (put_bit MS_MPIE (irq_enable s) (put_bit MS_MIE False (mstatus s))),
     core_mode := PRIV_M, irq_enable := False, mcause := of_nat cause, has_exception := True, exception_pc := mtvec s\<rparr>"
  using assms by (simp add: raise_def Let_def mode_set_def PRIV_S_def PRIV_M_def)

lemma raise_to_S:
  assumes "cause \<noteq> ISS_EXCEPT_DEBUG" "bit (medeleg s) cause"
  shows "raise pc cause s = (switch_to_full_mode s)\<lparr>sepc := pc,
     mstatus := put_bit MS_SPP (odd (core_mode s)) (put_bit MS_SPIE (irq_enable s) (put_bit MS_SIE False (mstatus s))),
     core_mode := PRIV_S, irq_enable := False, scause := of_nat cause, has_exception := True, exception_pc := stvec s\<rparr>"
  using assms by (simp add: raise_def Let_def mode_set_def PRIV_S_def PRIV_M_def)

section \<open>Arbitration of interrupts\<close>

text \<open>The specification: which interrupts can be taken in the mode of the core, and their order.\<close>

definition irq_deliverable :: "iss \<Rightarrow> nat \<Rightarrow> bool" where
  "irq_deliverable s i \<longleftrightarrow> bit (mie s) i \<and> bit (mip s) i \<and>
     (if bit (mideleg s) i then core_mode s = PRIV_U \<or> core_mode s = PRIV_S \<and> bit (mstatus s) MS_SIE
      else core_mode s \<noteq> PRIV_M \<or> bit (mstatus s) MS_MIE)"

definition irq_rank :: "nat \<Rightarrow> nat" where
  "irq_rank i = (if i = 11 then 0 else if i = 3 then 1 else if i = 7 then 2 else if i = 9 then 3
     else if i = 1 then 4 else if i = 5 then 5 else 6 + i)"

lemma irq_select_best:
  assumes "w \<noteq> 0"
  shows "bit w (irq_select w)" "irq_select w < 32" "bit w j \<Longrightarrow> irq_rank (irq_select w) \<le> irq_rank j"
proof -
  obtain i where i: "i < 32" "ffs w = of_nat (Suc i)" "bit w i" "\<forall>j<i. \<not> bit w j"
    using ffs_spec(2)[OF assms] by blast
  have u: "unat (ffs w) - 1 = i" using i(1,2) by (simp add: unat_of_nat del: of_nat_Suc)
  show "bit w (irq_select w)" using i(3) u by (auto simp: irq_select_def)
  show "irq_select w < 32" using i(1) u by (auto simp: irq_select_def)
  assume "bit w j"
  moreover from this have "i \<le> j" using i(4) by (meson not_le)
  ultimately show "irq_rank (irq_select w) \<le> irq_rank j" using u by (auto simp: irq_select_def irq_rank_def)
qed

lemma irq_enabled_deliverable:
  assumes "core_mode s < 4" "irq_enabled s = (m, e)"
  shows "bit e i \<longleftrightarrow> irq_deliverable s i \<and> bit (mideleg s) i = (m = PRIV_S)"
    and "m = PRIV_S \<Longrightarrow> irq_deliverable s i \<Longrightarrow> bit (mideleg s) i"
    and "m = PRIV_S \<or> m = PRIV_M"
proof -
  let ?p = "(mie s AND mip s) AND NOT (mideleg s)"
  have b: "bit ?p i = (bit (mie s) i \<and> bit (mip s) i \<and> \<not> bit (mideleg s) i)"
    by (auto simp: bit_simps dest: bit_imp_le_length)
  then have nz: "?p = 0 \<Longrightarrow> bit (mie s) i \<Longrightarrow> bit (mip s) i \<Longrightarrow> bit (mideleg s) i" by auto
  have nz2: "(mie s AND mip s) AND mideleg s = e \<Longrightarrow> bit e i = (bit (mie s) i \<and> bit (mip s) i \<and> bit (mideleg s) i)"
    by (auto simp: bit_and_iff)
  note defs = irq_enabled_def irq_deliverable_def Let_def pending_interrupts_def PRIV_U_def PRIV_S_def PRIV_M_def
  show "bit e i \<longleftrightarrow> irq_deliverable s i \<and> bit (mideleg s) i = (m = PRIV_S)"
    using assms b nz nz2 by (auto simp: defs split: if_splits simp del: bit_and_iff)
  show "m = PRIV_S \<or> m = PRIV_M" using assms(2) by (auto simp: irq_enabled_def Let_def split: if_splits)
  assume "m = PRIV_S" "irq_deliverable s i"
  then show "bit (mideleg s) i"
    using assms nz by (auto simp: defs split: if_splits simp del: bit_and_iff)
qed

lemma irq_enabled_pending: "irq_enabled s = (m, e) \<Longrightarrow> e \<noteq> 0 \<Longrightarrow> pending_interrupts s \<noteq> 0"
  by (auto simp: irq_enabled_def Let_def split: if_splits)

lemma irq_check_none:
  assumes "\<not> (req_debug s \<and> \<not> debug_mode s)" "irq_enabled s = (m, 0)"
  shows "irq_check s = (False, s)"
  unfolding irq_check_def if_not_P[OF assms(1)] assms(2) by simp

lemma irq_check_taken:
  assumes "\<not> (req_debug s \<and> \<not> debug_mode s)" "irq_enabled s = (m, e)" "e \<noteq> 0"
  shows "m = PRIV_M \<Longrightarrow> irq_check s = (True, on_tm (stall_insn_dependency_account 4)
      (s\<lparr>mepc := current_insn s,
         mstatus := put_mpp (core_mode s) (put_bit MS_MPIE (irq_enable s) (put_bit MS_MIE False
            (put_bit MS_MIE False (put_bit MS_MPIE (irq_enable s) (mstatus s))))),
         current_insn := mtvec s, mcause := push_bit 31 1 OR of_nat (irq_select e),
         core_mode := PRIV_M, irq_enable := False\<rparr>))"
    and "m = PRIV_S \<Longrightarrow> irq_check s = (True, on_tm (stall_insn_dependency_account 4)
      (s\<lparr>mepc := current_insn s, sepc := current_insn s,
         mstatus := put_bit MS_SPP (odd (core_mode s)) (put_bit MS_SPIE (irq_enable s) (put_bit MS_SIE False
            (put_bit MS_MIE False (put_bit MS_MPIE (irq_enable s) (mstatus s))))),
         current_insn := stvec s, scause := push_bit 31 1 OR of_nat (irq_select e),
         core_mode := PRIV_S, irq_enable := False\<rparr>))"
  unfolding irq_check_def if_not_P[OF assms(1)] if_not_P[OF irq_enabled_pending[OF assms(2,3)]] assms(2)
  using assms(3) by (simp_all add: Let_def mode_set_def PRIV_S_def PRIV_M_def)

lemma on_tm_simps [simp]:
  "mstatus (on_tm f s) = mstatus s" "core_mode (on_tm f s) = core_mode s" "mie (on_tm f s) = mie s"
  "mip (on_tm f s) = mip s" "mideleg (on_tm f s) = mideleg s" "irq_enable (on_tm f s) = irq_enable s"
  "req_debug (on_tm f s) = req_debug s" "debug_mode (on_tm f s) = debug_mode s" "mepc (on_tm f s) = mepc s"
  "sepc (on_tm f s) = sepc s" "mcause (on_tm f s) = mcause s" "scause (on_tm f s) = scause s"
  "current_insn (on_tm f s) = current_insn s" "iss_regfile (on_tm f s) = iss_regfile s"
  "iss_timing (on_tm f s) = f (iss_timing s)" "full_mode (on_tm f s) = full_mode s" "wfi (on_tm f s) = wfi s"
  "stalled (on_tm f s) = stalled s" "has_exception (on_tm f s) = has_exception s"
  "insn_on_hold (on_tm f s) = insn_on_hold s" "irq_locked (on_tm f s) = irq_locked s"
  "medeleg (on_tm f s) = medeleg s" "mtvec (on_tm f s) = mtvec s" "stvec (on_tm f s) = stvec s"
  "lsu_stall (on_tm f s) = lsu_stall s"
  by (simp_all add: on_tm_def)

lemma on_rf_simps [simp]:
  "mstatus (on_rf f s) = mstatus s" "core_mode (on_rf f s) = core_mode s" "mie (on_rf f s) = mie s"
  "mip (on_rf f s) = mip s" "mideleg (on_rf f s) = mideleg s" "irq_enable (on_rf f s) = irq_enable s"
  "req_debug (on_rf f s) = req_debug s" "debug_mode (on_rf f s) = debug_mode s" "mepc (on_rf f s) = mepc s"
  "sepc (on_rf f s) = sepc s" "mcause (on_rf f s) = mcause s" "scause (on_rf f s) = scause s"
  "current_insn (on_rf f s) = current_insn s" "iss_regfile (on_rf f s) = f (iss_regfile s)"
  "iss_timing (on_rf f s) = iss_timing s" "full_mode (on_rf f s) = full_mode s" "wfi (on_rf f s) = wfi s"
  "stalled (on_rf f s) = stalled s" "has_exception (on_rf f s) = has_exception s"
  "insn_on_hold (on_rf f s) = insn_on_hold s" "irq_locked (on_rf f s) = irq_locked s"
  "medeleg (on_rf f s) = medeleg s" "mtvec (on_rf f s) = mtvec s" "stvec (on_rf f s) = stvec s"
  "lsu_stall (on_rf f s) = lsu_stall s"
  by (simp_all add: on_rf_def)

lemma irq_not_deliverable:
  assumes "\<not> (req_debug s \<and> \<not> debug_mode s)" "core_mode s < 4" "\<And>i. \<not> irq_deliverable s i"
  shows "irq_check s = (False, s)"
proof -
  obtain m e where me: "irq_enabled s = (m, e)" by force
  have "\<not> bit e i" for i using irq_enabled_deliverable(1)[OF assms(2) me] assms(3) by blast
  then have "e = 0" by (intro bit_word_eqI) simp
  with me assms(1) show ?thesis by (simp add: irq_check_none)
qed

text \<open>The interrupt \<open>i\<close> that \<open>check\<close> serves in state \<open>s\<close>, and the state after it.\<close>

definition irq_best :: "iss \<Rightarrow> nat \<Rightarrow> bool" where
  "irq_best s i \<longleftrightarrow> irq_deliverable s i \<and>
     (\<forall>j. irq_deliverable s j \<longrightarrow> (bit (mideleg s) i \<longrightarrow> bit (mideleg s) j)
        \<and> (bit (mideleg s) j = bit (mideleg s) i \<longrightarrow> irq_rank i \<le> irq_rank j))"

definition irq_entered :: "iss \<Rightarrow> nat \<Rightarrow> iss \<Rightarrow> bool" where
  "irq_entered s i s' \<longleftrightarrow> \<not> irq_enable s' \<and>
     (if bit (mideleg s) i
      then core_mode s' = PRIV_S \<and> scause s' = push_bit 31 1 OR of_nat i \<and> sepc s' = current_insn s
         \<and> current_insn s' = stvec s \<and> bit (mstatus s') MS_SPP = odd (core_mode s) \<and> \<not> bit (mstatus s') MS_SIE
      else core_mode s' = PRIV_M \<and> mcause s' = push_bit 31 1 OR of_nat i \<and> mepc s' = current_insn s
         \<and> current_insn s' = mtvec s \<and> get_mpp (mstatus s') = core_mode s \<and> \<not> bit (mstatus s') MS_MIE)"

lemma irq_check_arbitrates:
  assumes "\<not> (req_debug s \<and> \<not> debug_mode s)" "core_mode s < 4"
  shows "case irq_check s of (taken, s') \<Rightarrow>
     (if \<exists>i. irq_deliverable s i
      then taken \<and> (\<exists>i<32. irq_best s i \<and> irq_entered s i s') \<and> irq_check s' = (False, s')
      else \<not> taken \<and> s' = s)"
proof (cases "\<exists>i. irq_deliverable s i")
  case False
  then show ?thesis using irq_not_deliverable[OF assms] by simp
next
  case True
  obtain m e where me: "irq_enabled s = (m, e)" by force
  note D = irq_enabled_deliverable[OF assms(2) me]
  obtain k where k: "irq_deliverable s k" using True by blast
  have "e \<noteq> 0"
  proof (cases "bit e k")
    case True then show ?thesis by auto
  next
    case False
    with k D(1)[of k] D(2)[of k] D(3) have "m = PRIV_M" "bit (mideleg s) k" by auto
    with me show ?thesis by (auto simp: irq_enabled_def Let_def PRIV_S_def PRIV_M_def split: if_splits)
  qed
  note T = irq_check_taken[OF assms(1) me this] and B = irq_select_best[OF this]
  obtain s' where s': "irq_check s = (True, s')" using T D(3) by blast
  have best: "irq_best s (irq_select e)" and lvl: "bit (mideleg s) (irq_select e) = (m = PRIV_S)"
    using B D(1,2) by (auto simp: irq_best_def)
  have ent: "irq_entered s (irq_select e) s'"
    using s' lvl T D(3) assms(2) unfolding irq_entered_def
    by (auto simp: PRIV_U_def PRIV_S_def PRIV_M_def)
  have mask: "irq_check s' = (False, s')"
  proof (rule irq_not_deliverable)
    show "\<not> (req_debug s' \<and> \<not> debug_mode s')" using s' T D(3) assms(1) by auto
    show "core_mode s' < 4" using ent by (auto simp: irq_entered_def PRIV_S_def PRIV_M_def split: if_splits)
    have same: "mie s' = mie s" "mip s' = mip s" "mideleg s' = mideleg s" using s' T D(3) by auto
    have "irq_deliverable s (irq_select e)" using best by (simp add: irq_best_def)
    then show "\<not> irq_deliverable s' i" for i
      using ent lvl D(2)[of i] same assms(2)
      by (auto simp: irq_entered_def irq_deliverable_def PRIV_U_def PRIV_S_def PRIV_M_def split: if_splits)
  qed
  show ?thesis using True s' best ent mask B(2) by auto
qed

text \<open>C23: interrupts. When no debug request is served, the core is redirected exactly when some
  interrupt can be delivered in its mode; the one taken is not delegated if any such is deliverable,
  and of the highest priority of its level; the level fixes mode, cause, return address and vector,
  and the new mode masks the interrupts: none can be taken again before software enables them.
  Otherwise nothing changes.\<close>

theorem irq_check_spec:
  assumes "\<not> (req_debug s \<and> \<not> debug_mode s)" "core_mode s < 4"
  shows "case irq_check s of (taken, s') \<Rightarrow>
     (if \<exists>i. irq_deliverable s i
      then taken \<and> (\<exists>i<32. irq_best s i \<and> irq_entered s i s') \<and> irq_check s' = (False, s')
      else \<not> taken \<and> s' = s)"
  using irq_check_arbitrates[OF assms] .

section \<open>Entry and return\<close>

text \<open>C24: exceptions handled in machine mode. The entry goes to \<open>mtvec\<close> in machine mode with
  interrupts disabled and none deliverable; \<open>mret\<close> from there gives back the faulting address, the
  mode, the interrupt enable and the registers, and restores \<open>mstatus\<close> but for \<open>MPIE\<close> and \<open>MPP\<close>
  exactly when \<open>MIE\<close> was equal to the interrupt enable of the core.\<close>

theorem exception_return:
  assumes "cause \<noteq> ISS_EXCEPT_DEBUG" "\<not> bit (medeleg s) cause" "core_mode s < 4" "\<not> req_debug s"
  shows "let s1 = raise pc cause s; (pc2, s2) = mret_handle s1 in
    has_exception s1 \<and> exception_pc s1 = mtvec s \<and> core_mode s1 = PRIV_M \<and> mcause s1 = of_nat cause
    \<and> irq_check s1 = (False, s1)
    \<and> pc2 = pc \<and> core_mode s2 = core_mode s \<and> irq_enable s2 = irq_enable s \<and> iss_regfile s2 = iss_regfile s
    \<and> ((\<forall>k. k \<notin> {MS_MPIE, 11, 12} \<longrightarrow> bit (mstatus s2) k = bit (mstatus s) k) \<longleftrightarrow> bit (mstatus s) MS_MIE = irq_enable s)"
proof -
  note R = raise_to_M[OF assms(1,2), of pc]
  have nd: "\<not> irq_deliverable (raise pc cause s) i" for i
    unfolding R by (simp add: irq_deliverable_def PRIV_U_def PRIV_S_def PRIV_M_def)
  have "irq_check (raise pc cause s) = (False, raise pc cause s)"
    by (rule irq_not_deliverable[OF _ _ nd]) (simp_all add: R assms(4) PRIV_M_def)
  then show ?thesis
    unfolding Let_def using assms(3) by (auto simp: R mret_handle_def mode_set_def Let_def PRIV_U_def)
qed

text \<open>Exceptions delegated to supervisor mode. From user or supervisor mode the entry goes to
  \<open>stvec\<close> in supervisor mode, and \<open>sret\<close> gives back address, mode, interrupt enable and registers.
  Machine mode delegates as well: the core then leaves machine mode, and \<open>sret\<close> comes back to
  supervisor mode.\<close>

theorem exception_return_S:
  assumes "cause \<noteq> ISS_EXCEPT_DEBUG" "bit (medeleg s) cause" "core_mode s \<in> {PRIV_U, PRIV_S, PRIV_M}"
    "\<not> bit (mstatus s) MS_TSR"
  shows "let s1 = raise pc cause s; (pc2, s2) = sret_handle s1 in
    has_exception s1 \<and> exception_pc s1 = stvec s \<and> core_mode s1 = PRIV_S \<and> scause s1 = of_nat cause
    \<and> pc2 = pc \<and> core_mode s2 = (if core_mode s = PRIV_M then PRIV_S else core_mode s)
    \<and> irq_enable s2 = irq_enable s \<and> iss_regfile s2 = iss_regfile s"
  unfolding Let_def raise_to_S[OF assms(1,2)] using assms(3,4)
  by (auto simp: sret_handle_def mode_set_def Let_def PRIV_U_def PRIV_S_def PRIV_M_def)

text \<open>The writes of \<open>mstatus\<close> and \<open>sstatus\<close> keep every bit outside their mask and install the
  others; a write through \<open>sstatus\<close> never changes a machine-mode field, but a read of \<open>sstatus\<close> gives
  all of \<open>mstatus\<close>.\<close>

theorem status_registers:
  "let (v1, s1) = core_mstatus_update True v s; (v2, s2) = core_sstatus_update True v s in
   (\<forall>k. bit (mstatus s1) k = (if bit mstatus_write_mask k then bit v k else bit (mstatus s) k))
   \<and> (\<forall>k. bit (mstatus s2) k = (if bit sstatus_write_mask k then bit v k else bit (mstatus s) k))
   \<and> bit (mstatus s2) MS_MIE = bit (mstatus s) MS_MIE \<and> bit (mstatus s2) MS_MPIE = bit (mstatus s) MS_MPIE
   \<and> get_mpp (mstatus s2) = get_mpp (mstatus s) \<and> irq_enable s1 = bit (mstatus s1) MS_MIE
   \<and> fst (core_sstatus_update False w s) = mstatus s"
proof -
  have m: "bit ((a AND NOT w) OR (v AND w)) k = (if bit w k then bit v k else bit a k)" for a w :: u32 and k
    by (auto simp: bit_simps dest: bit_imp_le_length)
  have s: "\<not> bit sstatus_write_mask 3" "\<not> bit sstatus_write_mask 7" "\<not> bit sstatus_write_mask 11" "\<not> bit sstatus_write_mask 12"
    by (simp_all add: sstatus_write_mask_def mstatus_write_mask_def)
  show ?thesis
    by (simp add: core_mstatus_update_def core_sstatus_update_def irq_global_enable_def m s get_mpp_def Let_def)
qed

section \<open>Examples\<close>

theorem irq_check_spec_witness:
  "\<exists>i<32. irq_best (demo_iss\<lparr>mie := 0x888, mip := 0x88, core_mode := 0\<rparr>) i"
  using irq_check_spec[of "demo_iss\<lparr>mie := 0x888, mip := 0x88, core_mode := 0\<rparr>"]
    exI[of "irq_deliverable (demo_iss\<lparr>mie := 0x888, mip := 0x88, core_mode := 0\<rparr>)" 3]
  by (auto simp: irq_deliverable_def demo_iss_def PRIV_U_def PRIV_M_def split: prod.splits)

theorem exception_return_witness:
  "fst (mret_handle (raise 0x1234 2 (demo_iss\<lparr>core_mode := 0\<rparr>))) = 0x1234"
  using exception_return[of 2 "demo_iss\<lparr>core_mode := 0\<rparr>" "0x1234"]
  by (simp add: Let_def split_beta demo_iss_def ISS_EXCEPT_DEBUG_def PRIV_U_def)

theorem exception_return_S_witness:
  "core_mode (snd (sret_handle (raise 0x1234 2 (demo_iss\<lparr>medeleg := 4\<rparr>)))) = PRIV_S"
  using exception_return_S[of 2 "demo_iss\<lparr>medeleg := 4\<rparr>" "0x1234"]
  by (simp add: Let_def split_beta demo_iss_def ISS_EXCEPT_DEBUG_def PRIV_U_def PRIV_S_def PRIV_M_def)

end
