(* ===== verification/IssLsu.thy ===== *)
theory IssLsu imports IssTrap begin

text \<open>
  The load-store unit (\<open>src/models/cpu/iss/src/lsu.cpp\<close>, \<open>include/lsu_implem.hpp\<close>), for a core without
  MMU, scoreboard, direct memory array, several outstanding requests, handling of misaligned accesses,
  pipeline threshold or GDB server. The target behind the data port is the argument \<open>port\<close>, which gives
  its answer for an address, a size, a direction and the bytes written. A register is passed to the
  target by reference: the bytes a load receives are written into the low part of the register.

  \<open>shl32\<close> and \<open>shr32\<close> stand for \<open>1 << 32\<close> and the shift right by 32 that the code evaluates for a signed
  load of 4 bytes; the language leaves both undefined.
\<close>

section \<open>The data port\<close>

datatype lsu_status = LSU_OK | LSU_PENDING | LSU_DENIED | LSU_INVALID

record lsu_answer =
  la_status :: lsu_status
  la_latency :: int
  la_data :: bytes
  la_check :: bytes

type_synonym port = "u32 \<Rightarrow> nat \<Rightarrow> bool \<Rightarrow> bytes \<Rightarrow> lsu_answer"

text \<open>Writing the first bytes of a register through its address, and reading them.\<close>

definition put_low :: "nat \<Rightarrow> u32 \<Rightarrow> u32 \<Rightarrow> u32" where
  "put_low n v old = (v AND mask (8 * n)) OR (old AND NOT (mask (8 * n)))"

definition reg_bytes :: "nat \<Rightarrow> u32 \<Rightarrow> bytes" where "reg_bytes n v = le_bytes n (ucast v)"

definition reg_write :: "nat \<Rightarrow> nat \<Rightarrow> u32 \<Rightarrow> regfile \<Rightarrow> regfile" where
  "reg_write reg n v rf = (if reg = 0 then rf else set_reg reg (put_low n v (regs rf reg)) rf)"

definition reg_check_write :: "nat \<Rightarrow> nat \<Rightarrow> u32 \<Rightarrow> regfile \<Rightarrow> regfile" where
  "reg_check_write reg n v rf = (if reg = 0 then rf else memcheck_set reg (put_low n v (regs_memcheck rf reg)) rf)"

text \<open>What the target does to the buffers of a read.\<close>

definition port_fill :: "nat \<Rightarrow> nat \<Rightarrow> bytes \<Rightarrow> bytes \<Rightarrow> regfile \<Rightarrow> regfile" where
  "port_fill reg sz data chk rf =
     reg_check_write reg (min sz (length chk)) (ucast (le_word chk)) (reg_write reg sz (ucast (le_word data)) rf)"

definition data_req_aligned :: "port \<Rightarrow> u32 \<Rightarrow> nat \<Rightarrow> nat \<Rightarrow> bool \<Rightarrow> iss \<Rightarrow> lsu_status \<times> iss" where
  "data_req_aligned port addr reg sz is_write s =
     (let s1 = (if is_write then s else on_rf (reg_check_write reg sz (-1)) s);
          a = port addr sz is_write (if is_write then reg_bytes sz (regs (iss_regfile s) reg) else [])
      in case la_status a of
           LSU_OK \<Rightarrow> (LSU_OK, if is_write then s1 else on_rf (port_fill reg sz (la_data a) (la_check a)) s1)
         | LSU_INVALID \<Rightarrow>
             (LSU_INVALID, raise (current_insn s1) (if is_write then ISS_EXCEPT_STORE_FAULT else ISS_EXCEPT_LOAD_FAULT) s1)
         | st \<Rightarrow> (st, s1\<lparr>stalled := stalled s1 + 1\<rparr>))"

definition data_req :: "port \<Rightarrow> u32 \<Rightarrow> nat \<Rightarrow> nat \<Rightarrow> bool \<Rightarrow> iss \<Rightarrow> lsu_status \<times> iss" where
  "data_req port addr reg sz is_write s = data_req_aligned port addr reg sz is_write s"

section \<open>Loads and stores\<close>

text \<open>Each gives whether the instruction must be executed again.\<close>

definition lsu_load :: "port \<Rightarrow> u32 \<Rightarrow> nat \<Rightarrow> nat \<Rightarrow> iss \<Rightarrow> bool \<times> iss" where
  "lsu_load port addr sz reg s =
     (let s1 = on_rf (memcheck_set_valid reg True) (on_rf (set_reg reg 0) s);
          (err, s2) = data_req port addr reg sz False s1
      in if err = LSU_OK then (False, s2)
         else if err \<noteq> LSU_INVALID
         then (False, s2\<lparr>lsu_stall := Some \<lparr>lp_signed = False, lp_store = False, lp_reg = reg, lp_size = sz\<rparr>\<rparr>)
         else (False, s2))"

definition iss_get_signed_value :: "u32 \<Rightarrow> nat \<Rightarrow> u32" where
  "iss_get_signed_value v bits = signed_drop_bit (32 - bits) (push_bit (32 - bits) v)"

definition sign_validity :: "u32 \<Rightarrow> nat \<Rightarrow> u32 \<Rightarrow> u32" where
  "sign_validity shl32 sz v =
     (let sign_is_valid = bit v (sz * 8 - 1);
          is_valid = (if sign_is_valid then -1 else 0) :: u32;
          one = (if sz * 8 < 32 then push_bit (sz * 8) 1 else shl32)
      in fold (\<lambda>i w. w OR push_bit (i * 8) is_valid) [sz..<4] (v AND (one - 1)))"

definition lsu_load_signed :: "u32 \<Rightarrow> port \<Rightarrow> u32 \<Rightarrow> nat \<Rightarrow> nat \<Rightarrow> iss \<Rightarrow> bool \<times> iss" where
  "lsu_load_signed shl32 port addr sz reg s =
     (let (err, s1) = data_req port addr reg sz False s
      in if err = LSU_OK then
           (let s2 = on_rf (\<lambda>rf. set_reg reg (iss_get_signed_value (get_reg_untimed reg rf) (sz * 8)) rf) s1;
                s3 = on_rf (\<lambda>rf. memcheck_set reg (sign_validity shl32 sz (memcheck_get reg rf)) rf) s2
            in (False, s3))
         else if err \<noteq> LSU_INVALID
         then (False, s1\<lparr>lsu_stall := Some \<lparr>lp_signed = True, lp_store = False, lp_reg = reg, lp_size = sz\<rparr>\<rparr>)
         else (False, s1))"

definition lsu_store :: "port \<Rightarrow> u32 \<Rightarrow> nat \<Rightarrow> nat \<Rightarrow> iss \<Rightarrow> bool \<times> iss" where
  "lsu_store port addr sz reg s =
     (let (err, s1) = data_req port addr reg sz True s
      in if err = LSU_OK then (False, s1)
         else if err \<noteq> LSU_INVALID
         then (False, s1\<lparr>lsu_stall := Some \<lparr>lp_signed = False, lp_store = True, lp_reg = reg, lp_size = sz\<rparr>\<rparr>)
         else (False, s1))"

definition lsu_load_perf :: "port \<Rightarrow> u32 \<Rightarrow> nat \<Rightarrow> nat \<Rightarrow> iss \<Rightarrow> bool \<times> iss" where
  "lsu_load_perf port addr sz reg s = lsu_load port addr sz reg (on_tm (event_load_account 1) s)"

definition lsu_load_signed_perf :: "u32 \<Rightarrow> port \<Rightarrow> u32 \<Rightarrow> nat \<Rightarrow> nat \<Rightarrow> iss \<Rightarrow> bool \<times> iss" where
  "lsu_load_signed_perf shl32 port addr sz reg s =
     lsu_load_signed shl32 port addr sz reg (on_tm (event_load_account 1) s)"

definition lsu_store_perf :: "port \<Rightarrow> u32 \<Rightarrow> nat \<Rightarrow> nat \<Rightarrow> iss \<Rightarrow> bool \<times> iss" where
  "lsu_store_perf port addr sz reg s = lsu_store port addr sz reg (on_tm (event_store_account 1) s)"

section \<open>The response of the target\<close>

definition load_resume :: "iss \<Rightarrow> iss" where "load_resume s = on_tm insn_stall_account s"
definition store_resume :: "iss \<Rightarrow> iss" where "store_resume s = on_tm insn_stall_account s"

definition load_signed_resume :: "(u32 \<Rightarrow> u32) \<Rightarrow> nat \<Rightarrow> nat \<Rightarrow> iss \<Rightarrow> iss" where
  "load_signed_resume shr32 reg stall_size s =
     (let s1 = on_rf (\<lambda>rf. set_reg reg (iss_get_signed_value (get_reg reg rf) (stall_size * 8)) rf) s;
          s2 = on_rf (\<lambda>rf. let v = memcheck_get reg rf
                 in memcheck_set_valid reg (bit (if stall_size * 8 < 32 then drop_bit (stall_size * 8) v else shr32 v) 0) rf) s1
      in on_tm insn_stall_account s2)"

text \<open>The target fills the buffers of a load and then responds. A response that no stalled access is
  waiting for is not expected.\<close>

definition lsu_data_response :: "(u32 \<Rightarrow> u32) \<Rightarrow> bytes \<Rightarrow> bytes \<Rightarrow> iss \<Rightarrow> iss option" where
  "lsu_data_response shr32 data chk s =
     (case lsu_stall s of None \<Rightarrow> None
      | Some p \<Rightarrow>
          let s0 = (if lp_store p then s else on_rf (port_fill (lp_reg p) (lp_size p) data chk) s);
              s1 = (stalled_dec s0)\<lparr>lsu_stall := None\<rparr>
          in Some (if lp_store p then store_resume s1
                   else if lp_signed p then load_signed_resume shr32 (lp_reg p) (lp_size p) s1
                   else load_resume s1))"

section \<open>What loads and stores do\<close>

lemma bit_put_low: "bit (put_low n v old) k = (if k < 8 * n then bit v k else bit old k)"
  by (cases "k < 32") (auto simp: put_low_def bit_and_iff bit_or_iff bit_not_iff bit_mask_iff dest: bit_imp_le_length)

lemma put_low_0: "length data = n \<Longrightarrow> put_low n (ucast (le_word data)) 0 = ucast (le_word data)"
  by (rule bit_word_eqI) (auto simp: bit_put_low bit_ucast_iff bit_le_word)

text \<open>The value of a signed load: the integer of \<open>8 * n\<close> bits that the bytes stand for.\<close>

definition signed_bytes :: "nat \<Rightarrow> bytes \<Rightarrow> int" where
  "signed_bytes n data = signed_take_bit (8 * n - 1) (uint (le_word data))"

lemma bit_iss_get_signed_value:
  assumes "0 < b" "b \<le> 32" "k < 32"
  shows "bit (iss_get_signed_value w b) k = bit w (min k (b - 1))"
proof -
  have "LENGTH(32) = 32" by simp
  then show ?thesis unfolding iss_get_signed_value_def using assms
    by (auto simp: bit_signed_drop_bit_iff bit_push_bit_iff min_def)
qed

lemma iss_get_signed_value_low:
  assumes "sz \<in> {1, 2, 4}"
  shows "iss_get_signed_value (put_low sz (ucast (le_word data)) old) (sz * 8) = word_of_int (signed_bytes sz data)"
proof (rule bit_word_eqI)
  fix k :: nat assume "k < LENGTH(32)"
  then have k: "k < 32" by simp
  have b: "bit (word_of_int x :: u32) k = bit x k" for x using k by (simp add: bit_word_of_int_iff)
  have m: "min k (sz * 8 - 1) < 8 * sz" "min k (sz * 8 - 1) < 32" "min (8 * sz - 1) k = min k (sz * 8 - 1)"
    using assms k by (auto simp: mult.commute min.commute)
  show "bit (iss_get_signed_value (put_low sz (ucast (le_word data)) old) (sz * 8)) k
      = bit (word_of_int (signed_bytes sz data) :: u32) k"
    using assms k m
    by (subst bit_iss_get_signed_value)
       (auto simp: b signed_bytes_def bit_put_low bit_ucast_iff bit_signed_take_bit_iff bit_uint_iff)
qed

lemma reg_write_regs:
  "reg \<noteq> 0 \<Longrightarrow> regs (reg_write reg n v rf) = (regs rf)(reg := put_low n v (regs rf reg))"
  "regs (reg_check_write reg n v rf) = regs rf" "regs_memcheck (reg_write reg n v rf) = regs_memcheck rf"
  "reg \<noteq> 0 \<Longrightarrow> regs_memcheck (reg_check_write reg n v rf) = (regs_memcheck rf)(reg := put_low n v (regs_memcheck rf reg))"
  by (simp_all add: reg_write_def reg_check_write_def set_reg_def memcheck_set_def)

lemma memcheck_regs':
  "regs (memcheck_set r v rf) = regs rf" "regs (memcheck_set_valid r b rf) = regs rf"
  by (simp_all add: memcheck_set_def memcheck_set_valid_def)

lemma regs_set_reg: "regs (set_reg r v rf) = (regs rf)(r := v)" by (simp add: set_reg_def)

lemmas lsu_defs = lsu_load_def lsu_load_signed_def data_req_def data_req_aligned_def port_fill_def reg_write_regs
  memcheck_regs' regs_set_reg get_reg_untimed_def get_reg_def Let_def

text \<open>C31: loads. When the target answers at once with the bytes of the access, the destination holds
  exactly the integer the bytes stand for, extended with zeros or with the sign; no other register
  changes, whatever the destination held before.\<close>

theorem lsu_load_value:
  assumes "sz \<in> {1, 2, 4}" "reg \<noteq> 0" "port addr sz False [] = a" "la_status a = LSU_OK" "length (la_data a) = sz"
  shows "regs (iss_regfile (snd (lsu_load port addr sz reg s)))
           = (regs (iss_regfile s))(reg := word_of_int (uint (le_word (la_data a))))
    \<and> regs (iss_regfile (snd (lsu_load_signed sh port addr sz reg s)))
           = (regs (iss_regfile s))(reg := word_of_int (signed_bytes sz (la_data a)))"
  using assms(2,3,4) by (simp add: lsu_defs iss_get_signed_value_low[OF assms(1)] put_low_0[OF assms(5)])

text \<open>C32: an access answered later is the same access. If the target first leaves the access pending
  and then responds with some bytes, the registers are those of an immediate answer with these bytes,
  and the core is stalled exactly in between.\<close>

theorem lsu_split_access:
  assumes "port1 addr sz False [] = a1" "la_status a1 \<in> {LSU_PENDING, LSU_DENIED}"
    "port2 addr sz False [] = a2" "la_status a2 = LSU_OK" "reg \<noteq> 0" "0 \<le> stalled s"
  shows "stalled (snd (lsu_load port1 addr sz reg s)) = stalled s + 1
    \<and> (\<exists>s'. lsu_data_response sr (la_data a2) (la_check a2) (snd (lsu_load port1 addr sz reg s)) = Some s'
        \<and> iss_regfile s' = iss_regfile (snd (lsu_load port2 addr sz reg s)) \<and> stalled s' = stalled s)
    \<and> (\<exists>s'. lsu_data_response sr (la_data a2) (la_check a2) (snd (lsu_load_signed sh port1 addr sz reg s)) = Some s'
        \<and> regs (iss_regfile s') = regs (iss_regfile (snd (lsu_load_signed sh port2 addr sz reg s))) \<and> stalled s' = stalled s)"
  using assms
  by (auto simp: lsu_defs lsu_data_response_def stalled_dec_def load_resume_def load_signed_resume_def)

text \<open>A load that faults clobbers its destination. It raises the fault with the address of the
  instruction, but an unsigned load has already set the destination to zero: with the base register
  as destination, the handler cannot execute the load again.\<close>

theorem lsu_fault_clobbers:
  assumes "port addr sz False [] = a" "la_status a = LSU_INVALID" "reg \<noteq> 0" "\<not> bit (medeleg s) ISS_EXCEPT_LOAD_FAULT"
  shows "let s1 = snd (lsu_load port addr sz reg s); s2 = snd (lsu_load_signed sh port addr sz reg s) in
      has_exception s1 \<and> mcause s1 = 5 \<and> mepc s1 = current_insn s \<and> regs (iss_regfile s1) reg = 0
      \<and> has_exception s2 \<and> mcause s2 = 5 \<and> mepc s2 = current_insn s \<and> regs (iss_regfile s2) = regs (iss_regfile s)"
  using assms raise_to_M[of 5 _ "current_insn s"]
  by (simp_all add: lsu_defs ISS_EXCEPT_LOAD_FAULT_def ISS_EXCEPT_DEBUG_def)

section \<open>Examples\<close>

definition demo_port :: "lsu_status \<Rightarrow> bytes \<Rightarrow> port" where
  "demo_port st bs addr sz is_write data = \<lparr>la_status = st, la_latency = 0, la_data = bs, la_check = []\<rparr>"

theorem lsu_load_value_witness:
  "regs (iss_regfile (snd (lsu_load_signed 0 (demo_port LSU_OK [0xfe]) 0x100 1 5 demo_iss))) 5 = -2"
  using lsu_load_value[of 1 5 "demo_port LSU_OK [0xfe]" "0x100" _ demo_iss 0]
  by (simp add: demo_port_def signed_bytes_def)

theorem lsu_split_access_witness:
  "stalled (snd (lsu_load (demo_port LSU_PENDING []) 0x100 1 5 demo_iss)) = 1"
  using lsu_split_access[of "demo_port LSU_PENDING []" "0x100" 1 _ "demo_port LSU_OK [7]" _ 5 demo_iss id 0]
  by (simp add: demo_port_def demo_iss_def)

theorem lsu_fault_clobbers_witness:
  "regs (iss_regfile (snd (lsu_load (demo_port LSU_INVALID []) 0x100 2 5
      (on_rf (set_reg 5 0x100) demo_iss)))) 5 = 0"
  using lsu_fault_clobbers[of "demo_port LSU_INVALID []" "0x100" 2 _ 5 "on_rf (set_reg 5 0x100) demo_iss" 0]
  by (simp add: demo_port_def demo_iss_def Let_def)

end
