(* ===== verification/Rv32i.thy ===== *)
theory Rv32i imports IssLsu begin

text \<open>
  The RV32I instruction handlers (\<open>src/models/cpu/iss/include/isa/rv32i.hpp\<close>), one definition per
  handler, in the order of the file. A handler gives the next program counter and the new state. The
  fast handlers do not count not-taken branches nor accesses and check no address register. The
  checks of the stack and the jump traces are left out.
\<close>

section \<open>Upper immediates and jumps\<close>

abbreviation set_valid_out :: "iss_insn \<Rightarrow> iss \<Rightarrow> iss" where
  "set_valid_out insn \<equiv> on_rf (memcheck_set (REG_OUT insn 0) (-1))"

definition lui_exec :: exec where
  "lui_exec insn pc s = (iss_insn_next insn pc, REG_SET insn 0 (UIM_GET insn 0) (set_valid_out insn s))"

definition lui_decode :: "iss_insn \<Rightarrow> iss_insn" where
  "lui_decode insn = insn\<lparr>uim := (uim insn)[0 := get_signed_value (UIM_GET insn 0) 32]\<rparr>"

definition auipc_exec :: exec where
  "auipc_exec insn pc s =
     (iss_insn_next insn pc, REG_SET insn 0 (get_signed_value (UIM_GET insn 0) 32 + pc) (set_valid_out insn s))"

definition jal_exec_common :: "bool \<Rightarrow> exec" where
  "jal_exec_common perf insn pc s =
     (let s1 = set_valid_out insn s;
          D = REG_OUT insn 0;
          s2 = (if D \<noteq> 0 then REG_SET insn 0 (pc + insn_size insn) s1 else s1)
      in (pc + SIM_GET insn 0, on_tm stall_jump_account s2))"

definition jal_exec_fast :: exec where "jal_exec_fast = jal_exec_common False"
definition jal_exec :: exec where "jal_exec = jal_exec_common True"

definition jalr_exec_common :: "bool \<Rightarrow> exec" where
  "jalr_exec_common perf insn pc s =
     (let s1 = on_rf (memcheck_branch_reg (REG_IN insn 0)) (set_valid_out insn s);
          next_pc = (SIM_GET insn 0 + REG_GET insn 0 s1) AND NOT 1;
          D = REG_OUT insn 0;
          s2 = (if D \<noteq> 0 then REG_SET insn 0 (pc + insn_size insn) s1 else s1)
      in (next_pc, on_tm stall_jump_account s2))"

definition jalr_exec_fast :: exec where "jalr_exec_fast = jalr_exec_common False"
definition jalr_exec :: exec where "jalr_exec = jalr_exec_common True"

section \<open>Branches\<close>

text \<open>The body that the six branches share, for a condition on the two operands.\<close>

definition bxx_exec_common :: "(u32 \<Rightarrow> u32 \<Rightarrow> bool) \<Rightarrow> bool \<Rightarrow> exec" where
  "bxx_exec_common cond perf insn pc s =
     (let s1 = on_rf (memcheck_branch_reg (REG_IN insn 1)) (on_rf (memcheck_branch_reg (REG_IN insn 0)) s)
      in if cond (REG_GET insn 0 s1) (REG_GET insn 1 s1)
         then (pc + SIM_GET insn 0, on_tm stall_taken_branch_account s1)
         else (iss_insn_next insn pc, if perf then on_tm event_branch_account s1 else s1))"

definition beq_exec_common :: "bool \<Rightarrow> exec" where "beq_exec_common = bxx_exec_common (\<lambda>a b. a = b)"
definition beq_exec_fast :: exec where "beq_exec_fast = beq_exec_common False"
definition beq_exec :: exec where "beq_exec = beq_exec_common True"

definition bne_exec_common :: "bool \<Rightarrow> exec" where "bne_exec_common = bxx_exec_common (\<lambda>a b. a \<noteq> b)"
definition bne_exec_fast :: exec where "bne_exec_fast = bne_exec_common False"
definition bne_exec :: exec where "bne_exec = bne_exec_common True"

definition blt_exec_common :: "bool \<Rightarrow> exec" where "blt_exec_common = bxx_exec_common (\<lambda>a b. sint a < sint b)"
definition blt_exec_fast :: exec where "blt_exec_fast = blt_exec_common False"
definition blt_exec :: exec where "blt_exec = blt_exec_common True"

definition bge_exec_common :: "bool \<Rightarrow> exec" where "bge_exec_common = bxx_exec_common (\<lambda>a b. sint a \<ge> sint b)"
definition bge_exec_fast :: exec where "bge_exec_fast = bge_exec_common False"
definition bge_exec :: exec where "bge_exec = bge_exec_common True"

definition bltu_exec_common :: "bool \<Rightarrow> exec" where "bltu_exec_common = bxx_exec_common (\<lambda>a b. a < b)"
definition bltu_exec_fast :: exec where "bltu_exec_fast = bltu_exec_common False"
definition bltu_exec :: exec where "bltu_exec = bltu_exec_common True"

definition bgeu_exec_common :: "bool \<Rightarrow> exec" where "bgeu_exec_common = bxx_exec_common (\<lambda>a b. a \<ge> b)"
definition bgeu_exec_fast :: exec where "bgeu_exec_fast = bgeu_exec_common False"
definition bgeu_exec :: exec where "bgeu_exec = bgeu_exec_common True"

section \<open>Loads and stores\<close>

text \<open>The address and the end that the accesses share: the instruction is executed again when the access
  says so.\<close>

abbreviation lsu_addr :: "iss_insn \<Rightarrow> iss \<Rightarrow> u32" where "lsu_addr insn s \<equiv> REG_GET insn 0 s + SIM_GET insn 0"

definition lsu_next :: "iss_insn \<Rightarrow> u32 \<Rightarrow> bool \<times> iss \<Rightarrow> u32 \<times> iss" where
  "lsu_next insn pc r = (if fst r then pc else iss_insn_next insn pc, snd r)"

definition lb_exec_fast :: "u32 \<Rightarrow> port \<Rightarrow> exec" where
  "lb_exec_fast shl32 port insn pc s = lsu_next insn pc (lsu_load_signed shl32 port (lsu_addr insn s) 1 (REG_OUT insn 0) s)"

definition lb_exec :: "u32 \<Rightarrow> port \<Rightarrow> exec" where
  "lb_exec shl32 port insn pc s0 =
     (let s = on_rf (memcheck_access_reg (REG_IN insn 0)) s0
      in lsu_next insn pc (lsu_load_signed_perf shl32 port (lsu_addr insn s) 1 (REG_OUT insn 0) s))"

definition lh_exec_fast :: "u32 \<Rightarrow> port \<Rightarrow> exec" where
  "lh_exec_fast shl32 port insn pc s = lsu_next insn pc (lsu_load_signed shl32 port (lsu_addr insn s) 2 (REG_OUT insn 0) s)"

definition lh_exec :: "u32 \<Rightarrow> port \<Rightarrow> exec" where
  "lh_exec shl32 port insn pc s0 =
     (let s = on_rf (memcheck_access_reg (REG_IN insn 0)) s0
      in lsu_next insn pc (lsu_load_signed_perf shl32 port (lsu_addr insn s) 2 (REG_OUT insn 0) s))"

definition lw_exec_fast :: "u32 \<Rightarrow> port \<Rightarrow> exec" where
  "lw_exec_fast shl32 port insn pc s = lsu_next insn pc (lsu_load_signed shl32 port (lsu_addr insn s) 4 (REG_OUT insn 0) s)"

definition lw_exec :: "u32 \<Rightarrow> port \<Rightarrow> exec" where
  "lw_exec shl32 port insn pc s0 =
     (let s = on_rf (memcheck_access_reg (REG_IN insn 0)) s0
      in lsu_next insn pc (lsu_load_signed_perf shl32 port (lsu_addr insn s) 4 (REG_OUT insn 0) s))"

definition lbu_exec_fast :: "port \<Rightarrow> exec" where
  "lbu_exec_fast port insn pc s = lsu_next insn pc (lsu_load port (lsu_addr insn s) 1 (REG_OUT insn 0) s)"

definition lbu_exec :: "port \<Rightarrow> exec" where
  "lbu_exec port insn pc s = lsu_next insn pc (lsu_load_perf port (lsu_addr insn s) 1 (REG_OUT insn 0) s)"

definition lhu_exec_fast :: "port \<Rightarrow> exec" where
  "lhu_exec_fast port insn pc s = lsu_next insn pc (lsu_load port (lsu_addr insn s) 2 (REG_OUT insn 0) s)"

definition lhu_exec :: "port \<Rightarrow> exec" where
  "lhu_exec port insn pc s = lsu_next insn pc (lsu_load_perf port (lsu_addr insn s) 2 (REG_OUT insn 0) s)"

definition sb_exec_fast :: "port \<Rightarrow> exec" where
  "sb_exec_fast port insn pc s = lsu_next insn pc (lsu_store port (lsu_addr insn s) 1 (REG_IN insn 1) s)"

definition sb_exec :: "port \<Rightarrow> exec" where
  "sb_exec port insn pc s0 =
     (let s = on_rf (memcheck_access_reg (REG_IN insn 0)) s0
      in lsu_next insn pc (lsu_store_perf port (lsu_addr insn s) 1 (REG_IN insn 1) s))"

definition sh_exec_fast :: "port \<Rightarrow> exec" where
  "sh_exec_fast port insn pc s = lsu_next insn pc (lsu_store port (lsu_addr insn s) 2 (REG_IN insn 1) s)"

definition sh_exec :: "port \<Rightarrow> exec" where
  "sh_exec port insn pc s0 =
     (let s = on_rf (memcheck_access_reg (REG_IN insn 0)) s0
      in lsu_next insn pc (lsu_store_perf port (lsu_addr insn s) 2 (REG_IN insn 1) s))"

definition sw_exec_fast :: "port \<Rightarrow> exec" where
  "sw_exec_fast port insn pc s = lsu_next insn pc (lsu_store port (lsu_addr insn s) 4 (REG_IN insn 1) s)"

definition sw_exec :: "port \<Rightarrow> exec" where
  "sw_exec port insn pc s0 =
     (let s = on_rf (memcheck_access_reg (REG_IN insn 0)) s0
      in lsu_next insn pc (lsu_store_perf port (lsu_addr insn s) 4 (REG_IN insn 1) s))"

section \<open>Register and immediate\<close>

definition addi_exec :: exec where
  "addi_exec insn pc s0 =
     (let s = on_rf (memcheck_merge (REG_OUT insn 0) (REG_IN insn 0)) s0
      in (iss_insn_next insn pc, REG_SET insn 0 (lib_ADD (REG_GET insn 0 s) (SIM_GET insn 0)) s))"

definition nop_exec :: exec where "nop_exec insn pc s = (iss_insn_next insn pc, s)"

definition slti_exec :: exec where
  "slti_exec insn pc s0 =
     (let s = on_rf (memcheck_merge (REG_OUT insn 0) (REG_IN insn 0)) s0
      in (iss_insn_next insn pc, REG_SET insn 0 (if sint (REG_GET insn 0 s) < sint (SIM_GET insn 0) then 1 else 0) s))"

definition sltiu_exec :: exec where
  "sltiu_exec insn pc s0 =
     (let s = on_rf (memcheck_merge (REG_OUT insn 0) (REG_IN insn 0)) s0
      in (iss_insn_next insn pc, REG_SET insn 0 (if (REG_GET insn 0 s) < (SIM_GET insn 0) then 1 else 0) s))"

definition xori_exec :: exec where
  "xori_exec insn pc s0 =
     (let s = on_rf (memcheck_copy (REG_OUT insn 0) (REG_IN insn 0)) s0
      in (iss_insn_next insn pc, REG_SET insn 0 (lib_XOR (REG_GET insn 0 s) (SIM_GET insn 0)) s))"

definition ori_exec :: exec where
  "ori_exec insn pc s0 =
     (let s = on_rf (memcheck_copy (REG_OUT insn 0) (REG_IN insn 0)) s0
      in (iss_insn_next insn pc, REG_SET insn 0 (lib_OR (REG_GET insn 0 s) (SIM_GET insn 0)) s))"

definition andi_exec :: exec where
  "andi_exec insn pc s0 =
     (let s = on_rf (memcheck_copy (REG_OUT insn 0) (REG_IN insn 0)) s0
      in (iss_insn_next insn pc, REG_SET insn 0 (lib_AND (REG_GET insn 0 s) (SIM_GET insn 0)) s))"

definition slli_exec :: exec where
  "slli_exec insn pc s0 =
     (let s = on_rf (memcheck_shift_left (REG_OUT insn 0) (REG_IN insn 0) (unat (UIM_GET insn 0))) s0
      in (iss_insn_next insn pc, REG_SET insn 0 (lib_SLL (REG_GET insn 0 s) (UIM_GET insn 0)) s))"

definition srli_exec :: exec where
  "srli_exec insn pc s0 =
     (let s = on_rf (memcheck_shift_right (REG_OUT insn 0) (REG_IN insn 0) (unat (UIM_GET insn 0))) s0
      in (iss_insn_next insn pc, REG_SET insn 0 (lib_SRL (REG_GET insn 0 s) (UIM_GET insn 0)) s))"

definition srai_exec :: exec where
  "srai_exec insn pc s0 =
     (let s = on_rf (memcheck_shift_right_signed (REG_OUT insn 0) (REG_IN insn 0) (unat (UIM_GET insn 0))) s0
      in (iss_insn_next insn pc, REG_SET insn 0 (lib_SRA (REG_GET insn 0 s) (UIM_GET insn 0)) s))"

section \<open>Register and register\<close>

text \<open>The validity of a shift by a register: lost when the count is not valid.\<close>

definition memcheck_shift_reg :: "(nat \<Rightarrow> nat \<Rightarrow> nat \<Rightarrow> regfile \<Rightarrow> regfile) \<Rightarrow> iss_insn \<Rightarrow> regfile \<Rightarrow> regfile" where
  "memcheck_shift_reg shift insn rf =
     (if \<not> memcheck_get_valid (REG_IN insn 1) rf then memcheck_set_valid (REG_OUT insn 0) False rf
      else shift (REG_OUT insn 0) (REG_IN insn 0) (unat (get_reg (REG_IN insn 1) rf AND (push_bit 5 1 - 1))) rf)"

definition add_exec :: exec where
  "add_exec insn pc s0 =
     (let s = on_rf (memcheck_merge (REG_OUT insn 0) (REG_IN insn 1)) (on_rf (memcheck_merge (REG_OUT insn 0) (REG_IN insn 0)) s0)
      in (iss_insn_next insn pc, REG_SET insn 0 (lib_ADD (REG_GET insn 0 s) (REG_GET insn 1 s)) s))"

definition sub_exec :: exec where
  "sub_exec insn pc s0 =
     (let s = on_rf (memcheck_merge (REG_OUT insn 0) (REG_IN insn 1)) (on_rf (memcheck_merge (REG_OUT insn 0) (REG_IN insn 0)) s0)
      in (iss_insn_next insn pc, REG_SET insn 0 (lib_SUB (REG_GET insn 0 s) (REG_GET insn 1 s)) s))"

definition sll_exec :: exec where
  "sll_exec insn pc s0 =
     (let s = on_rf (memcheck_shift_reg memcheck_shift_left insn) s0
      in (iss_insn_next insn pc, REG_SET insn 0 (lib_SLL (REG_GET insn 0 s) (REG_GET insn 1 s AND (push_bit 5 1 - 1))) s))"

definition slt_exec :: exec where
  "slt_exec insn pc s0 =
     (let s = on_rf (memcheck_merge (REG_OUT insn 0) (REG_IN insn 1)) (on_rf (memcheck_merge (REG_OUT insn 0) (REG_IN insn 0)) s0)
      in (iss_insn_next insn pc, REG_SET insn 0 (if sint (REG_GET insn 0 s) < sint (REG_GET insn 1 s) then 1 else 0) s))"

definition sltu_exec :: exec where
  "sltu_exec insn pc s0 =
     (let s = on_rf (memcheck_merge (REG_OUT insn 0) (REG_IN insn 1)) (on_rf (memcheck_merge (REG_OUT insn 0) (REG_IN insn 0)) s0)
      in (iss_insn_next insn pc, REG_SET insn 0 (if (REG_GET insn 0 s) < (REG_GET insn 1 s) then 1 else 0) s))"

definition xor_exec :: exec where
  "xor_exec insn pc s0 =
     (let s = on_rf (memcheck_bitwise_and (REG_OUT insn 0) (REG_IN insn 0) (REG_IN insn 1)) s0
      in (iss_insn_next insn pc, REG_SET insn 0 (lib_XOR (REG_GET insn 0 s) (REG_GET insn 1 s)) s))"

definition srl_exec :: exec where
  "srl_exec insn pc s0 =
     (let s = on_rf (memcheck_shift_reg memcheck_shift_right insn) s0
      in (iss_insn_next insn pc, REG_SET insn 0 (lib_SRL (REG_GET insn 0 s) (REG_GET insn 1 s AND (push_bit 5 1 - 1))) s))"

definition sra_exec :: exec where
  "sra_exec insn pc s0 =
     (let s = on_rf (memcheck_shift_reg memcheck_shift_right_signed insn) s0
      in (iss_insn_next insn pc, REG_SET insn 0 (lib_SRA (REG_GET insn 0 s) (REG_GET insn 1 s AND (push_bit 5 1 - 1))) s))"

definition or_exec :: exec where
  "or_exec insn pc s0 =
     (let s = on_rf (memcheck_bitwise_and (REG_OUT insn 0) (REG_IN insn 0) (REG_IN insn 1)) s0
      in (iss_insn_next insn pc, REG_SET insn 0 (lib_OR (REG_GET insn 0 s) (REG_GET insn 1 s)) s))"

definition and_exec :: exec where
  "and_exec insn pc s0 =
     (let s = on_rf (memcheck_bitwise_and (REG_OUT insn 0) (REG_IN insn 0) (REG_IN insn 1)) s0
      in (iss_insn_next insn pc, REG_SET insn 0 (lib_AND (REG_GET insn 0 s) (REG_GET insn 1 s)) s))"

section \<open>Fences and environment\<close>

text \<open>\<open>flush_bound\<close>: the port that flushes the instruction cache is connected.\<close>

definition icache_flush :: "bool \<Rightarrow> iss \<Rightarrow> iss" where
  "icache_flush flush_bound s =
     (let s1 = (if flush_bound
                then s\<lparr>cache_sync := True, stalled := stalled s + 1, icache_flushes := icache_flushes s + 1\<rparr> else s)
      in switch_to_full_mode (s1\<lparr>pending_flush := True\<rparr>))"

definition fence_i_exec :: "bool \<Rightarrow> exec" where
  "fence_i_exec flush_bound insn pc s = (let next_pc = iss_insn_next insn pc in (next_pc, icache_flush flush_bound s))"

definition fence_exec :: exec where "fence_exec insn pc s = (iss_insn_next insn pc, s)"

text \<open>\<open>prev\<close> is the opcode of the previous instruction, if it is decoded; \<open>handle_riscv_ebreak\<close> is the
  semihosting of \<open>src/syscalls.cpp\<close>.\<close>

definition ebreak_exec :: "u32 option \<Rightarrow> (iss \<Rightarrow> iss) \<Rightarrow> exec" where
  "ebreak_exec prev handle_riscv_ebreak insn pc s =
     (case prev of None \<Rightarrow> (pc, s)
      | Some opcode \<Rightarrow>
          let next_pc = iss_insn_next insn pc
          in if opcode = 0x01f01013 then (next_pc, handle_riscv_ebreak s)
             else if debug_mode s then (debug_handler s, s)
             else (pc, raise pc ISS_EXCEPT_BREAKPOINT s))"

definition ecall_exec :: exec where
  "ecall_exec insn pc s =
     (let s1 = s\<lparr>stval := 0\<rparr>
      in (iss_insn_next insn pc, raise pc (ISS_EXCEPT_ENV_CALL_U_MODE + core_mode s1) s1))"

end
