(* ===== verification/Rv32m.thy ===== *)
theory Rv32m imports Rv32i "HOL-Library.Signed_Division" begin

text \<open>
  The M extension (\<open>src/models/cpu/iss/include/isa/rv32m.hpp\<close>) of a core that is not the Snitch. The
  number of stall cycles of a division uses \<open>__builtin_clz\<close>, which is undefined for 0: \<open>clz0\<close> is what it
  gives then.
\<close>

section \<open>Handlers\<close>

abbreviation merge_ins :: "iss_insn \<Rightarrow> iss \<Rightarrow> iss" where
  "merge_ins insn s \<equiv>
     on_rf (memcheck_merge (REG_OUT insn 0) (REG_IN insn 1)) (on_rf (memcheck_merge (REG_OUT insn 0) (REG_IN insn 0)) s)"

definition builtin_clz :: "int \<Rightarrow> u32 \<Rightarrow> int" where
  "builtin_clz clz0 w =
     (if w = 0 then clz0 else int (length (takeWhile (\<lambda>i. \<not> bit w i) (rev [0..<32]))))"

definition mul_exec :: exec where
  "mul_exec insn pc s0 =
     (let s = merge_ins insn s0
      in (iss_insn_next insn pc, REG_SET insn 0 (ucast (lib_MULU (ucast (REG_GET insn 0 s)) (ucast (REG_GET insn 1 s)))) s))"

definition mulh_exec :: exec where
  "mulh_exec insn pc s0 =
     (let s = merge_ins insn s0
      in (iss_insn_next insn pc, REG_SET insn 0 (ucast (signed_drop_bit 32 (scast (REG_GET insn 0 s) * scast (REG_GET insn 1 s) :: u64))) s))"

definition mulhsu_exec :: exec where
  "mulhsu_exec insn pc s0 =
     (let s = merge_ins insn s0
      in (iss_insn_next insn pc, REG_SET insn 0 (ucast (signed_drop_bit 32 (scast (REG_GET insn 0 s) * ucast (REG_GET insn 1 s) :: u64))) s))"

definition mulhu_exec :: exec where
  "mulhu_exec insn pc s0 =
     (let s = merge_ins insn s0
      in (iss_insn_next insn pc, REG_SET insn 0 (ucast (drop_bit 32 (ucast (REG_GET insn 0 s) * ucast (REG_GET insn 1 s) :: u64))) s))"

text \<open>The stall cycles of a signed division.\<close>

definition div_cycles :: "int \<Rightarrow> u32 \<Rightarrow> int" where
  "div_cycles clz0 divider =
     (if divider = 0 then 1 else if sint divider > 0 then builtin_clz clz0 divider + 3
      else builtin_clz clz0 (NOT divider + 1) + 2)"

definition div_exec :: "int \<Rightarrow> exec" where
  "div_exec clz0 insn pc s0 =
     (let s = merge_ins insn s0;
          divider = REG_GET insn 1 s; dividend = REG_GET insn 0 s;
          result = (if divider = 0 then -1
                    else if divider = push_bit 31 1 \<and> dividend = -1 then 0
                    else if dividend = push_bit 31 1 \<and> divider = -1 then push_bit 31 1
                    else word_of_int (sint dividend sdiv sint divider))
      in (iss_insn_next insn pc,
          on_tm (stall_insn_dependency_account (div_cycles clz0 divider)) (REG_SET insn 0 result s)))"

definition rem_exec :: "int \<Rightarrow> exec" where
  "rem_exec clz0 insn pc s0 =
     (let s = merge_ins insn s0;
          divider = REG_GET insn 1 s; dividend = REG_GET insn 0 s;
          result = (if divider = 0 then dividend
                    else if divider = push_bit 31 1 \<and> dividend = -1 then -1
                    else if dividend = push_bit 31 1 \<and> divider = -1 then 0
                    else word_of_int (sint dividend smod sint divider))
      in (iss_insn_next insn pc,
          on_tm (stall_insn_dependency_account (div_cycles clz0 divider)) (REG_SET insn 0 result s)))"

definition divu_exec :: "int \<Rightarrow> exec" where
  "divu_exec clz0 insn pc s0 =
     (let s = merge_ins insn s0;
          divider = REG_GET insn 1 s; dividend = REG_GET insn 0 s;
          result = (if divider = 0 then -1 else dividend div divider)
      in (iss_insn_next insn pc,
          on_tm (stall_insn_dependency_account (builtin_clz clz0 divider + 3)) (REG_SET insn 0 result s)))"

definition remu_exec :: "int \<Rightarrow> exec" where
  "remu_exec clz0 insn pc s0 =
     (let s = merge_ins insn s0;
          divider = REG_GET insn 1 s; dividend = REG_GET insn 0 s;
          result = (if divider = 0 then dividend else dividend mod divider)
      in (iss_insn_next insn pc,
          on_tm (stall_insn_dependency_account (builtin_clz clz0 divider + 3)) (REG_SET insn 0 result s)))"

end
