(* ===== verification/Rv32Spec.thy ===== *)
theory Rv32Spec imports Rv32m begin

text \<open>
  What the integer instructions compute: the results of the arithmetic instructions of \<open>Rv32i\<close> and
  \<open>Rv32m\<close> against integer arithmetic, the branches and jumps, and the soundness of the validity bits
  (a two-run property: what is marked valid depends on valid bits only), with the instructions for
  which it fails.
\<close>

section \<open>The arithmetic instructions against integer arithmetic\<close>

text \<open>A handler that falls through, writes \<open>f\<close> of the registers into its output register and changes
  nothing else but the validity bits.\<close>

definition computes :: "exec \<Rightarrow> (iss_insn \<Rightarrow> (nat \<Rightarrow> u32) \<Rightarrow> u32) \<Rightarrow> bool" where
  "computes h f \<longleftrightarrow> (\<forall>insn pc s. case h insn pc s of (pc', s') \<Rightarrow>
     pc' = pc + insn_size insn
     \<and> regs (iss_regfile s') = (regs (iss_regfile s))(REG_OUT insn 0 := f insn (regs (iss_regfile s)))
     \<and> s'\<lparr>iss_regfile := iss_regfile s\<rparr> = s)"

abbreviation rs1 :: "iss_insn \<Rightarrow> (nat \<Rightarrow> u32) \<Rightarrow> u32" where "rs1 insn r \<equiv> r (REG_IN insn 0)"
abbreviation rs2 :: "iss_insn \<Rightarrow> (nat \<Rightarrow> u32) \<Rightarrow> u32" where "rs2 insn r \<equiv> r (REG_IN insn 1)"

lemmas memcheck_defs = memcheck_merge_def memcheck_set_valid_def memcheck_get_valid_def memcheck_get_def
  memcheck_set_def memcheck_copy_def memcheck_bitwise_and_def memcheck_shift_left_def memcheck_shift_right_def
  memcheck_shift_right_signed_def memcheck_shift_reg_def

lemma memcheck_regs [simp]:
  "regs (memcheck_merge d i rf) = regs rf" "regs (memcheck_copy d i rf) = regs rf" "regs (memcheck_set d v rf) = regs rf"
  "regs (memcheck_bitwise_and d i j rf) = regs rf" "regs (memcheck_shift_left d i n rf) = regs rf"
  "regs (memcheck_shift_right d i n rf) = regs rf" "regs (memcheck_shift_right_signed d i n rf) = regs rf"
  "regs (memcheck_branch_reg i rf) = regs rf" "regs (memcheck_access_reg i rf) = regs rf"
  "regs (memcheck_set_valid d b rf) = regs rf"
  by (simp_all add: memcheck_defs memcheck_branch_reg_def memcheck_access_reg_def Let_def)

lemma computesI:
  assumes "\<And>insn pc s. h insn pc s = (iss_insn_next insn pc, REG_SET insn 0 (f insn (regs (iss_regfile s))) (on_rf (m insn) s))"
    and "\<And>insn rf. regs (m insn rf) = regs rf"
  shows "computes h f"
  unfolding computes_def by (auto simp: assms iss_insn_next_def set_reg_def on_rf_def)

lemma shift_count: "unat (b AND 31 :: u32) = unat b mod 32"
proof -
  have "(31 :: u32) = mask 5" by (simp add: mask_eq_exp_minus_1)
  then have "unat (b AND 31) = take_bit 5 (unat b)"
    by (simp only: take_bit_eq_mask[symmetric] unsigned_take_bit_eq)
  then show ?thesis by (simp add: take_bit_eq_mod[of 5 "unat b"])
qed

lemma word_of_int_sint_id: "word_of_int (sint w) = w" for w :: "'a::len word"
  by simp

lemma word_shift_ints:
  fixes a :: "'a::len word"
  shows "push_bit n a = word_of_int (uint a * 2 ^ n)" "drop_bit n a = word_of_int (uint a div 2 ^ n)"
    "signed_drop_bit n a = word_of_int (sint a div 2 ^ n)"
proof -
  show "push_bit n a = word_of_int (uint a * 2 ^ n)" by (simp add: push_bit_eq_mult)
  have "uint (drop_bit n a) = drop_bit n (uint a)" by (simp only: unsigned_drop_bit_eq bintr_uint[OF order_refl])
  then have "uint (drop_bit n a) = uint a div 2 ^ n" by (simp only: drop_bit_eq_div)
  then show "drop_bit n a = word_of_int (uint a div 2 ^ n)" by (metis word_of_int_uint)
  have "sint (signed_drop_bit n a) = sint a div 2 ^ n" by (simp add: sint_signed_drop_bit_eq drop_bit_eq_div)
  then show "signed_drop_bit n a = word_of_int (sint a div 2 ^ n)" by (metis word_of_int_sint_id)
qed

lemmas alu_defs = lib_ADD_def lib_SUB_def lib_XOR_def lib_OR_def lib_AND_def lib_SLL_def lib_SRL_def lib_SRA_def

lemma computes_alu_reg:
  "computes add_exec (\<lambda>i r. word_of_int (uint (rs1 i r) + uint (rs2 i r)))"
  "computes sub_exec (\<lambda>i r. word_of_int (uint (rs1 i r) - uint (rs2 i r)))"
  "computes sll_exec (\<lambda>i r. word_of_int (uint (rs1 i r) * 2 ^ (unat (rs2 i r) mod 32)))"
  "computes srl_exec (\<lambda>i r. word_of_int (uint (rs1 i r) div 2 ^ (unat (rs2 i r) mod 32)))"
  "computes sra_exec (\<lambda>i r. word_of_int (sint (rs1 i r) div 2 ^ (unat (rs2 i r) mod 32)))"
  "computes slt_exec (\<lambda>i r. of_bool (sint (rs1 i r) < sint (rs2 i r)))"
  "computes sltu_exec (\<lambda>i r. of_bool (uint (rs1 i r) < uint (rs2 i r)))"
  "computes xor_exec (\<lambda>i r. rs1 i r XOR rs2 i r)"
  "computes or_exec (\<lambda>i r. rs1 i r OR rs2 i r)"
  "computes and_exec (\<lambda>i r. rs1 i r AND rs2 i r)"
  by (simp_all add: computes_def add_exec_def sub_exec_def sll_exec_def srl_exec_def sra_exec_def slt_exec_def sltu_exec_def
      xor_exec_def or_exec_def and_exec_def alu_defs shift_count word_shift_ints[symmetric] iss_insn_next_def
      set_reg_def get_reg_def on_rf_def Let_def memcheck_shift_reg_def word_less_def of_bool_def push_bit_eq_mult)

text \<open>C12: register and register. The ten instructions compute the operations of the instruction set
  on the values of their two registers, as integers modulo 2^32; they fall through and change nothing
  else but the validity bits.\<close>

theorem rv32i_alu_reg:
  "computes add_exec (\<lambda>i r. word_of_int (uint (rs1 i r) + uint (rs2 i r)))
   \<and> computes sub_exec (\<lambda>i r. word_of_int (uint (rs1 i r) - uint (rs2 i r)))
   \<and> computes sll_exec (\<lambda>i r. word_of_int (uint (rs1 i r) * 2 ^ (unat (rs2 i r) mod 32)))
   \<and> computes srl_exec (\<lambda>i r. word_of_int (uint (rs1 i r) div 2 ^ (unat (rs2 i r) mod 32)))
   \<and> computes sra_exec (\<lambda>i r. word_of_int (sint (rs1 i r) div 2 ^ (unat (rs2 i r) mod 32)))
   \<and> computes slt_exec (\<lambda>i r. of_bool (sint (rs1 i r) < sint (rs2 i r)))
   \<and> computes sltu_exec (\<lambda>i r. of_bool (uint (rs1 i r) < uint (rs2 i r)))
   \<and> computes xor_exec (\<lambda>i r. rs1 i r XOR rs2 i r) \<and> computes or_exec (\<lambda>i r. rs1 i r OR rs2 i r)
   \<and> computes and_exec (\<lambda>i r. rs1 i r AND rs2 i r)"
  using computes_alu_reg by simp

text \<open>Register and immediate, and the upper immediates. Likewise, with the decoded immediate as
  second operand; the shift count of a decoded instruction is below 32.\<close>

theorem rv32i_alu_imm:
  "computes addi_exec (\<lambda>i r. word_of_int (uint (rs1 i r) + uint (SIM_GET i 0)))
   \<and> computes slti_exec (\<lambda>i r. of_bool (sint (rs1 i r) < sint (SIM_GET i 0)))
   \<and> computes sltiu_exec (\<lambda>i r. of_bool (uint (rs1 i r) < uint (SIM_GET i 0)))
   \<and> computes xori_exec (\<lambda>i r. rs1 i r XOR SIM_GET i 0) \<and> computes ori_exec (\<lambda>i r. rs1 i r OR SIM_GET i 0)
   \<and> computes andi_exec (\<lambda>i r. rs1 i r AND SIM_GET i 0)
   \<and> computes slli_exec (\<lambda>i r. word_of_int (uint (rs1 i r) * 2 ^ unat (UIM_GET i 0)))
   \<and> computes srli_exec (\<lambda>i r. word_of_int (uint (rs1 i r) div 2 ^ unat (UIM_GET i 0)))
   \<and> computes srai_exec (\<lambda>i r. word_of_int (sint (rs1 i r) div 2 ^ unat (UIM_GET i 0)))
   \<and> computes lui_exec (\<lambda>i r. UIM_GET i 0)"
  by (simp add: computes_def addi_exec_def slti_exec_def sltiu_exec_def xori_exec_def ori_exec_def andi_exec_def
      slli_exec_def srli_exec_def srai_exec_def lui_exec_def alu_defs word_shift_ints[symmetric] iss_insn_next_def
      set_reg_def get_reg_def on_rf_def Let_def word_less_def of_bool_def push_bit_eq_mult)

section \<open>Multiplication and division\<close>

lemma ucast_word_of_int_64: "(ucast (word_of_int k :: u64) :: u32) = word_of_int k"
proof -
  have "k mod 18446744073709551616 = take_bit 64 k" by (simp add: take_bit_eq_mod)
  then show ?thesis by (simp add: word_of_int_eq_iff uint_word_of_int ucast_eq)
qed

lemma mulh_word_of_int:
  assumes "- (2 ^ 63) \<le> k" "k < 2 ^ 63"
  shows "(ucast (signed_drop_bit 32 (word_of_int k :: u64)) :: u32) = word_of_int (k div 2 ^ 32)"
proof -
  have "sint (word_of_int k :: u64) = k" using assms by (simp add: sint_sbintrunc' signed_take_bit_int_eq_self)
  then show ?thesis by (simp add: word_shift_ints(3) ucast_word_of_int_64 del: signed_drop_bit_word_numeral)
qed

lemma mulh_int:
  fixes a b :: u32
  shows "ucast (signed_drop_bit 32 (scast a * scast b :: u64)) = (word_of_int (sint a * sint b div 2 ^ 32) :: u32)"
    and "ucast (signed_drop_bit 32 (scast a * ucast b :: u64)) = (word_of_int (sint a * uint b div 2 ^ 32) :: u32)"
    and "ucast (drop_bit 32 (ucast a * ucast b :: u64)) = (word_of_int (uint a * uint b div 2 ^ 32) :: u32)"
    and "ucast (ucast a * ucast b :: u64) = (word_of_int (uint a * uint b) :: u32)"
proof -
  have s: "\<bar>sint c\<bar> \<le> 2 ^ 31" for c :: u32
    using sint_range_size[of c] by (auto simp: word_size abs_le_iff)
  have u: "\<bar>uint c\<bar> \<le> 2 ^ 32" for c :: u32 using uint_lt2p[of c] by simp
  have p: "scast a * scast b = (word_of_int (sint a * sint b) :: u64)"
    "scast a * ucast b = (word_of_int (sint a * uint b) :: u64)"
    "ucast a * ucast b = (word_of_int (uint a * uint b) :: u64)"
    by (simp_all only: scast_eq ucast_eq of_int_mult)
  show "ucast (ucast a * ucast b :: u64) = (word_of_int (uint a * uint b) :: u32)"
    unfolding p by (rule ucast_word_of_int_64)
  have "\<bar>sint a * sint b\<bar> \<le> 2 ^ 31 * 2 ^ 31" unfolding abs_mult using s by (intro mult_mono) auto
  then show "ucast (signed_drop_bit 32 (scast a * scast b :: u64)) = (word_of_int (sint a * sint b div 2 ^ 32) :: u32)"
    unfolding p by (intro mulh_word_of_int) (simp_all add: abs_le_iff)
  have "\<bar>sint a * uint b\<bar> \<le> 2 ^ 31 * (2 ^ 32 - 1)" unfolding abs_mult using s[of a] uint_lt2p[of b] by (intro mult_mono) auto
  then show "ucast (signed_drop_bit 32 (scast a * ucast b :: u64)) = (word_of_int (sint a * uint b div 2 ^ 32) :: u32)"
    unfolding p by (intro mulh_word_of_int) (simp_all add: abs_le_iff)
  have "uint a * uint b < 2 ^ 32 * 2 ^ 32" using uint_lt2p[of a] uint_lt2p[of b] by (intro mult_strict_mono) auto
  then have "uint (word_of_int (uint a * uint b) :: u64) = uint a * uint b"
    unfolding uint_word_of_int by (intro mod_pos_pos_trivial) simp_all
  then show "ucast (drop_bit 32 (ucast a * ucast b :: u64)) = (word_of_int (uint a * uint b div 2 ^ 32) :: u32)"
    unfolding p by (simp add: word_shift_ints(2) ucast_word_of_int_64 del: drop_bit_word_numeral)
qed

text \<open>A handler, but for the stall cycles it accounts.\<close>

definition untimed :: "exec \<Rightarrow> exec" where
  "untimed h insn pc s = (case h insn pc s of (pc', s') \<Rightarrow> (pc', s'\<lparr>iss_timing := iss_timing s\<rparr>))"

lemma sdiv_cases:
  fixes a b :: u32
  shows "(if b = 0 then -1 else if b = push_bit 31 1 \<and> a = -1 then 0
     else if a = push_bit 31 1 \<and> b = -1 then push_bit 31 1 else word_of_int (sint a sdiv sint b))
    = word_of_int (if sint b = 0 then -1 else sint a sdiv sint b)"
  and "(if b = 0 then a else if b = push_bit 31 1 \<and> a = -1 then -1
     else if a = push_bit 31 1 \<and> b = -1 then 0 else word_of_int (sint a smod sint b))
    = word_of_int (if sint b = 0 then sint a else sint a smod sint b)"
  by (auto simp: signed_divide_int_def signed_modulo_int_def signed_eq_0_iff)

lemmas computes_defs = computes_def untimed_def iss_insn_next_def set_reg_def get_reg_def on_rf_def on_tm_def

lemma udiv_cases:
  fixes a b :: u32
  shows "(if b = 0 then -1 else a div b) = word_of_int (if uint b = 0 then -1 else uint a div uint b)"
    and "(if b = 0 then a else a mod b) = word_of_int (if uint b = 0 then uint a else uint a mod uint b)"
  by (simp_all add: word_div_def word_mod_def unsigned_eq_0_iff)

lemma computes_mul:
  "computes mul_exec (\<lambda>i r. word_of_int (uint (rs1 i r) * uint (rs2 i r)))"
  "computes mulh_exec (\<lambda>i r. word_of_int (sint (rs1 i r) * sint (rs2 i r) div 2 ^ 32))"
  "computes mulhsu_exec (\<lambda>i r. word_of_int (sint (rs1 i r) * uint (rs2 i r) div 2 ^ 32))"
  "computes mulhu_exec (\<lambda>i r. word_of_int (uint (rs1 i r) * uint (rs2 i r) div 2 ^ 32))"
  unfolding computes_def mul_exec_def mulh_exec_def mulhsu_exec_def mulhu_exec_def Let_def lib_MULU_def mulh_int
  by (simp_all add: computes_defs)

lemma computes_div:
  "computes (untimed (div_exec z)) (\<lambda>i r. word_of_int (if sint (rs2 i r) = 0 then -1 else sint (rs1 i r) sdiv sint (rs2 i r)))"
  "computes (untimed (rem_exec z)) (\<lambda>i r. word_of_int (if sint (rs2 i r) = 0 then sint (rs1 i r) else sint (rs1 i r) smod sint (rs2 i r)))"
  "computes (untimed (divu_exec z)) (\<lambda>i r. word_of_int (if uint (rs2 i r) = 0 then -1 else uint (rs1 i r) div uint (rs2 i r)))"
  "computes (untimed (remu_exec z)) (\<lambda>i r. word_of_int (if uint (rs2 i r) = 0 then uint (rs1 i r) else uint (rs1 i r) mod uint (rs2 i r)))"
  unfolding computes_def untimed_def div_exec_def rem_exec_def divu_exec_def remu_exec_def Let_def sdiv_cases udiv_cases
  by (simp_all add: computes_defs)

text \<open>C14: the M extension. The eight instructions compute the products and quotients of the instruction
  set, on the integers the registers stand for: the division truncates, by zero it gives -1 and the
  dividend, and the overflowing division the dividend and 0. The multiplications change nothing else
  but the validity bits, and the divisions also account their stall cycles.\<close>

theorem rv32m_spec:
  "computes mul_exec (\<lambda>i r. word_of_int (uint (rs1 i r) * uint (rs2 i r)))
   \<and> computes mulh_exec (\<lambda>i r. word_of_int (sint (rs1 i r) * sint (rs2 i r) div 2 ^ 32))
   \<and> computes mulhsu_exec (\<lambda>i r. word_of_int (sint (rs1 i r) * uint (rs2 i r) div 2 ^ 32))
   \<and> computes mulhu_exec (\<lambda>i r. word_of_int (uint (rs1 i r) * uint (rs2 i r) div 2 ^ 32))
   \<and> computes (untimed (div_exec z)) (\<lambda>i r. word_of_int (if sint (rs2 i r) = 0 then -1 else sint (rs1 i r) sdiv sint (rs2 i r)))
   \<and> computes (untimed (rem_exec z)) (\<lambda>i r. word_of_int (if sint (rs2 i r) = 0 then sint (rs1 i r) else sint (rs1 i r) smod sint (rs2 i r)))
   \<and> computes (untimed (divu_exec z)) (\<lambda>i r. word_of_int (if uint (rs2 i r) = 0 then -1 else uint (rs1 i r) div uint (rs2 i r)))
   \<and> computes (untimed (remu_exec z)) (\<lambda>i r. word_of_int (if uint (rs2 i r) = 0 then uint (rs1 i r) else uint (rs1 i r) mod uint (rs2 i r)))"
  using computes_mul computes_div by simp

section \<open>Validity bits\<close>

text \<open>Two register files that have the same validity bits and agree on every bit marked valid. A
  handler is sound when its results agree again: what it marks valid depends on valid bits only.\<close>

definition mc_agree :: "regfile \<Rightarrow> regfile \<Rightarrow> bool" where
  "mc_agree rf1 rf2 \<longleftrightarrow> regs_memcheck rf1 = regs_memcheck rf2
     \<and> (\<forall>r k. bit (regs_memcheck rf1 r) k \<longrightarrow> bit (regs rf1 r) k = bit (regs rf2 r) k)"

definition mc_sound :: "exec \<Rightarrow> bool" where
  "mc_sound h \<longleftrightarrow> (\<forall>insn pc s1 s2. unat (UIM_GET insn 0) < 32 \<longrightarrow> mc_agree (iss_regfile s1) (iss_regfile s2)
     \<longrightarrow> mc_agree (iss_regfile (snd (h insn pc s1))) (iss_regfile (snd (h insn pc s2))))"

definition marks :: "exec \<Rightarrow> (iss_insn \<Rightarrow> regfile \<Rightarrow> u32) \<Rightarrow> bool" where
  "marks h m \<longleftrightarrow> (\<forall>insn pc s. regs_memcheck (iss_regfile (snd (h insn pc s)))
     = (regs_memcheck (iss_regfile s))(REG_OUT insn 0 := m insn (iss_regfile s)))"

lemma mc_soundI:
  assumes "computes h f" "marks h m"
    and "\<And>insn rf1 rf2. unat (UIM_GET insn 0) < 32 \<Longrightarrow> mc_agree rf1 rf2 \<Longrightarrow> m insn rf1 = m insn rf2"
    and "\<And>insn rf1 rf2 k. unat (UIM_GET insn 0) < 32 \<Longrightarrow> mc_agree rf1 rf2 \<Longrightarrow> bit (m insn rf1) k
           \<Longrightarrow> bit (f insn (regs rf1)) k = bit (f insn (regs rf2)) k"
  shows "mc_sound h"
  unfolding mc_sound_def
proof (intro allI impI)
  fix insn pc and s1 s2 :: iss assume u: "unat (UIM_GET insn 0) < 32" and a: "mc_agree (iss_regfile s1) (iss_regfile s2)"
  have r: "regs (iss_regfile (snd (h insn pc s))) = (regs (iss_regfile s))(REG_OUT insn 0 := f insn (regs (iss_regfile s)))" for s
    using assms(1) unfolding computes_def by (metis (mono_tags, lifting) case_prod_beta)
  have "regs_memcheck (iss_regfile (snd (h insn pc s))) = (regs_memcheck (iss_regfile s))(REG_OUT insn 0 := m insn (iss_regfile s))" for s
    using assms(2) unfolding marks_def by blast
  then show "mc_agree (iss_regfile (snd (h insn pc s1))) (iss_regfile (snd (h insn pc s2)))"
    unfolding mc_agree_def r using assms(3,4)[OF u a] a by (auto simp: mc_agree_def)
qed

lemma mc_agree_check: "mc_agree rf1 rf2 \<Longrightarrow> regs_memcheck rf1 r = regs_memcheck rf2 r"
  by (simp add: mc_agree_def)

lemma mc_agree_bit: "mc_agree rf1 rf2 \<Longrightarrow> bit (regs_memcheck rf2 r) k \<Longrightarrow> bit (regs rf1 r) k = bit (regs rf2 r) k"
  by (auto simp: mc_agree_def)

lemma mc_agree_all: "mc_agree rf1 rf2 \<Longrightarrow> regs_memcheck rf2 r = -1 \<Longrightarrow> regs rf1 r = regs rf2 r"
  by (rule bit_word_eqI) (simp add: mc_agree_bit)

abbreviation mc1 :: "iss_insn \<Rightarrow> regfile \<Rightarrow> u32" where "mc1 i rf \<equiv> regs_memcheck rf (REG_IN i 0)"
abbreviation mc2 :: "iss_insn \<Rightarrow> regfile \<Rightarrow> u32" where "mc2 i rf \<equiv> regs_memcheck rf (REG_IN i 1)"

lemmas marks_defs = marks_def memcheck_defs set_reg_def get_reg_def on_rf_def Let_def

lemma marks_imm:
  "marks addi_exec (\<lambda>i rf. if mc1 i rf = -1 then -1 else 0)" "marks slti_exec (\<lambda>i rf. if mc1 i rf = -1 then -1 else 0)"
  "marks sltiu_exec (\<lambda>i rf. if mc1 i rf = -1 then -1 else 0)"
  "marks xori_exec mc1" "marks ori_exec mc1" "marks andi_exec mc1" "marks lui_exec (\<lambda>i rf. -1)"
  by (simp_all add: marks_defs addi_exec_def slti_exec_def sltiu_exec_def xori_exec_def ori_exec_def andi_exec_def lui_exec_def)

lemma marks_bitwise:
  "marks xor_exec (\<lambda>i rf. mc1 i rf AND mc2 i rf)" "marks or_exec (\<lambda>i rf. mc1 i rf AND mc2 i rf)"
  "marks and_exec (\<lambda>i rf. mc1 i rf AND mc2 i rf)"
  by (simp_all add: marks_defs xor_exec_def or_exec_def and_exec_def)

text \<open>The validity of a shifted register, for a count below 32.\<close>

definition mc_sll :: "nat \<Rightarrow> u32 \<Rightarrow> u32" where "mc_sll n v = push_bit n v OR (push_bit n 1 - 1)"
definition mc_srl :: "nat \<Rightarrow> u32 \<Rightarrow> u32" where "mc_srl n v = drop_bit n v OR push_bit (32 - n) (push_bit n 1 - 1)"
definition mc_sra :: "nat \<Rightarrow> u32 \<Rightarrow> u32" where
  "mc_sra n v = (if drop_bit 31 v AND 1 \<noteq> 0 then drop_bit n v OR push_bit (32 - n) (push_bit n 1 - 1) else drop_bit n v)"

lemma bit_mc_shift:
  assumes "n < 32" "k < 32"
  shows "bit (mc_sll n v) k = (k < n \<or> bit v (k - n))" "bit (mc_srl n v) k = (32 - n \<le> k \<or> bit v (k + n))"
    "bit (mc_sra n v) k = (if 32 - n \<le> k then bit v 31 else bit v (k + n))"
proof -
  have m: "push_bit n 1 - 1 = (mask n :: u32)" by (simp add: mask_eq_exp_minus_1)
  have b: "(drop_bit 31 v AND 1 \<noteq> 0) = bit v 31" 
    by (simp add: bit_iff_odd_drop_bit even_iff_mod_2_eq_zero and_one_eq odd_iff_mod_2_eq_one)
  note L = bit_imp_le_length[of v]
  show "bit (mc_sll n v) k = (k < n \<or> bit v (k - n))" unfolding mc_sll_def m
    using assms by (auto simp: bit_simps)
  show "bit (mc_srl n v) k = (32 - n \<le> k \<or> bit v (k + n))" unfolding mc_srl_def m
    using assms by (auto simp: bit_simps add.commute)
  show "bit (mc_sra n v) k = (if 32 - n \<le> k then bit v 31 else bit v (k + n))" unfolding mc_sra_def m b
    using assms L[of "k + n"] by (auto simp: bit_simps add.commute)
qed

lemma marks_shift:
  "marks slli_exec (\<lambda>i rf. mc_sll (unat (UIM_GET i 0)) (mc1 i rf))"
  "marks srli_exec (\<lambda>i rf. mc_srl (unat (UIM_GET i 0)) (mc1 i rf))"
  "marks srai_exec (\<lambda>i rf. mc_sra (unat (UIM_GET i 0)) (mc1 i rf))"
  "marks sll_exec (\<lambda>i rf. if mc2 i rf = -1 then mc_sll (unat (regs rf (REG_IN i 1)) mod 32) (mc1 i rf) else 0)"
  "marks srl_exec (\<lambda>i rf. if mc2 i rf = -1 then mc_srl (unat (regs rf (REG_IN i 1)) mod 32) (mc1 i rf) else 0)"
  "marks sra_exec (\<lambda>i rf. if mc2 i rf = -1 then mc_sra (unat (regs rf (REG_IN i 1)) mod 32) (mc1 i rf) else 0)"
  by (simp_all add: marks_defs slli_exec_def srli_exec_def srai_exec_def sll_exec_def srl_exec_def sra_exec_def
      mc_sll_def mc_srl_def mc_sra_def shift_count)

lemma mc_sound_all:
  assumes "computes h (\<lambda>i r. g i (rs1 i r))" "marks h (\<lambda>i rf. if mc1 i rf = -1 then -1 else 0)"
  shows "mc_sound h"
proof (rule mc_soundI[OF assms])
  fix insn rf1 rf2 k assume a: "mc_agree rf1 rf2"
  show "(if mc1 insn rf1 = -1 then -1 else 0) = (if mc1 insn rf2 = -1 then -1 else (0 :: u32))"
    by (simp add: mc_agree_check[OF a])
  assume "bit (if mc1 insn rf1 = -1 then -1 else (0 :: u32)) k"
  then have "rs1 insn (regs rf1) = rs1 insn (regs rf2)"
    using mc_agree_all[OF a] by (simp add: mc_agree_check[OF a] split: if_splits)
  then show "bit (g insn (rs1 insn (regs rf1))) k = bit (g insn (rs1 insn (regs rf2))) k" by simp
qed

lemma mc_sound_bits:
  assumes "computes h (\<lambda>i r. g i (rs1 i r))" "marks h mc1"
    and "\<And>i a b k. bit a k = bit b k \<Longrightarrow> bit (g i a) k = bit (g i b) k"
  shows "mc_sound h"
  by (rule mc_soundI[OF assms(1,2)]; (rule assms(3))?; simp add: mc_agree_def)

lemma mc_sound_bits2:
  assumes "computes h (\<lambda>i r. g (rs1 i r) (rs2 i r))" "marks h (\<lambda>i rf. mc1 i rf AND mc2 i rf)"
    and "\<And>a b c d k. bit a k = bit b k \<Longrightarrow> bit c k = bit d k \<Longrightarrow> bit (g a c) k = bit (g b d) k"
  shows "mc_sound h"
  by (rule mc_soundI[OF assms(1,2)]; (rule assms(3))?; simp add: mc_agree_def bit_and_iff)

lemma mc_sound_imm:
  "mc_sound addi_exec" "mc_sound slti_exec" "mc_sound sltiu_exec" "mc_sound xori_exec" "mc_sound ori_exec"
  "mc_sound andi_exec" "mc_sound lui_exec"
proof -
  note C = rv32i_alu_imm
  show "mc_sound addi_exec"
    by (rule mc_sound_all[where g = "\<lambda>i a. word_of_int (uint a + uint (SIM_GET i 0))"]) (use C marks_imm in blast)+
  show "mc_sound slti_exec"
    by (rule mc_sound_all[where g = "\<lambda>i a. of_bool (sint a < sint (SIM_GET i 0))"]) (use C marks_imm in blast)+
  show "mc_sound sltiu_exec"
    by (rule mc_sound_all[where g = "\<lambda>i a. of_bool (uint a < uint (SIM_GET i 0))"]) (use C marks_imm in blast)+
  show "mc_sound xori_exec"
    by (rule mc_sound_bits[where g = "\<lambda>i a. a XOR SIM_GET i 0"]) (use C marks_imm in \<open>auto simp: bit_xor_iff\<close>)
  show "mc_sound ori_exec"
    by (rule mc_sound_bits[where g = "\<lambda>i a. a OR SIM_GET i 0"]) (use C marks_imm in \<open>auto simp: bit_or_iff\<close>)
  show "mc_sound andi_exec"
    by (rule mc_sound_bits[where g = "\<lambda>i a. a AND SIM_GET i 0"]) (use C marks_imm in \<open>auto simp: bit_and_iff\<close>)
  have "computes lui_exec (\<lambda>i r. UIM_GET i 0)" using C by blast
  from mc_soundI[OF this marks_imm(7)] show "mc_sound lui_exec" by simp
qed

lemma mc_sound_bitwise: "mc_sound xor_exec" "mc_sound or_exec" "mc_sound and_exec"
proof -
  note C = computes_alu_reg
  show "mc_sound xor_exec"
    by (rule mc_sound_bits2[where g = "(XOR)"]) (use C marks_bitwise in \<open>auto simp: bit_xor_iff\<close>)
  show "mc_sound or_exec"
    by (rule mc_sound_bits2[where g = "(OR)"]) (use C marks_bitwise in \<open>auto simp: bit_or_iff\<close>)
  show "mc_sound and_exec"
    by (rule mc_sound_bits2[where g = "(AND)"]) (use C marks_bitwise in \<open>auto simp: bit_and_iff\<close>)
qed

lemma len32: "LENGTH(32) = 32" by simp

lemma mc_shift_bits:
  assumes "n < 32" "mc_agree rf1 rf2"
  shows "bit (mc_sll n (regs_memcheck rf2 r)) k \<Longrightarrow> bit (push_bit n (regs rf1 r)) k = bit (push_bit n (regs rf2 r)) k"
    and "bit (mc_srl n (regs_memcheck rf2 r)) k \<Longrightarrow> bit (drop_bit n (regs rf1 r)) k = bit (drop_bit n (regs rf2 r)) k"
    and "bit (mc_sra n (regs_memcheck rf2 r)) k \<Longrightarrow> bit (signed_drop_bit n (regs rf1 r)) k = bit (signed_drop_bit n (regs rf2 r)) k"
proof (atomize(full), cases "k < 32")
  case False
  then have n: "\<not> bit w k" for w :: u32 using bit_imp_le_length[of w k] by auto
  show "(bit (mc_sll n (regs_memcheck rf2 r)) k \<longrightarrow> bit (push_bit n (regs rf1 r)) k = bit (push_bit n (regs rf2 r)) k)
    \<and> (bit (mc_srl n (regs_memcheck rf2 r)) k \<longrightarrow> bit (drop_bit n (regs rf1 r)) k = bit (drop_bit n (regs rf2 r)) k)
    \<and> (bit (mc_sra n (regs_memcheck rf2 r)) k \<longrightarrow> bit (signed_drop_bit n (regs rf1 r)) k = bit (signed_drop_bit n (regs rf2 r)) k)"
    using n by blast
next
  case True
  have l: "bit (push_bit n a) k = (n \<le> k \<and> bit a (k - n))" "bit (drop_bit n a) k = bit a (k + n)"
    "bit (signed_drop_bit n a) k = (if 32 - n \<le> k then bit a 31 else bit a (k + n))" for a :: u32
    using True by (simp_all only: bit_push_bit_iff bit_drop_bit_eq bit_signed_drop_bit_iff len32) (simp_all add: add.commute)
  have hi: "\<not> bit a (k + n)" if "32 - n \<le> k" for a :: u32 using that bit_imp_le_length[of a "k + n"] by auto
  note B = bit_mc_shift[OF assms(1) True] and A = mc_agree_bit[OF assms(2), of r]
  show "(bit (mc_sll n (regs_memcheck rf2 r)) k \<longrightarrow> bit (push_bit n (regs rf1 r)) k = bit (push_bit n (regs rf2 r)) k)
    \<and> (bit (mc_srl n (regs_memcheck rf2 r)) k \<longrightarrow> bit (drop_bit n (regs rf1 r)) k = bit (drop_bit n (regs rf2 r)) k)
    \<and> (bit (mc_sra n (regs_memcheck rf2 r)) k \<longrightarrow> bit (signed_drop_bit n (regs rf1 r)) k = bit (signed_drop_bit n (regs rf2 r)) k)"
    unfolding B l using A[of "k - n"] A[of "k + n"] A[of 31] hi[of "regs rf1 r"] hi[of "regs rf2 r"]
    by (cases "32 - n \<le> k") simp_all
qed

lemma mc_sound_shift:
  assumes "marks h (\<lambda>i rf. if valid i rf then m (n i rf) (mc1 i rf) else 0)" "computes h (\<lambda>i r. f (c i r) (rs1 i r))"
    and "\<And>i rf1 rf2. unat (UIM_GET i 0) < 32 \<Longrightarrow> mc_agree rf1 rf2 \<Longrightarrow> valid i rf1 = valid i rf2"
    and "\<And>i rf1 rf2. unat (UIM_GET i 0) < 32 \<Longrightarrow> mc_agree rf1 rf2 \<Longrightarrow> valid i rf2
           \<Longrightarrow> n i rf1 = n i rf2 \<and> n i rf2 < 32 \<and> c i (regs rf1) = n i rf2 \<and> c i (regs rf2) = n i rf2"
    and "\<And>k rf1 rf2 r j. j < 32 \<Longrightarrow> mc_agree rf1 rf2 \<Longrightarrow> bit (m j (regs_memcheck rf2 r)) k
           \<Longrightarrow> bit (f j (regs rf1 r)) k = bit (f j (regs rf2 r)) k"
  shows "mc_sound h"
proof (rule mc_soundI[OF assms(2,1)])
  fix i rf1 rf2 k assume u: "unat (UIM_GET i 0) < 32" and a: "mc_agree rf1 rf2"
  note F = assms(3)[OF u a] assms(4)[OF u a] mc_agree_check[OF a]
  show "(if valid i rf1 then m (n i rf1) (mc1 i rf1) else 0) = (if valid i rf2 then m (n i rf2) (mc1 i rf2) else 0)"
    using F by auto
  assume "bit (if valid i rf1 then m (n i rf1) (mc1 i rf1) else 0) k"
  then show "bit (f (c i (regs rf1)) (rs1 i (regs rf1))) k = bit (f (c i (regs rf2)) (rs1 i (regs rf2))) k"
    using F assms(5)[OF _ a] by (auto split: if_splits)
qed

lemma mc_sound_shift_imm: "mc_sound slli_exec" "mc_sound srli_exec" "mc_sound srai_exec"
proof -
  note C = rv32i_alu_imm[folded word_shift_ints]
  note R = mc_sound_shift[where valid = "\<lambda>i rf. True" and n = "\<lambda>i rf. unat (UIM_GET i 0)" and c = "\<lambda>i r. unat (UIM_GET i 0)",
      simplified if_True simp_thms]
  show "mc_sound slli_exec" by (rule R[where f = push_bit, OF marks_shift(1)]) (use C mc_shift_bits(1) in blast)+
  show "mc_sound srli_exec" by (rule R[where f = drop_bit, OF marks_shift(2)]) (use C mc_shift_bits(2) in blast)+
  show "mc_sound srai_exec" by (rule R[where f = signed_drop_bit, OF marks_shift(3)]) (use C mc_shift_bits(3) in blast)+
qed

lemma mc_sound_shift_reg: "mc_sound sll_exec" "mc_sound srl_exec" "mc_sound sra_exec"
proof -
  note C = computes_alu_reg[folded word_shift_ints]
  have v: "mc_agree rf1 rf2 \<Longrightarrow> (mc2 i rf1 = -1) = (mc2 i rf2 = -1)" for i rf1 rf2 by (simp add: mc_agree_def)
  have n: "mc_agree rf1 rf2 \<Longrightarrow> mc2 i rf2 = -1 \<Longrightarrow>
     unat (regs rf1 (REG_IN i 1)) mod 32 = unat (regs rf2 (REG_IN i 1)) mod 32 \<and> unat (regs rf2 (REG_IN i 1)) mod 32 < 32
     \<and> unat (rs2 i (regs rf1)) mod 32 = unat (regs rf2 (REG_IN i 1)) mod 32
     \<and> unat (rs2 i (regs rf2)) mod 32 = unat (regs rf2 (REG_IN i 1)) mod 32" for i rf1 rf2
    using mc_agree_all[of rf1 rf2 "REG_IN i 1"] by simp
  note R = mc_sound_shift[where c = "\<lambda>i r. unat (rs2 i r) mod 32", OF _ _ v n]
  show "mc_sound sll_exec" by (rule R[where f = push_bit, OF marks_shift(4)]) (use C mc_shift_bits(1) in blast)+
  show "mc_sound srl_exec" by (rule R[where f = drop_bit, OF marks_shift(5)]) (use C mc_shift_bits(2) in blast)+
  show "mc_sound sra_exec" by (rule R[where f = signed_drop_bit, OF marks_shift(6)]) (use C mc_shift_bits(3) in blast)+
qed

text \<open>C25: the validity bits are sound. For the instructions that follow them bit by bit or from one
  operand, and for the shifts, the bits of the result marked valid are a function of the valid bits of
  the registers: two runs that agree on the valid bits give results that agree on the valid bits.\<close>

theorem memcheck_sound:
  "mc_sound addi_exec \<and> mc_sound slti_exec \<and> mc_sound sltiu_exec \<and> mc_sound xori_exec \<and> mc_sound ori_exec
   \<and> mc_sound andi_exec \<and> mc_sound slli_exec \<and> mc_sound srli_exec \<and> mc_sound srai_exec \<and> mc_sound lui_exec
   \<and> mc_sound xor_exec \<and> mc_sound or_exec \<and> mc_sound and_exec \<and> mc_sound sll_exec \<and> mc_sound srl_exec \<and> mc_sound sra_exec"
  using mc_sound_imm mc_sound_bitwise mc_sound_shift_imm mc_sound_shift_reg by simp

text \<open>An addition of the registers 1 and 2 into 3, and two runs that differ in register 1 only, which
  is not initialised.\<close>

definition demo_insn :: iss_insn where
  "demo_insn = \<lparr>out_regs = [3], in_regs = [1, 2], uim = [0], sim = [0], insn_size = 4\<rparr>"

definition demo_uninit :: "u32 \<Rightarrow> iss" where
  "demo_uninit v = on_rf (\<lambda>rf. rf\<lparr>regs := (regs rf)(1 := v, 2 := 1), regs_memcheck := (regs_memcheck rf)(1 := 0)\<rparr>) demo_iss"

lemma mc_unsoundI:
  assumes "bit (regs_memcheck (iss_regfile (snd (h demo_insn 0 (demo_uninit 0)))) 3) 0"
    "bit (regs (iss_regfile (snd (h demo_insn 0 (demo_uninit 0)))) 3) 0
       \<noteq> bit (regs (iss_regfile (snd (h demo_insn 0 (demo_uninit 1)))) 3) 0"
  shows "\<not> mc_sound h"
proof -
  have "mc_agree (iss_regfile (demo_uninit 0)) (iss_regfile (demo_uninit 1))"
    by (simp add: mc_agree_def demo_uninit_def demo_iss_def demo_regfile_def on_rf_def)
  moreover have "unat (UIM_GET demo_insn 0) < 32" by (simp add: demo_insn_def)
  ultimately show ?thesis using assms unfolding mc_sound_def mc_agree_def by blast
qed

text \<open>The validity of a result of two operands is lost. The instructions that merge the validity of
  their two operands keep only that of the second one, so that a sum, difference, comparison or
  product with an uninitialised first operand is marked valid although it depends on it.\<close>

theorem memcheck_merge_unsound:
  "\<not> mc_sound add_exec \<and> \<not> mc_sound sub_exec \<and> \<not> mc_sound slt_exec \<and> \<not> mc_sound mul_exec"
  by (intro conjI; rule mc_unsoundI;
      simp add: add_exec_def sub_exec_def slt_exec_def mul_exec_def memcheck_defs alu_defs lib_MULU_def
        demo_uninit_def demo_iss_def demo_regfile_def demo_insn_def on_rf_def set_reg_def get_reg_def Let_def)

section \<open>Branches and jumps\<close>

definition branches :: "exec \<Rightarrow> (u32 \<Rightarrow> u32 \<Rightarrow> bool) \<Rightarrow> bool" where
  "branches h cond \<longleftrightarrow> (\<forall>insn pc s. case h insn pc s of (pc', s') \<Rightarrow>
     let taken = cond (rs1 insn (regs (iss_regfile s))) (rs2 insn (regs (iss_regfile s))) in
     pc' = (if taken then pc + SIM_GET insn 0 else pc + insn_size insn)
     \<and> regs (iss_regfile s') = regs (iss_regfile s) \<and> regs_memcheck (iss_regfile s') = regs_memcheck (iss_regfile s)
     \<and> stall_cycles (iss_timing s') = stall_cycles (iss_timing s) + (if taken then 2 else 0)
     \<and> memcheck_reg_fault (iss_regfile s') = (memcheck_reg_fault (iss_regfile s)
         \<or> memcheck_enabled (iss_regfile s) \<and> (mc1 insn (iss_regfile s) \<noteq> -1 \<or> mc2 insn (iss_regfile s) \<noteq> -1)))"

lemma event_account_stall [simp]: "stall_cycles (event_account e i t) = stall_cycles t"
  by (simp add: event_account_def)

lemma stall_account_simps [simp]:
  "stall_cycles (stall_taken_branch_account t) = stall_cycles t + 2"
  "stall_cycles (stall_jump_account t) = stall_cycles t + 1" "stall_cycles (event_branch_account t) = stall_cycles t"
  by (simp_all add: stall_taken_branch_account_def event_taken_branch_account_def event_branch_account_def
      stall_jump_account_def event_jump_account_def stall_cycles_account_def)

lemma branches_bxx: "branches (bxx_exec_common cond perf) cond"
  by (simp add: branches_def bxx_exec_common_def iss_insn_next_def get_reg_def memcheck_branch_reg_def memcheck_reg_def
      on_rf_def on_tm_def Let_def)

text \<open>Branches. Each is taken exactly when its condition holds of the two registers, read as signed
  or unsigned integers; a taken branch goes to the target and stalls two cycles, another falls through
  without a stall; the registers stay, and a branch on an uninitialised register is reported.\<close>

theorem rv32i_branch:
  "branches beq_exec (\<lambda>a b. uint a = uint b) \<and> branches bne_exec (\<lambda>a b. uint a \<noteq> uint b)
   \<and> branches blt_exec (\<lambda>a b. sint a < sint b) \<and> branches bge_exec (\<lambda>a b. sint b \<le> sint a)
   \<and> branches bltu_exec (\<lambda>a b. uint a < uint b) \<and> branches bgeu_exec (\<lambda>a b. uint b \<le> uint a)
   \<and> branches beq_exec_fast (\<lambda>a b. uint a = uint b) \<and> branches bne_exec_fast (\<lambda>a b. uint a \<noteq> uint b)
   \<and> branches blt_exec_fast (\<lambda>a b. sint a < sint b) \<and> branches bge_exec_fast (\<lambda>a b. sint b \<le> sint a)
   \<and> branches bltu_exec_fast (\<lambda>a b. uint a < uint b) \<and> branches bgeu_exec_fast (\<lambda>a b. uint b \<le> uint a)"
  using branches_bxx[of "\<lambda>a b. a = b"] branches_bxx[of "\<lambda>a b. a \<noteq> b"] branches_bxx[of "\<lambda>a b. sint a < sint b"]
    branches_bxx[of "\<lambda>a b. sint b \<le> sint a"] branches_bxx[of "\<lambda>a b. a < b"] branches_bxx[of "\<lambda>a b. b \<le> a"]
  by (simp add: beq_exec_def bne_exec_def blt_exec_def bge_exec_def bltu_exec_def bgeu_exec_def
      beq_exec_fast_def bne_exec_fast_def blt_exec_fast_def bge_exec_fast_def bltu_exec_fast_def bgeu_exec_fast_def
      beq_exec_common_def bne_exec_common_def blt_exec_common_def bge_exec_common_def bltu_exec_common_def bgeu_exec_common_def
      word_less_def word_le_def word_uint_eq_iff)

text \<open>Jumps. The target is relative to the program counter, or the register plus the immediate with
  bit 0 cleared, computed before the link is written, so that it is right when both registers are the
  same; the link is the address of the next instruction; one cycle is stalled.\<close>

theorem rv32i_jump:
  assumes "REG_OUT insn 0 \<noteq> 0"
  shows "(case jal_exec insn pc s of (pc', s') \<Rightarrow> pc' = pc + SIM_GET insn 0
      \<and> regs (iss_regfile s') = (regs (iss_regfile s))(REG_OUT insn 0 := pc + insn_size insn)
      \<and> stall_cycles (iss_timing s') = stall_cycles (iss_timing s) + 1)
    \<and> (case jalr_exec insn pc s of (pc', s') \<Rightarrow>
      (\<forall>k. bit pc' k = (k \<noteq> 0 \<and> bit (rs1 insn (regs (iss_regfile s)) + SIM_GET insn 0) k))
      \<and> regs (iss_regfile s') = (regs (iss_regfile s))(REG_OUT insn 0 := pc + insn_size insn)
      \<and> stall_cycles (iss_timing s') = stall_cycles (iss_timing s) + 1)"
proof -
  have b: "bit (w AND -2) k = (k \<noteq> 0 \<and> bit w k)" for w :: u32 and k
  proof -
    have "bit (w AND NOT 1) k = (k \<noteq> 0 \<and> bit w k)" by (auto simp: bit_simps dest: bit_imp_le_length)
    then show ?thesis by simp
  qed
  show ?thesis unfolding jalr_exec_def jalr_exec_common_def jal_exec_def jal_exec_common_def Let_def
    using assms by (simp add: set_reg_def get_reg_def b add.commute)
qed

theorem rv32i_jump_witness:
  "fst (jalr_exec (demo_insn\<lparr>sim := [7]\<rparr>) 0 demo_iss) = 6
   \<and> (case jal_exec demo_insn 0x100 demo_iss of (pc', s') \<Rightarrow> regs (iss_regfile s') 3 = 0x104)"
  using rv32i_jump[of demo_insn "0x100" demo_iss]
  by (simp add: demo_insn_def demo_iss_def demo_regfile_def jalr_exec_def jalr_exec_common_def Let_def get_reg_def split: prod.splits)

end
