(* ===== verification/Rv32c.thy ===== *)
theory Rv32c imports Rv32m begin

text \<open>
  The compressed instructions (\<open>src/models/cpu/iss/include/isa/rv32c.hpp\<close>): each handler counts a
  compressed instruction and runs the handler of the instruction it stands for; the fast handlers do not count.
  The decoded instruction holds its size of two bytes.
\<close>

definition CSR_PCER_RVC :: nat where "CSR_PCER_RVC = 10"

definition event_rvc_account :: "int \<Rightarrow> timing \<Rightarrow> timing" where
  "event_rvc_account incr = event_account CSR_PCER_RVC incr"

section \<open>Handlers\<close>

definition c_unimp_exec :: exec where
  "c_unimp_exec insn pc s = (pc, raise pc ISS_EXCEPT_ILLEGAL s)"

definition c_addi4spn_exec_fast :: "exec" where
  "c_addi4spn_exec_fast insn pc s = addi_exec insn pc s"

definition c_addi4spn_exec :: "exec" where
  "c_addi4spn_exec insn pc s = addi_exec insn pc (on_tm (event_rvc_account 1) s)"

definition c_lw_exec_fast :: "u32 \<Rightarrow> port \<Rightarrow> exec" where
  "c_lw_exec_fast shl32 port insn pc s = lw_exec_fast shl32 port insn pc s"

definition c_lw_exec :: "u32 \<Rightarrow> port \<Rightarrow> exec" where
  "c_lw_exec shl32 port insn pc s = lw_exec shl32 port insn pc (on_tm (event_rvc_account 1) s)"

definition c_sw_exec_fast :: "port \<Rightarrow> exec" where
  "c_sw_exec_fast port insn pc s = sw_exec_fast port insn pc s"

definition c_sw_exec :: "port \<Rightarrow> exec" where
  "c_sw_exec port insn pc s = sw_exec port insn pc (on_tm (event_rvc_account 1) s)"

definition c_swsp_exec_fast :: "port \<Rightarrow> exec" where
  "c_swsp_exec_fast port insn pc s = sw_exec_fast port insn pc s"

definition c_swsp_exec :: "port \<Rightarrow> exec" where
  "c_swsp_exec port insn pc s = sw_exec port insn pc (on_tm (event_rvc_account 1) s)"

definition c_nop_exec_fast :: "exec" where
  "c_nop_exec_fast insn pc s = nop_exec insn pc s"

definition c_nop_exec :: "exec" where
  "c_nop_exec insn pc s = nop_exec insn pc (on_tm (event_rvc_account 1) s)"

definition c_addi_exec_fast :: "exec" where
  "c_addi_exec_fast insn pc s = addi_exec insn pc s"

definition c_addi_exec :: "exec" where
  "c_addi_exec insn pc s = addi_exec insn pc (on_tm (event_rvc_account 1) s)"

definition c_jal_exec_fast :: "exec" where
  "c_jal_exec_fast insn pc s = jal_exec_fast insn pc s"

definition c_jal_exec :: "exec" where
  "c_jal_exec insn pc s = jal_exec insn pc (on_tm (event_rvc_account 1) s)"

definition c_li_exec_fast :: "exec" where
  "c_li_exec_fast insn pc s = addi_exec insn pc s"

definition c_li_exec :: "exec" where
  "c_li_exec insn pc s = addi_exec insn pc (on_tm (event_rvc_account 1) s)"

definition c_addi16sp_exec_fast :: "exec" where
  "c_addi16sp_exec_fast insn pc s = addi_exec insn pc s"

definition c_addi16sp_exec :: "exec" where
  "c_addi16sp_exec insn pc s = addi_exec insn pc (on_tm (event_rvc_account 1) s)"

definition c_jalr_exec_fast :: "exec" where
  "c_jalr_exec_fast insn pc s = jalr_exec_fast insn pc s"

definition c_jalr_exec :: "exec" where
  "c_jalr_exec insn pc s = jalr_exec insn pc (on_tm (event_rvc_account 1) s)"

definition c_lui_exec_fast :: "exec" where
  "c_lui_exec_fast insn pc s = lui_exec insn pc s"

definition c_lui_exec :: "exec" where
  "c_lui_exec insn pc s = lui_exec insn pc (on_tm (event_rvc_account 1) s)"

definition c_srli_exec_fast :: "exec" where
  "c_srli_exec_fast insn pc s = srli_exec insn pc s"

definition c_srli_exec :: "exec" where
  "c_srli_exec insn pc s = srli_exec insn pc (on_tm (event_rvc_account 1) s)"

definition c_srai_exec_fast :: "exec" where
  "c_srai_exec_fast insn pc s = srai_exec insn pc s"

definition c_srai_exec :: "exec" where
  "c_srai_exec insn pc s = srai_exec insn pc (on_tm (event_rvc_account 1) s)"

definition c_andi_exec_fast :: "exec" where
  "c_andi_exec_fast insn pc s = andi_exec insn pc s"

definition c_andi_exec :: "exec" where
  "c_andi_exec insn pc s = andi_exec insn pc (on_tm (event_rvc_account 1) s)"

definition c_sub_exec_fast :: "exec" where
  "c_sub_exec_fast insn pc s = sub_exec insn pc s"

definition c_sub_exec :: "exec" where
  "c_sub_exec insn pc s = sub_exec insn pc (on_tm (event_rvc_account 1) s)"

definition c_xor_exec_fast :: "exec" where
  "c_xor_exec_fast insn pc s = xor_exec insn pc s"

definition c_xor_exec :: "exec" where
  "c_xor_exec insn pc s = xor_exec insn pc (on_tm (event_rvc_account 1) s)"

definition c_or_exec_fast :: "exec" where
  "c_or_exec_fast insn pc s = or_exec insn pc s"

definition c_or_exec :: "exec" where
  "c_or_exec insn pc s = or_exec insn pc (on_tm (event_rvc_account 1) s)"

definition c_and_exec_fast :: "exec" where
  "c_and_exec_fast insn pc s = and_exec insn pc s"

definition c_and_exec :: "exec" where
  "c_and_exec insn pc s = and_exec insn pc (on_tm (event_rvc_account 1) s)"

definition c_j_exec_fast :: "exec" where
  "c_j_exec_fast insn pc s = jal_exec_fast insn pc s"

definition c_j_exec :: "exec" where
  "c_j_exec insn pc s = jal_exec insn pc (on_tm (event_rvc_account 1) s)"

definition c_beqz_exec_fast :: "exec" where
  "c_beqz_exec_fast insn pc s = beq_exec_fast insn pc s"

definition c_beqz_exec :: "exec" where
  "c_beqz_exec insn pc s = beq_exec insn pc (on_tm (event_rvc_account 1) s)"

definition c_bnez_exec_fast :: "exec" where
  "c_bnez_exec_fast insn pc s = bne_exec_fast insn pc s"

definition c_bnez_exec :: "exec" where
  "c_bnez_exec insn pc s = bne_exec insn pc (on_tm (event_rvc_account 1) s)"

definition c_slli_exec_fast :: "exec" where
  "c_slli_exec_fast insn pc s = slli_exec insn pc s"

definition c_slli_exec :: "exec" where
  "c_slli_exec insn pc s = slli_exec insn pc (on_tm (event_rvc_account 1) s)"

definition c_lwsp_exec_fast :: "u32 \<Rightarrow> port \<Rightarrow> exec" where
  "c_lwsp_exec_fast shl32 port insn pc s = lw_exec_fast shl32 port insn pc s"

definition c_lwsp_exec :: "u32 \<Rightarrow> port \<Rightarrow> exec" where
  "c_lwsp_exec shl32 port insn pc s = lw_exec shl32 port insn pc (on_tm (event_rvc_account 1) s)"

definition c_jr_exec_fast :: "exec" where
  "c_jr_exec_fast insn pc s = jalr_exec_fast insn pc s"

definition c_jr_exec :: "exec" where
  "c_jr_exec insn pc s = jalr_exec insn pc (on_tm (event_rvc_account 1) s)"

definition c_mv_exec_fast :: "exec" where
  "c_mv_exec_fast insn pc s = add_exec insn pc s"

definition c_mv_exec :: "exec" where
  "c_mv_exec insn pc s = add_exec insn pc (on_tm (event_rvc_account 1) s)"

definition c_add_exec_fast :: "exec" where
  "c_add_exec_fast insn pc s = add_exec insn pc s"

definition c_add_exec :: "exec" where
  "c_add_exec insn pc s = add_exec insn pc (on_tm (event_rvc_account 1) s)"

text \<open>\<open>dcsr\<close> is the debug control register.\<close>

definition c_ebreak_exec :: "u32 \<Rightarrow> exec" where
  "c_ebreak_exec dcsr insn pc s0 =
     (let s = on_tm (event_rvc_account 1) s0
      in (iss_insn_next insn pc, if drop_bit 15 dcsr AND 1 \<noteq> 0 then s else raise pc ISS_EXCEPT_BREAKPOINT s))"

definition c_sbreak_exec :: exec where
  "c_sbreak_exec insn pc s = (iss_insn_next insn pc, on_tm (event_rvc_account 1) s)"

section \<open>Expansion\<close>

text \<open>The compressed instructions with the ones they stand for.\<close>

definition rvc_expansions :: "u32 \<Rightarrow> port \<Rightarrow> (exec \<times> exec) list" where
  "rvc_expansions shl32 port =
    [(c_addi4spn_exec, addi_exec),
     (c_lw_exec shl32 port, lw_exec shl32 port),
     (c_sw_exec port, sw_exec port),
     (c_swsp_exec port, sw_exec port),
     (c_nop_exec, nop_exec),
     (c_addi_exec, addi_exec),
     (c_jal_exec, jal_exec),
     (c_li_exec, addi_exec),
     (c_addi16sp_exec, addi_exec),
     (c_jalr_exec, jalr_exec),
     (c_lui_exec, lui_exec),
     (c_srli_exec, srli_exec),
     (c_srai_exec, srai_exec),
     (c_andi_exec, andi_exec),
     (c_sub_exec, sub_exec),
     (c_xor_exec, xor_exec),
     (c_or_exec, or_exec),
     (c_and_exec, and_exec),
     (c_j_exec, jal_exec),
     (c_beqz_exec, beq_exec),
     (c_bnez_exec, bne_exec),
     (c_slli_exec, slli_exec),
     (c_lwsp_exec shl32 port, lw_exec shl32 port),
     (c_jr_exec, jalr_exec),
     (c_mv_exec, add_exec),
     (c_add_exec, add_exec)]"

definition rvc_fast_expansions :: "u32 \<Rightarrow> port \<Rightarrow> (exec \<times> exec) list" where
  "rvc_fast_expansions shl32 port =
    [(c_addi4spn_exec_fast, addi_exec),
     (c_lw_exec_fast shl32 port, lw_exec_fast shl32 port),
     (c_sw_exec_fast port, sw_exec_fast port),
     (c_swsp_exec_fast port, sw_exec_fast port),
     (c_nop_exec_fast, nop_exec),
     (c_addi_exec_fast, addi_exec),
     (c_jal_exec_fast, jal_exec_fast),
     (c_li_exec_fast, addi_exec),
     (c_addi16sp_exec_fast, addi_exec),
     (c_jalr_exec_fast, jalr_exec_fast),
     (c_lui_exec_fast, lui_exec),
     (c_srli_exec_fast, srli_exec),
     (c_srai_exec_fast, srai_exec),
     (c_andi_exec_fast, andi_exec),
     (c_sub_exec_fast, sub_exec),
     (c_xor_exec_fast, xor_exec),
     (c_or_exec_fast, or_exec),
     (c_and_exec_fast, and_exec),
     (c_j_exec_fast, jal_exec_fast),
     (c_beqz_exec_fast, beq_exec_fast),
     (c_bnez_exec_fast, bne_exec_fast),
     (c_slli_exec_fast, slli_exec),
     (c_lwsp_exec_fast shl32 port, lw_exec_fast shl32 port),
     (c_jr_exec_fast, jalr_exec_fast),
     (c_mv_exec_fast, add_exec),
     (c_add_exec_fast, add_exec)]"

lemmas rvc_defs = c_addi4spn_exec_def c_lw_exec_def c_sw_exec_def c_swsp_exec_def c_nop_exec_def c_addi_exec_def c_jal_exec_def c_li_exec_def c_addi16sp_exec_def c_jalr_exec_def c_lui_exec_def c_srli_exec_def c_srai_exec_def c_andi_exec_def c_sub_exec_def c_xor_exec_def c_or_exec_def c_and_exec_def c_j_exec_def c_beqz_exec_def c_bnez_exec_def c_slli_exec_def c_lwsp_exec_def c_jr_exec_def c_mv_exec_def c_add_exec_def
lemmas rvc_fast_defs = c_addi4spn_exec_fast_def c_lw_exec_fast_def c_sw_exec_fast_def c_swsp_exec_fast_def c_nop_exec_fast_def c_addi_exec_fast_def c_jal_exec_fast_def c_li_exec_fast_def c_addi16sp_exec_fast_def c_jalr_exec_fast_def c_lui_exec_fast_def c_srli_exec_fast_def c_srai_exec_fast_def c_andi_exec_fast_def c_sub_exec_fast_def c_xor_exec_fast_def c_or_exec_fast_def c_and_exec_fast_def c_j_exec_fast_def c_beqz_exec_fast_def c_bnez_exec_fast_def c_slli_exec_fast_def c_lwsp_exec_fast_def c_jr_exec_fast_def c_mv_exec_fast_def c_add_exec_fast_def
lemmas rvc_base_defs = add_exec_def addi_exec_def and_exec_def andi_exec_def beq_exec_def bne_exec_def jal_exec_def jalr_exec_def lui_exec_def lw_exec_def nop_exec_def or_exec_def slli_exec_def srai_exec_def srli_exec_def sub_exec_def sw_exec_def xor_exec_def

text \<open>Counting a compressed instruction commutes with what the handlers do.\<close>

abbreviation rvc :: "iss \<Rightarrow> iss" where "rvc s \<equiv> on_tm (event_rvc_account 1) s"

lemma rvc_on_rf: "on_rf f (rvc s) = rvc (on_rf f s)"
  by (simp add: on_rf_def on_tm_def)

lemma rvc_event: "e \<noteq> 10 \<Longrightarrow> event_account e i (event_rvc_account 1 t) = event_rvc_account 1 (event_account e i t)"
  by (auto simp: event_account_def event_rvc_account_def CSR_PCER_RVC_def fun_upd_twist)

lemma rvc_stall: "stall_cycles_account c (event_rvc_account 1 t) = event_rvc_account 1 (stall_cycles_account c t)"
  by (simp add: event_account_def event_rvc_account_def stall_cycles_account_def)

lemma rvc_on_tm:
  "on_tm stall_jump_account (rvc s) = rvc (on_tm stall_jump_account s)"
  "on_tm stall_taken_branch_account (rvc s) = rvc (on_tm stall_taken_branch_account s)"
  "on_tm event_branch_account (rvc s) = rvc (on_tm event_branch_account s)"
  "on_tm (event_load_account i) (rvc s) = rvc (on_tm (event_load_account i) s)"
  "on_tm (event_store_account i) (rvc s) = rvc (on_tm (event_store_account i) s)"
  by (simp_all add: on_tm_def stall_jump_account_def event_jump_account_def stall_taken_branch_account_def
        event_taken_branch_account_def event_branch_account_def event_load_account_def event_store_account_def
        CSR_PCER_JUMP_def CSR_PCER_BRANCH_def CSR_PCER_TAKEN_BRANCH_def CSR_PCER_LD_def CSR_PCER_ST_def rvc_event rvc_stall)

lemma rvc_fields:
  "iss_regfile (rvc s) = iss_regfile s" "current_insn (rvc s) = current_insn s" "stalled (rvc s) = stalled s"
  "(rvc s)\<lparr>stalled := n\<rparr> = rvc (s\<lparr>stalled := n\<rparr>)" "(rvc s)\<lparr>lsu_stall := p\<rparr> = rvc (s\<lparr>lsu_stall := p\<rparr>)"
  by (simp_all add: on_tm_def)

lemma rvc_raise: "raise pc c (rvc s) = rvc (raise pc c s)"
  by (simp add: raise_def Let_def on_tm_def mode_set_def switch_to_full_mode_def)

definition rvc_counted :: "'a \<times> iss \<Rightarrow> 'a \<times> iss" where "rvc_counted r = (fst r, rvc (snd r))"

lemma rvc_counted_pair: "rvc_counted (a, s) = (a, rvc s)" by (simp add: rvc_counted_def)

lemma rvc_data_req: "data_req port a reg sz w (rvc s) = rvc_counted (data_req port a reg sz w s)"
  by (auto simp: data_req_def data_req_aligned_def Let_def rvc_on_rf rvc_fields rvc_raise rvc_counted_pair split: lsu_status.split)

lemma rvc_lsu_load: "lsu_load_signed shl32 port a sz reg (rvc s) = rvc_counted (lsu_load_signed shl32 port a sz reg s)"
proof -
  obtain err s1 where d: "data_req port a reg sz False s = (err, s1)" by force
  then have "data_req port a reg sz False (rvc s) = (err, rvc s1)" by (simp add: rvc_data_req rvc_counted_def)
  with d show ?thesis by (simp only: lsu_load_signed_def Let_def prod.case rvc_on_rf rvc_fields if_distrib[of rvc_counted] rvc_counted_pair)
qed

lemma rvc_lsu_store: "lsu_store port a sz reg (rvc s) = rvc_counted (lsu_store port a sz reg s)"
proof -
  obtain err s1 where d: "data_req port a reg sz True s = (err, s1)" by force
  then have "data_req port a reg sz True (rvc s) = (err, rvc s1)" by (simp add: rvc_data_req rvc_counted_def)
  with d show ?thesis by (simp only: lsu_store_def Let_def prod.case rvc_fields if_distrib[of rvc_counted] rvc_counted_pair)
qed

lemma rvc_lsu: "lsu_next insn pc (rvc_counted r) = rvc_counted (lsu_next insn pc r)"
  by (simp add: lsu_next_def rvc_counted_def)

lemma rvc_bases:
  assumes "b \<in> set (map snd (rvc_expansions shl32 port))"
  shows "b insn pc (rvc s) = rvc_counted (b insn pc s)"
  using assms unfolding rvc_expansions_def list.map snd_conv set_simps insert_iff empty_iff
  by (elim disjE; simp add: rvc_base_defs jal_exec_common_def jalr_exec_common_def beq_exec_common_def bne_exec_common_def
      bxx_exec_common_def lsu_load_signed_perf_def lsu_store_perf_def rvc_on_rf rvc_on_tm rvc_fields rvc_lsu_load rvc_lsu_store rvc_lsu rvc_counted_pair Let_def)

section \<open>The handlers they share\<close>

lemma rvc_expansion_base: "(h, b) \<in> set (rvc_expansions shl32 port) \<Longrightarrow> h insn pc s = b insn pc (rvc s)"
  unfolding rvc_expansions_def set_simps insert_iff empty_iff by (elim disjE; simp add: rvc_defs)

lemma rvc_fast_expansion_base: "(h, b) \<in> set (rvc_fast_expansions shl32 port) \<Longrightarrow> h insn pc s = b insn pc s"
  unfolding rvc_fast_expansions_def set_simps insert_iff empty_iff by (elim disjE; simp add: rvc_fast_defs)

section \<open>Property\<close>

text \<open>Every compressed instruction does what the instruction it stands for does, from the same
  operands, and counts one compressed instruction besides.\<close>

theorem rvc_expand: "\<forall>(c, b) \<in> set (rvc_expansions shl32 port). c insn pc s = rvc_counted (b insn pc s)"
proof -
  have "c insn pc s = b insn pc (rvc s)" if "(c, b) \<in> set (rvc_expansions shl32 port)" for c b
    using that by (rule rvc_expansion_base)
  moreover have "b \<in> set (map snd (rvc_expansions shl32 port))" if "(c, b) \<in> set (rvc_expansions shl32 port)" for c b
    using that by force
  ultimately show ?thesis using rvc_bases by fastforce
qed

definition demo_rvc :: iss_insn where
  "demo_rvc = \<lparr>out_regs = [5], in_regs = [5, 6], uim = [], sim = [], insn_size = 2\<rparr>"

theorem rvc_expand_witness:
  "c_add_exec demo_rvc 0x100 demo_iss = rvc_counted (add_exec demo_rvc 0x100 demo_iss)"
  using rvc_expand[of "0" "\<lambda>_ _ _ _. undefined" demo_rvc "0x100" demo_iss] by (simp add: rvc_expansions_def)

end
