(* ===== verification/PulpV2.thy ===== *)
theory PulpV2 imports Rv32c begin

text \<open>
  The PULP extension of the instruction set (\<open>src/models/cpu/iss/include/isa/pulp_v2.hpp\<close>): register-offset and
  post-increment accesses, integer and bit-field operations, the packed vectors and the hardware loops, with
  the operations of \<open>isa_lib/int.h\<close> that theory \<open>IsaLib\<close> does not have. One definition per handler, in the order
  of the file; the handlers that the macros \<open>PV_OP_*\<close> expand to are given by one definition per macro body
  and the tables of the operations they are expanded for. The stack checks and \<open>p.elw\<close> are left out.
\<close>

section \<open>Library operations\<close>

definition lib_VEC_SHUFFLEI_SCI_8 :: "nat \<Rightarrow> u32 \<Rightarrow> u32 \<Rightarrow> u32" where
  "lib_VEC_SHUFFLEI_SCI_8 k a b =
     push_bit 24 (drop_bit (8 * k) a AND 0xff) OR getShuffleByteSci a b 16 OR getShuffleByteSci a b 8 OR getShuffleByteSci a b 0"

definition lib_VEC_SHUFFLEI0_SCI_8 where "lib_VEC_SHUFFLEI0_SCI_8 = lib_VEC_SHUFFLEI_SCI_8 0"
definition lib_VEC_SHUFFLEI1_SCI_8 where "lib_VEC_SHUFFLEI1_SCI_8 = lib_VEC_SHUFFLEI_SCI_8 1"
definition lib_VEC_SHUFFLEI2_SCI_8 where "lib_VEC_SHUFFLEI2_SCI_8 = lib_VEC_SHUFFLEI_SCI_8 2"
definition lib_VEC_SHUFFLEI3_SCI_8 where "lib_VEC_SHUFFLEI3_SCI_8 = lib_VEC_SHUFFLEI_SCI_8 3"

definition lib_VEC_SHUFFLE2_16 :: "u32 \<Rightarrow> u32 \<Rightarrow> u32 \<Rightarrow> u32" where
  "lib_VEC_SHUFFLE2_16 a b c =
     getShuffleHalf (if bit b 17 then a else c) b 16 OR getShuffleHalf (if bit b 1 then a else c) b 0"

definition lib_VEC_SHUFFLE2_8 :: "u32 \<Rightarrow> u32 \<Rightarrow> u32 \<Rightarrow> u32" where
  "lib_VEC_SHUFFLE2_8 a b c =
     getShuffleByte (if bit b 26 then a else c) b 24 OR getShuffleByte (if bit b 18 then a else c) b 16
       OR getShuffleByte (if bit b 10 then a else c) b 8 OR getShuffleByte (if bit b 2 then a else c) b 0"

definition lib_VEC_PACK_SC_16 :: "u32 \<Rightarrow> u32 \<Rightarrow> u32" where
  "lib_VEC_PACK_SC_16 a b = push_bit 16 (a AND 0xffff) OR (b AND 0xffff)"
definition lib_VEC_PACKHI_SC_8 :: "u32 \<Rightarrow> u32 \<Rightarrow> u32 \<Rightarrow> u32" where
  "lib_VEC_PACKHI_SC_8 a b c = push_bit 24 (a AND 0xff) OR push_bit 16 (b AND 0xff) OR (c AND 0xffff)"
definition lib_VEC_PACKLO_SC_8 :: "u32 \<Rightarrow> u32 \<Rightarrow> u32 \<Rightarrow> u32" where
  "lib_VEC_PACKLO_SC_8 a b c = push_bit 8 (a AND 0xff) OR (b AND 0xff) OR (c AND 0xffff0000)"

text \<open>The scalar variants of \<open>VEC_DOTP\<close> and \<open>VEC_SDOT\<close>.\<close>

definition lib_VEC_SDOT_SC ::
  "nat \<Rightarrow> ('e::len word \<Rightarrow> u32) \<Rightarrow> ('e word \<Rightarrow> u32) \<Rightarrow> u32 \<Rightarrow> u32 \<Rightarrow> u32 \<Rightarrow> u32" where
  "lib_VEC_SDOT_SC n ea eb out a b = foldl (\<lambda>acc i. acc + ea (lane i a) * eb (lane 0 b)) out [0..<n]"
definition lib_VEC_DOTP_SC ::
  "nat \<Rightarrow> ('e::len word \<Rightarrow> u32) \<Rightarrow> ('e word \<Rightarrow> u32) \<Rightarrow> u32 \<Rightarrow> u32 \<Rightarrow> u32" where
  "lib_VEC_DOTP_SC n ea eb a b = lib_VEC_SDOT_SC n ea eb 0 a b"

text \<open>Sums and differences, normalised and rounded.\<close>

definition lib_ADD_NR :: "u32 \<Rightarrow> u32 \<Rightarrow> u32 \<Rightarrow> u32" where
  "lib_ADD_NR a b sh = signed_drop_bit (unat (sh AND 0x1f)) (a + b)"
definition lib_ADD_NRU :: "u32 \<Rightarrow> u32 \<Rightarrow> u32 \<Rightarrow> u32" where
  "lib_ADD_NRU a b sh = drop_bit (unat (sh AND 0x1f)) (a + b)"
definition lib_ADD_NR_R :: "u32 \<Rightarrow> u32 \<Rightarrow> u32 \<Rightarrow> u32" where
  "lib_ADD_NR_R a b sh0 = (let sh = unat (sh0 AND 0x1f) in
     if sh > 0 then signed_drop_bit sh (a + b + push_bit (sh - 1) 1) else a + b)"
definition lib_ADD_NR_RU :: "u32 \<Rightarrow> u32 \<Rightarrow> u32 \<Rightarrow> u32" where
  "lib_ADD_NR_RU a b sh0 = (let sh = unat (sh0 AND 0x1f) in
     if sh > 0 then drop_bit sh (a + b + push_bit (sh - 1) 1) else a + b)"
definition lib_SUB_NR :: "u32 \<Rightarrow> u32 \<Rightarrow> u32 \<Rightarrow> u32" where
  "lib_SUB_NR a b sh = signed_drop_bit (unat (sh AND 0x1f)) (a - b)"
definition lib_SUB_NRU :: "u32 \<Rightarrow> u32 \<Rightarrow> u32 \<Rightarrow> u32" where
  "lib_SUB_NRU a b sh = drop_bit (unat (sh AND 0x1f)) (a - b)"
definition lib_SUB_NR_R :: "u32 \<Rightarrow> u32 \<Rightarrow> u32 \<Rightarrow> u32" where
  "lib_SUB_NR_R a b sh0 = (let sh = unat (sh0 AND 0x1f) in
     if sh > 0 then signed_drop_bit sh (a - b + push_bit (sh - 1) 1) else a - b)"
definition lib_SUB_NR_RU :: "u32 \<Rightarrow> u32 \<Rightarrow> u32 \<Rightarrow> u32" where
  "lib_SUB_NR_RU a b sh0 = (let sh = unat (sh0 AND 0x1f) in
     if sh > 0 then drop_bit sh (a - b + push_bit (sh - 1) 1) else a - b)"

definition lib_CLIP :: "u32 \<Rightarrow> u32 \<Rightarrow> u32 \<Rightarrow> u32" where
  "lib_CLIP a low high = (if sint a < sint low then low else if sint a > sint high then high else a)"
definition lib_CLIPU :: "u32 \<Rightarrow> u32 \<Rightarrow> u32" where
  "lib_CLIPU a high = (if sint a > sint high then high else if sint a \<le> 0 then 0 else a)"

text \<open>The mask of a bit field, \<open>((1ULL << width) - 1) << shift\<close> cut to 32 bits, and \<open>MAX((int)n - 1, 0)\<close>.\<close>

definition bit_field :: "u32 \<Rightarrow> u32 \<Rightarrow> u32" where
  "bit_field width shift = ucast (push_bit (unat shift) (push_bit (unat width) 1 - 1) :: u64)"
definition clip_bits :: "u32 \<Rightarrow> nat" where
  "clip_bits n = (if sint n - 1 > 0 then nat (sint n - 1) else 0)"

section \<open>Accesses\<close>

text \<open>The end of an access with post-increment: \<open>f\<close> writes the base register.\<close>

definition lsu_then :: "iss_insn \<Rightarrow> u32 \<Rightarrow> bool \<times> iss \<Rightarrow> (iss \<Rightarrow> iss) \<Rightarrow> u32 \<times> iss" where
  "lsu_then insn pc r f = (if fst r then (pc, snd r) else (iss_insn_next insn pc, f (snd r)))"

definition LB_RR_exec_fast :: "u32 \<Rightarrow> port \<Rightarrow> exec" where
  "LB_RR_exec_fast shl32 port insn pc s =
     lsu_next insn pc (lsu_load_signed shl32 port (REG_GET insn 0 s + REG_GET insn 1 s) 1 (REG_OUT insn 0) s)"

definition LB_RR_exec :: "u32 \<Rightarrow> port \<Rightarrow> exec" where
  "LB_RR_exec shl32 port insn pc s =
     (let s = on_rf (memcheck_access_reg (REG_IN insn 0)) s;
         s = on_rf (memcheck_access_reg (REG_IN insn 1)) s
     in lsu_next insn pc (lsu_load_signed_perf shl32 port (REG_GET insn 0 s + REG_GET insn 1 s) 1 (REG_OUT insn 0) s))"

definition LH_RR_exec_fast :: "u32 \<Rightarrow> port \<Rightarrow> exec" where
  "LH_RR_exec_fast shl32 port insn pc s =
     lsu_next insn pc (lsu_load_signed shl32 port (REG_GET insn 0 s + REG_GET insn 1 s) 2 (REG_OUT insn 0) s)"

definition LH_RR_exec :: "u32 \<Rightarrow> port \<Rightarrow> exec" where
  "LH_RR_exec shl32 port insn pc s =
     (let s = on_rf (memcheck_access_reg (REG_IN insn 0)) s;
         s = on_rf (memcheck_access_reg (REG_IN insn 1)) s
     in lsu_next insn pc (lsu_load_signed_perf shl32 port (REG_GET insn 0 s + REG_GET insn 1 s) 2 (REG_OUT insn 0) s))"

definition LW_RR_exec_fast :: "port \<Rightarrow> exec" where
  "LW_RR_exec_fast port insn pc s =
     lsu_next insn pc (lsu_load port (REG_GET insn 0 s + REG_GET insn 1 s) 4 (REG_OUT insn 0) s)"

definition LW_RR_exec :: "port \<Rightarrow> exec" where
  "LW_RR_exec port insn pc s =
     (let s = on_rf (memcheck_access_reg (REG_IN insn 0)) s;
         s = on_rf (memcheck_access_reg (REG_IN insn 1)) s
     in lsu_next insn pc (lsu_load_perf port (REG_GET insn 0 s + REG_GET insn 1 s) 4 (REG_OUT insn 0) s))"

definition LBU_RR_exec_fast :: "port \<Rightarrow> exec" where
  "LBU_RR_exec_fast port insn pc s =
     lsu_next insn pc (lsu_load port (REG_GET insn 0 s + REG_GET insn 1 s) 1 (REG_OUT insn 0) s)"

definition LBU_RR_exec :: "port \<Rightarrow> exec" where
  "LBU_RR_exec port insn pc s =
     (let s = on_rf (memcheck_access_reg (REG_IN insn 0)) s;
         s = on_rf (memcheck_access_reg (REG_IN insn 1)) s
     in lsu_next insn pc (lsu_load_perf port (REG_GET insn 0 s + REG_GET insn 1 s) 1 (REG_OUT insn 0) s))"

definition LHU_RR_exec_fast :: "port \<Rightarrow> exec" where
  "LHU_RR_exec_fast port insn pc s =
     lsu_next insn pc (lsu_load port (REG_GET insn 0 s + REG_GET insn 1 s) 2 (REG_OUT insn 0) s)"

definition LHU_RR_exec :: "port \<Rightarrow> exec" where
  "LHU_RR_exec port insn pc s =
     (let s = on_rf (memcheck_access_reg (REG_IN insn 0)) s;
         s = on_rf (memcheck_access_reg (REG_IN insn 1)) s
     in lsu_next insn pc (lsu_load_perf port (REG_GET insn 0 s + REG_GET insn 1 s) 2 (REG_OUT insn 0) s))"

definition LB_POSTINC_exec_fast :: "u32 \<Rightarrow> port \<Rightarrow> exec" where
  "LB_POSTINC_exec_fast shl32 port insn pc s =
     lsu_then insn pc (lsu_load_signed shl32 port (REG_GET insn 0 s) 1 (REG_OUT insn 0) s) (\<lambda>s. on_rf (set_reg (REG_IN insn 0) (REG_GET insn 0 s + SIM_GET insn 0)) s)"

definition LB_POSTINC_exec :: "u32 \<Rightarrow> port \<Rightarrow> exec" where
  "LB_POSTINC_exec shl32 port insn pc s =
     (let s = on_rf (memcheck_access_reg (REG_IN insn 0)) s;
         s = on_rf (memcheck_merge (REG_IN insn 0) (REG_IN insn 0)) s
     in lsu_then insn pc (lsu_load_signed_perf shl32 port (REG_GET insn 0 s) 1 (REG_OUT insn 0) s) (\<lambda>s. on_rf (set_reg (REG_IN insn 0) (REG_GET insn 0 s + SIM_GET insn 0)) s))"

definition LH_POSTINC_exec_fast :: "u32 \<Rightarrow> port \<Rightarrow> exec" where
  "LH_POSTINC_exec_fast shl32 port insn pc s =
     lsu_then insn pc (lsu_load_signed shl32 port (REG_GET insn 0 s) 2 (REG_OUT insn 0) s) (\<lambda>s. on_rf (set_reg (REG_IN insn 0) (REG_GET insn 0 s + SIM_GET insn 0)) s)"

definition LH_POSTINC_exec :: "u32 \<Rightarrow> port \<Rightarrow> exec" where
  "LH_POSTINC_exec shl32 port insn pc s =
     (let s = on_rf (memcheck_access_reg (REG_IN insn 0)) s;
         s = on_rf (memcheck_merge (REG_IN insn 0) (REG_IN insn 0)) s
     in lsu_then insn pc (lsu_load_signed_perf shl32 port (REG_GET insn 0 s) 2 (REG_OUT insn 0) s) (\<lambda>s. on_rf (set_reg (REG_IN insn 0) (REG_GET insn 0 s + SIM_GET insn 0)) s))"

definition LW_POSTINC_exec_fast :: "u32 \<Rightarrow> port \<Rightarrow> exec" where
  "LW_POSTINC_exec_fast shl32 port insn pc s =
     lsu_then insn pc (lsu_load_signed shl32 port (REG_GET insn 0 s) 4 (REG_OUT insn 0) s) (\<lambda>s. on_rf (set_reg (REG_IN insn 0) (REG_GET insn 0 s + SIM_GET insn 0)) s)"

definition LW_POSTINC_exec :: "u32 \<Rightarrow> port \<Rightarrow> exec" where
  "LW_POSTINC_exec shl32 port insn pc s =
     (let s = on_rf (memcheck_access_reg (REG_IN insn 0)) s;
         s = on_rf (memcheck_merge (REG_IN insn 0) (REG_IN insn 0)) s
     in lsu_then insn pc (lsu_load_signed_perf shl32 port (REG_GET insn 0 s) 4 (REG_OUT insn 0) s) (\<lambda>s. on_rf (set_reg (REG_IN insn 0) (REG_GET insn 0 s + SIM_GET insn 0)) s))"

definition LBU_POSTINC_exec_fast :: "port \<Rightarrow> exec" where
  "LBU_POSTINC_exec_fast port insn pc s =
     lsu_then insn pc (lsu_load port (REG_GET insn 0 s) 1 (REG_OUT insn 0) s) (\<lambda>s. on_rf (set_reg (REG_IN insn 0) (REG_GET insn 0 s + SIM_GET insn 0)) s)"

definition LBU_POSTINC_exec :: "port \<Rightarrow> exec" where
  "LBU_POSTINC_exec port insn pc s =
     (let s = on_rf (memcheck_access_reg (REG_IN insn 0)) s;
         s = on_rf (memcheck_merge (REG_IN insn 0) (REG_IN insn 0)) s
     in lsu_then insn pc (lsu_load_perf port (REG_GET insn 0 s) 1 (REG_OUT insn 0) s) (\<lambda>s. on_rf (set_reg (REG_IN insn 0) (REG_GET insn 0 s + SIM_GET insn 0)) s))"

definition LHU_POSTINC_exec_fast :: "port \<Rightarrow> exec" where
  "LHU_POSTINC_exec_fast port insn pc s =
     lsu_then insn pc (lsu_load port (REG_GET insn 0 s) 2 (REG_OUT insn 0) s) (\<lambda>s. on_rf (set_reg (REG_IN insn 0) (REG_GET insn 0 s + SIM_GET insn 0)) s)"

definition LHU_POSTINC_exec :: "port \<Rightarrow> exec" where
  "LHU_POSTINC_exec port insn pc s =
     (let s = on_rf (memcheck_access_reg (REG_IN insn 0)) s;
         s = on_rf (memcheck_merge (REG_IN insn 0) (REG_IN insn 0)) s
     in lsu_then insn pc (lsu_load_perf port (REG_GET insn 0 s) 2 (REG_OUT insn 0) s) (\<lambda>s. on_rf (set_reg (REG_IN insn 0) (REG_GET insn 0 s + SIM_GET insn 0)) s))"

definition SB_POSTINC_exec_fast :: "port \<Rightarrow> exec" where
  "SB_POSTINC_exec_fast port insn pc s =
     lsu_then insn pc (lsu_store port (REG_GET insn 0 s) 1 (REG_IN insn 1) s) (\<lambda>s. on_rf (set_reg (REG_IN insn 0) (REG_GET insn 0 s + SIM_GET insn 0)) s)"

definition SB_POSTINC_exec :: "port \<Rightarrow> exec" where
  "SB_POSTINC_exec port insn pc s =
     (let s = on_rf (memcheck_access_reg (REG_IN insn 0)) s;
         s = on_rf (memcheck_merge (REG_IN insn 0) (REG_IN insn 0)) s
     in lsu_then insn pc (lsu_store_perf port (REG_GET insn 0 s) 1 (REG_IN insn 1) s) (\<lambda>s. on_rf (set_reg (REG_IN insn 0) (REG_GET insn 0 s + SIM_GET insn 0)) s))"

definition SH_POSTINC_exec_fast :: "port \<Rightarrow> exec" where
  "SH_POSTINC_exec_fast port insn pc s =
     lsu_then insn pc (lsu_store port (REG_GET insn 0 s) 2 (REG_IN insn 1) s) (\<lambda>s. on_rf (set_reg (REG_IN insn 0) (REG_GET insn 0 s + SIM_GET insn 0)) s)"

definition SH_POSTINC_exec :: "port \<Rightarrow> exec" where
  "SH_POSTINC_exec port insn pc s =
     (let s = on_rf (memcheck_access_reg (REG_IN insn 0)) s;
         s = on_rf (memcheck_merge (REG_IN insn 0) (REG_IN insn 0)) s
     in lsu_then insn pc (lsu_store_perf port (REG_GET insn 0 s) 2 (REG_IN insn 1) s) (\<lambda>s. on_rf (set_reg (REG_IN insn 0) (REG_GET insn 0 s + SIM_GET insn 0)) s))"

definition SW_POSTINC_exec_fast :: "port \<Rightarrow> exec" where
  "SW_POSTINC_exec_fast port insn pc s =
     lsu_then insn pc (lsu_store port (REG_GET insn 0 s) 4 (REG_IN insn 1) s) (\<lambda>s. on_rf (set_reg (REG_IN insn 0) (REG_GET insn 0 s + SIM_GET insn 0)) s)"

definition SW_POSTINC_exec :: "port \<Rightarrow> exec" where
  "SW_POSTINC_exec port insn pc s =
     (let s = on_rf (memcheck_access_reg (REG_IN insn 0)) s;
         s = on_rf (memcheck_merge (REG_IN insn 0) (REG_IN insn 0)) s
     in lsu_then insn pc (lsu_store_perf port (REG_GET insn 0 s) 4 (REG_IN insn 1) s) (\<lambda>s. on_rf (set_reg (REG_IN insn 0) (REG_GET insn 0 s + SIM_GET insn 0)) s))"

definition LB_RR_POSTINC_exec_fast :: "u32 \<Rightarrow> port \<Rightarrow> exec" where
  "LB_RR_POSTINC_exec_fast shl32 port insn pc s =
     (let new_val = REG_GET insn 0 s + REG_GET insn 1 s
     in lsu_then insn pc (lsu_load_signed shl32 port (REG_GET insn 0 s) 1 (REG_OUT insn 0) s) (\<lambda>s. on_rf (set_reg (REG_IN insn 0) (new_val)) s))"

definition LB_RR_POSTINC_exec :: "u32 \<Rightarrow> port \<Rightarrow> exec" where
  "LB_RR_POSTINC_exec shl32 port insn pc s =
     (let s = on_rf (memcheck_access_reg (REG_IN insn 0)) s;
         s = on_rf (memcheck_merge (REG_IN insn 0) (REG_IN insn 0)) s;
         s = on_rf (memcheck_merge (REG_IN insn 0) (REG_IN insn 1)) s;
         new_val = REG_GET insn 0 s + REG_GET insn 1 s
     in lsu_then insn pc (lsu_load_signed_perf shl32 port (REG_GET insn 0 s) 1 (REG_OUT insn 0) s) (\<lambda>s. on_rf (set_reg (REG_IN insn 0) (new_val)) s))"

definition LH_RR_POSTINC_exec_fast :: "u32 \<Rightarrow> port \<Rightarrow> exec" where
  "LH_RR_POSTINC_exec_fast shl32 port insn pc s =
     (let new_val = REG_GET insn 0 s + REG_GET insn 1 s
     in lsu_then insn pc (lsu_load_signed shl32 port (REG_GET insn 0 s) 2 (REG_OUT insn 0) s) (\<lambda>s. on_rf (set_reg (REG_IN insn 0) (new_val)) s))"

definition LH_RR_POSTINC_exec :: "u32 \<Rightarrow> port \<Rightarrow> exec" where
  "LH_RR_POSTINC_exec shl32 port insn pc s =
     (let s = on_rf (memcheck_access_reg (REG_IN insn 0)) s;
         s = on_rf (memcheck_merge (REG_IN insn 0) (REG_IN insn 0)) s;
         s = on_rf (memcheck_merge (REG_IN insn 0) (REG_IN insn 1)) s;
         new_val = REG_GET insn 0 s + REG_GET insn 1 s
     in lsu_then insn pc (lsu_load_signed_perf shl32 port (REG_GET insn 0 s) 2 (REG_OUT insn 0) s) (\<lambda>s. on_rf (set_reg (REG_IN insn 0) (new_val)) s))"

definition LW_RR_POSTINC_exec_fast :: "u32 \<Rightarrow> port \<Rightarrow> exec" where
  "LW_RR_POSTINC_exec_fast shl32 port insn pc s =
     (let new_val = REG_GET insn 0 s + REG_GET insn 1 s
     in lsu_then insn pc (lsu_load_signed shl32 port (REG_GET insn 0 s) 4 (REG_OUT insn 0) s) (\<lambda>s. on_rf (set_reg (REG_IN insn 0) (new_val)) s))"

definition LW_RR_POSTINC_exec :: "u32 \<Rightarrow> port \<Rightarrow> exec" where
  "LW_RR_POSTINC_exec shl32 port insn pc s =
     (let s = on_rf (memcheck_access_reg (REG_IN insn 0)) s;
         s = on_rf (memcheck_merge (REG_IN insn 0) (REG_IN insn 0)) s;
         s = on_rf (memcheck_merge (REG_IN insn 0) (REG_IN insn 1)) s;
         new_val = REG_GET insn 0 s + REG_GET insn 1 s
     in lsu_then insn pc (lsu_load_signed_perf shl32 port (REG_GET insn 0 s) 4 (REG_OUT insn 0) s) (\<lambda>s. on_rf (set_reg (REG_IN insn 0) (new_val)) s))"

definition LBU_RR_POSTINC_exec_fast :: "port \<Rightarrow> exec" where
  "LBU_RR_POSTINC_exec_fast port insn pc s =
     (let new_val = REG_GET insn 0 s + REG_GET insn 1 s
     in lsu_then insn pc (lsu_load port (REG_GET insn 0 s) 1 (REG_OUT insn 0) s) (\<lambda>s. on_rf (set_reg (REG_IN insn 0) (new_val)) s))"

definition LBU_RR_POSTINC_exec :: "port \<Rightarrow> exec" where
  "LBU_RR_POSTINC_exec port insn pc s =
     (let s = on_rf (memcheck_access_reg (REG_IN insn 0)) s;
         s = on_rf (memcheck_merge (REG_IN insn 0) (REG_IN insn 0)) s;
         s = on_rf (memcheck_merge (REG_IN insn 0) (REG_IN insn 1)) s;
         new_val = REG_GET insn 0 s + REG_GET insn 1 s
     in lsu_then insn pc (lsu_load_perf port (REG_GET insn 0 s) 1 (REG_OUT insn 0) s) (\<lambda>s. on_rf (set_reg (REG_IN insn 0) (new_val)) s))"

definition LHU_RR_POSTINC_exec_fast :: "port \<Rightarrow> exec" where
  "LHU_RR_POSTINC_exec_fast port insn pc s =
     (let new_val = REG_GET insn 0 s + REG_GET insn 1 s
     in lsu_then insn pc (lsu_load port (REG_GET insn 0 s) 2 (REG_OUT insn 0) s) (\<lambda>s. on_rf (set_reg (REG_IN insn 0) (new_val)) s))"

definition LHU_RR_POSTINC_exec :: "port \<Rightarrow> exec" where
  "LHU_RR_POSTINC_exec port insn pc s =
     (let s = on_rf (memcheck_access_reg (REG_IN insn 0)) s;
         s = on_rf (memcheck_merge (REG_IN insn 0) (REG_IN insn 0)) s;
         s = on_rf (memcheck_merge (REG_IN insn 0) (REG_IN insn 1)) s;
         new_val = REG_GET insn 0 s + REG_GET insn 1 s
     in lsu_then insn pc (lsu_load_perf port (REG_GET insn 0 s) 2 (REG_OUT insn 0) s) (\<lambda>s. on_rf (set_reg (REG_IN insn 0) (new_val)) s))"

definition SB_RR_POSTINC_exec_fast :: "port \<Rightarrow> exec" where
  "SB_RR_POSTINC_exec_fast port insn pc s =
     (let new_val = REG_GET insn 0 s + REG_GET insn 2 s
     in lsu_then insn pc (lsu_store port (REG_GET insn 0 s) 1 (REG_IN insn 1) s) (\<lambda>s. on_rf (set_reg (REG_IN insn 0) (new_val)) s))"

definition SB_RR_POSTINC_exec :: "port \<Rightarrow> exec" where
  "SB_RR_POSTINC_exec port insn pc s =
     (let s = on_rf (memcheck_access_reg (REG_IN insn 0)) s;
         s = on_rf (memcheck_merge (REG_IN insn 0) (REG_IN insn 0)) s;
         s = on_rf (memcheck_merge (REG_IN insn 0) (REG_IN insn 2)) s;
         new_val = REG_GET insn 0 s + REG_GET insn 2 s
     in lsu_then insn pc (lsu_store_perf port (REG_GET insn 0 s) 1 (REG_IN insn 1) s) (\<lambda>s. on_rf (set_reg (REG_IN insn 0) (new_val)) s))"

definition SH_RR_POSTINC_exec_fast :: "port \<Rightarrow> exec" where
  "SH_RR_POSTINC_exec_fast port insn pc s =
     (let new_val = REG_GET insn 0 s + REG_GET insn 2 s
     in lsu_then insn pc (lsu_store port (REG_GET insn 0 s) 2 (REG_IN insn 1) s) (\<lambda>s. on_rf (set_reg (REG_IN insn 0) (new_val)) s))"

definition SH_RR_POSTINC_exec :: "port \<Rightarrow> exec" where
  "SH_RR_POSTINC_exec port insn pc s =
     (let s = on_rf (memcheck_access_reg (REG_IN insn 0)) s;
         s = on_rf (memcheck_merge (REG_IN insn 0) (REG_IN insn 0)) s;
         s = on_rf (memcheck_merge (REG_IN insn 0) (REG_IN insn 2)) s;
         new_val = REG_GET insn 0 s + REG_GET insn 2 s
     in lsu_then insn pc (lsu_store_perf port (REG_GET insn 0 s) 2 (REG_IN insn 1) s) (\<lambda>s. on_rf (set_reg (REG_IN insn 0) (new_val)) s))"

definition SW_RR_POSTINC_exec_fast :: "port \<Rightarrow> exec" where
  "SW_RR_POSTINC_exec_fast port insn pc s =
     (let new_val = REG_GET insn 0 s + REG_GET insn 2 s
     in lsu_then insn pc (lsu_store port (REG_GET insn 0 s) 4 (REG_IN insn 1) s) (\<lambda>s. on_rf (set_reg (REG_IN insn 0) (new_val)) s))"

definition SW_RR_POSTINC_exec :: "port \<Rightarrow> exec" where
  "SW_RR_POSTINC_exec port insn pc s =
     (let s = on_rf (memcheck_access_reg (REG_IN insn 0)) s;
         s = on_rf (memcheck_merge (REG_IN insn 0) (REG_IN insn 0)) s;
         s = on_rf (memcheck_merge (REG_IN insn 0) (REG_IN insn 2)) s;
         new_val = REG_GET insn 0 s + REG_GET insn 2 s
     in lsu_then insn pc (lsu_store_perf port (REG_GET insn 0 s) 4 (REG_IN insn 1) s) (\<lambda>s. on_rf (set_reg (REG_IN insn 0) (new_val)) s))"

definition SB_RR_exec_fast :: "port \<Rightarrow> exec" where
  "SB_RR_exec_fast port insn pc s =
     lsu_next insn pc (lsu_store port (REG_GET insn 0 s + REG_GET insn 2 s) 1 (REG_IN insn 1) s)"

definition SB_RR_exec :: "port \<Rightarrow> exec" where
  "SB_RR_exec port insn pc s =
     (let s = on_rf (memcheck_access_reg (REG_IN insn 0)) s;
         s = on_rf (memcheck_access_reg (REG_IN insn 2)) s
     in lsu_next insn pc (lsu_store_perf port (REG_GET insn 0 s + REG_GET insn 2 s) 1 (REG_IN insn 1) s))"

definition SH_RR_exec_fast :: "port \<Rightarrow> exec" where
  "SH_RR_exec_fast port insn pc s =
     lsu_next insn pc (lsu_store port (REG_GET insn 0 s + REG_GET insn 2 s) 2 (REG_IN insn 1) s)"

definition SH_RR_exec :: "port \<Rightarrow> exec" where
  "SH_RR_exec port insn pc s =
     (let s = on_rf (memcheck_access_reg (REG_IN insn 0)) s;
         s = on_rf (memcheck_access_reg (REG_IN insn 2)) s
     in lsu_next insn pc (lsu_store_perf port (REG_GET insn 0 s + REG_GET insn 2 s) 2 (REG_IN insn 1) s))"

definition SW_RR_exec_fast :: "port \<Rightarrow> exec" where
  "SW_RR_exec_fast port insn pc s =
     lsu_next insn pc (lsu_store port (REG_GET insn 0 s + REG_GET insn 2 s) 4 (REG_IN insn 1) s)"

definition SW_RR_exec :: "port \<Rightarrow> exec" where
  "SW_RR_exec port insn pc s =
     (let s = on_rf (memcheck_access_reg (REG_IN insn 0)) s;
         s = on_rf (memcheck_access_reg (REG_IN insn 2)) s
     in lsu_next insn pc (lsu_store_perf port (REG_GET insn 0 s + REG_GET insn 2 s) 4 (REG_IN insn 1) s))"

section \<open>Integer and bit-field operations\<close>

definition p_avgu_exec :: "exec" where
  "p_avgu_exec insn pc s =
     (let s = on_rf (memcheck_merge (REG_OUT insn 0) (REG_IN insn 0)) s
     in (iss_insn_next insn pc, REG_SET insn 0 (lib_AVGU (REG_GET insn 0 s) (REG_GET insn 1 s)) s))"

definition p_slet_exec :: "exec" where
  "p_slet_exec insn pc s =
     (let s = on_rf (memcheck_merge (REG_OUT insn 0) (REG_IN insn 0)) s
     in (iss_insn_next insn pc, REG_SET insn 0 (of_bool (sint (REG_GET insn 0 s) \<le> sint (REG_GET insn 1 s))) s))"

definition p_sletu_exec :: "exec" where
  "p_sletu_exec insn pc s =
     (let s = on_rf (memcheck_merge (REG_OUT insn 0) (REG_IN insn 0)) s
     in (iss_insn_next insn pc, REG_SET insn 0 (of_bool (REG_GET insn 0 s \<le> REG_GET insn 1 s)) s))"

definition p_min_exec :: "exec" where
  "p_min_exec insn pc s =
     (let s = on_rf (memcheck_merge (REG_OUT insn 0) (REG_IN insn 0)) s;
         s = on_rf (memcheck_merge (REG_OUT insn 0) (REG_IN insn 1)) s
     in (iss_insn_next insn pc, REG_SET insn 0 (lib_MINS (REG_GET insn 0 s) (REG_GET insn 1 s)) s))"

definition p_minu_exec :: "exec" where
  "p_minu_exec insn pc s =
     (let s = on_rf (memcheck_merge (REG_OUT insn 0) (REG_IN insn 0)) s;
         s = on_rf (memcheck_merge (REG_OUT insn 0) (REG_IN insn 1)) s
     in (iss_insn_next insn pc, REG_SET insn 0 (lib_MINU (REG_GET insn 0 s) (REG_GET insn 1 s)) s))"

definition p_max_exec :: "exec" where
  "p_max_exec insn pc s =
     (let s = on_rf (memcheck_merge (REG_OUT insn 0) (REG_IN insn 0)) s;
         s = on_rf (memcheck_merge (REG_OUT insn 0) (REG_IN insn 1)) s
     in (iss_insn_next insn pc, REG_SET insn 0 (lib_MAXS (REG_GET insn 0 s) (REG_GET insn 1 s)) s))"

definition p_maxu_exec :: "exec" where
  "p_maxu_exec insn pc s =
     (let s = on_rf (memcheck_merge (REG_OUT insn 0) (REG_IN insn 0)) s;
         s = on_rf (memcheck_merge (REG_OUT insn 0) (REG_IN insn 1)) s
     in (iss_insn_next insn pc, REG_SET insn 0 (lib_MAXU (REG_GET insn 0 s) (REG_GET insn 1 s)) s))"

definition p_ror_exec :: "exec" where
  "p_ror_exec insn pc s =
     (let s = (if \<not> memcheck_get_valid (REG_IN insn 1) (iss_regfile s)
             then on_rf (memcheck_set_valid (REG_OUT insn 0) False) s
             else on_rf (memcheck_set (REG_OUT insn 0) (lib_ROR (memcheck_get (REG_IN insn 0) (iss_regfile s)) (REG_GET insn 1 s))) s)
      in (iss_insn_next insn pc, REG_SET insn 0 (lib_ROR (REG_GET insn 0 s) (REG_GET insn 1 s)) s))"

definition p_ff1_exec :: "exec" where
  "p_ff1_exec insn pc s =
     (let s = on_rf (memcheck_merge (REG_OUT insn 0) (REG_IN insn 0)) s
     in (iss_insn_next insn pc, REG_SET insn 0 (lib_FF1 (REG_GET insn 0 s)) s))"

definition p_fl1_exec :: "exec" where
  "p_fl1_exec insn pc s =
     (let s = on_rf (memcheck_merge (REG_OUT insn 0) (REG_IN insn 0)) s
     in (iss_insn_next insn pc, REG_SET insn 0 (lib_FL1 (REG_GET insn 0 s)) s))"

definition p_clb_exec :: "exec" where
  "p_clb_exec insn pc s =
     (let s = on_rf (memcheck_merge (REG_OUT insn 0) (REG_IN insn 0)) s
     in (iss_insn_next insn pc, REG_SET insn 0 (lib_CLB (REG_GET insn 0 s)) s))"

definition p_cnt_exec :: "exec" where
  "p_cnt_exec insn pc s =
     (let s = on_rf (memcheck_merge (REG_OUT insn 0) (REG_IN insn 0)) s
     in (iss_insn_next insn pc, REG_SET insn 0 (lib_CNT (REG_GET insn 0 s)) s))"

definition p_exths_exec :: "exec" where
  "p_exths_exec insn pc s =
     (let s = on_rf (memcheck_set (REG_OUT insn 0) (iss_get_signed_value ((memcheck_get (REG_IN insn 0) (iss_regfile s))) 16)) s
     in (iss_insn_next insn pc, REG_SET insn 0 (iss_get_signed_value (REG_GET insn 0 s) 16) s))"

definition p_exthz_exec :: "exec" where
  "p_exthz_exec insn pc s =
     (let s = on_rf (memcheck_set (REG_OUT insn 0) (getField (memcheck_get (REG_IN insn 0) (iss_regfile s)) 0 16 OR 0xffff0000)) s
      in (iss_insn_next insn pc, REG_SET insn 0 (getField (REG_GET insn 0 s) 0 16) s))"

definition p_extbs_exec :: "exec" where
  "p_extbs_exec insn pc s =
     (let s = on_rf (memcheck_set (REG_OUT insn 0) (iss_get_signed_value ((memcheck_get (REG_IN insn 0) (iss_regfile s))) 8)) s
     in (iss_insn_next insn pc, REG_SET insn 0 (iss_get_signed_value (REG_GET insn 0 s) 8) s))"

definition p_extbz_exec :: "exec" where
  "p_extbz_exec insn pc s =
     (let s = on_rf (memcheck_set (REG_OUT insn 0) (getField (memcheck_get (REG_IN insn 0) (iss_regfile s)) 0 8 OR 0xffffff00)) s
      in (iss_insn_next insn pc, REG_SET insn 0 (getField (REG_GET insn 0 s) 0 8) s))"

definition p_abs_exec :: "exec" where
  "p_abs_exec insn pc s =
     (let s = on_rf (memcheck_merge (REG_OUT insn 0) (REG_IN insn 0)) s
     in (iss_insn_next insn pc, REG_SET insn 0 (lib_ABS (REG_GET insn 0 s)) s))"

definition pv_extract_h_exec :: "exec" where
  "pv_extract_h_exec insn pc s =
     (let s = on_rf (memcheck_merge (REG_OUT insn 0) (REG_IN insn 0)) s
     in (iss_insn_next insn pc, REG_SET insn 0 (lib_VEC_EXT_16 (REG_GET insn 0 s) (unat (UIM_GET insn 0))) s))"

definition pv_extract_b_exec :: "exec" where
  "pv_extract_b_exec insn pc s =
     (let s = on_rf (memcheck_merge (REG_OUT insn 0) (REG_IN insn 0)) s
     in (iss_insn_next insn pc, REG_SET insn 0 (lib_VEC_EXT_8 (REG_GET insn 0 s) (unat (UIM_GET insn 0))) s))"

definition pv_extractu_h_exec :: "exec" where
  "pv_extractu_h_exec insn pc s =
     (let s = on_rf (memcheck_merge (REG_OUT insn 0) (REG_IN insn 0)) s
     in (iss_insn_next insn pc, REG_SET insn 0 (lib_VEC_EXTU 16 (REG_GET insn 0 s) (unat (UIM_GET insn 0))) s))"

definition pv_extractu_b_exec :: "exec" where
  "pv_extractu_b_exec insn pc s =
     (let s = on_rf (memcheck_merge (REG_OUT insn 0) (REG_IN insn 0)) s
     in (iss_insn_next insn pc, REG_SET insn 0 (lib_VEC_EXTU 8 (REG_GET insn 0 s) (unat (UIM_GET insn 0))) s))"

definition pv_insert_h_exec :: "exec" where
  "pv_insert_h_exec insn pc s =
     (let s = on_rf (memcheck_merge (REG_OUT insn 0) (REG_IN insn 0)) s;
         s = on_rf (memcheck_merge (REG_OUT insn 0) (REG_IN insn 1)) s
     in (iss_insn_next insn pc, REG_SET insn 0 (lib_VEC_INS 16 (REG_GET insn 0 s) (REG_GET insn 1 s) (unat (UIM_GET insn 0))) s))"

definition pv_insert_b_exec :: "exec" where
  "pv_insert_b_exec insn pc s =
     (let s = on_rf (memcheck_merge (REG_OUT insn 0) (REG_IN insn 0)) s;
         s = on_rf (memcheck_merge (REG_OUT insn 0) (REG_IN insn 1)) s
     in (iss_insn_next insn pc, REG_SET insn 0 (lib_VEC_INS 8 (REG_GET insn 0 s) (REG_GET insn 1 s) (unat (UIM_GET insn 0))) s))"

definition pv_shuffle_h_exec :: "exec" where
  "pv_shuffle_h_exec insn pc s =
     (let s = on_rf (memcheck_merge (REG_OUT insn 0) (REG_IN insn 0)) s
     in (iss_insn_next insn pc, REG_SET insn 0 (lib_VEC_SHUFFLE_16 (REG_GET insn 0 s) (REG_GET insn 1 s)) s))"

definition pv_shuffle_h_sci_exec :: "exec" where
  "pv_shuffle_h_sci_exec insn pc s =
     (let s = on_rf (memcheck_merge (REG_OUT insn 0) (REG_IN insn 0)) s
     in (iss_insn_next insn pc, REG_SET insn 0 (lib_VEC_SHUFFLE_SCI_16 (REG_GET insn 0 s) (UIM_GET insn 0)) s))"

definition pv_shuffle_b_exec :: "exec" where
  "pv_shuffle_b_exec insn pc s =
     (let s = on_rf (memcheck_merge (REG_OUT insn 0) (REG_IN insn 0)) s;
         s = on_rf (memcheck_merge (REG_OUT insn 0) (REG_IN insn 1)) s
     in (iss_insn_next insn pc, REG_SET insn 0 (lib_VEC_SHUFFLE_8 (REG_GET insn 0 s) (REG_GET insn 1 s)) s))"

definition pv_shufflei0_b_sci_exec :: "exec" where
  "pv_shufflei0_b_sci_exec insn pc s =
     (let s = on_rf (memcheck_merge (REG_OUT insn 0) (REG_IN insn 0)) s
     in (iss_insn_next insn pc, REG_SET insn 0 (lib_VEC_SHUFFLEI0_SCI_8 (REG_GET insn 0 s) (UIM_GET insn 0)) s))"

definition pv_shufflei1_b_sci_exec :: "exec" where
  "pv_shufflei1_b_sci_exec insn pc s =
     (let s = on_rf (memcheck_merge (REG_OUT insn 0) (REG_IN insn 0)) s
     in (iss_insn_next insn pc, REG_SET insn 0 (lib_VEC_SHUFFLEI1_SCI_8 (REG_GET insn 0 s) (UIM_GET insn 0)) s))"

definition pv_shufflei2_b_sci_exec :: "exec" where
  "pv_shufflei2_b_sci_exec insn pc s =
     (let s = on_rf (memcheck_merge (REG_OUT insn 0) (REG_IN insn 0)) s
     in (iss_insn_next insn pc, REG_SET insn 0 (lib_VEC_SHUFFLEI2_SCI_8 (REG_GET insn 0 s) (UIM_GET insn 0)) s))"

definition pv_shufflei3_b_sci_exec :: "exec" where
  "pv_shufflei3_b_sci_exec insn pc s =
     (let s = on_rf (memcheck_merge (REG_OUT insn 0) (REG_IN insn 0)) s
     in (iss_insn_next insn pc, REG_SET insn 0 (lib_VEC_SHUFFLEI3_SCI_8 (REG_GET insn 0 s) (UIM_GET insn 0)) s))"

definition pv_shuffle2_h_exec :: "exec" where
  "pv_shuffle2_h_exec insn pc s =
     (let s = on_rf (memcheck_merge (REG_OUT insn 0) (REG_IN insn 0)) s;
         s = on_rf (memcheck_merge (REG_OUT insn 0) (REG_IN insn 1)) s;
         s = on_rf (memcheck_merge (REG_OUT insn 0) (REG_IN insn 2)) s
     in (iss_insn_next insn pc, REG_SET insn 0 (lib_VEC_SHUFFLE2_16 (REG_GET insn 0 s) (REG_GET insn 1 s) (REG_GET insn 2 s)) s))"

definition pv_shuffle2_b_exec :: "exec" where
  "pv_shuffle2_b_exec insn pc s =
     (let s = on_rf (memcheck_merge (REG_OUT insn 0) (REG_IN insn 0)) s;
         s = on_rf (memcheck_merge (REG_OUT insn 0) (REG_IN insn 1)) s;
         s = on_rf (memcheck_merge (REG_OUT insn 0) (REG_IN insn 2)) s
     in (iss_insn_next insn pc, REG_SET insn 0 (lib_VEC_SHUFFLE2_8 (REG_GET insn 0 s) (REG_GET insn 1 s) (REG_GET insn 2 s)) s))"

definition pv_pack_h_exec :: "exec" where
  "pv_pack_h_exec insn pc s =
     (let s = on_rf (memcheck_merge (REG_OUT insn 0) (REG_IN insn 0)) s;
         s = on_rf (memcheck_merge (REG_OUT insn 0) (REG_IN insn 1)) s
     in (iss_insn_next insn pc, REG_SET insn 0 (lib_VEC_PACK_SC_16 (REG_GET insn 0 s) (REG_GET insn 1 s)) s))"

definition pv_packhi_b_exec :: "exec" where
  "pv_packhi_b_exec insn pc s =
     (let s = on_rf (memcheck_merge (REG_OUT insn 0) (REG_IN insn 0)) s;
         s = on_rf (memcheck_merge (REG_OUT insn 0) (REG_IN insn 1)) s;
         s = on_rf (memcheck_merge (REG_OUT insn 0) (REG_IN insn 2)) s
     in (iss_insn_next insn pc, REG_SET insn 0 (lib_VEC_PACKHI_SC_8 (REG_GET insn 0 s) (REG_GET insn 1 s) (REG_GET insn 2 s)) s))"

definition pv_packlo_b_exec :: "exec" where
  "pv_packlo_b_exec insn pc s =
     (let s = on_rf (memcheck_merge (REG_OUT insn 0) (REG_IN insn 0)) s;
         s = on_rf (memcheck_merge (REG_OUT insn 0) (REG_IN insn 1)) s;
         s = on_rf (memcheck_merge (REG_OUT insn 0) (REG_IN insn 2)) s
     in (iss_insn_next insn pc, REG_SET insn 0 (lib_VEC_PACKLO_SC_8 (REG_GET insn 0 s) (REG_GET insn 1 s) (REG_GET insn 2 s)) s))"

definition p_mac_exec :: "exec" where
  "p_mac_exec insn pc s =
     (let s = on_rf (memcheck_merge (REG_OUT insn 0) (REG_IN insn 0)) s;
         s = on_rf (memcheck_merge (REG_OUT insn 0) (REG_IN insn 1)) s;
         s = on_rf (memcheck_merge (REG_OUT insn 0) (REG_IN insn 2)) s
     in (iss_insn_next insn pc, REG_SET insn 0 (lib_MAC (REG_GET insn 2 s) (REG_GET insn 0 s) (REG_GET insn 1 s)) s))"

definition p_msu_exec :: "exec" where
  "p_msu_exec insn pc s =
     (let s = on_rf (memcheck_merge (REG_OUT insn 0) (REG_IN insn 0)) s;
         s = on_rf (memcheck_merge (REG_OUT insn 0) (REG_IN insn 1)) s;
         s = on_rf (memcheck_merge (REG_OUT insn 0) (REG_IN insn 2)) s
     in (iss_insn_next insn pc, REG_SET insn 0 (lib_MSU (REG_GET insn 2 s) (REG_GET insn 0 s) (REG_GET insn 1 s)) s))"

definition p_mul_exec :: "exec" where
  "p_mul_exec insn pc s =
     (let s = on_rf (memcheck_merge (REG_OUT insn 0) (REG_IN insn 0)) s;
         s = on_rf (memcheck_merge (REG_OUT insn 0) (REG_IN insn 1)) s
     in (iss_insn_next insn pc, REG_SET insn 0 (lib_MULS (REG_GET insn 0 s) (REG_GET insn 1 s)) s))"

definition p_muls_exec :: "exec" where
  "p_muls_exec insn pc s =
     (let s = on_rf (memcheck_merge (REG_OUT insn 0) (REG_IN insn 0)) s;
         s = on_rf (memcheck_merge (REG_OUT insn 0) (REG_IN insn 1)) s
     in (iss_insn_next insn pc, REG_SET insn 0 (lib_MUL_half SL SL (REG_GET insn 0 s) (REG_GET insn 1 s)) s))"

definition p_mulhhs_exec :: "exec" where
  "p_mulhhs_exec insn pc s =
     (let s = on_rf (memcheck_merge (REG_OUT insn 0) (REG_IN insn 0)) s;
         s = on_rf (memcheck_merge (REG_OUT insn 0) (REG_IN insn 1)) s
     in (iss_insn_next insn pc, REG_SET insn 0 (lib_MUL_half SH SH (REG_GET insn 0 s) (REG_GET insn 1 s)) s))"

definition p_mulsN_exec :: "exec" where
  "p_mulsN_exec insn pc s =
     (let s = on_rf (memcheck_merge (REG_OUT insn 0) (REG_IN insn 0)) s;
         s = on_rf (memcheck_merge (REG_OUT insn 0) (REG_IN insn 1)) s
     in (iss_insn_next insn pc, REG_SET insn 0 (lib_MUL_half_NR SL (REG_GET insn 0 s) (REG_GET insn 1 s) (UIM_GET insn 0)) s))"

definition p_mulhhsN_exec :: "exec" where
  "p_mulhhsN_exec insn pc s =
     (let s = on_rf (memcheck_merge (REG_OUT insn 0) (REG_IN insn 0)) s;
         s = on_rf (memcheck_merge (REG_OUT insn 0) (REG_IN insn 1)) s
     in (iss_insn_next insn pc, REG_SET insn 0 (lib_MUL_half_NR SH (REG_GET insn 0 s) (REG_GET insn 1 s) (UIM_GET insn 0)) s))"

definition p_mulsNR_exec :: "exec" where
  "p_mulsNR_exec insn pc s =
     (let s = on_rf (memcheck_merge (REG_OUT insn 0) (REG_IN insn 0)) s;
         s = on_rf (memcheck_merge (REG_OUT insn 0) (REG_IN insn 1)) s
     in (iss_insn_next insn pc, REG_SET insn 0 (lib_MUL_half_NR_R SL (REG_GET insn 0 s) (REG_GET insn 1 s) (UIM_GET insn 0)) s))"

definition p_mulhhsNR_exec :: "exec" where
  "p_mulhhsNR_exec insn pc s =
     (let s = on_rf (memcheck_merge (REG_OUT insn 0) (REG_IN insn 0)) s;
         s = on_rf (memcheck_merge (REG_OUT insn 0) (REG_IN insn 1)) s
     in (iss_insn_next insn pc, REG_SET insn 0 (lib_MUL_half_NR_R SH (REG_GET insn 0 s) (REG_GET insn 1 s) (UIM_GET insn 0)) s))"

definition p_mulu_exec :: "exec" where
  "p_mulu_exec insn pc s =
     (let s = on_rf (memcheck_merge (REG_OUT insn 0) (REG_IN insn 0)) s;
         s = on_rf (memcheck_merge (REG_OUT insn 0) (REG_IN insn 1)) s
     in (iss_insn_next insn pc, REG_SET insn 0 (lib_MUL_half ZL ZL (REG_GET insn 0 s) (REG_GET insn 1 s)) s))"

definition p_mulhhu_exec :: "exec" where
  "p_mulhhu_exec insn pc s =
     (let s = on_rf (memcheck_merge (REG_OUT insn 0) (REG_IN insn 0)) s;
         s = on_rf (memcheck_merge (REG_OUT insn 0) (REG_IN insn 1)) s
     in (iss_insn_next insn pc, REG_SET insn 0 (lib_MUL_half ZH ZH (REG_GET insn 0 s) (REG_GET insn 1 s)) s))"

definition p_muluN_exec :: "exec" where
  "p_muluN_exec insn pc s =
     (let s = on_rf (memcheck_merge (REG_OUT insn 0) (REG_IN insn 0)) s;
         s = on_rf (memcheck_merge (REG_OUT insn 0) (REG_IN insn 1)) s
     in (iss_insn_next insn pc, REG_SET insn 0 (lib_MUL_half_NR ZL (REG_GET insn 0 s) (REG_GET insn 1 s) (UIM_GET insn 0)) s))"

definition p_mulhhuN_exec :: "exec" where
  "p_mulhhuN_exec insn pc s =
     (let s = on_rf (memcheck_merge (REG_OUT insn 0) (REG_IN insn 0)) s;
         s = on_rf (memcheck_merge (REG_OUT insn 0) (REG_IN insn 1)) s
     in (iss_insn_next insn pc, REG_SET insn 0 (lib_MUL_half_NR ZH (REG_GET insn 0 s) (REG_GET insn 1 s) (UIM_GET insn 0)) s))"

definition p_muluNR_exec :: "exec" where
  "p_muluNR_exec insn pc s =
     (let s = on_rf (memcheck_merge (REG_OUT insn 0) (REG_IN insn 0)) s;
         s = on_rf (memcheck_merge (REG_OUT insn 0) (REG_IN insn 1)) s
     in (iss_insn_next insn pc, REG_SET insn 0 (lib_MUL_half_NR_R ZL (REG_GET insn 0 s) (REG_GET insn 1 s) (UIM_GET insn 0)) s))"

definition p_mulhhuNR_exec :: "exec" where
  "p_mulhhuNR_exec insn pc s =
     (let s = on_rf (memcheck_merge (REG_OUT insn 0) (REG_IN insn 0)) s;
         s = on_rf (memcheck_merge (REG_OUT insn 0) (REG_IN insn 1)) s
     in (iss_insn_next insn pc, REG_SET insn 0 (lib_MUL_half_NR_R ZH (REG_GET insn 0 s) (REG_GET insn 1 s) (UIM_GET insn 0)) s))"

definition p_macs_exec :: "exec" where
  "p_macs_exec insn pc s =
     (let s = on_rf (memcheck_merge (REG_OUT insn 0) (REG_IN insn 0)) s;
         s = on_rf (memcheck_merge (REG_OUT insn 0) (REG_IN insn 1)) s;
         s = on_rf (memcheck_merge (REG_OUT insn 0) (REG_IN insn 2)) s
     in (iss_insn_next insn pc, REG_SET insn 0 (lib_MAC_half SL SL (REG_GET insn 2 s) (REG_GET insn 0 s) (REG_GET insn 1 s)) s))"

definition p_machhs_exec :: "exec" where
  "p_machhs_exec insn pc s =
     (let s = on_rf (memcheck_merge (REG_OUT insn 0) (REG_IN insn 0)) s;
         s = on_rf (memcheck_merge (REG_OUT insn 0) (REG_IN insn 1)) s;
         s = on_rf (memcheck_merge (REG_OUT insn 0) (REG_IN insn 2)) s
     in (iss_insn_next insn pc, REG_SET insn 0 (lib_MAC_half SH SH (REG_GET insn 2 s) (REG_GET insn 0 s) (REG_GET insn 1 s)) s))"

definition p_macsN_exec :: "exec" where
  "p_macsN_exec insn pc s =
     (let s = on_rf (memcheck_merge (REG_OUT insn 0) (REG_IN insn 0)) s;
         s = on_rf (memcheck_merge (REG_OUT insn 0) (REG_IN insn 1)) s;
         s = on_rf (memcheck_merge (REG_OUT insn 0) (REG_IN insn 2)) s
     in (iss_insn_next insn pc, REG_SET insn 0 (lib_MAC_half_NR SL (REG_GET insn 2 s) (REG_GET insn 0 s) (REG_GET insn 1 s) (UIM_GET insn 0)) s))"

definition p_machhsN_exec :: "exec" where
  "p_machhsN_exec insn pc s =
     (let s = on_rf (memcheck_merge (REG_OUT insn 0) (REG_IN insn 0)) s;
         s = on_rf (memcheck_merge (REG_OUT insn 0) (REG_IN insn 1)) s;
         s = on_rf (memcheck_merge (REG_OUT insn 0) (REG_IN insn 2)) s
     in (iss_insn_next insn pc, REG_SET insn 0 (lib_MAC_half_NR SH (REG_GET insn 2 s) (REG_GET insn 0 s) (REG_GET insn 1 s) (UIM_GET insn 0)) s))"

definition p_macsNR_exec :: "exec" where
  "p_macsNR_exec insn pc s =
     (let s = on_rf (memcheck_merge (REG_OUT insn 0) (REG_IN insn 0)) s;
         s = on_rf (memcheck_merge (REG_OUT insn 0) (REG_IN insn 1)) s;
         s = on_rf (memcheck_merge (REG_OUT insn 0) (REG_IN insn 2)) s
     in (iss_insn_next insn pc, REG_SET insn 0 (lib_MAC_half_NR_R SL (REG_GET insn 2 s) (REG_GET insn 0 s) (REG_GET insn 1 s) (UIM_GET insn 0)) s))"

definition p_machhsNR_exec :: "exec" where
  "p_machhsNR_exec insn pc s =
     (let s = on_rf (memcheck_merge (REG_OUT insn 0) (REG_IN insn 0)) s;
         s = on_rf (memcheck_merge (REG_OUT insn 0) (REG_IN insn 1)) s;
         s = on_rf (memcheck_merge (REG_OUT insn 0) (REG_IN insn 2)) s
     in (iss_insn_next insn pc, REG_SET insn 0 (lib_MAC_half_NR_R SH (REG_GET insn 2 s) (REG_GET insn 0 s) (REG_GET insn 1 s) (UIM_GET insn 0)) s))"

definition p_macu_exec :: "exec" where
  "p_macu_exec insn pc s =
     (let s = on_rf (memcheck_merge (REG_OUT insn 0) (REG_IN insn 0)) s;
         s = on_rf (memcheck_merge (REG_OUT insn 0) (REG_IN insn 1)) s;
         s = on_rf (memcheck_merge (REG_OUT insn 0) (REG_IN insn 2)) s
     in (iss_insn_next insn pc, REG_SET insn 0 (lib_MAC_half ZL ZL (REG_GET insn 2 s) (REG_GET insn 0 s) (REG_GET insn 1 s)) s))"

definition p_machhu_exec :: "exec" where
  "p_machhu_exec insn pc s =
     (let s = on_rf (memcheck_merge (REG_OUT insn 0) (REG_IN insn 0)) s;
         s = on_rf (memcheck_merge (REG_OUT insn 0) (REG_IN insn 1)) s;
         s = on_rf (memcheck_merge (REG_OUT insn 0) (REG_IN insn 2)) s
     in (iss_insn_next insn pc, REG_SET insn 0 (lib_MAC_half ZH ZH (REG_GET insn 2 s) (REG_GET insn 0 s) (REG_GET insn 1 s)) s))"

definition p_macuN_exec :: "exec" where
  "p_macuN_exec insn pc s =
     (let s = on_rf (memcheck_merge (REG_OUT insn 0) (REG_IN insn 0)) s;
         s = on_rf (memcheck_merge (REG_OUT insn 0) (REG_IN insn 1)) s;
         s = on_rf (memcheck_merge (REG_OUT insn 0) (REG_IN insn 2)) s
     in (iss_insn_next insn pc, REG_SET insn 0 (lib_MAC_half_NR ZL (REG_GET insn 2 s) (REG_GET insn 0 s) (REG_GET insn 1 s) (UIM_GET insn 0)) s))"

definition p_machhuN_exec :: "exec" where
  "p_machhuN_exec insn pc s =
     (let s = on_rf (memcheck_merge (REG_OUT insn 0) (REG_IN insn 0)) s;
         s = on_rf (memcheck_merge (REG_OUT insn 0) (REG_IN insn 1)) s;
         s = on_rf (memcheck_merge (REG_OUT insn 0) (REG_IN insn 2)) s
     in (iss_insn_next insn pc, REG_SET insn 0 (lib_MAC_half_NR ZH (REG_GET insn 2 s) (REG_GET insn 0 s) (REG_GET insn 1 s) (UIM_GET insn 0)) s))"

definition p_macuNR_exec :: "exec" where
  "p_macuNR_exec insn pc s =
     (let s = on_rf (memcheck_merge (REG_OUT insn 0) (REG_IN insn 0)) s;
         s = on_rf (memcheck_merge (REG_OUT insn 0) (REG_IN insn 1)) s;
         s = on_rf (memcheck_merge (REG_OUT insn 0) (REG_IN insn 2)) s
     in (iss_insn_next insn pc, REG_SET insn 0 (lib_MAC_half_NR_R ZL (REG_GET insn 2 s) (REG_GET insn 0 s) (REG_GET insn 1 s) (UIM_GET insn 0)) s))"

definition p_machhuNR_exec :: "exec" where
  "p_machhuNR_exec insn pc s =
     (let s = on_rf (memcheck_merge (REG_OUT insn 0) (REG_IN insn 0)) s;
         s = on_rf (memcheck_merge (REG_OUT insn 0) (REG_IN insn 1)) s;
         s = on_rf (memcheck_merge (REG_OUT insn 0) (REG_IN insn 2)) s
     in (iss_insn_next insn pc, REG_SET insn 0 (lib_MAC_half_NR_R ZH (REG_GET insn 2 s) (REG_GET insn 0 s) (REG_GET insn 1 s) (UIM_GET insn 0)) s))"

definition p_addNi_exec :: "exec" where
  "p_addNi_exec insn pc s =
     (let s = on_rf (memcheck_merge (REG_OUT insn 0) (REG_IN insn 0)) s;
         s = on_rf (memcheck_merge (REG_OUT insn 0) (REG_IN insn 1)) s
     in (iss_insn_next insn pc, REG_SET insn 0 (lib_ADD_NR (REG_GET insn 0 s) (REG_GET insn 1 s) (UIM_GET insn 0)) s))"

definition p_adduNi_exec :: "exec" where
  "p_adduNi_exec insn pc s =
     (let s = on_rf (memcheck_merge (REG_OUT insn 0) (REG_IN insn 0)) s;
         s = on_rf (memcheck_merge (REG_OUT insn 0) (REG_IN insn 1)) s
     in (iss_insn_next insn pc, REG_SET insn 0 (lib_ADD_NRU (REG_GET insn 0 s) (REG_GET insn 1 s) (UIM_GET insn 0)) s))"

definition p_addRNi_exec :: "exec" where
  "p_addRNi_exec insn pc s =
     (let s = on_rf (memcheck_merge (REG_OUT insn 0) (REG_IN insn 0)) s;
         s = on_rf (memcheck_merge (REG_OUT insn 0) (REG_IN insn 1)) s
     in (iss_insn_next insn pc, REG_SET insn 0 (lib_ADD_NR_R (REG_GET insn 0 s) (REG_GET insn 1 s) (UIM_GET insn 0)) s))"

definition p_adduRNi_exec :: "exec" where
  "p_adduRNi_exec insn pc s =
     (let s = on_rf (memcheck_merge (REG_OUT insn 0) (REG_IN insn 0)) s;
         s = on_rf (memcheck_merge (REG_OUT insn 0) (REG_IN insn 1)) s
     in (iss_insn_next insn pc, REG_SET insn 0 (lib_ADD_NR_RU (REG_GET insn 0 s) (REG_GET insn 1 s) (UIM_GET insn 0)) s))"

definition p_subNi_exec :: "exec" where
  "p_subNi_exec insn pc s =
     (let s = on_rf (memcheck_merge (REG_OUT insn 0) (REG_IN insn 0)) s;
         s = on_rf (memcheck_merge (REG_OUT insn 0) (REG_IN insn 1)) s
     in (iss_insn_next insn pc, REG_SET insn 0 (lib_SUB_NR (REG_GET insn 0 s) (REG_GET insn 1 s) (UIM_GET insn 0)) s))"

definition p_subuNi_exec :: "exec" where
  "p_subuNi_exec insn pc s =
     (let s = on_rf (memcheck_merge (REG_OUT insn 0) (REG_IN insn 0)) s;
         s = on_rf (memcheck_merge (REG_OUT insn 0) (REG_IN insn 1)) s
     in (iss_insn_next insn pc, REG_SET insn 0 (lib_SUB_NRU (REG_GET insn 0 s) (REG_GET insn 1 s) (UIM_GET insn 0)) s))"

definition p_subRNi_exec :: "exec" where
  "p_subRNi_exec insn pc s =
     (let s = on_rf (memcheck_merge (REG_OUT insn 0) (REG_IN insn 0)) s;
         s = on_rf (memcheck_merge (REG_OUT insn 0) (REG_IN insn 1)) s
     in (iss_insn_next insn pc, REG_SET insn 0 (lib_SUB_NR_R (REG_GET insn 0 s) (REG_GET insn 1 s) (UIM_GET insn 0)) s))"

definition p_subuRNi_exec :: "exec" where
  "p_subuRNi_exec insn pc s =
     (let s = on_rf (memcheck_merge (REG_OUT insn 0) (REG_IN insn 0)) s;
         s = on_rf (memcheck_merge (REG_OUT insn 0) (REG_IN insn 1)) s
     in (iss_insn_next insn pc, REG_SET insn 0 (lib_SUB_NR_RU (REG_GET insn 0 s) (REG_GET insn 1 s) (UIM_GET insn 0)) s))"

definition p_addN_exec :: "exec" where
  "p_addN_exec insn pc s =
     (let s = on_rf (memcheck_merge (REG_OUT insn 0) (REG_IN insn 0)) s;
         s = on_rf (memcheck_merge (REG_OUT insn 0) (REG_IN insn 1)) s;
         s = on_rf (memcheck_merge (REG_OUT insn 0) (REG_IN insn 2)) s
     in (iss_insn_next insn pc, REG_SET insn 0 (lib_ADD_NR (REG_GET insn 0 s) (REG_GET insn 1 s) (REG_GET insn 2 s)) s))"

definition p_adduN_exec :: "exec" where
  "p_adduN_exec insn pc s =
     (let s = on_rf (memcheck_merge (REG_OUT insn 0) (REG_IN insn 0)) s;
         s = on_rf (memcheck_merge (REG_OUT insn 0) (REG_IN insn 1)) s;
         s = on_rf (memcheck_merge (REG_OUT insn 0) (REG_IN insn 2)) s
     in (iss_insn_next insn pc, REG_SET insn 0 (lib_ADD_NRU (REG_GET insn 0 s) (REG_GET insn 1 s) (REG_GET insn 2 s)) s))"

definition p_addRN_exec :: "exec" where
  "p_addRN_exec insn pc s =
     (let s = on_rf (memcheck_merge (REG_OUT insn 0) (REG_IN insn 0)) s;
         s = on_rf (memcheck_merge (REG_OUT insn 0) (REG_IN insn 1)) s;
         s = on_rf (memcheck_merge (REG_OUT insn 0) (REG_IN insn 2)) s
     in (iss_insn_next insn pc, REG_SET insn 0 (lib_ADD_NR_R (REG_GET insn 0 s) (REG_GET insn 1 s) (REG_GET insn 2 s)) s))"

definition p_adduRN_exec :: "exec" where
  "p_adduRN_exec insn pc s =
     (let s = on_rf (memcheck_merge (REG_OUT insn 0) (REG_IN insn 0)) s;
         s = on_rf (memcheck_merge (REG_OUT insn 0) (REG_IN insn 1)) s;
         s = on_rf (memcheck_merge (REG_OUT insn 0) (REG_IN insn 2)) s
     in (iss_insn_next insn pc, REG_SET insn 0 (lib_ADD_NR_RU (REG_GET insn 0 s) (REG_GET insn 1 s) (REG_GET insn 2 s)) s))"

definition p_subN_exec :: "exec" where
  "p_subN_exec insn pc s =
     (let s = on_rf (memcheck_merge (REG_OUT insn 0) (REG_IN insn 0)) s;
         s = on_rf (memcheck_merge (REG_OUT insn 0) (REG_IN insn 1)) s;
         s = on_rf (memcheck_merge (REG_OUT insn 0) (REG_IN insn 2)) s
     in (iss_insn_next insn pc, REG_SET insn 0 (lib_SUB_NR (REG_GET insn 0 s) (REG_GET insn 1 s) (REG_GET insn 2 s)) s))"

definition p_subuN_exec :: "exec" where
  "p_subuN_exec insn pc s =
     (let s = on_rf (memcheck_merge (REG_OUT insn 0) (REG_IN insn 0)) s;
         s = on_rf (memcheck_merge (REG_OUT insn 0) (REG_IN insn 1)) s;
         s = on_rf (memcheck_merge (REG_OUT insn 0) (REG_IN insn 2)) s
     in (iss_insn_next insn pc, REG_SET insn 0 (lib_SUB_NRU (REG_GET insn 0 s) (REG_GET insn 1 s) (REG_GET insn 2 s)) s))"

definition p_subRN_exec :: "exec" where
  "p_subRN_exec insn pc s =
     (let s = on_rf (memcheck_merge (REG_OUT insn 0) (REG_IN insn 0)) s;
         s = on_rf (memcheck_merge (REG_OUT insn 0) (REG_IN insn 1)) s;
         s = on_rf (memcheck_merge (REG_OUT insn 0) (REG_IN insn 2)) s
     in (iss_insn_next insn pc, REG_SET insn 0 (lib_SUB_NR_R (REG_GET insn 0 s) (REG_GET insn 1 s) (REG_GET insn 2 s)) s))"

definition p_subuRN_exec :: "exec" where
  "p_subuRN_exec insn pc s =
     (let s = on_rf (memcheck_merge (REG_OUT insn 0) (REG_IN insn 0)) s;
         s = on_rf (memcheck_merge (REG_OUT insn 0) (REG_IN insn 1)) s;
         s = on_rf (memcheck_merge (REG_OUT insn 0) (REG_IN insn 2)) s
     in (iss_insn_next insn pc, REG_SET insn 0 (lib_SUB_NR_RU (REG_GET insn 0 s) (REG_GET insn 1 s) (REG_GET insn 2 s)) s))"

definition p_clipi_exec :: "exec" where
  "p_clipi_exec insn pc s =
     (let s = on_rf (memcheck_merge (REG_OUT insn 0) (REG_IN insn 0)) s; low = - push_bit (clip_bits (UIM_GET insn 0)) 1;
         high = push_bit (clip_bits (UIM_GET insn 0)) 1 - 1
     in (iss_insn_next insn pc, REG_SET insn 0 (lib_CLIP (REG_GET insn 0 s) low high) s))"

definition p_clipui_exec :: "exec" where
  "p_clipui_exec insn pc s =
     (let s = on_rf (memcheck_merge (REG_OUT insn 0) (REG_IN insn 0)) s; high = push_bit (clip_bits (UIM_GET insn 0)) 1 - 1
     in (iss_insn_next insn pc, REG_SET insn 0 (lib_CLIPU (REG_GET insn 0 s) high) s))"

definition p_clip_exec :: "exec" where
  "p_clip_exec insn pc s =
     (let s = on_rf (memcheck_merge (REG_OUT insn 0) (REG_IN insn 0)) s;
         s = on_rf (memcheck_merge (REG_OUT insn 0) (REG_IN insn 1)) s;
         low = - REG_GET insn 1 s - 1;
         high = REG_GET insn 1 s
     in (iss_insn_next insn pc, REG_SET insn 0 (lib_CLIP (REG_GET insn 0 s) low high) s))"

definition p_clipu_exec :: "exec" where
  "p_clipu_exec insn pc s =
     (let s = on_rf (memcheck_merge (REG_OUT insn 0) (REG_IN insn 0)) s;
         s = on_rf (memcheck_merge (REG_OUT insn 0) (REG_IN insn 1)) s;
         high = REG_GET insn 1 s
     in (iss_insn_next insn pc, REG_SET insn 0 (lib_CLIPU (REG_GET insn 0 s) high) s))"

definition p_bclri_exec :: "exec" where
  "p_bclri_exec insn pc s =
     (let width = UIM_GET insn 0 + 1; shift = UIM_GET insn 1;
         s = REG_SET insn 0 (lib_BCLR (REG_GET insn 0 s) (bit_field width shift)) s
     in (iss_insn_next insn pc, on_rf (memcheck_set (REG_OUT insn 0)
           (memcheck_get (REG_IN insn 0) (iss_regfile s) OR bit_field width shift)) s))"

definition p_bclr_exec :: "exec" where
  "p_bclr_exec insn pc s =
     (let width = (drop_bit 5 (REG_GET insn 1 s) AND 0x1f) + 1;
         shift = REG_GET insn 1 s AND 0x1f
     in (iss_insn_next insn pc, REG_SET insn 0 (lib_BCLR (REG_GET insn 0 s) (bit_field width shift)) s))"

definition p_extracti_exec :: "exec" where
  "p_extracti_exec insn pc s =
     (let s = on_rf (memcheck_merge (REG_OUT insn 0) (REG_IN insn 0)) s;
         width = UIM_GET insn 0 + 1;
         shift = UIM_GET insn 1
     in (iss_insn_next insn pc, REG_SET insn 0 (lib_BEXTRACT (REG_GET insn 0 s) width shift) s))"

definition p_extractui_exec :: "exec" where
  "p_extractui_exec insn pc s =
     (let s = on_rf (memcheck_merge (REG_OUT insn 0) (REG_IN insn 0)) s;
         width = UIM_GET insn 0 + 1;
         shift = UIM_GET insn 1
     in (iss_insn_next insn pc, REG_SET insn 0 (lib_BEXTRACTU (REG_GET insn 0 s) (bit_field width shift) shift) s))"

definition p_extract_exec :: "exec" where
  "p_extract_exec insn pc s =
     (let s = on_rf (memcheck_merge (REG_OUT insn 0) (REG_IN insn 0)) s;
         s = on_rf (memcheck_merge (REG_OUT insn 0) (REG_IN insn 1)) s;
         width = (drop_bit 5 (REG_GET insn 1 s) AND 0x1f) + 1;
         shift = REG_GET insn 1 s AND 0x1f
     in (iss_insn_next insn pc, REG_SET insn 0 (lib_BEXTRACT (REG_GET insn 0 s) width shift) s))"

definition p_extractu_exec :: "exec" where
  "p_extractu_exec insn pc s =
     (let s = on_rf (memcheck_merge (REG_OUT insn 0) (REG_IN insn 0)) s;
         s = on_rf (memcheck_merge (REG_OUT insn 0) (REG_IN insn 1)) s;
         width = (drop_bit 5 (REG_GET insn 1 s) AND 0x1f) + 1;
         shift = REG_GET insn 1 s AND 0x1f
     in (iss_insn_next insn pc, REG_SET insn 0 (lib_BEXTRACTU (REG_GET insn 0 s) (bit_field width shift) shift) s))"

definition p_inserti_exec :: "exec" where
  "p_inserti_exec insn pc s =
     (let s = on_rf (memcheck_merge (REG_OUT insn 0) (REG_IN insn 0)) s;
         width = UIM_GET insn 0 + 1;
         shift = UIM_GET insn 1
     in (iss_insn_next insn pc, REG_SET insn 0 (lib_BINSERT (REG_GET insn 0 s) (REG_GET insn 1 s) (bit_field width shift) shift) s))"

definition p_insert_exec :: "exec" where
  "p_insert_exec insn pc s =
     (let s = on_rf (memcheck_merge (REG_OUT insn 0) (REG_IN insn 0)) s;
         s = on_rf (memcheck_merge (REG_OUT insn 0) (REG_IN insn 1)) s;
         width = (drop_bit 5 (REG_GET insn 2 s) AND 0x1f) + 1;
         shift = REG_GET insn 2 s AND 0x1f
     in (iss_insn_next insn pc, REG_SET insn 0 (lib_BINSERT (REG_GET insn 0 s) (REG_GET insn 1 s) (bit_field width shift) shift) s))"

definition p_bseti_exec :: "exec" where
  "p_bseti_exec insn pc s =
     (let s = on_rf (memcheck_merge (REG_OUT insn 0) (REG_IN insn 0)) s;
         width = UIM_GET insn 0 + 1;
         shift = UIM_GET insn 1
     in (iss_insn_next insn pc, REG_SET insn 0 (lib_BSET (REG_GET insn 0 s) (bit_field width shift)) s))"

definition p_bset_exec :: "exec" where
  "p_bset_exec insn pc s =
     (let s = on_rf (memcheck_merge (REG_OUT insn 0) (REG_IN insn 0)) s;
         s = on_rf (memcheck_merge (REG_OUT insn 0) (REG_IN insn 1)) s;
         width = (drop_bit 5 (REG_GET insn 1 s) AND 0x1f) + 1;
         shift = REG_GET insn 1 s AND 0x1f
     in (iss_insn_next insn pc, REG_SET insn 0 (lib_BSET (REG_GET insn 0 s) (bit_field width shift)) s))"

definition p_bneimm_exec_common :: "bool \<Rightarrow> exec" where
  "p_bneimm_exec_common perf insn pc s0 =
     (let s = on_rf (memcheck_branch_reg (REG_IN insn 0)) s0
      in if REG_GET insn 0 s \<noteq> SIM_GET insn 1 then (pc + SIM_GET insn 0, on_tm stall_taken_branch_account s)
         else (iss_insn_next insn pc, if perf then on_tm event_branch_account s else s))"
definition p_bneimm_exec_fast :: exec where "p_bneimm_exec_fast = p_bneimm_exec_common False"
definition p_bneimm_exec :: exec where "p_bneimm_exec = p_bneimm_exec_common True"

definition p_beqimm_exec_common :: "bool \<Rightarrow> exec" where
  "p_beqimm_exec_common perf insn pc s0 =
     (let s = on_rf (memcheck_branch_reg (REG_IN insn 0)) s0
      in if REG_GET insn 0 s = SIM_GET insn 1 then (pc + SIM_GET insn 0, on_tm stall_taken_branch_account s)
         else (iss_insn_next insn pc, if perf then on_tm event_branch_account s else s))"
definition p_beqimm_exec_fast :: exec where "p_beqimm_exec_fast = p_beqimm_exec_common False"
definition p_beqimm_exec :: exec where "p_beqimm_exec = p_beqimm_exec_common True"

section \<open>Packed vectors\<close>

text \<open>The bodies of the macros, for the operation of the library they call.\<close>

abbreviation merge_in :: "iss_insn \<Rightarrow> nat \<Rightarrow> iss \<Rightarrow> iss" where
  "merge_in insn i \<equiv> on_rf (memcheck_merge (REG_OUT insn 0) (REG_IN insn i))"

definition PV_rr :: "(u32 \<Rightarrow> u32 \<Rightarrow> u32) \<Rightarrow> exec" where
  "PV_rr f insn pc s0 =
     (let s = merge_in insn 1 (merge_in insn 0 s0)
      in (iss_insn_next insn pc, REG_SET insn 0 (f (REG_GET insn 0 s) (REG_GET insn 1 s)) s))"
definition PV_rs :: "(u32 \<Rightarrow> u32 \<Rightarrow> u32) \<Rightarrow> exec" where
  "PV_rs f insn pc s0 =
     (let s = merge_in insn 0 s0
      in (iss_insn_next insn pc, REG_SET insn 0 (f (REG_GET insn 0 s) (SIM_GET insn 0)) s))"
definition PV_ru :: "(u32 \<Rightarrow> u32 \<Rightarrow> u32) \<Rightarrow> exec" where
  "PV_ru f insn pc s0 =
     (let s = merge_in insn 0 s0
      in (iss_insn_next insn pc, REG_SET insn 0 (f (REG_GET insn 0 s) (UIM_GET insn 0)) s))"
definition PV_ru_h :: "(u32 \<Rightarrow> u32 \<Rightarrow> u32) \<Rightarrow> exec" where
  "PV_ru_h f insn pc s0 =
     (let s = merge_in insn 1 (merge_in insn 0 s0)
      in (iss_insn_next insn pc, REG_SET insn 0 (f (REG_GET insn 0 s) (UIM_GET insn 0)) s))"
definition PV_ru_b :: "(u32 \<Rightarrow> u32 \<Rightarrow> u32) \<Rightarrow> exec" where
  "PV_ru_b f insn pc s =
     (iss_insn_next insn pc, merge_in insn 0 (REG_SET insn 0 (f (REG_GET insn 0 s) (UIM_GET insn 0)) s))"
definition PV_rrr :: "(u32 \<Rightarrow> u32 \<Rightarrow> u32 \<Rightarrow> u32) \<Rightarrow> exec" where
  "PV_rrr f insn pc s0 =
     (let s = merge_in insn 2 (merge_in insn 1 (merge_in insn 0 s0))
      in (iss_insn_next insn pc, REG_SET insn 0 (f (REG_GET insn 2 s) (REG_GET insn 0 s) (REG_GET insn 1 s)) s))"
definition PV_rrs :: "(u32 \<Rightarrow> u32 \<Rightarrow> u32 \<Rightarrow> u32) \<Rightarrow> exec" where
  "PV_rrs f insn pc s0 =
     (let s = merge_in insn 1 (merge_in insn 0 s0)
      in (iss_insn_next insn pc, REG_SET insn 0 (f (REG_GET insn 0 s) (REG_GET insn 1 s) (SIM_GET insn 0)) s))"
definition PV_rru :: "(u32 \<Rightarrow> u32 \<Rightarrow> u32 \<Rightarrow> u32) \<Rightarrow> exec" where
  "PV_rru f insn pc s0 =
     (let s = merge_in insn 1 (merge_in insn 0 s0)
      in (iss_insn_next insn pc, REG_SET insn 0 (f (REG_GET insn 0 s) (REG_GET insn 1 s) (UIM_GET insn 0)) s))"
definition PV_r :: "(u32 \<Rightarrow> u32) \<Rightarrow> exec" where
  "PV_r f insn pc s0 =
     (let s = merge_in insn 0 s0 in (iss_insn_next insn pc, REG_SET insn 0 (f (REG_GET insn 0 s)) s))"

text \<open>The handlers of a macro, in the order of its body: half words, then bytes.\<close>

definition PV_OP_RS_EXEC :: "(16 word \<Rightarrow> 16 word \<Rightarrow> 16 word) \<Rightarrow> (u8 \<Rightarrow> u8 \<Rightarrow> u8) \<Rightarrow> exec list" where
  "PV_OP_RS_EXEC h b =
     [PV_rr (lib_VEC 2 h), PV_rr (\<lambda>x y. lib_VEC_SC 2 h x (ucast y)), PV_rs (\<lambda>x y. lib_VEC_SC 2 h x (ucast y)),
      PV_rr (lib_VEC 4 b), PV_rr (\<lambda>x y. lib_VEC_SC 4 b x (ucast y)), PV_rs (\<lambda>x y. lib_VEC_SC 4 b x (ucast y))]"

definition PV_OP_RU_EXEC :: "(16 word \<Rightarrow> 16 word \<Rightarrow> 16 word) \<Rightarrow> (u8 \<Rightarrow> u8 \<Rightarrow> u8) \<Rightarrow> exec list" where
  "PV_OP_RU_EXEC h b =
     [PV_rr (lib_VEC 2 h), PV_rr (\<lambda>x y. lib_VEC_SC 2 h x (ucast y)), PV_ru_h (\<lambda>x y. lib_VEC_SC 2 h x (ucast y)),
      PV_rr (lib_VEC 4 b), PV_rr (\<lambda>x y. lib_VEC_SC 4 b x (ucast y)), PV_ru_b (\<lambda>x y. lib_VEC_SC 4 b x (ucast y))]"

definition PV_OP_RS_EXEC2 :: "(16 word \<Rightarrow> u32) \<Rightarrow> (16 word \<Rightarrow> u32) \<Rightarrow> (u8 \<Rightarrow> u32) \<Rightarrow> (u8 \<Rightarrow> u32) \<Rightarrow> exec list" where
  "PV_OP_RS_EXEC2 ha hb ba bb =
     [PV_rr (lib_VEC_DOTP 2 ha hb), PV_rr (lib_VEC_DOTP_SC 2 ha hb), PV_rs (lib_VEC_DOTP_SC 2 ha hb),
      PV_rr (lib_VEC_DOTP 4 ba bb), PV_rr (lib_VEC_DOTP_SC 4 ba bb), PV_rs (lib_VEC_DOTP_SC 4 ba bb)]"

definition PV_OP_RU_EXEC2 :: "(16 word \<Rightarrow> u32) \<Rightarrow> (16 word \<Rightarrow> u32) \<Rightarrow> (u8 \<Rightarrow> u32) \<Rightarrow> (u8 \<Rightarrow> u32) \<Rightarrow> exec list" where
  "PV_OP_RU_EXEC2 ha hb ba bb =
     [PV_rr (lib_VEC_DOTP 2 ha hb), PV_rr (lib_VEC_DOTP_SC 2 ha hb), PV_ru (lib_VEC_DOTP_SC 2 ha hb),
      PV_rr (lib_VEC_DOTP 4 ba bb), PV_rr (lib_VEC_DOTP_SC 4 ba bb), PV_ru (lib_VEC_DOTP_SC 4 ba bb)]"

definition PV_OP_RRS_EXEC2 :: "(16 word \<Rightarrow> u32) \<Rightarrow> (16 word \<Rightarrow> u32) \<Rightarrow> (u8 \<Rightarrow> u32) \<Rightarrow> (u8 \<Rightarrow> u32) \<Rightarrow> exec list" where
  "PV_OP_RRS_EXEC2 ha hb ba bb =
     [PV_rrr (lib_VEC_SDOT 2 ha hb), PV_rrr (lib_VEC_SDOT_SC 2 ha hb), PV_rrs (lib_VEC_SDOT_SC 2 ha hb),
      PV_rrr (lib_VEC_SDOT 4 ba bb), PV_rrr (lib_VEC_SDOT_SC 4 ba bb), PV_rrs (lib_VEC_SDOT_SC 4 ba bb)]"

definition PV_OP_RRU_EXEC2 :: "(16 word \<Rightarrow> u32) \<Rightarrow> (16 word \<Rightarrow> u32) \<Rightarrow> (u8 \<Rightarrow> u32) \<Rightarrow> (u8 \<Rightarrow> u32) \<Rightarrow> exec list" where
  "PV_OP_RRU_EXEC2 ha hb ba bb =
     [PV_rrr (lib_VEC_SDOT 2 ha hb), PV_rrr (lib_VEC_SDOT_SC 2 ha hb), PV_rru (lib_VEC_SDOT_SC 2 ha hb),
      PV_rrr (lib_VEC_SDOT 4 ba bb), PV_rrr (lib_VEC_SDOT_SC 4 ba bb), PV_rru (lib_VEC_SDOT_SC 4 ba bb)]"

definition PV_OP1_RS_EXEC :: "exec list" where
  "PV_OP1_RS_EXEC = [PV_r (lib_VEC_ABS TYPE(16 word) 2), PV_r (lib_VEC_ABS TYPE(u8) 4)]"

text \<open>The expansions, with the C operators on the elements.\<close>

definition cmp_op :: "('e::len word \<Rightarrow> 'e word \<Rightarrow> bool) \<Rightarrow> 'e word \<Rightarrow> 'e word \<Rightarrow> 'e word" where
  "cmp_op p x y = (if p x y then -1 else 0)"

definition pv_arith_handlers :: "exec list" where
  "pv_arith_handlers =
     PV_OP_RS_EXEC (+) (+) @ PV_OP_RS_EXEC (-) (-) @ PV_OP_RS_EXEC vec_avg vec_avg @ PV_OP_RU_EXEC vec_avgu vec_avgu
     @ PV_OP_RS_EXEC vec_min vec_min @ PV_OP_RU_EXEC vec_minu vec_minu @ PV_OP_RS_EXEC vec_max vec_max
     @ PV_OP_RU_EXEC vec_maxu vec_maxu @ PV_OP_RU_EXEC vec_srl vec_srl @ PV_OP_RS_EXEC vec_sra vec_sra
     @ PV_OP_RU_EXEC vec_sll vec_sll @ PV_OP_RS_EXEC (OR) (OR) @ PV_OP_RS_EXEC (XOR) (XOR) @ PV_OP_RS_EXEC (AND) (AND)
     @ PV_OP1_RS_EXEC"

definition pv_dot_handlers :: "exec list" where
  "pv_dot_handlers =
     PV_OP_RS_EXEC2 scast scast scast scast @ PV_OP_RU_EXEC2 ucast ucast ucast ucast @ PV_OP_RS_EXEC2 ucast scast ucast scast
     @ PV_OP_RRS_EXEC2 scast scast scast scast @ PV_OP_RRU_EXEC2 ucast ucast ucast ucast @ PV_OP_RRS_EXEC2 ucast scast ucast scast"

definition pv_cmp_handlers :: "exec list" where
  "pv_cmp_handlers =
     PV_OP_RS_EXEC (cmp_op (=)) (cmp_op (=)) @ PV_OP_RS_EXEC (cmp_op (\<noteq>)) (cmp_op (\<noteq>))
     @ PV_OP_RS_EXEC (cmp_op (\<lambda>x y. sint x > sint y)) (cmp_op (\<lambda>x y. sint x > sint y))
     @ PV_OP_RS_EXEC (cmp_op (\<lambda>x y. sint x \<ge> sint y)) (cmp_op (\<lambda>x y. sint x \<ge> sint y))
     @ PV_OP_RS_EXEC (cmp_op (\<lambda>x y. sint x < sint y)) (cmp_op (\<lambda>x y. sint x < sint y))
     @ PV_OP_RS_EXEC (cmp_op (\<lambda>x y. sint x \<le> sint y)) (cmp_op (\<lambda>x y. sint x \<le> sint y))
     @ PV_OP_RU_EXEC (cmp_op (>)) (cmp_op (>)) @ PV_OP_RU_EXEC (cmp_op (\<ge>)) (cmp_op (\<ge>))
     @ PV_OP_RU_EXEC (cmp_op (<)) (cmp_op (<)) @ PV_OP_RU_EXEC (cmp_op (\<le>)) (cmp_op (\<le>))"

section \<open>All the handlers\<close>

definition pulp_scalar_handlers :: "exec list" where
  "pulp_scalar_handlers = [
      p_avgu_exec, p_slet_exec, p_sletu_exec, p_min_exec, p_minu_exec, p_max_exec, p_maxu_exec, p_ror_exec, p_ff1_exec,
      p_fl1_exec, p_clb_exec, p_cnt_exec, p_exths_exec, p_exthz_exec, p_extbs_exec, p_extbz_exec, p_abs_exec,
      pv_extract_h_exec, pv_extract_b_exec, pv_extractu_h_exec, pv_extractu_b_exec, pv_insert_h_exec, pv_insert_b_exec,
      pv_shuffle_h_exec, pv_shuffle_h_sci_exec, pv_shuffle_b_exec, pv_shufflei0_b_sci_exec, pv_shufflei1_b_sci_exec,
      pv_shufflei2_b_sci_exec, pv_shufflei3_b_sci_exec, pv_shuffle2_h_exec, pv_shuffle2_b_exec, pv_pack_h_exec,
      pv_packhi_b_exec, pv_packlo_b_exec, p_mac_exec, p_msu_exec, p_mul_exec, p_muls_exec, p_mulhhs_exec, p_mulsN_exec,
      p_mulhhsN_exec, p_mulsNR_exec, p_mulhhsNR_exec, p_mulu_exec, p_mulhhu_exec, p_muluN_exec, p_mulhhuN_exec,
      p_muluNR_exec, p_mulhhuNR_exec, p_macs_exec, p_machhs_exec, p_macsN_exec, p_machhsN_exec, p_macsNR_exec,
      p_machhsNR_exec, p_macu_exec, p_machhu_exec, p_macuN_exec, p_machhuN_exec, p_macuNR_exec, p_machhuNR_exec,
      p_addNi_exec, p_adduNi_exec, p_addRNi_exec, p_adduRNi_exec, p_subNi_exec, p_subuNi_exec, p_subRNi_exec,
      p_subuRNi_exec, p_addN_exec, p_adduN_exec, p_addRN_exec, p_adduRN_exec, p_subN_exec, p_subuN_exec, p_subRN_exec,
      p_subuRN_exec, p_clipi_exec, p_clipui_exec, p_clip_exec, p_clipu_exec, p_bclri_exec, p_bclr_exec,
      p_extracti_exec, p_extractui_exec, p_extract_exec, p_extractu_exec, p_inserti_exec, p_insert_exec, p_bseti_exec,
      p_bset_exec,
      p_bneimm_exec_fast, p_bneimm_exec, p_beqimm_exec_fast, p_beqimm_exec]"

definition pulp_alu_handlers :: "exec list" where
  "pulp_alu_handlers = pulp_scalar_handlers @ pv_arith_handlers @ pv_dot_handlers @ pv_cmp_handlers"

definition pulp_mem_handlers :: "u32 \<Rightarrow> port \<Rightarrow> exec list" where
  "pulp_mem_handlers shl32 port = [
      LB_RR_exec_fast shl32 port, LB_RR_exec shl32 port, LH_RR_exec_fast shl32 port, LH_RR_exec shl32 port,
      LW_RR_exec_fast port, LW_RR_exec port, LBU_RR_exec_fast port, LBU_RR_exec port, LHU_RR_exec_fast port,
      LHU_RR_exec port, LB_POSTINC_exec_fast shl32 port, LB_POSTINC_exec shl32 port, LH_POSTINC_exec_fast shl32 port,
      LH_POSTINC_exec shl32 port, LW_POSTINC_exec_fast shl32 port, LW_POSTINC_exec shl32 port,
      LBU_POSTINC_exec_fast port, LBU_POSTINC_exec port, LHU_POSTINC_exec_fast port, LHU_POSTINC_exec port,
      SB_POSTINC_exec_fast port, SB_POSTINC_exec port, SH_POSTINC_exec_fast port, SH_POSTINC_exec port,
      SW_POSTINC_exec_fast port, SW_POSTINC_exec port, LB_RR_POSTINC_exec_fast shl32 port,
      LB_RR_POSTINC_exec shl32 port, LH_RR_POSTINC_exec_fast shl32 port, LH_RR_POSTINC_exec shl32 port,
      LW_RR_POSTINC_exec_fast shl32 port, LW_RR_POSTINC_exec shl32 port, LBU_RR_POSTINC_exec_fast port,
      LBU_RR_POSTINC_exec port, LHU_RR_POSTINC_exec_fast port, LHU_RR_POSTINC_exec port, SB_RR_POSTINC_exec_fast port,
      SB_RR_POSTINC_exec port, SH_RR_POSTINC_exec_fast port, SH_RR_POSTINC_exec port, SW_RR_POSTINC_exec_fast port,
      SW_RR_POSTINC_exec port, SB_RR_exec_fast port, SB_RR_exec port, SH_RR_exec_fast port, SH_RR_exec port,
      SW_RR_exec_fast port, SW_RR_exec port]"

lemmas pulp_alu_defs = p_avgu_exec_def p_slet_exec_def p_sletu_exec_def p_min_exec_def p_minu_exec_def p_max_exec_def p_maxu_exec_def p_ror_exec_def p_ff1_exec_def p_fl1_exec_def p_clb_exec_def p_cnt_exec_def p_exths_exec_def p_exthz_exec_def p_extbs_exec_def p_extbz_exec_def p_abs_exec_def pv_extract_h_exec_def pv_extract_b_exec_def pv_extractu_h_exec_def pv_extractu_b_exec_def pv_insert_h_exec_def pv_insert_b_exec_def pv_shuffle_h_exec_def pv_shuffle_h_sci_exec_def pv_shuffle_b_exec_def pv_shufflei0_b_sci_exec_def pv_shufflei1_b_sci_exec_def pv_shufflei2_b_sci_exec_def pv_shufflei3_b_sci_exec_def pv_shuffle2_h_exec_def pv_shuffle2_b_exec_def pv_pack_h_exec_def pv_packhi_b_exec_def pv_packlo_b_exec_def p_mac_exec_def p_msu_exec_def p_mul_exec_def p_muls_exec_def p_mulhhs_exec_def p_mulsN_exec_def p_mulhhsN_exec_def p_mulsNR_exec_def p_mulhhsNR_exec_def p_mulu_exec_def p_mulhhu_exec_def p_muluN_exec_def p_mulhhuN_exec_def p_muluNR_exec_def p_mulhhuNR_exec_def p_macs_exec_def p_machhs_exec_def p_macsN_exec_def p_machhsN_exec_def p_macsNR_exec_def p_machhsNR_exec_def p_macu_exec_def p_machhu_exec_def p_macuN_exec_def p_machhuN_exec_def p_macuNR_exec_def p_machhuNR_exec_def p_addNi_exec_def p_adduNi_exec_def p_addRNi_exec_def p_adduRNi_exec_def p_subNi_exec_def p_subuNi_exec_def p_subRNi_exec_def p_subuRNi_exec_def p_addN_exec_def p_adduN_exec_def p_addRN_exec_def p_adduRN_exec_def p_subN_exec_def p_subuN_exec_def p_subRN_exec_def p_subuRN_exec_def p_clipi_exec_def p_clipui_exec_def p_clip_exec_def p_clipu_exec_def p_bclri_exec_def p_bclr_exec_def p_extracti_exec_def p_extractui_exec_def p_extract_exec_def p_extractu_exec_def p_inserti_exec_def p_insert_exec_def p_bseti_exec_def p_bset_exec_def p_bneimm_exec_fast_def p_bneimm_exec_def p_beqimm_exec_fast_def p_beqimm_exec_def p_bneimm_exec_common_def p_beqimm_exec_common_def
lemmas pulp_mem_defs = LB_RR_exec_fast_def LB_RR_exec_def LH_RR_exec_fast_def LH_RR_exec_def LW_RR_exec_fast_def LW_RR_exec_def LBU_RR_exec_fast_def LBU_RR_exec_def LHU_RR_exec_fast_def LHU_RR_exec_def LB_POSTINC_exec_fast_def LB_POSTINC_exec_def LH_POSTINC_exec_fast_def LH_POSTINC_exec_def LW_POSTINC_exec_fast_def LW_POSTINC_exec_def LBU_POSTINC_exec_fast_def LBU_POSTINC_exec_def LHU_POSTINC_exec_fast_def LHU_POSTINC_exec_def SB_POSTINC_exec_fast_def SB_POSTINC_exec_def SH_POSTINC_exec_fast_def SH_POSTINC_exec_def SW_POSTINC_exec_fast_def SW_POSTINC_exec_def LB_RR_POSTINC_exec_fast_def LB_RR_POSTINC_exec_def LH_RR_POSTINC_exec_fast_def LH_RR_POSTINC_exec_def LW_RR_POSTINC_exec_fast_def LW_RR_POSTINC_exec_def LBU_RR_POSTINC_exec_fast_def LBU_RR_POSTINC_exec_def LHU_RR_POSTINC_exec_fast_def LHU_RR_POSTINC_exec_def SB_RR_POSTINC_exec_fast_def SB_RR_POSTINC_exec_def SH_RR_POSTINC_exec_fast_def SH_RR_POSTINC_exec_def SW_RR_POSTINC_exec_fast_def SW_RR_POSTINC_exec_def SB_RR_exec_fast_def SB_RR_exec_def SH_RR_exec_fast_def SH_RR_exec_def SW_RR_exec_fast_def SW_RR_exec_def
lemmas pv_defs = PV_rr_def PV_rs_def PV_ru_def PV_ru_h_def PV_ru_b_def PV_rrr_def PV_rrs_def PV_rru_def PV_r_def
lemmas pv_macro_defs = PV_OP_RS_EXEC_def PV_OP_RU_EXEC_def PV_OP_RS_EXEC2_def PV_OP_RU_EXEC2_def PV_OP_RRS_EXEC2_def
  PV_OP_RRU_EXEC2_def PV_OP1_RS_EXEC_def pv_arith_handlers_def pv_dot_handlers_def pv_cmp_handlers_def


end
