(* ===== verification/CoreV.thy ===== *)
theory CoreV imports PulpV2 begin

text \<open>
  The CORE-V extension of the instruction set (\<open>src/models/cpu/iss/include/isa/corev.hpp\<close>): integer, bit-field
  and packed operations and the branches with an immediate, one definition per handler in the order of the file.
  They call the library operations that the handlers of theory \<open>PulpV2\<close> call, but do not look at the validity
  marks of the registers. The accesses of CORE-V are the handlers of \<open>PulpV2\<close> themselves. The hardware loops
  are in theory \<open>CoreVSpec\<close>; the event load \<open>cv.elw\<close> is left out.
\<close>

section \<open>The reversal of digits\<close>

text \<open>The loop of \<open>lib_BITREV\<close>, from \<open>i = 1\<close>, for the number of iterations that are left. The shifts are by
  \<open>radix\<close>, which the decoder keeps between 1 and 4.\<close>

fun bitrev_loop :: "nat \<Rightarrow> nat \<Rightarrow> u32 \<Rightarrow> u32 \<Rightarrow> u32 \<Rightarrow> u32" where
  "bitrev_loop 0 radix m inp rv = rv"
| "bitrev_loop (Suc n) radix m inp rv =
     (let inp' = drop_bit radix inp in bitrev_loop n radix m inp' (push_bit radix rv OR (inp' AND m)))"

definition lib_BITREV :: "u32 \<Rightarrow> u32 \<Rightarrow> u32 \<Rightarrow> u32" where
  "lib_BITREV inp pts radix =
     (let points = 32 - pts;
          m = ucast (push_bit (unat radix) 1 - 1 :: u64);
          rv = bitrev_loop (unat (points div radix) - 1) (unat radix) m inp inp
      in if points < 32 then rv AND ucast (push_bit (unat points) 1 - 1 :: u64) else rv)"

section \<open>Integer and bit-field operations\<close>

definition cv_avgu_exec :: "exec" where
  "cv_avgu_exec insn pc s =
     (iss_insn_next insn pc, REG_SET insn 0 (lib_AVGU (REG_GET insn 0 s) (REG_GET insn 1 s)) s)"

definition cv_slet_exec :: "exec" where
  "cv_slet_exec insn pc s =
     (iss_insn_next insn pc, REG_SET insn 0 (of_bool (sint (REG_GET insn 0 s) \<le> sint (REG_GET insn 1 s))) s)"

definition cv_sletu_exec :: "exec" where
  "cv_sletu_exec insn pc s =
     (iss_insn_next insn pc, REG_SET insn 0 (of_bool (REG_GET insn 0 s \<le> REG_GET insn 1 s)) s)"

definition cv_min_exec :: "exec" where
  "cv_min_exec insn pc s =
     (iss_insn_next insn pc, REG_SET insn 0 (lib_MINS (REG_GET insn 0 s) (REG_GET insn 1 s)) s)"

definition cv_minu_exec :: "exec" where
  "cv_minu_exec insn pc s =
     (iss_insn_next insn pc, REG_SET insn 0 (lib_MINU (REG_GET insn 0 s) (REG_GET insn 1 s)) s)"

definition cv_max_exec :: "exec" where
  "cv_max_exec insn pc s =
     (iss_insn_next insn pc, REG_SET insn 0 (lib_MAXS (REG_GET insn 0 s) (REG_GET insn 1 s)) s)"

definition cv_maxu_exec :: "exec" where
  "cv_maxu_exec insn pc s =
     (iss_insn_next insn pc, REG_SET insn 0 (lib_MAXU (REG_GET insn 0 s) (REG_GET insn 1 s)) s)"

definition cv_ror_exec :: "exec" where
  "cv_ror_exec insn pc s =
     (iss_insn_next insn pc, REG_SET insn 0 (lib_ROR (REG_GET insn 0 s) (REG_GET insn 1 s)) s)"

definition cv_ff1_exec :: "exec" where
  "cv_ff1_exec insn pc s =
     (iss_insn_next insn pc, REG_SET insn 0 (lib_FF1 (REG_GET insn 0 s)) s)"

definition cv_fl1_exec :: "exec" where
  "cv_fl1_exec insn pc s =
     (iss_insn_next insn pc, REG_SET insn 0 (lib_FL1 (REG_GET insn 0 s)) s)"

definition cv_clb_exec :: "exec" where
  "cv_clb_exec insn pc s =
     (iss_insn_next insn pc, REG_SET insn 0 (lib_CLB (REG_GET insn 0 s)) s)"

definition cv_cnt_exec :: "exec" where
  "cv_cnt_exec insn pc s =
     (iss_insn_next insn pc, REG_SET insn 0 (lib_CNT (REG_GET insn 0 s)) s)"

definition cv_exths_exec :: "exec" where
  "cv_exths_exec insn pc s =
     (iss_insn_next insn pc, REG_SET insn 0 (iss_get_signed_value (REG_GET insn 0 s) 16) s)"

definition cv_exthz_exec :: "exec" where
  "cv_exthz_exec insn pc s =
     (iss_insn_next insn pc, REG_SET insn 0 (getField (REG_GET insn 0 s) 0 16) s)"

definition cv_extbs_exec :: "exec" where
  "cv_extbs_exec insn pc s =
     (iss_insn_next insn pc, REG_SET insn 0 (iss_get_signed_value (REG_GET insn 0 s) 8) s)"

definition cv_extbz_exec :: "exec" where
  "cv_extbz_exec insn pc s =
     (iss_insn_next insn pc, REG_SET insn 0 (getField (REG_GET insn 0 s) 0 8) s)"

definition cv_abs_exec :: "exec" where
  "cv_abs_exec insn pc s =
     (iss_insn_next insn pc, REG_SET insn 0 (lib_ABS (REG_GET insn 0 s)) s)"

definition cv_extractr_h_exec :: "exec" where
  "cv_extractr_h_exec insn pc s =
     (iss_insn_next insn pc, REG_SET insn 0 (lib_VEC_EXT_16 (REG_GET insn 0 s) (unat (UIM_GET insn 0))) s)"

definition cv_extractr_b_exec :: "exec" where
  "cv_extractr_b_exec insn pc s =
     (iss_insn_next insn pc, REG_SET insn 0 (lib_VEC_EXT_8 (REG_GET insn 0 s) (unat (UIM_GET insn 0))) s)"

definition cv_extractur_h_exec :: "exec" where
  "cv_extractur_h_exec insn pc s =
     (iss_insn_next insn pc, REG_SET insn 0 (lib_VEC_EXTU 16 (REG_GET insn 0 s) (unat (UIM_GET insn 0))) s)"

definition cv_extractur_b_exec :: "exec" where
  "cv_extractur_b_exec insn pc s =
     (iss_insn_next insn pc, REG_SET insn 0 (lib_VEC_EXTU 8 (REG_GET insn 0 s) (unat (UIM_GET insn 0))) s)"

definition cv_insertr_h_exec :: "exec" where
  "cv_insertr_h_exec insn pc s =
     (iss_insn_next insn pc, REG_SET insn 0 (lib_VEC_INS 16 (REG_GET insn 0 s) (REG_GET insn 1 s) (unat (UIM_GET insn 0))) s)"

definition cv_insertr_b_exec :: "exec" where
  "cv_insertr_b_exec insn pc s =
     (iss_insn_next insn pc, REG_SET insn 0 (lib_VEC_INS 8 (REG_GET insn 0 s) (REG_GET insn 1 s) (unat (UIM_GET insn 0))) s)"

definition cv_shuffle_h_exec :: "exec" where
  "cv_shuffle_h_exec insn pc s =
     (iss_insn_next insn pc, REG_SET insn 0 (lib_VEC_SHUFFLE_16 (REG_GET insn 0 s) (REG_GET insn 1 s)) s)"

definition cv_shuffle_h_sci_exec :: "exec" where
  "cv_shuffle_h_sci_exec insn pc s =
     (iss_insn_next insn pc, REG_SET insn 0 (lib_VEC_SHUFFLE_SCI_16 (REG_GET insn 0 s) (UIM_GET insn 0)) s)"

definition cv_shuffle_b_exec :: "exec" where
  "cv_shuffle_b_exec insn pc s =
     (iss_insn_next insn pc, REG_SET insn 0 (lib_VEC_SHUFFLE_8 (REG_GET insn 0 s) (REG_GET insn 1 s)) s)"

definition cv_shufflei0_b_sci_exec :: "exec" where
  "cv_shufflei0_b_sci_exec insn pc s =
     (iss_insn_next insn pc, REG_SET insn 0 (lib_VEC_SHUFFLEI0_SCI_8 (REG_GET insn 0 s) (UIM_GET insn 0)) s)"

definition cv_shufflei1_b_sci_exec :: "exec" where
  "cv_shufflei1_b_sci_exec insn pc s =
     (iss_insn_next insn pc, REG_SET insn 0 (lib_VEC_SHUFFLEI1_SCI_8 (REG_GET insn 0 s) (UIM_GET insn 0)) s)"

definition cv_shufflei2_b_sci_exec :: "exec" where
  "cv_shufflei2_b_sci_exec insn pc s =
     (iss_insn_next insn pc, REG_SET insn 0 (lib_VEC_SHUFFLEI2_SCI_8 (REG_GET insn 0 s) (UIM_GET insn 0)) s)"

definition cv_shufflei3_b_sci_exec :: "exec" where
  "cv_shufflei3_b_sci_exec insn pc s =
     (iss_insn_next insn pc, REG_SET insn 0 (lib_VEC_SHUFFLEI3_SCI_8 (REG_GET insn 0 s) (UIM_GET insn 0)) s)"

definition cv_shuffle2_h_exec :: "exec" where
  "cv_shuffle2_h_exec insn pc s =
     (iss_insn_next insn pc, REG_SET insn 0 (lib_VEC_SHUFFLE2_16 (REG_GET insn 0 s) (REG_GET insn 1 s) (REG_GET insn 2 s)) s)"

definition cv_shuffle2_b_exec :: "exec" where
  "cv_shuffle2_b_exec insn pc s =
     (iss_insn_next insn pc, REG_SET insn 0 (lib_VEC_SHUFFLE2_8 (REG_GET insn 0 s) (REG_GET insn 1 s) (REG_GET insn 2 s)) s)"

definition cv_pack_h_exec :: "exec" where
  "cv_pack_h_exec insn pc s =
     (iss_insn_next insn pc, REG_SET insn 0 (lib_VEC_PACK_SC_16 (REG_GET insn 0 s) (REG_GET insn 1 s)) s)"

definition cv_packhi_b_exec :: "exec" where
  "cv_packhi_b_exec insn pc s =
     (iss_insn_next insn pc, REG_SET insn 0 (lib_VEC_PACKHI_SC_8 (REG_GET insn 0 s) (REG_GET insn 1 s) (REG_GET insn 2 s)) s)"

definition cv_packlo_b_exec :: "exec" where
  "cv_packlo_b_exec insn pc s =
     (iss_insn_next insn pc, REG_SET insn 0 (lib_VEC_PACKLO_SC_8 (REG_GET insn 0 s) (REG_GET insn 1 s) (REG_GET insn 2 s)) s)"

definition cv_mac_exec :: "exec" where
  "cv_mac_exec insn pc s =
     (iss_insn_next insn pc, REG_SET insn 0 (lib_MAC (REG_GET insn 2 s) (REG_GET insn 0 s) (REG_GET insn 1 s)) s)"

definition cv_msu_exec :: "exec" where
  "cv_msu_exec insn pc s =
     (iss_insn_next insn pc, REG_SET insn 0 (lib_MSU (REG_GET insn 2 s) (REG_GET insn 0 s) (REG_GET insn 1 s)) s)"

definition cv_mul_exec :: "exec" where
  "cv_mul_exec insn pc s =
     (iss_insn_next insn pc, REG_SET insn 0 (lib_MULS (REG_GET insn 0 s) (REG_GET insn 1 s)) s)"

definition cv_muls_exec :: "exec" where
  "cv_muls_exec insn pc s =
     (iss_insn_next insn pc, REG_SET insn 0 (lib_MUL_half SL SL (REG_GET insn 0 s) (REG_GET insn 1 s)) s)"

definition cv_mulhhs_exec :: "exec" where
  "cv_mulhhs_exec insn pc s =
     (iss_insn_next insn pc, REG_SET insn 0 (lib_MUL_half SH SH (REG_GET insn 0 s) (REG_GET insn 1 s)) s)"

definition cv_mulsN_exec :: "exec" where
  "cv_mulsN_exec insn pc s =
     (iss_insn_next insn pc, REG_SET insn 0 (lib_MUL_half_NR SL (REG_GET insn 0 s) (REG_GET insn 1 s) (UIM_GET insn 0)) s)"

definition cv_mulhhsN_exec :: "exec" where
  "cv_mulhhsN_exec insn pc s =
     (iss_insn_next insn pc, REG_SET insn 0 (lib_MUL_half_NR SH (REG_GET insn 0 s) (REG_GET insn 1 s) (UIM_GET insn 0)) s)"

definition cv_mulsRN_exec :: "exec" where
  "cv_mulsRN_exec insn pc s =
     (iss_insn_next insn pc, REG_SET insn 0 (lib_MUL_half_NR_R SL (REG_GET insn 0 s) (REG_GET insn 1 s) (UIM_GET insn 0)) s)"

definition cv_mulhhsRN_exec :: "exec" where
  "cv_mulhhsRN_exec insn pc s =
     (iss_insn_next insn pc, REG_SET insn 0 (lib_MUL_half_NR_R SH (REG_GET insn 0 s) (REG_GET insn 1 s) (UIM_GET insn 0)) s)"

definition cv_mulu_exec :: "exec" where
  "cv_mulu_exec insn pc s =
     (iss_insn_next insn pc, REG_SET insn 0 (lib_MUL_half ZL ZL (REG_GET insn 0 s) (REG_GET insn 1 s)) s)"

definition cv_mulhhu_exec :: "exec" where
  "cv_mulhhu_exec insn pc s =
     (iss_insn_next insn pc, REG_SET insn 0 (lib_MUL_half ZH ZH (REG_GET insn 0 s) (REG_GET insn 1 s)) s)"

definition cv_muluN_exec :: "exec" where
  "cv_muluN_exec insn pc s =
     (iss_insn_next insn pc, REG_SET insn 0 (lib_MUL_half_NR ZL (REG_GET insn 0 s) (REG_GET insn 1 s) (UIM_GET insn 0)) s)"

definition cv_mulhhuN_exec :: "exec" where
  "cv_mulhhuN_exec insn pc s =
     (iss_insn_next insn pc, REG_SET insn 0 (lib_MUL_half_NR ZH (REG_GET insn 0 s) (REG_GET insn 1 s) (UIM_GET insn 0)) s)"

definition cv_muluRN_exec :: "exec" where
  "cv_muluRN_exec insn pc s =
     (iss_insn_next insn pc, REG_SET insn 0 (lib_MUL_half_NR_R ZL (REG_GET insn 0 s) (REG_GET insn 1 s) (UIM_GET insn 0)) s)"

definition cv_mulhhuRN_exec :: "exec" where
  "cv_mulhhuRN_exec insn pc s =
     (iss_insn_next insn pc, REG_SET insn 0 (lib_MUL_half_NR_R ZH (REG_GET insn 0 s) (REG_GET insn 1 s) (UIM_GET insn 0)) s)"

definition cv_macs_exec :: "exec" where
  "cv_macs_exec insn pc s =
     (iss_insn_next insn pc, REG_SET insn 0 (lib_MAC_half SL SL (REG_GET insn 2 s) (REG_GET insn 0 s) (REG_GET insn 1 s)) s)"

definition cv_machhs_exec :: "exec" where
  "cv_machhs_exec insn pc s =
     (iss_insn_next insn pc, REG_SET insn 0 (lib_MAC_half SH SH (REG_GET insn 2 s) (REG_GET insn 0 s) (REG_GET insn 1 s)) s)"

definition cv_macsN_exec :: "exec" where
  "cv_macsN_exec insn pc s =
     (iss_insn_next insn pc, REG_SET insn 0 (lib_MAC_half_NR SL (REG_GET insn 2 s) (REG_GET insn 0 s) (REG_GET insn 1 s) (UIM_GET insn 0)) s)"

definition cv_machhsN_exec :: "exec" where
  "cv_machhsN_exec insn pc s =
     (iss_insn_next insn pc, REG_SET insn 0 (lib_MAC_half_NR SH (REG_GET insn 2 s) (REG_GET insn 0 s) (REG_GET insn 1 s) (UIM_GET insn 0)) s)"

definition cv_macsRN_exec :: "exec" where
  "cv_macsRN_exec insn pc s =
     (iss_insn_next insn pc, REG_SET insn 0 (lib_MAC_half_NR_R SL (REG_GET insn 2 s) (REG_GET insn 0 s) (REG_GET insn 1 s) (UIM_GET insn 0)) s)"

definition cv_machhsRN_exec :: "exec" where
  "cv_machhsRN_exec insn pc s =
     (iss_insn_next insn pc, REG_SET insn 0 (lib_MAC_half_NR_R SH (REG_GET insn 2 s) (REG_GET insn 0 s) (REG_GET insn 1 s) (UIM_GET insn 0)) s)"

definition cv_macu_exec :: "exec" where
  "cv_macu_exec insn pc s =
     (iss_insn_next insn pc, REG_SET insn 0 (lib_MAC_half ZL ZL (REG_GET insn 2 s) (REG_GET insn 0 s) (REG_GET insn 1 s)) s)"

definition cv_machhu_exec :: "exec" where
  "cv_machhu_exec insn pc s =
     (iss_insn_next insn pc, REG_SET insn 0 (lib_MAC_half ZH ZH (REG_GET insn 2 s) (REG_GET insn 0 s) (REG_GET insn 1 s)) s)"

definition cv_macuN_exec :: "exec" where
  "cv_macuN_exec insn pc s =
     (iss_insn_next insn pc, REG_SET insn 0 (lib_MAC_half_NR ZL (REG_GET insn 2 s) (REG_GET insn 0 s) (REG_GET insn 1 s) (UIM_GET insn 0)) s)"

definition cv_machhuN_exec :: "exec" where
  "cv_machhuN_exec insn pc s =
     (iss_insn_next insn pc, REG_SET insn 0 (lib_MAC_half_NR ZH (REG_GET insn 2 s) (REG_GET insn 0 s) (REG_GET insn 1 s) (UIM_GET insn 0)) s)"

definition cv_macuRN_exec :: "exec" where
  "cv_macuRN_exec insn pc s =
     (iss_insn_next insn pc, REG_SET insn 0 (lib_MAC_half_NR_R ZL (REG_GET insn 2 s) (REG_GET insn 0 s) (REG_GET insn 1 s) (UIM_GET insn 0)) s)"

definition cv_machhuRN_exec :: "exec" where
  "cv_machhuRN_exec insn pc s =
     (iss_insn_next insn pc, REG_SET insn 0 (lib_MAC_half_NR_R ZH (REG_GET insn 2 s) (REG_GET insn 0 s) (REG_GET insn 1 s) (UIM_GET insn 0)) s)"

definition cv_addN_exec :: "exec" where
  "cv_addN_exec insn pc s =
     (iss_insn_next insn pc, REG_SET insn 0 (lib_ADD_NR (REG_GET insn 0 s) (REG_GET insn 1 s) (UIM_GET insn 0)) s)"

definition cv_adduN_exec :: "exec" where
  "cv_adduN_exec insn pc s =
     (iss_insn_next insn pc, REG_SET insn 0 (lib_ADD_NRU (REG_GET insn 0 s) (REG_GET insn 1 s) (UIM_GET insn 0)) s)"

definition cv_addRN_exec :: "exec" where
  "cv_addRN_exec insn pc s =
     (iss_insn_next insn pc, REG_SET insn 0 (lib_ADD_NR_R (REG_GET insn 0 s) (REG_GET insn 1 s) (UIM_GET insn 0)) s)"

definition cv_adduRN_exec :: "exec" where
  "cv_adduRN_exec insn pc s =
     (iss_insn_next insn pc, REG_SET insn 0 (lib_ADD_NR_RU (REG_GET insn 0 s) (REG_GET insn 1 s) (UIM_GET insn 0)) s)"

definition cv_subN_exec :: "exec" where
  "cv_subN_exec insn pc s =
     (iss_insn_next insn pc, REG_SET insn 0 (lib_SUB_NR (REG_GET insn 0 s) (REG_GET insn 1 s) (UIM_GET insn 0)) s)"

definition cv_subuN_exec :: "exec" where
  "cv_subuN_exec insn pc s =
     (iss_insn_next insn pc, REG_SET insn 0 (lib_SUB_NRU (REG_GET insn 0 s) (REG_GET insn 1 s) (UIM_GET insn 0)) s)"

definition cv_subRN_exec :: "exec" where
  "cv_subRN_exec insn pc s =
     (iss_insn_next insn pc, REG_SET insn 0 (lib_SUB_NR_R (REG_GET insn 0 s) (REG_GET insn 1 s) (UIM_GET insn 0)) s)"

definition cv_subuRN_exec :: "exec" where
  "cv_subuRN_exec insn pc s =
     (iss_insn_next insn pc, REG_SET insn 0 (lib_SUB_NR_RU (REG_GET insn 0 s) (REG_GET insn 1 s) (UIM_GET insn 0)) s)"

definition cv_addNr_exec :: "exec" where
  "cv_addNr_exec insn pc s =
     (iss_insn_next insn pc, REG_SET insn 0 (lib_ADD_NR (REG_GET insn 0 s) (REG_GET insn 1 s) (REG_GET insn 2 s)) s)"

definition cv_adduNr_exec :: "exec" where
  "cv_adduNr_exec insn pc s =
     (iss_insn_next insn pc, REG_SET insn 0 (lib_ADD_NRU (REG_GET insn 0 s) (REG_GET insn 1 s) (REG_GET insn 2 s)) s)"

definition cv_addRNr_exec :: "exec" where
  "cv_addRNr_exec insn pc s =
     (iss_insn_next insn pc, REG_SET insn 0 (lib_ADD_NR_R (REG_GET insn 0 s) (REG_GET insn 1 s) (REG_GET insn 2 s)) s)"

definition cv_adduRNr_exec :: "exec" where
  "cv_adduRNr_exec insn pc s =
     (iss_insn_next insn pc, REG_SET insn 0 (lib_ADD_NR_RU (REG_GET insn 0 s) (REG_GET insn 1 s) (REG_GET insn 2 s)) s)"

definition cv_subNr_exec :: "exec" where
  "cv_subNr_exec insn pc s =
     (iss_insn_next insn pc, REG_SET insn 0 (lib_SUB_NR (REG_GET insn 0 s) (REG_GET insn 1 s) (REG_GET insn 2 s)) s)"

definition cv_subuNr_exec :: "exec" where
  "cv_subuNr_exec insn pc s =
     (iss_insn_next insn pc, REG_SET insn 0 (lib_SUB_NRU (REG_GET insn 0 s) (REG_GET insn 1 s) (REG_GET insn 2 s)) s)"

definition cv_subRNr_exec :: "exec" where
  "cv_subRNr_exec insn pc s =
     (iss_insn_next insn pc, REG_SET insn 0 (lib_SUB_NR_R (REG_GET insn 0 s) (REG_GET insn 1 s) (REG_GET insn 2 s)) s)"

definition cv_subuRNr_exec :: "exec" where
  "cv_subuRNr_exec insn pc s =
     (iss_insn_next insn pc, REG_SET insn 0 (lib_SUB_NR_RU (REG_GET insn 0 s) (REG_GET insn 1 s) (REG_GET insn 2 s)) s)"

definition cv_clip_exec :: "exec" where
  "cv_clip_exec insn pc s =
     (let low = - push_bit (clip_bits (UIM_GET insn 0)) 1;
         high = push_bit (clip_bits (UIM_GET insn 0)) 1 - 1
     in (iss_insn_next insn pc, REG_SET insn 0 (lib_CLIP (REG_GET insn 0 s) low high) s))"

definition cv_clipu_exec :: "exec" where
  "cv_clipu_exec insn pc s =
     (let low = 0; high = push_bit (clip_bits (UIM_GET insn 0)) 1 - 1
     in (iss_insn_next insn pc, REG_SET insn 0 (lib_CLIP (REG_GET insn 0 s) low high) s))"

definition cv_clipr_exec :: "exec" where
  "cv_clipr_exec insn pc s =
     (let low = - REG_GET insn 1 s - 1;
         high = REG_GET insn 1 s
     in (iss_insn_next insn pc, REG_SET insn 0 (lib_CLIP (REG_GET insn 0 s) low high) s))"

definition cv_clipur_exec :: "exec" where
  "cv_clipur_exec insn pc s =
     (let low = 0;
         high = REG_GET insn 1 s
     in (iss_insn_next insn pc, REG_SET insn 0 (lib_CLIP (REG_GET insn 0 s) low high) s))"

definition cv_bclr_exec :: "exec" where
  "cv_bclr_exec insn pc s =
     (let width = UIM_GET insn 0 + 1;
         shift = UIM_GET insn 1
     in (iss_insn_next insn pc, REG_SET insn 0 (lib_BCLR (REG_GET insn 0 s) (bit_field width shift)) s))"

definition cv_bclrr_exec :: "exec" where
  "cv_bclrr_exec insn pc s =
     (let width = (drop_bit 5 (REG_GET insn 1 s) AND 0x1f) + 1;
         shift = REG_GET insn 1 s AND 0x1f
     in (iss_insn_next insn pc, REG_SET insn 0 (lib_BCLR (REG_GET insn 0 s) (bit_field width shift)) s))"

definition cv_extract_exec :: "exec" where
  "cv_extract_exec insn pc s =
     (let width = UIM_GET insn 0 + 1;
         shift = UIM_GET insn 1
     in (iss_insn_next insn pc, REG_SET insn 0 (lib_BEXTRACT (REG_GET insn 0 s) width shift) s))"

definition cv_extractu_exec :: "exec" where
  "cv_extractu_exec insn pc s =
     (let width = UIM_GET insn 0 + 1;
         shift = UIM_GET insn 1
     in (iss_insn_next insn pc, REG_SET insn 0 (lib_BEXTRACTU (REG_GET insn 0 s) (bit_field width shift) shift) s))"

definition cv_extractr_exec :: "exec" where
  "cv_extractr_exec insn pc s =
     (let width = (drop_bit 5 (REG_GET insn 1 s) AND 0x1f) + 1;
         shift = REG_GET insn 1 s AND 0x1f
     in (iss_insn_next insn pc, REG_SET insn 0 (lib_BEXTRACT (REG_GET insn 0 s) width shift) s))"

definition cv_extractur_exec :: "exec" where
  "cv_extractur_exec insn pc s =
     (let width = (drop_bit 5 (REG_GET insn 1 s) AND 0x1f) + 1;
         shift = REG_GET insn 1 s AND 0x1f
     in (iss_insn_next insn pc, REG_SET insn 0 (lib_BEXTRACTU (REG_GET insn 0 s) (bit_field width shift) shift) s))"

definition cv_insert_exec :: "exec" where
  "cv_insert_exec insn pc s =
     (let width = UIM_GET insn 0 + 1;
         shift = UIM_GET insn 1
     in (iss_insn_next insn pc, REG_SET insn 0 (lib_BINSERT (REG_GET insn 0 s) (REG_GET insn 1 s) (bit_field width shift) shift) s))"

definition cv_insertr_exec :: "exec" where
  "cv_insertr_exec insn pc s =
     (let width = (drop_bit 5 (REG_GET insn 2 s) AND 0x1f) + 1;
         shift = REG_GET insn 2 s AND 0x1f
     in (iss_insn_next insn pc, REG_SET insn 0 (lib_BINSERT (REG_GET insn 0 s) (REG_GET insn 1 s) (bit_field width shift) shift) s))"

definition cv_bset_exec :: "exec" where
  "cv_bset_exec insn pc s =
     (let width = UIM_GET insn 0 + 1;
         shift = UIM_GET insn 1
     in (iss_insn_next insn pc, REG_SET insn 0 (lib_BSET (REG_GET insn 0 s) (bit_field width shift)) s))"

definition cv_bsetr_exec :: "exec" where
  "cv_bsetr_exec insn pc s =
     (let width = (drop_bit 5 (REG_GET insn 1 s) AND 0x1f) + 1;
         shift = REG_GET insn 1 s AND 0x1f
     in (iss_insn_next insn pc, REG_SET insn 0 (lib_BSET (REG_GET insn 0 s) (bit_field width shift)) s))"

definition cv_bitrev_exec :: "exec" where
  "cv_bitrev_exec insn pc s =
     (iss_insn_next insn pc, REG_SET insn 0 (lib_BITREV (REG_GET insn 0 s) (UIM_GET insn 0) (UIM_GET insn 1 + 1)) s)"

definition cv_bneimm_exec_common :: "bool \<Rightarrow> exec" where
  "cv_bneimm_exec_common perf insn pc s =
     (if REG_GET insn 0 s \<noteq> SIM_GET insn 1 then (pc + SIM_GET insn 0, on_tm stall_taken_branch_account s)
      else (iss_insn_next insn pc, if perf then on_tm event_branch_account s else s))"
definition cv_bneimm_exec_fast :: exec where "cv_bneimm_exec_fast = cv_bneimm_exec_common False"
definition cv_bneimm_exec :: exec where "cv_bneimm_exec = cv_bneimm_exec_common True"

definition cv_beqimm_exec_common :: "bool \<Rightarrow> exec" where
  "cv_beqimm_exec_common perf insn pc s =
     (if REG_GET insn 0 s = SIM_GET insn 1 then (pc + SIM_GET insn 0, on_tm stall_taken_branch_account s)
      else (iss_insn_next insn pc, if perf then on_tm event_branch_account s else s))"
definition cv_beqimm_exec_fast :: exec where "cv_beqimm_exec_fast = cv_beqimm_exec_common False"
definition cv_beqimm_exec :: exec where "cv_beqimm_exec = cv_beqimm_exec_common True"

section \<open>Packed vectors\<close>

text \<open>The bodies of the macros, for the operation of the library they call.\<close>

definition CV_rr :: "(u32 \<Rightarrow> u32 \<Rightarrow> u32) \<Rightarrow> exec" where
  "CV_rr f insn pc s = (iss_insn_next insn pc, REG_SET insn 0 (f (REG_GET insn 0 s) (REG_GET insn 1 s)) s)"
definition CV_rs :: "(u32 \<Rightarrow> u32 \<Rightarrow> u32) \<Rightarrow> exec" where
  "CV_rs f insn pc s = (iss_insn_next insn pc, REG_SET insn 0 (f (REG_GET insn 0 s) (SIM_GET insn 0)) s)"
definition CV_ru :: "(u32 \<Rightarrow> u32 \<Rightarrow> u32) \<Rightarrow> exec" where
  "CV_ru f insn pc s = (iss_insn_next insn pc, REG_SET insn 0 (f (REG_GET insn 0 s) (UIM_GET insn 0)) s)"
definition CV_rrr :: "(u32 \<Rightarrow> u32 \<Rightarrow> u32 \<Rightarrow> u32) \<Rightarrow> exec" where
  "CV_rrr f insn pc s = (iss_insn_next insn pc, REG_SET insn 0 (f (REG_GET insn 2 s) (REG_GET insn 0 s) (REG_GET insn 1 s)) s)"
definition CV_rrs :: "(u32 \<Rightarrow> u32 \<Rightarrow> u32 \<Rightarrow> u32) \<Rightarrow> exec" where
  "CV_rrs f insn pc s = (iss_insn_next insn pc, REG_SET insn 0 (f (REG_GET insn 0 s) (REG_GET insn 1 s) (SIM_GET insn 0)) s)"
definition CV_rru :: "(u32 \<Rightarrow> u32 \<Rightarrow> u32 \<Rightarrow> u32) \<Rightarrow> exec" where
  "CV_rru f insn pc s = (iss_insn_next insn pc, REG_SET insn 0 (f (REG_GET insn 0 s) (REG_GET insn 1 s) (UIM_GET insn 0)) s)"
definition CV_r :: "(u32 \<Rightarrow> u32) \<Rightarrow> exec" where
  "CV_r f insn pc s = (iss_insn_next insn pc, REG_SET insn 0 (f (REG_GET insn 0 s)) s)"

text \<open>The handlers of a macro, in the order of its body: half words, then bytes.\<close>

definition CV_OP_RS_EXEC :: "(16 word \<Rightarrow> 16 word \<Rightarrow> 16 word) \<Rightarrow> (u8 \<Rightarrow> u8 \<Rightarrow> u8) \<Rightarrow> exec list" where
  "CV_OP_RS_EXEC h b =
     [CV_rr (lib_VEC 2 h), CV_rr (\<lambda>x y. lib_VEC_SC 2 h x (ucast y)), CV_rs (\<lambda>x y. lib_VEC_SC 2 h x (ucast y)),
      CV_rr (lib_VEC 4 b), CV_rr (\<lambda>x y. lib_VEC_SC 4 b x (ucast y)), CV_rs (\<lambda>x y. lib_VEC_SC 4 b x (ucast y))]"

definition CV_OP_RU_EXEC :: "(16 word \<Rightarrow> 16 word \<Rightarrow> 16 word) \<Rightarrow> (u8 \<Rightarrow> u8 \<Rightarrow> u8) \<Rightarrow> exec list" where
  "CV_OP_RU_EXEC h b =
     [CV_rr (lib_VEC 2 h), CV_rr (\<lambda>x y. lib_VEC_SC 2 h x (ucast y)), CV_ru (\<lambda>x y. lib_VEC_SC 2 h x (ucast y)),
      CV_rr (lib_VEC 4 b), CV_rr (\<lambda>x y. lib_VEC_SC 4 b x (ucast y)), CV_ru (\<lambda>x y. lib_VEC_SC 4 b x (ucast y))]"

definition CV_OP_RS_EXEC2 :: "(16 word \<Rightarrow> u32) \<Rightarrow> (16 word \<Rightarrow> u32) \<Rightarrow> (u8 \<Rightarrow> u32) \<Rightarrow> (u8 \<Rightarrow> u32) \<Rightarrow> exec list" where
  "CV_OP_RS_EXEC2 ha hb ba bb =
     [CV_rr (lib_VEC_DOTP 2 ha hb), CV_rr (lib_VEC_DOTP_SC 2 ha hb), CV_rs (lib_VEC_DOTP_SC 2 ha hb),
      CV_rr (lib_VEC_DOTP 4 ba bb), CV_rr (lib_VEC_DOTP_SC 4 ba bb), CV_rs (lib_VEC_DOTP_SC 4 ba bb)]"

definition CV_OP_RU_EXEC2 :: "(16 word \<Rightarrow> u32) \<Rightarrow> (16 word \<Rightarrow> u32) \<Rightarrow> (u8 \<Rightarrow> u32) \<Rightarrow> (u8 \<Rightarrow> u32) \<Rightarrow> exec list" where
  "CV_OP_RU_EXEC2 ha hb ba bb =
     [CV_rr (lib_VEC_DOTP 2 ha hb), CV_rr (lib_VEC_DOTP_SC 2 ha hb), CV_ru (lib_VEC_DOTP_SC 2 ha hb),
      CV_rr (lib_VEC_DOTP 4 ba bb), CV_rr (lib_VEC_DOTP_SC 4 ba bb), CV_ru (lib_VEC_DOTP_SC 4 ba bb)]"

definition CV_OP_RRS_EXEC2 :: "(16 word \<Rightarrow> u32) \<Rightarrow> (16 word \<Rightarrow> u32) \<Rightarrow> (u8 \<Rightarrow> u32) \<Rightarrow> (u8 \<Rightarrow> u32) \<Rightarrow> exec list" where
  "CV_OP_RRS_EXEC2 ha hb ba bb =
     [CV_rrr (lib_VEC_SDOT 2 ha hb), CV_rrr (lib_VEC_SDOT_SC 2 ha hb), CV_rrs (lib_VEC_SDOT_SC 2 ha hb),
      CV_rrr (lib_VEC_SDOT 4 ba bb), CV_rrr (lib_VEC_SDOT_SC 4 ba bb), CV_rrs (lib_VEC_SDOT_SC 4 ba bb)]"

definition CV_OP_RRU_EXEC2 :: "(16 word \<Rightarrow> u32) \<Rightarrow> (16 word \<Rightarrow> u32) \<Rightarrow> (u8 \<Rightarrow> u32) \<Rightarrow> (u8 \<Rightarrow> u32) \<Rightarrow> exec list" where
  "CV_OP_RRU_EXEC2 ha hb ba bb =
     [CV_rrr (lib_VEC_SDOT 2 ha hb), CV_rrr (lib_VEC_SDOT_SC 2 ha hb), CV_rru (lib_VEC_SDOT_SC 2 ha hb),
      CV_rrr (lib_VEC_SDOT 4 ba bb), CV_rrr (lib_VEC_SDOT_SC 4 ba bb), CV_rru (lib_VEC_SDOT_SC 4 ba bb)]"

definition CV_OP1_RS_EXEC :: "exec list" where
  "CV_OP1_RS_EXEC = [CV_r (lib_VEC_ABS TYPE(16 word) 2), CV_r (lib_VEC_ABS TYPE(u8) 4)]"

text \<open>The expansions.\<close>

definition cv_arith_handlers :: "exec list" where
  "cv_arith_handlers =
     CV_OP_RS_EXEC (+) (+) @ CV_OP_RS_EXEC (-) (-) @ CV_OP_RS_EXEC vec_avg vec_avg @ CV_OP_RU_EXEC vec_avgu vec_avgu
     @ CV_OP_RS_EXEC vec_min vec_min @ CV_OP_RU_EXEC vec_minu vec_minu @ CV_OP_RS_EXEC vec_max vec_max
     @ CV_OP_RU_EXEC vec_maxu vec_maxu @ CV_OP_RU_EXEC vec_srl vec_srl @ CV_OP_RS_EXEC vec_sra vec_sra
     @ CV_OP_RU_EXEC vec_sll vec_sll @ CV_OP_RS_EXEC (OR) (OR) @ CV_OP_RS_EXEC (XOR) (XOR) @ CV_OP_RS_EXEC (AND) (AND)
     @ CV_OP1_RS_EXEC"

definition cv_dot_handlers :: "exec list" where
  "cv_dot_handlers =
     CV_OP_RS_EXEC2 scast scast scast scast @ CV_OP_RU_EXEC2 ucast ucast ucast ucast @ CV_OP_RS_EXEC2 ucast scast ucast scast
     @ CV_OP_RRS_EXEC2 scast scast scast scast @ CV_OP_RRU_EXEC2 ucast ucast ucast ucast @ CV_OP_RRS_EXEC2 ucast scast ucast scast"

definition cv_cmp_handlers :: "exec list" where
  "cv_cmp_handlers =
     CV_OP_RS_EXEC (cmp_op (=)) (cmp_op (=)) @ CV_OP_RS_EXEC (cmp_op (\<noteq>)) (cmp_op (\<noteq>))
     @ CV_OP_RS_EXEC (cmp_op (\<lambda>x y. sint x > sint y)) (cmp_op (\<lambda>x y. sint x > sint y))
     @ CV_OP_RS_EXEC (cmp_op (\<lambda>x y. sint x \<ge> sint y)) (cmp_op (\<lambda>x y. sint x \<ge> sint y))
     @ CV_OP_RS_EXEC (cmp_op (\<lambda>x y. sint x < sint y)) (cmp_op (\<lambda>x y. sint x < sint y))
     @ CV_OP_RS_EXEC (cmp_op (\<lambda>x y. sint x \<le> sint y)) (cmp_op (\<lambda>x y. sint x \<le> sint y))
     @ CV_OP_RU_EXEC (cmp_op (>)) (cmp_op (>)) @ CV_OP_RU_EXEC (cmp_op (\<ge>)) (cmp_op (\<ge>))
     @ CV_OP_RU_EXEC (cmp_op (<)) (cmp_op (<)) @ CV_OP_RU_EXEC (cmp_op (\<le>)) (cmp_op (\<le>))"

section \<open>All the handlers\<close>

text \<open>The scalar handlers that have a twin in theory \<open>PulpV2\<close>, and all of them.\<close>

definition corev_scalar_handlers :: "exec list" where
  "corev_scalar_handlers = [
      cv_avgu_exec, cv_slet_exec, cv_sletu_exec, cv_min_exec, cv_minu_exec, cv_max_exec, cv_maxu_exec, cv_ror_exec,
      cv_ff1_exec, cv_fl1_exec, cv_clb_exec, cv_cnt_exec, cv_exths_exec, cv_exthz_exec, cv_extbs_exec, cv_extbz_exec,
      cv_abs_exec, cv_extractr_h_exec, cv_extractr_b_exec, cv_extractur_h_exec, cv_extractur_b_exec,
      cv_insertr_h_exec, cv_insertr_b_exec, cv_shuffle_h_exec, cv_shuffle_h_sci_exec, cv_shuffle_b_exec,
      cv_shufflei0_b_sci_exec, cv_shufflei1_b_sci_exec, cv_shufflei2_b_sci_exec, cv_shufflei3_b_sci_exec,
      cv_shuffle2_h_exec, cv_shuffle2_b_exec, cv_pack_h_exec, cv_packhi_b_exec, cv_packlo_b_exec, cv_mac_exec,
      cv_msu_exec, cv_mul_exec, cv_muls_exec, cv_mulhhs_exec, cv_mulsN_exec, cv_mulhhsN_exec, cv_mulsRN_exec,
      cv_mulhhsRN_exec, cv_mulu_exec, cv_mulhhu_exec, cv_muluN_exec, cv_mulhhuN_exec, cv_muluRN_exec,
      cv_mulhhuRN_exec, cv_macs_exec, cv_machhs_exec, cv_macsN_exec, cv_machhsN_exec, cv_macsRN_exec,
      cv_machhsRN_exec, cv_macu_exec, cv_machhu_exec, cv_macuN_exec, cv_machhuN_exec, cv_macuRN_exec,
      cv_machhuRN_exec, cv_addN_exec, cv_adduN_exec, cv_addRN_exec, cv_adduRN_exec, cv_subN_exec, cv_subuN_exec,
      cv_subRN_exec, cv_subuRN_exec, cv_addNr_exec, cv_adduNr_exec, cv_addRNr_exec, cv_adduRNr_exec, cv_subNr_exec,
      cv_subuNr_exec, cv_subRNr_exec, cv_subuRNr_exec, cv_clip_exec, cv_clipr_exec, cv_bclr_exec, cv_bclrr_exec,
      cv_extract_exec, cv_extractu_exec, cv_extractr_exec, cv_extractur_exec, cv_insert_exec, cv_insertr_exec,
      cv_bset_exec, cv_bsetr_exec, cv_bneimm_exec_fast, cv_bneimm_exec, cv_beqimm_exec_fast, cv_beqimm_exec]"

definition corev_alu_handlers :: "exec list" where
  "corev_alu_handlers = corev_scalar_handlers @ cv_arith_handlers @ cv_dot_handlers @ cv_cmp_handlers
     @ [cv_clipu_exec, cv_clipur_exec, cv_bitrev_exec]"

lemmas corev_alu_defs =
  cv_avgu_exec_def cv_slet_exec_def cv_sletu_exec_def cv_min_exec_def cv_minu_exec_def cv_max_exec_def
  cv_maxu_exec_def cv_ror_exec_def cv_ff1_exec_def cv_fl1_exec_def cv_clb_exec_def cv_cnt_exec_def cv_exths_exec_def
  cv_exthz_exec_def cv_extbs_exec_def cv_extbz_exec_def cv_abs_exec_def cv_extractr_h_exec_def cv_extractr_b_exec_def
  cv_extractur_h_exec_def cv_extractur_b_exec_def cv_insertr_h_exec_def cv_insertr_b_exec_def cv_shuffle_h_exec_def
  cv_shuffle_h_sci_exec_def cv_shuffle_b_exec_def cv_shufflei0_b_sci_exec_def cv_shufflei1_b_sci_exec_def
  cv_shufflei2_b_sci_exec_def cv_shufflei3_b_sci_exec_def cv_shuffle2_h_exec_def cv_shuffle2_b_exec_def
  cv_pack_h_exec_def cv_packhi_b_exec_def cv_packlo_b_exec_def cv_mac_exec_def cv_msu_exec_def cv_mul_exec_def
  cv_muls_exec_def cv_mulhhs_exec_def cv_mulsN_exec_def cv_mulhhsN_exec_def cv_mulsRN_exec_def cv_mulhhsRN_exec_def
  cv_mulu_exec_def cv_mulhhu_exec_def cv_muluN_exec_def cv_mulhhuN_exec_def cv_muluRN_exec_def cv_mulhhuRN_exec_def
  cv_macs_exec_def cv_machhs_exec_def cv_macsN_exec_def cv_machhsN_exec_def cv_macsRN_exec_def cv_machhsRN_exec_def
  cv_macu_exec_def cv_machhu_exec_def cv_macuN_exec_def cv_machhuN_exec_def cv_macuRN_exec_def cv_machhuRN_exec_def
  cv_addN_exec_def cv_adduN_exec_def cv_addRN_exec_def cv_adduRN_exec_def cv_subN_exec_def cv_subuN_exec_def
  cv_subRN_exec_def cv_subuRN_exec_def cv_addNr_exec_def cv_adduNr_exec_def cv_addRNr_exec_def cv_adduRNr_exec_def
  cv_subNr_exec_def cv_subuNr_exec_def cv_subRNr_exec_def cv_subuRNr_exec_def cv_clip_exec_def cv_clipu_exec_def
  cv_clipr_exec_def cv_clipur_exec_def cv_bclr_exec_def cv_bclrr_exec_def cv_extract_exec_def cv_extractu_exec_def
  cv_extractr_exec_def cv_extractur_exec_def cv_insert_exec_def cv_insertr_exec_def cv_bset_exec_def cv_bsetr_exec_def
  cv_bitrev_exec_def cv_bneimm_exec_fast_def cv_bneimm_exec_def cv_beqimm_exec_fast_def cv_beqimm_exec_def
  cv_bneimm_exec_common_def cv_beqimm_exec_common_def
lemmas cv_defs = CV_rr_def CV_rs_def CV_ru_def CV_rrr_def CV_rrs_def CV_rru_def CV_r_def
lemmas cv_macro_defs = CV_OP_RS_EXEC_def CV_OP_RU_EXEC_def CV_OP_RS_EXEC2_def CV_OP_RU_EXEC2_def CV_OP_RRS_EXEC2_def
  CV_OP_RRU_EXEC2_def CV_OP1_RS_EXEC_def cv_arith_handlers_def cv_dot_handlers_def cv_cmp_handlers_def

end
