(* ===== verification/IssExec.thy ===== *)
theory IssExec imports Rv32Spec CoreV begin

text \<open>
  The instruction loop of the in-order core (\<open>src/models/cpu/iss/src/exec/exec_inorder.cpp\<close>): the two
  event handlers, exceptions, interrupts and flushes between instructions, and the composition of the
  core with its instructions, its interrupt lines, its data port and its cache. The instruction memory
  is outside: \<open>fetch\<close> tells whether the prefetcher has the instruction and \<open>get_insn\<close> gives the decoded
  instruction with its two handlers. Traces, energy, the GDB server and the debug unit are left out.
\<close>

section \<open>The loop\<close>

type_synonym handler = "iss_insn \<Rightarrow> u32 \<Rightarrow> iss \<Rightarrow> (u32 \<times> iss) option"

record decoded =
  d_insn :: iss_insn
  d_handler :: handler
  d_fast_handler :: handler

definition CSR_PCER_INSTR :: nat where "CSR_PCER_INSTR = 1"

definition insn_account :: "timing \<Rightarrow> timing" where
  "insn_account t0 =
     (let t = event_account CSR_PCER_INSTR 1 t0;
          cycles = 1 + (if stall_cycles t \<ge> 0 then stall_cycles t else 0)
      in event_account CSR_PCER_CYCLES cycles t)"

definition handle_stall_cycles :: "iss \<Rightarrow> bool \<times> iss" where
  "handle_stall_cycles s =
     (if stall_cycles (iss_timing s) > 0
      then (True, on_tm (\<lambda>t. t\<lparr>stall_cycles := stall_cycles t - 1\<rparr>) s) else (False, s))"

definition can_switch_to_fast_mode :: "iss \<Rightarrow> bool" where
  "can_switch_to_fast_mode s = (\<not> bit (pcmr (iss_timing s)) 0)"

text \<open>The fast handler. \<open>None\<close> when the instruction is not modelled.\<close>

definition exec_instr :: "(u32 \<Rightarrow> bool) \<Rightarrow> (u32 \<Rightarrow> decoded option) \<Rightarrow> iss \<Rightarrow> iss option" where
  "exec_instr fetch get_insn s0 =
     (let (stalled, s) = handle_stall_cycles s0 in
      if stalled then Some s
      else
       (let pc = current_insn s in
        if \<not> fetch pc then Some s
        else case get_insn pc of None \<Rightarrow> Some s
        | Some d \<Rightarrow> map_option (\<lambda>(next, s'). s'\<lparr>current_insn := next\<rparr>) (d_fast_handler d (d_insn d) pc s)))"

text \<open>What the slow handler does before the instruction.\<close>

definition exec_prologue :: "iss \<Rightarrow> iss" where
  "exec_prologue s =
     (let s1 = (if pending_flush s then s\<lparr>pending_flush := False\<rparr> else s);
          s2 = (if has_exception s1 then s1\<lparr>current_insn := exception_pc s1, has_exception := False\<rparr> else s1);
          s3 = (if can_switch_to_fast_mode s2 then s2\<lparr>full_mode := False\<rparr> else s2)
      in if \<not> skip_irq_check s3 then snd (irq_check s3) else s3\<lparr>skip_irq_check := False\<rparr>)"

definition exec_instr_check_all :: "(u32 \<Rightarrow> bool) \<Rightarrow> (u32 \<Rightarrow> decoded option) \<Rightarrow> iss \<Rightarrow> iss option" where
  "exec_instr_check_all fetch get_insn s0 =
     (let (stalled, s) = handle_stall_cycles s0 in
      if stalled then Some s
      else
       (let s1 = exec_prologue s; pc = current_insn s1 in
        if \<not> fetch pc then Some s1
        else case get_insn pc of None \<Rightarrow> Some s1
        | Some d \<Rightarrow> map_option (\<lambda>(next, s'). on_tm insn_account (s'\<lparr>current_insn := next\<rparr>))
                     (d_handler d (d_insn d) pc s1)))"

text \<open>One firing of the instruction event, when it is enabled.\<close>

definition instr_event :: "(u32 \<Rightarrow> bool) \<Rightarrow> (u32 \<Rightarrow> decoded option) \<Rightarrow> iss \<Rightarrow> iss option" where
  "instr_event fetch get_insn s =
     (if full_mode s then exec_instr_check_all fetch get_insn s else exec_instr fetch get_insn s)"

definition flush_cache_ack_sync :: "iss \<Rightarrow> iss" where
  "flush_cache_ack_sync s =
     (if cache_sync s then on_tm insn_stall_account (stalled_dec (s\<lparr>cache_sync := False\<rparr>)) else s)"

section \<open>The handlers of the instruction set\<close>

definition total :: "exec \<Rightarrow> handler" where "total h insn pc s = Some (h insn pc s)"

inductive iss_handler :: "handler \<Rightarrow> bool" where
  alu: "h \<in> {lui_exec, auipc_exec, jal_exec, jal_exec_fast, jalr_exec, jalr_exec_fast, beq_exec, beq_exec_fast,
      bne_exec, bne_exec_fast, blt_exec, blt_exec_fast, bge_exec, bge_exec_fast, bltu_exec, bltu_exec_fast,
      bgeu_exec, bgeu_exec_fast, addi_exec, nop_exec, slti_exec, sltiu_exec, xori_exec, ori_exec, andi_exec,
      slli_exec, srli_exec, srai_exec, add_exec, sub_exec, sll_exec, slt_exec, sltu_exec, xor_exec, srl_exec,
      sra_exec, or_exec, and_exec, fence_exec, mul_exec, mulh_exec, mulhsu_exec, mulhu_exec, div_exec z, divu_exec z,
      rem_exec z, remu_exec z} \<Longrightarrow> iss_handler (total h)"
| load: "h \<in> {lb_exec sh port, lb_exec_fast sh port, lh_exec sh port, lh_exec_fast sh port, lw_exec sh port,
      lw_exec_fast sh port, lbu_exec port, lbu_exec_fast port, lhu_exec port, lhu_exec_fast port, sb_exec port,
      sb_exec_fast port, sh_exec port, sh_exec_fast port, sw_exec port, sw_exec_fast port} \<Longrightarrow> iss_handler (total h)"
| env: "h \<in> {fence_i_exec bound, ebreak_exec prev (\<lambda>s. s), ecall_exec, wfi_exec now, mret_exec, sret_exec, dret_exec,
      sfence_vma_exec} \<Longrightarrow> iss_handler (total h)"
| csr: "h \<in> {csrrw_exec now, csrrc_exec now, csrrs_exec now, csrrwi_exec now, csrrci_exec now, csrrsi_exec now}
      \<Longrightarrow> iss_handler h"
| compressed: "(h, b) \<in> set (rvc_expansions sh port) \<union> set (rvc_fast_expansions sh port) \<Longrightarrow> iss_handler (total h)"
| pulp_alu: "h \<in> set pulp_alu_handlers \<Longrightarrow> iss_handler (total h)"
| pulp_mem: "h \<in> set (pulp_mem_handlers sh port) \<Longrightarrow> iss_handler (total h)"
| corev_alu: "h \<in> set corev_alu_handlers \<Longrightarrow> iss_handler (total h)"
| compressed_env: "h \<in> {c_unimp_exec, c_ebreak_exec dcsr, c_sbreak_exec} \<Longrightarrow> iss_handler (total h)"

definition decodes :: "(u32 \<Rightarrow> decoded option) \<Rightarrow> bool" where
  "decodes get_insn \<longleftrightarrow> (\<forall>pc d. get_insn pc = Some d \<longrightarrow> iss_handler (d_handler d) \<and> iss_handler (d_fast_handler d))"

section \<open>Reachable states\<close>

text \<open>A core whose reset is over and whose fetch is enabled: \<open>Core::reset\<close>, \<open>Exec::reset\<close>, \<open>Irq::reset\<close>
  and \<open>Csr::reset\<close>.\<close>

definition iss_started :: "iss \<Rightarrow> bool" where
  "iss_started s \<longleftrightarrow> core_mode s = PRIV_M \<and> mstatus s = 0x6000 \<and> mie s = 0 \<and> mip s = 0 \<and> \<not> irq_enable s \<and> \<not> req_debug s
     \<and> \<not> has_exception s \<and> irq_locked s = 0 \<and> \<not> insn_on_hold s \<and> full_mode s \<and> skip_irq_check s \<and> stalled s = 0
     \<and> \<not> wfi s \<and> \<not> cache_sync s \<and> lsu_stall s = None"

inductive iss_reach :: "iss \<Rightarrow> bool" where
  start: "iss_started s \<Longrightarrow> iss_reach s"
| instr: "iss_reach s \<Longrightarrow> stalled s = 0 \<Longrightarrow> decodes get_insn \<Longrightarrow> instr_event fetch get_insn s = Some s' \<Longrightarrow> iss_reach s'"
| line: "iss_reach s \<Longrightarrow> iss_reach (irq_line_sync irq now v s)"
| response: "iss_reach s \<Longrightarrow> lsu_data_response sr data chk s = Some s' \<Longrightarrow> iss_reach s'"
| ack: "iss_reach s \<Longrightarrow> iss_reach (flush_cache_ack_sync s)"

end
