(* ===== verification/IssInv.thy ===== *)
theory IssInv imports IssExec begin

text \<open>
  The invariant of the in-order core of theory \<open>IssExec\<close>, and that every instruction handler, the two
  instruction events, the interrupt lines, the responses of the data port and of the cache keep it.
\<close>

section \<open>Invariants\<close>

text \<open>What the interrupt logic and the instruction event look at.\<close>

definition iss_view where
  "iss_view s = (mstatus s, mie s, mip s, mideleg s, core_mode s, full_mode s, has_exception s, wfi s, stalled s,
     insn_on_hold s, irq_locked s, req_debug s, skip_irq_check s, lsu_stall s, cache_sync s)" for s :: iss

definition iss_base :: "iss \<Rightarrow> bool" where
  "iss_base s \<longleftrightarrow> \<not> insn_on_hold s \<and> irq_locked s = 0 \<and> \<not> req_debug s \<and> core_mode s < 4
     \<and> (wfi s \<longrightarrow> pending_interrupts s = 0)
     \<and> stalled s = of_bool (wfi s) + of_bool (lsu_stall s \<noteq> None) + of_bool (cache_sync s)"

definition iss_inv :: "iss \<Rightarrow> bool" where
  "iss_inv s \<longleftrightarrow> iss_base s \<and> (has_exception s \<longrightarrow> full_mode s) \<and> (\<forall>i. irq_deliverable s i \<longrightarrow> full_mode s)
     \<and> (skip_irq_check s \<longrightarrow> full_mode s \<and> core_mode s = PRIV_M \<and> \<not> bit (mstatus s) MS_MIE)"

lemma iss_view_inv: "iss_view s' = iss_view s \<Longrightarrow> iss_inv s' = iss_inv s"
  by (simp add: iss_view_def iss_inv_def iss_base_def irq_deliverable_def pending_interrupts_def)

lemma iss_full_inv: "iss_base s \<Longrightarrow> full_mode s \<Longrightarrow> \<not> skip_irq_check s \<Longrightarrow> iss_inv s"
  by (simp add: iss_inv_def)

lemma iss_view_simps [simp]: "iss_view (on_rf f s) = iss_view s" "iss_view (on_tm g s) = iss_view s"
  by (simp_all add: iss_view_def on_rf_def on_tm_def)

lemma alu_view:
  assumes "h \<in> {lui_exec, auipc_exec, jal_exec, jal_exec_fast, jalr_exec, jalr_exec_fast, beq_exec, beq_exec_fast,
      bne_exec, bne_exec_fast, blt_exec, blt_exec_fast, bge_exec, bge_exec_fast, bltu_exec, bltu_exec_fast,
      bgeu_exec, bgeu_exec_fast, addi_exec, nop_exec, slti_exec, sltiu_exec, xori_exec, ori_exec, andi_exec,
      slli_exec, srli_exec, srai_exec, add_exec, sub_exec, sll_exec, slt_exec, sltu_exec, xor_exec, srl_exec,
      sra_exec, or_exec, and_exec, fence_exec, mul_exec, mulh_exec, mulhsu_exec, mulhu_exec, div_exec z, divu_exec z,
      rem_exec z, remu_exec z}"
  shows "iss_view (snd (h insn pc s)) = iss_view s"
proof -
  have b: "iss_view (snd (bxx_exec_common c p insn pc s)) = iss_view s" for c p
    by (simp add: bxx_exec_common_def Let_def)
  note B = beq_exec_def bne_exec_def blt_exec_def bge_exec_def bltu_exec_def bgeu_exec_def
      beq_exec_fast_def bne_exec_fast_def blt_exec_fast_def bge_exec_fast_def bltu_exec_fast_def bgeu_exec_fast_def
      beq_exec_common_def bne_exec_common_def blt_exec_common_def bge_exec_common_def bltu_exec_common_def bgeu_exec_common_def
  note D = lui_exec_def auipc_exec_def jal_exec_def jal_exec_fast_def jal_exec_common_def jalr_exec_def jalr_exec_fast_def
      jalr_exec_common_def addi_exec_def nop_exec_def slti_exec_def sltiu_exec_def xori_exec_def ori_exec_def andi_exec_def
      slli_exec_def srli_exec_def srai_exec_def add_exec_def sub_exec_def sll_exec_def slt_exec_def sltu_exec_def xor_exec_def
      srl_exec_def sra_exec_def or_exec_def and_exec_def fence_exec_def mul_exec_def mulh_exec_def mulhsu_exec_def mulhu_exec_def
      div_exec_def divu_exec_def rem_exec_def remu_exec_def
  show ?thesis using assms unfolding insert_iff empty_iff
    by (elim disjE; simp add: B D b Let_def)
qed

lemma raise_base: "iss_base s \<Longrightarrow> iss_base (raise pc c s) \<and> full_mode (raise pc c s) \<and> skip_irq_check (raise pc c s) = skip_irq_check s"
  by (simp add: raise_def Let_def iss_base_def pending_interrupts_def mode_set_def switch_to_full_mode_def PRIV_S_def PRIV_M_def)

lemma raise_inv: "iss_base s \<Longrightarrow> \<not> skip_irq_check s \<Longrightarrow> iss_inv (raise pc c s)"
  using raise_base by (intro iss_full_inv) auto

lemma iss_inv_base: "iss_inv s \<Longrightarrow> iss_base s" by (simp add: iss_inv_def)

lemma iss_view_base: "iss_view s' = iss_view s \<Longrightarrow> iss_base s' = iss_base s \<and> skip_irq_check s' = skip_irq_check s"
  by (simp add: iss_view_def iss_base_def pending_interrupts_def)

text \<open>An access either finishes, or raises, or leaves the core stalled on it.\<close>

lemma data_req_view:
  assumes "data_req port addr reg sz w s = (st, s')"
  shows "(st = LSU_OK \<and> iss_view s' = iss_view s) \<or> (st = LSU_INVALID \<and> (\<exists>s0 pc c. iss_view s0 = iss_view s \<and> s' = raise pc c s0))
    \<or> (st \<noteq> LSU_OK \<and> st \<noteq> LSU_INVALID \<and> (\<exists>s0. iss_view s0 = iss_view s \<and> s' = s0\<lparr>stalled := stalled s0 + 1\<rparr>))"
proof -
  let ?s1 = "if w then s else on_rf (reg_check_write reg sz (-1)) s"
  have v: "iss_view ?s1 = iss_view s" by simp
  let ?a = "port addr sz w (if w then reg_bytes sz (regs (iss_regfile s) reg) else [])"
  show ?thesis using assms v
    by (cases "la_status ?a") (auto simp: data_req_def data_req_aligned_def Let_def)
qed

definition lsu_outcome :: "iss \<Rightarrow> iss \<Rightarrow> bool" where
  "lsu_outcome s s' \<longleftrightarrow> iss_view s' = iss_view s \<or> (\<exists>s0 pc c. iss_view s0 = iss_view s \<and> s' = raise pc c s0)
    \<or> (\<exists>s0 p. iss_view s0 = iss_view s \<and> s' = s0\<lparr>stalled := stalled s0 + 1, lsu_stall := Some p\<rparr>)"

lemma lsu_outcomeI:
  "iss_view s' = iss_view s \<Longrightarrow> lsu_outcome s s'" "iss_view s0 = iss_view s \<Longrightarrow> lsu_outcome s (raise pc c s0)"
  "iss_view s0 = iss_view s \<Longrightarrow> lsu_outcome s (s0\<lparr>stalled := stalled s0 + 1, lsu_stall := Some p\<rparr>)"
  unfolding lsu_outcome_def by blast+

lemma lsu_view:
  "lsu_outcome s (snd (lsu_load port addr sz reg s))" "lsu_outcome s (snd (lsu_load_signed sh port addr sz reg s))"
  "lsu_outcome s (snd (lsu_store port addr sz reg s))"
proof -
  show "lsu_outcome s (snd (lsu_load port addr sz reg s))"
    using data_req_view[of port addr reg sz False "on_rf (memcheck_set_valid reg True) (on_rf (set_reg reg 0) s)"]
    by (auto intro: lsu_outcomeI simp: lsu_load_def Let_def split: prod.splits)
  show "lsu_outcome s (snd (lsu_load_signed sh port addr sz reg s))"
    using data_req_view[of port addr reg sz False s]
    by (auto intro: lsu_outcomeI simp: lsu_load_signed_def Let_def split: prod.splits)
  show "lsu_outcome s (snd (lsu_store port addr sz reg s))"
    using data_req_view[of port addr reg sz True s]
    by (auto intro: lsu_outcomeI simp: lsu_store_def Let_def split: prod.splits)
qed

lemma lsu_outcome_view: "iss_view s0 = iss_view s \<Longrightarrow> lsu_outcome s0 s' = lsu_outcome s s'"
  by (simp add: lsu_outcome_def)

lemma lsu_outcome_inv:
  assumes "lsu_outcome s s'" "iss_inv s" "stalled s = 0" "\<not> skip_irq_check s"
  shows "iss_inv s' \<and> \<not> skip_irq_check s'"
  using assms(1) unfolding lsu_outcome_def
proof (elim disjE exE conjE)
  assume "iss_view s' = iss_view s"
  then show ?thesis using assms(2,4) iss_view_inv iss_view_base by metis
next
  fix s0 pc c assume v: "iss_view s0 = iss_view s" and s': "s' = raise pc c s0"
  have "iss_base s0" "\<not> skip_irq_check s0" using v assms(2,4) iss_view_base iss_inv_base by metis+
  then show ?thesis unfolding s' using raise_inv raise_base by blast
next
  fix s0 p assume v: "iss_view s0 = iss_view s" and s': "s' = s0\<lparr>stalled := stalled s0 + 1, lsu_stall := Some p\<rparr>"
  have z: "stalled s0 = 0" "\<not> skip_irq_check s0" using v assms(3,4) by (simp_all add: iss_view_def)
  have "iss_inv s0" using v assms(2) iss_view_inv by metis
  then show ?thesis using z unfolding s'
    by (auto simp: iss_inv_def iss_base_def irq_deliverable_def pending_interrupts_def of_bool_def split: if_splits)
qed

lemma load_outcome:
  assumes "h \<in> {lb_exec sh port, lb_exec_fast sh port, lh_exec sh port, lh_exec_fast sh port, lw_exec sh port,
      lw_exec_fast sh port, lbu_exec port, lbu_exec_fast port, lhu_exec port, lhu_exec_fast port, sb_exec port,
      sb_exec_fast port, sh_exec port, sh_exec_fast port, sw_exec port, sw_exec_fast port}"
  shows "lsu_outcome s (snd (h insn pc s))"
proof -
  have n: "snd (lsu_next i p r) = snd r" for i p r by (simp add: lsu_next_def)
  note V = lsu_view[where s = s] lsu_view[where s = "on_rf f s" for f, unfolded lsu_outcome_view[OF iss_view_simps(1)]]
    lsu_view[where s = "on_tm g s" for g, unfolded lsu_outcome_view[OF iss_view_simps(2)]]
    lsu_view[where s = "on_tm g (on_rf f s)" for f g, unfolded lsu_outcome_view[OF iss_view_simps(2)] lsu_outcome_view[OF iss_view_simps(1)]]
  note D = lb_exec_def lb_exec_fast_def lh_exec_def lh_exec_fast_def lw_exec_def lw_exec_fast_def lbu_exec_def lbu_exec_fast_def
     lhu_exec_def lhu_exec_fast_def sb_exec_def sb_exec_fast_def sh_exec_def sh_exec_fast_def sw_exec_def sw_exec_fast_def
     lsu_load_perf_def lsu_load_signed_perf_def lsu_store_perf_def
  show ?thesis using assms unfolding insert_iff empty_iff by (elim disjE; simp add: D n Let_def V del: on_rf_simps on_tm_simps)
qed

text \<open>Every operation that reaches the status or the interrupt registers leaves the core in full mode,
  or with what it has.\<close>

definition keeps_inv :: "iss \<Rightarrow> iss \<Rightarrow> bool" where
  "keeps_inv s s' \<longleftrightarrow> (iss_inv s \<longrightarrow> stalled s = 0 \<longrightarrow> \<not> skip_irq_check s \<longrightarrow> iss_inv s' \<and> \<not> skip_irq_check s')"

lemma keeps_view: "iss_view s' = iss_view s \<Longrightarrow> keeps_inv s s'"
  using iss_view_inv[of s' s] iss_view_base[of s' s] by (simp add: keeps_inv_def)

lemma keeps_full: "(iss_base s \<Longrightarrow> iss_base s' \<and> full_mode s' \<and> skip_irq_check s' = skip_irq_check s) \<Longrightarrow> keeps_inv s s'"
  by (auto simp: keeps_inv_def intro!: iss_full_inv dest: iss_inv_base)

lemma keeps_raise: "keeps_inv s (raise pc c s)"
  using raise_base by (intro keeps_full) simp

lemma view_of_stall: "iss_view s0 = iss_view s \<Longrightarrow> keeps_inv s0 s' = keeps_inv s s'"
  using iss_view_inv[of s0 s] iss_view_base[of s0 s] by (auto simp: keeps_inv_def iss_view_def)

lemmas base_simps = iss_base_def pending_interrupts_def mode_set_def switch_to_full_mode_def PRIV_U_def PRIV_S_def PRIV_M_def

lemma get_mpp_less: "get_mpp w < 4" by (simp add: get_mpp_def of_bool_def)

lemma of_bool_less4: "of_bool b < (4 :: nat)" by (cases b) simp_all

lemma mret_keeps: "keeps_inv s (snd (mret_handle s))"
  by (rule keeps_full) (simp add: mret_handle_def Let_def base_simps get_mpp_less)

lemma sret_keeps: "keeps_inv s (snd (sret_handle s))"
proof (cases "core_mode s = PRIV_S \<and> bit (mstatus s) MS_TSR")
  case True then show ?thesis by (simp add: sret_handle_def keeps_raise)
next
  case False
  then show ?thesis
    unfolding sret_handle_def if_not_P[OF False] by (intro keeps_full) (simp add: Let_def base_simps of_bool_less4)
qed

lemma dret_keeps: "keeps_inv s (snd (dret_handle s))"
  by (rule keeps_full) (simp add: dret_handle_def Let_def base_simps)

lemma wfi_keeps: "keeps_inv s (wfi_handle now s)"
  by (auto simp: keeps_inv_def wfi_handle_def iss_inv_def iss_base_def irq_deliverable_def pending_interrupts_def of_bool_def
      split: if_splits)

lemma flush_keeps: "keeps_inv s (icache_flush bound s)"
  unfolding keeps_inv_def
  by (auto simp: icache_flush_def Let_def iss_inv_def base_simps irq_deliverable_def of_bool_def split: if_splits)

lemma env_keeps:
  assumes "h \<in> {fence_i_exec bound, ebreak_exec prev (\<lambda>s. s), ecall_exec, wfi_exec now, mret_exec, sret_exec, dret_exec,
      sfence_vma_exec}"
  shows "keeps_inv s (snd (h insn pc s))"
proof -
  have t: "keeps_inv (on_tm g s) s' = keeps_inv s s'" for g s' by (rule view_of_stall) simp
  have sv: "keeps_inv s (s0 :: iss) \<Longrightarrow> keeps_inv s s0" for s0 .
  have e: "keeps_inv s (raise pc c (s\<lparr>stval := 0\<rparr>))" for c
    using keeps_raise[of "s\<lparr>stval := 0\<rparr>"] view_of_stall[of "s\<lparr>stval := 0\<rparr>" s] by (simp add: iss_view_def)
  have k: "keeps_inv s s" by (rule keeps_view) simp
  show ?thesis using assms unfolding insert_iff empty_iff
  proof (elim disjE)
    assume "h = mret_exec" then show ?thesis using mret_keeps[of "on_tm (stall_insn_dependency_account 5) s"]
      by (simp add: mret_exec_def t)
  next
    assume "h = sret_exec" then show ?thesis using sret_keeps[of "on_tm (stall_insn_dependency_account 5) s"]
      by (simp add: sret_exec_def t)
  qed (auto simp: fence_i_exec_def ebreak_exec_def ecall_exec_def wfi_exec_def dret_exec_def sfence_vma_exec_def Let_def
      keeps_raise e k wfi_keeps flush_keeps dret_keeps split: option.splits)
qed

section \<open>Control registers\<close>

text \<open>The register accesses keep the core running, which is how they are executed.\<close>

definition runs :: "iss \<Rightarrow> bool" where "runs s \<longleftrightarrow> iss_inv s \<and> stalled s = 0 \<and> \<not> skip_irq_check s"

definition base_runs :: "iss \<Rightarrow> bool" where
  "base_runs s \<longleftrightarrow> \<not> insn_on_hold s \<and> irq_locked s = 0 \<and> \<not> req_debug s \<and> core_mode s < 4 \<and> \<not> wfi s \<and> stalled s = 0
     \<and> lsu_stall s = None \<and> \<not> cache_sync s \<and> \<not> skip_irq_check s"

lemma runs_base: "runs s \<Longrightarrow> base_runs s"
  by (auto simp: runs_def base_runs_def iss_inv_def iss_base_def of_bool_def split: if_splits)

lemma base_runs_full: "base_runs s \<Longrightarrow> full_mode s \<Longrightarrow> runs s"
  by (simp add: runs_def base_runs_def iss_inv_def iss_base_def)

lemma runs_view: "iss_view s' = iss_view s \<Longrightarrow> runs s' = runs s"
  using iss_view_inv[of s' s] by (auto simp: runs_def iss_view_def)

lemma check_interrupts_runs:
  "base_runs s \<Longrightarrow> check_interrupts now s = (if pending_interrupts s \<noteq> 0 then s\<lparr>full_mode := True\<rparr> else s)"
  by (auto simp: check_interrupts_def base_runs_def switch_to_full_mode_def Let_def)

lemma csr_write_runs:
  assumes "base_runs s" "full_mode s"
  shows "base_runs (snd (csr_access now True c v s)) \<and> full_mode (snd (csr_access now True c v s))"
proof -
  have m: "base_runs (s\<lparr>mip := x\<rparr>)" "base_runs (s\<lparr>mie := x\<rparr>)" for x using assms(1) by (simp_all add: base_runs_def)
  show ?thesis using assms
    by (cases c) (auto simp: base_runs_def core_sstatus_update_def core_mstatus_update_def irq_global_enable_def
        switch_to_full_mode_def on_tm_def Let_def sie_access_def sip_access_def mie_access_def mip_access_def
        check_interrupts_runs m stvec_access_def mtvec_access_def)
qed

lemma iss_csr_write_runs: "base_runs s \<Longrightarrow> runs (iss_csr_write now c v s)"
proof -
  assume b: "base_runs s"
  then have "base_runs (switch_to_full_mode s)" "full_mode (switch_to_full_mode s)"
    by (simp_all add: base_runs_def switch_to_full_mode_def)
  from csr_write_runs[OF this, of now c v] show ?thesis by (simp add: iss_csr_write_def base_runs_full)
qed

lemma iss_csr_read_runs:
  assumes "runs s"
  shows "runs (snd (iss_csr_read now c s))"
proof -
  note b = runs_base[OF assms]
  have "runs (s\<lparr>full_mode := True\<rparr>)" using b by (intro base_runs_full) (simp_all add: base_runs_def)
  moreover have "runs (on_tm g s)" for g using assms runs_view[OF iss_view_simps(2)] by simp
  ultimately show ?thesis using assms
    by (cases c) (auto simp: iss_csr_read_def core_sstatus_update_def core_mstatus_update_def Let_def sie_access_def sip_access_def
        mie_access_def mip_access_def check_interrupts_runs[OF b] stvec_access_def mtvec_access_def)
qed

lemma csr_handle_runs:
  assumes "csr_handle now wr upd insn pc s = Some (pc', s')" "runs s"
  shows "iss_inv s' \<and> \<not> skip_irq_check s'"
proof -
  obtain c where c: "get_csr (UIM_GET insn 0) = Some c" using assms(1) by (auto simp: csr_handle_def split: option.splits)
  obtain ok s1 where ok: "csr_check_access wr True c s = (ok, s1)" by force
  show ?thesis
  proof (cases ok)
    case False
    then have "s' = raise (current_insn s) ISS_EXCEPT_ILLEGAL s"
      using assms(1) c ok by (auto simp: csr_handle_def csr_check_access_def split: if_splits)
    then show ?thesis using keeps_raise assms(2) by (simp add: keeps_inv_def runs_def)
  next
    case True
    then have s1: "s1 = s" using ok by (auto simp: csr_check_access_def split: if_splits)
    obtain v s2 where r: "iss_csr_read now c s = (v, s2)" by force
    define s3 where "s3 = (if REG_OUT insn 0 \<noteq> 0
      then REG_SET insn 0 v (on_rf (memcheck_set_valid (REG_OUT insn 0) True) s2) else s2)"
    have "runs s2" using iss_csr_read_runs[OF assms(2), of now c] r by simp
    then have s3: "runs s3" unfolding s3_def using runs_view[OF iss_view_simps(1)] by simp
    have "s' = (case upd v of None \<Rightarrow> s3 | Some x \<Rightarrow> iss_csr_write now c x s3)"
      using assms(1) c ok True s1 r unfolding s3_def by (simp add: csr_handle_def Let_def split: if_splits)
    then have "runs s'" using s3 iss_csr_write_runs[OF runs_base[OF s3]] by (simp split: option.splits)
    then show ?thesis by (simp add: runs_def)
  qed
qed

lemma keeps_after_count: "keeps_inv (on_tm g s) s' = keeps_inv s s'"
  by (rule view_of_stall) simp

text \<open>A compressed instruction runs the handler it stands for, after the count.\<close>

lemma rvc_base_kinds:
  assumes "(h, b) \<in> set (rvc_expansions sh port) \<union> set (rvc_fast_expansions sh port)"
  shows "(\<exists>s0. iss_view s0 = iss_view s \<and> h insn pc s = b insn pc s0)
    \<and> (b \<in> {lb_exec sh port, lb_exec_fast sh port, lh_exec sh port, lh_exec_fast sh port, lw_exec sh port,
      lw_exec_fast sh port, lbu_exec port, lbu_exec_fast port, lhu_exec port, lhu_exec_fast port, sb_exec port,
      sb_exec_fast port, sh_exec port, sh_exec_fast port, sw_exec port, sw_exec_fast port}
    \<or> (\<forall>s0. iss_view (snd (b insn pc s0)) = iss_view s0))"
proof
  show "\<exists>s0. iss_view s0 = iss_view s \<and> h insn pc s = b insn pc s0"
    using assms rvc_expansion_base[of h b sh port insn pc s] rvc_fast_expansion_base[of h b sh port insn pc s] iss_view_simps(2) by blast
  have "b \<in> {lw_exec sh port, lw_exec_fast sh port, sw_exec port, sw_exec_fast port} \<or> b \<in> {lui_exec, jal_exec, jal_exec_fast,
      jalr_exec, jalr_exec_fast, beq_exec, beq_exec_fast, bne_exec, bne_exec_fast, addi_exec, nop_exec, andi_exec, slli_exec,
      srli_exec, srai_exec, add_exec, sub_exec, xor_exec, or_exec, and_exec}"
    using assms unfolding rvc_expansions_def rvc_fast_expansions_def by auto
  then show "b \<in> {lb_exec sh port, lb_exec_fast sh port, lh_exec sh port, lh_exec_fast sh port, lw_exec sh port,
      lw_exec_fast sh port, lbu_exec port, lbu_exec_fast port, lhu_exec port, lhu_exec_fast port, sb_exec port,
      sb_exec_fast port, sh_exec port, sh_exec_fast port, sw_exec port, sw_exec_fast port}
    \<or> (\<forall>s0. iss_view (snd (b insn pc s0)) = iss_view s0)"
  proof
    assume "b \<in> {lui_exec, jal_exec, jal_exec_fast, jalr_exec, jalr_exec_fast, beq_exec, beq_exec_fast, bne_exec, bne_exec_fast,
      addi_exec, nop_exec, andi_exec, slli_exec, srli_exec, srai_exec, add_exec, sub_exec, xor_exec, or_exec, and_exec}"
    then have "iss_view (snd (b insn pc s0)) = iss_view s0" for s0 by (intro alu_view) blast
    then show ?thesis by blast
  qed blast
qed

lemma compressed_env_keeps:
  assumes "h \<in> {c_unimp_exec, c_ebreak_exec dcsr, c_sbreak_exec}" shows "keeps_inv s (snd (h insn pc s))"
proof -
  have "keeps_inv s (raise pc c (rvc s))" for c using keeps_raise[of "rvc s"] keeps_after_count by metis
  moreover have "keeps_inv s (rvc s)" by (rule keeps_view) simp
  ultimately show ?thesis using assms keeps_raise[of s] by (auto simp: c_unimp_exec_def c_ebreak_exec_def c_sbreak_exec_def Let_def)
qed

text \<open>The handlers of \<open>PulpV2\<close>. A post-increment is applied after the access, whatever became of it.\<close>

lemma on_rf_raise: "on_rf g (raise pc c s) = raise pc c (on_rf g s)"
  by (simp add: raise_def Let_def mode_set_def switch_to_full_mode_def on_rf_def)

lemma lsu_outcome_rf: "lsu_outcome s s' \<Longrightarrow> lsu_outcome s (on_rf g s')"
  unfolding lsu_outcome_def
proof (elim disjE exE conjE, goal_cases)
  case 1 then show ?case by simp
next
  case (2 s0 pc c) then show ?case by (metis on_rf_raise iss_view_simps(1))
next
  case (3 s0 p)
  have "on_rf g s' = (on_rf g s0)\<lparr>stalled := stalled (on_rf g s0) + 1, lsu_stall := Some p\<rparr>"
    using 3 by (simp add: on_rf_def[of g])
  moreover have "iss_view (on_rf g s0) = iss_view s" using 3 iss_view_simps(1) by metis
  ultimately show ?case by blast
qed

definition view_kept :: "exec \<Rightarrow> bool" where
  "view_kept h \<longleftrightarrow> (\<forall>insn pc s. iss_view (snd (h insn pc s)) = iss_view s)"

lemma pv_kept:
  "view_kept (PV_rr f)" "view_kept (PV_rs f)" "view_kept (PV_ru f)" "view_kept (PV_ru_h f)" "view_kept (PV_ru_b f)"
  "view_kept (PV_rrr g)" "view_kept (PV_rrs g)" "view_kept (PV_rru g)" "view_kept (PV_r k)"
  by (simp_all add: view_kept_def pv_defs Let_def)

lemma pulp_alu_kept: "list_all view_kept pulp_alu_handlers"
proof -
  have "list_all view_kept pulp_scalar_handlers"
    unfolding pulp_scalar_handlers_def by (simp add: view_kept_def pulp_alu_defs Let_def)
  moreover have "list_all view_kept (pv_arith_handlers @ pv_dot_handlers @ pv_cmp_handlers)"
    by (simp add: pv_macro_defs pv_kept)
  ultimately show ?thesis by (simp add: pulp_alu_handlers_def)
qed

lemma view_keptD:
  assumes "list_all view_kept hs" "h \<in> set hs" "total h insn pc s = Some (pc', s')"
  shows "iss_view s' = iss_view s"
proof -
  have "view_kept h" using assms(1,2) by (simp add: list_all_iff)
  then have "iss_view (snd (h insn pc s)) = iss_view s" unfolding view_kept_def by blast
  then show ?thesis using assms(3) by (simp add: total_def)
qed

lemma cv_kept:
  "view_kept (CV_rr f)" "view_kept (CV_rs f)" "view_kept (CV_ru f)" "view_kept (CV_rrr g)" "view_kept (CV_rrs g)"
  "view_kept (CV_rru g)" "view_kept (CV_r k)"
  by (simp_all add: view_kept_def cv_defs)

lemma corev_alu_kept: "list_all view_kept corev_alu_handlers"
proof -
  have "list_all view_kept (corev_scalar_handlers @ [cv_clipu_exec, cv_clipur_exec, cv_bitrev_exec])"
    unfolding corev_scalar_handlers_def by (simp add: view_kept_def corev_alu_defs Let_def)
  moreover have "list_all view_kept (cv_arith_handlers @ cv_dot_handlers @ cv_cmp_handlers)"
    by (simp add: cv_macro_defs cv_kept)
  ultimately show ?thesis by (simp add: corev_alu_handlers_def)
qed

definition lsu_kept :: "exec \<Rightarrow> bool" where
  "lsu_kept h \<longleftrightarrow> (\<forall>insn pc s. lsu_outcome s (snd (h insn pc s)))"

lemma lsu_viewI:
  assumes "iss_view s0 = iss_view s"
  shows "lsu_outcome s (snd (lsu_load port addr sz reg s0))" "lsu_outcome s (snd (lsu_load_signed sh port addr sz reg s0))"
    "lsu_outcome s (snd (lsu_store port addr sz reg s0))"
  using lsu_view[where s = s0] lsu_outcome_view[OF assms] by auto

lemma lsu_then_outcome: "lsu_outcome s (snd r) \<Longrightarrow> lsu_outcome s (snd (lsu_then i p r (\<lambda>s. on_rf (g s) s)))"
  using lsu_outcome_rf by (simp add: lsu_then_def)

lemma pulp_mem_kept: "list_all lsu_kept (pulp_mem_handlers sh port)"
proof -
  have n: "snd (lsu_next i p r) = snd r" for i p r by (simp add: lsu_next_def)
  note D = lsu_load_perf_def lsu_load_signed_perf_def lsu_store_perf_def
  show ?thesis unfolding pulp_mem_handlers_def
    by (simp add: lsu_kept_def pulp_mem_defs D n Let_def lsu_viewI lsu_then_outcome del: on_rf_simps on_tm_simps)
qed

lemma iss_handler_inv:
  assumes "iss_handler h" "h insn pc s = Some (pc', s')" "iss_inv s" "stalled s = 0" "\<not> skip_irq_check s"
  shows "iss_inv s' \<and> \<not> skip_irq_check s'"
  using assms(1)
proof cases
  case (alu h' z)
  then have "iss_view s' = iss_view s" using alu_view[OF alu(2), of insn pc s] assms(2) by (simp add: total_def)
  then show ?thesis using keeps_view assms(3-5) by (simp add: keeps_inv_def)
next
  case (load h' sh port)
  then show ?thesis using load_outcome[OF load(2), of s insn pc] assms(2-5) lsu_outcome_inv by (simp add: total_def)
next
  case (env h' bound prev now)
  then show ?thesis using env_keeps[OF env(2), of s insn pc] assms(2-5) by (simp add: total_def keeps_inv_def)
next
  case (csr now)
  have "runs s" using assms(3-5) by (simp add: runs_def)
  then show ?thesis using csr assms(2) csr_handle_runs
    by (auto simp: csrrw_exec_def csrrc_exec_def csrrs_exec_def csrrwi_exec_def csrrci_exec_def csrrsi_exec_def Let_def)
next
  case (compressed h' b sh port)
  from rvc_base_kinds[OF compressed(2), of s insn pc] obtain s0 where s0: "iss_view s0 = iss_view s" "h' insn pc s = b insn pc s0"
    and k: "b \<in> {lb_exec sh port, lb_exec_fast sh port, lh_exec sh port, lh_exec_fast sh port, lw_exec sh port,
      lw_exec_fast sh port, lbu_exec port, lbu_exec_fast port, lhu_exec port, lhu_exec_fast port, sb_exec port,
      sb_exec_fast port, sh_exec port, sh_exec_fast port, sw_exec port, sw_exec_fast port}
      \<or> (\<forall>s0. iss_view (snd (b insn pc s0)) = iss_view s0)" by blast
  have r: "iss_inv s0" "stalled s0 = 0" "\<not> skip_irq_check s0"
    using assms(3-5) iss_view_inv[OF s0(1)] s0(1) by (simp_all add: iss_view_def)
  have s': "s' = snd (b insn pc s0)" using assms(2) compressed(1) s0(2) by (simp add: total_def)
  show ?thesis using k
  proof
    assume "\<forall>s0. iss_view (snd (b insn pc s0)) = iss_view s0"
    then have "iss_view s' = iss_view s0" by (simp add: s')
    then show ?thesis using keeps_view r by (simp add: keeps_inv_def)
  qed (use load_outcome r lsu_outcome_inv s' in blast)
next
  case (pulp_alu h')
  then have "iss_view s' = iss_view s" using view_keptD[OF pulp_alu_kept] assms(2) by blast
  then show ?thesis using keeps_view assms(3-5) by (simp add: keeps_inv_def)
next
  case (corev_alu h')
  then have "iss_view s' = iss_view s" using view_keptD[OF corev_alu_kept] assms(2) by blast
  then show ?thesis using keeps_view assms(3-5) by (simp add: keeps_inv_def)
next
  case (pulp_mem h' sh port)
  then have "lsu_kept h'" using pulp_mem_kept[of sh port] by (simp add: list_all_iff)
  then have "lsu_outcome s (snd (h' insn pc s))" unfolding lsu_kept_def by blast
  moreover have "s' = snd (h' insn pc s)" using assms(2) pulp_mem(1) by (simp add: total_def)
  ultimately have "lsu_outcome s s'" by simp
  then show ?thesis using assms(3-5) lsu_outcome_inv by blast
next
  case (compressed_env h' dcsr)
  then show ?thesis using compressed_env_keeps[OF compressed_env(2), of s insn pc] assms(2-5) by (simp add: total_def keeps_inv_def)
qed

section \<open>The steps keep the invariant\<close>

lemma irq_check_frame:
  assumes "\<not> req_debug s" "irq_check s = (b, s')"
  shows "mie s' = mie s \<and> mip s' = mip s \<and> mideleg s' = mideleg s \<and> wfi s' = wfi s \<and> stalled s' = stalled s
    \<and> insn_on_hold s' = insn_on_hold s \<and> irq_locked s' = irq_locked s \<and> \<not> req_debug s' \<and> full_mode s' = full_mode s
    \<and> has_exception s' = has_exception s \<and> skip_irq_check s' = skip_irq_check s \<and> lsu_stall s' = lsu_stall s
    \<and> cache_sync s' = cache_sync s \<and> (core_mode s < 4 \<longrightarrow> core_mode s' < 4)"
proof -
  obtain m e where me: "irq_enabled s = (m, e)" by force
  have m: "m < 4" using me by (auto simp: irq_enabled_def Let_def PRIV_M_def PRIV_S_def split: if_splits)
  have nd: "\<not> (req_debug s \<and> \<not> debug_mode s)" using assms(1) by simp
  have s': "s' = snd (irq_check s)" using assms(2) by simp
  show ?thesis using assms(1) m unfolding s' irq_check_def if_not_P[OF nd] me
    by (simp add: Let_def on_tm_def mode_set_def)
qed

lemma irq_check_settles:
  assumes "\<not> req_debug s" "core_mode s < 4" "irq_check s = (b, s')"
  shows "\<not> irq_deliverable s' i"
proof
  assume d: "irq_deliverable s' i"
  note f = irq_check_frame[OF assms(1,3)]
  have "irq_check s' = (False, s')"
    using irq_check_arbitrates[of s] assms d by (auto split: if_splits)
  moreover have "\<exists>i. irq_deliverable s' i" using d by blast
  moreover have "\<not> (req_debug s' \<and> \<not> debug_mode s')" "core_mode s' < 4" using f assms(2) by simp_all
  ultimately show False using irq_check_arbitrates[of s'] by simp
qed

lemma exec_prologue_inv:
  assumes "iss_inv s"
  shows "iss_inv (exec_prologue s) \<and> stalled (exec_prologue s) = stalled s \<and> \<not> skip_irq_check (exec_prologue s)"
proof -
  define s2 where "s2 = (let s1 = (if pending_flush s then s\<lparr>pending_flush := False\<rparr> else s)
    in if has_exception s1 then s1\<lparr>current_insn := exception_pc s1, has_exception := False\<rparr> else s1)"
  define s3 where "s3 = (if can_switch_to_fast_mode s2 then s2\<lparr>full_mode := False\<rparr> else s2)"
  have e: "exec_prologue s = (if \<not> skip_irq_check s3 then snd (irq_check s3) else s3\<lparr>skip_irq_check := False\<rparr>)"
    by (simp add: exec_prologue_def s2_def s3_def Let_def)
  have b: "iss_base s3" "\<not> has_exception s3" "stalled s3 = stalled s" "skip_irq_check s3 = skip_irq_check s"
     "core_mode s3 = core_mode s" "mstatus s3 = mstatus s" "mideleg s3 = mideleg s"
    using assms by (simp_all add: s3_def s2_def Let_def iss_inv_def iss_base_def pending_interrupts_def)
  show ?thesis
  proof (cases "skip_irq_check s3")
    case True
    then have "core_mode s3 = PRIV_M \<and> \<not> bit (mstatus s3) MS_MIE" using assms b by (simp add: iss_inv_def)
    then have "\<not> irq_deliverable (s3\<lparr>skip_irq_check := False\<rparr>) i" for i
      by (simp add: irq_deliverable_def PRIV_M_def PRIV_S_def PRIV_U_def)
    with True b show ?thesis by (simp add: e iss_inv_def iss_base_def pending_interrupts_def)
  next
    case False
    obtain t s4 where i: "irq_check s3 = (t, s4)" by force
    have d: "\<not> req_debug s3" "core_mode s3 < 4" using b(1) by (simp_all add: iss_base_def)
    note irq_check_frame[OF d(1) i] irq_check_settles[OF d i]
    with False b i show ?thesis by (simp add: e iss_inv_def iss_base_def pending_interrupts_def)
  qed
qed

lemma handled_inv:
  assumes "decodes get_insn" "get_insn pc = Some d" "h = d_handler d \<or> h = d_fast_handler d"
    "h (d_insn d) pc s = Some (p, s1)" "iss_inv s" "stalled s = 0" "\<not> skip_irq_check s"
  shows "iss_inv (on_tm f (s1\<lparr>current_insn := p\<rparr>))" and "iss_inv (s1\<lparr>current_insn := p\<rparr>)"
proof -
  have "iss_handler h" using assms(1-3) by (auto simp: decodes_def)
  from iss_handler_inv[OF this assms(4-7)] have "iss_inv s1" by simp
  moreover have "iss_view (s1\<lparr>current_insn := p\<rparr>) = iss_view s1" by (simp add: iss_view_def)
  ultimately show "iss_inv (on_tm f (s1\<lparr>current_insn := p\<rparr>))" and "iss_inv (s1\<lparr>current_insn := p\<rparr>)"
    using iss_view_inv iss_view_simps(2) by metis+
qed

lemma handle_stall_view: "iss_view (snd (handle_stall_cycles s)) = iss_view s"
  by (simp add: handle_stall_cycles_def)

lemma instr_event_inv:
  assumes "iss_inv s" "stalled s = 0" "decodes get_insn" "instr_event fetch get_insn s = Some s'"
  shows "iss_inv s'"
proof -
  obtain b s0 where h: "handle_stall_cycles s = (b, s0)" by force
  have v: "iss_view s0 = iss_view s" using handle_stall_view[of s] h by simp
  have i: "iss_inv s0" "stalled s0 = 0" "full_mode s0 = full_mode s"
    using iss_view_inv[OF v] v assms(1,2) by (simp_all add: iss_view_def)
  show ?thesis
  proof (cases "full_mode s")
    case True
    note p = exec_prologue_inv[OF i(1)]
    show ?thesis using assms(4) True h p i(1,2) handled_inv(1)[OF assms(3) _ disjI1[OF refl], where s = "exec_prologue s0"]
      by (auto simp: instr_event_def exec_instr_check_all_def Let_def split: if_splits option.splits)
  next
    case False
    then have "\<not> skip_irq_check s0" using i(1,3) by (auto simp: iss_inv_def)
    then show ?thesis using assms(4) False h i(1,2) handled_inv(2)[OF assms(3) _ disjI2[OF refl], where s = s0]
      by (auto simp: instr_event_def exec_instr_def Let_def split: if_splits option.splits)
  qed
qed

lemma irq_line_inv:
  assumes "iss_inv s"
  shows "iss_inv (irq_line_sync irq now v s)"
proof -
  define s1 where "s1 = s\<lparr>mip := (mip s AND NOT (push_bit irq 1)) OR push_bit irq (of_bool v)\<rparr>"
  have f: "wfi s1 = wfi s" "insn_on_hold s1 = insn_on_hold s" "irq_locked s1 = irq_locked s" "stalled s1 = stalled s"
    "req_debug s1 = req_debug s" "core_mode s1 = core_mode s" "lsu_stall s1 = lsu_stall s" "cache_sync s1 = cache_sync s"
    "skip_irq_check s1 = skip_irq_check s" "full_mode s1 = full_mode s" "has_exception s1 = has_exception s" "mstatus s1 = mstatus s"
    by (simp_all add: s1_def)
  show ?thesis
  proof (cases "pending_interrupts s1 = 0")
    case True
    then have "\<not> irq_deliverable s1 i" for i
      unfolding pending_interrupts_def irq_deliverable_def by (metis bit_and_iff bit_0_eq bot_apply bot_bool_def)
    then show ?thesis unfolding irq_line_sync_def s1_def[symmetric] using True assms f
      by (simp add: check_interrupts_def iss_inv_def iss_base_def)
  next
    case False
    have h: "irq_locked s = 0" "\<not> insn_on_hold s" "wfi s \<Longrightarrow> stalled s \<noteq> 0"
      using assms by (auto simp: iss_inv_def iss_base_def)
    have "iss_view (irq_line_sync irq now v s)
        = iss_view (if wfi s then s1\<lparr>full_mode := True, wfi := False, stalled := stalled s - 1\<rparr> else s1\<lparr>full_mode := True\<rparr>)"
      unfolding irq_line_sync_def s1_def[symmetric] using False h f
      by (simp add: check_interrupts_def switch_to_full_mode_def Let_def stalled_dec_def
        iss_view_def on_tm_def)
    moreover have "iss_inv (if wfi s then s1\<lparr>full_mode := True, wfi := False, stalled := stalled s - 1\<rparr> else s1\<lparr>full_mode := True\<rparr>)"
      using assms f by (auto simp: iss_inv_def iss_base_def pending_interrupts_def)
    ultimately show ?thesis using iss_view_inv by metis
  qed
qed

lemma response_inv:
  assumes "iss_inv s" "lsu_data_response sr data chk s = Some s'"
  shows "iss_inv s'"
proof -
  obtain p where p: "lsu_stall s = Some p" using assms(2) by (auto simp: lsu_data_response_def split: option.splits)
  have "stalled s \<noteq> 0" using assms(1) p by (auto simp: iss_inv_def iss_base_def of_bool_def split: if_splits)
  then have v: "iss_view s' = iss_view (s\<lparr>stalled := stalled s - 1, lsu_stall := None\<rparr>)"
    using assms(2) p by (auto simp: lsu_data_response_def Let_def stalled_dec_def load_resume_def store_resume_def load_signed_resume_def
      iss_view_def on_tm_def on_rf_def split: if_splits)
  have "iss_inv (s\<lparr>stalled := stalled s - 1, lsu_stall := None\<rparr>)"
    using assms(1) p by (auto simp: iss_inv_def iss_base_def irq_deliverable_def pending_interrupts_def)
  then show ?thesis using iss_view_inv[OF v] by simp
qed

lemma ack_inv: "iss_inv s \<Longrightarrow> iss_inv (flush_cache_ack_sync s)"
  by (auto simp: flush_cache_ack_sync_def stalled_dec_def on_tm_def iss_inv_def iss_base_def irq_deliverable_def
      pending_interrupts_def of_bool_def split: if_splits)

lemma reach_inv: "iss_reach s \<Longrightarrow> iss_inv s"
proof (induction rule: iss_reach.induct)
  case (start s)
  then show ?case
    by (auto simp: iss_started_def iss_inv_def iss_base_def irq_deliverable_def pending_interrupts_def PRIV_M_def)
qed (use instr_event_inv irq_line_inv response_inv ack_inv in blast)+

end
