(* ===== verification/IssPrecise.thy ===== *)
theory IssPrecise imports IssInv begin

text \<open>
  The guarantees of the in-order core of theory \<open>IssExec\<close>: it behaves, at every event, as a core that
  takes exceptions and interrupts between any two instructions, it answers interrupts within its
  stall cycles, and it wakes up exactly on an enabled interrupt.
\<close>

section \<open>What the core guarantees\<close>

text \<open>C6: reachable states. However the interrupt lines, the memory and the software behave, a core that
  could take an interrupt or has an exception to take is in the mode whose event looks at them, it
  never sleeps while an enabled interrupt is pending, and it counts each reason it is stalled for
  exactly once.\<close>

theorem iss_reach_inv:
  assumes "iss_reach s"
  shows "((\<exists>i. irq_deliverable s i) \<or> has_exception s \<longrightarrow> full_mode s) \<and> (wfi s \<longrightarrow> mie s AND mip s = 0)
    \<and> stalled s = of_bool (wfi s) + of_bool (lsu_stall s \<noteq> None) + of_bool (cache_sync s) \<and> core_mode s < 4"
  using reach_inv[OF assms] by (auto simp: iss_inv_def iss_base_def pending_interrupts_def)

text \<open>The instruction the core is about to execute, were there no interrupt, and the state in which the
  next instruction executes: an ideal core, which takes exceptions and interrupts between any two
  instructions.\<close>

definition resumed :: "iss \<Rightarrow> iss" where
  "resumed s = (if has_exception s then s\<lparr>current_insn := exception_pc s, has_exception := False\<rparr> else s)"

definition ideal_next :: "iss \<Rightarrow> iss \<Rightarrow> bool" where
  "ideal_next s s1 \<longleftrightarrow> iss_regfile s1 = iss_regfile s \<and>
     (if \<exists>i. irq_deliverable s i then \<exists>i<32. irq_best s i \<and> irq_entered (resumed s) i s1
      else \<exists>fm sk pf. s1 = (resumed s)\<lparr>full_mode := fm, skip_irq_check := sk, pending_flush := pf\<rparr>)"

definition ideal_exec :: "bool \<Rightarrow> (u32 \<Rightarrow> bool) \<Rightarrow> (u32 \<Rightarrow> decoded option) \<Rightarrow> iss \<Rightarrow> iss option" where
  "ideal_exec full fetch get_insn s1 =
     (if \<not> fetch (current_insn s1) then Some s1
      else case get_insn (current_insn s1) of None \<Rightarrow> Some s1
      | Some d \<Rightarrow> if full then map_option (\<lambda>(next, s'). on_tm insn_account (s'\<lparr>current_insn := next\<rparr>))
                              (d_handler d (d_insn d) (current_insn s1) s1)
                  else map_option (\<lambda>(next, s'). s'\<lparr>current_insn := next\<rparr>)
                              (d_fast_handler d (d_insn d) (current_insn s1) s1))"

lemma irq_check_regfile: "iss_regfile (snd (irq_check s)) = iss_regfile s"
  by (simp add: irq_check_def Let_def mode_set_def split: prod.splits)

lemma irq_mode_cong:
  assumes "mie s' = mie s" "mip s' = mip s" "mideleg s' = mideleg s" "core_mode s' = core_mode s" "mstatus s' = mstatus s"
  shows "irq_deliverable s' = irq_deliverable s" "irq_best s' = irq_best s"
proof -
  show d: "irq_deliverable s' = irq_deliverable s" using assms by (intro ext) (simp add: irq_deliverable_def)
  show "irq_best s' = irq_best s" using assms by (intro ext) (simp add: irq_best_def d)
qed

lemma exec_prologue_ideal:
  assumes "iss_inv s"
  shows "ideal_next s (exec_prologue s)"
proof -
  define s3 where "s3 = (resumed s)\<lparr>pending_flush := False,
    full_mode := (if can_switch_to_fast_mode s then False else full_mode s)\<rparr>"
  have e: "exec_prologue s = (if \<not> skip_irq_check s then snd (irq_check s3) else s3\<lparr>skip_irq_check := False\<rparr>)"
    by (cases s) (auto simp: exec_prologue_def s3_def resumed_def Let_def can_switch_to_fast_mode_def)
  have f: "mie s3 = mie s" "mip s3 = mip s" "mideleg s3 = mideleg s" "core_mode s3 = core_mode s" "mstatus s3 = mstatus s"
    "req_debug s3 = req_debug s" "iss_regfile s3 = iss_regfile s"
    by (simp_all add: s3_def resumed_def)
  note c = irq_mode_cong[OF f(1-5)]
  have ent: "irq_entered s3 i s' = irq_entered (resumed s) i s'" for i s'
    by (simp add: irq_entered_def s3_def resumed_def)
  have ok: "\<not> (req_debug s3 \<and> \<not> debug_mode s3)" "core_mode s3 < 4" using assms f by (auto simp: iss_inv_def iss_base_def)
  have eq: "\<exists>fm sk pf. s3 = (resumed s)\<lparr>full_mode := fm, skip_irq_check := sk, pending_flush := pf\<rparr>"
    by (rule exI[where x = "full_mode s3"], rule exI[where x = "skip_irq_check s"], rule exI[where x = False])
       (simp add: s3_def resumed_def)
  show ?thesis
  proof (cases "skip_irq_check s")
    case True
    then have "core_mode s = PRIV_M \<and> \<not> bit (mstatus s) MS_MIE" using assms by (simp add: iss_inv_def)
    then have n: "\<not> irq_deliverable s i" for i
      by (simp add: irq_deliverable_def PRIV_M_def PRIV_S_def PRIV_U_def)
    have "\<exists>fm sk pf. s3\<lparr>skip_irq_check := False\<rparr> = (resumed s)\<lparr>full_mode := fm, skip_irq_check := sk, pending_flush := pf\<rparr>"
      by (rule exI[where x = "full_mode s3"], rule exI[where x = "False"], rule exI[where x = False]) (simp add: s3_def)
    with True n f(7) show ?thesis by (simp add: ideal_next_def e)
  next
    case False
    obtain t s4 where i: "irq_check s3 = (t, s4)" by force
    have e4: "exec_prologue s = s4" using False i by (simp add: e)
    have r: "iss_regfile s4 = iss_regfile s" using irq_check_regfile[of s3] f(7) i by simp
    show ?thesis
    proof (cases "\<exists>i. irq_deliverable s i")
      case True
      then show ?thesis using irq_check_arbitrates[OF ok] i r unfolding ideal_next_def e4 c ent by simp
    next
      case False
      then have "s4 = s3" using irq_check_arbitrates[OF ok] i unfolding c by simp
      then show ?thesis using eq r unfolding ideal_next_def e4 if_not_P[OF False] by simp
    qed
  qed
qed

lemma handle_no_stall: "stall_cycles (iss_timing s) \<le> 0 \<Longrightarrow> handle_stall_cycles s = (False, s)"
  by (simp add: handle_stall_cycles_def)

lemma ideal_next_same:
  assumes "\<not> has_exception s" "\<not> (\<exists>i. irq_deliverable s i)"
  shows "ideal_next s s"
proof -
  have "s = s\<lparr>full_mode := full_mode s, skip_irq_check := skip_irq_check s, pending_flush := pending_flush s\<rparr>" by simp
  then have "\<exists>fm sk pf. s = s\<lparr>full_mode := fm, skip_irq_check := sk, pending_flush := pf\<rparr>" by blast
  then show ?thesis unfolding ideal_next_def resumed_def if_not_P[OF assms(1)] if_not_P[OF assms(2)] by blast
qed

text \<open>C1: refinement. In every reachable state in which it is neither stalled nor waiting for cycles, the
  event of the core, the fast one included, executes one instruction as the ideal core does: of the
  interrupts that can be delivered it enters the best one, with the address where the program
  would have continued, and otherwise it goes on at the entry of a pending exception or at the next
  instruction.\<close>

theorem traps_precise:
  assumes "iss_reach s" "stalled s = 0" "stall_cycles (iss_timing s) \<le> 0"
  shows "\<exists>s1. ideal_next s s1 \<and> instr_event fetch get_insn s = ideal_exec (full_mode s) fetch get_insn s1"
proof (cases "full_mode s")
  case True
  then show ?thesis using exec_prologue_ideal[OF reach_inv[OF assms(1)]] handle_no_stall[OF assms(3)]
    by (intro exI[where x = "exec_prologue s"])
       (simp add: instr_event_def exec_instr_check_all_def ideal_exec_def Let_def split: option.splits)
next
  case False
  then have q: "\<not> has_exception s" "\<not> irq_deliverable s i" for i using reach_inv[OF assms(1)] by (auto simp: iss_inv_def)
  have n: "ideal_next s s" by (rule ideal_next_same) (use q in auto)
  have "instr_event fetch get_insn s = ideal_exec (full_mode s) fetch get_insn s"
    using False handle_no_stall[OF assms(3)]
    by (simp add: instr_event_def exec_instr_def ideal_exec_def Let_def split: option.splits)
  with n show ?thesis by blast
qed

fun instr_events :: "(u32 \<Rightarrow> bool) \<Rightarrow> (u32 \<Rightarrow> decoded option) \<Rightarrow> nat \<Rightarrow> iss \<Rightarrow> iss option" where
  "instr_events fetch get_insn 0 s = Some s"
| "instr_events fetch get_insn (Suc n) s = Option.bind (instr_event fetch get_insn s) (instr_events fetch get_insn n)"

definition no_more_stalls :: "iss \<Rightarrow> iss" where
  "no_more_stalls s = on_tm (\<lambda>t. t\<lparr>stall_cycles := min 0 (stall_cycles t)\<rparr>) s"

lemma instr_event_stall:
  "0 < stall_cycles (iss_timing s)
    \<Longrightarrow> instr_event fetch get_insn s = Some (on_tm (\<lambda>t. t\<lparr>stall_cycles := stall_cycles t - 1\<rparr>) s)"
  by (simp add: instr_event_def exec_instr_def exec_instr_check_all_def handle_stall_cycles_def)

lemma instr_events_last:
  "instr_events fetch get_insn (Suc n) s = Option.bind (instr_events fetch get_insn n s) (instr_event fetch get_insn)"
proof (induction n arbitrary: s)
  case 0
  show ?case by (cases "instr_event fetch get_insn s") simp_all
next
  case (Suc n)
  show ?case using Suc.IH by (cases "instr_event fetch get_insn s") (simp_all del: instr_events.simps add: instr_events.simps(2)[of _ _ "Suc n"] instr_events.simps(2)[of _ _ n s])
qed

lemma stall_events:
  "nat (stall_cycles (iss_timing s)) = n \<Longrightarrow> instr_events fetch get_insn n s = Some (no_more_stalls s)"
proof (induction n arbitrary: s)
  case 0
  then show ?case by (simp add: no_more_stalls_def on_tm_def min_def)
next
  case (Suc n)
  let ?t = "on_tm (\<lambda>t. t\<lparr>stall_cycles := stall_cycles t - 1\<rparr>) s"
  have p: "stall_cycles (iss_timing s) > 0" using Suc.prems by simp
  have "instr_event fetch get_insn s = Some ?t" using instr_event_stall[OF p] .
  moreover have "instr_events fetch get_insn n ?t = Some (no_more_stalls ?t)" using Suc by simp
  moreover have "no_more_stalls ?t = no_more_stalls s" using p by (simp add: no_more_stalls_def on_tm_def)
  ultimately show ?case by simp
qed

lemma no_more_stalls_ideal: "ideal_next (no_more_stalls s) s1 \<Longrightarrow> \<exists>i. irq_deliverable s i
   \<Longrightarrow> \<exists>i<32. irq_best s i \<and> irq_entered (resumed s) i s1"
proof -
  assume a: "ideal_next (no_more_stalls s) s1" "\<exists>i. irq_deliverable s i"
  have f: "mie (no_more_stalls s) = mie s" "mip (no_more_stalls s) = mip s" "mideleg (no_more_stalls s) = mideleg s"
    "core_mode (no_more_stalls s) = core_mode s" "mstatus (no_more_stalls s) = mstatus s" by (simp_all add: no_more_stalls_def)
  have "irq_entered (resumed (no_more_stalls s)) i s1 = irq_entered (resumed s) i s1" for i
    by (simp add: irq_entered_def resumed_def no_more_stalls_def on_tm_def)
  with a irq_mode_cong[OF f] show ?thesis by (simp add: ideal_next_def)
qed

lemma stall_reach:
  assumes "iss_reach s" "stalled s = 0" "decodes get_insn"
  shows "iss_reach (no_more_stalls s)"
proof -
  have "instr_events fetch get_insn n s = Some s' \<Longrightarrow> nat (stall_cycles (iss_timing s)) = n \<Longrightarrow> iss_reach s \<Longrightarrow> stalled s = 0
      \<Longrightarrow> iss_reach s'" for fetch n s s'
  proof (induction n arbitrary: s)
    case (Suc n)
    let ?t = "on_tm (\<lambda>t. t\<lparr>stall_cycles := stall_cycles t - 1\<rparr>) s"
    have i: "instr_event fetch get_insn s = Some ?t" by (rule instr_event_stall) (use Suc.prems(2) in simp)
    have "iss_reach ?t" using iss_reach.instr[OF Suc.prems(3,4) assms(3) i] .
    then show ?case using Suc.IH[of ?t] Suc.prems i by simp
  qed simp
  from this[OF stall_events[OF refl] refl assms(1,2)] show ?thesis .
qed

lemma irq_response:
  assumes "iss_reach s" "stalled s = 0" "irq_deliverable s k" "decodes get_insn"
  shows "\<exists>i<32. \<exists>s1. irq_best s i \<and> irq_entered (resumed s) i s1
    \<and> instr_events fetch get_insn (Suc (nat (stall_cycles (iss_timing s)))) s = ideal_exec True fetch get_insn s1"
proof -
  let ?s0 = "no_more_stalls s"
  have r: "iss_reach ?s0" using stall_reach[OF assms(1,2,4)] .
  have l: "stall_cycles (iss_timing ?s0) \<le> 0" "stalled ?s0 = 0" using assms(2) by (simp_all add: no_more_stalls_def)
  have fm: "full_mode ?s0" using reach_inv[OF assms(1)] assms(3) by (auto simp: iss_inv_def no_more_stalls_def)
  obtain i where i: "i < 32" "irq_best s i" "irq_entered (resumed s) i (exec_prologue ?s0)"
    using no_more_stalls_ideal[OF exec_prologue_ideal[OF reach_inv[OF r]]] assms(3) by blast
  have "instr_event fetch get_insn ?s0 = ideal_exec True fetch get_insn (exec_prologue ?s0)"
    using fm handle_no_stall[OF l(1)]
    by (simp add: instr_event_def exec_instr_check_all_def ideal_exec_def Let_def split: option.splits)
  then show ?thesis using i unfolding instr_events_last stall_events[OF refl] by auto
qed

text \<open>C21: bounded response. An interrupt that can be delivered while the core is not stalled is entered
  by event number \<open>stall_cycles + 1\<close>, for every content of the instruction memory: the events before
  only count the stall cycles down, and that one executes the instruction at the vector.\<close>

theorem irq_bounded_response:
  assumes "iss_reach s" "stalled s = 0" "irq_deliverable s k" "decodes get_insn"
  shows "\<exists>i<32. \<exists>s1. irq_best s i \<and> irq_entered (resumed s) i s1
    \<and> instr_events fetch get_insn (Suc (nat (stall_cycles (iss_timing s)))) s = ideal_exec True fetch get_insn s1"
  using assms by (rule irq_response)

lemma line_wakes:
  assumes "iss_reach s" "wfi s" "irq < 32"
  shows "let s' = irq_line_sync irq now v s in
    (wfi s' \<longleftrightarrow> \<not> (v \<and> bit (mie s) irq)) \<and> stalled s' = stalled s - of_bool (\<not> wfi s') \<and> (\<not> wfi s' \<longrightarrow> full_mode s')"
proof -
  note inv = reach_inv[OF assms(1)]
  have l: "irq_locked s = 0" "\<not> insn_on_hold s" "stalled s \<noteq> 0" "mie s AND mip s = 0"
    using inv assms(2) by (auto simp: iss_inv_def iss_base_def pending_interrupts_def)
  define s1 where "s1 = s\<lparr>mip := (mip s AND NOT (push_bit irq 1)) OR push_bit irq (of_bool v)\<rparr>"
  have old: "\<not> (bit (mie s) j \<and> bit (mip s) j)" for j using l(4) by (metis bit_and_iff bit_0_eq bot_apply bot_bool_def)
  have "bit (pending_interrupts s1) j \<longleftrightarrow> j = irq \<and> v \<and> bit (mie s) irq" for j
    using old[of j] assms(3) by (auto simp: pending_interrupts_def s1_def bit_simps dest: bit_imp_le_length)
  then have p: "pending_interrupts s1 = 0 \<longleftrightarrow> \<not> (v \<and> bit (mie s) irq)"
    by (metis bit_0_eq bot_apply bot_bool_def bit_word_eqI)
  show ?thesis unfolding irq_line_sync_def s1_def[symmetric] Let_def
    using p l assms(2) by (simp add: check_interrupts_def Let_def stalled_dec_def s1_def)
qed

text \<open>Sleep. A core that executed \<open>wfi\<close> is woken up by a line exactly when the line is raised and its
  interrupt is enabled in \<open>mie\<close>, whatever the global enables; it then has one reason less to be
  stalled and its next event looks at the interrupts.\<close>

theorem wfi_wake_up:
  assumes "iss_reach s" "wfi s" "irq < 32"
  shows "let s' = irq_line_sync irq now v s in
    (wfi s' \<longleftrightarrow> \<not> (v \<and> bit (mie s) irq)) \<and> stalled s' = stalled s - of_bool (\<not> wfi s') \<and> (\<not> wfi s' \<longrightarrow> full_mode s')"
  using assms by (rule line_wakes)

section \<open>Examples\<close>

definition demo_started :: iss where "demo_started = demo_iss\<lparr>skip_irq_check := True\<rparr>"

lemma demo_reach: "iss_reach demo_started"
  by (rule iss_reach.start) (simp add: iss_started_def demo_started_def demo_iss_def PRIV_M_def)

lemma demo_decodes: "decodes (\<lambda>_. None)" by (simp add: decodes_def)

text \<open>The software of the examples enables the software interrupt, then interrupts, and sleeps.\<close>

definition csr_set :: "u32 \<Rightarrow> decoded" where
  "csr_set c = \<lparr>d_insn = \<lparr>out_regs = [0], in_regs = [], uim = [c, 8], sim = [], insn_size = 4\<rparr>,
     d_handler = csrrsi_exec 7, d_fast_handler = csrrsi_exec 7\<rparr>"

definition demo_wfi :: decoded where
  "demo_wfi = \<lparr>d_insn = \<lparr>out_regs = [], in_regs = [], uim = [], sim = [], insn_size = 4\<rparr>,
     d_handler = total (wfi_exec 9), d_fast_handler = total (wfi_exec 9)\<rparr>"

definition demo_code :: "u32 \<Rightarrow> decoded option" where
  "demo_code pc = (if pc = 0x100 then Some (csr_set 0x304) else if pc = 0x104 then Some (csr_set 0x300)
     else if pc = 0x108 then Some demo_wfi else None)"

lemma demo_code_decodes: "decodes demo_code"
  by (auto simp: decodes_def demo_code_def csr_set_def demo_wfi_def intro: iss_handler.intros)

definition demo_enabled :: iss where
  "demo_enabled = demo_iss\<lparr>mie := 8, mstatus := 0x6008, irq_enable := True, current_insn := 0x108, 
     iss_timing := demo_timing\<lparr>stall_cycles := 3\<rparr>\<rparr>"

lemmas demo_simps = instr_event_def exec_instr_check_all_def handle_stall_cycles_def demo_started_def demo_iss_def
   demo_timing_def Let_def exec_prologue_def can_switch_to_fast_mode_def demo_code_def csr_set_def demo_wfi_def csrrsi_exec_def
   csr_handle_def get_csr_def csr_check_access_def iss_csr_read_def iss_csr_write_def mie_access_def check_interrupts_def
   pending_interrupts_def switch_to_full_mode_def iss_insn_next_def on_tm_def on_rf_def insn_account_def event_account_def
   irq_check_def total_def wfi_exec_def wfi_handle_def core_mstatus_update_def irq_global_enable_def
   mstatus_write_mask_def stall_insn_dependency_account_def stall_cycles_account_def PRIV_M_def PRIV_U_def exec_instr_def
   no_more_stalls_def demo_enabled_def

lemma demo_run1: "instr_event (\<lambda>_. True) demo_code demo_started = Some (demo_iss\<lparr>mie := 8, current_insn := 0x104\<rparr>)"
  by (simp add: demo_simps)

lemma demo_run2: "instr_event (\<lambda>_. True) demo_code (demo_iss\<lparr>mie := 8, current_insn := 0x104\<rparr>) = Some demo_enabled"
  by (simp add: demo_simps)

lemma demo_run3: "instr_event (\<lambda>_. True) demo_code (no_more_stalls demo_enabled)
   = Some ((no_more_stalls demo_enabled)\<lparr>current_insn := 0x10c, full_mode := False, wfi := True, wfi_start := 9, stalled := 1, busy := False\<rparr>)"
  by (simp add: demo_simps)

lemma demo_enabled_reach: "iss_reach demo_enabled"
  using iss_reach.instr[OF iss_reach.instr[OF demo_reach _ demo_code_decodes demo_run1] _ demo_code_decodes demo_run2]
  by (simp add: demo_started_def demo_iss_def)

lemma demo_asleep_reach:
  "iss_reach ((no_more_stalls demo_enabled)\<lparr>current_insn := 0x10c, full_mode := False, wfi := True, wfi_start := 9, stalled := 1, busy := False\<rparr>)"
  by (rule iss_reach.instr[OF stall_reach[OF demo_enabled_reach _ demo_code_decodes] _ demo_code_decodes demo_run3])
     (simp_all add: demo_simps)

lemma demo_pending: "iss_reach (irq_line_sync 3 20 True demo_enabled)" "stalled (irq_line_sync 3 20 True demo_enabled) = 0"
   "stall_cycles (iss_timing (irq_line_sync 3 20 True demo_enabled)) = 3"
   "irq_deliverable (irq_line_sync 3 20 True demo_enabled) 3"
  by (rule iss_reach.line[OF demo_enabled_reach]) (simp_all add: irq_line_sync_def irq_deliverable_def demo_simps)

theorem iss_reach_inv_witness: "full_mode (irq_line_sync 3 20 True demo_enabled)"
  using iss_reach_inv[OF demo_pending(1)] demo_pending(4) by blast

theorem traps_precise_witness:
  "\<exists>s1. ideal_next (no_more_stalls (irq_line_sync 3 20 True demo_enabled)) s1"
  using traps_precise[OF stall_reach[OF demo_pending(1,2) demo_code_decodes]] demo_pending(2)
  by (auto simp: no_more_stalls_def)

theorem irq_bounded_response_witness:
  "\<exists>i<32. irq_best (irq_line_sync 3 20 True demo_enabled) i \<and> (\<exists>s1. instr_events (\<lambda>_. True) demo_code 4
      (irq_line_sync 3 20 True demo_enabled) = ideal_exec True (\<lambda>_. True) demo_code s1)"
  using irq_bounded_response[OF demo_pending(1,2,4) demo_code_decodes, of "\<lambda>_. True"] demo_pending(3)
  by (auto simp del: instr_events.simps)

theorem wfi_wake_up_witness:
  "\<not> wfi (irq_line_sync 3 20 True ((no_more_stalls demo_enabled)\<lparr>current_insn := 0x10c, full_mode := False, wfi := True,
      wfi_start := 9, stalled := 1, busy := False\<rparr>))"
  using wfi_wake_up[OF demo_asleep_reach, of 3 20 True] by (simp add: Let_def demo_simps)

end
