(* ===== verification/Plic.thy ===== *)
theory Plic imports Prelude begin

text \<open>
  The platform-level interrupt controller (\<open>src/models/cpu/plic.cpp\<close>). The arrays of the code have 1024
  entries and the controller at most 1023 devices, so that every index it computes is in range; they are
  functions here. The interrupt lines that an operation drives are part of its result, in order.
\<close>

section \<open>State\<close>

text \<open>Arrays of one bit per interrupt source, in words of 32 bits.\<close>

definition has_id :: "(nat \<Rightarrow> u32) \<Rightarrow> nat \<Rightarrow> bool" where
  "has_id f i = bit (f (i div 32)) (i mod 32)"
definition set_id :: "nat \<Rightarrow> (nat \<Rightarrow> u32) \<Rightarrow> nat \<Rightarrow> u32" where
  "set_id i f = f(i div 32 := f (i div 32) OR push_bit (i mod 32) 1)"
definition clear_id :: "nat \<Rightarrow> (nat \<Rightarrow> u32) \<Rightarrow> nat \<Rightarrow> u32" where
  "clear_id i f = f(i div 32 := f (i div 32) AND NOT (push_bit (i mod 32) 1))"

record plic_context =
  pc_proc_id :: nat
  pc_mmode :: bool
  pc_threshold :: u8
  pc_enable :: "nat \<Rightarrow> u32"
  pc_pending :: "nat \<Rightarrow> u32"
  pc_pending_priority :: "nat \<Rightarrow> u8"
  pc_claimed :: "nat \<Rightarrow> u32"

record plic =
  pl_contexts :: "plic_context list"
  pl_num_ids :: nat
  pl_max_prio :: nat
  pl_priority :: "nat \<Rightarrow> u8"
  pl_level :: "nat \<Rightarrow> u32"

definition PLIC_PRIO_BITS :: nat where "PLIC_PRIO_BITS = 4"
definition ENABLE_BASE :: nat where "ENABLE_BASE = 0x2000"
definition ENABLE_PER_HART :: nat where "ENABLE_PER_HART = 0x80"
definition CONTEXT_BASE :: nat where "CONTEXT_BASE = 0x200000"
definition CONTEXT_PER_HART :: nat where "CONTEXT_PER_HART = 0x1000"
definition CONTEXT_THRESHOLD :: nat where "CONTEXT_THRESHOLD = 0"
definition CONTEXT_CLAIM :: nat where "CONTEXT_CLAIM = 4"
definition REG_SIZE :: nat where "REG_SIZE = 0x1000000"

text \<open>One hart with a machine and a supervisor context.\<close>

definition plic_init :: "nat \<Rightarrow> plic" where
  "plic_init ndev =
     \<lparr>pl_contexts = map (\<lambda>i. \<lparr>pc_proc_id = i div 2, pc_mmode = (i mod 2 = 0), pc_threshold = 0, pc_enable = (\<lambda>_. 0),
         pc_pending = (\<lambda>_. 0), pc_pending_priority = (\<lambda>_. 0), pc_claimed = (\<lambda>_. 0)\<rparr>) [0..<2],
      pl_num_ids = ndev + 1, pl_max_prio = 2 ^ PLIC_PRIO_BITS - 1, pl_priority = (\<lambda>_. 0), pl_level = (\<lambda>_. 0)\<rparr>"

definition num_ids_word :: "nat \<Rightarrow> nat" where
  "num_ids_word num_ids = (if num_ids div 32 * 32 < num_ids then num_ids div 32 + 1 else num_ids div 32)"

section \<open>Operations on a context\<close>

definition best_step :: "nat \<Rightarrow> plic_context \<Rightarrow> nat \<Rightarrow> nat \<times> u8 \<Rightarrow> nat \<times> u8" where
  "best_step num_ids c i b =
     (if num_ids \<le> i \<or> \<not> has_id (pc_pending c) i \<or> has_id (pc_claimed c) i then b
      else if fst b = 0 \<or> snd b < pc_pending_priority c i then (i, pc_pending_priority c i) else b)"

definition context_best_pending :: "nat \<Rightarrow> plic_context \<Rightarrow> nat" where
  "context_best_pending num_ids c =
     fst (fold (\<lambda>i b. if pc_pending c i = 0 then b
                      else fold (\<lambda>j. best_step num_ids c (i * 32 + j)) [0..<32] b)
               [0..<num_ids_word num_ids] (0, 0))"

text \<open>An output: the mode of the line, the hart and the level it is driven to.\<close>

type_synonym plic_out = "(bool \<times> nat) \<times> bool"

definition context_line :: "plic_context \<Rightarrow> bool \<times> nat" where "context_line c = (pc_mmode c, pc_proc_id c)"

definition context_update :: "nat \<Rightarrow> plic_context \<Rightarrow> plic_out list" where
  "context_update num_ids c = [(context_line c, context_best_pending num_ids c \<noteq> 0)]"

definition context_claim :: "nat \<Rightarrow> plic_context \<Rightarrow> nat \<times> plic_out list \<times> plic_context" where
  "context_claim num_ids c =
     (let best_id = context_best_pending num_ids c;
          c1 = (if best_id \<noteq> 0 then c\<lparr>pc_claimed := set_id best_id (pc_claimed c)\<rparr> else c)
      in (best_id, context_update num_ids c1, c1))"

definition priority_read :: "nat \<Rightarrow> plic \<Rightarrow> u32" where
  "priority_read offset s =
     (let i = offset div 4 in if 0 < i \<and> i < pl_num_ids s then ucast (pl_priority s i) else 0)"

definition priority_write :: "nat \<Rightarrow> u32 \<Rightarrow> plic \<Rightarrow> plic" where
  "priority_write offset v s =
     (let i = offset div 4
      in if 0 < i \<and> i < pl_num_ids s
         then s\<lparr>pl_priority := (pl_priority s)(i := ucast (v AND (push_bit PLIC_PRIO_BITS 1 - 1)))\<rparr> else s)"

definition context_enable_read :: "nat \<Rightarrow> plic_context \<Rightarrow> nat \<Rightarrow> u32" where
  "context_enable_read num_ids c offset =
     (let id_word = offset div 4 in if id_word < num_ids_word num_ids then pc_enable c id_word else 0)"

definition enable_step :: "(nat \<Rightarrow> u8) \<Rightarrow> (nat \<Rightarrow> u32) \<Rightarrow> u32 \<Rightarrow> u32 \<Rightarrow> nat \<Rightarrow> nat \<Rightarrow> plic_context \<Rightarrow> plic_context" where
  "enable_step priority level xor_val new_val id_word i c =
     (let k = id_word * 32 + i in
      if \<not> bit xor_val i then c
      else if bit new_val i \<and> bit (level id_word) i
      then c\<lparr>pc_pending := set_id k (pc_pending c), pc_pending_priority := (pc_pending_priority c)(k := priority k)\<rparr>
      else if \<not> bit new_val i
      then c\<lparr>pc_pending := clear_id k (pc_pending c), pc_pending_priority := (pc_pending_priority c)(k := 0),
             pc_claimed := clear_id k (pc_claimed c)\<rparr>
      else c)"

definition context_enable_write :: "plic \<Rightarrow> plic_context \<Rightarrow> nat \<Rightarrow> u32 \<Rightarrow> plic_out list \<times> plic_context" where
  "context_enable_write s c offset v =
     (let id_word = offset div 4 in
      if id_word \<ge> num_ids_word (pl_num_ids s) then ([], c)
      else
       (let old_val = pc_enable c id_word;
            new_val = (if id_word = 0 then v AND NOT 1 else v);
            xor_val = old_val XOR new_val;
            c1 = c\<lparr>pc_enable := (pc_enable c)(id_word := new_val)\<rparr>;
            c2 = fold (enable_step (pl_priority s) (pl_level s) xor_val new_val id_word) [0..<32] c1
        in (context_update (pl_num_ids s) c2, c2)))"

definition context_read :: "nat \<Rightarrow> plic_context \<Rightarrow> nat \<Rightarrow> u32 \<times> plic_out list \<times> plic_context" where
  "context_read num_ids c offset =
     (if offset = CONTEXT_THRESHOLD then (ucast (pc_threshold c), [], c)
      else if offset = CONTEXT_CLAIM
      then (let (i, outs, c1) = context_claim num_ids c in (of_nat i, outs, c1))
      else (0, [], c))"

definition context_write :: "plic \<Rightarrow> plic_context \<Rightarrow> nat \<Rightarrow> u32 \<Rightarrow> bool \<times> plic_out list \<times> plic_context" where
  "context_write s c offset v =
     (if offset = CONTEXT_THRESHOLD
      then (let v1 = v AND (push_bit PLIC_PRIO_BITS 1 - 1)
            in if unat v1 \<le> pl_max_prio s then (True, [], c\<lparr>pc_threshold := ucast v1\<rparr>)
               else (True, context_update (pl_num_ids s) c, c))
      else if offset = CONTEXT_CLAIM
      then (if unat v < pl_num_ids s \<and> has_id (pc_enable c) (unat v)
            then (let c1 = c\<lparr>pc_claimed := clear_id (unat v) (pc_claimed c)\<rparr>
                  in (True, context_update (pl_num_ids s) c1, c1))
            else (True, [], c))
      else (False, context_update (pl_num_ids s) c, c))"

section \<open>Interrupt sources and bus accesses\<close>

text \<open>Only the first context that enables the source is told.\<close>

fun irq_sync_contexts :: "nat \<Rightarrow> nat \<Rightarrow> u8 \<Rightarrow> bool \<Rightarrow> plic_context list \<Rightarrow> plic_out list \<times> plic_context list" where
  "irq_sync_contexts num_ids i id_prio active [] = ([], [])"
| "irq_sync_contexts num_ids i id_prio active (c # cs) =
     (if has_id (pc_enable c) i then
        (let c1 = (if active
                   then c\<lparr>pc_pending := set_id i (pc_pending c),
                          pc_pending_priority := (pc_pending_priority c)(i := id_prio)\<rparr>
                   else c\<lparr>pc_pending := clear_id i (pc_pending c),
                          pc_pending_priority := (pc_pending_priority c)(i := 0),
                          pc_claimed := clear_id i (pc_claimed c)\<rparr>)
         in (context_update num_ids c1, c1 # cs))
      else (let (outs, cs1) = irq_sync_contexts num_ids i id_prio active cs in (outs, c # cs1)))"

definition plic_irq_sync :: "bool \<Rightarrow> nat \<Rightarrow> plic \<Rightarrow> plic_out list \<times> plic" where
  "plic_irq_sync active port s =
     (let i = port + 1;
          s1 = s\<lparr>pl_level := (if active then set_id i (pl_level s) else clear_id i (pl_level s))\<rparr>;
          (outs, cs) = irq_sync_contexts (pl_num_ids s) i (pl_priority s i) active (pl_contexts s1)
      in (outs, s1\<lparr>pl_contexts := cs\<rparr>))"

text \<open>The bytes read, if any, and whether the access succeeded.\<close>

definition plic_load4 :: "u64 \<Rightarrow> plic \<Rightarrow> bool \<times> bytes \<times> plic_out list \<times> plic" where
  "plic_load4 a s =
     (let addr = unat a; ok = (\<lambda>v outs s1. (True, le_bytes 4 (ucast (v :: u32)), outs, s1)) in
      if addr < ENABLE_BASE then ok (priority_read addr s) [] s
      else if addr < CONTEXT_BASE then
       (let cntx = (addr - ENABLE_BASE) div ENABLE_PER_HART; off = addr - (cntx * ENABLE_PER_HART + ENABLE_BASE)
        in if cntx < length (pl_contexts s)
           then ok (context_enable_read (pl_num_ids s) (pl_contexts s ! cntx) off) [] s
           else (False, [], [], s))
      else if addr < REG_SIZE then
       (let cntx = (addr - CONTEXT_BASE) div CONTEXT_PER_HART; off = addr - (cntx * CONTEXT_PER_HART + CONTEXT_BASE)
        in if cntx < length (pl_contexts s)
           then (let (v, outs, c1) = context_read (pl_num_ids s) (pl_contexts s ! cntx) off
                 in ok v outs (s\<lparr>pl_contexts := (pl_contexts s)[cntx := c1]\<rparr>))
           else (False, [], [], s))
      else (False, [], [], s))"

definition plic_load :: "u64 \<Rightarrow> nat \<Rightarrow> plic \<Rightarrow> bool \<times> bytes \<times> plic_out list \<times> plic" where
  "plic_load a len s =
     (if len = 4 then plic_load4 a s
      else if len = 8 then
       (let (ok1, bs1, outs1, s1) = plic_load4 a s
        in if \<not> ok1 then (False, bs1, outs1, s1)
           else (let (ok2, bs2, outs2, s2) = plic_load4 (a + 4) s1 in (ok2, bs1 @ bs2, outs1 @ outs2, s2)))
      else (False, [], [], s))"

definition plic_store4 :: "u64 \<Rightarrow> bytes \<Rightarrow> plic \<Rightarrow> bool \<times> plic_out list \<times> plic" where
  "plic_store4 a bs s =
     (let addr = unat a; v = ucast (le_word (take 4 bs)) :: u32 in
      if addr < ENABLE_BASE then (True, [], priority_write addr v s)
      else if addr < CONTEXT_BASE then
       (let cntx = (addr - ENABLE_BASE) div ENABLE_PER_HART; off = addr - (cntx * ENABLE_PER_HART + ENABLE_BASE)
        in if cntx < length (pl_contexts s)
           then (let (outs, c1) = context_enable_write s (pl_contexts s ! cntx) off v
                 in (True, outs, s\<lparr>pl_contexts := (pl_contexts s)[cntx := c1]\<rparr>))
           else (False, [], s))
      else if addr < REG_SIZE then
       (let cntx = (addr - CONTEXT_BASE) div CONTEXT_PER_HART; off = addr - (cntx * CONTEXT_PER_HART + CONTEXT_BASE)
        in if cntx < length (pl_contexts s)
           then (let (ok, outs, c1) = context_write s (pl_contexts s ! cntx) off v
                 in (ok, outs, s\<lparr>pl_contexts := (pl_contexts s)[cntx := c1]\<rparr>))
           else (False, [], s))
      else (False, [], s))"

definition plic_store :: "u64 \<Rightarrow> nat \<Rightarrow> bytes \<Rightarrow> plic \<Rightarrow> bool \<times> plic_out list \<times> plic" where
  "plic_store a len bs s =
     (if len = 4 then plic_store4 a bs s
      else if len = 8 then
       (let (ok1, outs1, s1) = plic_store4 a bs s
        in if \<not> ok1 then (False, outs1, s1)
           else (let (ok2, outs2, s2) = plic_store4 (a + 4) (drop 4 bs) s1 in (ok2, outs1 @ outs2, s2)))
      else (False, [], s))"

section \<open>Bits\<close>

lemma has_id_set [simp]: "has_id (set_id i f) j = (j = i \<or> has_id f j)"
proof -
  have "i mod 32 < 32" by simp
  moreover have "(i div 32 = j div 32 \<and> i mod 32 = j mod 32) = (j = i)" by (metis mod_div_decomp)
  ultimately show ?thesis by (auto simp: has_id_def set_id_def bit_simps)
qed

lemma has_id_clear [simp]: "has_id (clear_id i f) j = (j \<noteq> i \<and> has_id f j)"
proof -
  have "i mod 32 < 32" "j mod 32 < 32" by simp_all
  moreover have "(i div 32 = j div 32 \<and> i mod 32 = j mod 32) = (j = i)" by (metis mod_div_decomp)
  ultimately show ?thesis by (auto simp: has_id_def clear_id_def bit_simps dest: bit_imp_le_length)
qed

lemma has_id_0 [simp]: "\<not> has_id (\<lambda>_. 0) i" by (simp add: has_id_def)

lemma ids_ext:
  assumes "\<And>i. has_id f i = has_id g i"
  shows "f = g"
proof
  fix w
  show "f w = g w"
  proof (rule bit_word_eqI)
    fix n assume "n < LENGTH(32)"
    then show "bit (f w) n = bit (g w) n" using assms[of "w * 32 + n"] by (simp add: has_id_def)
  qed
qed

lemma clear_set_id: "\<not> has_id f i \<Longrightarrow> clear_id i (set_id i f) = f"
  by (rule ids_ext) auto

section \<open>The best pending interrupt\<close>

text \<open>The sources a context can be interrupted by, and which one is the best: the highest of the
  priorities they were latched with, the lowest number among equals. 0 when there is none.\<close>

definition plic_cand :: "nat \<Rightarrow> plic_context \<Rightarrow> nat \<Rightarrow> bool" where
  "plic_cand n c i \<longleftrightarrow> 0 < i \<and> i < n \<and> has_id (pc_pending c) i \<and> \<not> has_id (pc_claimed c) i"

definition plic_best :: "nat \<Rightarrow> plic_context \<Rightarrow> nat \<Rightarrow> bool" where
  "plic_best n c i \<longleftrightarrow> plic_cand n c i \<and> (\<forall>j. plic_cand n c j \<longrightarrow>
     pc_pending_priority c j < pc_pending_priority c i \<or> pc_pending_priority c j = pc_pending_priority c i \<and> i \<le> j)"

lemma best_steps_idle: "pc_pending c w = 0 \<Longrightarrow> fold (\<lambda>j. best_step n c (w * 32 + j)) [0..<k] b = b" if "k \<le> 32"
  using that by (induction k arbitrary: b) (auto simp: best_step_def has_id_def)

lemma best_pending_flat:
  "fold (\<lambda>i b. if pc_pending c i = 0 then b else fold (\<lambda>j. best_step n c (i * 32 + j)) [0..<32] b) [0..<w] b
     = fold (best_step n c) [0..<w * 32] b"
proof (induction w)
  case (Suc w)
  have "[0..<Suc w * 32] = [0..<w * 32] @ map (\<lambda>j. w * 32 + j) [0..<32]"
    using upt_add_eq_append[of 0 "w * 32" 32] by (simp add: map_add_upt[of "w * 32" 32] add.commute)
  then have "fold (best_step n c) [0..<Suc w * 32] b
      = fold (\<lambda>j. best_step n c (w * 32 + j)) [0..<32] (fold (best_step n c) [0..<w * 32] b)"
    by (simp only: fold_append comp_apply fold_map comp_def)
  then show ?case using Suc best_steps_idle[of 32 c w n] unfolding upt_Suc_append[OF le0]
    by (simp del: upt_rec_numeral mult_Suc)
qed simp

text \<open>What the scan has found among the sources below \<open>k\<close>.\<close>

definition best_below :: "nat \<Rightarrow> plic_context \<Rightarrow> nat \<Rightarrow> nat \<times> u8 \<Rightarrow> bool" where
  "best_below n c k b \<longleftrightarrow> (if \<exists>j<k. plic_cand n c j
     then fst b < k \<and> plic_cand n c (fst b) \<and> snd b = pc_pending_priority c (fst b) \<and> (\<forall>j<k. plic_cand n c j \<longrightarrow>
        pc_pending_priority c j < snd b \<or> pc_pending_priority c j = snd b \<and> fst b \<le> j)
     else fst b = 0)"

lemma best_below_step:
  assumes "best_below n c k b"
  shows "best_below n c (Suc k) (best_step n c k b)"
proof (cases "plic_cand n c k")
  case True
  then show ?thesis using assms
    by (auto simp: best_below_def best_step_def plic_cand_def less_Suc_eq not_less split: if_splits)
next
  case False
  then show ?thesis using assms
    by (auto simp: best_below_def best_step_def plic_cand_def less_Suc_eq split: if_splits)
qed

lemma best_below_fold: "best_below n c k (fold (best_step n c) [0..<k] (0, 0))"
proof (induction k)
  case (Suc k)
  then show ?case using best_below_step by simp
qed (simp add: best_below_def)

lemma best_pending_spec:
  "if \<exists>j. plic_cand n c j then plic_best n c (context_best_pending n c) else context_best_pending n c = 0"
proof -
  define w where "w = num_ids_word n * 32"
  have w: "n \<le> w" by (auto simp: w_def num_ids_word_def)
  then have lt: "plic_cand n c j \<Longrightarrow> j < w" for j by (simp add: plic_cand_def)
  define b where "b = fold (best_step n c) [0..<w] (0, 0)"
  have B: "best_below n c w b" unfolding b_def by (rule best_below_fold)
  have e: "context_best_pending n c = fst b" by (simp add: context_best_pending_def best_pending_flat b_def w_def)
  show ?thesis
  proof (cases "\<exists>j. plic_cand n c j")
    case True
    then have ex: "\<exists>j<w. plic_cand n c j" using lt by blast
    from B[unfolded best_below_def if_P[OF ex]] have "plic_cand n c (fst b)" "snd b = pc_pending_priority c (fst b)"
      "\<forall>j<w. plic_cand n c j \<longrightarrow> pc_pending_priority c j < snd b \<or> pc_pending_priority c j = snd b \<and> fst b \<le> j"
      by blast+
    then show ?thesis using True lt unfolding e plic_best_def by auto
  next
    case False
    then show ?thesis using B unfolding e best_below_def by auto
  qed
qed

lemma best_pending_nonzero: "context_best_pending n c \<noteq> 0 \<longleftrightarrow> (\<exists>j. plic_cand n c j)"
  using best_pending_spec[of n c] by (auto simp: plic_best_def plic_cand_def split: if_splits)

section \<open>Lines\<close>

text \<open>The levels of the interrupt lines after some outputs.\<close>

definition drive :: "plic_out list \<Rightarrow> (bool \<times> nat \<Rightarrow> bool) \<Rightarrow> bool \<times> nat \<Rightarrow> bool" where
  "drive outs L = fold (\<lambda>(k, v) L. L(k := v)) outs L"

lemma drive_simps [simp]: "drive [] L = L" "drive ((k, v) # outs) L = drive outs (L(k := v))"
  "drive (outs @ outs') L = drive outs' (drive outs L)"
  by (simp_all add: drive_def)

text \<open>Every line is up exactly when its context has an interrupt to deliver.\<close>

definition lines_ok :: "nat \<Rightarrow> plic_context list \<Rightarrow> (bool \<times> nat \<Rightarrow> bool) \<Rightarrow> bool" where
  "lines_ok n cs L \<longleftrightarrow> distinct (map context_line cs) \<and> (\<forall>c\<in>set cs. L (context_line c) = (\<exists>i. plic_cand n c i))"

lemma context_update_eq: "context_update n c = [(context_line c, \<exists>i. plic_cand n c i)]"
  unfolding context_update_def best_pending_nonzero by (rule refl)

lemma context_line_simps [simp]:
  "context_line (c\<lparr>pc_enable := e\<rparr>) = context_line c" "context_line (c\<lparr>pc_pending := e\<rparr>) = context_line c"
  "context_line (c\<lparr>pc_claimed := e\<rparr>) = context_line c" "context_line (c\<lparr>pc_threshold := t\<rparr>) = context_line c"
  "context_line (c\<lparr>pc_pending_priority := q\<rparr>) = context_line c"
  by (simp_all add: context_line_def)

lemma lines_replace:
  assumes "lines_ok n (xs @ c # ys) L" "context_line c' = context_line c"
  shows "lines_ok n (xs @ c' # ys) (L(context_line c' := \<exists>i. plic_cand n c' i))"
proof -
  have n: "context_line x \<noteq> context_line c" if "x \<in> set xs \<union> set ys" for x
    using assms(1) that by (auto simp: lines_ok_def intro: rev_image_eqI)
  show ?thesis unfolding lines_ok_def
  proof (intro conjI ballI)
    show "distinct (map context_line (xs @ c' # ys))" using assms by (simp add: lines_ok_def)
    fix x assume "x \<in> set (xs @ c' # ys)"
    then show "(L(context_line c' := \<exists>i. plic_cand n c' i)) (context_line x) = (\<exists>i. plic_cand n x i)"
      using assms n[of x] by (cases "x = c'") (simp_all add: lines_ok_def)
  qed
qed

lemma lines_keep:
  assumes "lines_ok n (xs @ c # ys) L" "context_line c' = context_line c" "plic_cand n c' = plic_cand n c"
  shows "lines_ok n (xs @ c' # ys) L"
  unfolding lines_ok_def
proof (intro conjI ballI)
  show "distinct (map context_line (xs @ c' # ys))" using assms by (simp add: lines_ok_def)
  fix x assume "x \<in> set (xs @ c' # ys)"
  then show "L (context_line x) = (\<exists>i. plic_cand n x i)"
    using assms by (cases "x = c'") (auto simp: lines_ok_def)
qed

lemma enable_steps_line: "context_line (fold (enable_step p l x v w) is c) = context_line c"
  by (induction "is" arbitrary: c) (auto simp: enable_step_def Let_def)

text \<open>An operation on a context either drives its line or leaves what it can be interrupted by.\<close>

definition context_op :: "nat \<Rightarrow> plic_context \<Rightarrow> plic_out list \<Rightarrow> plic_context \<Rightarrow> bool" where
  "context_op n c outs c' \<longleftrightarrow> context_line c' = context_line c \<and>
     (outs = context_update n c' \<or> outs = [] \<and> plic_cand n c' = plic_cand n c)"

lemma context_opD: "context_op n c outs c' \<Longrightarrow> lines_ok n (xs @ c # ys) L \<Longrightarrow> lines_ok n (xs @ c' # ys) (drive outs L)"
  using lines_replace lines_keep by (auto simp: context_op_def context_update_eq)

lemma context_op_refl: "context_op n c [] c" by (simp add: context_op_def)

lemma context_ops:
  "context_claim n c = (i, outs, c') \<Longrightarrow> context_op n c outs c'"
  "context_enable_write s c off v = (outs, c') \<Longrightarrow> context_op (pl_num_ids s) c outs c'"
  "context_read n c off = (x, outs, c') \<Longrightarrow> context_op n c outs c'"
  "context_write s c off v = (ok, outs, c') \<Longrightarrow> context_op (pl_num_ids s) c outs c'"
proof -
  show claim: "context_claim n c = (i, outs, c') \<Longrightarrow> context_op n c outs c'" for i outs c'
    by (auto simp: context_claim_def context_op_def Let_def split: if_splits)
  show "context_enable_write s c off v = (outs, c') \<Longrightarrow> context_op (pl_num_ids s) c outs c'"
    by (auto simp: context_enable_write_def context_op_def enable_steps_line Let_def split: if_splits)
  show "context_read n c off = (x, outs, c') \<Longrightarrow> context_op n c outs c'"
    using claim by (auto simp: context_read_def context_op_refl split: if_splits prod.splits)
  show "context_write s c off v = (ok, outs, c') \<Longrightarrow> context_op (pl_num_ids s) c outs c'"
    by (auto simp: context_write_def context_op_def plic_cand_def[abs_def] Let_def split: if_splits)
qed

lemma irq_sync_lines:
  "irq_sync_contexts n i p a cs = (outs, cs') \<Longrightarrow> lines_ok n (xs @ cs) L \<Longrightarrow> lines_ok n (xs @ cs') (drive outs L)"
proof (induction cs arbitrary: xs outs cs')
  case (Cons c cs)
  show ?case
  proof (cases "has_id (pc_enable c) i")
    case True
    then obtain c1 where "outs = context_update n c1" "cs' = c1 # cs" "context_line c1 = context_line c"
      using Cons.prems(1) by (auto simp: Let_def)
    then show ?thesis using Cons.prems(2) context_opD[of n c outs c1] by (simp add: context_op_def)
  next
    case False
    then obtain cs1 where "irq_sync_contexts n i p a cs = (outs, cs1)" "cs' = c # cs1"
      using Cons.prems(1) by (auto split: prod.splits)
    then show ?thesis using Cons.IH[of outs cs1 "xs @ [c]"] Cons.prems(2) by simp
  qed
qed simp

lemma lines_update:
  assumes "lines_ok n cs L" "k < length cs" "context_op n (cs ! k) outs c'"
  shows "lines_ok n (cs[k := c']) (drive outs L)"
  using context_opD[OF assms(3), of "take k cs" "drop (Suc k) cs"] assms(1,2)
  by (simp add: id_take_nth_drop[symmetric] upd_conv_take_nth_drop)

inductive plic_reach :: "plic \<Rightarrow> (bool \<times> nat \<Rightarrow> bool) \<Rightarrow> bool" where
  init: "plic_reach (plic_init ndev) (\<lambda>_. False)"
| source: "plic_reach s L \<Longrightarrow> plic_irq_sync active port s = (outs, s') \<Longrightarrow> plic_reach s' (drive outs L)"
| load: "plic_reach s L \<Longrightarrow> plic_load a len s = (ok, bs, outs, s') \<Longrightarrow> plic_reach s' (drive outs L)"
| store: "plic_reach s L \<Longrightarrow> plic_store a len bs s = (ok, outs, s') \<Longrightarrow> plic_reach s' (drive outs L)"

definition plic_ok :: "plic \<Rightarrow> (bool \<times> nat \<Rightarrow> bool) \<Rightarrow> bool" where
  "plic_ok s L \<longleftrightarrow> lines_ok (pl_num_ids s) (pl_contexts s) L"

lemma load4_ok: "plic_ok s L \<Longrightarrow> plic_load4 a s = (ok, bs, outs, s') \<Longrightarrow> plic_ok s' (drive outs L)"
  unfolding plic_ok_def
  by (auto simp: plic_load4_def Let_def split: if_splits prod.splits dest!: context_ops(3) intro!: lines_update)

lemma store4_ok: "plic_ok s L \<Longrightarrow> plic_store4 a bs s = (ok, outs, s') \<Longrightarrow> plic_ok s' (drive outs L)"
  unfolding plic_ok_def
  by (auto simp: plic_store4_def priority_write_def Let_def split: if_splits prod.splits dest!: context_ops(2,4) intro!: lines_update)

lemma load_ok:
  assumes "plic_ok s L" "plic_load a len s = (ok, bs, outs, s')"
  shows "plic_ok s' (drive outs L)"
proof -
  obtain ok1 bs1 outs1 s1 where l1: "plic_load4 a s = (ok1, bs1, outs1, s1)" using prod_cases4 by blast
  obtain ok2 bs2 outs2 s2 where l2: "plic_load4 (a + 4) s1 = (ok2, bs2, outs2, s2)" using prod_cases4 by blast
  have "plic_ok s1 (drive outs1 L)" using load4_ok[OF assms(1) l1] .
  moreover from load4_ok[OF this l2] have "plic_ok s2 (drive (outs1 @ outs2) L)" by simp
  ultimately show ?thesis using assms l1 l2 by (auto simp: plic_load_def split: if_splits)
qed

lemma store_ok:
  assumes "plic_ok s L" "plic_store a len bs s = (ok, outs, s')"
  shows "plic_ok s' (drive outs L)"
proof -
  obtain ok1 outs1 s1 where l1: "plic_store4 a bs s = (ok1, outs1, s1)" using prod_cases3 by blast
  obtain ok2 outs2 s2 where l2: "plic_store4 (a + 4) (drop 4 bs) s1 = (ok2, outs2, s2)" using prod_cases3 by blast
  have "plic_ok s1 (drive outs1 L)" using store4_ok[OF assms(1) l1] .
  moreover from store4_ok[OF this l2] have "plic_ok s2 (drive (outs1 @ outs2) L)" by simp
  ultimately show ?thesis using assms l1 l2 by (auto simp: plic_store_def split: if_splits)
qed

lemma plic_reach_ok: "plic_reach s L \<Longrightarrow> plic_ok s L"
proof (induction rule: plic_reach.induct)
  case (init ndev)
  show ?case by (simp add: plic_ok_def lines_ok_def plic_init_def context_line_def plic_cand_def eval_nat_numeral)
next
  case (source s L active port outs s')
  then show ?case using irq_sync_lines[of "pl_num_ids s" "port + 1" _ active "pl_contexts s" _ _ "[]"]
    by (auto simp: plic_irq_sync_def plic_ok_def Let_def split: prod.splits)
next
  case load
  then show ?case using load_ok by blast
next
  case store
  then show ?case using store_ok by blast
qed

section \<open>Types\<close>

text \<open>The contents of a context: priorities of 4 bits, no source 0, and only enabled sources pending, only
  pending ones claimed.\<close>

definition context_typed :: "plic_context \<Rightarrow> bool" where
  "context_typed c \<longleftrightarrow> \<not> has_id (pc_enable c) 0 \<and> (\<forall>i. pc_pending_priority c i < 16) \<and> pc_threshold c < 16
     \<and> (\<forall>i. has_id (pc_pending c) i \<longrightarrow> has_id (pc_enable c) i) \<and> (\<forall>i. has_id (pc_claimed c) i \<longrightarrow> has_id (pc_pending c) i)"

definition plic_typed :: "plic \<Rightarrow> bool" where
  "plic_typed s \<longleftrightarrow> (\<forall>i. pl_priority s i < 16) \<and> (\<forall>c\<in>set (pl_contexts s). context_typed c)"

lemma low_nibble: "(ucast (v AND (push_bit PLIC_PRIO_BITS 1 - 1)) :: u8) < 16" for v :: u32
proof -
  have m: "(push_bit PLIC_PRIO_BITS 1 - 1 :: u32) = mask 4" by (simp add: PLIC_PRIO_BITS_def mask_eq_exp_minus_1)
  have "unat (v AND mask 4) < 16" using and_mask_lt[of 4 v] by simp
  then have "unat (ucast (v AND mask 4) :: u8) < 16" by (simp add: unsigned_ucast_eq take_bit_eq_mod)
  then show ?thesis unfolding m by (simp add: word_less_nat_alt)
qed

lemma best_pending_cand: "context_best_pending n c \<noteq> 0 \<Longrightarrow> has_id (pc_pending c) (context_best_pending n c)"
  using best_pending_spec[of n c] by (auto simp: plic_best_def plic_cand_def split: if_splits)

text \<open>While the word of enables is scanned a source may be pending if it is enabled now, or if it was
  before and is still to be scanned.\<close>

definition enable_scan :: "(nat \<Rightarrow> u32) \<Rightarrow> (nat \<Rightarrow> u32) \<Rightarrow> nat \<Rightarrow> nat \<Rightarrow> plic_context \<Rightarrow> bool" where
  "enable_scan E E' w m c \<longleftrightarrow> pc_enable c = E' \<and> (\<forall>i. pc_pending_priority c i < 16) \<and> pc_threshold c < 16
     \<and> (\<forall>k. has_id (pc_pending c) k \<longrightarrow> has_id E' k \<or> w * 32 + m \<le> k \<and> k < w * 32 + 32 \<and> has_id E k)
     \<and> (\<forall>k. has_id (pc_claimed c) k \<longrightarrow> has_id (pc_pending c) k)"

lemma enable_scan_step:
  assumes "\<forall>i. priority i < 16" "E' = E(w := new)" "m < 32" "enable_scan E E' w m c"
  shows "enable_scan E E' w (Suc m) (enable_step priority level (E w XOR new) new w m c)"
proof -
  have dm: "(w * 32 + m) div 32 = w" "(w * 32 + m) mod 32 = m" using assms(3) by simp_all
  have e: "has_id E' (w * 32 + m) = bit new m" "has_id E (w * 32 + m) = bit (E w) m"
    unfolding has_id_def dm assms(2) by simp_all
  have next_id: "w * 32 + Suc m \<le> k \<longleftrightarrow> w * 32 + m \<le> k \<and> k \<noteq> w * 32 + m" for k by auto
  note I = assms(4)[unfolded enable_scan_def]
  consider "bit (E w) m = bit new m" | "\<not> bit (E w) m" "bit new m" | "bit (E w) m" "\<not> bit new m" by blast
  then show ?thesis
  proof cases
    case 1
    then have "enable_step priority level (E w XOR new) new w m c = c" by (simp add: enable_step_def bit_xor_iff)
    moreover have "has_id (pc_pending c) (w * 32 + m) \<longrightarrow> has_id E' (w * 32 + m)" using I e 1 by blast
    ultimately show ?thesis using I unfolding enable_scan_def next_id by metis
  next
    case 2
    then show ?thesis using I e assms(1) unfolding enable_scan_def next_id
      by (auto simp: enable_step_def bit_xor_iff Let_def)
  next
    case 3
    then show ?thesis using I e unfolding enable_scan_def next_id
      by (auto simp: enable_step_def bit_xor_iff Let_def)
  qed
qed

lemma enable_scan_fold:
  assumes "\<forall>i. priority i < 16" "E' = E(w := new)" "enable_scan E E' w 0 c"
  shows "m \<le> 32 \<Longrightarrow> enable_scan E E' w m (fold (enable_step priority level (E w XOR new) new w) [0..<m] c)"
proof (induction m)
  case 0
  then show ?case using assms(3) by simp
next
  case (Suc m)
  then show ?case using enable_scan_step[OF assms(1,2), of m] by simp
qed

lemma enable_write_typed:
  assumes "context_typed c" "\<forall>i. pl_priority s i < 16" "context_enable_write s c off v = (outs, c')"
  shows "context_typed c'"
proof (cases "num_ids_word (pl_num_ids s) \<le> off div 4")
  case True
  then show ?thesis using assms by (simp add: context_enable_write_def)
next
  case False
  define w where "w = off div 4"
  define new where "new = (if w = 0 then v AND NOT 1 else v)"
  define E' where "E' = (pc_enable c)(w := new)"
  have c': "c' = fold (enable_step (pl_priority s) (pl_level s) (pc_enable c w XOR new) new w) [0..<32] (c\<lparr>pc_enable := E'\<rparr>)"
    using assms(3) False by (simp add: context_enable_write_def Let_def w_def new_def E'_def del: upt_rec_numeral split: if_splits)
  have range: "w * 32 \<le> k \<and> k < w * 32 + 32" if "k div 32 = w" for k using that by auto
  have "has_id E' k \<or> k div 32 = w" if "has_id (pc_enable c) k" for k using that by (auto simp: has_id_def E'_def)
  then have "enable_scan (pc_enable c) E' w 0 (c\<lparr>pc_enable := E'\<rparr>)"
    using assms(1) range unfolding enable_scan_def context_typed_def
    by (metis (no_types, lifting) add_0_right plic_context.ext_inject plic_context.surjective plic_context.update_convs(4))
  from enable_scan_fold[OF assms(2) E'_def this, of 32] have scan: "enable_scan (pc_enable c) E' w 32 c'"
    unfolding c' by simp
  have "\<not> has_id E' 0" using assms(1) by (auto simp: has_id_def E'_def new_def context_typed_def bit_simps)
  then show ?thesis using scan unfolding enable_scan_def context_typed_def by (auto dest: leD)
qed

lemma context_ops_typed:
  assumes "context_typed c"
  shows "context_claim n c = (i, outs, c') \<Longrightarrow> context_typed c'"
    and "context_read n c off = (x, outs, c') \<Longrightarrow> context_typed c'"
    and "context_write s c off v = (ok, outs, c') \<Longrightarrow> context_typed c'"
proof -
  show claim: "context_claim n c = (i, outs, c') \<Longrightarrow> context_typed c'" for i outs c'
    using assms best_pending_cand[of n c] by (auto simp: context_claim_def context_typed_def Let_def split: if_splits)
  show "context_read n c off = (x, outs, c') \<Longrightarrow> context_typed c'"
    using claim assms by (auto simp: context_read_def split: if_splits prod.splits)
  show "context_write s c off v = (ok, outs, c') \<Longrightarrow> context_typed c'"
    using assms low_nibble by (auto simp: context_write_def context_typed_def Let_def split: if_splits)
qed

lemma irq_sync_typed:
  "\<forall>c\<in>set cs. context_typed c \<Longrightarrow> p < 16 \<Longrightarrow> irq_sync_contexts n i p a cs = (outs, cs') \<Longrightarrow> \<forall>c\<in>set cs'. context_typed c"
proof (induction cs arbitrary: outs cs')
  case (Cons c cs)
  show ?case
  proof (cases "has_id (pc_enable c) i")
    case True
    then show ?thesis using Cons.prems by (auto simp: Let_def context_typed_def split: if_splits)
  next
    case False
    then show ?thesis using Cons by (auto split: prod.splits)
  qed
qed simp

lemma update_typed: "\<forall>c\<in>set cs. context_typed c \<Longrightarrow> context_typed c' \<Longrightarrow> x \<in> set (cs[k := c']) \<Longrightarrow> context_typed x"
  using set_update_subset_insert by fastforce

lemma load4_typed: "plic_typed s \<Longrightarrow> plic_load4 a s = (ok, bs, outs, s') \<Longrightarrow> plic_typed s'"
  unfolding plic_typed_def
  by (auto simp: plic_load4_def Let_def split: if_splits prod.splits dest: context_ops_typed(2)[OF bspec[OF _ nth_mem]] intro: update_typed)

lemma priority_write_typed: "plic_typed s \<Longrightarrow> plic_typed (priority_write off v s)"
  using low_nibble[of v] by (simp add: plic_typed_def priority_write_def Let_def)

lemma store4_typed: 
  assumes "plic_typed s" "plic_store4 a bs s = (ok, outs, s')"
  shows "plic_typed s'"
proof -
  have e: "context_enable_write s (pl_contexts s ! k) off v = (outs, c') \<Longrightarrow> k < length (pl_contexts s) \<Longrightarrow> context_typed c'"
    for k off v outs c' using assms(1) enable_write_typed[of "pl_contexts s ! k"] by (auto simp: plic_typed_def)
  have w: "context_write s (pl_contexts s ! k) off v = (ok, outs, c') \<Longrightarrow> k < length (pl_contexts s) \<Longrightarrow> context_typed c'"
    for k off v ok outs c' using assms(1) context_ops_typed(3)[of "pl_contexts s ! k"] by (auto simp: plic_typed_def)
  have u: "context_typed c' \<Longrightarrow> plic_typed (s\<lparr>pl_contexts := (pl_contexts s)[k := c']\<rparr>)" for k c'
    using assms(1) update_typed[of "pl_contexts s" c' _ k] by (auto simp: plic_typed_def)
  show ?thesis using assms priority_write_typed
    by (auto simp: plic_store4_def Let_def split: if_splits prod.splits dest: e w intro: u)
qed

section \<open>Properties\<close>

text \<open>Without regard to the threshold, the line of each context is up exactly when some source is pending
  in the context and not claimed, and no two contexts share a line.\<close>

lemma lines_candidates:
  assumes "plic_reach s L"
  shows "distinct (map context_line (pl_contexts s))"
    and "c \<in> set (pl_contexts s) \<Longrightarrow> L (context_line c) = (\<exists>i. plic_cand (pl_num_ids s) c i)"
  using plic_reach_ok[OF assms] by (simp_all add: plic_ok_def lines_ok_def)

text \<open>The sources over the threshold of a context: both the priority of the source and the one it was
  latched with are above it.\<close>

definition over_threshold :: "plic \<Rightarrow> plic_context \<Rightarrow> nat \<Rightarrow> bool" where
  "over_threshold s c i \<longleftrightarrow> pc_threshold c < pl_priority s i \<and> pc_threshold c < pc_pending_priority c i"

text \<open>C27: The interrupt lines. Whatever the devices and the software do, no two contexts share a line, the
  line of a context is up when a source over its threshold is pending and not claimed, and, when every
  source that is pending and not claimed is over the threshold, it is up exactly when there is one.
  Nothing is said of a line that only sources at or below the threshold could raise.\<close>

theorem plic_lines:
  assumes "plic_reach s L"
  shows "distinct (map context_line (pl_contexts s)) \<and> (\<forall>c\<in>set (pl_contexts s).
     let waits = (\<lambda>i. 0 < i \<and> i < pl_num_ids s \<and> has_id (pc_pending c) i \<and> \<not> has_id (pc_claimed c) i) in
       (\<forall>i. waits i \<and> over_threshold s c i \<longrightarrow> L (context_line c))
     \<and> ((\<forall>i. waits i \<longrightarrow> over_threshold s c i) \<longrightarrow> L (context_line c) = (\<exists>i. waits i)))"
  using lines_candidates[OF assms] by (auto simp: plic_cand_def)

text \<open>C40: The types of the controller. Whatever the devices and the software do, priorities and thresholds
  have 4 bits, source 0 is never enabled, only enabled sources are pending and only pending ones
  claimed: taking a source away takes its claim away.\<close>

theorem plic_types:
  assumes "plic_reach s L"
  shows "(\<forall>i. pl_priority s i < 16) \<and> (\<forall>c\<in>set (pl_contexts s). \<not> has_id (pc_enable c) 0 \<and> pc_threshold c < 16
     \<and> (\<forall>i. pc_pending_priority c i < 16 \<and> (has_id (pc_pending c) i \<longrightarrow> has_id (pc_enable c) i)
          \<and> (has_id (pc_claimed c) i \<longrightarrow> has_id (pc_pending c) i)))"
proof -
  from assms have "plic_typed s"
  proof (induction rule: plic_reach.induct)
    case (init ndev)
    show ?case by (simp add: plic_typed_def context_typed_def plic_init_def)
  next
    case (source s L active port outs s')
    then show ?case using irq_sync_typed[of "pl_contexts s" "pl_priority s (port + 1)" "pl_num_ids s" "port + 1" active]
      by (auto simp: plic_irq_sync_def plic_typed_def Let_def split: prod.splits)
  next
    case (load s L a len ok bs outs s')
    then show ?case by (auto simp: plic_load_def split: if_splits prod.splits dest: load4_typed)
  next
    case (store s L a len bs ok outs s')
    then show ?case by (auto simp: plic_store_def split: if_splits prod.splits dest: store4_typed)
  qed
  then show ?thesis by (simp add: plic_typed_def context_typed_def)
qed

lemma claim_address:
  assumes "k < 3584"
  defines "a \<equiv> of_nat (CONTEXT_BASE + k * CONTEXT_PER_HART + 4) :: u64"
  shows "plic_load a 4 s = (if k < length (pl_contexts s)
     then let (i, outs, c1) = context_claim (pl_num_ids s) (pl_contexts s ! k)
          in (True, le_bytes 4 (ucast (of_nat i :: u32)), outs, s\<lparr>pl_contexts := (pl_contexts s)[k := c1]\<rparr>)
     else (False, [], [], s))"
    and "plic_store a 4 bs s = (if k < length (pl_contexts s)
     then let (ok, outs, c1) = context_write s (pl_contexts s ! k) CONTEXT_CLAIM (ucast (le_word (take 4 bs)))
          in (ok, outs, s\<lparr>pl_contexts := (pl_contexts s)[k := c1]\<rparr>)
     else (False, [], s))"
proof -
  have u: "unat a = CONTEXT_BASE + k * CONTEXT_PER_HART + 4"
    using assms(1) unfolding a_def unat_of_nat by (simp add: CONTEXT_BASE_def CONTEXT_PER_HART_def)
  have d: "(k * 4096 + 4) div 4096 = k" by simp
  note D = CONTEXT_BASE_def CONTEXT_PER_HART_def ENABLE_BASE_def REG_SIZE_def CONTEXT_THRESHOLD_def CONTEXT_CLAIM_def
  show "plic_load a 4 s = (if k < length (pl_contexts s)
     then let (i, outs, c1) = context_claim (pl_num_ids s) (pl_contexts s ! k)
          in (True, le_bytes 4 (ucast (of_nat i :: u32)), outs, s\<lparr>pl_contexts := (pl_contexts s)[k := c1]\<rparr>)
     else (False, [], [], s))"
    using assms(1) d by (simp add: plic_load_def plic_load4_def u D Let_def context_read_def split: prod.splits)
  show "plic_store a 4 bs s = (if k < length (pl_contexts s)
     then let (ok, outs, c1) = context_write s (pl_contexts s ! k) CONTEXT_CLAIM (ucast (le_word (take 4 bs)))
          in (ok, outs, s\<lparr>pl_contexts := (pl_contexts s)[k := c1]\<rparr>)
     else (False, [], s))"
    using assms(1) d by (simp add: plic_store_def plic_store4_def u D Let_def split: prod.splits)
qed

lemma claim_spec:
  "context_claim n c = (i, outs, c') \<Longrightarrow> (i = 0 \<longleftrightarrow> (\<forall>j. \<not> plic_cand n c j)) \<and> (i \<noteq> 0 \<longrightarrow> plic_best n c i)
     \<and> c' = (if i = 0 then c else c\<lparr>pc_claimed := set_id i (pc_claimed c)\<rparr>)
     \<and> outs = [(context_line c, \<exists>j. plic_cand n c j \<and> j \<noteq> i)]"
proof -
  assume a: "context_claim n c = (i, outs, c')"
  then have i: "i = context_best_pending n c" and c': "c' = (if i = 0 then c else c\<lparr>pc_claimed := set_id i (pc_claimed c)\<rparr>)"
    and o: "outs = context_update n c'" by (auto simp: context_claim_def Let_def)
  have "context_line c' = context_line c" "(\<exists>j. plic_cand n c' j) = (\<exists>j. plic_cand n c j \<and> j \<noteq> i)"
    unfolding c' by (auto simp: plic_cand_def)
  then show ?thesis using c' i best_pending_spec[of n c] best_pending_nonzero[of n c]
    unfolding o context_update_eq by (auto split: if_splits)
qed

text \<open>Reading the claim register, without regard to the threshold: the line stays up exactly when another
  source waits.\<close>

lemma claim_load:
  assumes "k < 3584" "k < length (pl_contexts s)" "pl_num_ids s \<le> 1024"
  defines "c \<equiv> pl_contexts s ! k" and "n \<equiv> pl_num_ids s"
  shows "\<exists>i. plic_load (of_nat (0x200004 + k * 0x1000)) 4 s
       = (True, le_bytes 4 (of_nat i), [(context_line c, \<exists>j. plic_cand n c j \<and> j \<noteq> i)],
          if i = 0 then s else s\<lparr>pl_contexts := (pl_contexts s)[k := c\<lparr>pc_claimed := set_id i (pc_claimed c)\<rparr>]\<rparr>)
     \<and> (if \<exists>j. plic_cand n c j then plic_best n c i else i = 0)"
proof -
  obtain i outs c' where cl: "context_claim n c = (i, outs, c')" using prod_cases3 by blast
  note S = claim_spec[OF cl]
  have "i < 1024" using S assms(3) by (cases "i = 0") (auto simp: plic_best_def plic_cand_def n_def)
  then have w: "ucast (of_nat i :: u32) = (of_nat i :: u64)"
    by (simp add: word_unat_eq_iff unat_of_nat unsigned_ucast_eq take_bit_eq_mod)
  have a: "(of_nat (CONTEXT_BASE + k * CONTEXT_PER_HART + 4) :: u64) = of_nat (0x200004 + k * 0x1000)"
    by (simp add: CONTEXT_BASE_def CONTEXT_PER_HART_def)
  have "plic_load (of_nat (0x200004 + k * 0x1000)) 4 s
       = (True, le_bytes 4 (of_nat i), outs, s\<lparr>pl_contexts := (pl_contexts s)[k := c']\<rparr>)"
    using claim_address(1)[OF assms(1), of s] assms(2) cl w unfolding a c_def n_def by simp
  then show ?thesis using S by (intro exI[where x = i]) (auto simp: c_def)
qed

text \<open>C19: Claim. Reading the claim register of context \<open>k\<close> gives 0 when it has nothing to deliver, and
  otherwise the source of the highest latched priority, the lowest number among equals. The source is
  then claimed and nothing else changes. The line of the context is driven: up when another source over
  the threshold waits, and, when all the others that wait are over it, down when there is none.\<close>

theorem plic_claim:
  assumes "k < 3584" "k < length (pl_contexts s)" "pl_num_ids s \<le> 1024"
  defines "c \<equiv> pl_contexts s ! k" and "n \<equiv> pl_num_ids s"
  shows "\<exists>i up. plic_load (of_nat (0x200004 + k * 0x1000)) 4 s
       = (True, le_bytes 4 (of_nat i), [(context_line c, up)],
          if i = 0 then s else s\<lparr>pl_contexts := (pl_contexts s)[k := c\<lparr>pc_claimed := set_id i (pc_claimed c)\<rparr>]\<rparr>)
     \<and> (if \<exists>j. plic_cand n c j then plic_best n c i else i = 0)
     \<and> (\<forall>j. plic_cand n c j \<and> j \<noteq> i \<and> over_threshold s c j \<longrightarrow> up)
     \<and> ((\<forall>j. plic_cand n c j \<and> j \<noteq> i \<longrightarrow> over_threshold s c j) \<longrightarrow> up = (\<exists>j. plic_cand n c j \<and> j \<noteq> i))"
proof -
  obtain i where i: "plic_load (of_nat (0x200004 + k * 0x1000)) 4 s
       = (True, le_bytes 4 (of_nat i), [(context_line c, \<exists>j. plic_cand n c j \<and> j \<noteq> i)],
          if i = 0 then s else s\<lparr>pl_contexts := (pl_contexts s)[k := c\<lparr>pc_claimed := set_id i (pc_claimed c)\<rparr>]\<rparr>)"
      "if \<exists>j. plic_cand n c j then plic_best n c i else i = 0"
    using claim_load[OF assms(1-3)] unfolding c_def n_def by blast
  then show ?thesis by (intro exI[where x = i] exI[where x = "\<exists>j. plic_cand n c j \<and> j \<noteq> i"]) blast
qed

text \<open>Claim and completion. The source the context was given is not given again before it is
  completed; completing it brings the controller back to where it was before the claim, with the line
  up: a source that is still active interrupts again.\<close>

theorem plic_claim_complete:
  assumes "k < 3584" "k < length (pl_contexts s)" "pl_num_ids s \<le> 1024" "plic_best (pl_num_ids s) (pl_contexts s ! k) i"
    "has_id (pc_enable (pl_contexts s ! k)) i"
  shows "let a = of_nat (0x200004 + k * 0x1000); (ok1, bs1, outs1, s1) = plic_load a 4 s; 
      (ok2, bs2, outs2, s2) = plic_load a 4 s1; (ok3, outs3, s3) = plic_store a 4 bs1 s1 in
    ok1 \<and> ok2 \<and> ok3 \<and> le_word bs1 = of_nat i \<and> le_word bs2 \<noteq> of_nat i \<and> s3 = s
    \<and> outs3 = [(context_line (pl_contexts s ! k), True)]"
proof -
  define c where "c = pl_contexts s ! k"
  define n where "n = pl_num_ids s"
  define c1 where "c1 = c\<lparr>pc_claimed := set_id i (pc_claimed c)\<rparr>"
  define s1 where "s1 = s\<lparr>pl_contexts := (pl_contexts s)[k := c1]\<rparr>"
  have cand: "plic_cand n c i" "0 < i" "i < 1024" "i < n"
    using assms(3,4) by (auto simp: plic_best_def plic_cand_def c_def n_def)
  have uniq: "plic_best n c j \<Longrightarrow> j = i" for j
    using assms(4) by (fastforce simp: plic_best_def c_def n_def)
  define a where "a = (of_nat (0x200004 + k * 0x1000) :: u64)"
  note claim = claim_load[OF assms(1), folded a_def]
  obtain j where j: "plic_load a 4 s = (True, le_bytes 4 (of_nat j), [(context_line c, \<exists>i. plic_cand n c i \<and> i \<noteq> j)],
        if j = 0 then s else s\<lparr>pl_contexts := (pl_contexts s)[k := c\<lparr>pc_claimed := set_id j (pc_claimed c)\<rparr>]\<rparr>)"
      "if \<exists>i. plic_cand n c i then plic_best n c j else j = 0"
    using claim[OF assms(2,3)] unfolding c_def n_def by blast
  have ji: "j = i" using j(2) cand(1) uniq by (auto split: if_splits)
  define outs1 where "outs1 = [(context_line c, \<exists>j. plic_cand n c j \<and> j \<noteq> i)]"
  have l1: "plic_load a 4 s = (True, le_bytes 4 (of_nat i), outs1, s1)"
    using j(1) cand(2) unfolding ji outs1_def s1_def c1_def by simp
  have s1: "pl_contexts s1 ! k = c1" "k < length (pl_contexts s1)" "pl_num_ids s1 = n"
    using assms(2) by (simp_all add: s1_def n_def)
  obtain j outs2 s2 where l2: "plic_load a 4 s1 = (True, le_bytes 4 (of_nat j), outs2, s2)"
      and j: "if \<exists>i. plic_cand n c1 i then plic_best n c1 j else j = 0"
    using claim[OF s1(2)] assms(3) unfolding s1 n_def by blast
  have ji: "j \<noteq> i" "j < 1024" using j cand assms(3) by (auto simp: plic_best_def plic_cand_def c1_def n_def split: if_splits)
  have w: "le_word (le_bytes 4 (of_nat m)) = of_nat m" if "m < 1024" for m
    using that by (simp add: le_word_le_bytes take_bit_nat_eq_self unsigned_of_nat flip: of_nat_take_bit)
  have "le_word (le_bytes 4 (of_nat j)) \<noteq> of_nat i"
    using ji cand(3) unfolding w[OF ji(2)] by (simp add: word_of_nat_eq_iff take_bit_nat_eq_self)
  moreover have "plic_store a 4 (le_bytes 4 (of_nat i)) s1
      = (True, [(context_line c, True)], s)"
  proof -
    have a: "(of_nat (CONTEXT_BASE + k * CONTEXT_PER_HART + 4) :: u64) = a"
      by (simp add: CONTEXT_BASE_def CONTEXT_PER_HART_def a_def)
    have t: "take 4 (le_bytes 4 (of_nat i)) = le_bytes 4 (of_nat i)" by simp
    have u: "unat (ucast (of_nat i :: u64) :: u32) = i"
      using cand(3) by (simp add: unat_of_nat unsigned_ucast_eq take_bit_eq_mod)
    have same: "c1\<lparr>pc_claimed := clear_id i (pc_claimed c1)\<rparr> = c"
      using cand(1) by (simp add: c1_def clear_set_id plic_cand_def)
    have "context_write s1 c1 CONTEXT_CLAIM (ucast (of_nat i :: u64)) = (True, context_update n c, c)"
      unfolding context_write_def u s1(3) using cand(4) assms(5) same
      by (simp add: CONTEXT_CLAIM_def CONTEXT_THRESHOLD_def c1_def c_def Let_def)
    moreover have "s1\<lparr>pl_contexts := (pl_contexts s1)[k := c]\<rparr> = s" by (simp add: s1_def c_def)
    moreover have "context_update n c = [(context_line c, True)]" using cand(1) context_update_eq by auto
    ultimately show ?thesis
      using claim_address(2)[OF assms(1), of "le_bytes 4 (of_nat i)" s1] s1 unfolding a t w[OF cand(3)] by simp
  qed
  ultimately show ?thesis unfolding Let_def a_def[symmetric] using l1 l2 w[OF cand(3)] by (simp add: c_def)
qed

text \<open>The threshold of a context has no effect: a source whose priority is not above it, even one of
  priority 0, keeps the line up.\<close>

theorem plic_threshold_ignored:
  assumes "plic_reach s L" "c \<in> set (pl_contexts s)" "plic_cand (pl_num_ids s) c i"
    "pc_pending_priority c i \<le> pc_threshold c"
  shows "L (context_line c)"
  using plic_reach_ok[OF assms(1)] assms(2,3) by (auto simp: plic_ok_def lines_ok_def)

text \<open>When a source goes down only the first context that enables it is told: in the second one it
  stays pending.\<close>

theorem plic_lowered_stays_pending:
  assumes "pl_contexts s = [c0, c1]" "has_id (pc_enable c0) (Suc port)" "has_id (pc_pending c1) (Suc port)"
  shows "has_id (pc_pending (pl_contexts (snd (plic_irq_sync False port s)) ! 1)) (Suc port)"
  using assms by (simp add: plic_irq_sync_def Let_def split: prod.splits)

text \<open>A source that its first context enables goes up: it is pending there, and the line goes up unless
  it is claimed.\<close>

lemma irq_sync_enabled:
  assumes "pl_contexts s = xs @ c # ys" "\<forall>x\<in>set xs. \<not> has_id (pc_enable x) (Suc port)" "has_id (pc_enable c) (Suc port)"
    "\<not> has_id (pc_claimed c) (Suc port)" "Suc port < pl_num_ids s"
  shows "fst (plic_irq_sync True port s) = [(context_line c, True)]"
proof -
  have "fst (irq_sync_contexts n (Suc port) p True (xs @ c # ys)) = fst (irq_sync_contexts n (Suc port) p True (c # ys))" for n p
    using assms(2) by (induction xs) (simp_all add: split_beta)
  moreover have "fst (irq_sync_contexts (pl_num_ids s) (Suc port) p True (c # ys)) = [(context_line c, True)]" for p
  proof -
    define c1 where "c1 = c\<lparr>pc_pending := set_id (Suc port) (pc_pending c), pc_pending_priority := (pc_pending_priority c)(Suc port := p)\<rparr>"
    have "plic_cand (pl_num_ids s) c1 (Suc port)" "context_line c1 = context_line c"
      using assms(4,5) by (simp_all add: c1_def plic_cand_def)
    then have "context_update (pl_num_ids s) c1 = [(context_line c, True)]" unfolding context_update_eq by auto
    then show ?thesis using assms(3) by (simp add: c1_def)
  qed
  ultimately show ?thesis using assms(1) by (simp add: plic_irq_sync_def Let_def split_beta)
qed

section \<open>Examples\<close>

text \<open>Three devices; the third has priority 5, is enabled for the machine context and goes up.\<close>

definition demo_context :: plic_context where
  "demo_context = \<lparr>pc_proc_id = 0, pc_mmode = True, pc_threshold = 0, pc_enable = (\<lambda>_. 0)(0 := 8),
     pc_pending = (\<lambda>_. 0)(0 := 8), pc_pending_priority = (\<lambda>_. 0)(3 := 5), pc_claimed = (\<lambda>_. 0)\<rparr>"

definition demo_plic :: plic where
  "demo_plic = \<lparr>pl_contexts = [demo_context, demo_context\<lparr>pc_mmode := False, pc_enable := (\<lambda>_. 0), pc_pending := (\<lambda>_. 0),
      pc_pending_priority := (\<lambda>_. 0)\<rparr>], pl_num_ids = 4, pl_max_prio = 15, pl_priority = (\<lambda>_. 0)(3 := 5), pl_level = (\<lambda>_. 0)(0 := 8)\<rparr>"

lemma enable_none: "\<forall>i\<in>set is. \<not> bit x i \<Longrightarrow> fold (enable_step p l x v w) is c = c"
  by (induction "is") (simp_all add: enable_step_def)

lemma enable_one:
  assumes "k < 32" "x = push_bit k 1"
  shows "fold (enable_step p l x v w) [0..<32] c = enable_step p l x v w k c"
proof -
  have "[0..<32] = [0..<k] @ k # [Suc k..<32]" using assms(1) by (metis le0 less_imp_le_nat upt_add_eq_append upt_conv_Cons le_add_diff_inverse)
  moreover have "\<forall>i\<in>set [0..<k] \<union> set [Suc k..<32]. \<not> bit x i" using assms(2) by (auto simp: bit_simps)
  ultimately show ?thesis by (simp add: enable_none)
qed

lemma upt_2: "[0..<2] = [0, 1 :: nat]"
  by code_simp

definition demo_plic_0 :: plic where
  "demo_plic_0 = \<lparr>pl_contexts = [demo_context\<lparr>pc_enable := (\<lambda>_. 0), pc_pending := (\<lambda>_. 0), pc_pending_priority := (\<lambda>_. 0)\<rparr>,
      demo_context\<lparr>pc_mmode := False, pc_enable := (\<lambda>_. 0), pc_pending := (\<lambda>_. 0), pc_pending_priority := (\<lambda>_. 0)\<rparr>],
      pl_num_ids = 4, pl_max_prio = 15, pl_priority = (\<lambda>_. 0), pl_level = (\<lambda>_. 0)\<rparr>"

lemma demo_plic_step0: "plic_init 3 = demo_plic_0"
  unfolding plic_init_def upt_2 by (simp add: demo_plic_0_def demo_context_def PLIC_PRIO_BITS_def)

lemma demo_plic_step1: "plic_store 0xc 4 [5, 0, 0, 0] demo_plic_0 = (True, [], demo_plic_0\<lparr>pl_priority := (\<lambda>_. 0)(3 := 5)\<rparr>)"
  by (simp add: plic_store_def plic_store4_def ENABLE_BASE_def priority_write_def PLIC_PRIO_BITS_def demo_plic_0_def Let_def)

lemma demo_plic_step2: "\<exists>outs. plic_store 0x2000 4 [8, 0, 0, 0] (demo_plic_0\<lparr>pl_priority := (\<lambda>_. 0)(3 := 5)\<rparr>) = (True, outs,
    demo_plic_0\<lparr>pl_priority := (\<lambda>_. 0)(3 := 5), pl_contexts := (pl_contexts demo_plic_0)[0 := 
      demo_context\<lparr>pc_pending := (\<lambda>_. 0), pc_pending_priority := (\<lambda>_. 0)\<rparr>]\<rparr>)"
proof -
  have "push_bit 3 1 = (8 :: u32)" by simp
  then have one: "fold (enable_step p l 8 8 0) [0..<32] c = enable_step p l 8 8 0 3 c" for p l c
    using enable_one[of 3 8] by simp
  show ?thesis
    by (simp add: plic_store_def plic_store4_def ENABLE_BASE_def CONTEXT_BASE_def ENABLE_PER_HART_def context_enable_write_def
      num_ids_word_def demo_plic_0_def Let_def one enable_step_def demo_context_def split_beta del: upt_rec_numeral)
qed

lemma demo_cand: "plic_cand 4 demo_context i \<longleftrightarrow> i = 3"
proof -
  have b: "\<not> has_id ((\<lambda>_. 0)(0 := 8)) 1" "\<not> has_id ((\<lambda>_. 0)(0 := 8)) 2" "has_id ((\<lambda>_. 0)(0 := 8)) 3"
    by (simp_all add: has_id_def)
  consider "i = 0" | "i = 1" | "i = 2" | "i = 3" | "4 \<le> i" by linarith
  then show ?thesis using b by cases (simp_all add: plic_cand_def demo_context_def)
qed

lemma demo_best: "plic_best 4 demo_context 3" "plic_cand 4 demo_context 3"
  by (simp_all add: plic_best_def demo_cand)

lemma demo_plic_step3: "plic_irq_sync True 2 (demo_plic_0\<lparr>pl_priority := (\<lambda>_. 0)(3 := 5), pl_contexts := (pl_contexts demo_plic_0)[0 := 
      demo_context\<lparr>pc_pending := (\<lambda>_. 0), pc_pending_priority := (\<lambda>_. 0)\<rparr>]\<rparr>) = ([((True, 0), True)], demo_plic)"
proof -
  have b: "set_id 3 (\<lambda>_. 0) = (\<lambda>_. 0)(0 := 8)" "has_id ((\<lambda>_. 0)(0 := 8)) 3" by (simp_all add: set_id_def has_id_def)
  have "context_update 4 demo_context = [((True, 0), True)]"
    using demo_best(2) by (auto simp: context_update_eq context_line_def demo_context_def)
  then show ?thesis using b
    by (simp add: plic_irq_sync_def demo_plic_0_def demo_plic_def demo_context_def split_beta)
qed

lemma demo_plic_reach: "\<exists>L. plic_reach demo_plic L \<and> L (True, 0)"
proof -
  obtain L where "plic_reach (demo_plic_0\<lparr>pl_priority := (\<lambda>_. 0)(3 := 5), pl_contexts := (pl_contexts demo_plic_0)[0 := 
      demo_context\<lparr>pc_pending := (\<lambda>_. 0), pc_pending_priority := (\<lambda>_. 0)\<rparr>]\<rparr>) L"
    using plic_reach.store[OF plic_reach.store[OF plic_reach.init[of 3, unfolded demo_plic_step0] demo_plic_step1]] demo_plic_step2
    by blast
  from plic_reach.source[OF this demo_plic_step3] show ?thesis by (intro exI) auto
qed

lemma demo_over: "over_threshold demo_plic demo_context i \<longleftrightarrow> i = 3"
  by (simp add: over_threshold_def demo_plic_def demo_context_def)

theorem plic_lines_witness: "\<exists>L. plic_reach demo_plic L \<and> L (True, 0)"
proof -
  obtain L where L: "plic_reach demo_plic L" using demo_plic_reach by blast
  have "demo_context \<in> set (pl_contexts demo_plic)" "context_line demo_context = (True, 0)" "pl_num_ids demo_plic = 4"
    by (simp_all add: demo_plic_def context_line_def demo_context_def)
  with plic_lines[OF L] demo_best(2) demo_over L show ?thesis unfolding Let_def plic_cand_def by fastforce
qed

theorem plic_claim_witness: "\<exists>s'. plic_load 0x200004 4 demo_plic = (True, le_bytes 4 3, [((True, 0), False)], s')"
proof -
  have d: "pl_contexts demo_plic ! 0 = demo_context" "pl_num_ids demo_plic = 4" "context_line demo_context = (True, 0)"
    "0 < length (pl_contexts demo_plic)"
    by (simp_all add: demo_plic_def demo_context_def context_line_def)
  have b: "plic_best 4 demo_context i \<longleftrightarrow> i = 3" "plic_cand 4 demo_context i \<longleftrightarrow> i = 3" for i
    using demo_best demo_cand by (auto simp: plic_best_def)
  show ?thesis using plic_claim[of 0 demo_plic] d(4) unfolding d b by auto
qed

theorem plic_claim_complete_witness: "le_word (fst (snd (plic_load 0x200004 4 demo_plic))) = 3"
  using plic_claim_complete[of 0 demo_plic 3] demo_best(1)
  by (simp add: demo_plic_def Let_def split_beta has_id_def demo_context_def)

theorem plic_types_witness: "\<exists>L. plic_reach demo_plic L \<and> pl_priority demo_plic 3 < 16 \<and> \<not> has_id (pc_enable demo_context) 0"
proof -
  obtain L where L: "plic_reach demo_plic L" using demo_plic_reach by blast
  have "demo_context \<in> set (pl_contexts demo_plic)" by (simp add: demo_plic_def)
  with plic_types[OF L] L show ?thesis by blast
qed

end
