(* ===== verification/Clint.thy ===== *)
theory Clint imports Prelude "HOL-Library.Signed_Division" begin

text \<open>
  The core-local interruptor (\<open>src/models/cpu/clint.cpp\<close>): the software interrupts and the timers of the
  harts. Times are in picoseconds, in 64 bits: \<open>t\<close> is the current time and \<open>period\<close> that of the clock.
  The interrupt lines an operation drives and the events it enqueues are its outputs, in order; a line
  that is not bound has no listener. The two arrays are accessed as bytes, in the order of the host.
\<close>

section \<open>State\<close>

definition RESOLUTION :: int where "RESOLUTION = 100000"
definition MTIMECMP_BASE :: nat where "MTIMECMP_BASE = 0x4000"
definition MTIME_BASE :: nat where "MTIME_BASE = 0xbff8"
definition CLINT_SIZE :: nat where "CLINT_SIZE = 0x000c0000"

record clint =
  cl_msip :: "u32 list"
  cl_mtimecmp :: "u64 list"
  cl_start_time :: u64

datatype clint_out = Sw_irq nat bool | Timer_irq nat bool | Enqueue nat u64

definition clint_reset :: "bool \<Rightarrow> u64 \<Rightarrow> clint \<Rightarrow> clint" where
  "clint_reset active t s =
     (if active then s\<lparr>cl_start_time := t, cl_msip := map (\<lambda>_. 0) (cl_msip s), cl_mtimecmp := map (\<lambda>_. 0) (cl_mtimecmp s)\<rparr>
      else s)"

section \<open>Time\<close>

definition get_mtime :: "u64 \<Rightarrow> clint \<Rightarrow> u64" where
  "get_mtime t s = word_of_int (sint (t - cl_start_time s) sdiv RESOLUTION)"

definition check_mtime :: "u64 \<Rightarrow> clint \<Rightarrow> clint_out list" where
  "check_mtime t s =
     (let mtime = get_mtime t s
      in map (\<lambda>i. Timer_irq i (mtime \<ge> cl_mtimecmp s ! i)) [0..<length (cl_mtimecmp s)])"

definition event_diff :: "u64 \<Rightarrow> u64 \<Rightarrow> clint \<Rightarrow> nat \<Rightarrow> u64" where
  "event_diff period t s i = (cl_mtimecmp s ! i - get_mtime t s) * word_of_int RESOLUTION div period"

definition check_event :: "u64 \<Rightarrow> u64 \<Rightarrow> clint \<Rightarrow> clint_out list" where
  "check_event period t s =
     concat (map (\<lambda>i. let diff = event_diff period t s i in if diff > 0 then [Enqueue i diff] else [])
       [0..<length (cl_mtimecmp s)])"

definition clint_event_handler :: "u64 \<Rightarrow> u64 \<Rightarrow> clint \<Rightarrow> clint_out list" where
  "clint_event_handler period t s = check_mtime t s @ check_event period t s"

definition time_sync_back :: "u64 \<Rightarrow> clint \<Rightarrow> u64" where "time_sync_back t s = get_mtime t s"

section \<open>Registers\<close>

text \<open>An array of \<open>n\<close>-byte elements as bytes, and back.\<close>

definition array_bytes :: "nat \<Rightarrow> ('a::len) word list \<Rightarrow> bytes" where
  "array_bytes n ws = concat (map (\<lambda>w. le_bytes n (ucast w)) ws)"

definition bytes_array :: "nat \<Rightarrow> bytes \<Rightarrow> ('a::len) word list" where
  "bytes_array n bs = map (\<lambda>i. ucast (le_word (take n (drop (i * n) bs)))) [0..<length bs div n]"

text \<open>\<open>None\<close> is a copy out of an array or a buffer.\<close>

definition clint_load :: "u64 \<Rightarrow> u32 \<Rightarrow> nat \<Rightarrow> clint \<Rightarrow> (bool \<times> bytes) option" where
  "clint_load t a len s =
     (let addr = unat a in
      if addr + len \<le> length (cl_msip s) * 4
      then map_option (Pair True) (bslice addr len (array_bytes 4 (cl_msip s)))
      else if MTIMECMP_BASE \<le> addr \<and> addr + len \<le> MTIMECMP_BASE + length (cl_mtimecmp s) * 8
      then map_option (Pair True) (bslice (addr - MTIMECMP_BASE) len (array_bytes 8 (cl_mtimecmp s)))
      else if MTIME_BASE \<le> addr \<and> addr + len \<le> MTIME_BASE + 8
      then map_option (Pair True) (bslice (addr - MTIME_BASE) len (le_bytes 8 (get_mtime t s)))
      else if addr + len \<le> CLINT_SIZE then Some (True, replicate len 0)
      else Some (False, []))"

definition clint_store :: "u64 \<Rightarrow> u64 \<Rightarrow> u32 \<Rightarrow> nat \<Rightarrow> bytes \<Rightarrow> clint \<Rightarrow> (bool \<times> clint_out list \<times> clint) option" where
  "clint_store period t a len bs s =
     (let addr = unat a in
      if addr + len \<le> length (cl_msip s) * 4
      then map_option (\<lambda>m. let s1 = s\<lparr>cl_msip := bytes_array 4 m\<rparr>
             in (True, map (\<lambda>i. Sw_irq i (bit (cl_msip s1 ! i) 0)) [0..<length (cl_msip s)], s1))
             (blit addr len bs (array_bytes 4 (cl_msip s)))
      else if MTIMECMP_BASE \<le> addr \<and> addr + len \<le> MTIMECMP_BASE + length (cl_mtimecmp s) * 8
      then map_option (\<lambda>m. let s1 = s\<lparr>cl_mtimecmp := bytes_array 8 m\<rparr>
             in (True, check_mtime t s1 @ check_event period t s1, s1))
             (blit (addr - MTIMECMP_BASE) len bs (array_bytes 8 (cl_mtimecmp s)))
      else if MTIME_BASE \<le> addr \<and> addr + len \<le> MTIME_BASE + 8
      then map_option (\<lambda>m. let s1 = s\<lparr>cl_start_time := t - le_word m\<rparr>
             in (True, check_mtime t s1 @ check_event period t s1, s1))
             (blit (addr - MTIME_BASE) len bs (le_bytes 8 (get_mtime t s)))
      else if addr + len \<le> CLINT_SIZE then Some (True, [], s)
      else Some (False, [], s))"

text \<open>A request: the address is cut to 32 bits.\<close>

definition clint_req :: "u64 \<Rightarrow> u64 \<Rightarrow> bool \<Rightarrow> u64 \<Rightarrow> nat \<Rightarrow> bytes \<Rightarrow> clint
    \<Rightarrow> (bool \<times> bytes \<times> clint_out list \<times> clint) option" where
  "clint_req period t is_write a len bs s =
     (if is_write then map_option (\<lambda>(ok, outs, s1). (ok, [], outs, s1)) (clint_store period t (ucast a) len bs s)
      else map_option (\<lambda>(ok, d). (ok, d, [], s)) (clint_load t (ucast a) len s))"

section \<open>Arrays\<close>

lemma length_array_bytes [simp]: "length (array_bytes n ws) = length ws * n"
  by (induction ws) (simp_all add: array_bytes_def)

lemma array_bytes_inv:
  assumes "0 < n" "n \<le> 8" "length bs = k * n" "8 * n = LENGTH('a::len)"
  shows "array_bytes n (bytes_array n bs :: 'a word list) = bs"
  using assms(3)
proof (induction k arbitrary: bs)
  case 0
  then show ?case by (simp add: array_bytes_def bytes_array_def)
next
  case (Suc k)
  have d: "length bs div n = Suc (length (drop n bs) div n)"
    using Suc.prems assms(1) by simp
  have "bytes_array n bs = (ucast (le_word (take n bs)) :: 'a word) # bytes_array n (drop n bs)"
    unfolding bytes_array_def d upt_conv_Cons[OF zero_less_Suc] map_Suc_upt[symmetric]
    by (simp add: comp_def drop_drop add.commute del: upt_Suc)
  moreover have "le_bytes n (ucast (ucast (le_word (take n bs)) :: 'a word)) = take n bs"
  proof -
    have l: "length (take n bs) = n" using Suc.prems by simp
    have "(ucast (ucast (le_word (take n bs)) :: 'a word) :: u64) = le_word (take n bs)"
      using assms(2,4) l by (intro bit_word_eqI) (auto simp: bit_ucast_iff bit_le_word)
    then show ?thesis using le_bytes_le_word[of "take n bs"] l assms(2) by simp
  qed
  ultimately show ?case using Suc.IH[of "drop n bs"] Suc.prems by (simp add: array_bytes_def)
qed

lemma bytes_array_inv:
  assumes "0 < n" "n \<le> 8" "8 * n = LENGTH('a::len)"
  shows "bytes_array n (array_bytes n ws) = (ws :: 'a word list)"
proof (induction ws)
  case (Cons w ws)
  have d: "length (array_bytes n (w # ws)) div n = Suc (length (array_bytes n ws) div n)" using assms(1) by simp
  have w: "ucast (le_word (le_bytes n (ucast w))) = w"
    using assms by (intro bit_word_eqI) (auto simp: le_word_le_bytes bit_ucast_iff bit_take_bit_iff)
  have a: "array_bytes n (w # ws) = le_bytes n (ucast w) @ array_bytes n ws" by (simp add: array_bytes_def)
  show ?case unfolding bytes_array_def d upt_conv_Cons[OF zero_less_Suc] map_Suc_upt[symmetric]
    using Cons assms(1) by (simp add: a w comp_def bytes_array_def del: upt_Suc)
qed (simp add: array_bytes_def bytes_array_def)

section \<open>Registers keep what is written\<close>

definition clint_arrays :: "clint \<Rightarrow> bytes \<times> bytes" where
  "clint_arrays s = (array_bytes 4 (cl_msip s), array_bytes 8 (cl_mtimecmp s))"

lemma blit_array:
  assumes "blit off len bs (array_bytes n (ws :: 'a word list)) = Some m" "0 < n" "n \<le> 8" "8 * n = LENGTH('a::len)"
  shows "array_bytes n (bytes_array n m :: 'a word list) = m" "length (bytes_array n m :: 'a word list) = length ws"
proof -
  have l: "length m = length ws * n" using blit_length[OF assms(1)] by simp
  show "array_bytes n (bytes_array n m :: 'a word list) = m" using array_bytes_inv[OF assms(2,3) l assms(4)] .
  show "length (bytes_array n m :: 'a word list) = length ws" using l assms(2) by (simp add: bytes_array_def)
qed

lemma bslice_of_blit: "blit off (length bs) bs dst = Some m \<Longrightarrow> bslice off (length bs) m = Some bs"
  using bslice_blit_same by fastforce

text \<open>A register access is to the software-interrupt words, the compare registers, the time, or
  to the rest of the device, which reads as zero and ignores writes, and fails only beyond it. A store
  to the words or to the compare registers is read back, at any time, by a load of the same bytes,
  leaves the other bytes of both arrays, and drives the lines from the new values.\<close>

theorem clint_registers:
  assumes "length (cl_msip s) * 4 \<le> MTIMECMP_BASE" "length (cl_mtimecmp s) * 8 \<le> MTIME_BASE - MTIMECMP_BASE"
    "unat a + length bs \<le> length (cl_msip s) * 4 \<or>
     MTIMECMP_BASE \<le> unat a \<and> unat a + length bs \<le> MTIMECMP_BASE + length (cl_mtimecmp s) * 8"
  shows "\<exists>outs s'. clint_store period t a (length bs) bs s = Some (True, outs, s')
    \<and> clint_load t' a (length bs) s' = Some (True, bs) \<and> cl_start_time s' = cl_start_time s
    \<and> (let put = (\<lambda>k A. take k A @ bs @ drop (k + length bs) A) in
       if unat a + length bs \<le> length (cl_msip s) * 4
       then clint_arrays s' = (put (unat a) (fst (clint_arrays s)), snd (clint_arrays s))
         \<and> outs = map (\<lambda>i. Sw_irq i (bit (cl_msip s' ! i) 0)) [0..<length (cl_msip s')]
       else clint_arrays s' = (fst (clint_arrays s), put (unat a - MTIMECMP_BASE) (snd (clint_arrays s)))
         \<and> outs = clint_event_handler period t s')"
proof (cases "unat a + length bs \<le> length (cl_msip s) * 4")
  case True
  then have "\<exists>m. blit (unat a) (length bs) bs (array_bytes 4 (cl_msip s)) = Some m" by (intro blit_defined) simp_all
  then obtain m where m: "blit (unat a) (length bs) bs (array_bytes 4 (cl_msip s)) = Some m" by blast
  have A: "array_bytes 4 (bytes_array 4 m :: u32 list) = m" "length (bytes_array 4 m :: u32 list) = length (cl_msip s)"
    using blit_array[OF m] by simp_all
  show ?thesis using True m A bslice_of_blit[OF m] blit_SomeD(3)[OF m]
    by (simp add: clint_store_def clint_load_def Let_def clint_arrays_def)
next
  case False
  then have c: "MTIMECMP_BASE \<le> unat a" "unat a - MTIMECMP_BASE + length bs \<le> length (cl_mtimecmp s) * 8"
    using assms(3) by auto
  then have "\<exists>m. blit (unat a - MTIMECMP_BASE) (length bs) bs (array_bytes 8 (cl_mtimecmp s)) = Some m"
    by (intro blit_defined) simp_all
  then obtain m where m: "blit (unat a - MTIMECMP_BASE) (length bs) bs (array_bytes 8 (cl_mtimecmp s)) = Some m" by blast
  have A: "array_bytes 8 (bytes_array 8 m :: u64 list) = m" "length (bytes_array 8 m :: u64 list) = length (cl_mtimecmp s)"
    using blit_array[OF m] by simp_all
  have "unat a + length bs \<le> MTIMECMP_BASE + length (cl_mtimecmp s) * 8" using assms(3) False by simp
  then show ?thesis using False c(1) m A bslice_of_blit[OF m] blit_SomeD(3)[OF m]
    by (simp add: clint_store_def clint_load_def Let_def clint_arrays_def clint_event_handler_def)
qed

section \<open>The timer\<close>

text \<open>Time without wrap-around: the time since the reset, and the interrupt is due at \<open>c * RESOLUTION\<close>.\<close>

lemma get_mtime_uint:
  assumes "uint (cl_start_time s) \<le> uint t" "uint t < 2 ^ 63"
  shows "uint (get_mtime t s) = (uint t - uint (cl_start_time s)) div RESOLUTION"
proof -
  let ?d = "uint t - uint (cl_start_time s)"
  have d: "0 \<le> ?d" "?d < 2 ^ 63" using assms uint_ge_0[of "cl_start_time s"] by linarith+
  have u: "uint (t - cl_start_time s) = ?d" using assms(1) by (simp add: uint_sub_ge uint_sub_if')
  then have "sint (t - cl_start_time s) = ?d"
    using d by (simp add: sint_uint signed_take_bit_int_eq_self)
  moreover have "?d sdiv RESOLUTION = ?d div RESOLUTION" using d(1)
    by (simp add: signed_divide_int_def RESOLUTION_def sgn_if)
  moreover have "0 \<le> ?d div RESOLUTION" "?d div RESOLUTION < 2 ^ 64"
    using d by (simp_all add: RESOLUTION_def)
  ultimately show ?thesis by (simp add: get_mtime_def uint_word_of_int take_bit_int_eq_self)
qed

lemma uint_mult_bounded: "uint a * uint b < 2 ^ 64 \<Longrightarrow> uint (a * b) = uint a * uint b" for a b :: u64
  by (simp add: uint_word_ariths take_bit_int_eq_self)

lemma event_diff_uint:
  assumes "uint (cl_start_time s) \<le> uint t" "uint t < 2 ^ 63"
    "uint (get_mtime t s) \<le> uint (cl_mtimecmp s ! i)" "uint (cl_mtimecmp s ! i) * RESOLUTION < 2 ^ 64"
  shows "uint (event_diff period t s i) = (uint (cl_mtimecmp s ! i) - uint (get_mtime t s)) * RESOLUTION div uint period"
proof -
  let ?c = "uint (cl_mtimecmp s ! i)" and ?m = "uint (get_mtime t s)"
  have c: "0 \<le> ?c" "0 \<le> ?m" by simp_all
  have u: "uint (cl_mtimecmp s ! i - get_mtime t s) = ?c - ?m" using assms(3) by (simp add: uint_sub_if')
  have R: "uint (word_of_int RESOLUTION :: u64) = RESOLUTION" by (simp add: RESOLUTION_def)
  have "(?c - ?m) * RESOLUTION < 2 ^ 64"
    using assms(4) c unfolding RESOLUTION_def left_diff_distrib by linarith
  then have "uint ((cl_mtimecmp s ! i - get_mtime t s) * word_of_int RESOLUTION) = (?c - ?m) * RESOLUTION"
    by (subst uint_mult_bounded) (simp_all add: u R)
  then show ?thesis by (simp add: event_diff_def uint_div)
qed

lemma enqueued:
  assumes "i < length (cl_mtimecmp s)"
  shows "Enqueue i d \<in> set (check_event period t s) \<longleftrightarrow> d = event_diff period t s i \<and> 0 < d"
    "Timer_irq i v \<in> set (check_mtime t s) \<longleftrightarrow> v = (get_mtime t s \<ge> cl_mtimecmp s ! i)"
  using assms by (auto simp: check_event_def check_mtime_def Let_def split: if_splits)

text \<open>One wait: it ends at most a clock period before the interrupt is due, and not a tick after it.\<close>

lemma wait_bounds:
  fixes R P c \<tau> :: int
  assumes "0 < R" "0 < P" "0 \<le> \<tau>" "\<tau> div R < c"
  defines "d \<equiv> (c - \<tau> div R) * R div P"
  shows "c * R - P < \<tau> + d * P" "\<tau> + d * P < c * R + R" "P \<le> R \<Longrightarrow> 0 < d"
proof -
  have m: "\<tau> div R * R \<le> \<tau>" "\<tau> < \<tau> div R * R + R"
    using assms(1) by (simp_all add: minus_mod_eq_div_mult[symmetric])
  have d: "(c - \<tau> div R) * R - P < d * P" "d * P \<le> (c - \<tau> div R) * R"
    using assms(2) pos_mod_bound[of P "(c - \<tau> div R) * R"] pos_mod_sign[of P "(c - \<tau> div R) * R"]
    unfolding d_def minus_mod_eq_div_mult[symmetric] by linarith+
  show "c * R - P < \<tau> + d * P" "\<tau> + d * P < c * R + R" using m d by (simp_all add: left_diff_distrib)
  assume "P \<le> R"
  also have "R \<le> (c - \<tau> div R) * R" using assms(1,4) by simp
  finally show "0 < d" unfolding d_def using assms(2) by (simp add: pos_imp_zdiv_pos_iff)
qed

lemma wait_time:
  assumes "uint (cl_start_time s) \<le> uint t" "uint (get_mtime t s) < uint (cl_mtimecmp s ! i)"
    "uint (cl_start_time s) + (uint (cl_mtimecmp s ! i) + 1) * RESOLUTION < 2 ^ 63" "uint t < 2 ^ 63"
    "0 < uint period" "uint period \<le> RESOLUTION"
  defines "t' \<equiv> t + event_diff period t s i * period"
  shows "0 < event_diff period t s i"
    "uint (cl_mtimecmp s ! i) * RESOLUTION - uint period < uint t' - uint (cl_start_time s)"
    "uint t' - uint (cl_start_time s) < (uint (cl_mtimecmp s ! i) + 1) * RESOLUTION" "uint t + uint period \<le> uint t'"
proof -
  let ?c = "uint (cl_mtimecmp s ! i)" and ?S = "uint (cl_start_time s)" and ?P = "uint period" and ?d = "uint (event_diff period t s i)"
  have m: "uint (get_mtime t s) = (uint t - ?S) div RESOLUTION" using get_mtime_uint[OF assms(1,4)] .
  have "?c * RESOLUTION < 2 ^ 63" using assms(3) uint_ge_0[of "cl_start_time s"]
    unfolding RESOLUTION_def distrib_right by linarith
  also have "(2::int) ^ 63 < 2 ^ 64" by simp
  finally have big: "?c * RESOLUTION < 2 ^ 64" .
  have d: "?d = (?c - (uint t - ?S) div RESOLUTION) * RESOLUTION div ?P"
    using event_diff_uint[OF assms(1,4) _ big, of period] assms(2) unfolding m by simp
  have R: "(0::int) < RESOLUTION" by (simp add: RESOLUTION_def)
  note W = wait_bounds[OF R assms(5) _ assms(2)[unfolded m], folded d]
  have dp: "0 < ?d" using W(3) assms(1,6) by simp
  then show "0 < event_diff period t s i" by (simp add: word_less_def)
  have b: "uint t - ?S + ?d * ?P < (?c + 1) * RESOLUTION" using W(2) assms(1) by (simp add: distrib_right)
  then have l: "uint t + ?d * ?P < 2 ^ 63" using assms(3) by linarith
  have "0 \<le> ?d * ?P" by simp
  have "?d * ?P < 2 ^ 63" using l uint_ge_0[of t] by linarith
  also have "(2::int) ^ 63 < 2 ^ 64" by simp
  finally have "uint (event_diff period t s i * period) = ?d * ?P" by (rule uint_mult_bounded)
  then have t': "uint t' = uint t + ?d * ?P" using l uint_ge_0[of t] \<open>0 \<le> ?d * ?P\<close>
    unfolding t'_def by (simp add: uint_word_ariths)
  show "?c * RESOLUTION - ?P < uint t' - ?S" "uint t' - ?S < (?c + 1) * RESOLUTION" unfolding t' using W(1) b assms(1) by simp_all
  have "1 * ?P \<le> ?d * ?P" using dp assms(5) by (intro mult_right_mono) simp_all
  then show "uint t + ?P \<le> uint t'" unfolding t' by simp
qed

text \<open>C26: The timer fires in its tick. With a clock at least as fast as the 100 ns resolution of the
  timer, an event is enqueued for a compare value that is still ahead, and the line is driven up by
  that event or by the one it enqueues, within the tick of the compare value: neither before it is
  due nor a tick later.\<close>

theorem clint_timer_fires:
  assumes "uint (cl_start_time s) \<le> uint t" "uint t < 2 ^ 63" "i < length (cl_mtimecmp s)"
    "get_mtime t s < cl_mtimecmp s ! i" "0 < uint period" "uint period \<le> RESOLUTION"
    "uint (cl_start_time s) + (uint (cl_mtimecmp s ! i) + 1) * RESOLUTION < 2 ^ 63"
  shows "\<exists>d t1 t2. Enqueue i d \<in> set (check_event period t s) \<and> t1 = t + d * period
    \<and> (t2 = t1 \<or> (\<exists>d2. Enqueue i d2 \<in> set (clint_event_handler period t1 s) \<and> t2 = t1 + d2 * period))
    \<and> Timer_irq i True \<in> set (clint_event_handler period t2 s)
    \<and> uint (cl_mtimecmp s ! i) * RESOLUTION \<le> uint t2 - uint (cl_start_time s)
    \<and> uint t2 - uint (cl_start_time s) < (uint (cl_mtimecmp s ! i) + 1) * RESOLUTION"
proof -
  let ?c = "uint (cl_mtimecmp s ! i)" and ?S = "uint (cl_start_time s)"
  define t1 where "t1 = t + event_diff period t s i * period"
  define t2 where "t2 = t1 + event_diff period t1 s i * period"
  have m: "uint (get_mtime t s) < ?c" using assms(4) by (simp add: word_less_def)
  note W = wait_time[OF assms(1) m assms(7,2,5,6), folded t1_def]
  have t1: "uint t1 < 2 ^ 63" "?S \<le> uint t1" using W(3,4) assms(1,5,7) by linarith+
  have due: "Timer_irq i True \<in> set (clint_event_handler period x s) \<longleftrightarrow> ?c * RESOLUTION \<le> uint x - ?S"
    if "uint x < 2 ^ 63" "?S \<le> uint x" for x
    using enqueued(2)[OF assms(3)] get_mtime_uint[OF that(2,1)]
    by (auto simp: clint_event_handler_def check_event_def Let_def word_le_def RESOLUTION_def split: if_splits)
  have e: "Enqueue i (event_diff period t s i) \<in> set (check_event period t s)"
    using enqueued(1)[OF assms(3)] W(1) by simp
  show ?thesis
  proof (cases "?c * RESOLUTION \<le> uint t1 - ?S")
    case True
    then show ?thesis using e W(3) due[OF t1] t1_def by blast
  next
    case False
    then have m1: "uint (get_mtime t1 s) < ?c" unfolding get_mtime_uint[OF t1(2,1)] by (simp add: RESOLUTION_def)
    note W1 = wait_time[OF t1(2) m1 assms(7) t1(1) assms(5,6), folded t2_def]
    have t2: "uint t2 < 2 ^ 63" "?S \<le> uint t2" using W1(3,4) t1(2) assms(5,7) by linarith+
    have "?c * RESOLUTION \<le> uint t2 - ?S" using W(2) W1(4) by linarith
    moreover have "Enqueue i (event_diff period t1 s i) \<in> set (clint_event_handler period t1 s)"
      using enqueued(1)[OF assms(3)] W1(1) by (simp add: clint_event_handler_def)
    ultimately show ?thesis using e W1(3) due[OF t2] t1_def t2_def by blast
  qed
qed

text \<open>With a slower clock the interrupt can be lost: when the compare value is less than a clock
  period ahead, no event is enqueued for it.\<close>

theorem clint_timer_lost:
  assumes "uint (cl_start_time s) \<le> uint t" "uint t < 2 ^ 63" "i < length (cl_mtimecmp s)"
    "get_mtime t s \<le> cl_mtimecmp s ! i" "uint (cl_mtimecmp s ! i) * RESOLUTION < 2 ^ 64"
    "(uint (cl_mtimecmp s ! i) - uint (get_mtime t s)) * RESOLUTION < uint period"
  shows "Enqueue i d \<notin> set (clint_event_handler period t s)"
proof -
  have "uint (event_diff period t s i) = 0"
    using event_diff_uint[OF assms(1,2) _ assms(5), of period] assms(4,6)
    by (simp add: word_le_def div_pos_pos_trivial RESOLUTION_def)
  then have "event_diff period t s i = 0" by (simp add: word_uint_eq_iff)
  then show ?thesis using enqueued(1)[OF assms(3)] by (auto simp: clint_event_handler_def check_mtime_def Let_def)
qed

text \<open>A value written to \<open>mtime\<close> is taken in picoseconds, not in ticks: reading it back at once gives
  it divided by 100000.\<close>

theorem clint_mtime_write_scaled:
  assumes "uint v < 2 ^ 63" "length (cl_msip s) * 4 \<le> MTIMECMP_BASE" "length (cl_mtimecmp s) * 8 \<le> MTIME_BASE - MTIMECMP_BASE"
  shows "\<exists>outs s'. clint_store period t 0xbff8 8 (le_bytes 8 v) s = Some (True, outs, s')
    \<and> clint_load t 0xbff8 8 s' = Some (True, le_bytes 8 (word_of_int (uint v div 100000)))"
proof -
  have b: "blit 0 8 (le_bytes 8 v) (le_bytes 8 w) = Some (le_bytes 8 v)" for w by (simp add: blit_def)
  have g: "get_mtime t (s\<lparr>cl_start_time := t - v\<rparr>) = word_of_int (uint v div 100000)"
  proof -
    have "sint v = uint v" unfolding sint_uint
      by (rule signed_take_bit_int_eq_self) (use assms(1) uint_ge_0[of v] in \<open>simp_all, linarith?\<close>)
    then show ?thesis by (simp add: get_mtime_def RESOLUTION_def signed_divide_int_def sgn_if)
  qed
  have sl: "bslice 0 8 (le_bytes 8 w) = Some (le_bytes 8 w)" for w by (simp add: bslice_def)
  show ?thesis using assms(2,3)
    by (simp add: clint_store_def clint_load_def MTIMECMP_BASE_def MTIME_BASE_def b g sl le_word_le_bytes_8 Let_def)
qed

section \<open>Examples\<close>

definition demo_clint :: clint where
  "demo_clint = \<lparr>cl_msip = [0, 0], cl_mtimecmp = [5, 0], cl_start_time = 0\<rparr>"

theorem clint_registers_witness:
  "\<exists>outs s'. clint_store 1000 0 4 4 [1, 0, 0, 0] demo_clint = Some (True, outs, s') \<and> clint_load 7 4 4 s' = Some (True, [1, 0, 0, 0])"
proof -
  have "length (cl_msip demo_clint) * 4 \<le> MTIMECMP_BASE"
    "length (cl_mtimecmp demo_clint) * 8 \<le> MTIME_BASE - MTIMECMP_BASE"
    "unat (4 :: u32) + length [1, 0, 0, 0 :: u8] \<le> length (cl_msip demo_clint) * 4"
    by (simp_all add: demo_clint_def MTIMECMP_BASE_def MTIME_BASE_def)
  from clint_registers[OF this(1,2) disjI1[OF this(3)], of 1000 0 7] obtain outs s' where
    "clint_store 1000 0 4 (length [1, 0, 0, 0 :: u8]) [1, 0, 0, 0] demo_clint = Some (True, outs, s')"
    "clint_load 7 4 (length [1, 0, 0, 0 :: u8]) s' = Some (True, [1, 0, 0, 0])" by blast
  then show ?thesis by (simp add: numeral_eq_Suc)
qed

theorem clint_timer_fires_witness: "\<exists>d. Enqueue 0 d \<in> set (check_event 1000 0 demo_clint)"
  using clint_timer_fires[of demo_clint 0 0 1000]
  by (auto simp: demo_clint_def get_mtime_def RESOLUTION_def signed_divide_int_def)

end
