(* ===== verification/Soc.thy ===== *)
theory Soc imports Plic Clint IssPrecise begin

text \<open>
  A hart with its interrupt controllers: the lines of the PLIC (theory \<open>Plic\<close>) and of the CLINT (theory \<open>Clint\<close>) are bound to the
  ports of the core (theory \<open>IssTrap\<close>) as their names say: \<open>m_irq_<hart>\<close> to \<open>mei\<close>, \<open>s_irq_<hart>\<close> to \<open>sei\<close>,
  \<open>sw_irq_<hart>\<close> to \<open>msi\<close> and \<open>timer_irq_<hart>\<close> to \<open>mti\<close>. The properties go from the device to the handler.
\<close>

section \<open>The lines bound\<close>

fun plic_drives :: "nat \<Rightarrow> int \<Rightarrow> plic_out list \<Rightarrow> iss \<Rightarrow> iss" where
  "plic_drives hart now [] s = s"
| "plic_drives hart now (((m, p), v) # outs) s =
     plic_drives hart now outs (if p = hart then (if m then mei_sync now v s else sei_sync now v s) else s)"

fun clint_drives :: "nat \<Rightarrow> int \<Rightarrow> clint_out list \<Rightarrow> iss \<Rightarrow> iss" where
  "clint_drives hart now [] s = s"
| "clint_drives hart now (Sw_irq p v # outs) s = clint_drives hart now outs (if p = hart then msi_sync now v s else s)"
| "clint_drives hart now (Timer_irq p v # outs) s = clint_drives hart now outs (if p = hart then mti_sync now v s else s)"
| "clint_drives hart now (Enqueue p d # outs) s = clint_drives hart now outs s"

section \<open>What a line does to the core\<close>

lemma line_regs:
  "mie (irq_line_sync irq now v s) = mie s" "mideleg (irq_line_sync irq now v s) = mideleg s"
  "core_mode (irq_line_sync irq now v s) = core_mode s" "mstatus (irq_line_sync irq now v s) = mstatus s"
  "mip (irq_line_sync irq now v s) = (mip s AND NOT (push_bit irq 1)) OR push_bit irq (of_bool v)"
  by (simp_all add: irq_line_sync_def check_interrupts_def switch_to_full_mode_def stalled_dec_def on_tm_def Let_def)

lemma line_mip: "irq < 32 \<Longrightarrow> bit (mip (irq_line_sync irq now v s)) i = (if i = irq then v else bit (mip s) i)"
  unfolding line_regs by (auto simp: bit_simps dest: bit_imp_le_length)

text \<open>A core that only sleeps runs again when an enabled line goes up; one that is not stalled stays so.\<close>

lemma line_unstalls:
  assumes "iss_reach s" "irq < 32" "bit (mie s) irq" "stalled s = of_bool (wfi s)"
  shows "stalled (irq_line_sync irq now True s) = 0"
proof (cases "wfi s")
  case True
  then show ?thesis using line_wakes[OF assms(1) True assms(2), of now True] assms(3,4) by (simp add: Let_def)
next
  case False
  then show ?thesis using assms(4)
    by (simp add: irq_line_sync_def check_interrupts_def switch_to_full_mode_def Let_def)
qed

definition irq_open :: "nat \<Rightarrow> iss \<Rightarrow> bool" where
  "irq_open i s \<longleftrightarrow> bit (mie s) i \<and> (if bit (mideleg s) i then core_mode s = PRIV_U \<or> core_mode s = PRIV_S \<and> bit (mstatus s) MS_SIE
      else core_mode s \<noteq> PRIV_M \<or> bit (mstatus s) MS_MIE)"

lemma irq_open_line: "irq_open i (irq_line_sync irq now v s) = irq_open i s"
  by (simp add: irq_open_def line_regs)

lemma irq_deliverable_open: "irq_deliverable s i \<longleftrightarrow> irq_open i s \<and> bit (mip s) i"
  by (auto simp: irq_deliverable_def irq_open_def)

text \<open>So the interrupt of the line, or one that goes before it, is entered within the stall cycles.\<close>

lemma line_entered:
  fixes now :: int
  assumes "iss_reach s" "irq < 32" "irq_open irq s" "stalled s = of_bool (wfi s)" "decodes get_insn"
    "s' = irq_line_sync irq now True s"
  shows "\<exists>i<32. \<exists>s1. irq_best s' i \<and> irq_entered (resumed s') i s1
    \<and> instr_events fetch get_insn (Suc (nat (stall_cycles (iss_timing s')))) s' = ideal_exec True fetch get_insn s1"
proof (rule irq_response)
  show "iss_reach s'" unfolding assms(6) using iss_reach.line[OF assms(1)] .
  show "stalled s' = 0" unfolding assms(6) using line_unstalls[OF assms(1,2) _ assms(4)] assms(3) by (simp add: irq_open_def)
  show "irq_deliverable s' irq" unfolding assms(6) irq_deliverable_open irq_open_line using line_mip[OF assms(2)] assms(3) by simp
qed (rule assms(5))

lemma best_first: "irq_best s i \<Longrightarrow> irq_deliverable s 11 \<Longrightarrow> \<not> bit (mideleg s) 11 \<Longrightarrow> i = 11"
  unfolding irq_best_def by (drule conjunct2, drule spec[of _ 11]) (auto simp: irq_rank_def split: if_splits)

lemma best_before: "irq_best s i \<Longrightarrow> irq_deliverable s j \<Longrightarrow> \<not> bit (mideleg s) j \<Longrightarrow> \<not> bit (mideleg s) i \<and> irq_rank i \<le> irq_rank j"
  by (auto simp: irq_best_def)

section \<open>From a device to its handler\<close>

text \<open>C2: When a source whose priority is above the threshold goes up, the machine context of the hart is
  the first to enable it and has not claimed it, and the hart has machine external interrupts open, is
  running or asleep, then the PLIC drives exactly the line of the hart, and the core enters the external
  interrupt, before any other, by event number \<open>stall_cycles + 1\<close>, whatever instructions are in memory.\<close>

theorem external_irq_entered:
  assumes "pl_contexts p = xs @ c # ys" "\<forall>x\<in>set xs. \<not> has_id (pc_enable x) (Suc port)" "has_id (pc_enable c) (Suc port)"
    "\<not> has_id (pc_claimed c) (Suc port)" "Suc port < pl_num_ids p" "context_line c = (True, hart)"
    "iss_reach s" "irq_open 11 s" "\<not> bit (mideleg s) 11" "stalled s = of_bool (wfi s)" "decodes get_insn"
    "pc_threshold c < pl_priority p (Suc port)"
  shows "\<exists>s1. let s' = plic_drives hart now (fst (plic_irq_sync True port p)) s
    in irq_entered (resumed s') 11 s1
      \<and> instr_events fetch get_insn (Suc (nat (stall_cycles (iss_timing s')))) s' = ideal_exec True fetch get_insn s1"
proof -
  let ?s = "irq_line_sync 11 now True s"
  have e: "plic_drives hart now (fst (plic_irq_sync True port p)) s = ?s"
    using irq_sync_enabled[OF assms(1-5)] assms(6) by (simp add: mei_sync_def IRQ_M_EXT_def)
  have d: "irq_deliverable ?s 11" unfolding irq_deliverable_open irq_open_line using line_mip[of 11] assms(8) by simp
  have "\<not> bit (mideleg ?s) 11" using assms(9) by (simp add: line_regs)
  with line_entered[OF assms(7) _ assms(8,10,11) refl, of now fetch] best_first[OF _ d] show ?thesis
    unfolding e Let_def by force
qed

text \<open>The timer: the event of the CLINT drives the line of each hart, up when it is due.\<close>

lemma clint_drives_append: "clint_drives hart now (xs @ ys) s = clint_drives hart now ys (clint_drives hart now xs s)"
  by (induction hart now xs s rule: clint_drives.induct) simp_all

lemma clint_drives_timers:
  "clint_drives hart now (map (\<lambda>i. Timer_irq i (f i)) [0..<n]) s = (if hart < n then mti_sync now (f hart) s else s)"
  by (induction n) (auto simp: clint_drives_append)

lemma clint_drives_events: "clint_drives hart now (check_event period t c) s = s"
proof -
  have "\<forall>x\<in>set xs. \<exists>i d. x = Enqueue i d \<Longrightarrow> clint_drives hart now xs s = s" for xs
    by (induction xs) auto
  then show ?thesis by (auto simp: check_event_def Let_def split: if_splits)
qed

text \<open>C20: When the timer of a hart is due at an event of the CLINT, and the hart has the machine timer
  interrupt open, is running or asleep, then the core enters the timer interrupt, or a machine
  interrupt that goes before it, by event number \<open>stall_cycles + 1\<close>.\<close>

theorem timer_irq_entered:
  assumes "hart < length (cl_mtimecmp c)" "cl_mtimecmp c ! hart \<le> get_mtime t c"
    "iss_reach s" "irq_open 7 s" "\<not> bit (mideleg s) 7" "stalled s = of_bool (wfi s)" "decodes get_insn"
  shows "\<exists>i s1. let s' = clint_drives hart now (clint_event_handler period t c) s
    in irq_rank i \<le> irq_rank 7 \<and> irq_best s' i \<and> core_mode s1 = PRIV_M \<and> irq_entered (resumed s') i s1
      \<and> instr_events fetch get_insn (Suc (nat (stall_cycles (iss_timing s')))) s' = ideal_exec True fetch get_insn s1"
proof -
  let ?s = "irq_line_sync 7 now True s"
  have e: "clint_drives hart now (clint_event_handler period t c) s = ?s"
    using clint_drives_timers[of hart now _ "length (cl_mtimecmp c)" s] assms(1,2)
    by (simp add: clint_event_handler_def clint_drives_append clint_drives_events check_mtime_def Let_def mti_sync_def IRQ_M_TIMER_def)
  have d: "irq_deliverable ?s 7" unfolding irq_deliverable_open irq_open_line using line_mip[of 7] assms(4) by simp
  have n: "\<not> bit (mideleg ?s) 7" using assms(5) by (simp add: line_regs)
  obtain i s1 where i: "irq_best ?s i" "irq_entered (resumed ?s) i s1"
      "instr_events fetch get_insn (Suc (nat (stall_cycles (iss_timing ?s)))) ?s = ideal_exec True fetch get_insn s1"
    using line_entered[OF assms(3) _ assms(4,6,7) refl, of now fetch] by auto
  note B = best_before[OF i(1) d n]
  have "mideleg (resumed ?s) = mideleg ?s" by (simp add: resumed_def)
  then have "core_mode s1 = PRIV_M" using i(2) B by (auto simp: irq_entered_def)
  then show ?thesis unfolding e Let_def using i B by blast
qed

text \<open>The pending bits of the lines are read-only in RISC-V; here software that writes \<open>mip\<close> takes a
  pending interrupt of a line that is still up away, and it comes back only with the next change of the line.\<close>

theorem mip_write_drops_line:
  assumes "bit (mip s) 11"
  shows "\<not> bit (mip (snd (mip_access now True 0 s))) 11"
  using assms by (simp add: mip_access_def check_interrupts_def switch_to_full_mode_def stalled_dec_def on_tm_def Let_def)

section \<open>Examples\<close>

text \<open>The software enables the three machine interrupts from a register, then interrupts.\<close>

definition hart_code :: "u32 \<Rightarrow> decoded option" where
  "hart_code pc = (if pc = 0x100 then Some \<lparr>d_insn = \<lparr>out_regs = [0], in_regs = [5], uim = [0x304], sim = [], insn_size = 4\<rparr>,
       d_handler = csrrs_exec 7, d_fast_handler = csrrs_exec 7\<rparr>
     else if pc = 0x104 then Some (csr_set 0x300) else None)"

lemma hart_code_decodes: "decodes hart_code"
  by (auto simp: decodes_def hart_code_def csr_set_def intro: iss_handler.intros)

definition hart_iss :: iss where
  "hart_iss = demo_iss\<lparr>iss_regfile := demo_regfile\<lparr>regs := (\<lambda>_. 0)(5 := 0x888)\<rparr>\<rparr>"

definition hart_open :: iss where
  "hart_open = hart_iss\<lparr>mie := 0x888, mstatus := 0x6008, irq_enable := True, current_insn := 0x108,
     iss_timing := demo_timing\<lparr>stall_cycles := 3\<rparr>\<rparr>"

lemma hart_open_reach: "iss_reach hart_open"
proof -
  have "iss_reach (hart_iss\<lparr>skip_irq_check := True\<rparr>)"
    by (rule iss_reach.start) (simp add: iss_started_def hart_iss_def demo_iss_def PRIV_M_def)
  moreover have "instr_event (\<lambda>_. True) hart_code (hart_iss\<lparr>skip_irq_check := True\<rparr>) = Some (hart_iss\<lparr>mie := 0x888, current_insn := 0x104\<rparr>)"
    by (simp add: demo_simps hart_code_def hart_iss_def csrrs_exec_def get_reg_def demo_regfile_def)
  ultimately have r: "iss_reach (hart_iss\<lparr>mie := 0x888, current_insn := 0x104\<rparr>)"
    using iss_reach.instr[OF _ _ hart_code_decodes] by (simp add: hart_iss_def demo_iss_def)
  have "instr_event (\<lambda>_. True) hart_code (hart_iss\<lparr>mie := 0x888, current_insn := 0x104\<rparr>) = Some hart_open"
    by (simp add: demo_simps hart_code_def hart_iss_def hart_open_def)
  with r show ?thesis using iss_reach.instr[OF _ _ hart_code_decodes] by (simp add: hart_iss_def demo_iss_def)
qed

lemma hart_open_state: "irq_open 11 hart_open" "irq_open 7 hart_open" "mideleg hart_open = 0"
  "stalled hart_open = of_bool (wfi hart_open)"
  by (simp_all add: irq_open_def hart_open_def hart_iss_def demo_iss_def)

theorem external_irq_entered_witness:
  "\<exists>s1. irq_entered (resumed (plic_drives 0 20 (fst (plic_irq_sync True 2 demo_plic)) hart_open)) 11 s1"
proof -
  have c: "pl_contexts demo_plic = [] @ demo_context # tl (pl_contexts demo_plic)" by (simp add: demo_plic_def)
  have "has_id (pc_enable demo_context) (Suc 2)" "\<not> has_id (pc_claimed demo_context) (Suc 2)" "Suc 2 < pl_num_ids demo_plic"
      "context_line demo_context = (True, 0)"
    by (simp_all add: demo_context_def demo_plic_def has_id_def context_line_def)
  moreover have "pc_threshold demo_context < pl_priority demo_plic (Suc 2)" "\<forall>x\<in>set []. \<not> has_id (pc_enable x) (Suc 2)"
      "\<not> bit (mideleg hart_open) 11"
    by (simp_all add: demo_context_def demo_plic_def hart_open_state)
  ultimately show ?thesis
    using external_irq_entered[OF c _ _ _ _ _ hart_open_reach hart_open_state(1) _ hart_open_state(4) hart_code_decodes,
      where port = 2 and now = 20] unfolding Let_def by blast
qed

theorem timer_irq_entered_witness:
  "\<exists>i s1. irq_rank i \<le> irq_rank 7 \<and> irq_entered (resumed (clint_drives 0 20 (clint_event_handler 1000 500000 demo_clint) hart_open)) i s1"
proof -
  have "0 < length (cl_mtimecmp demo_clint)" "cl_mtimecmp demo_clint ! 0 \<le> get_mtime 500000 demo_clint"
    by (simp_all add: demo_clint_def get_mtime_def RESOLUTION_def signed_divide_int_def)
  from timer_irq_entered[OF this hart_open_reach hart_open_state(2) _ hart_open_state(4) hart_code_decodes, where now = 20 and period = 1000]
  show ?thesis unfolding Let_def hart_open_state(3) by simp blast
qed

end
