(* ===== verification/CircularBuffer.thy ===== *)
theory CircularBuffer imports Prelude "HOL-Library.Monad_Syntax" begin

text \<open>
  The circular buffer of the GDB server (\<open>src/models/gdbserver/circular-buffer.cpp\<close> and \<open>.hpp\<close>), the
  interface of a byte queue it provides and the refinement of that queue by the buffer. Offsets and
  sizes are \<open>size_t\<close>, kept as naturals: none of them is above the size of the buffer. A block is handed out
  as its offset in the buffer (\<open>None\<close> for the null pointer) and its length.
\<close>

section \<open>The buffer\<close>

record cbuf =
  cb_buf :: bytes
  cb_head :: nat
  cb_tail :: nat
  cb_max_size :: nat
  cb_full :: bool

definition CircularCharBuffer :: "nat \<Rightarrow> bytes \<Rightarrow> cbuf" where
  "CircularCharBuffer sz garbage = \<lparr>cb_buf = take sz garbage, cb_head = 0, cb_tail = 0, cb_max_size = sz, cb_full = False\<rparr>"

definition cb_reset :: "cbuf \<Rightarrow> cbuf" where
  "cb_reset b = b\<lparr>cb_head := 0, cb_tail := 0, cb_full := False\<rparr>"

definition cb_is_empty :: "cbuf \<Rightarrow> bool" where
  "cb_is_empty b \<longleftrightarrow> cb_head b = cb_tail b \<and> \<not> cb_full b"

definition cb_is_full :: "cbuf \<Rightarrow> bool" where "cb_is_full b = cb_full b"

definition cb_size :: "cbuf \<Rightarrow> nat" where
  "cb_size b = (if cb_full b then cb_max_size b
     else if cb_head b \<le> cb_tail b then cb_tail b - cb_head b
     else cb_max_size b - cb_head b + cb_tail b)"

definition cb_available :: "cbuf \<Rightarrow> nat" where "cb_available b = cb_max_size b - cb_size b"

definition commit_write :: "nat \<Rightarrow> cbuf \<Rightarrow> cbuf" where
  "commit_write l b =
     (if l > 0 then
        (let t = cb_tail b + l;
             t = (if t \<ge> cb_max_size b then t - cb_max_size b else t)
         in b\<lparr>cb_tail := t, cb_full := (if t = cb_head b then True else cb_full b)\<rparr>)
      else b)"

definition write_block :: "cbuf \<Rightarrow> nat option \<times> nat \<times> cbuf" where
  "write_block b =
     (if cb_is_empty b then (Some 0, cb_max_size b, b\<lparr>cb_head := 0, cb_tail := 0\<rparr>)
      else if cb_is_full b then (None, 0, b)
      else if cb_tail b < cb_head b then (Some (cb_tail b), cb_head b - cb_tail b, b)
      else (Some (cb_tail b), cb_max_size b - cb_tail b, b))"

definition commit_read :: "nat \<Rightarrow> cbuf \<Rightarrow> cbuf" where
  "commit_read l b =
     (if l > 0 then
        (let h = cb_head b + l;
             h = (if h \<ge> cb_max_size b then h - cb_max_size b else h)
         in b\<lparr>cb_head := h, cb_full := False\<rparr>)
      else b)"

definition read_block :: "cbuf \<Rightarrow> nat option \<times> nat" where
  "read_block b =
     (if cb_is_empty b then (None, 0)
      else if cb_tail b \<le> cb_head b then (Some (cb_head b), cb_max_size b - cb_head b)
      else (Some (cb_head b), cb_tail b - cb_head b))"

text \<open>The bytes of the block handed out for reading.\<close>

definition read_block_bytes :: "cbuf \<Rightarrow> bytes" where
  "read_block_bytes b = (case read_block b of (None, _) \<Rightarrow> [] | (Some off, l) \<Rightarrow> take l (drop off (cb_buf b)))"

text \<open>A write into the block handed out: the whole of \<open>d\<close> at its start, then committed. \<open>None\<close>: the
  write leaves the block.\<close>

definition write_to_block :: "bytes \<Rightarrow> cbuf \<Rightarrow> cbuf option" where
  "write_to_block d b =
     (case write_block b of
        (None, _, _) \<Rightarrow> None
      | (Some off, l, b1) \<Rightarrow>
          if length d \<le> l
          then map_option (\<lambda>m. commit_write (length d) (b1\<lparr>cb_buf := m\<rparr>)) (blit off (length d) d (cb_buf b1))
          else None)"

text \<open>The two copy loops: every block is copied from the start of \<open>s\<close> (into the start of \<open>s\<close> for
  \<open>read_copy\<close>), with the whole of \<open>l\<close> as bound. The outer option is the return of the loop, the inner
  one \<open>None\<close> when a copy leaves an array.\<close>

partial_function (option) write_copy_loop :: "bytes \<Rightarrow> nat \<Rightarrow> nat \<Rightarrow> cbuf \<Rightarrow> (nat \<times> cbuf) option option" where
  "write_copy_loop s l copied b =
     (if copied < l \<and> \<not> cb_full b then
        (case write_block b of
           (None, _, b1) \<Rightarrow> Some (Some (copied, b1))
         | (Some off, blk_len, b1) \<Rightarrow>
             if blk_len = 0 then Some (Some (copied, b1))
             else (let to_copy = min l blk_len
                   in case blit off to_copy s (cb_buf b1) of
                        None \<Rightarrow> Some None
                      | Some m \<Rightarrow> write_copy_loop s l (copied + to_copy) (commit_write to_copy (b1\<lparr>cb_buf := m\<rparr>))))
      else Some (Some (copied, b)))"

definition write_copy :: "bytes \<Rightarrow> nat \<Rightarrow> cbuf \<Rightarrow> (nat \<times> cbuf) option option" where
  "write_copy s l b = write_copy_loop s l 0 b"

partial_function (option) read_copy_loop :: "bytes \<Rightarrow> nat \<Rightarrow> nat \<Rightarrow> cbuf \<Rightarrow> (nat \<times> bytes \<times> cbuf) option option" where
  "read_copy_loop s l copied b =
     (if copied < l \<and> cb_size b > 0 then
        (let to_copy = min l (snd (read_block b))
         in case Option.bind (fst (read_block b)) (\<lambda>off. bslice off to_copy (cb_buf b)) of
              None \<Rightarrow> Some None
            | Some d \<Rightarrow>
               (case blit 0 to_copy d s of
                  None \<Rightarrow> Some None
                | Some s1 \<Rightarrow> read_copy_loop s1 l (copied + to_copy) (commit_read to_copy b)))
      else Some (Some (copied, s, b)))"

definition read_copy :: "bytes \<Rightarrow> nat \<Rightarrow> cbuf \<Rightarrow> (nat \<times> bytes \<times> cbuf) option option" where
  "read_copy s l b = read_copy_loop s l 0 b"

section \<open>The queue it implements\<close>

definition cb_ok :: "cbuf \<Rightarrow> bool" where
  "cb_ok b \<longleftrightarrow> 0 < cb_max_size b \<and> length (cb_buf b) = cb_max_size b \<and> cb_head b < cb_max_size b \<and> cb_tail b < cb_max_size b
     \<and> (cb_full b \<longrightarrow> cb_head b = cb_tail b)"

definition cb_list :: "cbuf \<Rightarrow> bytes" where
  "cb_list b = take (cb_size b) (drop (cb_head b) (cb_buf b) @ cb_buf b)"

text \<open>The interface the packet codec relies on: a queue of bytes, from which a block at the front can
  be read and consumed, and to whose end a block can be added.\<close>

locale byte_queue =
  fixes ok :: "'s \<Rightarrow> bool" and contents :: "'s \<Rightarrow> bytes" and capacity :: "'s \<Rightarrow> nat"
    and front :: "'s \<Rightarrow> bytes" and consume :: "nat \<Rightarrow> 's \<Rightarrow> 's" and add :: "bytes \<Rightarrow> 's \<Rightarrow> 's option"
  assumes bounded: "ok s \<Longrightarrow> length (contents s) \<le> capacity s"
    and front_prefix: "ok s \<Longrightarrow> \<exists>rest. contents s = front s @ rest"
    and front_nonempty: "ok s \<Longrightarrow> contents s \<noteq> [] \<Longrightarrow> front s \<noteq> []"
    and consume_ok: "ok s \<Longrightarrow> n \<le> length (front s) \<Longrightarrow>
      ok (consume n s) \<and> contents (consume n s) = drop n (contents s) \<and> capacity (consume n s) = capacity s"
    and add_ok: "ok s \<Longrightarrow> add d s = Some s' \<Longrightarrow> ok s' \<and> contents s' = contents s @ d \<and> capacity s' = capacity s"
begin

lemma front_empty: "ok s \<Longrightarrow> front s = [] \<longleftrightarrow> contents s = []"
  using front_prefix[of s] front_nonempty[of s] by auto

lemma front_length: "ok s \<Longrightarrow> length (front s) \<le> length (contents s)"
  using front_prefix[of s] by auto

text \<open>Consuming the blocks at the front in turn gives the bytes of the queue in order, and at most one
  block per byte.\<close>

lemma fifo:
  assumes "ok s"
  shows "front s @ contents (consume (length (front s)) s) = contents s"
    "contents s \<noteq> [] \<Longrightarrow> length (contents (consume (length (front s)) s)) < length (contents s)"
proof -
  obtain rest where r: "contents s = front s @ rest" using front_prefix[OF assms] by blast
  have c: "contents (consume (length (front s)) s) = rest" using consume_ok[OF assms order_refl] r by simp
  show "front s @ contents (consume (length (front s)) s) = contents s" using c r by simp
  show "length (contents (consume (length (front s)) s)) < length (contents s)" if "contents s \<noteq> []"
    using front_nonempty[OF assms that] c r by simp
qed

end

lemma cb_list_cases:
  assumes "cb_ok b"
  shows "cb_is_empty b \<Longrightarrow> cb_list b = []"
    "cb_head b < cb_tail b \<Longrightarrow> cb_list b = take (cb_tail b - cb_head b) (drop (cb_head b) (cb_buf b))"
    "cb_tail b \<le> cb_head b \<Longrightarrow> \<not> cb_is_empty b \<Longrightarrow> cb_list b = drop (cb_head b) (cb_buf b) @ take (cb_tail b) (cb_buf b)"
  using assms by (auto simp: cb_list_def cb_size_def cb_ok_def cb_is_empty_def)

lemma length_cb_list: "cb_ok b \<Longrightarrow> length (cb_list b) = cb_size b"
  by (auto simp: cb_list_def cb_size_def cb_ok_def)

lemma cb_size_le: "cb_ok b \<Longrightarrow> cb_size b \<le> cb_max_size b"
  by (auto simp: cb_size_def cb_ok_def)

lemma cb_list_empty: "cb_ok b \<Longrightarrow> cb_list b = [] \<longleftrightarrow> cb_is_empty b"
  by (auto simp: cb_is_empty_def cb_ok_def cb_size_def simp flip: length_0_conv simp: length_cb_list)

text \<open>A block for reading is a prefix of the queue; the block for writing is the free space behind it.\<close>

lemma read_block_bytes_cases:
  assumes "cb_ok b"
  shows "read_block_bytes b = (if cb_is_empty b then []
     else if cb_tail b \<le> cb_head b then drop (cb_head b) (cb_buf b)
     else take (cb_tail b - cb_head b) (drop (cb_head b) (cb_buf b)))"
  using assms by (auto simp: read_block_bytes_def read_block_def cb_ok_def)

lemma read_block_length: "cb_ok b \<Longrightarrow> length (read_block_bytes b) = snd (read_block b)"
  by (auto simp: read_block_bytes_def read_block_def cb_ok_def)

lemma read_block_prefix:
  assumes "cb_ok b" shows "\<exists>rest. cb_list b = read_block_bytes b @ rest"
proof (cases "cb_is_empty b")
  case True
  then show ?thesis using cb_list_cases(1)[OF assms] by (simp add: read_block_bytes_cases[OF assms])
next
  case False
  then show ?thesis using cb_list_cases(2,3)[OF assms] by (cases "cb_tail b \<le> cb_head b") (auto simp: read_block_bytes_cases[OF assms])
qed

lemma read_block_nonempty: "cb_ok b \<Longrightarrow> cb_list b \<noteq> [] \<Longrightarrow> read_block_bytes b \<noteq> []"
  by (auto simp: read_block_bytes_cases cb_list_empty cb_ok_def)

lemma commit_read_correct:
  assumes "cb_ok b" "n \<le> length (read_block_bytes b)"
  shows "cb_ok (commit_read n b)" "cb_list (commit_read n b) = drop n (cb_list b)" "cb_max_size (commit_read n b) = cb_max_size b"
proof -
  let ?b = "commit_read n b"
  show "cb_max_size ?b = cb_max_size b" by (simp add: commit_read_def Let_def)
  have l: "n \<le> snd (read_block b)" using assms(2) read_block_length[OF assms(1)] by simp
  show ok: "cb_ok ?b"
    using assms(1) l by (auto simp: commit_read_def Let_def cb_ok_def read_block_def cb_is_empty_def split: if_splits)
  consider "n = 0" | "0 < n" "cb_head b < cb_tail b" "n \<le> cb_tail b - cb_head b"
    | "0 < n" "cb_tail b \<le> cb_head b" "\<not> cb_is_empty b" "n \<le> cb_max_size b - cb_head b"
    using l by (cases "n = 0") (auto simp: read_block_def split: if_splits)
  then show "cb_list ?b = drop n (cb_list b)"
  proof cases
    case 1
    then show ?thesis by (simp add: commit_read_def)
  next
    case 2
    then have "cb_head b + n < cb_max_size b" using assms(1) unfolding cb_ok_def by linarith
    then have h: "cb_head ?b = cb_head b + n" "cb_tail ?b = cb_tail b" "cb_buf ?b = cb_buf b" "\<not> cb_full ?b"
      using 2 by (simp_all add: commit_read_def Let_def)
    have "cb_list ?b = take (cb_tail b - (cb_head b + n)) (drop (cb_head b + n) (cb_buf b))"
    proof (cases "cb_head ?b < cb_tail ?b")
      case False
      then have "cb_is_empty ?b" using h 2 by (simp add: cb_is_empty_def)
      then show ?thesis using cb_list_cases(1)[OF ok] h False by simp
    qed (use cb_list_cases(2)[OF ok] h in simp)
    then show ?thesis using cb_list_cases(2)[OF assms(1) 2(2)] by (simp add: drop_take add.commute)
  next
    case 3
    have len: "length (cb_buf b) = cb_max_size b" using assms(1) by (simp add: cb_ok_def)
    note L = cb_list_cases(3)[OF assms(1) 3(2,3)]
    show ?thesis
    proof (cases "cb_head b + n < cb_max_size b")
      case True
      then have h: "cb_head ?b = cb_head b + n" "cb_tail ?b = cb_tail b" "cb_buf ?b = cb_buf b" "\<not> cb_full ?b"
        using 3 by (simp_all add: commit_read_def Let_def)
      then have "cb_list ?b = drop (cb_head b + n) (cb_buf b) @ take (cb_tail b) (cb_buf b)"
        using cb_list_cases(3)[OF ok] 3 by (simp add: cb_is_empty_def)
      then show ?thesis using True 3 L len by (simp add: add.commute)
    next
      case False
      then have n: "n = cb_max_size b - cb_head b" and h: "cb_head ?b = 0" "cb_tail ?b = cb_tail b" "cb_buf ?b = cb_buf b" "\<not> cb_full ?b"
        using 3 by (simp_all add: commit_read_def Let_def)
      have "cb_list ?b = take (cb_tail b) (cb_buf b)"
      proof (cases "cb_tail b = 0")
        case True
        then have "cb_is_empty ?b" using h by (simp add: cb_is_empty_def)
        then show ?thesis using cb_list_cases(1)[OF ok] True by simp
      qed (use cb_list_cases(2)[OF ok] h in simp)
      then show ?thesis using L n len by simp
    qed
  qed
qed

text \<open>A write into the block handed out appends to the queue.\<close>

lemma write_block_reset:
  assumes "cb_ok b" "write_block b = (p, l, b1)"
  shows "cb_ok b1" "cb_list b1 = cb_list b" "cb_max_size b1 = cb_max_size b" "cb_size b1 = cb_size b"
    "p = None \<longleftrightarrow> cb_full b" "p = None \<longrightarrow> l = 0" "p \<noteq> None \<longrightarrow> p = Some (cb_tail b1) \<and> 0 < l \<and> l \<le> cb_available b
      \<and> cb_tail b1 + l \<le> cb_max_size b \<and> (cb_tail b1 < cb_head b1 \<longrightarrow> cb_tail b1 + l \<le> cb_head b1)"
    "cb_full b1 = cb_full b"
  using assms by (auto simp: write_block_def cb_ok_def cb_is_empty_def cb_is_full_def cb_list_def cb_size_def cb_available_def split: if_splits)

lemma append_at_tail:
  assumes "cb_ok b" "\<not> cb_full b" "cb_tail b + length d \<le> cb_max_size b"
    "cb_tail b < cb_head b \<longrightarrow> cb_tail b + length d \<le> cb_head b" "blit (cb_tail b) (length d) d (cb_buf b) = Some m"
  shows "cb_ok (commit_write (length d) (b\<lparr>cb_buf := m\<rparr>))"
    "cb_list (commit_write (length d) (b\<lparr>cb_buf := m\<rparr>)) = cb_list b @ d"
proof -
  let ?b = "commit_write (length d) (b\<lparr>cb_buf := m\<rparr>)"
  have len: "length (cb_buf b) = cb_max_size b" "length m = cb_max_size b" using assms(1) blit_length[OF assms(5)] by (simp_all add: cb_ok_def)
  have m: "m = take (cb_tail b) (cb_buf b) @ d @ drop (cb_tail b + length d) (cb_buf b)" using blit_SomeD(3)[OF assms(5)] by simp
  show ok: "cb_ok ?b" using assms(1-4) len by (auto simp: commit_write_def Let_def cb_ok_def split: if_splits)
  show "cb_list ?b = cb_list b @ d"
  proof (cases "d = []")
    case True
    then show ?thesis using m by (simp add: commit_write_def)
  next
    case False
    then have d: "0 < length d" by simp
    consider "cb_head b \<le> cb_tail b" "cb_tail b + length d < cb_max_size b" | "cb_head b \<le> cb_tail b" "cb_tail b + length d = cb_max_size b"
      | "cb_tail b < cb_head b" using assms(3) by linarith
    then show ?thesis
    proof cases
      case 1
      then have h: "cb_head ?b = cb_head b" "cb_tail ?b = cb_tail b + length d" "cb_buf ?b = m" using d
        by (simp_all add: commit_write_def Let_def)
      have "cb_list ?b = take (cb_tail b + length d - cb_head b) (drop (cb_head b) m)" using cb_list_cases(2)[OF ok] h 1 d by simp
      also have "\<dots> = drop (cb_head b) (take (cb_tail b) (cb_buf b)) @ d" using 1 len by (simp add: m)
      also have "drop (cb_head b) (take (cb_tail b) (cb_buf b)) = cb_list b"
        using cb_list_cases(1,2)[OF assms(1)] assms(2) 1(1) by (cases "cb_head b = cb_tail b") (simp_all add: cb_is_empty_def drop_take)
      finally show ?thesis .
    next
      case 2
      then have h: "cb_head ?b = cb_head b" "cb_tail ?b = 0" "cb_buf ?b = m" using d by (simp_all add: commit_write_def Let_def)
      have "\<not> cb_is_empty ?b" using d 2 by (simp add: commit_write_def Let_def cb_is_empty_def)
      then have "cb_list ?b = drop (cb_head b) m" using cb_list_cases(3)[OF ok] h by simp
      also have "\<dots> = drop (cb_head b) (take (cb_tail b) (cb_buf b)) @ d" using 2 len by (simp add: m)
      also have "drop (cb_head b) (take (cb_tail b) (cb_buf b)) = cb_list b"
        using cb_list_cases(1,2)[OF assms(1)] assms(2) 2(1) by (cases "cb_head b = cb_tail b") (simp_all add: cb_is_empty_def drop_take)
      finally show ?thesis .
    next
      case 3
      then have l: "cb_tail b + length d \<le> cb_head b" "cb_head b < cb_max_size b" using assms(1,4) by (simp_all add: cb_ok_def)
      then have h: "cb_head ?b = cb_head b" "cb_tail ?b = cb_tail b + length d" "cb_buf ?b = m" using d
        by (simp_all add: commit_write_def Let_def)
      have "\<not> cb_is_empty ?b" using d h l by (auto simp: cb_is_empty_def) (auto simp: commit_write_def Let_def split: if_splits)
      then have "cb_list ?b = drop (cb_head b) m @ take (cb_tail b + length d) m" using cb_list_cases(3)[OF ok] h l by simp
      also have "\<dots> = cb_list b @ d"
        using cb_list_cases(3)[OF assms(1)] 3 l len by (simp add: m cb_is_empty_def)
      finally show ?thesis .
    qed
  qed
qed

lemma write_to_block_correct:
  assumes "cb_ok b" "write_to_block d b = Some b'"
  shows "cb_ok b'" "cb_list b' = cb_list b @ d" "cb_max_size b' = cb_max_size b"
proof -
  obtain p l b1 where w: "write_block b = (p, l, b1)" by (cases "write_block b") auto
  note W = write_block_reset[OF assms(1) w]
  obtain m where m: "p = Some (cb_tail b1)" "length d \<le> l" "blit (cb_tail b1) (length d) d (cb_buf b1) = Some m"
      "b' = commit_write (length d) (b1\<lparr>cb_buf := m\<rparr>)"
    using assms(2) W(7) unfolding write_to_block_def w by (auto split: option.splits if_splits)
  have "\<not> cb_full b" using W(5) m(1) by simp
  then have f: "\<not> cb_full b1" "cb_max_size b1 = cb_max_size b" using W(3,8) by simp_all
  have "cb_tail b1 + length d \<le> cb_max_size b1" "cb_tail b1 < cb_head b1 \<longrightarrow> cb_tail b1 + length d \<le> cb_head b1"
    using W(7) m(1,2) f(2) by auto
  note A = append_at_tail[OF W(1) f(1) this m(3)]
  show "cb_ok b'" "cb_list b' = cb_list b @ d" using A W(2) m(4) by simp_all
  show "cb_max_size b' = cb_max_size b" using m(4) f(2) by (simp add: commit_write_def Let_def)
qed

interpretation cq: byte_queue cb_ok cb_list cb_max_size read_block_bytes commit_read write_to_block
proof unfold_locales
  show "length (cb_list s) \<le> cb_max_size s" if "cb_ok s" for s using that cb_size_le length_cb_list by simp
  show "cb_ok s' \<and> cb_list s' = cb_list s @ d \<and> cb_max_size s' = cb_max_size s"
    if "cb_ok s" "write_to_block d s = Some s'" for s d s' using write_to_block_correct[OF that] by simp
qed (simp_all add: read_block_prefix read_block_nonempty commit_read_correct)

section \<open>The copy loops\<close>

lemma write_copy_step:
  assumes "cb_ok b" "copied < l" "l \<le> length s" "\<not> cb_full b"
  defines "k \<equiv> min l (fst (snd (write_block b)))"
  shows "\<exists>b'. write_copy_loop s l copied b = write_copy_loop s l (copied + k) b' \<and> cb_ok b' \<and> cb_list b' = cb_list b @ take k s
    \<and> cb_max_size b' = cb_max_size b \<and> 0 < k \<and> k \<le> cb_available b
    \<and> (k < l \<longrightarrow> \<not> cb_full b' \<longrightarrow> 0 < cb_head b' \<and> fst (snd (write_block b')) = cb_available b')"
proof -
  obtain p blk b1 where w: "write_block b = (p, blk, b1)" by (cases "write_block b") auto
  note W = write_block_reset[OF assms(1) w]
  have p: "p = Some (cb_tail b1)" "0 < blk" "blk \<le> cb_available b" and k: "k = min l blk" using W(5,7) assms(4) by (auto simp: w k_def)
  have f: "\<not> cb_full b1" using assms(4) W(8) by simp
  have d: "length (take k s) = k" using assms(3) k by simp
  have fits: "cb_tail b1 + k \<le> cb_max_size b1" "cb_tail b1 < cb_head b1 \<longrightarrow> cb_tail b1 + k \<le> cb_head b1"
    using W(3,7) p k by auto
  then have "\<exists>m. blit (cb_tail b1) k s (cb_buf b1) = Some m"
    using W(1) k assms(3) by (intro blit_defined) (simp_all add: cb_ok_def)
  then obtain m where m: "blit (cb_tail b1) k s (cb_buf b1) = Some m" by blast
  then have m': "blit (cb_tail b1) (length (take k s)) (take k s) (cb_buf b1) = Some m"
    using assms(3) k by (simp add: blit_def split: if_splits)
  let ?b = "commit_write k (b1\<lparr>cb_buf := m\<rparr>)"
  have A: "cb_ok ?b" "cb_list ?b = cb_list b @ take k s"
    using append_at_tail[OF W(1) f _ _ m', unfolded d] fits W(2) by simp_all
  have "write_copy_loop s l copied b = write_copy_loop s l (copied + k) ?b"
    by (subst write_copy_loop.simps) (use assms(2,4) p m in \<open>simp add: w k Let_def\<close>)
  moreover have "0 < cb_head ?b \<and> fst (snd (write_block ?b)) = cb_available ?b" if "k < l" "\<not> cb_full ?b"
  proof -
    have kb: "k = blk" using that(1) k by simp
    have t: "blk = (if cb_tail b1 < cb_head b1 then cb_head b1 - cb_tail b1 else cb_max_size b1 - cb_tail b1)"
      using w assms(4) by (auto simp: write_block_def cb_is_empty_def cb_is_full_def split: if_splits)
    have "cb_tail ?b = 0 \<and> cb_head ?b = cb_head b1 \<and> 0 < cb_head b1"
      using that(2) t p(2) W(1) f by (auto simp: kb commit_write_def Let_def cb_ok_def split: if_splits)
    then show ?thesis using that(2) by (auto simp: write_block_def cb_is_empty_def cb_is_full_def cb_available_def cb_size_def)
        (use A(1) in \<open>auto simp: cb_ok_def\<close>)
  qed
  moreover have "cb_max_size ?b = cb_max_size b" using W(3) by (simp add: commit_write_def Let_def)
  ultimately show ?thesis using A p k assms(2) by auto
qed

lemma write_copy_all:
  assumes "cb_ok b" "l \<le> length s"
  shows "let k = min l (fst (snd (write_block b))); n = (if k < l then k + min l (cb_available b - k) else l)
    in \<exists>b'. write_copy s l b = Some (Some (n, b')) \<and> cb_ok b' \<and> cb_list b' = cb_list b @ take k s @ take (n - k) s"
proof -
  let ?k = "min l (fst (snd (write_block b)))"
  have stop: "write_copy_loop s l c b = Some (Some (c, b))" if "\<not> (c < l \<and> \<not> cb_full b)" for c b
    by (subst write_copy_loop.simps) (simp add: that)
  consider "l = 0" | "0 < l" "cb_full b" | "0 < l" "\<not> cb_full b" by blast
  then show ?thesis
  proof cases
    case 1
    then show ?thesis using assms(1) stop[of 0 b] by (simp add: write_copy_def)
  next
    case 2
    then have "fst (snd (write_block b)) = 0" "cb_available b = 0"
      by (simp_all add: write_block_def cb_is_empty_def cb_is_full_def cb_available_def cb_size_def)
    then show ?thesis using 2 assms(1) stop[of 0 b] by (simp add: write_copy_def)
  next
    case 3
    obtain b1 where b1: "write_copy_loop s l 0 b = write_copy_loop s l ?k b1" "cb_ok b1" "cb_list b1 = cb_list b @ take ?k s"
        "cb_max_size b1 = cb_max_size b" "0 < ?k" "?k \<le> cb_available b"
        "?k < l \<longrightarrow> \<not> cb_full b1 \<longrightarrow> 0 < cb_head b1 \<and> fst (snd (write_block b1)) = cb_available b1"
      using write_copy_step[OF assms(1) 3(1) assms(2) 3(2)] by auto
    have sz: "cb_size b1 = cb_size b + ?k" using length_cb_list[OF b1(2)] length_cb_list[OF assms(1)] b1(3) assms(2) by simp
    then have av: "cb_available b1 = cb_available b - ?k" using b1(4) by (simp add: cb_available_def)
    consider "?k = l" | "?k < l" "cb_full b1" | "?k < l" "\<not> cb_full b1" by linarith
    then show ?thesis
    proof cases
      case 1
      then have "write_copy s l b = Some (Some (l, b1))" using b1(1) stop[of l b1] by (simp add: write_copy_def)
      then show ?thesis using 1 b1(2,3) by (simp only: Let_def) simp
    next
      case 2
      then have "cb_available b - ?k = 0" using av by (simp add: cb_available_def cb_size_def)
      moreover have "write_copy s l b = Some (Some (?k, b1))" using 2 b1(1) stop[of ?k b1] by (simp add: write_copy_def)
      ultimately show ?thesis using 2(1) b1(2,3) by (simp only: Let_def) simp
    next
      case 3
      let ?k2 = "min l (cb_available b - ?k)"
      have e: "min l (fst (snd (write_block b1))) = ?k2" using b1(7) 3 av by simp
      obtain b2 where b2: "write_copy_loop s l ?k b1 = write_copy_loop s l (?k + ?k2) b2" "cb_ok b2" "cb_list b2 = cb_list b1 @ take ?k2 s"
          "cb_max_size b2 = cb_max_size b1" "0 < ?k2"
        using write_copy_step[OF b1(2) 3(1) assms(2) 3(2)] unfolding e by auto
      have "\<not> (?k + ?k2 < l \<and> \<not> cb_full b2)"
      proof
        assume a: "?k + ?k2 < l \<and> \<not> cb_full b2"
        then have "?k2 < l" by linarith
        then have "?k2 = cb_available b1" unfolding av by linarith
        moreover have "cb_size b2 = cb_size b1 + ?k2"
          using length_cb_list[OF b2(2)] length_cb_list[OF b1(2)] b2(3) assms(2) by simp
        ultimately have "cb_size b2 = cb_max_size b2" using cb_size_le[OF b1(2)] b2(4) by (simp add: cb_available_def)
        then show False using a b2(2) by (auto simp: cb_size_def cb_ok_def split: if_splits)
      qed
      then have "write_copy s l b = Some (Some (?k + ?k2, b2))" using b1(1) b2(1) stop by (simp add: write_copy_def)
      moreover have "cb_list b2 = cb_list b @ take ?k s @ take (?k + ?k2 - ?k) s" using b1(3) b2(3) by simp
      ultimately show ?thesis unfolding Let_def if_P[OF 3(1)] using b2(2) by blast
    qed
  qed
qed

text \<open>C36: \<open>write_copy\<close> always returns, stays within its arrays and appends \<open>n\<close> bytes to the queue:
  the start of \<open>s\<close> as far as the first free block goes, and when this is not all of it and there is a
  second block, the start of \<open>s\<close> again, as much of it as fits.\<close>

theorem write_copy_spec:
  assumes "cb_ok b" "l \<le> length s"
  shows "let k = min l (fst (snd (write_block b))); n = (if k < l then k + min l (cb_available b - k) else l)
    in \<exists>b'. write_copy s l b = Some (Some (n, b')) \<and> cb_ok b' \<and> cb_list b' = cb_list b @ take k s @ take (n - k) s"
  using assms by (rule write_copy_all)

text \<open>So a copy that fits in the first free block appends exactly its bytes.\<close>

lemma write_copy_fits:
  assumes "cb_ok b" "l \<le> length s" "l \<le> fst (snd (write_block b))"
  shows "\<exists>b'. write_copy s l b = Some (Some (l, b')) \<and> cb_ok b' \<and> cb_list b' = cb_list b @ take l s"
  using write_copy_all[OF assms(1,2)] assms(3) by (simp add: Let_def)

text \<open>One that does not, and finds room behind, does not: the second block starts again from the
  first byte of \<open>s\<close>.\<close>

theorem write_copy_wrap_corrupts:
  assumes "cb_ok b" "0 < fst (snd (write_block b))" "fst (snd (write_block b)) < length s" "fst (snd (write_block b)) < cb_available b"
    "s ! fst (snd (write_block b)) \<noteq> s ! 0"
  shows "\<exists>n b'. write_copy s (length s) b = Some (Some (n, b')) \<and> \<not> (\<exists>rest. cb_list b @ s = cb_list b' @ rest) \<and> cb_list b' \<noteq> cb_list b @ s"
proof -
  let ?k = "fst (snd (write_block b))"
  let ?m = "min (length s) (cb_available b - ?k)"
  obtain b' where b': "write_copy s (length s) b = Some (Some (?k + ?m, b'))" "cb_list b' = cb_list b @ take ?k s @ take ?m s"
    using write_copy_all[OF assms(1) order_refl[of "length s"]] assms(3) by (auto simp: Let_def min_def split: if_splits)
  have "0 < length s" using assms(3) by linarith
  then have m: "0 < ?m" using assms(4) by simp
  have "(cb_list b' ) ! (length (cb_list b) + ?k) = s ! 0" using b'(2) assms(3) m by (simp add: nth_append)
  moreover have "(cb_list b @ s) ! (length (cb_list b) + ?k) = s ! ?k" by (simp add: nth_append)
  moreover have "length (cb_list b) + ?k < length (cb_list b')" using b'(2) assms(3) m by simp
  ultimately have "\<not> (\<exists>rest. cb_list b @ s = cb_list b' @ rest)" using assms(5) by (metis nth_append)
  moreover from this have "cb_list b' \<noteq> cb_list b @ s" by auto
  ultimately show ?thesis using b'(1) by blast
qed

lemma read_copy_step:
  assumes "cb_ok b" "copied < l" "l \<le> length s" "0 < cb_size b"
  defines "k \<equiv> min l (length (read_block_bytes b))"
  shows "read_copy_loop s l copied b = read_copy_loop (take k (cb_list b) @ drop k s) l (copied + k) (commit_read k b)" "0 < k"
    "k < l \<Longrightarrow> read_block_bytes (commit_read k b) = cb_list (commit_read k b)"
proof -
  have ne: "\<not> cb_is_empty b" using assms(4) cb_list_empty[OF assms(1)] length_cb_list[OF assms(1)] by auto
  then have "read_block_bytes b \<noteq> []" using read_block_nonempty[OF assms(1)] cb_list_empty[OF assms(1)] by simp
  then show "0 < k" using assms(2) by (simp add: k_def)
  obtain rest where r: "cb_list b = read_block_bytes b @ rest" using read_block_prefix[OF assms(1)] by blast
  have f: "fst (read_block b) = Some (cb_head b)" "cb_head b + k \<le> length (cb_buf b)" "min l (snd (read_block b)) = k"
    using ne assms(1) read_block_length[OF assms(1)] unfolding k_def by (auto simp: read_block_def cb_ok_def)
  have t: "take k (drop (cb_head b) (cb_buf b)) = take k (cb_list b)"
    using ne unfolding r by (auto simp: k_def read_block_bytes_cases[OF assms(1)])
  have "blit 0 k (take k (cb_list b)) s = Some (take k (cb_list b) @ drop k s)"
    using assms(3) r by (auto simp: blit_def k_def)
  then show "read_copy_loop s l copied b = read_copy_loop (take k (cb_list b) @ drop k s) l (copied + k) (commit_read k b)"
    by (subst read_copy_loop.simps) (use assms(2,4) f t in \<open>simp add: bslice_def Let_def\<close>)
  assume "k < l"
  then have k: "k = length (read_block_bytes b)" by (simp add: k_def)
  have ok: "cb_ok (commit_read k b)" using commit_read_correct(1)[OF assms(1), of k] k by simp
  have h: "cb_head (commit_read k b) = (if cb_tail b \<le> cb_head b then 0 else cb_tail b)" "cb_tail (commit_read k b) = cb_tail b"
    "\<not> cb_full (commit_read k b)"
    using k \<open>0 < k\<close> ne assms(1) by (auto simp: read_block_bytes_cases[OF assms(1)] commit_read_def Let_def cb_ok_def)
  then show "read_block_bytes (commit_read k b) = cb_list (commit_read k b)"
    using cb_list_cases[OF ok] by (auto simp: read_block_bytes_cases[OF ok] cb_is_empty_def split: if_splits)
qed

text \<open>C37: \<open>read_copy\<close> always returns, and takes the first \<open>n\<close> bytes off the queue; when these are
  within one block they are at the start of \<open>s\<close>, and the rest of \<open>s\<close> is unchanged.\<close>

theorem read_copy_spec:
  assumes "cb_ok b" "l \<le> length s"
  shows "\<exists>n s' b'. read_copy s l b = Some (Some (n, s', b')) \<and> cb_ok b' \<and> cb_list b' = drop n (cb_list b)
    \<and> min l (cb_size b) \<le> n
    \<and> (n = min l (length (read_block_bytes b)) \<longrightarrow> s' = take n (cb_list b) @ drop n s)"
proof -
  have stop: "read_copy_loop s l c b = Some (Some (c, s, b))" if "\<not> (c < l \<and> 0 < cb_size b)" for c s b
    by (subst read_copy_loop.simps) (simp add: that)
  show ?thesis
  proof (cases "0 < l \<and> 0 < cb_size b")
    case False
    then have "l = 0 \<or> cb_list b = []" using length_cb_list[OF assms(1)] by auto
    then show ?thesis using assms(1) stop[of 0 b s] False by (auto simp: read_copy_def)
  next
    case True
    let ?k = "min l (length (read_block_bytes b))"
    note S = read_copy_step[OF assms(1) conjunct1[OF True] assms(2) conjunct2[OF True], unfolded add_0]
    note C = commit_read_correct[OF assms(1), of ?k, simplified]
    let ?b1 = "commit_read ?k b" and ?s1 = "take ?k (cb_list b) @ drop ?k s"
    have k: "?k \<le> length (cb_list b)" using cq.front_length[OF assms(1)] by simp
    show ?thesis
    proof (cases "?k < l \<and> 0 < cb_size ?b1")
      case False
      then have "l \<le> ?k \<or> length (cb_list b) \<le> ?k" using length_cb_list[OF C(1)] C(2) by auto
      then have "min l (cb_size b) \<le> ?k" using length_cb_list[OF assms(1)] by auto
      moreover have "read_copy s l b = Some (Some (?k, ?s1, ?b1))" using S(1) stop[OF False] by (simp add: read_copy_def)
      ultimately show ?thesis using C by blast
    next
      case T2: True
      have l1: "l \<le> length ?s1" using assms(2) k by simp
      let ?k2 = "min l (length (read_block_bytes ?b1))"
      have e: "read_block_bytes ?b1 = cb_list ?b1" using S(3) T2 by simp
      note S2 = read_copy_step[OF C(1) conjunct1[OF T2] l1 conjunct2[OF T2]]
      note C2 = commit_read_correct[OF C(1), of ?k2, simplified]
      let ?b2 = "commit_read ?k2 ?b1" and ?s2 = "take ?k2 (cb_list ?b1) @ drop ?k2 ?s1"
      have f: "\<not> (?k + ?k2 < l \<and> 0 < cb_size ?b2)"
      proof
        assume a: "?k + ?k2 < l \<and> 0 < cb_size ?b2"
        then have "?k2 = length (cb_list ?b1)" unfolding e by linarith
        then have "cb_list ?b2 = []" using C2(2) by simp
        then show False using a length_cb_list[OF C2(1)] by simp
      qed
      have "read_copy s l b = Some (Some (?k + ?k2, ?s2, ?b2))" using S(1) S2(1) stop[OF f] by (simp add: read_copy_def)
      moreover have "min l (cb_size b) \<le> ?k + ?k2"
        using C(2) length_cb_list[OF assms(1)] unfolding e by simp
      moreover have "cb_list ?b2 = drop (?k + ?k2) (cb_list b)" using C(2) C2(2) by (simp add: add.commute)
      moreover have "?k + ?k2 \<noteq> ?k" using S2(2) by linarith
      ultimately show ?thesis using C2(1) by blast
    qed
  qed
qed

section \<open>Examples\<close>

definition demo_cbuf :: cbuf where
  "demo_cbuf = \<lparr>cb_buf = [1, 2, 3, 4], cb_head = 1, cb_tail = 3, cb_max_size = 4, cb_full = False\<rparr>"

lemma demo_cbuf_ok: "cb_ok demo_cbuf" "cb_list demo_cbuf = [2, 3]" "fst (snd (write_block demo_cbuf)) = 1"
  "cb_available demo_cbuf = 2" "read_block_bytes demo_cbuf = [2, 3]"
  by (simp_all add: demo_cbuf_def cb_ok_def cb_list_def cb_size_def write_block_def cb_is_empty_def cb_is_full_def cb_available_def
      read_block_bytes_def read_block_def)

theorem write_copy_spec_witness:
  "\<exists>b'. write_copy [7, 8] 2 demo_cbuf = Some (Some (2, b')) \<and> cb_list b' = [2, 3, 7, 7]"
proof -
  have "2 \<le> length [7, 8 :: u8]" by simp
  from write_copy_spec[OF demo_cbuf_ok(1) this] show ?thesis by (auto simp: demo_cbuf_ok Let_def)
qed

theorem read_copy_spec_witness:
  "\<exists>n s' b'. read_copy [0, 0, 0] 2 demo_cbuf = Some (Some (n, s', b')) \<and> cb_list b' = drop n [2, 3] \<and> 2 \<le> n"
proof -
  have "2 \<le> length [0, 0, 0 :: u8]" by simp
  from read_copy_spec[OF demo_cbuf_ok(1) this] show ?thesis using demo_cbuf_ok length_cb_list[OF demo_cbuf_ok(1)] by fastforce
qed

end
