(* ===== verification/RspCodec.thy ===== *)
theory RspCodec imports CircularBuffer begin

text \<open>
  The packet codec of the GDB server (\<open>src/models/gdbserver/rsp-packet-codec.cpp\<close> and \<open>.hpp\<close>): the encoder of
  replies (escaping, run-length encoding, checksum) and the state machine that decodes the bytes received. The callbacks the decoder
  makes are its outputs, in order. The packet array \<open>m_pkt\<close> is represented by its first \<open>m_cur\<close> bytes, the
  only ones that are read; a copy beyond the end of an array is undefined, \<open>None\<close>. The members
  \<open>m_last\<close>, \<open>m_crc_start\<close> and \<open>m_pkt_len\<close> are not read by any function and are left out.
\<close>

definition RSP_PACKET_MAX_LEN :: nat where "RSP_PACKET_MAX_LEN = 16 * 1024"

section \<open>Encoding\<close>

text \<open>Two lower-case hexadecimal digits (\<open>%02x\<close> of a value below 256).\<close>

definition hex_digit :: "nat \<Rightarrow> u8" where
  "hex_digit n = of_nat (if n < 10 then 0x30 + n else 0x57 + n)"

definition hex2 :: "nat \<Rightarrow> bytes" where "hex2 n = [hex_digit (n div 16), hex_digit (n mod 16)]"

text \<open>The checksum of the decoder adds the bytes as signed characters.\<close>

definition checksum :: "bytes \<Rightarrow> u32" where
  "checksum bs = fold (\<lambda>c acc. acc + scast c) bs 0 mod 256"

definition verify_checksum :: "bytes \<Rightarrow> bytes \<Rightarrow> bool" where
  "verify_checksum bs crc = (let str = hex2 (unat (checksum bs)) in crc ! 0 = str ! 0 \<and> crc ! 1 = str ! 1)"

text \<open>The encoder appends to the output and adds to the checksum what it appends.\<close>

definition put_char :: "u8 \<Rightarrow> bytes \<times> u32 \<Rightarrow> bytes \<times> u32" where
  "put_char c = (\<lambda>(raw, crc). (raw @ [c], crc + scast c))"

function flush_seq :: "u8 \<Rightarrow> nat \<Rightarrow> bytes \<times> u32 \<Rightarrow> bytes \<times> u32" where
  "flush_seq c seq_len out =
     (if seq_len > 0 then
        if seq_len < 3 then (put_char c ^^ seq_len) out
        else (let run_len = (if seq_len = 6 \<or> seq_len = 7 then 5 else if seq_len + 29 > 126 then 126 - 29 else seq_len)
              in flush_seq c (seq_len - run_len) (put_char (of_nat (run_len + 29)) (put_char 0x2a (put_char c out))))
      else out)"
  by pat_completeness auto
termination by (relation "measure (\<lambda>(_, n, _). n)") auto

declare flush_seq.simps [simp del]

fun escape_loop :: "bool \<Rightarrow> bytes \<Rightarrow> nat \<Rightarrow> u8 \<Rightarrow> bytes \<times> u32 \<Rightarrow> bytes \<times> u32" where
  "escape_loop dont_encode_runs [] seq_len seq_c out = (if seq_len > 0 then flush_seq seq_c seq_len out else out)"
| "escape_loop dont_encode_runs (c # data) seq_len seq_c out =
     (if c = 0x23 \<or> c = 0x25 \<or> c = 0x7d \<or> c = 0x2a then
        (let out = (if seq_len > 0 then flush_seq seq_c seq_len out else out)
         in escape_loop dont_encode_runs data 0 seq_c (put_char (c XOR 0x20) (put_char 0x7d out)))
      else if dont_encode_runs then escape_loop dont_encode_runs data seq_len seq_c (put_char c out)
      else if seq_len > 0 then
        (if c \<noteq> seq_c then escape_loop dont_encode_runs data 1 c (flush_seq seq_c seq_len out)
         else escape_loop dont_encode_runs data (seq_len + 1) seq_c out)
      else escape_loop dont_encode_runs data 1 c out)"

definition escape :: "bytes \<Rightarrow> bytes \<Rightarrow> bool \<Rightarrow> bytes \<times> u32" where
  "escape data raw dont_encode_runs = escape_loop dont_encode_runs data 0 0 (raw, 0)"

text \<open>The packet: a start, the escaped data, the checksum. \<open>None\<close>: it does not fit in the output array.\<close>

definition encode_packet :: "bytes \<Rightarrow> bool \<Rightarrow> bytes option" where
  "encode_packet data dont_encode_runs =
     (let (raw, crc) = escape data [0x24] dont_encode_runs;
          raw = raw @ [0x23] @ hex2 (unat (crc mod 256))
      in if length raw \<le> RSP_PACKET_MAX_LEN then Some raw else None)"

definition encode :: "bytes \<Rightarrow> cbuf \<Rightarrow> bool \<Rightarrow> (bool \<times> cbuf) option option" where
  "encode data b dont_encode_runs =
     (case encode_packet data dont_encode_runs of
        None \<Rightarrow> Some None
      | Some raw \<Rightarrow> map_option (map_option (\<lambda>(n, b1). (n = length raw, b1))) (write_copy raw (length raw) b))"

definition encode_ack :: "cbuf \<Rightarrow> (bool \<times> cbuf) option option" where
  "encode_ack b = map_option (map_option (\<lambda>(n, b1). (n = 1, b1))) (write_copy [0x2b] 1 b)"

section \<open>Decoding\<close>

datatype decode_state = STATE_INIT | STATE_LEADIN | STATE_BODY | STATE_CRC

record codec =
  m_pkt :: bytes
  m_decode_state :: decode_state
  m_escaped :: bool

datatype rsp_out = Pkt_decoded bytes | Pkt_error string | Pkt_ctrlc | Pkt_ack

definition reset_state :: "codec \<Rightarrow> codec" where
  "reset_state c = c\<lparr>m_pkt := [], m_decode_state := STATE_LEADIN, m_escaped := False\<rparr>"

definition RspPacketCodec :: codec where
  "RspPacketCodec = reset_state \<lparr>m_pkt = [], m_decode_state = STATE_INIT, m_escaped = False\<rparr>"

text \<open>\<open>deescape\<close> works in place: it reads at \<open>i\<close> and writes at \<open>cur\<close>.\<close>

function deescape_loop :: "bytes \<Rightarrow> nat \<Rightarrow> nat \<Rightarrow> nat \<Rightarrow> bool \<Rightarrow> bytes \<times> nat" where
  "deescape_loop buf len i cur escaped =
     (if i < len then
        (if escaped then deescape_loop (buf[cur := buf ! i XOR 0x20]) len (i + 1) (cur + 1) False
         else if buf ! i = 0x7d then deescape_loop buf len (i + 1) cur True
         else deescape_loop (if i \<noteq> cur then buf[cur := buf ! i] else buf) len (i + 1) (cur + 1) False)
      else (buf, cur))"
  by pat_completeness auto
termination by (relation "measure (\<lambda>(_, len, i, _). len - i)") auto

declare deescape_loop.simps [simp del]

definition deescape :: "bytes \<Rightarrow> nat \<Rightarrow> bytes \<times> nat" where
  "deescape buf len = deescape_loop buf len 0 0 False"

text \<open>The index of an unescaped \<open>#\<close>, or the end, and whether the next character is escaped.\<close>

fun scan_for_hash :: "bytes \<Rightarrow> nat \<Rightarrow> bool \<Rightarrow> bool \<times> nat \<times> bool" where
  "scan_for_hash [] cur escaped = (False, cur, escaped)"
| "scan_for_hash (c # pkt) cur escaped =
     (if escaped then scan_for_hash pkt (cur + 1) False
      else if c = 0x7d then scan_for_hash pkt (cur + 1) True
      else if c = 0x23 then (True, cur, escaped)
      else scan_for_hash pkt (cur + 1) False)"

text \<open>The characters of the lead-in up to one that means something: its callback, or the start of a packet.\<close>

fun leadin_scan :: "bytes \<Rightarrow> nat \<Rightarrow> nat \<times> rsp_out list \<times> decode_state" where
  "leadin_scan [] idx = (idx, [], STATE_LEADIN)"
| "leadin_scan (c # buf) idx =
     (if c = 0x03 then (idx + 1, [Pkt_ctrlc], STATE_LEADIN)
      else if c = 0x2b then (idx + 1, [Pkt_ack], STATE_LEADIN)
      else if c = 0x24 then (idx + 1, [], STATE_BODY)
      else leadin_scan buf (idx + 1))"

text \<open>One call of \<open>decoder\<close>, on the block the buffer hands out: whether to go on, the new state, the
  number of bytes committed and the callbacks.\<close>

definition decoder_step :: "codec \<Rightarrow> bytes \<Rightarrow> (bool \<times> codec \<times> nat \<times> rsp_out list) option" where
  "decoder_step c buf = (case m_decode_state c of
     STATE_INIT \<Rightarrow> Some (True, reset_state c, 0, [])
   | STATE_LEADIN \<Rightarrow>
       if buf = [] then Some (False, c, 0, [])
       else (let (n, outs, st) = leadin_scan buf 0 in Some (True, c\<lparr>m_decode_state := st\<rparr>, n, outs))
   | STATE_BODY \<Rightarrow>
       (let (hash_found, n, esc) = scan_for_hash buf 0 (m_escaped c);
            c1 = c\<lparr>m_pkt := m_pkt c @ take n buf, m_escaped := esc\<rparr>
        in if length (m_pkt c) + n > RSP_PACKET_MAX_LEN then None
           else if buf \<noteq> [] \<and> hash_found then Some (True, c1\<lparr>m_decode_state := STATE_CRC\<rparr>, n + 1, [])
           else if length (m_pkt c1) \<ge> RSP_PACKET_MAX_LEN
           then Some (True, c1\<lparr>m_decode_state := STATE_INIT\<rparr>, n, [Pkt_error ''too many characters received''])
           else Some (buf \<noteq> [], c1, n, []))
   | STATE_CRC \<Rightarrow>
       if length buf \<ge> 2 then
         (if verify_checksum (m_pkt c) buf
          then (let (pkt, l) = deescape (m_pkt c) (length (m_pkt c))
                in Some (False, c\<lparr>m_pkt := take l pkt @ replicate (length (m_pkt c) - l) 0, m_decode_state := STATE_INIT\<rparr>, 2, [Pkt_decoded (take l pkt)]))
          else Some (False, c\<lparr>m_decode_state := STATE_INIT\<rparr>, 2, [Pkt_error ''packet crc error'']))
       else Some (False, c, 0, []))"

definition decoder :: "codec \<Rightarrow> cbuf \<Rightarrow> (bool \<times> codec \<times> cbuf \<times> rsp_out list) option" where
  "decoder c b = map_option (\<lambda>(go, c1, n, outs). (go, c1, commit_read n b, outs)) (decoder_step c (read_block_bytes b))"

text \<open>The outer option is the return of the loop.\<close>

partial_function (option) decode :: "codec \<Rightarrow> cbuf \<Rightarrow> (codec \<times> cbuf \<times> rsp_out list) option option" where
  "decode c b =
     (case decoder c b of
        None \<Rightarrow> Some None
      | Some (go, c1, b1, outs) \<Rightarrow>
          if go then Option.bind (decode c1 b1) (\<lambda>r. Some (map_option (\<lambda>(c2, b2, outs2). (c2, b2, outs @ outs2)) r))
          else Some (Some (c1, b1, outs)))"

text \<open>What a server receives in turn (\<open>proxy_loop\<close>): each piece is written into the free block and decoded.
  \<open>None\<close>: the loop does not return, a copy leaves its array, or the piece is larger than the block.\<close>

fun receive :: "bytes list \<Rightarrow> codec \<times> cbuf \<Rightarrow> (codec \<times> cbuf \<times> rsp_out list) option" where
  "receive [] (c, b) = Some (c, b, [])"
| "receive (d # ds) (c, b) =
     (case write_to_block d b of
        None \<Rightarrow> None
      | Some b1 \<Rightarrow>
         (case decode c b1 of
            Some (Some (c2, b2, outs)) \<Rightarrow>
              map_option (\<lambda>(c3, b3, outs3). (c3, b3, outs @ outs3)) (receive ds (c2, b2))
          | _ \<Rightarrow> None))"

section \<open>Checksum\<close>

lemma ucast_fold_scast: "(ucast (fold (\<lambda>c acc. acc + scast c) bs acc :: u32) :: u8) = ucast acc + sum_list bs"
  by (induction bs arbitrary: acc) (simp_all add: ucast_add_down ucast_scast_id add_ac)

lemma mod_256: "unat ((w :: u32) mod 256) = unat (ucast w :: u8)"
  by (simp add: unat_mod unsigned_ucast_eq take_bit_eq_mod)

lemma checksum_sum: "unat (checksum bs) = unat (sum_list bs)"
  by (simp add: checksum_def mod_256 ucast_fold_scast)

lemma verify_checksum_sum:
  "verify_checksum bs [h1, h2] \<longleftrightarrow> [h1, h2] = hex2 (unat (sum_list bs))"
  by (simp add: verify_checksum_def checksum_sum hex2_def Let_def)

lemma verify_checksum_prefix: "2 \<le> length crc \<Longrightarrow> verify_checksum bs crc \<longleftrightarrow> take 2 crc = hex2 (unat (sum_list bs))"
  by (cases crc; cases "tl crc") (auto simp: verify_checksum_def checksum_sum hex2_def Let_def)

section \<open>Escaping\<close>

text \<open>Reference definitions: the escaped form of the data, and what an escaped text stands for.\<close>

definition special :: "u8 \<Rightarrow> bool" where "special c \<longleftrightarrow> c = 0x23 \<or> c = 0x25 \<or> c = 0x7d \<or> c = 0x2a"

definition escaped_form :: "bytes \<Rightarrow> bytes" where
  "escaped_form data = concat (map (\<lambda>c. if special c then [0x7d, c XOR 0x20] else [c]) data)"

fun unescape :: "bool \<Rightarrow> bytes \<Rightarrow> bytes" where
  "unescape e [] = []"
| "unescape e (c # r) = (if e then (c XOR 0x20) # unescape False r else if c = 0x7d then unescape True r else c # unescape False r)"

lemma escaped_form_simps:
  "escaped_form [] = []"
  "special c \<Longrightarrow> escaped_form (c # data) = 0x7d # (c XOR 0x20) # escaped_form data"
  "\<not> special c \<Longrightarrow> escaped_form (c # data) = c # escaped_form data"
  by (simp_all add: escaped_form_def)

text \<open>What the encoder keeps up: the text written so far and, in its low byte, the sum of its bytes.\<close>

definition written :: "bytes \<times> u32 \<Rightarrow> bytes \<Rightarrow> u8 \<Rightarrow> bool" where
  "written out raw sm \<longleftrightarrow> fst out = raw \<and> ucast (snd out) = sm"

lemma put_char_written: "written out raw sm \<Longrightarrow> written (put_char c out) (raw @ [c]) (sm + c)"
  by (cases out) (simp add: written_def put_char_def ucast_add_down ucast_scast_id)

lemma escape_loop_plain:
  "written out raw sm \<Longrightarrow>
   written (escape_loop True data 0 sc out) (raw @ escaped_form data) (sm + sum_list (escaped_form data))"
proof (induction data arbitrary: out raw sm)
  case (Cons c data)
  show ?case
  proof (cases "special c")
    case True
    have "escape_loop True (c # data) 0 sc out = escape_loop True data 0 sc (put_char (c XOR 0x20) (put_char 0x7d out))"
      using True unfolding special_def by (subst escape_loop.simps) simp
    then show ?thesis
      using Cons.IH[OF put_char_written[OF put_char_written[OF Cons.prems, where c = "0x7d"], where c = "c XOR 0x20"]] True
      by (simp only: escaped_form_simps append_assoc append_Cons append_Nil sum_list.Cons add.assoc)
  next
    case False
    have "escape_loop True (c # data) 0 sc out = escape_loop True data 0 sc (put_char c out)"
      using False unfolding special_def by (subst escape_loop.simps) simp
    then show ?thesis using Cons.IH[OF put_char_written[OF Cons.prems, where c = c]] False
      by (simp only: escaped_form_simps(3)[OF False] append_assoc append_Cons append_Nil sum_list.Cons add.assoc)
  qed
qed (simp add: escaped_form_simps)

lemma encode_packet_plain:
  "encode_packet data True = (let raw = [0x24] @ escaped_form data @ [0x23] @ hex2 (unat (sum_list (escaped_form data)))
     in if length raw \<le> RSP_PACKET_MAX_LEN then Some raw else None)"
proof -
  have "written ([0x24], 0) [0x24] 0" by (simp add: written_def)
  from escape_loop_plain[OF this, of data 0] obtain crc where
    "escape data [0x24] True = ([0x24] @ escaped_form data, crc)" "(ucast crc :: u8) = sum_list (escaped_form data)"
    by (cases "escape data [0x24] True") (simp add: escape_def written_def)
  then show ?thesis by (simp add: encode_packet_def mod_256)
qed

lemma xor_twice: "(c XOR d) XOR d = (c :: u8)"
  by (simp add: xor.assoc)

lemma unescape_escaped: "unescape False (escaped_form data) = data"
proof (induction data)
  case (Cons c data)
  show ?case
  proof (cases "special c")
    case True
    then show ?thesis using Cons by (simp add: escaped_form_simps xor_twice)
  next
    case False
    then have "c \<noteq> 0x7d" by (simp add: special_def)
    then show ?thesis using Cons False by (simp add: escaped_form_simps)
  qed
qed (simp add: escaped_form_simps)

text \<open>The in-place loop computes the reference.\<close>

lemma deescape_loop_correct:
  assumes "len \<le> length buf" "cur \<le> i" "i \<le> len"
  shows "let (buf', n) = deescape_loop buf len i cur e in length buf' = length buf \<and> n \<le> len \<and>
    take n buf' = take cur buf @ unescape e (drop i (take len buf)) \<and> drop len buf' = drop len buf"
  using assms
proof (induction buf len i cur e rule: deescape_loop.induct)
  case (1 buf len i cur e)
  show ?case
  proof (cases "i < len")
    case False
    then show ?thesis using 1(4-6) by (subst deescape_loop.simps) simp
  next
    case True
    have d: "drop i (take len buf) = buf ! i # drop (Suc i) (take len buf)"
      using True 1(4) by (metis Cons_nth_drop_Suc length_take min.absorb2 nth_take)
    have set: "drop (Suc i) (take len (buf[cur := x])) = drop (Suc i) (take len buf)"
        "take (Suc cur) (buf[cur := x]) = take cur buf @ [x]" "drop len (buf[cur := x]) = drop len buf" for x
      using 1(4-6) True by (simp_all add: take_update_swap take_Suc_conv_app_nth list_update_append)
    consider "e" | "\<not> e" "buf ! i = 0x7d" | "\<not> e" "buf ! i \<noteq> 0x7d" by blast
    then show ?thesis
    proof cases
      case 1
      then show ?thesis using "1.IH"(1)[OF True 1] "1.prems" True
        by (subst deescape_loop.simps) (simp add: d set split: prod.splits)
    next
      case 2
      then show ?thesis using "1.IH"(2)[OF True 2] "1.prems" True
        by (subst deescape_loop.simps) (simp add: d split: prod.splits)
    next
      case 3
      have u: "(if i \<noteq> cur then buf[cur := buf ! i] else buf) = buf[cur := buf ! i]" by simp
      have "deescape_loop buf len i cur e = deescape_loop (buf[cur := buf ! i]) len (i + 1) (cur + 1) False"
        using True 3 u by (subst deescape_loop.simps) simp
      then show ?thesis using "1.IH"(3)[OF True 3] "1.prems" True 3 unfolding u by (simp add: d set split: prod.splits)
    qed
  qed
qed

text \<open>The in-place \<open>deescape\<close> leaves at the front of the buffer exactly what the escaped text stands
  for, and does not touch what lies behind the text.\<close>

lemma deescape_correct:
  "len \<le> length buf \<Longrightarrow> take (snd (deescape buf len)) (fst (deescape buf len)) = unescape False (take len buf)"
  "len \<le> length buf \<Longrightarrow> drop len (fst (deescape buf len)) = drop len buf"
  "len \<le> length buf \<Longrightarrow> snd (deescape buf len) \<le> len"
  using deescape_loop_correct[of len buf 0 0 False] by (auto simp: deescape_def split: prod.splits)

section \<open>Scanning\<close>

lemma scan_index: "scan_for_hash xs i e = (f, j, e') \<Longrightarrow> scan_for_hash xs (i + k) e = (f, j + k, e')"
proof (induction xs arbitrary: i e)
  case (Cons x xs)
  from Cons.prems Cons.IH[of "i + 1"] show ?case by (auto split: if_splits)
qed simp

lemma scan_bounds: "scan_for_hash xs i e = (f, j, e') \<Longrightarrow> i \<le> j \<and> j \<le> i + length xs \<and> (f \<longrightarrow> j < i + length xs) \<and> (\<not> f \<longrightarrow> j = i + length xs)"
proof (induction xs arbitrary: i e)
  case (Cons x xs)
  from Cons.prems Cons.IH[of "i + 1"] show ?case by (fastforce split: if_splits)
qed simp

lemma scan_append:
  "scan_for_hash xs i e = (False, j, e') \<Longrightarrow> scan_for_hash (xs @ ys) i e = scan_for_hash ys j e'"
  by (induction xs arbitrary: i e) (auto split: if_splits)

lemma scan_append_found:
  "scan_for_hash xs i e = (True, j, e') \<Longrightarrow> scan_for_hash (xs @ ys) i e = (True, j, e')"
  by (induction xs arbitrary: i e) (auto split: if_splits)

lemma scan_split:
  "scan_for_hash (xs @ ys) i e = (f, j, e'') \<Longrightarrow> i + length xs \<le> j \<Longrightarrow>
   \<exists>e'. scan_for_hash xs i e = (False, i + length xs, e') \<and> scan_for_hash ys (i + length xs) e' = (f, j, e'')"
proof (induction xs arbitrary: i e)
  case (Cons x xs)
  from Cons.prems Cons.IH[of "i + 1"] show ?case by (auto split: if_splits)
qed simp

lemma scan_escaped_form: "scan_for_hash (escaped_form data @ 0x23 # r) i False = (True, i + length (escaped_form data), False)"
proof (induction data arbitrary: i)
  case (Cons c data)
  show ?case
  proof (cases "special c")
    case False
    then have "c \<noteq> 0x7d" "c \<noteq> 0x23" by (simp_all add: special_def)
    then show ?thesis using Cons[of "i + 1"] False by (simp add: escaped_form_simps)
  qed (use Cons[of "i + 2"] in \<open>simp add: escaped_form_simps\<close>)
qed (simp add: escaped_form_simps)

section \<open>Decoding a contiguous buffer\<close>

text \<open>The bytes are contiguous when the block handed out is the whole queue.\<close>

definition contig :: "cbuf \<Rightarrow> bool" where
  "contig b \<longleftrightarrow> cb_ok b \<and> read_block_bytes b = cb_list b"

text \<open>Bytes that end before position \<open>k\<close> of the array; where the next ones go.\<close>

definition linear :: "nat \<Rightarrow> cbuf \<Rightarrow> bool" where
  "linear k b \<longleftrightarrow> cb_ok b \<and> (cb_is_empty b \<or> cb_head b < cb_tail b \<and> cb_tail b \<le> k)"

lemma contig_commit_read:
  assumes "contig b" "n \<le> length (cb_list b)"
  shows "contig (commit_read n b)" "cb_list (commit_read n b) = drop n (cb_list b)" "cb_max_size (commit_read n b) = cb_max_size b"
proof -
  have ok: "cb_ok b" "n \<le> length (read_block_bytes b)" using assms by (simp_all add: contig_def)
  note C = commit_read_correct[OF ok]
  show "cb_list (commit_read n b) = drop n (cb_list b)" "cb_max_size (commit_read n b) = cb_max_size b" using C by simp_all
  consider "n = 0" | "0 < n" "cb_head b < cb_tail b" | "0 < n" "cb_tail b = 0" "\<not> cb_is_empty b" "n \<le> cb_max_size b - cb_head b"
  proof -
    have "cb_tail b = 0" if "\<not> cb_head b < cb_tail b" "0 < n"
    proof -
      have ne: "\<not> cb_is_empty b" using that ok cb_list_empty[OF ok(1)] assms(2) by auto
      then show ?thesis using assms(1) that cb_list_cases(3)[OF ok(1)]
        by (auto simp: contig_def read_block_bytes_cases[OF ok(1)] cb_ok_def)
    qed
    moreover have "\<not> cb_is_empty b" if "0 < n" using that cb_list_empty[OF ok(1)] assms(2) by auto
    ultimately show thesis using that ok read_block_length[OF ok(1)] by (fastforce simp: read_block_def split: if_splits)
  qed
  then show "contig (commit_read n b)"
  proof cases
    case 1
    then show ?thesis using assms(1) by (simp add: commit_read_def)
  next
    case 2
    let ?b = "commit_read n b"
    have n: "n \<le> cb_tail b - cb_head b" using 2 ok read_block_length[OF ok(1)] by (auto simp: read_block_def split: if_splits)
    then have h: "cb_head ?b = cb_head b + n" "cb_tail ?b = cb_tail b" "\<not> cb_full ?b"
      using 2 ok(1) by (auto simp: commit_read_def Let_def cb_ok_def)
    show ?thesis using C(1) h n 2 cb_list_cases(1,2)[OF C(1)]
      by (cases "cb_head ?b < cb_tail ?b") (auto simp: contig_def read_block_bytes_cases[OF C(1)] cb_is_empty_def)
  next
    case 3
    let ?b = "commit_read n b"
    have h: "cb_tail ?b = 0" using 3 by (simp add: commit_read_def Let_def)
    show ?thesis using C(1) h cb_list_cases(1,3)[OF C(1)]
      by (cases "cb_is_empty ?b") (auto simp: contig_def read_block_bytes_cases[OF C(1)])
  qed
qed

lemma contig_linear: "linear k b \<Longrightarrow> contig b"
  using cb_list_cases(1,2)[of b] by (auto simp: linear_def contig_def read_block_bytes_cases)

lemma linear_commit_read:
  assumes "linear k b" "n \<le> length (cb_list b)" shows "linear k (commit_read n b)"
proof -
  have c: "contig b" using assms(1) by (rule contig_linear)
  have ok: "cb_ok (commit_read n b)" using contig_commit_read(1)[OF c assms(2)] by (simp add: contig_def)
  show ?thesis
  proof (cases "n = 0")
    case False
    then have "cb_list b \<noteq> []" using assms(2) by auto
    then have h: "cb_head b < cb_tail b" "cb_tail b \<le> k" "cb_ok b" using assms(1) cb_list_empty[of b] by (auto simp: linear_def)
    then have "length (cb_list b) = cb_tail b - cb_head b" by (simp add: length_cb_list cb_size_def cb_ok_def)
    then show ?thesis using ok h False assms(2) by (auto simp: linear_def commit_read_def Let_def cb_is_empty_def cb_ok_def)
  qed (use assms(1) in \<open>simp add: commit_read_def\<close>)
qed

lemma linear_write:
  assumes "linear k b" "k + length d \<le> cb_max_size b"
  shows "\<exists>b'. write_to_block d b = Some b' \<and> contig b' \<and> cb_list b' = cb_list b @ d \<and> cb_max_size b' = cb_max_size b
    \<and> (k + length d < cb_max_size b \<longrightarrow> linear (k + length d) b')"
proof -
  obtain p l b1 where w: "write_block b = (p, l, b1)" by (cases "write_block b") auto
  have ok: "cb_ok b" using assms(1) by (simp add: linear_def)
  have nf: "\<not> cb_full b" using assms(1) by (auto simp: linear_def cb_is_empty_def cb_ok_def)
  note W = write_block_reset[OF ok w]
  have b1: "p = Some (cb_tail b1)" "cb_head b1 \<le> cb_tail b1" "cb_tail b1 \<le> k" "l = cb_max_size b - cb_tail b1" "\<not> cb_full b1"
    "cb_head b1 = cb_tail b1 \<longrightarrow> cb_tail b1 = 0"
    using w nf assms(1) ok W(5,7,8) by (auto simp: write_block_def linear_def cb_is_empty_def cb_is_full_def split: if_splits)
  have "\<exists>m. blit (cb_tail b1) (length d) d (cb_buf b1) = Some m"
    using W(1,3) b1(3) assms(2) by (intro blit_defined) (simp_all add: cb_ok_def)
  then obtain m where m: "blit (cb_tail b1) (length d) d (cb_buf b1) = Some m" by blast
  let ?b = "commit_write (length d) (b1\<lparr>cb_buf := m\<rparr>)"
  have e: "write_to_block d b = Some ?b" using b1 m assms(2) by (simp add: write_to_block_def w)
  note C = write_to_block_correct[OF ok e]
  have "contig ?b \<and> (k + length d < cb_max_size b \<longrightarrow> linear (k + length d) ?b)"
  proof (cases "cb_tail b1 + length d < cb_max_size b")
    case True
    then have "cb_head ?b = cb_head b1" "cb_tail ?b = cb_tail b1 + length d" "d \<noteq> [] \<longrightarrow> \<not> cb_full ?b"  "d = [] \<longrightarrow> ?b = b1\<lparr>cb_buf := m\<rparr>"
      using b1 W(3) by (auto simp: commit_write_def Let_def)
    then have "linear (k + length d) ?b" using C(1) b1 by (cases "d = []") (auto simp: linear_def cb_is_empty_def)
    then show ?thesis using contig_linear by blast
  next
    case False
    then have t: "cb_tail b1 + length d = cb_max_size b" "k + length d = cb_max_size b" using b1(3) assms(2) by linarith+
    then have d: "0 < length d" using W(1,3) by (auto simp: cb_ok_def)
    then have "cb_tail ?b = 0" "cb_buf ?b = m" using t W(3) by (simp_all add: commit_write_def Let_def)
    then show ?thesis using C(1) t(2) cb_list_cases(1,3)[OF C(1)]
      by (cases "cb_is_empty ?b") (auto simp: contig_def read_block_bytes_cases[OF C(1)])
  qed
  then show ?thesis using e C by blast
qed

text \<open>The loop, one call at a time.\<close>

lemma decode_unfold:
  assumes "contig b" "decoder_step c (cb_list b) = Some (go, c1, n, outs)"
  shows "go \<Longrightarrow> decode c1 (commit_read n b) = Some (Some (c2, b2, outs2)) \<Longrightarrow> decode c b = Some (Some (c2, b2, outs @ outs2))"
    "\<not> go \<Longrightarrow> decode c b = Some (Some (c1, commit_read n b, outs))"
  using assms by (subst decode.simps, simp add: decoder_def contig_def)+

section \<open>A packet received in pieces\<close>

text \<open>The decoder after the part \<open>p\<close> of a packet: before it, in its body, in its checksum.\<close>

definition fresh :: "codec \<Rightarrow> bool" where
  "fresh c \<longleftrightarrow> m_decode_state c = STATE_INIT \<or> m_decode_state c = STATE_LEADIN \<and> m_pkt c = [] \<and> \<not> m_escaped c"

definition in_body :: "bytes \<Rightarrow> codec \<Rightarrow> bool" where
  "in_body q c \<longleftrightarrow> m_decode_state c = STATE_BODY \<and> m_pkt c = q \<and> (\<exists>j. scan_for_hash q 0 False = (False, j, m_escaped c))"

definition in_crc :: "bytes \<Rightarrow> codec \<Rightarrow> bool" where
  "in_crc body c \<longleftrightarrow> m_decode_state c = STATE_CRC \<and> m_pkt c = body"

definition received :: "bytes \<Rightarrow> bytes \<Rightarrow> codec \<Rightarrow> cbuf \<Rightarrow> bool" where
  "received body p c b \<longleftrightarrow> (p = [] \<and> cb_list b = [] \<and> fresh c)
     \<or> (\<exists>q r. p = 0x24 # q \<and> body = q @ r \<and> cb_list b = [] \<and> in_body q c)
     \<or> (\<exists>h. p = 0x24 # body @ 0x23 # h \<and> length h < 2 \<and> cb_list b = h \<and> in_crc body c)"

definition message :: "bytes \<Rightarrow> bytes" where
  "message data = 0x24 # escaped_form data @ 0x23 # hex2 (unat (sum_list (escaped_form data)))"

definition reached :: "bytes \<Rightarrow> bytes \<Rightarrow> bytes \<Rightarrow> cbuf \<Rightarrow> codec \<Rightarrow> cbuf \<Rightarrow> rsp_out list \<Rightarrow> bool" where
  "reached data p rest b c' b' outs \<longleftrightarrow> contig b' \<and> cb_max_size b' = cb_max_size b \<and> (\<forall>k. linear k b \<longrightarrow> linear k b')
     \<and> (if rest = [] then outs = [Pkt_decoded data] \<and> cb_list b' = [] \<and> m_decode_state c' = STATE_INIT
        else outs = [] \<and> received (escaped_form data) p c' b')"

lemma reached_commit:
  "contig b \<Longrightarrow> n \<le> length (cb_list b) \<Longrightarrow> reached data p rest (commit_read n b) c' b' outs \<Longrightarrow> reached data p rest b c' b' outs"
  using linear_commit_read contig_commit_read(3) by (auto simp: reached_def)

lemma commit_read_0 [simp]: "commit_read 0 b = b"
  by (simp add: commit_read_def)

lemma length_hex2 [simp]: "length (hex2 n) = 2"
  by (simp add: hex2_def)

lemma decode_crc:
  assumes "contig b" "in_crc (escaped_form data) c" "cb_list b @ rest = hex2 (unat (sum_list (escaped_form data)))"
    "p = 0x24 # escaped_form data @ 0x23 # cb_list b"
  shows "\<exists>c' b' outs. decode c b = Some (Some (c', b', outs)) \<and> reached data p rest b c' b' outs"
proof -
  let ?body = "escaped_form data"
  have l: "length (cb_list b) + length rest = 2" using arg_cong[OF assms(3), of length] by simp
  have c: "m_decode_state c = STATE_CRC" "m_pkt c = ?body" using assms(2) by (simp_all add: in_crc_def)
  show ?thesis
  proof (cases "rest = []")
    case True
    have "take 2 (cb_list b) = hex2 (unat (sum_list ?body))" using assms(3) True by simp
    then have v: "verify_checksum ?body (cb_list b)" using l True by (simp add: verify_checksum_prefix)
    let ?c = "c\<lparr>m_pkt := take (snd (deescape ?body (length ?body))) (fst (deescape ?body (length ?body)))
        @ replicate (length ?body - snd (deescape ?body (length ?body))) 0, m_decode_state := STATE_INIT\<rparr>"
    have "decoder_step c (cb_list b) = Some (False, ?c, 2, [Pkt_decoded data])"
      using l True v deescape_correct(1)[OF order_refl, of ?body] unescape_escaped
      by (simp add: decoder_step_def c case_prod_unfold Let_def)
    from decode_unfold(2)[OF assms(1) this] have "decode c b = Some (Some (?c, commit_read 2 b, [Pkt_decoded data]))" by simp
    moreover have "reached data p rest (commit_read 2 b) ?c (commit_read 2 b) [Pkt_decoded data]"
      using contig_commit_read[OF assms(1), of 2] l True by (simp add: reached_def)
    ultimately show ?thesis using reached_commit[OF assms(1), of 2] l True by fastforce
  next
    case False
    then have l2: "length (cb_list b) < 2" using l by (cases rest) auto
    then have "decoder_step c (cb_list b) = Some (False, c, 0, [])" by (simp add: decoder_step_def c)
    from decode_unfold(2)[OF assms(1) this] have "decode c b = Some (Some (c, b, []))" by simp
    moreover have "reached data p rest b c b []"
      using assms l2 False by (auto simp: reached_def received_def)
    ultimately show ?thesis by blast
  qed
qed

lemma decode_body:
  assumes "contig b" "in_body q c" "0x24 # q @ cb_list b @ rest = message data" "length (message data) \<le> RSP_PACKET_MAX_LEN"
    "length q \<le> length (escaped_form data)"
  shows "\<exists>c' b' outs. decode c b = Some (Some (c', b', outs)) \<and> reached data (0x24 # q @ cb_list b) rest b c' b' outs"
proof -
  let ?body = "escaped_form data" and ?xs = "cb_list b" and ?h = "hex2 (unat (sum_list (escaped_form data)))"
  have c: "m_decode_state c = STATE_BODY" "m_pkt c = q" using assms(2) by (simp_all add: in_body_def)
  have msg: "q @ ?xs @ rest = ?body @ 0x23 # ?h" using assms(3) by (simp add: message_def)
  have len: "length ?body + 4 \<le> RSP_PACKET_MAX_LEN" using assms(4) by (simp add: message_def)
  have S: "scan_for_hash (q @ ?xs @ rest) 0 False = (True, length ?body, False)"
    using scan_escaped_form[of data ?h 0] unfolding msg by simp
  then have xs: "scan_for_hash (?xs @ rest) (length q) (m_escaped c) = (True, length ?body, False)"
    using scan_split[OF S] assms(2,5) by (auto simp: in_body_def)
  show ?thesis
  proof (cases "length q + length ?xs \<le> length ?body")
    case True
    then obtain e where e: "scan_for_hash ?xs (length q) (m_escaped c) = (False, length q + length ?xs, e)"
      using scan_split[OF xs] by auto
    let ?c = "c\<lparr>m_pkt := q @ ?xs, m_escaped := e\<rparr>"
    have e0: "scan_for_hash ?xs 0 (m_escaped c) = (False, length ?xs, e)"
    proof -
      obtain f j e1 where j: "scan_for_hash ?xs 0 (m_escaped c) = (f, j, e1)" by (cases "scan_for_hash ?xs 0 (m_escaped c)") auto
      then show ?thesis using scan_index[OF j, of "length q"] e by simp
    qed
    have q: "in_body (q @ ?xs) ?c"
    proof -
      obtain j where j: "scan_for_hash q 0 False = (False, j, m_escaped c)" using assms(2) by (auto simp: in_body_def)
      have "j = length q" using scan_bounds[OF j] by simp
      then show ?thesis using c scan_append[OF j, of ?xs] e by (simp add: in_body_def)
    qed
    have "rest \<noteq> []" using arg_cong[OF msg, of length] True by auto
    have st: "decoder_step c ?xs = Some (?xs \<noteq> [], ?c, length ?xs, [])"
      using True len by (simp add: decoder_step_def c e0)
    let ?b = "commit_read (length ?xs) b"
    note B = contig_commit_read[OF assms(1) order_refl]
    have R: "reached data (0x24 # q @ ?xs) rest ?b ?c ?b []"
    proof -
      have "take (length (q @ ?xs)) (?body @ 0x23 # ?h) = q @ ?xs" unfolding msg[symmetric] by simp
      then have "?body = (q @ ?xs) @ drop (length (q @ ?xs)) ?body"
        using True by (metis append_take_drop_id length_append take_append diff_is_0_eq take_0 append_Nil2)
      then show ?thesis using B q \<open>rest \<noteq> []\<close> by (auto simp: reached_def received_def)
    qed
    have stop: "decode ?c ?b = Some (Some (?c, ?b, []))"
    proof -
      have "decoder_step ?c (cb_list ?b) = Some (False, ?c, 0, [])"
        using True len B(2) by (simp add: decoder_step_def c)
      from decode_unfold(2)[OF B(1) this] show ?thesis by simp
    qed
    have "decode c b = Some (Some (?c, ?b, []))"
    proof (cases "?xs = []")
      case True
      then show ?thesis using decode_unfold(2)[OF assms(1) st] by simp
    next
      case False
      from decode_unfold(1)[OF assms(1) st False stop] show ?thesis by simp
    qed
    then show ?thesis using reached_commit[OF assms(1) order_refl R] by blast
  next
    case False
    define n where "n = length ?body - length q"
    have n: "length ?body = length q + n" "n < length ?xs" using False assms(5) by (simp_all add: n_def)
    have sp: "?xs = take n ?xs @ 0x23 # drop (Suc n) ?xs" "?body = q @ take n ?xs" "drop (Suc n) ?xs @ rest = ?h"
    proof -
      have "drop (length q) (q @ ?xs @ rest) = drop (length q) (?body @ 0x23 # ?h)" unfolding msg ..
      then have x: "?xs @ rest = drop (length q) ?body @ 0x23 # ?h" using assms(5) by simp
      have "length (drop (length q) ?body) = n" by (simp add: n_def)
      then have "take n (?xs @ rest) = drop (length q) ?body" "drop n (?xs @ rest) = 0x23 # ?h" unfolding x by simp_all
      then have t: "take n ?xs = drop (length q) ?body" "drop n ?xs @ rest = 0x23 # ?h" using n(2) by simp_all
      have "take (length q) (q @ ?xs @ rest) = take (length q) (?body @ 0x23 # ?h)" unfolding msg ..
      then have "q = take (length q) ?body" using assms(5) by simp
      then show "?body = q @ take n ?xs" unfolding t(1) by (metis append_take_drop_id)
      have d: "drop n ?xs = ?xs ! n # drop (Suc n) ?xs" using n(2) by (simp add: Cons_nth_drop_Suc)
      then show "drop (Suc n) ?xs @ rest = ?h" using t(2) by simp
      show "?xs = take n ?xs @ 0x23 # drop (Suc n) ?xs" using d t(2) by (metis append_Cons append_take_drop_id list.inject)
    qed
    have e0: "scan_for_hash ?xs 0 (m_escaped c) = (True, n, False)"
    proof -
      obtain f j e1 where j: "scan_for_hash ?xs 0 (m_escaped c) = (f, j, e1)" by (cases "scan_for_hash ?xs 0 (m_escaped c)") auto
      have "f"
      proof (rule ccontr)
        assume "\<not> f"
        then have "scan_for_hash ?xs (length q) (m_escaped c) = (False, length ?xs + length q, e1)"
          using scan_index[OF j, of "length q"] scan_bounds[OF j] by simp
        from scan_append[OF this, of rest] have "scan_for_hash rest (length ?xs + length q) e1 = (True, length ?body, False)"
          using xs by simp
        from scan_bounds[OF this] show False using n by simp
      qed
      then have "scan_for_hash ?xs (length q) (m_escaped c) = (True, j + length q, e1)"
        using scan_index[OF j, of "length q"] by simp
      from scan_append_found[OF this, of rest] show ?thesis using xs j \<open>f\<close> n(1) by simp
    qed
    let ?c = "c\<lparr>m_pkt := ?body, m_escaped := False, m_decode_state := STATE_CRC\<rparr>"
    let ?b = "commit_read (n + 1) b"
    have st: "decoder_step c ?xs = Some (True, ?c, n + 1, [])"
      using n len sp(2) by (auto simp: decoder_step_def c e0 Let_def)
    have nl: "n + 1 \<le> length ?xs" using n(2) by simp
    note B = contig_commit_read[OF assms(1) nl]
    have "0x24 # q @ ?xs = 0x24 # ?body @ 0x23 # cb_list ?b"
      unfolding B(2) sp(2) by (subst sp(1)) simp
    moreover have "cb_list ?b @ rest = ?h" using sp(3) B(2) by simp
    moreover have "in_crc ?body ?c" by (simp add: in_crc_def)
    ultimately obtain c' b' outs where d: "decode ?c ?b = Some (Some (c', b', outs))" "reached data (0x24 # q @ ?xs) rest ?b c' b' outs"
      using decode_crc[OF B(1), of data ?c rest "0x24 # q @ ?xs"] by blast
    have "decode c b = Some (Some (c', b', outs))" using decode_unfold(1)[OF assms(1) st _ d(1)] by simp
    then show ?thesis using reached_commit[OF assms(1) nl d(2)] by blast
  qed
qed

lemma decode_start:
  assumes "contig b" "fresh c" "cb_list b @ rest = message data" "cb_list b \<noteq> []" "length (message data) \<le> RSP_PACKET_MAX_LEN"
  shows "\<exists>c' b' outs. decode c b = Some (Some (c', b', outs)) \<and> reached data (cb_list b) rest b c' b' outs"
proof -
  obtain xs where xs: "cb_list b = 0x24 # xs" using assms(3,4) by (cases "cb_list b") (auto simp: message_def)
  have go: "\<exists>c' b' outs. decode c b = Some (Some (c', b', outs)) \<and> reached data (cb_list b) rest b c' b' outs"
    if c: "m_decode_state c = STATE_LEADIN" "m_pkt c = []" "\<not> m_escaped c" for c
  proof -
    let ?c = "c\<lparr>m_decode_state := STATE_BODY\<rparr>" and ?b = "commit_read 1 b"
    have nl: "1 \<le> length (cb_list b)" using xs by simp
    note B = contig_commit_read[OF assms(1) nl]
    have st: "decoder_step c (cb_list b) = Some (True, ?c, 1, [])" by (simp add: decoder_step_def c(1) xs)
    have "in_body [] ?c" using c by (simp add: in_body_def)
    then obtain c' b' outs where d: "decode ?c ?b = Some (Some (c', b', outs))" "reached data (0x24 # [] @ cb_list ?b) rest ?b c' b' outs"
      using decode_body[OF B(1), of "[]" ?c rest data] assms(3,5) B(2) xs by auto
    have "decode c b = Some (Some (c', b', outs))" using decode_unfold(1)[OF assms(1) st _ d(1)] by simp
    moreover have "0x24 # [] @ cb_list ?b = cb_list b" using B(2) xs by simp
    ultimately show ?thesis using reached_commit[OF assms(1) nl d(2)] by metis
  qed
  show ?thesis
  proof (cases "m_decode_state c = STATE_INIT")
    case True
    then have st: "decoder_step c (cb_list b) = Some (True, reset_state c, 0, [])" by (simp add: decoder_step_def)
    obtain c' b' outs where d: "decode (reset_state c) b = Some (Some (c', b', outs))" "reached data (cb_list b) rest b c' b' outs"
      using go[of "reset_state c"] by (auto simp: reset_state_def)
    then show ?thesis using decode_unfold(1)[OF assms(1) st, of c' b' outs] by auto
  next
    case False
    then show ?thesis using go assms(2) by (simp add: fresh_def)
  qed
qed

lemma received_step:
  assumes "received (escaped_form data) p c b" "linear (length p) b" "d \<noteq> []" "p @ d @ rest = message data"
    "length (message data) \<le> RSP_PACKET_MAX_LEN" "length (message data) \<le> cb_max_size b"
  shows "\<exists>b1 c' b' outs. write_to_block d b = Some b1 \<and> decode c b1 = Some (Some (c', b', outs))
    \<and> reached data (p @ d) rest b1 c' b' outs \<and> (rest \<noteq> [] \<longrightarrow> linear (length (p @ d)) b') \<and> cb_max_size b1 = cb_max_size b"
proof -
  let ?body = "escaped_form data"
  have len: "length p + length d + length rest = length (message data)" using arg_cong[OF assms(4), of length] by simp
  have "length p + length d \<le> cb_max_size b" using len assms(6) by simp
  from linear_write[OF assms(2) this] obtain b1 where b1: "write_to_block d b = Some b1" "contig b1" "cb_list b1 = cb_list b @ d"
      "cb_max_size b1 = cb_max_size b" "length p + length d < cb_max_size b \<longrightarrow> linear (length p + length d) b1" by blast
  have lin: "linear (length (p @ d)) b'" if "reached data (p @ d) rest b1 c' b' outs" "rest \<noteq> []" for c' b' outs
  proof -
    have "length p + length d < cb_max_size b" using that(2) len assms(6) by (cases rest) auto
    then show ?thesis using b1(5) that(1) by (simp add: reached_def)
  qed
  have "\<exists>c' b' outs. decode c b1 = Some (Some (c', b', outs)) \<and> reached data (p @ d) rest b1 c' b' outs"
  proof -
    from assms(1) consider "p = []" "cb_list b = []" "fresh c"
      | q r where "p = 0x24 # q" "?body = q @ r" "cb_list b = []" "in_body q c"
      | h where "p = 0x24 # ?body @ 0x23 # h" "length h < 2" "cb_list b = h" "in_crc ?body c"
      unfolding received_def by blast
    then show ?thesis
    proof cases
      case 1
      then show ?thesis using decode_start[OF b1(2) 1(3), of rest data] assms(3-5) b1(3) by simp
    next
      case 2
      have "length q \<le> length ?body" using 2(2) by simp
      then show ?thesis using decode_body[OF b1(2) 2(4), of rest data] assms(4,5) 2(1,3) b1(3) by simp
    next
      case 3
      have "cb_list b1 @ rest = hex2 (unat (sum_list ?body))" using assms(4) 3(1,3) b1(3) by (simp add: message_def)
      then show ?thesis using decode_crc[OF b1(2) 3(4), of rest "p @ d"] 3(1,3) b1(3) by simp
    qed
  qed
  then show ?thesis using b1(1,4) lin by blast
qed

lemma receive_message:
  assumes "received (escaped_form data) p c b" "linear (length p) b" "p @ concat ds = message data" "p \<noteq> message data" "[] \<notin> set ds"
    "length (message data) \<le> RSP_PACKET_MAX_LEN" "length (message data) \<le> cb_max_size b"
  shows "\<exists>c' b'. receive ds (c, b) = Some (c', b', [Pkt_decoded data]) \<and> cb_ok b' \<and> cb_is_empty b' \<and> m_decode_state c' = STATE_INIT"
  using assms
proof (induction ds arbitrary: p c b)
  case (Cons d ds)
  have "p @ d @ concat ds = message data" "d \<noteq> []" using Cons.prems(3,5) by auto
  from received_step[OF Cons.prems(1,2) this(2,1) Cons.prems(6,7)] obtain b1 c' b' outs where
    st: "write_to_block d b = Some b1" "decode c b1 = Some (Some (c', b', outs))" "reached data (p @ d) (concat ds) b1 c' b' outs"
      "concat ds \<noteq> [] \<longrightarrow> linear (length (p @ d)) b'" "cb_max_size b1 = cb_max_size b" by blast
  have ok: "cb_ok b'" using st(3) by (simp add: reached_def contig_def)
  show ?case
  proof (cases "ds = []")
    case True
    then show ?thesis using st ok cb_list_empty[OF ok] by (simp add: reached_def)
  next
    case False
    then have ne: "concat ds \<noteq> []" using Cons.prems(5) by (cases ds) auto
    have r: "received (escaped_form data) (p @ d) c' b'" "outs = []" "cb_max_size b' = cb_max_size b"
      using st(3,5) ne by (simp_all add: reached_def)
    have "p @ d \<noteq> message data" using Cons.prems(3) ne by (metis append_assoc append_self_conv concat.simps(2))
    then have "\<exists>c'' b''. receive ds (c', b') = Some (c'', b'', [Pkt_decoded data]) \<and> cb_ok b'' \<and> cb_is_empty b'' \<and> m_decode_state c'' = STATE_INIT"
      using Cons.prems(3,5-7) ne st(4) r(3) \<open>p @ d \<noteq> message data\<close> by (intro Cons.IH[OF r(1)]) auto
    then show ?thesis using st(1,2) r(2) by auto
  qed
qed (use assms in simp)

text \<open>C3: Round trip. A reply encoded without runs and received in any pieces by a fresh decoder, into
  an empty buffer that has room for it, is decoded to exactly the data, once and without error, and leaves
  nothing behind.\<close>

theorem rsp_roundtrip:
  assumes "encode_packet data True = Some raw" "concat ds = raw" "[] \<notin> set ds" "fresh c"
    "cb_ok b" "cb_is_empty b" "length raw \<le> cb_max_size b"
  shows "\<exists>c' b'. receive ds (c, b) = Some (c', b', [Pkt_decoded data]) \<and> cb_ok b' \<and> cb_is_empty b' \<and> m_decode_state c' = STATE_INIT"
proof -
  have raw: "raw = message data" "length (message data) \<le> RSP_PACKET_MAX_LEN"
    using assms(1) by (auto simp: encode_packet_plain message_def Let_def split: if_splits)
  have "received (escaped_form data) [] c b" using assms(4) cb_list_empty[OF assms(5)] assms(6) by (simp add: received_def)
  moreover have "linear (length ([] :: bytes)) b" using assms(5,6) by (simp add: linear_def)
  moreover have "message data \<noteq> []" by (simp add: message_def)
  ultimately show ?thesis using receive_message[of data "[]" c b ds] raw assms(2,3,7) by simp
qed

section \<open>The loop returns\<close>

definition state_rank :: "decode_state \<Rightarrow> nat" where
  "state_rank st = (case st of STATE_INIT \<Rightarrow> 1 | STATE_LEADIN \<Rightarrow> 0 | STATE_BODY \<Rightarrow> 2 | STATE_CRC \<Rightarrow> 0)"

lemma leadin_scan_bounds: "leadin_scan buf i = (n, outs, st) \<Longrightarrow> i \<le> n \<and> n \<le> i + length buf \<and> (buf \<noteq> [] \<longrightarrow> i < n)"
proof (induction buf arbitrary: i)
  case (Cons x buf)
  from Cons.prems Cons.IH[of "i + 1"] show ?case by (fastforce split: if_splits)
qed simp

lemma decoder_step_bounds:
  assumes "decoder_step c buf = Some (go, c1, n, outs)"
  shows "n \<le> length buf" "go \<Longrightarrow> n = 0 \<Longrightarrow> state_rank (m_decode_state c1) < state_rank (m_decode_state c)"
proof -
  obtain f j e where s: "scan_for_hash buf 0 (m_escaped c) = (f, j, e)" by (cases "scan_for_hash buf 0 (m_escaped c)") auto
  obtain k os st where l: "leadin_scan buf 0 = (k, os, st)" by (cases "leadin_scan buf 0") auto
  note B = scan_bounds[OF s] leadin_scan_bounds[OF l]
  show "n \<le> length buf" using assms B
    by (cases "m_decode_state c") (auto simp: decoder_step_def s l Let_def case_prod_unfold split: if_splits)
  show "state_rank (m_decode_state c1) < state_rank (m_decode_state c)" if "go" "n = 0"
    using assms B that by (cases "m_decode_state c")
      (auto simp: decoder_step_def s l Let_def case_prod_unfold state_rank_def reset_state_def split: if_splits)
qed

text \<open>C28: \<open>decode\<close> returns, for every state of the decoder and of the buffer.\<close>

theorem decode_returns:
  assumes "cb_ok b"
  shows "\<exists>r. decode c b = Some r"
  using assms
proof (induction "3 * cb_size b + state_rank (m_decode_state c)" arbitrary: b c rule: less_induct)
  case less
  show ?case
  proof (cases "decoder c b")
    case None
    then show ?thesis by (subst decode.simps) simp
  next
    case (Some r)
    then obtain go c1 n outs where st: "decoder_step c (read_block_bytes b) = Some (go, c1, n, outs)"
        and d: "decoder c b = Some (go, c1, commit_read n b, outs)"
      by (auto simp: decoder_def)
    note B = decoder_step_bounds[OF st]
    note C = commit_read_correct[OF less.prems B(1)]
    have sz: "cb_size (commit_read n b) = cb_size b - n" "n \<le> cb_size b"
      using length_cb_list[OF C(1)] length_cb_list[OF less.prems] C(2) B(1) cq.front_length[OF less.prems] by simp_all
    have r: "state_rank st \<le> 2" for st by (cases st) (simp_all add: state_rank_def)
    show ?thesis
    proof (cases go)
      case False
      then show ?thesis using d by (subst decode.simps) simp
    next
      case True
      have "3 * cb_size (commit_read n b) + state_rank (m_decode_state c1) < 3 * cb_size b + state_rank (m_decode_state c)"
        using B(2)[OF True] sz r[of "m_decode_state c1"] by (cases "n = 0") auto
      from less.hyps[OF this C(1)] obtain r where "decode c1 (commit_read n b) = Some r" by blast
      then show ?thesis using d True by (subst decode.simps) simp
    qed
  qed
qed

section \<open>Where it does not do what it should\<close>

text \<open>A checksum split over the end of the array is never read: the block for reading holds its first
  digit only, and stays so, whatever is received.\<close>

theorem rsp_crc_stuck:
  assumes "cb_ok b" "m_decode_state c = STATE_CRC" "cb_head b + 1 = cb_max_size b" "cb_tail b \<le> cb_head b" "\<not> cb_is_empty b"
  shows "decode c b = Some (Some (c, b, []))"
    "write_to_block d b = Some b' \<Longrightarrow> decode c b' = Some (Some (c, b', []))"
proof -
  have stuck: "decode c b = Some (Some (c, b, []))"
    if "cb_ok b" "cb_head b + 1 = cb_max_size b" "cb_tail b \<le> cb_head b" "\<not> cb_is_empty b" for b
  proof -
    have "length (read_block_bytes b) = 1" using that read_block_length[OF that(1)] by (simp add: read_block_def)
    then show ?thesis using assms(2) by (subst decode.simps) (simp add: decoder_def decoder_step_def)
  qed
  show "decode c b = Some (Some (c, b, []))" using stuck assms by blast
  assume w: "write_to_block d b = Some b'"
  note C = write_to_block_correct[OF assms(1) w]
  have "cb_head b' = cb_head b" using w assms(4,5)
    by (auto simp: write_to_block_def write_block_def commit_write_def Let_def split: if_splits option.splits)
  moreover have "\<not> cb_is_empty b'" using C cb_list_empty[OF C(1)] cb_list_empty[OF assms(1)] assms(5) by auto
  moreover have "cb_tail b' < cb_max_size b'" using C(1) by (simp add: cb_ok_def)
  ultimately show "decode c b' = Some (Some (c, b', []))" using stuck[OF C(1)] C(3) assms(3) by simp
qed

text \<open>What follows a packet in the same block is left in the buffer, until something else is received.\<close>

theorem rsp_stops_after_packet:
  assumes "contig b" "m_decode_state c = STATE_CRC" "cb_list b = h1 # h2 # rest"
  shows "\<exists>c' b' outs. decode c b = Some (Some (c', b', outs)) \<and> cb_list b' = rest"
proof -
  obtain c' outs where st: "decoder_step c (cb_list b) = Some (False, c', 2, outs)"
    using assms by (cases "verify_checksum (m_pkt c) (cb_list b)") (auto simp: decoder_step_def Let_def case_prod_unfold)
  from decode_unfold(2)[OF assms(1) this] show ?thesis using contig_commit_read(2)[OF assms(1), of 2] assms(3) by simp
qed

text \<open>The body of a packet overruns \<open>m_pkt\<close>: the bound is checked after the copy.\<close>

theorem rsp_overrun:
  assumes "contig b" "m_decode_state c = STATE_BODY" "scan_for_hash (cb_list b) 0 (m_escaped c) = (f, n, e)"
    "length (m_pkt c) + n > RSP_PACKET_MAX_LEN"
  shows "decode c b = Some None"
  using assms by (subst decode.simps) (simp add: decoder_def contig_def decoder_step_def Let_def)

text \<open>Runs: what the protocol says a text with runs stands for (a character, \<open>*\<close>, and a count plus 29 of further
  copies of it).\<close>

fun expand_runs :: "bytes \<Rightarrow> bytes" where
  "expand_runs (c # s # n # r) = (if s = 0x2a then c # replicate (unat n - 29) c @ expand_runs r else c # expand_runs (s # n # r))"
| "expand_runs r = r"

text \<open>The encoder writes the whole length of a run as the count, so that the run stands for one copy too
  many.\<close>

theorem flush_seq_one_too_many:
  assumes "3 \<le> n" "n \<le> 97" "n \<noteq> 6" "n \<noteq> 7"
  shows "expand_runs (fst (flush_seq c n ([], 0))) = replicate (n + 1) c"
proof -
  have "flush_seq c n ([], 0) = put_char (of_nat (n + 29)) (put_char 0x2a (put_char c ([], 0)))"
    using assms by (subst flush_seq.simps) (simp add: flush_seq.simps Let_def)
  moreover have "unat (of_nat (n + 29) :: u8) = n + 29" using assms unfolding unat_of_nat by simp
  ultimately show ?thesis by (simp add: put_char_def)
qed

section \<open>Examples\<close>

definition demo_rx :: cbuf where
  "demo_rx = \<lparr>cb_buf = replicate 8 0, cb_head = 0, cb_tail = 0, cb_max_size = 8, cb_full = False\<rparr>"

lemma demo_rx_ok: "cb_ok demo_rx" "cb_is_empty demo_rx" "cb_max_size demo_rx = 8"
  by (simp_all add: demo_rx_def cb_ok_def cb_is_empty_def)

theorem rsp_roundtrip_witness:
  "\<exists>c' b'. receive [[0x24, 0x4f], [0x4b, 0x23, 0x39], [0x61]] (RspPacketCodec, demo_rx) = Some (c', b', [Pkt_decoded [0x4f, 0x4b]])"
proof -
  have "encode_packet [0x4f, 0x4b] True = Some [0x24, 0x4f, 0x4b, 0x23, 0x39, 0x61]"
    by (simp add: encode_packet_plain escaped_form_def special_def hex2_def hex_digit_def RSP_PACKET_MAX_LEN_def)
  moreover have "fresh RspPacketCodec" by (simp add: fresh_def RspPacketCodec_def reset_state_def)
  ultimately show ?thesis
    using rsp_roundtrip[of "[0x4f, 0x4b]" _ "[[0x24, 0x4f], [0x4b, 0x23, 0x39], [0x61]]" RspPacketCodec demo_rx] demo_rx_ok by fastforce
qed

theorem decode_returns_witness: "\<exists>r. decode RspPacketCodec demo_rx = Some r"
  using demo_rx_ok(1) by (rule decode_returns)

end
