(* ===== verification/RvcSpec.thy ===== *)
theory RvcSpec imports Rv32c Rv32Spec begin

text \<open>
  What the compressed instructions compute: the handlers of \<open>Rv32c\<close>, the fast ones included, on the operands
  the formats of \<open>src/models/cpu/iss/isa_gen/isa_riscv_gen.py\<close> give them, against the instruction set. The fixed
  operands of a format, as the stack pointer or the register 0, are written out in the operands below; the
  immediates are those the decoder has extended and scaled.
\<close>

section \<open>What a compressed instruction does\<close>


text \<open>The performance counter 10 counts compressed instructions, when it is enabled; only the slow handlers do.\<close>

definition rvc_tick :: "bool \<Rightarrow> timing \<Rightarrow> timing" where
  "rvc_tick slow t = (if slow \<and> bit (pcmr t) 0 \<and> bit (pcer t) 10 then t\<lparr>pccr := (pccr t)(10 := pccr t 10 + 1)\<rparr> else t)"






section \<open>The handlers\<close>


lemma rvc_tick_simps [simp]:
  "rvc_tick False t = t" "stall_cycles (rvc_tick slow t) = stall_cycles t"
  "e \<noteq> 10 \<Longrightarrow> pccr (event_account e i t) 10 = pccr t 10" "pccr (stall_cycles_account n t) 10 = pccr t 10"
  by (simp_all add: rvc_tick_def event_account_def stall_cycles_account_def)










section \<open>Loads and stores\<close>








section \<open>Property\<close>



end
