(* ===== verification/PulpSpec.thy ===== *)
theory PulpSpec imports PulpV2 Rv32Spec begin

text \<open>
  What the instructions of theory \<open>PulpV2\<close> compute: the scalar operations against integer arithmetic, the
  clipping instructions, the bit fields, and the packed operations lane by lane.
\<close>

section \<open>The scalar operations\<close>

abbreviation rs3 :: "iss_insn \<Rightarrow> (nat \<Rightarrow> u32) \<Rightarrow> u32" where "rs3 insn r \<equiv> r (REG_IN insn 2)"

lemma lib_scalar_ints:
  fixes a b :: u32
  shows "lib_MINS a b = word_of_int (min (sint a) (sint b))" "lib_MAXS a b = word_of_int (max (sint a) (sint b))"
    "lib_MINU a b = word_of_int (min (uint a) (uint b))" "lib_MAXU a b = word_of_int (max (uint a) (uint b))"
    "lib_ABS a = word_of_int \<bar>sint a\<bar>" "lib_MAC c a b = word_of_int (uint c + uint a * uint b)"
    "lib_MSU c a b = word_of_int (uint c - uint a * uint b)" "lib_MULS a b = word_of_int (uint a * uint b)"
    "lib_AVGU a b = word_of_int (uint (a + b) div 2)"
  by (simp_all add: lib_MINS_def lib_MAXS_def lib_MINU_def lib_MAXU_def lib_ABS_def lib_MAC_def lib_MSU_def lib_MULS_def
      min_def max_def word_less_def lib_AVGU_def word_shift_ints(2) abs_if)

lemma popcount_card: "popcount a = card {i. i < 32 \<and> bit a i}"
proof -
  have "popcount a = length (filter (\<lambda>i. bit a i) [0..<32])" by (simp add: popcount_def)
  also have "\<dots> = card (set (filter (\<lambda>i. bit a i) [0..<32]))" by (rule distinct_card[symmetric]) simp
  also have "set (filter (\<lambda>i. bit a i) [0..<32]) = {i. i < 32 \<and> bit a i}" by auto
  finally show ?thesis .
qed

lemma first_one: "lib_FF1 a = (if a = 0 then 32 else of_nat (LEAST i. bit a i))"
proof (cases "a = 0")
  case False
  then obtain i where i: "lib_FF1 a = of_nat i" "bit a i" "\<forall>j<i. \<not> bit a j" using FF1_spec(2) by blast
  then have "(LEAST i. bit a i) = i" by (intro Least_equality) (use not_le in blast)+
  then show ?thesis using i False by simp
qed (simp add: FF1_spec)

lemma last_one: "lib_FL1 a = (if a = 0 then 32 else of_nat (GREATEST i. bit a i))"
proof (cases "a = 0")
  case False
  then obtain i where i: "lib_FL1 a = of_nat i" "bit a i" "\<forall>j>i. \<not> bit a j" using FL1_spec(2) by blast
  then have "(GREATEST i. bit a i) = i" by (intro Greatest_equality) (use not_le in blast)+
  then show ?thesis using i False by simp
qed (simp add: FL1_spec)

lemma getField_low: "getField a 0 n = take_bit n a"
  by (rule bit_word_eqI) (auto simp: getField_def bit_simps)

lemma sign_extend:
  assumes "0 < n" "n \<le> 32"
  shows "iss_get_signed_value a n = word_of_int (signed_take_bit (n - 1) (uint a))"
  by (rule bit_word_eqI) (use assms in \<open>auto simp: bit_iss_get_signed_value bit_simps min_def\<close>)

lemmas scalar_defs = p_avgu_exec_def p_slet_exec_def p_sletu_exec_def p_min_exec_def p_minu_exec_def p_max_exec_def
  p_maxu_exec_def p_abs_exec_def p_cnt_exec_def p_ff1_exec_def p_fl1_exec_def p_exths_exec_def p_exthz_exec_def
  p_extbs_exec_def p_extbz_exec_def p_mac_exec_def p_msu_exec_def p_mul_exec_def

text \<open>C33: The scalar operations. Minimum, maximum, absolute value, average, comparisons, extensions,
  multiply-accumulate, population count, first and last one compute the function of the integers of
  their registers, for every operand (the absolute value of the most negative integer and the sums
  wrap); they fall through and change nothing else but the validity bits.\<close>

theorem pulp_scalar:
  "computes p_min_exec (\<lambda>i r. word_of_int (min (sint (rs1 i r)) (sint (rs2 i r))))
   \<and> computes p_minu_exec (\<lambda>i r. word_of_int (min (uint (rs1 i r)) (uint (rs2 i r))))
   \<and> computes p_max_exec (\<lambda>i r. word_of_int (max (sint (rs1 i r)) (sint (rs2 i r))))
   \<and> computes p_maxu_exec (\<lambda>i r. word_of_int (max (uint (rs1 i r)) (uint (rs2 i r))))
   \<and> computes p_abs_exec (\<lambda>i r. word_of_int \<bar>sint (rs1 i r)\<bar>)
   \<and> computes p_avgu_exec (\<lambda>i r. word_of_int (uint (rs1 i r + rs2 i r) div 2))
   \<and> computes p_slet_exec (\<lambda>i r. of_bool (sint (rs1 i r) \<le> sint (rs2 i r)))
   \<and> computes p_sletu_exec (\<lambda>i r. of_bool (uint (rs1 i r) \<le> uint (rs2 i r)))
   \<and> computes p_exths_exec (\<lambda>i r. word_of_int (signed_take_bit 15 (uint (rs1 i r))))
   \<and> computes p_exthz_exec (\<lambda>i r. take_bit 16 (rs1 i r))
   \<and> computes p_extbs_exec (\<lambda>i r. word_of_int (signed_take_bit 7 (uint (rs1 i r))))
   \<and> computes p_extbz_exec (\<lambda>i r. take_bit 8 (rs1 i r))
   \<and> computes p_mac_exec (\<lambda>i r. word_of_int (uint (rs3 i r) + uint (rs1 i r) * uint (rs2 i r)))
   \<and> computes p_msu_exec (\<lambda>i r. word_of_int (uint (rs3 i r) - uint (rs1 i r) * uint (rs2 i r)))
   \<and> computes p_mul_exec (\<lambda>i r. word_of_int (uint (rs1 i r) * uint (rs2 i r)))
   \<and> computes p_cnt_exec (\<lambda>i r. of_nat (card {k. k < 32 \<and> bit (rs1 i r) k}))
   \<and> computes p_ff1_exec (\<lambda>i r. if rs1 i r = 0 then 32 else of_nat (LEAST k. bit (rs1 i r) k))
   \<and> computes p_fl1_exec (\<lambda>i r. if rs1 i r = 0 then 32 else of_nat (GREATEST k. bit (rs1 i r) k))"
  by (simp add: computes_def scalar_defs lib_scalar_ints(1-5,9)[symmetric] lib_MAC_def lib_MSU_def lib_MULS_def
      popcount_card[symmetric] lib_CNT_def[symmetric] first_one[symmetric] last_one[symmetric] getField_low sign_extend
      iss_insn_next_def set_reg_def get_reg_def on_rf_def Let_def word_le_def)

section \<open>Clipping\<close>

definition clamp :: "int \<Rightarrow> int \<Rightarrow> int \<Rightarrow> int" where "clamp lo hi x = max lo (min hi x)"

lemma CLIP_clamp:
  assumes "sint lo \<le> sint hi"
  shows "lib_CLIP a lo hi = word_of_int (clamp (sint lo) (sint hi) (sint a))"
  using assms by (auto simp: lib_CLIP_def clamp_def max_def min_def)

lemma CLIPU_clamp:
  assumes "0 \<le> sint hi"
  shows "lib_CLIPU a hi = word_of_int (clamp 0 (sint hi) (sint a))"
  using assms signed_eq_0_iff[of a] by (auto simp: lib_CLIPU_def clamp_def max_def min_def)

lemma sint_word32:
  assumes "- (2 ^ 31) \<le> x" "x < 2 ^ 31"
  shows "sint (word_of_int x :: u32) = x"
  using assms by (simp add: sint_sbintrunc' signed_take_bit_int_eq_self)

lemma clip_bounds:
  fixes n :: u32
  assumes "uint n < 32"
  defines "k \<equiv> nat (uint n - 1)"
  shows "clip_bits n = k" "sint (push_bit k 1 - 1 :: u32) = 2 ^ k - 1" "sint (- push_bit k 1 :: u32) = - (2 ^ k)"
proof -
  have "- (2 ^ 31) \<le> (0 :: int)" by simp
  then have "- (2 ^ 31) \<le> uint n" using uint_ge_0[of n] by (rule order_trans)
  moreover have "uint n < 2 ^ 31" using assms(1) by simp
  ultimately have s: "sint n = uint n" by (simp add: sint_uint signed_take_bit_int_eq_self)
  then show "clip_bits n = k" by (auto simp: clip_bits_def k_def)
  have "k \<le> 30" using assms by simp
  then have p: "(2 :: int) ^ k \<le> 2 ^ 30" by (intro power_increasing) auto
  have "- (2 ^ 31) \<le> x - 1 \<and> x - 1 < 2 ^ 31 \<and> - (2 ^ 31) \<le> - x \<and> - x < 2 ^ 31" if "0 < x" "x \<le> 2 ^ 30" for x :: int
    using that by simp
  from this[OF _ p]
  have b: "- (2 ^ 31) \<le> (2 :: int) ^ k - 1" "(2 :: int) ^ k - 1 < 2 ^ 31" "- (2 ^ 31) \<le> - ((2 :: int) ^ k)" "- ((2 :: int) ^ k) < 2 ^ 31"
    by simp_all
  have "(push_bit k 1 - 1 :: u32) = word_of_int (2 ^ k - 1)" by (simp add: push_bit_eq_mult)
  then show "sint (push_bit k 1 - 1 :: u32) = 2 ^ k - 1" using sint_word32[OF b(1,2)] by simp
  have "(- push_bit k 1 :: u32) = word_of_int (- (2 ^ k))" by (simp add: push_bit_eq_mult)
  then show "sint (- push_bit k 1 :: u32) = - (2 ^ k)" using sint_word32[OF b(3,4)] by simp
qed

lemma sint_not: "sint (- a - 1 :: u32) = - sint a - 1"
proof -
  have "- (2 ^ 31) \<le> - sint a - 1" "- sint a - 1 < 2 ^ 31" using sint_range_size[of a] by (auto simp: word_size)
  from sint_word32[OF this] show ?thesis by simp
qed

text \<open>The clipping instructions saturate. For an immediate \<open>n\<close> of 5 bits the result is the register
  brought into the signed range of \<open>n\<close> bits (into its non-negative half for the unsigned variant), and
  for a bound in a register that is not negative the range it gives.\<close>

theorem pulp_clip:
  assumes "uint (UIM_GET insn 0) < 32" "k = nat (uint (UIM_GET insn 0) - 1)"
    and "r = regs (iss_regfile s)" "x = sint (rs1 insn r)" "b = sint (rs2 insn r)" "0 \<le> b"
  shows "regs (iss_regfile (snd (p_clipi_exec insn pc s))) = r(REG_OUT insn 0 := word_of_int (clamp (- (2 ^ k)) (2 ^ k - 1) x))
    \<and> regs (iss_regfile (snd (p_clipui_exec insn pc s))) = r(REG_OUT insn 0 := word_of_int (clamp 0 (2 ^ k - 1) x))
    \<and> regs (iss_regfile (snd (p_clip_exec insn pc s))) = r(REG_OUT insn 0 := word_of_int (clamp (- b - 1) b x))
    \<and> regs (iss_regfile (snd (p_clipu_exec insn pc s))) = r(REG_OUT insn 0 := word_of_int (clamp 0 b x))"
proof -
  note K = clip_bounds[OF assms(1), folded assms(2)]
  have "(0 :: int) \<le> 2 ^ k" by simp
  then have c: "lib_CLIP (rs1 insn r) (- push_bit k 1) (push_bit k 1 - 1) = word_of_int (clamp (- (2 ^ k)) (2 ^ k - 1) x)"
    "lib_CLIPU (rs1 insn r) (push_bit k 1 - 1) = word_of_int (clamp 0 (2 ^ k - 1) x)"
    "lib_CLIP (rs1 insn r) (- rs2 insn r - 1) (rs2 insn r) = word_of_int (clamp (- b - 1) b x)"
    "lib_CLIPU (rs1 insn r) (rs2 insn r) = word_of_int (clamp 0 b x)"
    using CLIP_clamp[of "- push_bit k 1" "push_bit k 1 - 1"] CLIPU_clamp[of "push_bit k 1 - 1"] K(2,3)
      CLIP_clamp[of "- rs2 insn r - 1" "rs2 insn r"] CLIPU_clamp[of "rs2 insn r"] sint_not assms(4-6) by simp_all
  show ?thesis using c assms(3)
    by (simp add: p_clipi_exec_def p_clipui_exec_def p_clip_exec_def p_clipu_exec_def K(1) set_reg_def get_reg_def on_rf_def Let_def)
qed

theorem pulp_clip_witness:
  "regs (iss_regfile (snd (p_clipi_exec \<lparr>out_regs = [3], in_regs = [1, 2], uim = [8], sim = [], insn_size = 4\<rparr> 0
     (on_rf (set_reg 1 0x1234) demo_iss)))) 3 = 0x7f"
  using pulp_clip[of "\<lparr>out_regs = [3], in_regs = [1, 2], uim = [8], sim = [], insn_size = 4\<rparr>" 7
      "(\<lambda>_. 0)(1 := 0x1234)" "on_rf (set_reg 1 0x1234) demo_iss" "0x1234" 0 0]
  by (simp add: clamp_def on_rf_def set_reg_def demo_iss_def demo_regfile_def)

section \<open>Bit fields\<close>

lemma bit_field_mask:
  fixes w sh :: u32
  assumes "unat w < 32" "unat sh < 32"
  shows "bit_field (w + 1) sh = push_bit (unat sh) (mask (unat w + 1))"
proof -
  have "unat (w + 1) = unat w + 1" using assms(1) by (subst unat_add_no_wrap) auto
  then have "bit_field (w + 1) sh = ucast (push_bit (unat sh) (mask (unat w + 1)) :: u64)"
    by (simp only: bit_field_def) (simp only: mask_eq_exp_minus_1 push_bit_of_1)
  also have "\<dots> = push_bit (unat sh) (mask (unat w + 1))"
    by (rule bit_word_eqI) (use assms in \<open>auto simp: bit_simps\<close>)
  finally show ?thesis .
qed

text \<open>Bit fields. Extracting the field that was just inserted, by two instructions with the same
  immediates, gives the inserted bits back, as many as fit above the shift, and the insertion keeps the
  bits of its destination outside the field.\<close>

theorem pulp_fields:
  assumes "UIM_GET i 0 = w" "UIM_GET i 1 = sh" "UIM_GET j 0 = w" "UIM_GET j 1 = sh" "REG_IN j 0 = REG_OUT i 0"
    and "unat w < 32" "unat sh < 32"
    and "s1 = snd (p_inserti_exec i pc s)" "s2 = snd (p_extractui_exec j pc' s1)"
    and "r = regs (iss_regfile s)" "field = push_bit (unat sh) (mask (unat w + 1))"
  shows "regs (iss_regfile s2) (REG_OUT j 0) = rs1 i r AND mask (min (unat w + 1) (32 - unat sh))
    \<and> regs (iss_regfile s1) (REG_OUT i 0) AND NOT field = rs2 i r AND NOT field"
proof -
  note F = bit_field_mask[OF assms(6,7)]
  have 1: "regs (iss_regfile s1) (REG_OUT i 0) = lib_BINSERT (rs1 i r) (rs2 i r) field sh"
    using assms(1,2,8,10,11) F by (simp add: p_inserti_exec_def set_reg_def get_reg_def on_rf_def Let_def)
  have 2: "regs (iss_regfile s2) (REG_OUT j 0) = lib_BEXTRACTU (regs (iss_regfile s1) (REG_OUT i 0)) field sh"
    using assms(3,4,5,9,11) F by (simp add: p_extractui_exec_def set_reg_def get_reg_def on_rf_def Let_def)
  show ?thesis unfolding 2 unfolding 1 unfolding assms(11) using BINSERT_BEXTRACTU[OF assms(7)] by blast
qed

theorem pulp_fields_witness:
  "regs (iss_regfile (snd (p_extractui_exec \<lparr>out_regs = [4], in_regs = [3], uim = [3, 4], sim = [], insn_size = 4\<rparr> 4
     (snd (p_inserti_exec \<lparr>out_regs = [3], in_regs = [1, 3], uim = [3, 4], sim = [], insn_size = 4\<rparr> 0
       (on_rf (set_reg 1 0x25) demo_iss)))))) 4 = 5"
  using pulp_fields[of "\<lparr>out_regs = [3], in_regs = [1, 3], uim = [3, 4], sim = [], insn_size = 4\<rparr>" 3 4
      "\<lparr>out_regs = [4], in_regs = [3], uim = [3, 4], sim = [], insn_size = 4\<rparr>" _ 0 "on_rf (set_reg 1 0x25) demo_iss" _ 4
      "(\<lambda>_. 0)(1 := 0x25)" "push_bit 4 (mask 4)"]
  by (simp add: on_rf_def set_reg_def demo_iss_def demo_regfile_def mask_eq_exp_minus_1)

section \<open>Packed vectors\<close>

text \<open>A handler that falls through, writes one value, of which \<open>P\<close> holds, to its output register and changes nothing
  else but the validity bits.\<close>

definition writes :: "exec \<Rightarrow> (iss_insn \<Rightarrow> (nat \<Rightarrow> u32) \<Rightarrow> u32 \<Rightarrow> bool) \<Rightarrow> bool" where
  "writes h P \<longleftrightarrow> (\<forall>insn pc s. case h insn pc s of (pc', s') \<Rightarrow>
     let r = regs (iss_regfile s); w = regs (iss_regfile s') (REG_OUT insn 0) in
     pc' = pc + insn_size insn \<and> regs (iss_regfile s') = r(REG_OUT insn 0 := w)
     \<and> s'\<lparr>iss_regfile := iss_regfile s\<rparr> = s \<and> P insn r w)"

lemma PV_writes:
  "(\<And>i r. P i r (f (rs1 i r) (rs2 i r))) \<Longrightarrow> writes (PV_rr f) P"
  "(\<And>i r. P i r (f (rs1 i r) (SIM_GET i 0))) \<Longrightarrow> writes (PV_rs f) P"
  "(\<And>i r. P i r (f (rs1 i r) (UIM_GET i 0))) \<Longrightarrow> writes (PV_ru f) P"
  "(\<And>i r. P i r (f (rs1 i r) (UIM_GET i 0))) \<Longrightarrow> writes (PV_ru_h f) P"
  "(\<And>i r. P i r (f (rs1 i r) (UIM_GET i 0))) \<Longrightarrow> writes (PV_ru_b f) P"
  "(\<And>i r. P i r (g (rs3 i r) (rs1 i r) (rs2 i r))) \<Longrightarrow> writes (PV_rrr g) P"
  "(\<And>i r. P i r (g (rs1 i r) (rs2 i r) (SIM_GET i 0))) \<Longrightarrow> writes (PV_rrs g) P"
  "(\<And>i r. P i r (g (rs1 i r) (rs2 i r) (UIM_GET i 0))) \<Longrightarrow> writes (PV_rru g) P"
  "(\<And>i r. P i r (k (rs1 i r))) \<Longrightarrow> writes (PV_r k) P"
  by (simp_all add: writes_def pv_defs iss_insn_next_def set_reg_def get_reg_def on_rf_def Let_def)

lemma SDOT_sum: "lib_VEC_SDOT n ea eb out a b = out + (\<Sum>i<n. ea (lane i a) * eb (lane i b))"
  by (induction n) (simp_all add: lib_VEC_SDOT_def algebra_simps)

lemma SDOT_SC_sum: "lib_VEC_SDOT_SC n ea eb out a b = out + (\<Sum>i<n. ea (lane i a) * eb (lane 0 b))"
  by (induction n) (simp_all add: lib_VEC_SDOT_SC_def algebra_simps)

text \<open>The integer an element stands for, signed or not; the second operand of the three handlers of a width: the
  element of a register (0), the low element of a register (1), or that of an immediate (2), which is
  signed or not as the elements are.\<close>

definition vec_elem :: "bool \<Rightarrow> 'e::len word \<Rightarrow> int" where "vec_elem sg x = (if sg then sint x else uint x)"

definition vec_second :: "nat \<Rightarrow> bool \<Rightarrow> nat \<Rightarrow> iss_insn \<Rightarrow> u32 \<Rightarrow> 'e::len word" where
  "vec_second v sg i insn y =
     (if v = 0 then lane i y else if v = 1 then lane 0 y else lane 0 (if sg then SIM_GET insn 0 else UIM_GET insn 0))"

text \<open>A handler on \<open>n\<close> elements of a width that computes \<open>f\<close> lane by lane, modulo the width; and the six handlers of
  an operation, on half words and bytes, where \<open>f\<close> also has the width.\<close>

definition vec_lanes :: "'e::len word itself \<Rightarrow> nat \<Rightarrow> bool \<Rightarrow> (int \<Rightarrow> int \<Rightarrow> int) \<Rightarrow> nat \<Rightarrow> exec \<Rightarrow> bool" where
  "vec_lanes ty n sg f v h \<longleftrightarrow> writes h (\<lambda>insn r w. \<forall>i<n. (lane i w :: 'e word)
     = word_of_int (f (vec_elem sg (lane i (rs1 insn r) :: 'e word)) (vec_elem sg (vec_second v sg i insn (rs2 insn r) :: 'e word))))"

definition vec_group :: "exec list \<Rightarrow> bool \<times> (nat \<Rightarrow> int \<Rightarrow> int \<Rightarrow> int) \<Rightarrow> bool" where
  "vec_group hs p = (case p of (sg, f) \<Rightarrow> length hs = 6
     \<and> (\<forall>v<3. vec_lanes TYPE(16 word) 2 sg (f 16) v (hs ! v) \<and> vec_lanes TYPE(u8) 4 sg (f 8) v (hs ! (3 + v))))"

text \<open>A handler that adds the products of the elements, \<open>sa\<close> and \<open>sb\<close> telling which are signed, to nothing or to an
  accumulator: its third register, or its first one when the last operand is an immediate.\<close>

definition vec_dot :: "'e::len word itself \<Rightarrow> nat \<Rightarrow> bool \<times> bool \<times> bool \<Rightarrow> nat \<Rightarrow> exec \<Rightarrow> bool" where
  "vec_dot ty n p v h \<longleftrightarrow> (case p of (acc, sa, sb) \<Rightarrow> writes h (\<lambda>insn r w.
     let (c, a, b) = (if \<not> acc then (0, rs1 insn r, rs2 insn r) else if v < 2 then (rs3 insn r, rs1 insn r, rs2 insn r)
                      else (rs1 insn r, rs2 insn r, 0))
     in w = c + word_of_int (\<Sum>i<n. vec_elem sa (lane i a :: 'e word) * vec_elem sb (vec_second v sb i insn b :: 'e word))))"

definition dot_group :: "exec list \<Rightarrow> bool \<times> bool \<times> bool \<Rightarrow> bool" where
  "dot_group hs p \<longleftrightarrow> length hs = 6 \<and> (\<forall>v<3. vec_dot TYPE(16 word) 2 p v (hs ! v) \<and> vec_dot TYPE(u8) 4 p v (hs ! (3 + v)))"

text \<open>The operations: addition, subtraction, averages, minima, maxima, shifts by the second operand modulo the
  width, the bitwise operations; and the comparisons, which give all ones or zero.\<close>

definition vec_arith_ops :: "(bool \<times> (nat \<Rightarrow> int \<Rightarrow> int \<Rightarrow> int)) list" where
  "vec_arith_ops =
    [(True, \<lambda>n x y. x + y), (True, \<lambda>n x y. x - y),
     (True, \<lambda>n x y. signed_take_bit (n - 1) (x + y) div 2), (False, \<lambda>n x y. (x + y) mod 2 ^ n div 2),
     (True, \<lambda>n x y. min x y), (False, \<lambda>n x y. min x y), (True, \<lambda>n x y. max x y), (False, \<lambda>n x y. max x y),
     (False, \<lambda>n x y. x div 2 ^ nat (y mod int n)), (True, \<lambda>n x y. x div 2 ^ nat (y mod int n)),
     (False, \<lambda>n x y. x * 2 ^ nat (y mod int n)),
     (True, \<lambda>n x y. x OR y), (True, \<lambda>n x y. x XOR y), (True, \<lambda>n x y. x AND y)]"

definition vec_cmp_ops :: "(bool \<times> (nat \<Rightarrow> int \<Rightarrow> int \<Rightarrow> int)) list" where
  "vec_cmp_ops =
    [(True, \<lambda>n x y. if x = y then -1 else 0), (True, \<lambda>n x y. if x \<noteq> y then -1 else 0),
     (True, \<lambda>n x y. if x > y then -1 else 0), (True, \<lambda>n x y. if x \<ge> y then -1 else 0),
     (True, \<lambda>n x y. if x < y then -1 else 0), (True, \<lambda>n x y. if x \<le> y then -1 else 0),
     (False, \<lambda>n x y. if x > y then -1 else 0), (False, \<lambda>n x y. if x \<ge> y then -1 else 0),
     (False, \<lambda>n x y. if x < y then -1 else 0), (False, \<lambda>n x y. if x \<le> y then -1 else 0)]"

lemma less_3: "(\<forall>v<3. P v) \<longleftrightarrow> P 0 \<and> P 1 \<and> P (2 :: nat)"
  by (auto simp: numeral_3_eq_3 numeral_2_eq_2 less_Suc_eq)

lemma lane_0: "(lane 0 y :: 'e::len word) = ucast y" by (simp add: lane_def)

lemma vec_group_RS:
  assumes "\<And>x y. h x y = word_of_int (f 16 (sint x) (sint y))" "\<And>x y. b x y = word_of_int (f 8 (sint x) (sint y))"
  shows "vec_group (PV_OP_RS_EXEC h b) (True, f)"
  unfolding vec_group_def prod.case less_3 PV_OP_RS_EXEC_def vec_lanes_def
  by (simp add: PV_writes lane_VEC lane_VEC_SC assms vec_elem_def vec_second_def lane_0)

lemma vec_group_RU:
  assumes "\<And>x y. h x y = word_of_int (f 16 (uint x) (uint y))" "\<And>x y. b x y = word_of_int (f 8 (uint x) (uint y))"
  shows "vec_group (PV_OP_RU_EXEC h b) (False, f)"
  unfolding vec_group_def prod.case less_3 PV_OP_RU_EXEC_def vec_lanes_def
  by (simp add: PV_writes lane_VEC lane_VEC_SC assms vec_elem_def vec_second_def lane_0)

text \<open>The element operations on integers.\<close>

lemma elem_ops:
  fixes x y :: "'e::len word"
  shows "vec_avg x y = word_of_int (signed_take_bit (LENGTH('e) - 1) (sint x + sint y) div 2)"
    "vec_avgu x y = word_of_int ((uint x + uint y) mod 2 ^ LENGTH('e) div 2)"
    "vec_min x y = word_of_int (min (sint x) (sint y))" "vec_minu x y = word_of_int (min (uint x) (uint y))"
    "vec_max x y = word_of_int (max (sint x) (sint y))" "vec_maxu x y = word_of_int (max (uint x) (uint y))"
    "x OR y = word_of_int (sint x OR sint y)" "x XOR y = word_of_int (sint x XOR sint y)" "x AND y = word_of_int (sint x AND sint y)"
proof -
  show "vec_avg x y = word_of_int (signed_take_bit (LENGTH('e) - 1) (sint x + sint y) div 2)"
    unfolding vec_avg_def word_shift_ints(3) by (simp add: sint_word_ariths)
  show "vec_avgu x y = word_of_int ((uint x + uint y) mod 2 ^ LENGTH('e) div 2)"
    unfolding vec_avgu_def word_shift_ints(2) by (simp add: uint_word_ariths)
  have b: "bit (sint z) n = bit z n" if "n < LENGTH('e)" for z :: "'e word" and n
    using that by (cases "n = LENGTH('e) - 1") (auto simp: sint_uint bit_signed_take_bit_iff bit_uint_iff min_def)
  show "x OR y = word_of_int (sint x OR sint y)" "x XOR y = word_of_int (sint x XOR sint y)" "x AND y = word_of_int (sint x AND sint y)"
    by (rule bit_word_eqI, simp add: bit_word_of_int_iff bit_or_iff bit_xor_iff bit_and_iff b)+
qed (simp_all add: vec_min_def vec_minu_def vec_max_def vec_maxu_def min_def max_def word_less_def)

lemma sint_eq: "sint x = sint y \<longleftrightarrow> x = y" for x y :: "'e::len word"
  by (auto intro: signed_word_eqI)

lemma shift_mod:
  fixes x y :: "'e::len word"
  assumes "LENGTH('e) = 2 ^ m"
  shows "vec_srl x y = word_of_int (uint x div 2 ^ nat (uint y mod int LENGTH('e)))"
    "vec_sra x y = word_of_int (sint x div 2 ^ nat (sint y mod int LENGTH('e)))"
    "vec_sll x y = word_of_int (uint x * 2 ^ nat (uint y mod int LENGTH('e)))"
proof -
  have m: "(of_nat (LENGTH('e) - 1) :: 'e word) = mask m" using assms by (simp add: mask_eq_exp_minus_1 of_nat_diff)
  have u: "unat (y AND of_nat (LENGTH('e) - 1)) = nat (uint y mod int LENGTH('e))"
  proof -
    have "unat (y AND mask m) = take_bit m (unat y)" by (simp only: take_bit_eq_mask[symmetric] unsigned_take_bit_eq)
    also have "\<dots> = nat (uint y mod int LENGTH('e))"
      using assms by (simp add: take_bit_eq_mod nat_mod_distrib nat_uint_eq nat_power_eq)
    finally show ?thesis unfolding m .
  qed
  have "m \<le> LENGTH('e)" using assms by (metis less_exp less_or_eq_imp_le)
  then have "take_bit m (sint y) = take_bit m (uint y)" by (simp add: sint_uint take_bit_signed_take_bit)
  then have s: "sint y mod int LENGTH('e) = uint y mod int LENGTH('e)" using assms by (simp add: take_bit_eq_mod)
  show "vec_srl x y = word_of_int (uint x div 2 ^ nat (uint y mod int LENGTH('e)))"
    "vec_sra x y = word_of_int (sint x div 2 ^ nat (sint y mod int LENGTH('e)))"
    "vec_sll x y = word_of_int (uint x * 2 ^ nat (uint y mod int LENGTH('e)))"
    unfolding vec_srl_def vec_sra_def vec_sll_def s u word_shift_ints by (rule refl)+
qed

lemmas elem_ops_16 = elem_ops[where 'e = 16, simplified] shift_mod[where 'e = 16 and m = 4, simplified]
lemmas elem_ops_8 = elem_ops[where 'e = 8, simplified] shift_mod[where 'e = 8 and m = 3, simplified]

lemma vec_arith_groups:
  "list_all2 vec_group
    [PV_OP_RS_EXEC (+) (+), PV_OP_RS_EXEC (-) (-), PV_OP_RS_EXEC vec_avg vec_avg, PV_OP_RU_EXEC vec_avgu vec_avgu,
     PV_OP_RS_EXEC vec_min vec_min, PV_OP_RU_EXEC vec_minu vec_minu, PV_OP_RS_EXEC vec_max vec_max,
     PV_OP_RU_EXEC vec_maxu vec_maxu, PV_OP_RU_EXEC vec_srl vec_srl, PV_OP_RS_EXEC vec_sra vec_sra,
     PV_OP_RU_EXEC vec_sll vec_sll, PV_OP_RS_EXEC (OR) (OR), PV_OP_RS_EXEC (XOR) (XOR), PV_OP_RS_EXEC (AND) (AND)] vec_arith_ops"
  unfolding vec_arith_ops_def
  by (intro list.rel_intros vec_group_RS vec_group_RU; simp add: elem_ops_16 elem_ops_8)

lemma vec_cmp_groups:
  "list_all2 vec_group
    [PV_OP_RS_EXEC (cmp_op (=)) (cmp_op (=)), PV_OP_RS_EXEC (cmp_op (\<noteq>)) (cmp_op (\<noteq>)),
     PV_OP_RS_EXEC (cmp_op (\<lambda>x y. sint x > sint y)) (cmp_op (\<lambda>x y. sint x > sint y)),
     PV_OP_RS_EXEC (cmp_op (\<lambda>x y. sint x \<ge> sint y)) (cmp_op (\<lambda>x y. sint x \<ge> sint y)),
     PV_OP_RS_EXEC (cmp_op (\<lambda>x y. sint x < sint y)) (cmp_op (\<lambda>x y. sint x < sint y)),
     PV_OP_RS_EXEC (cmp_op (\<lambda>x y. sint x \<le> sint y)) (cmp_op (\<lambda>x y. sint x \<le> sint y)),
     PV_OP_RU_EXEC (cmp_op (>)) (cmp_op (>)), PV_OP_RU_EXEC (cmp_op (\<ge>)) (cmp_op (\<ge>)),
     PV_OP_RU_EXEC (cmp_op (<)) (cmp_op (<)), PV_OP_RU_EXEC (cmp_op (\<le>)) (cmp_op (\<le>))] vec_cmp_ops"
  unfolding vec_cmp_ops_def
  by (intro list.rel_intros vec_group_RS vec_group_RU; simp add: cmp_op_def word_less_def word_le_def sint_eq)

lemma vec_dots:
  assumes "\<And>x. ha x = word_of_int (vec_elem sa x)" "\<And>x. hb x = word_of_int (vec_elem sb x)"
    "\<And>x. ba x = word_of_int (vec_elem sa x)" "\<And>x. bb x = word_of_int (vec_elem sb x)"
  shows "sb \<Longrightarrow> dot_group (PV_OP_RS_EXEC2 ha hb ba bb) (False, sa, sb)"
    "\<not> sb \<Longrightarrow> dot_group (PV_OP_RU_EXEC2 ha hb ba bb) (False, sa, sb)"
    "sb \<Longrightarrow> dot_group (PV_OP_RRS_EXEC2 ha hb ba bb) (True, sa, sb)"
    "\<not> sb \<Longrightarrow> dot_group (PV_OP_RRU_EXEC2 ha hb ba bb) (True, sa, sb)"
  unfolding dot_group_def less_3 PV_OP_RS_EXEC2_def PV_OP_RU_EXEC2_def PV_OP_RRS_EXEC2_def PV_OP_RRU_EXEC2_def vec_dot_def
  by (simp_all add: PV_writes lib_VEC_DOTP_def lib_VEC_DOTP_SC_def SDOT_sum SDOT_SC_sum assms vec_second_def)

lemma vec_dot_groups:
  "list_all2 dot_group
    [PV_OP_RS_EXEC2 scast scast scast scast, PV_OP_RU_EXEC2 ucast ucast ucast ucast, PV_OP_RS_EXEC2 ucast scast ucast scast,
     PV_OP_RRS_EXEC2 scast scast scast scast, PV_OP_RRU_EXEC2 ucast ucast ucast ucast, PV_OP_RRS_EXEC2 ucast scast ucast scast]
    [(False, True, True), (False, False, False), (False, False, True), (True, True, True), (True, False, False), (True, False, True)]"
  by (intro list.rel_intros vec_dots; simp add: vec_elem_def)

lemma lane_ABS:
  assumes "i < n" "n * LENGTH('e) \<le> 32"
  shows "(lane i (lib_VEC_ABS TYPE('e::len word) n a) :: 'e word) = word_of_int \<bar>sint (lane i a :: 'e word)\<bar>"
  unfolding lib_VEC_ABS_def using assms by (subst lane_unlanes) (simp_all add: Let_def abs_if signed_eq_0_iff)

text \<open>C34: The packed operations. The handlers of the arithmetic operations come in groups of six (half words or bytes;
  with a vector, the low element of a register, or an immediate as second operand), and each computes its
  operation lane by lane on the integers of the elements, modulo the width, with no carry across; so do those
  of the comparisons and the two of the absolute value. The handlers of the dot products add the products of the
  elements, signed, unsigned or mixed, to nothing or to their accumulator. Each falls through and changes nothing
  else but its output register and the validity bits.\<close>

theorem pulp_vector_lanes:
  "(\<exists>gs hh hb. pv_arith_handlers = concat gs @ [hh, hb] \<and> list_all2 vec_group gs vec_arith_ops
     \<and> writes hh (\<lambda>insn r w. \<forall>i<2. (lane i w :: 16 word) = word_of_int \<bar>sint (lane i (rs1 insn r) :: 16 word)\<bar>)
     \<and> writes hb (\<lambda>insn r w. \<forall>i<4. (lane i w :: u8) = word_of_int \<bar>sint (lane i (rs1 insn r) :: u8)\<bar>))
   \<and> (\<exists>gs. pv_cmp_handlers = concat gs \<and> list_all2 vec_group gs vec_cmp_ops)
   \<and> (\<exists>gs. pv_dot_handlers = concat gs \<and> list_all2 dot_group gs
        [(False, True, True), (False, False, False), (False, False, True), (True, True, True), (True, False, False), (True, False, True)])"
proof (intro conjI)
  show "\<exists>gs hh hb. pv_arith_handlers = concat gs @ [hh, hb] \<and> list_all2 vec_group gs vec_arith_ops
     \<and> writes hh (\<lambda>insn r w. \<forall>i<2. (lane i w :: 16 word) = word_of_int \<bar>sint (lane i (rs1 insn r) :: 16 word)\<bar>)
     \<and> writes hb (\<lambda>insn r w. \<forall>i<4. (lane i w :: u8) = word_of_int \<bar>sint (lane i (rs1 insn r) :: u8)\<bar>)"
    by (intro exI conjI; (rule vec_arith_groups)?; (rule PV_writes)?) (auto simp: pv_arith_handlers_def PV_OP1_RS_EXEC_def lane_ABS)
  show "\<exists>gs. pv_cmp_handlers = concat gs \<and> list_all2 vec_group gs vec_cmp_ops"
    by (intro exI conjI; (rule vec_cmp_groups)?) (simp add: pv_cmp_handlers_def)
  show "\<exists>gs. pv_dot_handlers = concat gs \<and> list_all2 dot_group gs
      [(False, True, True), (False, False, False), (False, False, True), (True, True, True), (True, False, False), (True, False, True)]"
    by (intro exI conjI; (rule vec_dot_groups)?) (simp add: pv_dot_handlers_def)
qed

text \<open>The absolute value of the byte \<open>0xfb\<close>, which is -5.\<close>

theorem pulp_vector_lanes_witness:
  "lane 0 (regs (iss_regfile (snd (last pv_arith_handlers \<lparr>out_regs = [3], in_regs = [1], uim = [], sim = [], insn_size = 4\<rparr> 0
     (on_rf (set_reg 1 0xfb) demo_iss)))) 3) = (5 :: u8)"
proof -
  define insn where "insn = \<lparr>out_regs = [3], in_regs = [1], uim = [], sim = [], insn_size = 4\<rparr>"
  define s where "s = on_rf (set_reg 1 0xfb) demo_iss"
  have v: "REG_OUT insn 0 = 3" "rs1 insn (regs (iss_regfile s)) = 0xfb" by (simp_all add: insn_def s_def on_rf_def set_reg_def)
  obtain gs hh hb where h: "pv_arith_handlers = concat gs @ [hh, hb]"
      "writes hb (\<lambda>insn r w. \<forall>i<4. (lane i w :: u8) = word_of_int \<bar>sint (lane i (rs1 insn r) :: u8)\<bar>)"
    using pulp_vector_lanes by blast
  have "\<forall>i<4. (lane i (regs (iss_regfile (snd (hb insn 0 s))) 3) :: u8) = word_of_int \<bar>sint (lane i (0xfb :: u32) :: u8)\<bar>"
    using h(2)[unfolded writes_def Let_def case_prod_beta, THEN spec[of _ insn], THEN spec[of _ 0], THEN spec[of _ s]]
    unfolding v by blast
  then have "(lane 0 (regs (iss_regfile (snd (hb insn 0 s))) 3) :: u8) = word_of_int \<bar>sint (lane 0 (0xfb :: u32) :: u8)\<bar>"
    by (rule allE[of _ 0]) simp
  moreover have "word_of_int \<bar>sint (lane 0 (0xfb :: u32) :: u8)\<bar> = (5 :: u8)" by (simp add: lane_def)
  moreover have "last pv_arith_handlers = hb" unfolding h(1) by simp
  ultimately show ?thesis unfolding insn_def s_def by metis
qed

section \<open>Where the code departs from this\<close>

text \<open>A post-increment is applied although the access has faulted: the handler of the exception returns to
  an instruction whose base register has moved.\<close>

theorem postinc_on_fault:
  assumes "la_status (port (rs1 insn (regs (iss_regfile s))) 1 False []) = LSU_INVALID" "REG_OUT insn 0 \<noteq> REG_IN insn 0"
  shows "regs (iss_regfile (snd (LBU_POSTINC_exec_fast port insn pc s))) (REG_IN insn 0)
      = rs1 insn (regs (iss_regfile s)) + SIM_GET insn 0
    \<and> has_exception (snd (LBU_POSTINC_exec_fast port insn pc s))"
proof -
  have r: "regs (reg_check_write a b c rf) = regs rf" for a b c rf by (simp add: reg_check_write_def memcheck_defs)
  have x: "iss_regfile (raise p c t) = iss_regfile t" "has_exception (raise p c t)" for p c t
    by (simp_all add: raise_def Let_def mode_set_def switch_to_full_mode_def)
  show ?thesis using assms
    by (simp add: LBU_POSTINC_exec_fast_def lsu_then_def lsu_load_def data_req_def data_req_aligned_def Let_def
        get_reg_def set_reg_def x r)
qed

end
