(* ===== verification/HwLoop.thy ===== *)
theory HwLoop imports PulpV2 begin

text \<open>
  The two hardware loops of the PULP extension: the instructions that configure them and the check that runs
  after the last instruction of a body (\<open>src/models/cpu/iss/include/isa/pulp_v2.hpp\<close>), the stub that the core
  puts on that instruction (\<open>src/models/cpu/iss/src/exec/exec_inorder.cpp\<close>) when the loop is configured or when
  the instruction is decoded, and the access to the loop registers through the CSRs (\<open>src/models/cpu/iss/src/csr.cpp\<close>).
\<close>

section \<open>State\<close>

text \<open>An entry of the instruction cache, with its MMU-less lookup: not decoded yet, or decoded, and then
  \<open>hwloop_handler\<close> is set or not.\<close>

datatype insn_slot = Undecoded | Decoded bool

record hwloop =
  hwloop_regs :: "nat \<Rightarrow> u32"
  hwloop_start_insn :: "nat \<Rightarrow> u32"
  hwloop_end_insn :: "nat \<Rightarrow> u32"
  hwloop_next_insn :: u32
  elw_interrupted :: bool
  insn_slots :: "u32 \<Rightarrow> insn_slot"

definition LPSTART :: "nat \<Rightarrow> nat" where "LPSTART x = 0 + x * 4"
definition LPEND :: "nat \<Rightarrow> nat" where "LPEND x = 1 + x * 4"
definition LPCOUNT :: "nat \<Rightarrow> nat" where "LPCOUNT x = 2 + x * 4"
definition NB_HWLOOP :: nat where "NB_HWLOOP = 2"

lemmas lp_index = LPSTART_def LPEND_def LPCOUNT_def

definition hwloop_reset :: hwloop where
  "hwloop_reset = \<lparr>hwloop_regs = (\<lambda>_. 0), hwloop_start_insn = (\<lambda>_. 0), hwloop_end_insn = (\<lambda>_. 0), hwloop_next_insn = 0,
     elw_interrupted = False, insn_slots = (\<lambda>_. Undecoded)\<rparr>"

section \<open>The core side\<close>

definition insn_is_decoded :: "u32 \<Rightarrow> hwloop \<Rightarrow> bool" where
  "insn_is_decoded pc h = (insn_slots h pc \<noteq> Undecoded)"

definition hwloop_stub_insert :: "u32 \<Rightarrow> hwloop \<Rightarrow> hwloop" where
  "hwloop_stub_insert pc h =
     (if insn_slots h pc \<noteq> Decoded True then h\<lparr>insn_slots := (insn_slots h)(pc := Decoded True)\<rparr> else h)"

definition exec_hwloop_set_start :: "nat \<Rightarrow> u32 \<Rightarrow> hwloop \<Rightarrow> hwloop" where
  "exec_hwloop_set_start index pc h = h\<lparr>hwloop_start_insn := (hwloop_start_insn h)(index := pc)\<rparr>"

definition exec_hwloop_set_end :: "nat \<Rightarrow> u32 \<Rightarrow> hwloop \<Rightarrow> hwloop" where
  "exec_hwloop_set_end index pc h0 =
     (let h = h0\<lparr>hwloop_end_insn := (hwloop_end_insn h0)(index := pc)\<rparr>
      in if insn_is_decoded pc h then hwloop_stub_insert pc h else h)"

definition exec_decode_insn :: "u32 \<Rightarrow> hwloop \<Rightarrow> hwloop" where
  "exec_decode_insn pc h =
     (if \<exists>i\<in>set [0..<NB_HWLOOP]. hwloop_end_insn h i = pc then hwloop_stub_insert pc h else h)"

text \<open>The decoder: it sets the handlers of the instruction, then the core may insert the stub.\<close>

definition decode_pc :: "u32 \<Rightarrow> hwloop \<Rightarrow> hwloop" where
  "decode_pc pc h = exec_decode_insn pc (h\<lparr>insn_slots := (insn_slots h)(pc := Decoded False)\<rparr>)"

definition hw_cache_flush :: "hwloop \<Rightarrow> hwloop" where
  "hw_cache_flush h = h\<lparr>insn_slots := (\<lambda>_. Undecoded)\<rparr>"

section \<open>The instructions\<close>

definition hwloop_set_start :: "nat \<Rightarrow> u32 \<Rightarrow> hwloop \<Rightarrow> hwloop" where
  "hwloop_set_start index start h =
     exec_hwloop_set_start index start (h\<lparr>hwloop_regs := (hwloop_regs h)(LPSTART index := start)\<rparr>)"

definition hwloop_set_end :: "nat \<Rightarrow> u32 \<Rightarrow> hwloop \<Rightarrow> hwloop" where
  "hwloop_set_end index end_pc h =
     exec_hwloop_set_end index end_pc (h\<lparr>hwloop_regs := (hwloop_regs h)(LPEND index := end_pc)\<rparr>)"

definition hwloop_set_count :: "nat \<Rightarrow> u32 \<Rightarrow> hwloop \<Rightarrow> hwloop" where
  "hwloop_set_count index count h = h\<lparr>hwloop_regs := (hwloop_regs h)(LPCOUNT index := count)\<rparr>"

definition hwloop_set_all :: "nat \<Rightarrow> u32 \<Rightarrow> u32 \<Rightarrow> u32 \<Rightarrow> hwloop \<Rightarrow> hwloop" where
  "hwloop_set_all index start end_pc count h =
     hwloop_set_count index count (hwloop_set_start index start (hwloop_set_end index end_pc h))"

type_synonym hw_exec = "iss_insn \<Rightarrow> u32 \<Rightarrow> hwloop \<times> iss \<Rightarrow> u32 \<times> hwloop \<times> iss"

definition lp_starti_exec :: hw_exec where
  "lp_starti_exec insn pc hs = (case hs of (h, s) \<Rightarrow>
     (iss_insn_next insn pc, hwloop_set_start (unat (UIM_GET insn 0)) (pc + push_bit 1 (UIM_GET insn 1)) h, s))"

definition lp_endi_exec :: hw_exec where
  "lp_endi_exec insn pc hs = (case hs of (h, s) \<Rightarrow>
     (iss_insn_next insn pc, hwloop_set_end (unat (UIM_GET insn 0)) (pc + push_bit 1 (UIM_GET insn 1)) h, s))"

definition lp_count_exec :: hw_exec where
  "lp_count_exec insn pc hs = (case hs of (h, s0) \<Rightarrow>
     let s = on_rf (memcheck_branch_reg (REG_IN insn 0)) s0
     in (iss_insn_next insn pc, hwloop_set_count (unat (UIM_GET insn 0)) (REG_GET insn 0 s) h, s))"

definition lp_counti_exec :: hw_exec where
  "lp_counti_exec insn pc hs = (case hs of (h, s) \<Rightarrow>
     (iss_insn_next insn pc, hwloop_set_count (unat (UIM_GET insn 0)) (UIM_GET insn 1) h, s))"

definition lp_setup_exec :: hw_exec where
  "lp_setup_exec insn pc hs = (case hs of (h, s0) \<Rightarrow>
     let s = on_rf (memcheck_branch_reg (REG_IN insn 0)) s0;
         index = unat (UIM_GET insn 0);
         count = REG_GET insn 0 s;
         start = pc + insn_size insn;
         end_pc = pc + push_bit 1 (UIM_GET insn 1)
     in (iss_insn_next insn pc, hwloop_set_all index start end_pc count h, s))"

definition lp_setupi_exec :: hw_exec where
  "lp_setupi_exec insn pc hs = (case hs of (h, s) \<Rightarrow>
     let index = unat (UIM_GET insn 0);
         count = UIM_GET insn 1;
         start = pc + insn_size insn;
         end_pc = pc + push_bit 1 (UIM_GET insn 2)
     in (iss_insn_next insn pc, hwloop_set_all index start end_pc count h, s))"

text \<open>The stub. \<open>real\<close> is the handler the stub replaces, \<open>halted\<close> the state of the core after it.\<close>

definition loop_end :: "nat \<Rightarrow> u32 \<Rightarrow> hwloop \<Rightarrow> bool \<times> hwloop" where
  "loop_end x pc h =
     (if hwloop_regs h (LPCOUNT x) \<noteq> 0 \<and> hwloop_regs h (LPEND x) = pc
      then let h1 = h\<lparr>hwloop_regs := (hwloop_regs h)(LPCOUNT x := hwloop_regs h (LPCOUNT x) - 1)\<rparr>
           in if hwloop_regs h1 (LPCOUNT x) \<noteq> 0
              then (True, h1\<lparr>hwloop_next_insn := hwloop_start_insn h1 x\<rparr>) else (False, h1)
      else (False, h))"

definition hwloop_check_exec :: "bool \<Rightarrow> exec \<Rightarrow> hw_exec" where
  "hwloop_check_exec halted real insn pc hs = (case hs of (h, s) \<Rightarrow>
     let interrupted = elw_interrupted h;
         (insn_next, s') = real insn pc s
     in if halted then (insn_next, h, s')
        else if interrupted then (hwloop_next_insn h, h, s')
        else let (back0, h0) = loop_end 0 pc h
             in if back0 then (hwloop_start_insn h0 0, h0, s')
                else let (back1, h1) = loop_end 1 pc h0
                     in if back1 then (hwloop_start_insn h1 1, h1, s')
                        else (insn_next, h1\<lparr>hwloop_next_insn := insn_next\<rparr>, s'))"

text \<open>The execution of the instruction at \<open>pc\<close>, which is decoded first if it has to be.\<close>

definition hw_insn_exec :: "bool \<Rightarrow> exec \<Rightarrow> hw_exec" where
  "hw_insn_exec halted real insn pc hs = (case hs of (h0, s) \<Rightarrow>
     let h = (if insn_is_decoded pc h0 then h0 else decode_pc pc h0)
     in if insn_slots h pc = Decoded True then hwloop_check_exec halted real insn pc (h, s)
        else (case real insn pc s of (next, s') \<Rightarrow> (next, h, s')))"

section \<open>The CSRs\<close>

definition hwloop_read :: "nat \<Rightarrow> hwloop \<Rightarrow> u32" where "hwloop_read reg h = hwloop_regs h reg"

definition hwloop_write :: "nat \<Rightarrow> u32 \<Rightarrow> hwloop \<Rightarrow> hwloop" where
  "hwloop_write reg v h0 =
     (let h = h0\<lparr>hwloop_regs := (hwloop_regs h0)(reg := v)\<rparr>
      in if reg = 0 then h\<lparr>hwloop_start_insn := (hwloop_start_insn h)(0 := v)\<rparr>
         else if reg = 4 then h\<lparr>hwloop_start_insn := (hwloop_start_insn h)(1 := v)\<rparr> else h)"

section \<open>No end of a body is missed\<close>

text \<open>The states the software reaches without writing the end registers through the CSRs.\<close>

inductive hw_reach :: "hwloop \<Rightarrow> bool" where
  started: "hw_reach hwloop_reset"
| starti: "hw_reach h \<Longrightarrow> UIM_GET insn 0 < 2 \<Longrightarrow> hw_reach (fst (snd (lp_starti_exec insn pc (h, s))))"
| endi: "hw_reach h \<Longrightarrow> UIM_GET insn 0 < 2 \<Longrightarrow> hw_reach (fst (snd (lp_endi_exec insn pc (h, s))))"
| count: "hw_reach h \<Longrightarrow> UIM_GET insn 0 < 2 \<Longrightarrow> hw_reach (fst (snd (lp_count_exec insn pc (h, s))))"
| counti: "hw_reach h \<Longrightarrow> UIM_GET insn 0 < 2 \<Longrightarrow> hw_reach (fst (snd (lp_counti_exec insn pc (h, s))))"
| lp_setup: "hw_reach h \<Longrightarrow> UIM_GET insn 0 < 2 \<Longrightarrow> hw_reach (fst (snd (lp_setup_exec insn pc (h, s))))"
| lp_setupi: "hw_reach h \<Longrightarrow> UIM_GET insn 0 < 2 \<Longrightarrow> hw_reach (fst (snd (lp_setupi_exec insn pc (h, s))))"
| insn: "hw_reach h \<Longrightarrow> hw_reach (fst (snd (hw_insn_exec halted real insn pc (h, s))))"
| flush: "hw_reach h \<Longrightarrow> hw_reach (hw_cache_flush h)"
| csr: "hw_reach h \<Longrightarrow> reg < 7 \<Longrightarrow> reg \<noteq> LPEND 0 \<Longrightarrow> reg \<noteq> LPEND 1 \<Longrightarrow> hw_reach (hwloop_write reg v h)"

definition hw_inv :: "hwloop \<Rightarrow> bool" where
  "hw_inv h \<longleftrightarrow> (\<forall>x<2. hwloop_start_insn h x = hwloop_regs h (LPSTART x) \<and> hwloop_end_insn h x = hwloop_regs h (LPEND x)
     \<and> insn_slots h (hwloop_end_insn h x) \<noteq> Decoded False)"

lemma unat_of_nat32: "k < 2 ^ 32 \<Longrightarrow> unat (of_nat k :: u32) = k"
  by (simp add: unat_of_nat take_bit_nat_eq_self)

lemma less_two: "(\<forall>x<2. P x) \<longleftrightarrow> P 0 \<and> P (1 :: nat)"
  by (auto simp: numeral_2_eq_2 less_Suc_eq)

lemma uim_two:
  fixes w :: u32
  assumes "w < 2" shows "unat w = 0 \<or> unat w = 1"
proof -
  have "unat w < 2" using assms by (simp add: word_less_nat_alt)
  then show ?thesis by linarith
qed

lemmas hw_defs = hw_inv_def less_two lp_index hwloop_set_start_def hwloop_set_end_def hwloop_set_count_def hwloop_set_all_def
  exec_hwloop_set_start_def exec_hwloop_set_end_def hwloop_stub_insert_def insn_is_decoded_def

lemma hw_set_inv:
  assumes "hw_inv h" "x = 0 \<or> x = 1"
  shows "hw_inv (hwloop_set_start x v h)" "hw_inv (hwloop_set_end x v h)" "hw_inv (hwloop_set_count x v h)"
  using assms by (auto simp: hw_defs Let_def)

lemma hw_set_all_inv: "hw_inv h \<Longrightarrow> x = 0 \<or> x = 1 \<Longrightarrow> hw_inv (hwloop_set_all x st e c h)"
  unfolding hwloop_set_all_def by (intro hw_set_inv)

lemma decode_inv: "hw_inv h \<Longrightarrow> hw_inv (decode_pc pc h)"
  by (auto simp: hw_defs decode_pc_def exec_decode_insn_def NB_HWLOOP_def)

lemma loop_end_inv: "hw_inv h \<Longrightarrow> x = 0 \<or> x = 1 \<Longrightarrow> hw_inv (snd (loop_end x pc h))"
  by (auto simp: hw_defs loop_end_def Let_def)

lemma next_insn_inv: "hw_inv (h\<lparr>hwloop_next_insn := n\<rparr>) = hw_inv h"
  by (simp add: hw_inv_def)

lemma hw_check_inv:
  assumes "hw_inv h" shows "hw_inv (fst (snd (hwloop_check_exec halted real insn pc (h, s))))"
proof -
  obtain n s' where r: "real insn pc s = (n, s')" by fastforce
  obtain b0 h0 where l0: "loop_end 0 pc h = (b0, h0)" by fastforce
  obtain b1 h1 where l1: "loop_end 1 pc h0 = (b1, h1)" by fastforce
  have "hw_inv h0" using loop_end_inv[OF assms, of 0 pc] l0 by simp
  moreover from this have "hw_inv h1" using loop_end_inv[of h0 1 pc] l1 by simp
  ultimately show ?thesis using assms by (simp add: hwloop_check_exec_def r l0 l1 l1[unfolded One_nat_def] Let_def next_insn_inv)
qed

lemma hw_insn_inv:
  assumes "hw_inv h" shows "hw_inv (fst (snd (hw_insn_exec halted real insn pc (h, s))))"
  using hw_check_inv[OF assms] hw_check_inv[OF decode_inv[OF assms]] decode_inv[OF assms] assms
  by (simp add: hw_insn_exec_def Let_def split: prod.splits)

lemma hw_reach_inv: "hw_reach h \<Longrightarrow> hw_inv h"
proof (induction rule: hw_reach.induct)
  case started then show ?case by (simp add: hw_inv_def hwloop_reset_def)
next
  case (flush h) then show ?case by (simp add: hw_inv_def hw_cache_flush_def)
next
  case (csr h reg v)
  then show ?case by (auto simp: hw_defs hwloop_write_def Let_def)
qed (auto simp: lp_starti_exec_def lp_endi_exec_def lp_count_exec_def lp_counti_exec_def lp_setup_exec_def lp_setupi_exec_def
    Let_def intro!: hw_set_inv hw_set_all_inv hw_insn_inv uim_two)

text \<open>What the loop \<open>x\<close> is, and that the other loop does not end at \<open>pc\<close> too.\<close>

definition loop_view :: "nat \<Rightarrow> hwloop \<Rightarrow> u32 \<times> u32 \<times> u32 \<times> bool" where
  "loop_view x h = (hwloop_regs h (LPSTART x), hwloop_regs h (LPEND x), hwloop_regs h (LPCOUNT x), elw_interrupted h)"

definition other_quiet :: "nat \<Rightarrow> u32 \<Rightarrow> hwloop \<Rightarrow> bool" where
  "other_quiet x pc h \<longleftrightarrow> hwloop_regs h (LPEND (1 - x)) \<noteq> pc \<or> hwloop_regs h (LPCOUNT (1 - x)) = 0"

lemma decode_view:
  "hwloop_regs (decode_pc pc h) = hwloop_regs h" "hwloop_start_insn (decode_pc pc h) = hwloop_start_insn h"
  "elw_interrupted (decode_pc pc h) = elw_interrupted h" "hwloop_end_insn (decode_pc pc h) = hwloop_end_insn h"
  by (simp_all add: decode_pc_def exec_decode_insn_def hwloop_stub_insert_def)

lemma loop_end_quiet: "hwloop_regs h (LPEND x) \<noteq> pc \<or> hwloop_regs h (LPCOUNT x) = 0 \<Longrightarrow> loop_end x pc h = (False, h)"
  by (auto simp: loop_end_def)

lemma loop_end_counts:
  assumes "hwloop_regs h (LPCOUNT x) = c" "c \<noteq> 0" "hwloop_regs h (LPEND x) = pc"
  shows "loop_end x pc h = (c \<noteq> 1, h\<lparr>hwloop_regs := (hwloop_regs h)(LPCOUNT x := c - 1),
    hwloop_next_insn := (if c \<noteq> 1 then hwloop_start_insn h x else hwloop_next_insn h)\<rparr>)"
  using assms by (simp add: loop_end_def Let_def)

text \<open>One execution of the last instruction of the body.\<close>

lemma hw_check_counts:
  assumes "x = 0 \<or> x = 1" "loop_view x h = (st, pc, c, False)" "c \<noteq> 0" "other_quiet x pc h" "hwloop_start_insn h x = st"
    and "real insn pc s = (nx, s')" "hwloop_check_exec False real insn pc (h, s) = (next, h', s'')"
  shows "next = (if c = 1 then nx else st) \<and> loop_view x h' = (st, pc, c - 1, False) \<and> other_quiet x pc h' \<and> s'' = s'"
  using assms(1)
proof
  assume x: "x = 0"
  have v: "hwloop_regs h (LPCOUNT 0) = c" "hwloop_regs h (LPEND 0) = pc" "\<not> elw_interrupted h"
    using assms(2) by (simp_all add: loop_view_def x)
  note l0 = loop_end_counts[OF v(1) assms(3) v(2)]
  have l1: "loop_end (Suc 0) pc (snd (loop_end 0 pc h)) = (False, snd (loop_end 0 pc h))"
    by (rule loop_end_quiet) (use assms(4) in \<open>simp add: l0 other_quiet_def x lp_index\<close>)
  show ?thesis using assms(2,4,5,7) l1 unfolding x
    by (auto simp: hwloop_check_exec_def assms(6) l0 v Let_def loop_view_def other_quiet_def lp_index split: if_splits)
next
  assume x: "x = 1"
  have v: "hwloop_regs h (LPCOUNT 1) = c" "hwloop_regs h (LPEND 1) = pc" "\<not> elw_interrupted h"
    using assms(2) by (simp_all add: loop_view_def x)
  note l1 = loop_end_counts[OF v(1) assms(3) v(2)]
  have l0: "loop_end 0 pc h = (False, h)" by (rule loop_end_quiet) (use assms(4) in \<open>simp add: other_quiet_def x\<close>)
  show ?thesis using assms(2,4,5,7) unfolding x
    by (auto simp: hwloop_check_exec_def assms(6) l0 l1 l1[unfolded One_nat_def] v Let_def loop_view_def other_quiet_def lp_index split: if_splits)
qed

lemma hw_insn_counts:
  assumes "hw_inv h" "x = 0 \<or> x = 1" "loop_view x h = (st, pc, c, False)" "c \<noteq> 0" "other_quiet x pc h"
    and "real insn pc s = (nx, s')" "hw_insn_exec False real insn pc (h, s) = (next, h', s'')"
  shows "next = (if c = 1 then nx else st) \<and> loop_view x h' = (st, pc, c - 1, False) \<and> other_quiet x pc h' \<and> s'' = s'"
proof -
  define h1 where "h1 = (if insn_is_decoded pc h then h else decode_pc pc h)"
  have i: "hw_inv h1" using assms(1) decode_inv by (simp add: h1_def)
  have e: "hwloop_end_insn h1 x = pc" "hwloop_start_insn h1 x = st" "loop_view x h1 = (st, pc, c, False)" "other_quiet x pc h1"
    using assms(1,2,3,5) by (auto simp: h1_def loop_view_def other_quiet_def decode_view hw_inv_def)
  have "x < 2" using assms(2) by auto
  then have "insn_slots h1 (hwloop_end_insn h1 x) \<noteq> Decoded False" using i unfolding hw_inv_def by blast
  then have "insn_slots h1 pc \<noteq> Decoded False" by (simp add: e(1))
  moreover have "insn_slots h1 pc \<noteq> Undecoded"
    by (auto simp: h1_def insn_is_decoded_def decode_pc_def exec_decode_insn_def hwloop_stub_insert_def)
  ultimately have "insn_slots h1 pc = Decoded True" by (cases "insn_slots h1 pc") auto
  then have "hwloop_check_exec False real insn pc (h1, s) = (next, h', s'')"
    using assms(7) by (simp add: hw_insn_exec_def h1_def[symmetric] Let_def)
  then show ?thesis using hw_check_counts[where real = real] assms(2,4,6) e(2,3,4) by blast
qed

text \<open>The iterations: the body, whatever it executes, then its last instruction. The result has the
  addresses the core goes to after each.\<close>

fun loop_run :: "(nat \<Rightarrow> hwloop \<times> iss \<Rightarrow> hwloop \<times> iss) \<Rightarrow> exec \<Rightarrow> iss_insn \<Rightarrow> u32 \<Rightarrow> nat \<Rightarrow> hwloop \<times> iss \<Rightarrow> u32 list \<times> hwloop \<times> iss" where
  "loop_run body real insn pc 0 hs = ([], hs)"
| "loop_run body real insn pc (Suc k) hs =
     (let (next, hs') = hw_insn_exec False real insn pc (body k hs);
          (rest, hs'') = loop_run body real insn pc k hs'
      in (next # rest, hs''))"

text \<open>A body that leaves the loop alone: it may run the other loop, as long as that is over when the end of
  this one is reached.\<close>

definition body_ok :: "nat \<Rightarrow> u32 \<Rightarrow> (nat \<Rightarrow> hwloop \<times> iss \<Rightarrow> hwloop \<times> iss) \<Rightarrow> bool" where
  "body_ok x pc body \<longleftrightarrow> (\<forall>k h s. hw_reach h \<longrightarrow> other_quiet x pc h \<longrightarrow>
     (case body k (h, s) of (h', s') \<Rightarrow> hw_reach h' \<and> loop_view x h' = loop_view x h \<and> other_quiet x pc h'))"

lemma loop_run_counts:
  assumes "hw_reach h" "x = 0 \<or> x = 1" "loop_view x h = (st, pc, of_nat n, False)" "n < 2 ^ 32" "other_quiet x pc h"
    and "body_ok x pc body" "\<And>s. fst (real insn pc s) = nx" "0 < n"
  shows "fst (loop_run body real insn pc n (h, s)) = replicate (n - 1) st @ [nx]
    \<and> loop_view x (fst (snd (loop_run body real insn pc n (h, s)))) = (st, pc, 0, False)"
  using assms(1,3,4,5,8)
proof (induction n arbitrary: h s)
  case (Suc n)
  obtain h1 s1 where b: "body n (h, s) = (h1, s1)" by fastforce
  have h1: "hw_reach h1" "loop_view x h1 = (st, pc, of_nat (Suc n), False)" "other_quiet x pc h1"
    using assms(6)[unfolded body_ok_def, rule_format, OF Suc.prems(1,4), of n s] b Suc.prems(2) by simp_all
  obtain n2 h2 s2 where e: "hw_insn_exec False real insn pc (h1, s1) = (n2, h2, s2)" by (metis prod_cases3)
  have r2: "hw_reach h2" using hw_reach.insn[OF h1(1), of False real insn pc s1] e by simp
  obtain s' where r: "real insn pc s1 = (nx, s')" using assms(7)[of s1] by (metis prod.collapse)
  have u: "unat (of_nat (Suc n) :: u32) = Suc n" by (rule unat_of_nat32) (use Suc.prems(3) in simp)
  have c0: "(of_nat (Suc n) :: u32) \<noteq> 0" using u by (metis unat_0 nat.distinct(1))
  have c1: "(of_nat (Suc n) :: u32) = 1 \<longleftrightarrow> n = 0" unfolding word_unat_eq_iff u by simp
  have c: "n2 = (if n = 0 then nx else st)" "loop_view x h2 = (st, pc, of_nat n, False)" "other_quiet x pc h2"
    using hw_insn_counts[OF hw_reach_inv[OF h1(1)] assms(2) h1(2) c0 h1(3) r e] c1 by simp_all
  show ?case
  proof (cases n)
    case 0
    then show ?thesis using b e c by simp
  next
    case (Suc m)
    have "fst (loop_run body real insn pc n (h2, s2)) = replicate (n - 1) st @ [nx]
        \<and> loop_view x (fst (snd (loop_run body real insn pc n (h2, s2)))) = (st, pc, 0, False)"
      using Suc.IH[OF r2 c(2) _ c(3)] Suc Suc.prems(3) by simp
    then show ?thesis using b e c(1) Suc by (simp add: case_prod_unfold Let_def)
  qed
qed simp

lemma setup_view:
  assumes "x = 0 \<or> x = 1" "\<not> elw_interrupted h"
  shows "loop_view x (hwloop_set_all x st e c h) = (st, e, c, False)"
    "other_quiet x e (hwloop_set_all x st e c h) = other_quiet x e h"
  using assms by (auto simp: hw_defs loop_view_def other_quiet_def Let_def)

text \<open>C13: A hardware loop runs its body the number of times it was configured with. After \<open>lp.setup\<close> with a
  count that is not zero, whatever the body executes as long as it leaves this loop alone and the other
  loop is over when it ends, and whether or not its last instruction was already decoded, the core
  goes back to the start after each iteration but the last, then goes on after the loop with a count
  of zero.\<close>

theorem hwloop_iterates:
  assumes "hw_reach h0" "\<not> elw_interrupted h0" "UIM_GET insn 0 = of_nat x" "x < 2"
    and "lp_setup_exec insn pc0 (h0, s0) = (next, h, s)"
    and "count = unat (regs (iss_regfile s0) (REG_IN insn 0))" "0 < count" "pc = pc0 + 2 * UIM_GET insn 1"
    and "other_quiet x pc h0" "body_ok x pc body" "\<And>t. fst (real ins pc t) = nx"
  shows "\<exists>h' s'. loop_run body real ins pc count (h, s) = (replicate (count - 1) (pc0 + insn_size insn) @ [nx], h', s')
    \<and> hwloop_regs h' (LPCOUNT x) = 0"
proof -
  have x: "x = 0 \<or> x = 1" using assms(4) by auto
  have u: "unat (UIM_GET insn 0) = x" unfolding assms(3) by (rule unat_of_nat32) (use assms(4) in simp)
  have n: "(of_nat count :: u32) = regs (iss_regfile s0) (REG_IN insn 0)" "count < 2 ^ 32"
    using unat_lt2p[of "regs (iss_regfile s0) (REG_IN insn 0)"] by (simp_all add: assms(6))
  have "UIM_GET insn 0 < 2" using assms(3) x by auto
  from hw_reach.lp_setup[OF assms(1) this, of pc0 s0] have r: "hw_reach h" by (simp add: assms(5))
  have h: "h = hwloop_set_all x (pc0 + insn_size insn) pc (of_nat count) h0"
    using assms(5) by (auto simp: lp_setup_exec_def u Let_def n(1) assms(8) get_reg_def on_rf_def push_bit_eq_mult mult.commute
        memcheck_branch_reg_def)
  note v = setup_view[OF x assms(2), where st = "pc0 + insn_size insn" and e = pc and c = "of_nat count", folded h]
  have "fst (loop_run body real ins pc count (h, s)) = replicate (count - 1) (pc0 + insn_size insn) @ [nx]
      \<and> loop_view x (fst (snd (loop_run body real ins pc count (h, s)))) = (pc0 + insn_size insn, pc, 0, False)"
    using loop_run_counts[OF r x v(1) n(2) _ assms(10), of real ins nx s] v(2) assms(7,9,11) by blast
  then show ?thesis by (cases "loop_run body real ins pc count (h, s)") (auto simp: loop_view_def)
qed

theorem hwloop_iterates_witness:
  "\<exists>h' s'. loop_run (\<lambda>_ hs. hs) nop_exec \<lparr>out_regs = [], in_regs = [], uim = [], sim = [], insn_size = 4\<rparr> 0x110 3
     (snd (lp_setup_exec \<lparr>out_regs = [], in_regs = [1], uim = [0, 8], sim = [], insn_size = 4\<rparr> 0x100
       (hwloop_reset, on_rf (set_reg 1 3) demo_iss))) = ([0x104, 0x104, 0x114], h', s') \<and> hwloop_regs h' (LPCOUNT 0) = 0"
proof -
  let ?i = "\<lparr>out_regs = [], in_regs = [1], uim = [0, 8], sim = [], insn_size = 4\<rparr> :: iss_insn"
  let ?l = "\<lparr>out_regs = [], in_regs = [], uim = [], sim = [], insn_size = 4\<rparr> :: iss_insn"
  let ?s = "on_rf (set_reg 1 3) demo_iss"
  obtain n h s where e: "lp_setup_exec ?i 0x100 (hwloop_reset, ?s) = (n, h, s)" by (metis prod_cases3)
  have "\<exists>h' s'. loop_run (\<lambda>_ hs. hs) nop_exec ?l 0x110 3 (h, s) = (replicate (3 - 1) (0x100 + insn_size ?i) @ [0x114], h', s')
    \<and> hwloop_regs h' (LPCOUNT 0) = 0"
    by (rule hwloop_iterates[OF hw_reach.started _ _ _ e])
       (simp_all add: hwloop_reset_def other_quiet_def lp_index body_ok_def nop_exec_def iss_insn_next_def set_reg_def on_rf_def
          demo_iss_def demo_regfile_def)
  then show ?thesis by (simp add: e e[unfolded One_nat_def] numeral_2_eq_2)
qed

section \<open>Where the code departs from this\<close>

text \<open>A write of an end register through its CSR does not update \<open>hwloop_end_insn\<close>: the stub is not inserted,
  whether the instruction is decoded before or after, and the loop is not taken.\<close>

theorem csr_end_ignored:
  assumes "insn_slots h 0x20 = Undecoded" "hwloop_end_insn h 0 \<noteq> 0x20" "hwloop_end_insn h 1 \<noteq> 0x20"
    and "h1 = hwloop_write (LPCOUNT 0) 5 (hwloop_write (LPEND 0) 0x20 (hwloop_write (LPSTART 0) 0x10 h))"
  shows "fst (hw_insn_exec False nop_exec insn 0x20 (h1, s)) = 0x20 + insn_size insn
    \<and> hwloop_regs (fst (snd (hw_insn_exec False nop_exec insn 0x20 (h1, s)))) (LPCOUNT 0) = 5"
  using assms by (simp add: hwloop_write_def lp_index hw_insn_exec_def insn_is_decoded_def decode_pc_def exec_decode_insn_def
      NB_HWLOOP_def numeral_2_eq_2 nop_exec_def iss_insn_next_def Let_def)

end
