(* ===== verification/Prefetch.thy ===== *)
theory Prefetch imports Prelude begin

text \<open>
  The instruction cache and the prefetcher of the instruction-set simulator (\<open>src/models/cpu/iss/src/insn_cache.cpp\<close>,
  \<open>src/models/cpu/iss/src/prefetch/prefetch_single_line.cpp\<close> and their headers), for a 32-bit core without MMU:
  the pages of decoded instructions, and the line of 16 bytes from which the opcode of the next instruction
  is read, refilled through the fetch port, at once or later. Traces are left out.
\<close>

section \<open>The instruction cache\<close>

text \<open>A page is known by its index and an instruction by its address. \<open>current_insn_page\<close> is \<open>None\<close> when the
  pointer is not set or its page was deleted.\<close>

definition INSN_PAGE_BITS :: nat where "INSN_PAGE_BITS = 9"
definition INSN_PAGE_SIZE :: u32 where "INSN_PAGE_SIZE = push_bit (INSN_PAGE_BITS - 1) 1"

record insn_cache =
  current_insn_page :: "u32 option"
  current_insn_page_base :: u32
  pages :: "u32 list"

definition insn_cache_mode_flush :: "insn_cache \<Rightarrow> insn_cache" where
  "insn_cache_mode_flush c = c\<lparr>current_insn_page_base := - INSN_PAGE_SIZE * 2\<rparr>"

definition insn_cache_build :: insn_cache where
  "insn_cache_build = \<lparr>current_insn_page = None, current_insn_page_base = - INSN_PAGE_SIZE * 2, pages = []\<rparr>"

text \<open>The pages are deleted; the flushes of the prefetcher, of the breakpoints and of the interrupt handlers
  are those of their components.\<close>

definition insn_cache_flush :: "insn_cache \<Rightarrow> insn_cache" where
  "insn_cache_flush c = insn_cache_mode_flush (c\<lparr>pages := [], current_insn_page := None\<rparr>)"

definition page_get :: "u32 \<Rightarrow> insn_cache \<Rightarrow> u32 \<times> insn_cache" where
  "page_get paddr c =
     (let index = drop_bit INSN_PAGE_BITS paddr
      in if index \<in> set (pages c) then (index, c) else (index, c\<lparr>pages := index # pages c\<rparr>))"

text \<open>The address \<open>insn_init\<close> gave to entry \<open>i\<close> of a page.\<close>

definition page_insn_addr :: "u32 \<Rightarrow> u32 \<Rightarrow> u32" where
  "page_insn_addr page i = push_bit INSN_PAGE_BITS page + 2 * i"

text \<open>The look-up, \<open>None\<close> when it reads through a pointer that is not valid: in the current page, else in the
  cache, which makes the page the current one and looks up again.\<close>

definition get_insn_current :: "u32 \<Rightarrow> insn_cache \<Rightarrow> u32 option option" where
  "get_insn_current vaddr c =
     (let index = drop_bit 1 (vaddr - current_insn_page_base c)
      in if index < INSN_PAGE_SIZE then Some (map_option (\<lambda>p. page_insn_addr p index) (current_insn_page c)) else None)"

definition get_insn_from_cache :: "u32 \<Rightarrow> insn_cache \<Rightarrow> u32 option \<times> insn_cache" where
  "get_insn_from_cache vaddr c0 =
     (let (page, c1) = page_get vaddr c0;
          c = c1\<lparr>current_insn_page := Some page,
                 current_insn_page_base := push_bit INSN_PAGE_BITS (drop_bit INSN_PAGE_BITS vaddr)\<rparr>
      in (Option.bind (get_insn_current vaddr c) (\<lambda>i. i), c))"

definition get_insn :: "u32 \<Rightarrow> insn_cache \<Rightarrow> u32 option \<times> insn_cache" where
  "get_insn vaddr c = (case get_insn_current vaddr c of Some i \<Rightarrow> (i, c) | None \<Rightarrow> get_insn_from_cache vaddr c)"

section \<open>The prefetcher\<close>

definition ISS_PREFETCHER_SIZE :: u32 where "ISS_PREFETCHER_SIZE = 16"
definition ISS_OPCODE_MAX_SIZE :: int where "ISS_OPCODE_MAX_SIZE = 4"

datatype fetch_status = FETCH_OK | FETCH_INVALID | FETCH_PENDING

record fetch_answer =
  fa_status :: fetch_status
  fa_latency :: int
  fa_data :: bytes

type_synonym fetch_port = "u32 \<Rightarrow> fetch_answer"

text \<open>What the prefetcher does to the rest of the core: a request, a reason to stall more or less, a fetch
  fault at the current instruction, cycles accounted.\<close>

datatype fetch_out = FetchReq u32 | StalledInc | StalledDec | RaiseInsnFault | StallFetch int

datatype refill = LowRefill | HighRefill

text \<open>\<open>fetch_req_addr\<close> is the address in the request object; \<open>opcode\<close> belongs to the instructions.\<close>

record prefetcher =
  pf_data :: bytes
  buffer_start_addr :: u32
  fetch_req_addr :: u32
  fetch_stall_callback :: "refill option"
  prefetch_insn :: "u32 option"
  fetch_stall_opcode :: u32
  current_pc :: u32
  opcode :: "u32 \<Rightarrow> u32"

definition prefetcher_flush :: "prefetcher \<Rightarrow> prefetcher" where
  "prefetcher_flush pf = pf\<lparr>buffer_start_addr := -1\<rparr>"

definition prefetcher_reset :: "bool \<Rightarrow> prefetcher \<Rightarrow> prefetcher" where
  "prefetcher_reset active pf = (if active then (prefetcher_flush pf)\<lparr>prefetch_insn := None\<rparr> else pf)"

text \<open>\<open>*(iss_opcode_t *)&data[index]\<close>; the bytes after the buffer, which are masked out, are left out.\<close>

definition buf_opcode :: "bytes \<Rightarrow> nat \<Rightarrow> u32" where
  "buf_opcode d index = ucast (le_word (take 4 (drop index d)))"

definition set_opcode :: "u32 \<Rightarrow> u32 \<Rightarrow> prefetcher \<Rightarrow> prefetcher" where
  "set_opcode insn v pf = pf\<lparr>opcode := (opcode pf)(insn := v)\<rparr>"

definition send_fetch_req :: "fetch_port \<Rightarrow> u32 \<Rightarrow> prefetcher \<Rightarrow> int \<times> fetch_out list \<times> prefetcher" where
  "send_fetch_req port addr pf0 =
     (let pf = pf0\<lparr>fetch_req_addr := addr\<rparr>; a = port addr
      in case fa_status a of
           FETCH_INVALID \<Rightarrow> (1, [FetchReq addr, RaiseInsnFault], pf)
         | FETCH_PENDING \<Rightarrow> (-1, [FetchReq addr], pf)
         | FETCH_OK \<Rightarrow> (0, [FetchReq addr, StallFetch (fa_latency a)], pf\<lparr>pf_data := fa_data a\<rparr>))"

definition fill :: "fetch_port \<Rightarrow> u32 \<Rightarrow> prefetcher \<Rightarrow> int \<times> fetch_out list \<times> prefetcher" where
  "fill port addr pf =
     (let aligned_addr = addr AND NOT (ISS_PREFETCHER_SIZE - 1)
      in send_fetch_req port aligned_addr (pf\<lparr>buffer_start_addr := aligned_addr\<rparr>))"

definition handle_stall :: "refill \<Rightarrow> u32 \<Rightarrow> prefetcher \<Rightarrow> fetch_out list \<times> prefetcher" where
  "handle_stall callback insn pf =
     ([StalledInc], pf\<lparr>fetch_stall_callback := Some callback, prefetch_insn := Some insn\<rparr>)"

definition line_end :: "u32 \<Rightarrow> u32" where
  "line_end addr = (addr + ISS_PREFETCHER_SIZE - 1) AND NOT (ISS_PREFETCHER_SIZE - 1)"

definition fetch_check_overflow :: "fetch_port \<Rightarrow> u32 \<Rightarrow> int \<Rightarrow> prefetcher \<Rightarrow> bool \<times> fetch_out list \<times> prefetcher" where
  "fetch_check_overflow port insn index pf0 =
     (if index + ISS_OPCODE_MAX_SIZE \<le> uint ISS_PREFETCHER_SIZE
      then (True, [], set_opcode insn (buf_opcode (pf_data pf0) (nat index)) pf0)
      else
       (let next_addr = line_end (current_pc pf0);
            nb_bytes = unat (next_addr - insn);
            msk = mask (nb_bytes * 8);
            low = buf_opcode (pf_data pf0) (nat index) AND msk;
            (err, o1, pf) = fill port next_addr pf0
        in if err \<noteq> 0
           then if err = -1
                then let (o2, pf1) = handle_stall HighRefill insn (pf\<lparr>fetch_stall_opcode := low\<rparr>) in (False, o1 @ o2, pf1)
                else (False, o1, pf)
           else (True, o1, set_opcode insn ((low AND msk) OR push_bit (nb_bytes * 8) (buf_opcode (pf_data pf) 0)) pf)))"

definition fetch_refill :: "fetch_port \<Rightarrow> u32 \<Rightarrow> u32 \<Rightarrow> int \<Rightarrow> prefetcher \<Rightarrow> bool \<times> fetch_out list \<times> prefetcher" where
  "fetch_refill port insn addr index pf0 =
     (if prefetch_insn pf0 = Some insn then (True, [], pf0)
      else
       (let pf1 = pf0\<lparr>prefetch_insn := None\<rparr> in
        if index < 0 \<or> index \<ge> uint ISS_PREFETCHER_SIZE
        then (let (err, o1, pf2) = fill port addr pf1 in
              if err \<noteq> 0
              then if err = -1 then let (o2, pf3) = handle_stall LowRefill insn pf2 in (False, o1 @ o2, pf3)
                   else (False, o1, pf2)
              else let (ok, o3, pf4) = fetch_check_overflow port insn (sint (addr - buffer_start_addr pf2)) pf2
                   in (ok, o1 @ o3, pf4))
        else fetch_check_overflow port insn index pf1))"

text \<open>The fetch of the instruction at \<open>addr\<close>; \<open>None\<close> where the look-up is not defined.\<close>

definition fetch :: "fetch_port \<Rightarrow> u32 \<Rightarrow> insn_cache \<Rightarrow> prefetcher
    \<Rightarrow> (bool \<times> fetch_out list \<times> insn_cache \<times> prefetcher) option" where
  "fetch port addr c0 pf =
     (case get_insn addr c0 of
        (None, c) \<Rightarrow> None
      | (Some insn, c) \<Rightarrow>
          let index = addr - buffer_start_addr pf
          in if index \<le> ISS_PREFETCHER_SIZE - 4
             then Some (True, [], c, set_opcode insn (buf_opcode (pf_data pf) (unat index)) pf)
             else (case fetch_refill port insn addr (sint index) (pf\<lparr>current_pc := addr\<rparr>) of
                     (ok, outs, pf') \<Rightarrow> Some (ok, outs, c, pf')))"

definition fetch_resume_after_low_refill :: "fetch_port \<Rightarrow> prefetcher \<Rightarrow> fetch_out list \<times> prefetcher" where
  "fetch_resume_after_low_refill port pf =
     (case prefetch_insn pf of None \<Rightarrow> ([], pf)
      | Some insn \<Rightarrow> snd (fetch_check_overflow port insn (sint (insn - buffer_start_addr pf)) pf))"

definition fetch_resume_after_high_refill :: "prefetcher \<Rightarrow> fetch_out list \<times> prefetcher" where
  "fetch_resume_after_high_refill pf =
     (case prefetch_insn pf of None \<Rightarrow> ([], pf)
      | Some insn \<Rightarrow>
          let nb_bytes = unat (line_end insn - insn)
          in ([], set_opcode insn (fetch_stall_opcode pf OR push_bit (nb_bytes * 8) (buf_opcode (pf_data pf) 0)) pf))"

text \<open>The response to a pending request, with the bytes the target put in the buffer.\<close>

definition fetch_response :: "fetch_port \<Rightarrow> int \<Rightarrow> bytes \<Rightarrow> prefetcher \<Rightarrow> fetch_out list \<times> prefetcher" where
  "fetch_response port latency d pf0 =
     (let pf = pf0\<lparr>pf_data := d\<rparr>;
          (outs, pf') = (case fetch_stall_callback pf of None \<Rightarrow> ([], pf)
             | Some LowRefill \<Rightarrow> fetch_resume_after_low_refill port pf
             | Some HighRefill \<Rightarrow> fetch_resume_after_high_refill pf)
      in ([StallFetch latency, StalledDec] @ outs, pf'))"

lemmas fetch_defs = fetch_refill_def fetch_check_overflow_def fill_def send_fetch_req_def handle_stall_def

section \<open>The look-up gives the entry of the address\<close>

inductive icache_reach :: "insn_cache \<Rightarrow> bool" where
  build: "icache_reach insn_cache_build"
| lookup: "icache_reach c \<Longrightarrow> icache_reach (snd (get_insn vaddr c))"
| flush: "icache_reach c \<Longrightarrow> icache_reach (insn_cache_flush c)"
| mode_flush: "icache_reach c \<Longrightarrow> icache_reach (insn_cache_mode_flush c)"

definition icache_inv :: "insn_cache \<Rightarrow> bool" where
  "icache_inv c \<longleftrightarrow> current_insn_page_base c = - 512 \<or>
     (\<exists>v. current_insn_page c = Some (drop_bit 9 v) \<and> current_insn_page_base c = push_bit 9 (drop_bit 9 v))"

lemmas page_consts = INSN_PAGE_BITS_def INSN_PAGE_SIZE_def

lemma minus_page: "v - push_bit n (drop_bit n v) = take_bit n v" for v :: u32
  using bits_ident[of n v] by (metis add_diff_cancel_left')

lemma push_drop_1: "2 * drop_bit 1 w = w - take_bit 1 w" for w :: u32
proof -
  have "2 * drop_bit 1 w = push_bit 1 (drop_bit 1 w)" by (simp only: push_bit_eq_mult power_one_right mult.commute)
  then show ?thesis using minus_page[of "w" 1] bits_ident[of 1 w] by (metis add_diff_cancel_right')
qed

lemma below_page:
  fixes d :: u32
  assumes "drop_bit 1 d < 256" shows "take_bit 9 d = d"
proof -
  have "unat (drop_bit 1 d) < 256" using assms by (simp add: word_less_nat_alt)
  then have "unat d < 512" by (simp add: drop_bit_unat)
  then have "take_bit 9 (unat d) = unat d" by (simp add: take_bit_nat_eq_self)
  then show ?thesis by (metis unsigned_take_bit_eq word_unat_eq_iff)
qed

lemma same_page:
  fixes v w :: u32
  assumes "drop_bit 1 (v - push_bit 9 (drop_bit 9 w)) < 256"
  shows "drop_bit 9 v = drop_bit 9 w"
proof -
  define d where "d = v - push_bit 9 (drop_bit 9 w)"
  have t: "take_bit 9 d = d" using below_page assms by (simp add: d_def)
  then have b: "bit d n \<Longrightarrow> n < 9" for n by (metis bit_take_bit_iff)
  have "v = push_bit 9 (drop_bit 9 w) + d" by (simp add: d_def)
  also have "\<dots> = push_bit 9 (drop_bit 9 w) OR d"
    by (rule disjunctive_add) (use b in \<open>force simp: bit_push_bit_iff\<close>)
  finally have "v = push_bit 9 (drop_bit 9 w) OR d" .
  then show ?thesis using b by (intro bit_word_eqI) (auto simp: bit_simps dest: bit_imp_le_length)
qed

lemma current_page_entry:
  fixes v w :: u32
  assumes "current_insn_page c = Some (drop_bit 9 w)" "current_insn_page_base c = push_bit 9 (drop_bit 9 w)"
  shows "get_insn_current v c = (if drop_bit 9 v = drop_bit 9 w then Some (Some (v AND NOT 1)) else None)"
proof (cases "drop_bit 1 (v - push_bit 9 (drop_bit 9 w)) < 256")
  case True
  then have p: "drop_bit 9 v = drop_bit 9 w" by (rule same_page)
  then have i: "v - push_bit 9 (drop_bit 9 w) = take_bit 9 v" using minus_page[of v 9] by simp
  have "2 * drop_bit 1 (take_bit 9 v) = take_bit 9 v - take_bit 1 v"
    unfolding push_drop_1 take_bit_take_bit by (simp only: min.absorb1 one_le_numeral)
  then have "push_bit 9 (drop_bit 9 v) + 2 * drop_bit 1 (take_bit 9 v) = v - take_bit 1 v"
    using bits_ident[of 9 v] by (metis add_diff_eq)
  also have "\<dots> = v AND NOT 1"
  proof -
    have "v - take_bit 1 v = push_bit 1 (drop_bit 1 v)" using bits_ident[of 1 v] by (metis add_diff_cancel_right')
    also have "\<dots> = v AND NOT 1" by (rule bit_word_eqI) (auto simp only: bit_push_bit_iff bit_drop_bit_eq bit_and_iff bit_not_iff bit_1_iff; auto simp: bit_simps)
    finally show ?thesis .
  qed
  finally have e: "push_bit 9 (drop_bit 9 v) + 2 * drop_bit 1 (take_bit 9 v) = v AND NOT 1" .
  show ?thesis using assms True p e by (simp add: get_insn_current_def page_consts page_insn_addr_def Let_def i)
next
  case False
  have "drop_bit 9 v \<noteq> drop_bit 9 w"
  proof
    assume "drop_bit 9 v = drop_bit 9 w"
    then have "drop_bit 1 (v - push_bit 9 (drop_bit 9 w)) = drop_bit 1 (take_bit 9 v)" using minus_page[of v 9] by simp
    moreover have "unat (drop_bit 1 (take_bit 9 v)) = unat v mod 2 ^ 9 div 2 ^ 1"
      unfolding drop_bit_unat unsigned_take_bit_eq take_bit_eq_mod[of 9 "unat v"] by (rule refl)
    moreover have "unat v mod 2 ^ 9 div 2 ^ 1 < 256" by (rule less_mult_imp_div_less) simp
    ultimately show False using False by (simp add: word_less_nat_alt)
  qed
  then show ?thesis using assms False by (simp add: get_insn_current_def page_consts Let_def)
qed

lemma from_cache:
  "fst (get_insn_from_cache v c) = Some (v AND NOT 1)" "icache_inv (snd (get_insn_from_cache v c))"
proof -
  define c' where "c' = snd (get_insn_from_cache v c)"
  have c: "current_insn_page c' = Some (drop_bit 9 v)" "current_insn_page_base c' = push_bit 9 (drop_bit 9 v)"
    by (simp_all add: c'_def get_insn_from_cache_def page_get_def page_consts Let_def)
  then show "icache_inv (snd (get_insn_from_cache v c))" by (auto simp: icache_inv_def c'_def[symmetric])
  have "fst (get_insn_from_cache v c) = Option.bind (get_insn_current v c') (\<lambda>i. i)"
    by (simp add: c'_def get_insn_from_cache_def page_get_def Let_def)
  then show "fst (get_insn_from_cache v c) = Some (v AND NOT 1)" by (simp add: current_page_entry[OF c])
qed

lemma get_insn_inv: "icache_inv c \<Longrightarrow> icache_inv (snd (get_insn v c))"
  by (auto simp: get_insn_def from_cache split: option.splits)

lemma icache_reach_inv: "icache_reach c \<Longrightarrow> icache_inv c"
proof (induction rule: icache_reach.induct)
  case (lookup c vaddr) then show ?case by (rule_tac get_insn_inv)
qed (simp_all add: icache_inv_def insn_cache_build_def insn_cache_flush_def insn_cache_mode_flush_def page_consts)

lemma not_top_page:
  fixes v :: u32
  assumes "v < 0xFFFFFE00" shows "\<not> drop_bit 1 (v + 512) < 256"
proof -
  have "unat v < 0xFFFFFE00" using assms by (simp add: word_less_nat_alt)
  then have "unat (v + 512) = unat v + 512" by (subst unat_add_no_wrap) simp_all
  then have "unat (drop_bit 1 (v + 512)) \<ge> 256" by (simp add: drop_bit_unat)
  then show ?thesis by (simp add: word_less_nat_alt)
qed

lemma get_insn_entry:
  assumes "icache_inv c" "v < 0xFFFFFE00"
  shows "fst (get_insn v c) = Some (v AND NOT 1)"
proof (cases "current_insn_page_base c = - 512")
  case True
  then have "get_insn_current v c = None"
    using not_top_page[OF assms(2)] by (simp add: get_insn_current_def page_consts Let_def)
  then show ?thesis by (simp add: get_insn_def from_cache)
next
  case False
  then obtain w where w: "current_insn_page c = Some (drop_bit 9 w)" "current_insn_page_base c = push_bit 9 (drop_bit 9 w)"
    using assms(1) unfolding icache_inv_def by blast
  show ?thesis by (simp add: get_insn_def current_page_entry[OF w] from_cache)
qed

text \<open>The instruction cache. Whatever look-ups and flushes came before, looking up an address below the
  last page gives the one entry of that address (of the even address, as an instruction has at least
  two bytes), from the current page or from the cache.\<close>

theorem insn_cache_entry:
  assumes "icache_reach c" "vaddr < 0xFFFFFE00"
  shows "fst (get_insn vaddr c) = Some (vaddr AND NOT 1)"
  using get_insn_entry[OF icache_reach_inv[OF assms(1)] assms(2)] .

theorem insn_cache_entry_witness:
  "fst (get_insn 0x1237 (snd (get_insn 0x1100 insn_cache_build))) = Some (0x1237 AND NOT 1)"
  by (rule insn_cache_entry[OF icache_reach.lookup[OF icache_reach.build]]) simp

section \<open>The fetched opcode is the one in memory\<close>

definition insn_word :: "(u32 \<Rightarrow> u8) \<Rightarrow> u32 \<Rightarrow> u32" where
  "insn_word mem a = ucast (le_word (map (\<lambda>i. mem (a + of_nat i)) [0..<4]))"

definition line_bytes :: "(u32 \<Rightarrow> u8) \<Rightarrow> u32 \<Rightarrow> bytes" where
  "line_bytes mem a = map (\<lambda>i. mem (a + of_nat i)) [0..<16]"

lemma length_line [simp]: "length (line_bytes mem a) = 16" by (simp add: line_bytes_def)

lemma bit_insn_word: "bit (insn_word mem a) i \<longleftrightarrow> i < 32 \<and> bit (mem (a + of_nat (i div 8))) (i mod 8)"
  by (cases "i < 32") (auto simp: insn_word_def bit_ucast_iff bit_le_word less_mult_imp_div_less simp del: upt_rec_numeral)

lemma bit_buf_opcode:
  assumes "length d = 16"
  shows "bit (buf_opcode d k) i \<longleftrightarrow> i < 32 \<and> k + i div 8 < 16 \<and> bit (d ! (k + i div 8)) (i mod 8)"
proof (cases "i < 32")
  case True
  then have "i div 8 < 4" by (simp add: less_mult_imp_div_less)
  moreover have "i < 8 * min (16 - k) 4 \<longleftrightarrow> i div 8 < min (16 - k) 4" by (auto simp: min_def div_less_iff_less_mult mult.commute)
  ultimately show ?thesis using True assms by (auto simp: buf_opcode_def bit_ucast_iff bit_le_word min_def split: if_splits)
qed (auto simp: buf_opcode_def bit_ucast_iff dest: bit_imp_le_length)

lemma line_opcode: "k \<le> 12 \<Longrightarrow> buf_opcode (line_bytes mem s) k = insn_word mem (s + of_nat k)"
proof (rule bit_word_eqI)
  fix i assume k: "k \<le> 12" and "i < LENGTH(32)"
  then have "i div 8 < 4" by (simp add: less_mult_imp_div_less)
  then show "bit (buf_opcode (line_bytes mem s) k) i = bit (insn_word mem (s + of_nat k)) i"
    using k by (simp add: bit_buf_opcode bit_insn_word line_bytes_def add.assoc del: upt_rec_numeral)
qed

lemma split_opcode:
  "(buf_opcode (line_bytes mem s) 14 AND mask 16) OR push_bit 16 (buf_opcode (line_bytes mem (s + 16)) 0) = insn_word mem (s + 14)"
proof (rule bit_word_eqI)
  fix i assume "i < LENGTH(32)"
  then have i: "i < 32" by simp
  show "bit ((buf_opcode (line_bytes mem s) 14 AND mask 16) OR push_bit 16 (buf_opcode (line_bytes mem (s + 16)) 0)) i
      = bit (insn_word mem (s + 14)) i"
  proof (cases "i < 16")
    case True
    then have "14 + i div 8 < 16" by (simp add: less_mult_imp_div_less)
    then show ?thesis using True i
      by (simp add: add.assoc bit_or_iff bit_and_iff bit_mask_iff bit_push_bit_iff bit_buf_opcode bit_insn_word line_bytes_def del: upt_rec_numeral)
  next
    case False
    then have d: "i div 8 = (i - 16) div 8 + 2" "i mod 8 = (i - 16) mod 8" "(i - 16) div 8 < 2"
      using i by (simp_all add: le_div_geq le_mod_geq less_mult_imp_div_less)
    then have "s + 14 + of_nat (i div 8) = s + 16 + of_nat ((i - 16) div 8)" by simp
    moreover have "i - 16 < 32" using i by simp
    ultimately show ?thesis using False i d
      by (simp add: add.assoc add.left_commute[of 16] bit_or_iff bit_and_iff bit_mask_iff bit_push_bit_iff bit_buf_opcode bit_insn_word line_bytes_def del: upt_rec_numeral)
  qed
qed

text \<open>Where an even address lies in its line.\<close>

lemma mask_line: "(x AND NOT 15 :: u32) = x - take_bit 4 x"
proof -
  have "x - take_bit 4 x = push_bit 4 (drop_bit 4 x)" using bits_ident[of 4 x] by (metis add_diff_cancel_right')
  moreover have "push_bit 4 (drop_bit 4 x) = x AND NOT (mask 4)"
    by (rule bit_word_eqI) (auto simp: bit_push_bit_iff bit_drop_bit_eq bit_and_iff bit_not_iff bit_mask_iff)
  moreover have "(mask 4 :: u32) = 15" by (simp add: mask_eq_exp_minus_1)
  ultimately show ?thesis by simp
qed

lemma line_start_0: "take_bit 4 (x AND NOT 15 :: u32) = 0"
proof -
  have "take_bit 4 (push_bit 4 (drop_bit 4 x)) = 0" by (rule bit_word_eqI) (auto simp: bit_simps)
  moreover have "push_bit 4 (drop_bit 4 x) = x AND NOT 15" using bits_ident[of 4 x] mask_line[of x] by (metis add_diff_cancel_right')
  ultimately show ?thesis by simp
qed

lemma line_offset:
  fixes a :: u32
  assumes "a AND 1 = 0"
  defines "s \<equiv> a AND NOT 15" and "k \<equiv> unat a mod 16"
  shows "a = s + of_nat k" "a - s = of_nat k" "k < 16" "\<not> k \<le> 12 \<Longrightarrow> k = 14"
    "k = 14 \<Longrightarrow> line_end a = s + 16 \<and> unat (line_end a - a) = 2"
proof -
  have t: "take_bit 4 a = of_nat k"
    unfolding word_unat_eq_iff unsigned_take_bit_eq by (simp add: k_def unat_of_nat take_bit_eq_mod)
  show a: "a = s + of_nat k" "a - s = of_nat k" unfolding s_def mask_line t by simp_all
  show "k < 16" by (simp add: k_def)
  have "unat a mod 2 = 0"
  proof -
    have "a AND 1 = take_bit 1 a" by (simp add: take_bit_eq_mask mask_eq_exp_minus_1)
    then have "take_bit 1 (unat a) = 0" using assms(1) unsigned_take_bit_eq[of 1 a] by simp
    then show ?thesis by (simp add: take_bit_eq_mod)
  qed
  then have "k mod 2 = 0" unfolding k_def by presburger
  then show "\<not> k \<le> 12 \<Longrightarrow> k = 14" using \<open>k < 16\<close> by presburger
  assume k: "k = 14"
  have s0: "take_bit 4 s = 0" unfolding s_def by (rule line_start_0)
  have s16: "unat s mod 16 = 0" using s0 unsigned_take_bit_eq[of 4 s, where 'a = nat] by (simp add: take_bit_eq_mod[of 4 "unat s"])
  have "unat (s + 29) = (unat s + 29) mod 2 ^ 32" by (simp add: unat_word_ariths)
  then have "unat (take_bit 4 (s + 29)) = (unat s + 29) mod 2 ^ 32 mod 2 ^ 4"
    unfolding unsigned_take_bit_eq take_bit_eq_mod[of 4 "unat (s + 29)"] by simp
  also have "\<dots> = (unat s + 29) mod 2 ^ 4" by (rule mod_mod_cancel) simp
  also have "\<dots> = 13" using s16 by (simp add: mod_add_left_eq[of "unat s" 16, symmetric])
  finally have "unat (take_bit 4 (s + 29)) = 13" .
  then have l13: "take_bit 4 (s + 29) = 13" by (simp add: word_unat_eq_iff)
  have "line_end a = (s + 29) AND NOT 15" unfolding line_end_def ISS_PREFETCHER_SIZE_def a(1) k by (simp add: add.commute[of _ s])
  then have l: "line_end a = s + 16" unfolding mask_line l13 by simp
  then show "line_end a = s + 16 \<and> unat (line_end a - a) = 2" by (simp add: a(1) k)
qed

text \<open>A target backed by the memory \<open>mem\<close>: it never refuses, and answers at once or later.\<close>

definition backed :: "(u32 \<Rightarrow> u8) \<Rightarrow> fetch_port \<Rightarrow> bool" where
  "backed mem port \<longleftrightarrow> (\<forall>a. fa_status (port a) = FETCH_PENDING
     \<or> fa_status (port a) = FETCH_OK \<and> fa_data (port a) = line_bytes mem a)"

text \<open>An idle prefetcher holds a line of the memory, or is empty, and the instruction it was refilled for has
  its opcode.\<close>

definition pf_ok :: "(u32 \<Rightarrow> u8) \<Rightarrow> prefetcher \<Rightarrow> bool" where
  "pf_ok mem pf \<longleftrightarrow> (buffer_start_addr pf = -1 \<or>
       (\<exists>w. buffer_start_addr pf = w AND NOT 15) \<and> pf_data pf = line_bytes mem (buffer_start_addr pf))
     \<and> (\<forall>i. prefetch_insn pf = Some i \<longrightarrow> opcode pf i = insn_word mem i)"

text \<open>A prefetcher that waits for the line of \<open>a\<close>, or for the next one.\<close>

definition low_wait :: "u32 \<Rightarrow> prefetcher \<Rightarrow> bool" where
  "low_wait a pf \<longleftrightarrow> fetch_stall_callback pf = Some LowRefill \<and> prefetch_insn pf = Some a \<and> current_pc pf = a
     \<and> buffer_start_addr pf = a AND NOT 15 \<and> fetch_req_addr pf = a AND NOT 15"

definition high_wait :: "(u32 \<Rightarrow> u8) \<Rightarrow> u32 \<Rightarrow> prefetcher \<Rightarrow> bool" where
  "high_wait mem a pf \<longleftrightarrow> fetch_stall_callback pf = Some HighRefill \<and> prefetch_insn pf = Some a
     \<and> unat a mod 16 = 14 \<and> fetch_stall_opcode pf = buf_opcode (line_bytes mem (a AND NOT 15)) 14 AND mask 16
     \<and> buffer_start_addr pf = line_end a \<and> fetch_req_addr pf = line_end a"

definition pf_done :: "(u32 \<Rightarrow> u8) \<Rightarrow> u32 \<Rightarrow> prefetcher \<Rightarrow> bool" where
  "pf_done mem a pf \<longleftrightarrow> pf_ok mem pf \<and> opcode pf a = insn_word mem a"

lemma line_not_empty: "(x AND NOT 15 :: u32) \<noteq> -1"
proof
  assume "x AND NOT 15 = -1"
  then have "take_bit 4 (-1 :: u32) = 0" using line_start_0[of x] by simp
  then show False by simp
qed

lemma line_end_eq: "line_end a = (a + 16 - 1) AND NOT 15"
proof -
  have "(16 - 1 :: u32) = 15" by simp
  then show ?thesis by (simp only: line_end_def ISS_PREFETCHER_SIZE_def)
qed

lemma overflow_outcome:
  assumes "a AND 1 = 0" "backed mem port" "pf_data pf = line_bytes mem (a AND NOT 15)" "buffer_start_addr pf = a AND NOT 15"
    and "current_pc pf = a" "prefetch_insn pf = None \<or> prefetch_insn pf = Some a"
    and "fetch_check_overflow port a (int (unat a mod 16)) pf = (ok, outs, pf')"
  shows "ok \<and> StalledInc \<notin> set outs \<and> pf_done mem a pf' \<and> prefetch_insn pf' = prefetch_insn pf
    \<or> \<not> ok \<and> StalledInc \<in> set outs \<and> high_wait mem a pf'"
proof -
  define s where "s = (a AND NOT 15)"
  define k where "k = unat a mod 16"
  note L = line_offset[OF assms(1), folded s_def k_def]
  have al1: "\<exists>w. s = w AND NOT 15" unfolding s_def by (rule exI[of _ a]) (rule refl)
  have al2: "\<exists>w. line_end a = w AND NOT 15" using line_end_eq by (rule exI)
  show ?thesis
  proof (cases "k \<le> 12")
    case True
    have w: "buf_opcode (pf_data pf) k = insn_word mem a"
      using line_opcode[OF True, of mem s] unfolding assms(3) s_def[symmetric] L(1)[symmetric] .
    have "(ok, outs, pf') = (True, [], set_opcode a (insn_word mem a) pf)"
      using assms(7)[folded k_def] True w
      by (simp add: fetch_check_overflow_def ISS_OPCODE_MAX_SIZE_def ISS_PREFETCHER_SIZE_def)
    then show ?thesis using assms(3,4,6) al1 line_not_empty[of a, folded s_def] unfolding s_def[symmetric]
      by (auto simp: set_opcode_def pf_done_def pf_ok_def)
  next
    case False
    then have k: "k = 14" and e: "line_end a = s + 16" "unat (line_end a - a) = 2" using L(4,5) by blast+
    have a14: "a = s + 14" using L(1) unfolding k by simp
    have f: "line_end a AND NOT (ISS_PREFETCHER_SIZE - 1) = line_end a"
      unfolding line_end_def by (simp only: and.assoc and.idem)
    have op: "buf_opcode (line_bytes mem s) 14 AND mask 16 AND mask 16 OR push_bit 16 (buf_opcode (line_bytes mem (line_end a)) 0)
        = insn_word mem a"
      using split_opcode[of mem s, folded a14 e(1)] by (simp only: and.assoc and.idem)
    have ne: "line_end a \<noteq> -1" unfolding line_end_eq by (rule line_not_empty)
    have fl: "fill port (line_end a) pf = send_fetch_req port (line_end a) (pf\<lparr>buffer_start_addr := line_end a\<rparr>)"
      by (simp only: fill_def f Let_def)
    have big: "\<not> int k + ISS_OPCODE_MAX_SIZE \<le> uint ISS_PREFETCHER_SIZE" "nat (int k) = 14"
      by (simp_all add: k ISS_OPCODE_MAX_SIZE_def ISS_PREFETCHER_SIZE_def)
    note r = assms(7)[unfolded k_def[symmetric] fetch_check_overflow_def assms(5) fl e(2) assms(3)[folded s_def] Let_def] big
    consider "fa_status (port (line_end a)) = FETCH_PENDING"
      | "fa_status (port (line_end a)) = FETCH_OK" "fa_data (port (line_end a)) = line_bytes mem (line_end a)"
      using assms(2) unfolding backed_def by blast
    then show ?thesis
    proof cases
      case 1
      have "(ok, outs, pf') = (False, [FetchReq (line_end a), StalledInc], pf\<lparr>buffer_start_addr := line_end a, fetch_req_addr := line_end a,
          fetch_stall_opcode := buf_opcode (line_bytes mem s) 14 AND mask 16, fetch_stall_callback := Some HighRefill, prefetch_insn := Some a\<rparr>)"
        using r 1 by (simp add: send_fetch_req_def handle_stall_def)
      then show ?thesis using k by (simp add: high_wait_def k_def s_def)
    next
      case 2
      have "(ok, outs, pf') = (True, [FetchReq (line_end a), StallFetch (fa_latency (port (line_end a)))],
          set_opcode a (insn_word mem a) (pf\<lparr>buffer_start_addr := line_end a, fetch_req_addr := line_end a,
            pf_data := line_bytes mem (line_end a)\<rparr>))"
        using r 2 op by (simp add: send_fetch_req_def set_opcode_def)
      then show ?thesis using assms(6) al2 ne by (auto simp: set_opcode_def pf_done_def pf_ok_def)
    qed
  qed
qed

text \<open>The offset of an address in the line that the buffer holds.\<close>

lemma same_line:
  fixes a w :: u32
  assumes "unat (a - (w AND NOT 15)) < 16"
  shows "w AND NOT 15 = a AND NOT 15" "unat (a - (w AND NOT 15)) = unat a mod 16"
proof -
  define s where "s = (w AND NOT 15)"
  define d where "d = a - s"
  have d: "unat d < 16" using assms by (simp only: d_def s_def)
  have s0: "take_bit 4 s = 0" unfolding s_def by (rule line_start_0)
  have s16: "unat s mod 16 = 0" using s0 unsigned_take_bit_eq[of 4 s, where 'a = nat] by (simp add: take_bit_eq_mod[of 4 "unat s"])
  obtain q where q: "unat s = 16 * q" using s16 by auto
  have "unat s < 4294967296" using unat_lt2p[of s] by simp
  then have "q \<le> 268435455" unfolding q by simp
  then have "unat s + unat d < 2 ^ 32" unfolding q using d by simp
  then have "unat (s + d) = unat s + unat d" by (intro unat_add_no_wrap) simp
  then have a: "unat a = 16 * q + unat d" by (simp add: d_def q)
  have m: "unat a mod 16 = unat d" unfolding a using d by simp
  then show "unat (a - (w AND NOT 15)) = unat a mod 16" by (simp only: d_def s_def)
  have "take_bit 4 a = d" unfolding word_unat_eq_iff unsigned_take_bit_eq using m by (simp add: take_bit_eq_mod)
  then have "a AND NOT 15 = s" unfolding mask_line by (simp add: d_def)
  then show "w AND NOT 15 = a AND NOT 15" by (simp only: s_def)
qed

lemma sint_index:
  fixes d :: u32
  shows "unat d < 16 \<Longrightarrow> sint d = int (unat d)" "\<not> unat d < 16 \<Longrightarrow> sint d < 0 \<or> sint d \<ge> 16"
proof -
  have u: "int (unat d) = uint d" by simp
  assume "unat d < 16"
  then have "int (unat d) < 16" by linarith
  then have l: "uint d < 2 ^ 31" unfolding u by simp
  have "- (2 ^ 31) \<le> (0 :: int)" by simp
  then have "- (2 ^ 31) \<le> uint d" using uint_ge_0[of d] by (rule order_trans)
  then show "sint d = int (unat d)" using l by (simp add: sint_uint signed_take_bit_int_eq_self)
next
  have u: "int (unat d) = uint d" by simp
  assume "\<not> unat d < 16"
  then have "16 \<le> int (unat d)" by linarith
  moreover have "0 \<le> sint d \<Longrightarrow> sint d = uint d" using sint_uint_cases[of d] by simp
  ultimately show "sint d < 0 \<or> sint d \<ge> 16" unfolding u by linarith
qed

lemma line_low: "unat (a - (a AND NOT 15)) = unat a mod 16" for a :: u32
proof -
  have "a - (a AND NOT 15) = take_bit 4 a" unfolding mask_line by simp
  then have e: "unat (a - (a AND NOT 15)) = take_bit 4 (unat a)" by (simp only: unsigned_take_bit_eq)
  have "take_bit 4 (unat a) = unat a mod 16" by (simp add: take_bit_eq_mod[of 4 "unat a"])
  with e show ?thesis by (rule trans)
qed

text \<open>A fetch either has the opcode, or leaves the core stalled on a line.\<close>

lemma refill_outcome:
  assumes "a AND 1 = 0" "backed mem port" "pf_ok mem pf" "current_pc pf = a"
    and "buffer_start_addr pf = -1 \<Longrightarrow> \<not> unat (a - buffer_start_addr pf) < 16"
    and "fetch_refill port a a (sint (a - buffer_start_addr pf)) pf = (ok, outs, pf')"
  shows "ok \<and> StalledInc \<notin> set outs \<and> pf_done mem a pf' \<or> \<not> ok \<and> StalledInc \<in> set outs \<and> (low_wait a pf' \<or> high_wait mem a pf')"
proof (cases "prefetch_insn pf = Some a")
  case True
  then show ?thesis using assms(3,6) by (auto simp: fetch_refill_def pf_done_def pf_ok_def)
next
  case no_insn: False
  let ?d = "a - buffer_start_addr pf"
  define pf1 where "pf1 = pf\<lparr>prefetch_insn := None\<rparr>"
  note p1 = pf1_def[THEN arg_cong, of buffer_start_addr, simplified] pf1_def[THEN arg_cong, of pf_data, simplified]
    pf1_def[THEN arg_cong, of current_pc, simplified] pf1_def[THEN arg_cong, of prefetch_insn, simplified]
  show ?thesis
  proof (cases "unat ?d < 16")
    case True
    then obtain w where w: "buffer_start_addr pf = w AND NOT 15" "pf_data pf = line_bytes mem (buffer_start_addr pf)"
      using assms(3,5) unfolding pf_ok_def by blast
    note l = same_line[of a w, folded w(1), OF True]
    have "fetch_check_overflow port a (int (unat a mod 16)) pf1 = (ok, outs, pf')"
      using assms(6) no_insn True sint_index(1)[OF True] l(2) by (simp add: fetch_refill_def pf1_def ISS_PREFETCHER_SIZE_def Let_def)
    from overflow_outcome[OF assms(1,2) _ _ _ _ this] show ?thesis using w(2) l(1) p1 assms(4) by auto
  next
    case False
    have far: "sint ?d < 0 \<or> sint ?d \<ge> uint ISS_PREFETCHER_SIZE"
      using sint_index(2)[OF False] by (simp add: ISS_PREFETCHER_SIZE_def)
    have c: "(ISS_PREFETCHER_SIZE - 1) = 15" by (simp add: ISS_PREFETCHER_SIZE_def)
    let ?s = "a AND NOT 15"
    have fl: "fill port a pf1 = send_fetch_req port ?s (pf1\<lparr>buffer_start_addr := ?s\<rparr>)" unfolding fill_def c Let_def ..
    note r = assms(6)[unfolded fetch_refill_def if_not_P[OF no_insn] Let_def pf1_def[symmetric] if_P[OF far] fl]
    note k = line_low[of a]
    consider "fa_status (port ?s) = FETCH_PENDING" | "fa_status (port ?s) = FETCH_OK" "fa_data (port ?s) = line_bytes mem ?s"
      using assms(2) unfolding backed_def by blast
    then show ?thesis
    proof cases
      case 1
      then show ?thesis using r assms(4) p1 by (auto simp: send_fetch_req_def handle_stall_def low_wait_def Let_def)
    next
      case 2
      define pf2 where "pf2 = pf1\<lparr>buffer_start_addr := ?s, fetch_req_addr := ?s, pf_data := line_bytes mem ?s\<rparr>"
      obtain ok2 o2 pf3 where f: "fetch_check_overflow port a (int (unat a mod 16)) pf2 = (ok2, o2, pf3)" by (metis prod_cases3)
      have "unat (a - ?s) < 16" unfolding k by simp
      then have "sint (a - ?s) = int (unat a mod 16)" unfolding k[symmetric] by (rule sint_index(1))
      then have "ok = ok2" "outs = [FetchReq ?s, StallFetch (fa_latency (port ?s))] @ o2" "pf' = pf3"
        using r 2 f by (simp_all add: send_fetch_req_def pf2_def)
      moreover have "pf_data pf2 = line_bytes mem ?s" "buffer_start_addr pf2 = ?s" "current_pc pf2 = a" "prefetch_insn pf2 = None"
        using p1 assms(4) by (simp_all add: pf2_def)
      ultimately show ?thesis using overflow_outcome[OF assms(1,2) _ _ _ _ f] by auto
    qed
  qed
qed

lemma even_entry:
  fixes a :: u32
  assumes "a AND 1 = 0" shows "a AND NOT 1 = a"
proof -
  have "a = (a AND NOT 1) + (a AND 1)"
    by (subst disjunctive_add) (auto simp: bit_simps bit_1_iff intro!: bit_word_eqI)
  then show ?thesis using assms by simp
qed

text \<open>The addresses the prefetcher serves: even, after the first line and before the last page.\<close>

definition fetchable :: "u32 \<Rightarrow> bool" where
  "fetchable a \<longleftrightarrow> a AND 1 = 0 \<and> 16 \<le> a \<and> a < 0xFFFFFE00"

lemma empty_far:
  assumes "fetchable a" shows "\<not> unat (a - (-1)) < 16"
proof -
  have "16 \<le> unat a" "unat a < 0xFFFFFE00" using assms by (simp_all add: fetchable_def word_le_nat_alt word_less_nat_alt)
  then have "unat (a + 1) = unat a + 1" by (subst unat_add_no_wrap) simp_all
  then show ?thesis using \<open>16 \<le> unat a\<close> by simp
qed

lemma fetch_outcome:
  assumes "fetchable a" "backed mem port" "pf_ok mem pf" "icache_inv c"
  shows "\<exists>ok outs c' pf'. fetch port a c pf = Some (ok, outs, c', pf') \<and> icache_inv c'
    \<and> (ok \<and> StalledInc \<notin> set outs \<and> pf_done mem a pf' \<or> \<not> ok \<and> StalledInc \<in> set outs \<and> (low_wait a pf' \<or> high_wait mem a pf'))
    \<and> (prefetch_insn pf = Some a \<longrightarrow> ok)"
proof -
  have ev: "a AND 1 = 0" using assms(1) by (simp add: fetchable_def)
  obtain c' where c': "get_insn a c = (Some a, c')" "icache_inv c'"
    using get_insn_entry[OF assms(4), of a] get_insn_inv[OF assms(4), of a] even_entry[OF ev] assms(1)
    by (metis fetchable_def prod.collapse)
  let ?d = "a - buffer_start_addr pf"
  show ?thesis
  proof (cases "?d \<le> ISS_PREFETCHER_SIZE - 4")
    case True
    then have d: "unat ?d \<le> 12" by (simp add: ISS_PREFETCHER_SIZE_def word_le_nat_alt)
    then have "buffer_start_addr pf \<noteq> -1" using empty_far[OF assms(1)] by auto
    then have "pf_data pf = line_bytes mem (buffer_start_addr pf)" using assms(3) by (simp add: pf_ok_def)
    then have "buf_opcode (pf_data pf) (unat ?d) = insn_word mem a"
      using line_opcode[OF d, of mem "buffer_start_addr pf"] by simp
    then have "fetch port a c pf = Some (True, [], c', set_opcode a (insn_word mem a) pf)"
      using True c' by (simp add: fetch_def)
    moreover have "pf_done mem a (set_opcode a (insn_word mem a) pf)"
      using assms(3) by (auto simp: pf_done_def pf_ok_def set_opcode_def)
    ultimately show ?thesis using c'(2) by (intro exI[of _ True]) auto
  next
    case False
    let ?pf = "pf\<lparr>current_pc := a\<rparr>"
    obtain ok outs pf' where r: "fetch_refill port a a (sint (a - buffer_start_addr ?pf)) ?pf = (ok, outs, pf')"
      by (metis prod_cases3)
    have p: "pf_ok mem ?pf" using assms(3) by (simp add: pf_ok_def)
    have e: "buffer_start_addr ?pf = -1 \<Longrightarrow> \<not> unat (a - buffer_start_addr ?pf) < 16" using empty_far[OF assms(1)] by simp
    have "fetch port a c pf = Some (ok, outs, c', pf')" using False c'(1) r by (simp add: fetch_def)
    moreover have "prefetch_insn pf = Some a \<longrightarrow> ok" using r by (auto simp: fetch_refill_def)
    ultimately show ?thesis using refill_outcome[OF ev assms(2) p _ e r] c'(2) by simp
  qed
qed

text \<open>The responses to the requests the core is stalled on.\<close>

fun answered :: "(u32 \<Rightarrow> u8) \<Rightarrow> fetch_port \<Rightarrow> int \<Rightarrow> nat \<Rightarrow> fetch_out list \<times> prefetcher \<Rightarrow> fetch_out list \<times> prefetcher" where
  "answered mem port lat 0 r = r"
| "answered mem port lat (Suc n) r =
     (if StalledInc \<in> set (fst r)
      then answered mem port lat n (fetch_response port lat (line_bytes mem (fetch_req_addr (snd r))) (snd r)) else r)"

lemma high_answer:
  assumes "fetchable a" "high_wait mem a pf"
    and "fetch_response port lat (line_bytes mem (fetch_req_addr pf)) pf = (outs, pf')"
  shows "StalledInc \<notin> set outs \<and> pf_done mem a pf' \<and> prefetch_insn pf' = Some a"
proof -
  have ev: "a AND 1 = 0" using assms(1) by (simp add: fetchable_def)
  define s where "s = (a AND NOT 15)"
  have k: "unat a mod 16 = 14" using assms(2) by (simp add: high_wait_def)
  note L = line_offset[OF ev, folded s_def, unfolded k]
  have e: "line_end a = s + 16" "unat (line_end a - a) = 2" using L(5)[OF refl] by blast+
  have a: "a = s + 14" using L(1) by simp
  have h: "fetch_stall_callback pf = Some HighRefill" "prefetch_insn pf = Some a" "buffer_start_addr pf = line_end a"
    "fetch_req_addr pf = line_end a" "fetch_stall_opcode pf = buf_opcode (line_bytes mem s) 14 AND mask 16"
    using assms(2) by (simp_all only: high_wait_def s_def)
  have "(outs, pf') = ([StallFetch lat, StalledDec], set_opcode a (insn_word mem a) (pf\<lparr>pf_data := line_bytes mem (line_end a)\<rparr>))"
    using assms(3) split_opcode[of mem s, folded a e(1)] e(2)
    by (simp add: fetch_response_def fetch_resume_after_high_refill_def h set_opcode_def)
  moreover have "\<exists>w. line_end a = w AND NOT 15" using line_end_eq by (rule exI)
  ultimately show ?thesis using h by (auto simp: pf_done_def pf_ok_def set_opcode_def)
qed

lemma low_answer:
  assumes "fetchable a" "backed mem port" "low_wait a pf"
    and "fetch_response port lat (line_bytes mem (fetch_req_addr pf)) pf = (outs, pf')"
  shows "StalledInc \<notin> set outs \<and> pf_done mem a pf' \<and> prefetch_insn pf' = Some a \<or> StalledInc \<in> set outs \<and> high_wait mem a pf'"
proof -
  have ev: "a AND 1 = 0" using assms(1) by (simp add: fetchable_def)
  let ?s = "a AND NOT 15"
  define pf1 where "pf1 = pf\<lparr>pf_data := line_bytes mem ?s\<rparr>"
  have h: "fetch_stall_callback pf = Some LowRefill" "prefetch_insn pf = Some a" "buffer_start_addr pf = ?s"
    "fetch_req_addr pf = ?s" "current_pc pf = a" using assms(3) by (simp_all only: low_wait_def)
  obtain ok o2 pf2 where f: "fetch_check_overflow port a (int (unat a mod 16)) pf1 = (ok, o2, pf2)" by (metis prod_cases3)
  note u = line_low[of a]
  have "unat (a - ?s) < 16" unfolding u by simp
  then have "sint (a - ?s) = int (unat a mod 16)" unfolding u[symmetric] by (rule sint_index(1))
  then have "(outs, pf') = ([StallFetch lat, StalledDec] @ o2, pf2)"
    using assms(4) f unfolding fetch_response_def h(4) pf1_def[symmetric]
    by (simp add: fetch_resume_after_low_refill_def h pf1_def)
  moreover have "pf_data pf1 = line_bytes mem ?s" "buffer_start_addr pf1 = ?s" "current_pc pf1 = a" "prefetch_insn pf1 = Some a"
    using h by (simp_all add: pf1_def)
  ultimately show ?thesis using overflow_outcome[OF ev assms(2) _ _ _ _ f] by auto
qed

text \<open>C5: The fetch delivers the opcode that is in memory. In a coherent state (idle, the buffer a line of
  the memory or empty), fetching a servable address from a memory that answers each line at once or
  later, either succeeds at once, or stalls the core until at most two responses; the fetch made again
  then succeeds, whether or not the instruction straddles two lines, and the state is coherent again.\<close>

theorem fetch_delivers:
  assumes "fetchable a" "backed mem port" "pf_ok mem pf" "icache_reach c"
  shows "\<exists>ok outs c' pf'. fetch port a c pf = Some (ok, outs, c', pf') \<and> icache_reach c'
    \<and> (if ok then pf_done mem a pf'
       else \<exists>outs2 pf2 outs3 c3 pf3. answered mem port lat 2 (outs, pf') = (outs2, pf2) \<and> StalledInc \<notin> set outs2
         \<and> fetch port a c' pf2 = Some (True, outs3, c3, pf3) \<and> pf_done mem a pf3)"
proof -
  obtain ok outs c' pf' where f: "fetch port a c pf = Some (ok, outs, c', pf')" "icache_inv c'"
    and o: "ok \<and> StalledInc \<notin> set outs \<and> pf_done mem a pf' \<or> \<not> ok \<and> StalledInc \<in> set outs \<and> (low_wait a pf' \<or> high_wait mem a pf')"
    using fetch_outcome[OF assms(1-3) icache_reach_inv[OF assms(4)]] by blast
  have r: "icache_reach c'"
    using f(1) icache_reach.lookup[OF assms(4), of a] by (auto simp: fetch_def Let_def split: prod.splits option.splits if_splits)
  have again: "\<exists>outs3 c3 pf3. fetch port a c' pf2 = Some (True, outs3, c3, pf3) \<and> pf_done mem a pf3"
    if "pf_done mem a pf2" "prefetch_insn pf2 = Some a" for pf2
  proof -
    note h = that
    have "pf_ok mem pf2" using h by (simp add: pf_done_def)
    then obtain ok3 outs3 c3 pf3 where "fetch port a c' pf2 = Some (ok3, outs3, c3, pf3)" "ok3" "pf_done mem a pf3"
      using fetch_outcome[OF assms(1,2) _ f(2), of pf2] h(2) by blast
    then show ?thesis by auto
  qed
  have high: "\<exists>outs2 pf2 outs3 c3 pf3. answered mem port lat (Suc n) (os, q) = (outs2, pf2) \<and> StalledInc \<notin> set outs2
      \<and> fetch port a c' pf2 = Some (True, outs3, c3, pf3) \<and> pf_done mem a pf3"
    if "StalledInc \<in> set os" "high_wait mem a q" for os q n
  proof -
    obtain o2 q2 where e: "fetch_response port lat (line_bytes mem (fetch_req_addr q)) q = (o2, q2)" by fastforce
    note h = high_answer[OF assms(1) that(2) e]
    moreover have "answered mem port lat (Suc n) (os, q) = (o2, q2)" using that(1) h e by (cases n) simp_all
    ultimately show ?thesis using again[of q2] by blast
  qed
  show ?thesis
  proof (cases ok)
    case True
    then show ?thesis using f(1) r o by auto
  next
    case False
    then have st: "StalledInc \<in> set outs" and w: "low_wait a pf' \<or> high_wait mem a pf'" using o by blast+
    have "\<exists>outs2 pf2 outs3 c3 pf3. answered mem port lat 2 (outs, pf') = (outs2, pf2) \<and> StalledInc \<notin> set outs2
         \<and> fetch port a c' pf2 = Some (True, outs3, c3, pf3) \<and> pf_done mem a pf3"
      using w
    proof
      assume "high_wait mem a pf'"
      then show ?thesis using high[OF st, of pf' 1] by (simp add: numeral_2_eq_2)
    next
      assume l: "low_wait a pf'"
      obtain o2 q2 where e: "fetch_response port lat (line_bytes mem (fetch_req_addr pf')) pf' = (o2, q2)" by fastforce
      have s1: "answered mem port lat 2 (outs, pf') = answered mem port lat 1 (o2, q2)" using st e by (simp add: numeral_2_eq_2)
      show ?thesis using low_answer[OF assms(1,2) l e]
      proof
        assume d: "StalledInc \<notin> set o2 \<and> pf_done mem a q2 \<and> prefetch_insn q2 = Some a"
        then have "answered mem port lat 2 (outs, pf') = (o2, q2)" unfolding s1 by simp
        then show ?thesis using again[of q2] d by blast
      next
        assume "StalledInc \<in> set o2 \<and> high_wait mem a q2"
        then show ?thesis unfolding s1 using high[of o2 q2 0] by simp
      qed
    qed
    then show ?thesis using f(1) r False by auto
  qed
qed

text \<open>A memory whose bytes are their addresses, behind a port that is always late.\<close>

definition demo_pf :: prefetcher where
  "demo_pf = \<lparr>pf_data = [], buffer_start_addr = -1, fetch_req_addr = 0, fetch_stall_callback = None, prefetch_insn = None,
     fetch_stall_opcode = 0, current_pc = 0, opcode = (\<lambda>_. 0)\<rparr>"

theorem fetch_delivers_witness:
  "\<exists>ok outs c' pf'. fetch (\<lambda>_. \<lparr>fa_status = FETCH_PENDING, fa_latency = 0, fa_data = []\<rparr>) 0x10e insn_cache_build demo_pf
      = Some (ok, outs, c', pf') \<and> icache_reach c' \<and> (if ok then pf_done ucast 0x10e pf'
       else \<exists>outs2 pf2 outs3 c3 pf3. answered ucast (\<lambda>_. \<lparr>fa_status = FETCH_PENDING, fa_latency = 0, fa_data = []\<rparr>) 5 2 (outs, pf')
           = (outs2, pf2) \<and> StalledInc \<notin> set outs2
         \<and> fetch (\<lambda>_. \<lparr>fa_status = FETCH_PENDING, fa_latency = 0, fa_data = []\<rparr>) 0x10e c' pf2 = Some (True, outs3, c3, pf3)
         \<and> pf_done ucast 0x10e pf3)"
  by (rule fetch_delivers[OF _ _ _ icache_reach.build]) (simp_all add: fetchable_def backed_def pf_ok_def demo_pf_def)

section \<open>Where the code departs from this\<close>

text \<open>In the last page the look-up goes through a page pointer that is not set: the base that means "no page"
  is the one of that page.\<close>

theorem last_page_lookup:
  assumes "0xFFFFFE00 \<le> vaddr"
  shows "fst (get_insn vaddr (insn_cache_flush c)) = None"
proof -
  have "unat vaddr \<ge> 0xFFFFFE00" using assms by (simp add: word_le_nat_alt)
  moreover have "unat vaddr < 4294967296" using unat_lt2p[of vaddr] by simp
  moreover have "unat (vaddr + 512) = (unat vaddr + 512) mod 4294967296" by (simp add: unat_word_ariths)
  ultimately have "unat (vaddr + 512) = unat vaddr + 512 - 4294967296" by (simp only: le_mod_geq) simp
  then have "unat (vaddr + 512) < 512" using \<open>unat vaddr < 4294967296\<close> by linarith
  then have "drop_bit 1 (vaddr + 512) < 256" by (simp add: word_less_nat_alt drop_bit_unat)
  then show ?thesis by (simp add: get_insn_def get_insn_current_def insn_cache_flush_def insn_cache_mode_flush_def page_consts Let_def)
qed

text \<open>The empty buffer is not recognised in the first line: the start address -1 makes the index of address 0
  equal to 1, and the opcode is what the buffer holds.\<close>

theorem empty_buffer_first_line:
  assumes "get_insn 0 c = (Some 0, c')"
  shows "fetch port 0 c (prefetcher_flush pf) = Some (True, [], c', set_opcode 0 (buf_opcode (pf_data pf) 1) (prefetcher_flush pf))"
  using assms by (simp add: fetch_def prefetcher_flush_def ISS_PREFETCHER_SIZE_def)

text \<open>A refused refill leaves the buffer marked as holding the line: the next fetch in it takes what was there.\<close>

theorem refused_refill_kept:
  assumes "fa_status (port s) = FETCH_INVALID" "s = a AND NOT 15" "fill port a pf = (err, outs, pf')"
  shows "err = 1 \<and> buffer_start_addr pf' = s \<and> pf_data pf' = pf_data pf"
  using assms by (auto simp: fill_def send_fetch_req_def Let_def ISS_PREFETCHER_SIZE_def)

text \<open>The flush keeps \<open>prefetch_insn\<close>: an instruction fetched by a stalled refill is not fetched again after it,
  although the memory may have changed.\<close>

theorem flush_keeps_insn:
  assumes "prefetch_insn pf = Some a" "get_insn a c = (Some a, c')" "fetchable a"
  shows "fetch port a c (prefetcher_flush pf) = Some (True, [], c', (prefetcher_flush pf)\<lparr>current_pc := a\<rparr>)"
proof -
  have "\<not> a - (-1) \<le> ISS_PREFETCHER_SIZE - 4"
    using empty_far[OF assms(3)] by (simp add: ISS_PREFETCHER_SIZE_def word_le_nat_alt)
  then show ?thesis using assms(1,2) by (simp add: fetch_def fetch_refill_def prefetcher_flush_def)
qed

end
