(* ===== verification/Mmu.thy ===== *)
theory Mmu imports Prelude begin

text \<open>
  The memory management unit of the 64-bit cores (\<open>src/models/cpu/iss/src/mmu.cpp\<close>, \<open>include/mmu.hpp\<close> and
  \<open>include/mmu_implem.hpp\<close>): three direct-mapped TLBs and the walk of the page tables, one entry read per
  step. The fields of the other parts of the core that it reads and writes are in the same record. What it
  does to the rest of the core is a list of outputs, in order. \<open>port\<close> answers the reads of the page tables.
\<close>

section \<open>State\<close>

definition MMU_TLB_ENTRIES_MASK :: u64 where "MMU_TLB_ENTRIES_MASK = 0xff"
definition MMU_PGSHIFT :: nat where "MMU_PGSHIFT = 12"
definition MMU_MODE_OFF :: u64 where "MMU_MODE_OFF = 0"
definition MMU_MODE_SV39 :: u64 where "MMU_MODE_SV39 = 8"
definition MMU_PTE_ATTR :: u64 where "MMU_PTE_ATTR = 0xFFC0000000000000"
definition MMU_PTE_PPN_SHIFT :: nat where "MMU_PTE_PPN_SHIFT = 10"

definition ACCESS_INSN :: u32 where "ACCESS_INSN = 1"
definition ACCESS_LOAD :: u32 where "ACCESS_LOAD = 2"
definition ACCESS_STORE :: u32 where "ACCESS_STORE = 4"

text \<open>The bits of an entry.\<close>

abbreviation pte_v :: "u64 \<Rightarrow> bool" where "pte_v p \<equiv> bit p 0"
abbreviation pte_r :: "u64 \<Rightarrow> bool" where "pte_r p \<equiv> bit p 1"
abbreviation pte_w :: "u64 \<Rightarrow> bool" where "pte_w p \<equiv> bit p 2"
abbreviation pte_x :: "u64 \<Rightarrow> bool" where "pte_x p \<equiv> bit p 3"
abbreviation pte_u :: "u64 \<Rightarrow> bool" where "pte_u p \<equiv> bit p 4"
abbreviation pte_a :: "u64 \<Rightarrow> bool" where "pte_a p \<equiv> bit p 6"
abbreviation pte_d :: "u64 \<Rightarrow> bool" where "pte_d p \<equiv> bit p 7"

record mmu =
  mm_satp :: u64
  mm_pt_base :: u64
  mm_asid :: u64
  mm_mode :: u64
  mm_nb_levels :: int
  mm_pte_size :: int
  mm_vpn_width :: int
  tlb_insn_tag :: "u64 \<Rightarrow> u64"
  tlb_insn_phys_addr :: "u64 \<Rightarrow> u64"
  tlb_load_tag :: "u64 \<Rightarrow> u64"
  tlb_load_use_mem_array :: "u64 \<Rightarrow> bool"
  tlb_store_tag :: "u64 \<Rightarrow> u64"
  tlb_ls_phys_addr :: "u64 \<Rightarrow> u64"
  mm_current_level :: int
  mm_current_vpn_bit :: int
  mm_current_virt_addr :: u64
  mm_pte_value :: u64
  mm_access_type :: u32
  mm_stall_insn :: u64
  core_priv :: nat             \<comment> \<open>\<open>core.mode_get()\<close>\<close>
  core_mprv :: bool
  core_mpp :: nat
  core_tvm :: bool
  lsu_memory_start :: u64
  lsu_memory_end :: u64
  exec_current_insn :: u64
  exec_stall_insn :: u64
  exec_irq_locked :: int
  exec_on_hold :: bool

datatype mmu_out = Raise u64 nat | Stval u64 | Read_pte u64 | Mode_flush

datatype pte_answer = Pte_ok u64 | Pte_invalid | Pte_pending

definition mmu_flush :: "mmu \<Rightarrow> mmu" where
  "mmu_flush m = m\<lparr>tlb_insn_tag := (\<lambda>_. -1), tlb_load_tag := (\<lambda>_. -1), tlb_store_tag := (\<lambda>_. -1)\<rparr>"

definition mmu_reset :: "bool \<Rightarrow> mmu \<Rightarrow> mmu" where
  "mmu_reset active m = (if active then mmu_flush (m\<lparr>mm_satp := 0, mm_mode := MMU_MODE_OFF\<rparr>) else m)"

text \<open>\<open>1 << width\<close> is computed on 32 bits; \<open>shl\<close> is what the compiler makes of it when it is undefined.\<close>

definition get_field :: "(nat \<Rightarrow> u32) \<Rightarrow> u64 \<Rightarrow> nat \<Rightarrow> nat \<Rightarrow> u64" where
  "get_field shl field pos width = drop_bit pos field AND scast ((if width < 32 then push_bit width 1 else shl width) - 1)"

text \<open>The result, the outputs.\<close>

definition satp_update :: "(nat \<Rightarrow> u32) \<Rightarrow> bool \<Rightarrow> u64 \<Rightarrow> mmu \<Rightarrow> bool \<times> mmu_out list \<times> mmu" where
  "satp_update shl is_write v m =
     (if core_priv m = 1 \<and> core_tvm m then (False, [Raise (exec_current_insn m) 2], m)
      else
       (let pt_base = push_bit 12 (get_field shl v 0 44); asid = get_field shl v 44 16; mode = get_field shl v 60 4
        in if is_write \<and> mode \<noteq> 0 \<and> mode \<noteq> MMU_MODE_SV39 then (False, [], m)
           else
            (let m1 = (if is_write
                       then (let m0 = m\<lparr>mm_satp := v, mm_asid := asid, mm_mode := mode, mm_pt_base := pt_base\<rparr>
                             in if mode = MMU_MODE_SV39 then m0\<lparr>mm_nb_levels := 3, mm_pte_size := 8, mm_vpn_width := 9\<rparr> else m0)
                       else m)
             in (True, [Mode_flush], mmu_flush m1))))"

section \<open>The walk\<close>

definition insn_hold :: "mmu \<Rightarrow> mmu" where
  "insn_hold m = m\<lparr>exec_stall_insn := exec_current_insn m, exec_on_hold := True\<rparr>"

definition insn_resume :: "mmu \<Rightarrow> mmu" where "insn_resume m = m\<lparr>exec_on_hold := False\<rparr>"

definition raise_exception :: "mmu \<Rightarrow> mmu_out list \<times> mmu" where
  "raise_exception m =
     (let cause = (if mm_access_type m AND ACCESS_LOAD \<noteq> 0 then 13 else if mm_access_type m AND ACCESS_STORE \<noteq> 0 then 15 else 12)
      in ([Stval (mm_current_virt_addr m), Raise (exec_stall_insn m) cause],
          insn_resume (m\<lparr>exec_irq_locked := exec_irq_locked m - 1\<rparr>)))"

type_synonym pte_port = "u64 \<Rightarrow> pte_answer"

text \<open>A read that faults or is pending leaves the entry read before.\<close>

definition read_pte :: "pte_port \<Rightarrow> u64 \<Rightarrow> mmu \<Rightarrow> mmu_out list \<times> mmu" where
  "read_pte port addr m = ([Read_pte addr], case port addr of Pte_ok v \<Rightarrow> m\<lparr>mm_pte_value := v\<rparr> | _ \<Rightarrow> m)"

definition pte_page :: "u64 \<Rightarrow> u64" where
  "pte_page p = push_bit MMU_PGSHIFT (drop_bit MMU_PTE_PPN_SHIFT (p AND NOT MMU_PTE_ATTR))"

text \<open>A leaf at the base \<open>phys_base\<close> is put in the TLB of the access.\<close>

definition fill_tlb :: "u64 \<Rightarrow> mmu \<Rightarrow> mmu_out list \<times> mmu" where
  "fill_tlb phys_base m =
     (let p = mm_pte_value m;
          virt_base = push_bit MMU_PGSHIFT (drop_bit MMU_PGSHIFT (mm_current_virt_addr m));
          tag = drop_bit MMU_PGSHIFT (mm_current_virt_addr m);
          index = tag AND MMU_TLB_ENTRIES_MASK;
          finish = (\<lambda>m1. (insn_resume (m1\<lparr>exec_irq_locked := exec_irq_locked m1 - 1\<rparr>))\<lparr>exec_current_insn := mm_stall_insn m1\<rparr>)
      in if mm_access_type m AND ACCESS_INSN \<noteq> 0
         then (if \<not> pte_a p \<or> \<not> pte_x p then raise_exception m
               else ([], finish (m\<lparr>tlb_insn_tag := (tlb_insn_tag m)(index := tag),
                                    tlb_insn_phys_addr := (tlb_insn_phys_addr m)(index := phys_base - virt_base)\<rparr>)))
         else
          (let is_store = mm_access_type m AND ACCESS_STORE \<noteq> 0; is_load = mm_access_type m AND ACCESS_LOAD \<noteq> 0
           in if \<not> pte_a p \<or> is_load \<and> \<not> pte_r p \<or> is_store \<and> (\<not> pte_w p \<or> \<not> pte_d p) then raise_exception m
              else ([], finish (m\<lparr>tlb_load_tag := (tlb_load_tag m)(index := if pte_r p then tag else -1),
                                   tlb_store_tag := (tlb_store_tag m)(index := if pte_w p \<and> pte_d p then tag else -1),
                                   tlb_load_use_mem_array := (tlb_load_use_mem_array m)
                                     (index := lsu_memory_start m \<le> phys_base \<and> phys_base < lsu_memory_end m),
                                   tlb_ls_phys_addr := (tlb_ls_phys_addr m)(index := phys_base - virt_base)\<rparr>))))"

definition handle_pte :: "(nat \<Rightarrow> u32) \<Rightarrow> pte_port \<Rightarrow> mmu \<Rightarrow> mmu_out list \<times> mmu" where
  "handle_pte shl port m =
     (let p = mm_pte_value m in
      if \<not> pte_v p \<or> (\<not> pte_r p \<and> pte_w p) \<or> p AND MMU_PTE_ATTR \<noteq> 0 then raise_exception m
      else if pte_r p \<or> pte_x p then
       (if 0 < mm_current_level m
           \<and> (ucast (get_field shl (pte_page p) MMU_PGSHIFT (nat (mm_pte_size m * mm_current_level m))) :: u32) \<noteq> 0
        then raise_exception m
        else if 0 < mm_current_level m
        then fill_tlb (pte_page p + push_bit MMU_PGSHIFT (get_field shl (mm_current_virt_addr m) MMU_PGSHIFT (nat (mm_vpn_width m)))) m
        else fill_tlb (pte_page p) m)
      else
       (let m1 = m\<lparr>mm_current_level := mm_current_level m - 1, mm_current_vpn_bit := mm_current_vpn_bit m - mm_vpn_width m\<rparr>
        in if mm_current_level m1 < 0 then raise_exception m1
           else read_pte port (pte_page p + get_field shl (mm_current_virt_addr m1) (nat (mm_current_vpn_bit m1)) (nat (mm_vpn_width m1))
                                            * word_of_int (mm_pte_size m1)) m1))"

text \<open>The event of the walk, unless stall cycles are left; the response to a read that was pending.\<close>

definition handle_pte_stub :: "(nat \<Rightarrow> u32) \<Rightarrow> pte_port \<Rightarrow> bool \<Rightarrow> mmu \<Rightarrow> mmu_out list \<times> mmu" where
  "handle_pte_stub shl port stall_cycles m = (if stall_cycles then ([], m) else handle_pte shl port m)"

definition handle_pte_response :: "(nat \<Rightarrow> u32) \<Rightarrow> pte_port \<Rightarrow> u64 \<Rightarrow> mmu \<Rightarrow> mmu_out list \<times> mmu" where
  "handle_pte_response shl port v m = handle_pte shl port (m\<lparr>mm_pte_value := v\<rparr>)"

definition walk_pgtab :: "(nat \<Rightarrow> u32) \<Rightarrow> pte_port \<Rightarrow> u64 \<Rightarrow> mmu \<Rightarrow> mmu_out list \<times> mmu" where
  "walk_pgtab shl port virt_addr m =
     (let m1 = m\<lparr>exec_irq_locked := exec_irq_locked m + 1, mm_stall_insn := exec_current_insn m,
                 mm_current_virt_addr := virt_addr, mm_current_level := mm_nb_levels m - 1,
                 mm_current_vpn_bit := int MMU_PGSHIFT + mm_nb_levels m * mm_vpn_width m - mm_vpn_width m\<rparr>;
          vpn_index = get_field shl virt_addr (nat (mm_current_vpn_bit m1)) (nat (mm_vpn_width m1))
      in read_pte port (mm_pt_base m1 + vpn_index * word_of_int (mm_pte_size m1)) (insn_hold m1))"

section \<open>Translation\<close>

text \<open>Whether the access has to wait, the physical address and whether it is in the memory array; when it waits
  these are not assigned.\<close>

definition virt_to_phys_miss ::
  "(nat \<Rightarrow> u32) \<Rightarrow> pte_port \<Rightarrow> u64 \<Rightarrow> mmu \<Rightarrow> (u64 \<times> bool) option \<times> mmu_out list \<times> mmu" where
  "virt_to_phys_miss shl port virt_addr m =
     (let mode = (if core_mprv m \<and> mm_access_type m AND ACCESS_INSN = 0 then core_mpp m else core_priv m);
          tag = scast (ucast (drop_bit MMU_PGSHIFT virt_addr) :: u32) :: u64;
          index = tag AND MMU_TLB_ENTRIES_MASK
      in if mode = 3 \<or> mm_mode m = MMU_MODE_OFF
         then (if mm_access_type m AND ACCESS_INSN \<noteq> 0
               then (Some (virt_addr, False), [],
                     m\<lparr>tlb_insn_phys_addr := (tlb_insn_phys_addr m)(index := 0), tlb_insn_tag := (tlb_insn_tag m)(index := tag)\<rparr>)
               else
                (let use_mem = lsu_memory_start m \<le> virt_addr \<and> virt_addr < lsu_memory_end m
                 in (Some (virt_addr, use_mem), [],
                     m\<lparr>tlb_ls_phys_addr := (tlb_ls_phys_addr m)(index := 0), tlb_load_tag := (tlb_load_tag m)(index := tag),
                       tlb_load_use_mem_array := (tlb_load_use_mem_array m)(index := use_mem),
                       tlb_store_tag := (tlb_store_tag m)(index := tag)\<rparr>)))
         else (case walk_pgtab shl port virt_addr m of (outs, m1) \<Rightarrow> (None, outs, m1)))"

definition insn_virt_to_phys ::
  "(nat \<Rightarrow> u32) \<Rightarrow> pte_port \<Rightarrow> u64 \<Rightarrow> mmu \<Rightarrow> (u64 \<times> bool) option \<times> mmu_out list \<times> mmu" where
  "insn_virt_to_phys shl port a m =
     (let tag = drop_bit MMU_PGSHIFT a; index = tag AND MMU_TLB_ENTRIES_MASK
      in if tlb_insn_tag m index = tag then (Some (a + tlb_insn_phys_addr m index, False), [], m)
         else virt_to_phys_miss shl port a (m\<lparr>mm_access_type := ACCESS_INSN\<rparr>))"

definition load_virt_to_phys ::
  "(nat \<Rightarrow> u32) \<Rightarrow> pte_port \<Rightarrow> u64 \<Rightarrow> mmu \<Rightarrow> (u64 \<times> bool) option \<times> mmu_out list \<times> mmu" where
  "load_virt_to_phys shl port a m =
     (let tag = drop_bit MMU_PGSHIFT a; index = tag AND MMU_TLB_ENTRIES_MASK
      in if tlb_load_tag m index = tag then (Some (a + tlb_ls_phys_addr m index, tlb_load_use_mem_array m index), [], m)
         else virt_to_phys_miss shl port a (m\<lparr>mm_access_type := ACCESS_LOAD\<rparr>))"

definition store_virt_to_phys ::
  "(nat \<Rightarrow> u32) \<Rightarrow> pte_port \<Rightarrow> u64 \<Rightarrow> mmu \<Rightarrow> (u64 \<times> bool) option \<times> mmu_out list \<times> mmu" where
  "store_virt_to_phys shl port a m =
     (let tag = drop_bit MMU_PGSHIFT a; index = tag AND MMU_TLB_ENTRIES_MASK
      in if tlb_store_tag m index = tag then (Some (a + tlb_ls_phys_addr m index, tlb_load_use_mem_array m index), [], m)
         else virt_to_phys_miss shl port a (m\<lparr>mm_access_type := ACCESS_STORE\<rparr>))"

section \<open>Sv39\<close>

text \<open>The translation of the RISC-V privileged specification: three levels of tables of 512 entries, a leaf
  at any level, aligned, that allows the access to the privilege it is made from. \<open>user\<close> and \<open>su\<close> are
  whether it is made from user mode and the bit \<open>SUM\<close> of \<open>mstatus\<close> that lets the supervisor access user pages.\<close>

datatype access = Fetch | Load | Store

definition vpn :: "u64 \<Rightarrow> nat \<Rightarrow> u64" where "vpn va l = drop_bit (12 + 9 * l) va AND mask 9"
definition ppn :: "u64 \<Rightarrow> u64" where "ppn p = drop_bit 10 p AND mask 44"

definition pte_valid :: "u64 \<Rightarrow> bool" where
  "pte_valid p \<longleftrightarrow> pte_v p \<and> (pte_w p \<longrightarrow> pte_r p) \<and> drop_bit 54 p = 0"

primrec sv39_leaf :: "(u64 \<Rightarrow> u64) \<Rightarrow> u64 \<Rightarrow> u64 \<Rightarrow> nat \<Rightarrow> (nat \<times> u64) option" where
  "sv39_leaf mem base va 0 =
     (let p = mem (base + vpn va 0 * 8) in if pte_valid p \<and> (pte_r p \<or> pte_x p) then Some (0, p) else None)"
| "sv39_leaf mem base va (Suc l) =
     (let p = mem (base + vpn va (Suc l) * 8) in
      if \<not> pte_valid p then None
      else if pte_r p \<or> pte_x p then Some (Suc l, p)
      else sv39_leaf mem (push_bit 12 (ppn p)) va l)"

fun leaf_permits :: "access \<Rightarrow> u64 \<Rightarrow> bool" where
  "leaf_permits Fetch p = pte_x p"
| "leaf_permits Load p = pte_r p"
| "leaf_permits Store p = (pte_w p \<and> pte_d p)"

definition access_priv :: "access \<Rightarrow> mmu \<Rightarrow> nat" where
  "access_priv acc m = (if core_mprv m \<and> acc \<noteq> Fetch then core_mpp m else core_priv m)"

definition leaf_privileged :: "bool \<Rightarrow> bool \<Rightarrow> access \<Rightarrow> u64 \<Rightarrow> bool" where
  "leaf_privileged user su acc p \<longleftrightarrow> (if user then pte_u p else \<not> pte_u p \<or> su \<and> acc \<noteq> Fetch)"

definition canonical :: "u64 \<Rightarrow> bool" where "canonical va \<longleftrightarrow> va = signed_take_bit 38 va"

definition sv39 :: "(u64 \<Rightarrow> u64) \<Rightarrow> u64 \<Rightarrow> bool \<Rightarrow> bool \<Rightarrow> access \<Rightarrow> u64 \<Rightarrow> u64 option" where
  "sv39 mem root user su acc va =
     (if \<not> canonical va then None
      else case sv39_leaf mem root va 2 of None \<Rightarrow> None
      | Some (l, p) \<Rightarrow>
          if ppn p AND mask (9 * l) = 0 \<and> pte_a p \<and> leaf_permits acc p \<and> leaf_privileged user su acc p
          then Some (push_bit 12 (ppn p) + (va AND mask (12 + 9 * l))) else None)"

text \<open>What the code tells from what it does not: the leaves of the levels 0 and 1, these with the ninth bit of
  their page number clear, whose privilege allows the access.\<close>

definition leaf_supported :: "bool \<Rightarrow> bool \<Rightarrow> access \<Rightarrow> nat \<times> u64 \<Rightarrow> bool" where
  "leaf_supported user su acc lp \<longleftrightarrow> leaf_privileged user su acc (snd lp)
     \<and> (fst lp = 0 \<or> fst lp = 1 \<and> \<not> bit (ppn (snd lp)) 8)"

section \<open>The walk follows the tables\<close>

fun translate :: "access \<Rightarrow> (nat \<Rightarrow> u32) \<Rightarrow> pte_port \<Rightarrow> u64 \<Rightarrow> mmu \<Rightarrow> (u64 \<times> bool) option \<times> mmu_out list \<times> mmu" where
  "translate Fetch = insn_virt_to_phys"
| "translate Load = load_virt_to_phys"
| "translate Store = store_virt_to_phys"

fun access_bits :: "access \<Rightarrow> u32" where
  "access_bits Fetch = ACCESS_INSN" | "access_bits Load = ACCESS_LOAD" | "access_bits Store = ACCESS_STORE"

fun page_fault :: "access \<Rightarrow> nat" where
  "page_fault Fetch = 12" | "page_fault Load = 13" | "page_fault Store = 15"

text \<open>The event of the walk fires \<open>n\<close> times, as long as it is the callback of the core.\<close>

primrec mmu_run :: "(nat \<Rightarrow> u32) \<Rightarrow> pte_port \<Rightarrow> nat \<Rightarrow> mmu \<Rightarrow> mmu_out list \<times> mmu" where
  "mmu_run shl port 0 m = ([], m)"
| "mmu_run shl port (Suc n) m =
     (if \<not> exec_on_hold m then ([], m)
      else case handle_pte_stub shl port False m of (outs, m1) \<Rightarrow>
           case mmu_run shl port n m1 of (outs1, m2) \<Rightarrow> (outs @ outs1, m2))"

lemma get_field_mask: "width < 32 \<Longrightarrow> get_field shl f pos width = drop_bit pos f AND mask width"
proof -
  assume w: "width < 32"
  have "(scast (push_bit width 1 - 1 :: u32) :: u64) = mask width"
  proof (rule bit_word_eqI)
    fix n assume "n < LENGTH(64)"
    have "(push_bit width 1 - 1 :: u32) = mask width" by (simp add: mask_eq_exp_minus_1)
    then show "bit (scast (push_bit width 1 - 1 :: u32) :: u64) n = bit (mask width :: u64) n"
      using w \<open>n < LENGTH(64)\<close> by (auto simp: bit_signed_iff bit_mask_iff min_def)
  qed
  then show ?thesis using w by (simp add: get_field_def)
qed

lemma pte_page_ppn: "pte_page p = push_bit 12 (ppn p)"
proof -
  have "NOT MMU_PTE_ATTR = mask 54" unfolding MMU_PTE_ATTR_def by (simp add: mask_eq_exp_minus_1)
  then show ?thesis unfolding pte_page_def ppn_def MMU_PGSHIFT_def MMU_PTE_PPN_SHIFT_def
    by (intro bit_word_eqI) (auto simp: bit_simps)
qed

lemma attr_clear: "(p AND MMU_PTE_ATTR = 0) = (drop_bit 54 p = 0)"
proof -
  have "p AND MMU_PTE_ATTR = push_bit 54 (drop_bit 54 p)"
  proof (rule bit_word_eqI)
    fix n assume n: "n < LENGTH(64)"
    have m: "MMU_PTE_ATTR = NOT (mask 54)" unfolding MMU_PTE_ATTR_def by (simp add: mask_eq_exp_minus_1)
    have "bit MMU_PTE_ATTR n = (54 \<le> n)" unfolding m bit_not_iff bit_mask_iff using n by auto
    then show "bit (p AND MMU_PTE_ATTR) n = bit (push_bit 54 (drop_bit 54 p)) n" using n by (auto simp: bit_simps)
  qed
  moreover have "push_bit 54 x = 0 \<longleftrightarrow> x = 0" if "x = drop_bit 54 p" for x :: u64
  proof
    assume "push_bit 54 x = 0"
    then have "drop_bit 54 (push_bit 54 x) = 0" by simp
    moreover have "drop_bit 54 (push_bit 54 x) = x" unfolding that
      by (rule bit_word_eqI) (auto simp: bit_simps dest: bit_imp_le_length)
    ultimately show "x = 0" by simp
  qed simp
  ultimately show ?thesis by simp
qed

lemma valid_code: "(\<not> pte_v p \<or> (\<not> pte_r p \<and> pte_w p) \<or> p AND MMU_PTE_ATTR \<noteq> 0) = (\<not> pte_valid p)"
  unfolding attr_clear pte_valid_def by blast

text \<open>The state of a walk for an access at \<open>va\<close> from the instruction at \<open>pc\<close>, at level \<open>l\<close>, the interrupts locked
  \<open>n\<close> times before.\<close>

definition walking :: "access \<Rightarrow> u64 \<Rightarrow> u64 \<Rightarrow> int \<Rightarrow> nat \<Rightarrow> mmu \<Rightarrow> bool" where
  "walking acc va pc n l m \<longleftrightarrow> mm_current_level m = int l \<and> mm_current_vpn_bit m = 12 + 9 * int l \<and> mm_current_virt_addr m = va
     \<and> mm_access_type m = access_bits acc \<and> mm_stall_insn m = pc \<and> exec_stall_insn m = pc \<and> exec_current_insn m = pc
     \<and> exec_irq_locked m = n + 1 \<and> exec_on_hold m \<and> mm_pte_size m = 8 \<and> mm_vpn_width m = 9"

text \<open>How a walk ends.\<close>

definition walk_ends :: "(nat \<Rightarrow> u32) \<Rightarrow> access \<Rightarrow> u64 \<Rightarrow> u64 \<Rightarrow> int \<Rightarrow> u64 option \<Rightarrow> mmu_out list \<Rightarrow> mmu \<Rightarrow> bool" where
  "walk_ends shl acc va pc n r outs m \<longleftrightarrow> \<not> exec_on_hold m \<and> exec_irq_locked m = n \<and> exec_current_insn m = pc
     \<and> (case r of
          None \<Rightarrow> \<exists>reads. outs = map Read_pte reads @ [Stval va, Raise pc (page_fault acc)]
        | Some pa \<Rightarrow> \<exists>reads. outs = map Read_pte reads \<and> (\<forall>port. \<exists>u. translate acc shl port va m = (Some (pa, u), [], m)))"

lemma raise_levels_ends:
  "walking acc va pc n l m \<Longrightarrow> raise_exception (m\<lparr>mm_current_level := x, mm_current_vpn_bit := y\<rparr>) = (outs, m')
    \<Longrightarrow> walk_ends shl acc va pc n None outs m'"
  by (cases acc) (auto simp: walking_def raise_exception_def insn_resume_def walk_ends_def ACCESS_INSN_def ACCESS_LOAD_def ACCESS_STORE_def
    Let_def intro: exI[of _ "[]"])

lemma raise_ends: "walking acc va pc n l m \<Longrightarrow> raise_exception m = (outs, m') \<Longrightarrow> walk_ends shl acc va pc n None outs m'"
  using raise_levels_ends[where x = "mm_current_level m" and y = "mm_current_vpn_bit m"] by simp

lemma page_split: "push_bit 12 (drop_bit 12 va) + (va AND mask 12) = (va :: u64)"
  using bits_ident[of 12 va] by (simp add: take_bit_eq_mask)

lemma superpage_split: "push_bit 12 (vpn va 0) + (va AND mask 12) = va AND mask 21"
proof -
  have "push_bit 12 (take_bit 9 (drop_bit 12 va)) + take_bit 12 va = take_bit 21 va"
    using bits_ident[of 12 "take_bit 21 va"] by (simp add: drop_bit_take_bit)
  then show ?thesis by (simp only: vpn_def take_bit_eq_mask mult_0_right add_0_right)
qed

lemma fill_ends:
  assumes "walking acc va pc n l m" "mm_pte_value m = p" "fill_tlb base m = (outs, m')" "pte_valid p"
  shows "walk_ends shl acc va pc n (if pte_a p \<and> leaf_permits acc p then Some (base + (va AND mask 12)) else None) outs m'"
proof -
  have e: "va + (base - push_bit 12 (drop_bit 12 va)) = base + (va AND mask 12)"
  proof -
    have "va - push_bit 12 (drop_bit 12 va) = va AND mask 12" using page_split[of va] by (metis add_diff_cancel_left')
    then show ?thesis by (simp add: algebra_simps)
  qed
  have wr: "pte_w p \<Longrightarrow> pte_r p" using assms(4) by (simp add: pte_valid_def)
  show ?thesis
  proof (cases "pte_a p \<and> leaf_permits acc p")
    case True
    then show ?thesis using assms(1-3) wr e
      by (cases acc) (auto simp: fill_tlb_def walking_def walk_ends_def insn_resume_def insn_virt_to_phys_def load_virt_to_phys_def
        store_virt_to_phys_def ACCESS_INSN_def ACCESS_LOAD_def ACCESS_STORE_def MMU_PGSHIFT_def Let_def intro: exI[of _ "[]"])
  next
    case False
    then have "fill_tlb base m = raise_exception m" using assms(1,2)
      by (cases acc) (auto simp: fill_tlb_def walking_def ACCESS_INSN_def ACCESS_LOAD_def ACCESS_STORE_def Let_def)
    then show ?thesis using raise_ends[OF assms(1)] assms(3) False by auto
  qed
qed

lemma low_ppn:
  assumes "\<not> bit (ppn p) 8"
  shows "(ucast (get_field shl (push_bit 12 (ppn p)) 12 8) :: u32) = 0 \<longleftrightarrow> ppn p AND mask 9 = 0"
proof -
  have g: "get_field shl (push_bit 12 (ppn p)) 12 8 = ppn p AND mask 8"
    unfolding get_field_mask[of 8, simplified] ppn_def by (rule bit_word_eqI) (auto simp: bit_simps)
  have m: "ppn p AND mask 9 = ppn p AND mask 8"
    by (rule bit_word_eqI) (use assms in \<open>auto simp: bit_simps less_Suc_eq numeral_eq_Suc\<close>)
  have "unat (ppn p AND mask 8) < 2 ^ 8" by (rule and_mask_lt) simp
  then have "unat (ucast (ppn p AND mask 8) :: u32) = unat (ppn p AND mask 8)"
    by (simp add: unsigned_ucast_eq take_bit_nat_eq_self)
  then show ?thesis unfolding g m by (metis unat_eq_zero)
qed

lemma leaf_ends:
  assumes w: "walking acc va pc n l m" and p: "mm_pte_value m = p" "pte_valid p" "pte_r p \<or> pte_x p"
    and sup: "l = 0 \<or> l = 1 \<and> \<not> bit (ppn p) 8" and h: "handle_pte shl port m = (outs, m')"
  shows "walk_ends shl acc va pc n (if ppn p AND mask (9 * l) = 0 \<and> pte_a p \<and> leaf_permits acc p
      then Some (push_bit 12 (ppn p) + (va AND mask (12 + 9 * l))) else None) outs m'"
proof (cases "l = 0")
  case True
  then have "fill_tlb (push_bit 12 (ppn p)) m = (outs, m')"
    using w p h valid_code[of p] by (auto simp: handle_pte_def walking_def pte_page_ppn Let_def)
  from fill_ends[OF w p(1) this p(2), of shl] show ?thesis using True by (auto split: if_splits)
next
  case False
  then have l: "l = 1" "\<not> bit (ppn p) 8" using sup by auto
  have lev: "mm_current_level m = 1" "mm_pte_size m = 8" "mm_vpn_width m = 9" "mm_current_virt_addr m = va"
    using w l(1) by (simp_all add: walking_def)
  have h1: "handle_pte shl port m = (if (ucast (get_field shl (push_bit 12 (ppn p)) 12 8) :: u32) \<noteq> 0 then raise_exception m
      else fill_tlb (push_bit 12 (ppn p) + push_bit 12 (get_field shl va 12 9)) m)"
    unfolding handle_pte_def Let_def p(1) valid_code using p(2,3) by (simp add: lev pte_page_ppn MMU_PGSHIFT_def)
  have v: "get_field shl va 12 9 = vpn va 0" unfolding get_field_mask[of 9, simplified] by (simp add: vpn_def)
  have e: "push_bit 12 (ppn p) + push_bit 12 (vpn va 0) + (va AND mask 12) = push_bit 12 (ppn p) + (va AND mask 21)"
    using superpage_split[of va] by (simp add: add.assoc)
  show ?thesis
  proof (cases "ppn p AND mask 9 = 0")
    case True
    then have "fill_tlb (push_bit 12 (ppn p) + push_bit 12 (vpn va 0)) m = (outs, m')" using h h1 low_ppn[OF l(2)] v by simp
    from fill_ends[OF w p(1) this p(2), of shl, unfolded e] show ?thesis using True l(1) by (auto split: if_splits)
  next
    case False
    then have "raise_exception m = (outs, m')" using h h1 low_ppn[OF l(2)] by simp
    from raise_ends[OF w this] show ?thesis using False l(1) by simp
  qed
qed

text \<open>What the walk makes of the leaf, when there is one.\<close>

definition leaf_result :: "access \<Rightarrow> u64 \<Rightarrow> (nat \<times> u64) option \<Rightarrow> u64 option" where
  "leaf_result acc va lf = (case lf of None \<Rightarrow> None
     | Some (l, p) \<Rightarrow> if ppn p AND mask (9 * l) = 0 \<and> pte_a p \<and> leaf_permits acc p
                    then Some (push_bit 12 (ppn p) + (va AND mask (12 + 9 * l))) else None)"

lemma walk_ends_reads: "walk_ends shl acc va pc n r outs m \<Longrightarrow> walk_ends shl acc va pc n r (Read_pte a # outs) m"
  unfolding walk_ends_def
  by (auto split: option.splits intro: exI[of _ "a # _"])

lemma run_walk:
  assumes "walking acc va pc n l m" "mm_pte_value m = mem (base + vpn va l * 8)"
    "\<And>k p. sv39_leaf mem base va l = Some (k, p) \<Longrightarrow> k = 0 \<or> k = 1 \<and> \<not> bit (ppn p) 8"
    "mmu_run shl (\<lambda>a. Pte_ok (mem a)) (Suc l) m = (outs, m')"
  shows "walk_ends shl acc va pc n (leaf_result acc va (sv39_leaf mem base va l)) outs m'"
  using assms
proof (induction l arbitrary: m base outs m')
  case (0 m base outs m')
  define p where "p = mem (base + vpn va 0 * 8)"
  note w = 0(1) and pv = 0(2)[folded p_def]
  have hold: "exec_on_hold m" using w by (simp add: walking_def)
  obtain o1 m1 where h: "handle_pte shl (\<lambda>a. Pte_ok (mem a)) m = (o1, m1)" by fastforce
  then have r: "outs = o1" "m' = m1" using 0(4) hold by (auto simp: handle_pte_stub_def split: prod.splits)
  show ?case
  proof (cases "pte_valid p \<and> (pte_r p \<or> pte_x p)")
    case True
    then show ?thesis using leaf_ends[OF w pv _ _ _ h] r by (simp add: leaf_result_def p_def[symmetric] Let_def)
  next
    case False
    define m2 where "m2 = m\<lparr>mm_current_level := mm_current_level m - 1, mm_current_vpn_bit := mm_current_vpn_bit m - mm_vpn_width m\<rparr>"
    have "raise_exception m = (o1, m1) \<or> raise_exception m2 = (o1, m1)"
      using h False w unfolding handle_pte_def Let_def pv valid_code m2_def
      by (auto simp: walking_def split: if_splits)
    then have "walk_ends shl acc va pc n None o1 m1" using raise_ends[OF w] raise_levels_ends[OF w] unfolding m2_def by blast
    moreover have "sv39_leaf mem base va 0 = None" using False by (simp add: p_def[symmetric] Let_def)
    ultimately show ?thesis using r by (simp add: leaf_result_def)
  qed
next
  case (Suc l m base outs m')
  define p where "p = mem (base + vpn va (Suc l) * 8)"
  note w = Suc.prems(1) and pv = Suc.prems(2)[folded p_def]
  have hold: "exec_on_hold m" using w by (simp add: walking_def)
  obtain o1 m1 where h: "handle_pte shl (\<lambda>a. Pte_ok (mem a)) m = (o1, m1)" by fastforce
  obtain o2 m2 where r2: "mmu_run shl (\<lambda>a. Pte_ok (mem a)) (Suc l) m1 = (o2, m2)" by fastforce
  have r: "outs = o1 @ o2" "m' = m2" using Suc.prems(4) hold h r2
    unfolding mmu_run.simps(2)[where n = "Suc l"] by (simp_all add: handle_pte_stub_def del: mmu_run.simps)
  have stop: "o2 = [] \<and> m2 = m1" if "\<not> exec_on_hold m1" using r2 that by simp
  consider "\<not> pte_valid p" | "pte_valid p" "pte_r p \<or> pte_x p" | "pte_valid p" "\<not> (pte_r p \<or> pte_x p)" by blast
  then show ?case
  proof cases
    case 1
    then have "raise_exception m = (o1, m1)" using h unfolding handle_pte_def Let_def pv valid_code by simp
    from raise_ends[OF w this, of shl] have "walk_ends shl acc va pc n None o1 m1" .
    then show ?thesis using r stop 1 by (simp add: leaf_result_def p_def[symmetric] Let_def walk_ends_def)
  next
    case 2
    have sup: "Suc l = 0 \<or> Suc l = 1 \<and> \<not> bit (ppn p) 8"
      using Suc.prems(3)[of "Suc l" p] 2 by (simp add: p_def[symmetric] Let_def)
    have "walk_ends shl acc va pc n (leaf_result acc va (Some (Suc l, p))) o1 m1"
      unfolding leaf_result_def option.case prod.case by (rule leaf_ends[OF w pv 2 sup h])
    moreover have "\<not> exec_on_hold m1" using calculation by (simp add: walk_ends_def)
    ultimately show ?thesis using r stop 2 by (simp add: p_def[symmetric] Let_def)
  next
    case 3
    define a where "a = push_bit 12 (ppn p) + vpn va l * 8"
    have s: "sv39_leaf mem base va (Suc l) = sv39_leaf mem (push_bit 12 (ppn p)) va l"
      using 3 by (simp add: p_def[symmetric] Let_def)
    have "get_field shl va (12 + 9 * l) 9 = vpn va l" unfolding get_field_mask[of 9, simplified] by (simp add: vpn_def)
    then have "handle_pte shl (\<lambda>a. Pte_ok (mem a)) m = ([Read_pte a],
        m\<lparr>mm_current_level := int l, mm_current_vpn_bit := 12 + 9 * int l, mm_pte_value := mem a\<rparr>)"
      using w 3 unfolding handle_pte_def Let_def pv valid_code
      by (simp add: walking_def pte_page_ppn read_pte_def a_def nat_add_distrib nat_mult_distrib)
    then have m1: "o1 = [Read_pte a]" "m1 = m\<lparr>mm_current_level := int l, mm_current_vpn_bit := 12 + 9 * int l, mm_pte_value := mem a\<rparr>"
      using h by simp_all
    have "walk_ends shl acc va pc n (leaf_result acc va (sv39_leaf mem (push_bit 12 (ppn p)) va l)) o2 m2"
      by (rule Suc.IH[OF _ _ _ r2]) (use w m1 Suc.prems(3) s in \<open>auto simp: walking_def a_def\<close>)
    then show ?thesis unfolding s r m1(1) using walk_ends_reads by simp
  qed
qed

section \<open>Properties\<close>

text \<open>C7: The page walk. On a core that translates, an access that misses the TLB reads the tables and ends
  within three entries; then, for a canonical address and a supported leaf, it has come to the result of
  Sv39 for the privilege of the access (that of the core, or \<open>MPP\<close> for data under \<open>MPRV\<close>) and any \<open>SUM\<close>, \<open>MXR\<close>
  clear. A leaf is supported when its bit \<open>U\<close> allows the access from that privilege, and it is a page of 4 KB, or
  one of 2 MB with bit 8 of its page number clear: outside of these the code, which checks neither, leaves Sv39. Either the same access now hits the TLB with the physical address of Sv39 and no exception was
  raised, or it raised the page fault of the access, once, with the address in \<open>stval\<close> and the address of the
  instruction; in both cases the core goes on at the instruction with the interrupts as before.\<close>

theorem mmu_walk_sv39:
  assumes "access_priv acc m \<noteq> 3" "mm_mode m = MMU_MODE_SV39"
    "mm_nb_levels m = 3" "mm_pte_size m = 8" "mm_vpn_width m = 9"
    and "canonical va" "\<And>lp. sv39_leaf mem (mm_pt_base m) va 2 = Some lp \<Longrightarrow> leaf_supported (access_priv acc m = 0) su acc lp"
    and "translate acc shl (\<lambda>a. Pte_ok (mem a)) va m = (None, outs1, m1)"
    and "mmu_run shl (\<lambda>a. Pte_ok (mem a)) 3 m1 = (outs2, m2)"
  shows "walk_ends shl acc va (exec_current_insn m) (exec_irq_locked m) (sv39 mem (mm_pt_base m) (access_priv acc m = 0) su acc va) (outs1 @ outs2) m2"
proof -
  define a where "a = mm_pt_base m + vpn va 2 * 8"
  have g: "get_field shl va 30 9 = vpn va 2" unfolding get_field_mask[of 9, simplified] by (simp add: vpn_def)
  have "walk_pgtab shl (\<lambda>a. Pte_ok (mem a)) va (m\<lparr>mm_access_type := access_bits acc\<rparr>) = (outs1, m1)"
    using assms(1,2,8) by (cases acc) (auto simp: insn_virt_to_phys_def load_virt_to_phys_def store_virt_to_phys_def virt_to_phys_miss_def access_priv_def
      MMU_MODE_SV39_def MMU_MODE_OFF_def ACCESS_INSN_def ACCESS_LOAD_def ACCESS_STORE_def Let_def split: if_splits prod.splits)
  then have o1: "outs1 = [Read_pte a]" and m1: "walking acc va (exec_current_insn m) (exec_irq_locked m) 2 m1" "mm_pte_value m1 = mem a"
    using assms(3-5) g by (auto simp: walk_pgtab_def read_pte_def insn_hold_def walking_def MMU_PGSHIFT_def a_def Let_def)
  have lf: "k = 0 \<or> k = 1 \<and> \<not> bit (ppn p) 8" "leaf_privileged (access_priv acc m = 0) su acc p" if "sv39_leaf mem (mm_pt_base m) va 2 = Some (k, p)" for k p
    using assms(7)[OF that] by (auto simp: leaf_supported_def)
  have "walk_ends shl acc va (exec_current_insn m) (exec_irq_locked m) (leaf_result acc va (sv39_leaf mem (mm_pt_base m) va 2)) outs2 m2"
    using run_walk[where mem = mem and base = "mm_pt_base m" and l = 2, OF m1(1) m1(2)[unfolded a_def], of shl outs2 m2] lf(1) assms(9) by (simp add: numeral_3_eq_3 del: mmu_run.simps)
  moreover have "leaf_result acc va (sv39_leaf mem (mm_pt_base m) va 2) = sv39 mem (mm_pt_base m) (access_priv acc m = 0) su acc va"
    using assms(6) lf(2) by (auto simp: leaf_result_def sv39_def split: option.splits)
  ultimately show ?thesis using walk_ends_reads o1 by simp
qed

text \<open>What the walk does not check: neither that the address is canonical nor that the page may be accessed from the
  privilege of the core (the bit \<open>U\<close>). The walk ends the same way without them.\<close>

theorem mmu_privilege_unchecked:
  assumes "walking acc va pc n 2 m1" "mm_pte_value m1 = mem (root + vpn va 2 * 8)" "sv39_leaf mem root va 2 = Some (0, p)"
    "pte_a p" "leaf_permits acc p" "mmu_run shl (\<lambda>a. Pte_ok (mem a)) 3 m1 = (outs, m2)"
  shows "walk_ends shl acc va pc n (Some (push_bit 12 (ppn p) + (va AND mask 12))) outs m2"
  using run_walk[where mem = mem and base = root and l = 2, OF assms(1,2), of shl outs m2] assms(3-6)
  by (simp add: leaf_result_def numeral_3_eq_3 del: mmu_run.simps)

text \<open>The TLB is not flushed when the privilege changes: the identity translation of an access made in machine mode is
  used by the other modes, whatever the tables say.\<close>

theorem mmu_machine_translation_kept:
  assumes "core_priv m = 3" "va < 0x80000000000" "tlb_insn_tag m (drop_bit 12 va AND 0xff) \<noteq> drop_bit 12 va"
    "insn_virt_to_phys shl port va m = (r, outs, m1)"
  shows "insn_virt_to_phys shl port' va (m1\<lparr>core_priv := 0, mm_mode := MMU_MODE_SV39\<rparr>) = (Some (va, False), [], m1\<lparr>core_priv := 0, mm_mode := MMU_MODE_SV39\<rparr>)"
proof -
  have "unat (drop_bit 12 va) < 2 ^ 31" using assms(2) by (simp add: drop_bit_unat word_less_nat_alt)
  then have t: "take_bit 31 (drop_bit 12 va) = drop_bit 12 va"
    by (simp add: word_unat_eq_iff unsigned_take_bit_eq take_bit_nat_eq_self)
  have small: "bit (drop_bit 12 va) k \<Longrightarrow> k < 31" for k by (subst (asm) t[symmetric]) (simp add: bit_take_bit_iff)
  have "(scast (ucast (drop_bit 12 va) :: u32) :: u64) = drop_bit 12 va"
  proof (rule bit_word_eqI)
    fix n assume "n < LENGTH(64)"
    then show "bit (scast (ucast (drop_bit 12 va) :: u32) :: u64) n = bit (drop_bit 12 va) n"
      using small[of n] small[of 31] by (auto simp: bit_signed_iff bit_ucast_iff min_def)
  qed
  then show ?thesis using assms(1,3,4)
    by (auto simp: insn_virt_to_phys_def virt_to_phys_miss_def MMU_PGSHIFT_def MMU_TLB_ENTRIES_MASK_def ACCESS_INSN_def Let_def)
qed

text \<open>A page of 1 GB is translated as one of 2 MB: the second field of the page number is lost.\<close>

theorem mmu_gigapage_wrong:
  assumes "walking acc va pc n 2 m" "mm_pte_value m = p" "pte_valid p" "pte_r p \<or> pte_x p" "ppn p AND mask 18 = 0" "pte_a p" "leaf_permits acc p"
  shows "\<exists>m' u. handle_pte shl port m = ([], m')
    \<and> translate acc shl port va m' = (Some (push_bit 12 (ppn p) + (va AND mask 21), u), [], m')"
proof -
  have "get_field shl (push_bit 12 (ppn p)) 12 16 = 0"
  proof -
    have "ppn p AND mask 16 = (ppn p AND mask 18) AND mask 16" by (rule bit_word_eqI) (auto simp: bit_simps)
    then have "ppn p AND mask 16 = 0" using assms(5) by simp
    moreover have "drop_bit 12 (push_bit 12 (ppn p)) = ppn p" unfolding ppn_def by (rule bit_word_eqI) (auto simp: bit_simps)
    ultimately show ?thesis unfolding get_field_mask[of 16, simplified] by simp
  qed
  then have h: "handle_pte shl port m = fill_tlb (push_bit 12 (ppn p) + push_bit 12 (get_field shl va 12 9)) m"
    using assms(1) unfolding handle_pte_def Let_def assms(2) valid_code using assms(3,4)
    by (simp add: walking_def pte_page_ppn MMU_PGSHIFT_def)
  have v: "get_field shl va 12 9 = vpn va 0" unfolding get_field_mask[of 9, simplified] by (simp add: vpn_def)
  have e: "push_bit 12 (ppn p) + push_bit 12 (vpn va 0) + (va AND mask 12) = push_bit 12 (ppn p) + (va AND mask 21)"
    using superpage_split[of va] by (simp add: add.assoc)
  obtain outs m' where f: "fill_tlb (push_bit 12 (ppn p) + push_bit 12 (vpn va 0)) m = (outs, m')" by fastforce
  from fill_ends[OF assms(1,2) f assms(3), of shl, unfolded e] have "walk_ends shl acc va pc n (Some (push_bit 12 (ppn p) + (va AND mask 21))) outs m'"
    using assms(6,7) by simp
  moreover have "outs = []" using f assms(1,2,6,7) by (cases acc) (auto simp: fill_tlb_def walking_def ACCESS_INSN_def ACCESS_LOAD_def ACCESS_STORE_def Let_def)
  ultimately show ?thesis using h v f unfolding walk_ends_def by auto
qed

text \<open>The base of the tables goes through a shift of 44 on 32 bits, which is undefined.\<close>

theorem mmu_satp_base_undefined:
  assumes "\<not> (core_priv m = 1 \<and> core_tvm m)" "drop_bit 60 v = 8"
  shows "mm_pt_base (snd (snd (satp_update shl True v m))) = push_bit 12 (v AND scast (shl 44 - 1))"
proof -
  have "get_field shl v 60 4 = 8" unfolding get_field_mask[of 4, simplified] assms(2) by (simp add: mask_eq_exp_minus_1)
  then show ?thesis using assms(1) by (auto simp: satp_update_def MMU_MODE_SV39_def mmu_flush_def get_field_def Let_def)
qed

section \<open>Examples\<close>

text \<open>Three tables, a page of 4 KB.\<close>

definition demo_tables :: "u64 \<Rightarrow> u64" where
  "demo_tables a = (if a = 0x1000 then 0x801 else if a = 0x2000 then 0xC01 else if a = 0x3008 then 0x200CF else 0)"

definition demo_mmu :: mmu where
  "demo_mmu = \<lparr>mm_satp = 0, mm_pt_base = 0x1000, mm_asid = 0, mm_mode = 8, mm_nb_levels = 3, mm_pte_size = 8, mm_vpn_width = 9,
     tlb_insn_tag = (\<lambda>_. -1), tlb_insn_phys_addr = (\<lambda>_. 0), tlb_load_tag = (\<lambda>_. -1), tlb_load_use_mem_array = (\<lambda>_. False),
     tlb_store_tag = (\<lambda>_. -1), tlb_ls_phys_addr = (\<lambda>_. 0), mm_current_level = 0, mm_current_vpn_bit = 0, mm_current_virt_addr = 0,
     mm_pte_value = 0, mm_access_type = 0, mm_stall_insn = 0, core_priv = 1, core_mprv = False, core_mpp = 0, core_tvm = False,
     lsu_memory_start = 0, lsu_memory_end = 0, exec_current_insn = 0x80, exec_stall_insn = 0, exec_irq_locked = 0, exec_on_hold = False\<rparr>"

lemma demo_leaf: "sv39_leaf demo_tables 0x1000 0x1234 2 = Some (0, 0x200CF)"
proof -
  have v: "vpn 0x1234 2 = 0" "vpn 0x1234 1 = 0" "vpn 0x1234 0 = 1" by (simp_all add: vpn_def mask_eq_exp_minus_1)
  have p: "ppn 0x801 = 2" "ppn 0xC01 = 3" by (simp_all add: ppn_def mask_eq_exp_minus_1)
  have l: "pte_valid 0x801" "pte_valid 0xC01" "pte_valid 0x200CF" by (simp_all add: pte_valid_def)
  note leaf2 = sv39_leaf.simps(2)[of demo_tables "0x1000" "0x1234" 1, unfolded Suc_1]
  note leaf1 = sv39_leaf.simps(2)[of demo_tables "0x2000" "0x1234" 0, unfolded One_nat_def[symmetric]]
  have "sv39_leaf demo_tables 0x3000 0x1234 0 = Some (0, 0x200CF)" by (simp add: v l demo_tables_def Let_def)
  then have "sv39_leaf demo_tables 0x2000 0x1234 1 = Some (0, 0x200CF)" by (simp add: leaf1 v v[unfolded One_nat_def] p l demo_tables_def Let_def)
  then show ?thesis by (simp add: leaf2 v p l demo_tables_def Let_def)
qed

theorem mmu_walk_sv39_witness:
  "\<exists>outs1 m1 outs2 m2 u. translate Load (\<lambda>_. 0) (\<lambda>a. Pte_ok (demo_tables a)) 0x1234 demo_mmu = (None, outs1, m1)
     \<and> mmu_run (\<lambda>_. 0) (\<lambda>a. Pte_ok (demo_tables a)) 3 m1 = (outs2, m2)
     \<and> translate Load (\<lambda>_. 0) (\<lambda>a. Pte_ok (demo_tables a)) 0x1234 m2 = (Some (0x80234, u), [], m2)"
proof -
  have "fst (translate Load (\<lambda>_. 0) (\<lambda>a. Pte_ok (demo_tables a)) 0x1234 demo_mmu) = None"
    by (simp add: load_virt_to_phys_def virt_to_phys_miss_def demo_mmu_def MMU_PGSHIFT_def MMU_MODE_OFF_def split: prod.splits)
  then obtain outs1 m1 where t: "translate Load (\<lambda>_. 0) (\<lambda>a. Pte_ok (demo_tables a)) 0x1234 demo_mmu = (None, outs1, m1)"
    by (metis prod.collapse)
  obtain outs2 m2 where r: "mmu_run (\<lambda>_. 0) (\<lambda>a. Pte_ok (demo_tables a)) 3 m1 = (outs2, m2)" by fastforce
  have d: "access_priv Load demo_mmu = 1" "mm_mode demo_mmu = MMU_MODE_SV39"
    "mm_nb_levels demo_mmu = 3" "mm_pte_size demo_mmu = 8" "mm_vpn_width demo_mmu = 9" "mm_pt_base demo_mmu = 0x1000"
    by (simp_all add: demo_mmu_def MMU_MODE_SV39_def access_priv_def)
  have c: "canonical 0x1234" by (simp add: canonical_def)
  have pv: "leaf_privileged False False Load 0x200CF" by (simp add: leaf_privileged_def)
  have "sv39 demo_tables 0x1000 False False Load 0x1234 = Some 0x80234"
    using c demo_leaf pv by (simp add: sv39_def ppn_def mask_eq_exp_minus_1)
  moreover have "walk_ends (\<lambda>_. 0) Load 0x1234 (exec_current_insn demo_mmu) (exec_irq_locked demo_mmu)
      (sv39 demo_tables (mm_pt_base demo_mmu) (access_priv Load demo_mmu = 0) False Load 0x1234) (outs1 @ outs2) m2"
    by (rule mmu_walk_sv39[OF _ d(2-5) c _ t r]) (use demo_leaf pv d(1,6) in \<open>auto simp: leaf_supported_def\<close>)
  ultimately show ?thesis using t r unfolding walk_ends_def d(6) d(1) by auto
qed

end
