(* ===== verification/CacheV4.thy ===== *)
theory CacheV4 imports LogIcoV2 begin

text \<open>
  The set-associative cache (\<open>src/models/cache/cache_v4.cpp\<close>): hits and misses, one refill in flight, the
  queue of the requests that wait for it, the bypass when it is disabled, flushes, and the pseudo-random
  choice of the way. A request carries the content of its data buffer (\<open>None\<close> for a null pointer).
  \<open>port\<close> is what is bound to the refill port; what it writes in the buffer of a request it completes is
  part of its answer. The data of a refill that is answered later are put in the line at the
  response: no line is looked up in between. The requests of the master from inside \<open>resp()\<close> are steps of
  their own. \<open>now\<close> is the cycle, \<open>None\<close> a copy out of a line or of a buffer, or the failed assertion.
\<close>

section \<open>State\<close>

record creq = io_req +
  c_id :: nat
  c_bytes :: "bytes option"

record cache_answer = io_answer +
  a_bytes :: bytes

record cache_cfg =
  cc_size :: nat
  cc_line_size :: nat
  cc_ways :: nat
  cc_enabled :: bool
  cc_refill_shift :: nat
  cc_refill_offset :: u64
  cc_refill_latency :: int

record cache_line =
  cn_tag :: u32
  cn_data :: bytes
  cn_timestamp :: int

record cache =
  ca_enabled :: bool
  ca_refill_addr :: u64       \<comment> \<open>the address of \<open>refill_req\<close>\<close>
  ca_queue :: "creq list"
  ca_pending_refill :: bool
  ca_fsm_event :: bool
  ca_refill_timestamp :: int
  ca_lru_out :: u8
  ca_flush_line_addr :: u32
  ca_lines :: "nat \<Rightarrow> cache_line"
  ca_refill_line :: nat
  ca_refill_tag :: u32
  ca_pending_line_offset :: nat
  ca_refill_retry_pending :: bool
  ca_input_needs_retry :: bool

definition ceil_log2 :: "nat \<Rightarrow> nat" where
  "ceil_log2 n = (if n \<le> 1 then 0 else 32 - clz32 (n - 1))"

definition line_size_bits :: "cache_cfg \<Rightarrow> nat" where "line_size_bits c = ceil_log2 (cc_line_size c)"
definition nb_sets :: "cache_cfg \<Rightarrow> nat" where "nb_sets c = cc_size c div cc_ways c div cc_line_size c"

definition Cache :: "cache_cfg \<Rightarrow> (nat \<Rightarrow> bytes) \<Rightarrow> cache" where
  "Cache c bufs = \<lparr>ca_enabled = False, ca_refill_addr = 0, ca_queue = [], ca_pending_refill = False, ca_fsm_event = False,
     ca_refill_timestamp = -1, ca_lru_out = 0, ca_flush_line_addr = 0,
     ca_lines = (\<lambda>k. \<lparr>cn_tag = -1, cn_data = bufs k, cn_timestamp = -1\<rparr>),
     ca_refill_line = 0, ca_refill_tag = 0, ca_pending_line_offset = 0, ca_refill_retry_pending = False,
     ca_input_needs_retry = False\<rparr>"

section \<open>Flush and enable\<close>

text \<open>The values driven on the acknowledge wire are part of the result.\<close>

definition cache_flush :: "bool \<Rightarrow> cache \<Rightarrow> bool list \<times> cache" where
  "cache_flush bound s = (if bound then [True] else [], s\<lparr>ca_lines := (\<lambda>k. (ca_lines s k)\<lparr>cn_tag := -1\<rparr>)\<rparr>)"

definition set_lines :: "cache_cfg \<Rightarrow> u32 \<Rightarrow> nat list" where
  "set_lines c line_index = map (\<lambda>i. unat line_index * cc_ways c + i) [0..<cc_ways c]"

definition flush_line_op :: "cache_cfg \<Rightarrow> u32 \<Rightarrow> cache \<Rightarrow> cache" where
  "flush_line_op c addr s =
     (let tag = drop_bit (line_size_bits c) addr;
          line_index = tag AND (of_nat (nb_sets c) - 1)
      in s\<lparr>ca_lines := (\<lambda>k. if k \<in> set (set_lines c line_index) \<and> cn_tag (ca_lines s k) = tag
                             then (ca_lines s k)\<lparr>cn_tag := -1\<rparr> else ca_lines s k)\<rparr>)"

definition cache_enable :: "bool \<Rightarrow> cache \<Rightarrow> cache" where "cache_enable e s = s\<lparr>ca_enabled := e\<rparr>"

definition enable_sync :: "bool \<Rightarrow> cache \<Rightarrow> cache" where "enable_sync active s = cache_enable active s"

definition flush_sync :: "bool \<Rightarrow> bool \<Rightarrow> cache \<Rightarrow> bool list \<times> cache" where
  "flush_sync bound active s = (if active then cache_flush bound s else ([], s))"

definition flush_line_sync :: "cache_cfg \<Rightarrow> bool \<Rightarrow> cache \<Rightarrow> cache" where
  "flush_line_sync c active s = (if active then flush_line_op c (ca_flush_line_addr s) s else s)"

definition flush_line_addr_sync :: "u32 \<Rightarrow> cache \<Rightarrow> cache" where
  "flush_line_addr_sync addr s = s\<lparr>ca_flush_line_addr := addr\<rparr>"

definition cache_reset :: "cache_cfg \<Rightarrow> bool \<Rightarrow> bool \<Rightarrow> cache \<Rightarrow> bool list \<times> cache" where
  "cache_reset c bound active s =
     (if active
      then (let (acks, s1) = cache_flush bound s
            in (acks, s1\<lparr>ca_enabled := cc_enabled c, ca_refill_retry_pending := False, ca_input_needs_retry := False,
                         ca_refill_timestamp := -1\<rparr>))
      else ([], s))"

section \<open>Hits, misses and refills\<close>

definition step_lru :: "cache_cfg \<Rightarrow> cache \<Rightarrow> nat \<times> cache" where
  "step_lru c s =
     (let l = ca_lru_out s;
          feedback = \<not> (bit l 7 \<noteq> (bit l 3 \<noteq> (bit l 2 \<noteq> bit l 1)));
          l1 = push_bit 1 l OR of_bool feedback
      in (unat (drop_bit 1 (ucast l1 :: u32) AND (of_nat (cc_ways c) - 1)), s\<lparr>ca_lru_out := l1\<rparr>))"

text \<open>The index of the set, the tag, the offset in the line, and the line that holds the tag.\<close>

definition get_line :: "cache_cfg \<Rightarrow> u64 \<Rightarrow> cache \<Rightarrow> u32 \<times> u32 \<times> nat \<times> nat option" where
  "get_line c offset s =
     (let tag = ucast (drop_bit (line_size_bits c) offset);
          line_index = tag AND (of_nat (nb_sets c) - 1);
          line_offset = unat (offset AND (push_bit (line_size_bits c) 1 - 1))
      in (line_index, tag, line_offset, List.find (\<lambda>k. cn_tag (ca_lines s k) = tag) (set_lines c line_index)))"

definition full_addr :: "cache_cfg \<Rightarrow> u32 \<Rightarrow> u32" where
  "full_addr c addr = push_bit (cc_refill_shift c) (addr AND NOT (push_bit (line_size_bits c) 1 - 1)) + ucast (cc_refill_offset c)"

definition fill_req :: "cache_cfg \<Rightarrow> u32 \<Rightarrow> bytes \<Rightarrow> creq" where
  "fill_req c a d = \<lparr>r_addr = ucast a, r_size = push_bit (line_size_bits c) 1, r_is_write = False, r_opcode = READ, r_data = 0,
     r_latency = 0, r_resp = IO_RESP_OK, r_remaining = 0, r_parent = 0, r_is_first = True, r_is_last = True,
     c_id = 0, c_bytes = Some d\<rparr>"

type_synonym refill_port = "creq \<Rightarrow> cache_answer"

definition cache_refill ::
  "cache_cfg \<Rightarrow> refill_port \<Rightarrow> int \<Rightarrow> u32 \<Rightarrow> u32 \<Rightarrow> u32 \<Rightarrow> creq \<Rightarrow> cache \<Rightarrow> nat option \<times> bool \<times> creq \<times> cache" where
  "cache_refill c port now line_index addr tag cpu_req s =
     (if ca_pending_refill s then (None, True, cpu_req, s\<lparr>ca_queue := ca_queue s @ [cpu_req]\<rparr>)
      else
       (let (r, s1) = step_lru c s;
            k = unat line_index * cc_ways c + r mod cc_ways c;
            a = full_addr c addr;
            s2 = s1\<lparr>ca_refill_addr := ucast a\<rparr>;
            ans = port (fill_req c a (cn_data (ca_lines s k)))
        in case a_status ans of
             IO_REQ_GRANTED \<Rightarrow> (None, True, cpu_req,
               s2\<lparr>ca_queue := cpu_req # ca_queue s2, ca_refill_line := k, ca_refill_tag := tag, ca_pending_refill := True\<rparr>)
           | IO_REQ_DENIED \<Rightarrow> (None, False, cpu_req, s2\<lparr>ca_refill_retry_pending := True\<rparr>)
           | IO_REQ_DONE \<Rightarrow>
               (let latency = (if now < ca_refill_timestamp s2 then ca_refill_timestamp s2 - now else 0)
                              + a_latency ans + cc_refill_latency c
                in (Some k, False, cpu_req\<lparr>r_latency := r_latency cpu_req + latency\<rparr>,
                    s2\<lparr>ca_lines := (ca_lines s2)(k := \<lparr>cn_tag = tag, cn_data = a_bytes ans, cn_timestamp = now + latency\<rparr>),
                       ca_refill_timestamp := now + latency\<rparr>))))"

text \<open>The copy between the buffer of a request and a line.\<close>

definition line_copy :: "nat \<Rightarrow> creq \<Rightarrow> bytes \<Rightarrow> (creq \<times> bytes) option" where
  "line_copy off q line =
     (case c_bytes q of None \<Rightarrow> Some (q, line)
      | Some d \<Rightarrow>
          if \<not> r_is_write q
          then Option.bind (bslice off (unat (r_size q)) line) (\<lambda>bs.
               map_option (\<lambda>d1. (q\<lparr>c_bytes := Some d1\<rparr>, line)) (blit 0 (unat (r_size q)) bs d))
          else map_option (\<lambda>line1. (q, line1)) (blit off (unat (r_size q)) d line))"

definition line_access :: "nat \<Rightarrow> nat \<Rightarrow> creq \<Rightarrow> cache \<Rightarrow> (creq \<times> cache) option" where
  "line_access k off q s =
     map_option (\<lambda>(q1, line). (q1, s\<lparr>ca_lines := (ca_lines s)(k := (ca_lines s k)\<lparr>cn_data := line\<rparr>)\<rparr>))
       (line_copy off q (cn_data (ca_lines s k)))"

definition handle_req :: "cache_cfg \<Rightarrow> refill_port \<Rightarrow> int \<Rightarrow> creq \<Rightarrow> cache \<Rightarrow> (io_status \<times> creq \<times> cache) option" where
  "handle_req c port now req s =
     (case get_line c (r_addr req) s of (line_index, tag, line_offset, hit) \<Rightarrow>
      case hit of
        None \<Rightarrow>
         (case cache_refill c port now line_index (ucast (r_addr req)) tag req s of (line, pending, req1, s1) \<Rightarrow>
          case line of
            None \<Rightarrow> if pending then Some (IO_REQ_GRANTED, req1, s1\<lparr>ca_pending_line_offset := line_offset\<rparr>)
                    else Some (IO_REQ_DENIED, req1, s1)
          | Some k \<Rightarrow> map_option (\<lambda>(q, s2). (IO_REQ_DONE, q, s2)) (line_access k line_offset req1 s1))
      | Some k \<Rightarrow>
         (let t = cn_timestamp (ca_lines s k);
              req1 = (if now < t then req\<lparr>r_latency := r_latency req + (t - now)\<rparr> else req)
          in map_option (\<lambda>(q, s2). (IO_REQ_DONE, q, s2)) (line_access k line_offset req1 s)))"

definition check_state :: "cache \<Rightarrow> cache" where
  "check_state s =
     (if \<not> ca_pending_refill s \<and> \<not> ca_refill_retry_pending s \<and> ca_queue s \<noteq> [] then s\<lparr>ca_fsm_event := True\<rparr> else s)"

text \<open>The request as a forwarded access leaves it.\<close>

definition forwarded :: "cache_answer \<Rightarrow> creq \<Rightarrow> creq" where
  "forwarded a q = q\<lparr>r_latency := a_latency a, r_resp := a_resp a,
     c_bytes := (if a_status a = IO_REQ_DONE \<and> \<not> r_is_write q then map_option (\<lambda>_. a_bytes a) (c_bytes q) else c_bytes q)\<rparr>"

definition cache_input_req :: "cache_cfg \<Rightarrow> refill_port \<Rightarrow> int \<Rightarrow> creq \<Rightarrow> cache \<Rightarrow> (io_status \<times> creq \<times> cache) option" where
  "cache_input_req c port now req s =
     (if \<not> ca_enabled s then
       (let q = req\<lparr>r_addr := push_bit (cc_refill_shift c) (r_addr req) + cc_refill_offset c\<rparr>; ans = port q
        in if a_status ans = IO_REQ_DENIED then Some (IO_REQ_DENIED, req, s\<lparr>ca_input_needs_retry := True\<rparr>)
           else Some (a_status ans, forwarded ans q, s))
      else if ca_pending_refill s \<or> ca_refill_retry_pending s
      then Some (IO_REQ_GRANTED, req, check_state (s\<lparr>ca_queue := ca_queue s @ [req]\<rparr>))
      else case handle_req c port now req s of None \<Rightarrow> None
         | Some (st, q, s1) \<Rightarrow> Some (st, q, if st = IO_REQ_DENIED then s1\<lparr>ca_input_needs_retry := True\<rparr> else s1))"

section \<open>The refill port and the queue\<close>

text \<open>A response is for a forwarded request or for the refill, with the data the line gets and whether it is
  the last beat.\<close>

datatype refill_response = Forwarded creq | Refilled bytes bool

fun cache_refill_resp :: "refill_response \<Rightarrow> cache \<Rightarrow> (creq io_up list \<times> cache) option" where
  "cache_refill_resp (Forwarded req) s = Some ([Resp req], s)"
| "cache_refill_resp (Refilled bs is_last) s =
     (if \<not> is_last then Some ([], s)
      else case ca_queue s of [] \<Rightarrow> None
      | cpu_req # rest \<Rightarrow>
         (let k = ca_refill_line s;
              s1 = s\<lparr>ca_queue := rest, ca_pending_refill := False,
                     ca_lines := (ca_lines s)(k := (ca_lines s k)\<lparr>cn_data := bs\<rparr>)\<rparr>
          in if c_bytes cpu_req = None then Some ([Resp cpu_req], check_state s1)
             else map_option (\<lambda>(q, s2). ([Resp q], check_state s2))
                    (line_access k (ca_pending_line_offset s1) cpu_req
                      (s1\<lparr>ca_lines := (ca_lines s1)(k := (ca_lines s1 k)\<lparr>cn_tag := ca_refill_tag s1\<rparr>)\<rparr>))))"

definition cache_refill_retry :: "cache \<Rightarrow> creq io_up list \<times> cache" where
  "cache_refill_retry s =
     (let s1 = s\<lparr>ca_refill_retry_pending := False\<rparr>
      in if ca_input_needs_retry s1 then ([Retry], check_state (s1\<lparr>ca_input_needs_retry := False\<rparr>))
         else ([], check_state s1))"

definition cache_fsm_handler :: "cache_cfg \<Rightarrow> refill_port \<Rightarrow> int \<Rightarrow> cache \<Rightarrow> (creq io_up list \<times> cache) option" where
  "cache_fsm_handler c port now s0 =
     (let s = s0\<lparr>ca_fsm_event := False\<rparr> in
      case ca_queue s of [] \<Rightarrow> Some ([], s)
      | req # rest \<Rightarrow>
         if ca_pending_refill s \<or> ca_refill_retry_pending s then Some ([], s)
         else case handle_req c port now req (s\<lparr>ca_queue := rest\<rparr>) of None \<Rightarrow> None
            | Some (st, q, s1) \<Rightarrow>
                if st = IO_REQ_DONE then Some ([Resp q], check_state s1)
                else if st = IO_REQ_DENIED then Some ([], check_state (s1\<lparr>ca_queue := q # ca_queue s1\<rparr>))
                else Some ([], check_state s1))"

section \<open>Runs\<close>

abbreviation qtag :: "cache_cfg \<Rightarrow> creq \<Rightarrow> u32" where "qtag c q \<equiv> ucast (drop_bit (line_size_bits c) (r_addr q))"
abbreviation qoff :: "cache_cfg \<Rightarrow> creq \<Rightarrow> nat" where "qoff c q \<equiv> unat (r_addr q AND (push_bit (line_size_bits c) 1 - 1))"

text \<open>Where a forwarded request goes, and what it is once its target has completed it.\<close>

definition bypass_addr :: "cache_cfg \<Rightarrow> u64 \<Rightarrow> u64" where
  "bypass_addr c a = push_bit (cc_refill_shift c) a + cc_refill_offset c"

definition completed :: "int \<Rightarrow> io_resp_status \<Rightarrow> bytes \<Rightarrow> creq \<Rightarrow> creq" where
  "completed l v bs q = q\<lparr>r_latency := l, r_resp := v,
     c_bytes := (if r_is_write q then c_bytes q else map_option (\<lambda>_. bs) (c_bytes q))\<rparr>"

text \<open>The address of the line of a tag in the memory behind.\<close>

definition line_addr :: "cache_cfg \<Rightarrow> u32 \<Rightarrow> u64" where
  "line_addr c tag = ucast (full_addr c (push_bit (line_size_bits c) tag))"

text \<open>The memory behind: \<open>D a n bs\<close> says that \<open>bs\<close> may be read at \<open>a\<close>.\<close>

definition port_ok :: "(u64 \<Rightarrow> nat \<Rightarrow> bytes \<Rightarrow> bool) \<Rightarrow> refill_port \<Rightarrow> bool" where
  "port_ok D port \<longleftrightarrow> (\<forall>q. a_status (port q) = IO_REQ_DONE \<longrightarrow> \<not> r_is_write q \<longrightarrow> D (r_addr q) (unat (r_size q)) (a_bytes (port q)))"

definition responses :: "creq io_up list \<Rightarrow> (u64 \<times> creq) list" where
  "responses ups = concat (map (\<lambda>u. case u of Resp q \<Rightarrow> [(r_addr q, q)] | Retry \<Rightarrow> []) ups)"

text \<open>The runs of a cache whose masters issue requests in \<open>Q\<close>: the requests answered so far with the
  address they were made for, the requests forwarded and not answered yet, the state.\<close>

inductive cache_run ::
  "cache_cfg \<Rightarrow> (creq \<Rightarrow> bool) \<Rightarrow> (u64 \<Rightarrow> nat \<Rightarrow> bytes \<Rightarrow> bool) \<Rightarrow> (u64 \<times> creq) list \<Rightarrow> (creq \<times> creq) list \<Rightarrow> cache \<Rightarrow> bool"
  for c Q D where
  init: "\<forall>k. length (bufs k) = cc_line_size c \<Longrightarrow> cache_run c Q D [] [] (snd (cache_reset c bound True (Cache c bufs)))"
| input: "cache_run c Q D outs B s \<Longrightarrow> Q q \<Longrightarrow> port_ok D port \<Longrightarrow> cache_input_req c port now q s = Some (st, q', s')
    \<Longrightarrow> cache_run c Q D (if st = IO_REQ_DONE then (r_addr q, q') # outs else outs)
         (if st = IO_REQ_GRANTED \<and> \<not> ca_enabled s then (q, q') # B else B) s'"
| forwarded: "cache_run c Q D outs B s \<Longrightarrow> (q, q') \<in> set B \<Longrightarrow> \<not> r_is_write q' \<longrightarrow> D (r_addr q') (unat (r_size q')) bs
    \<Longrightarrow> cache_refill_resp (Forwarded (completed l v bs q')) s = Some (ups, s')
    \<Longrightarrow> cache_run c Q D (map (\<lambda>x. (r_addr q, snd x)) (responses ups) @ outs) (remove1 (q, q') B) s'"
| refill: "cache_run c Q D outs B s \<Longrightarrow> ca_pending_refill s
    \<Longrightarrow> is_last \<longrightarrow> D (ca_refill_addr s) (2 ^ line_size_bits c) bs
    \<Longrightarrow> cache_refill_resp (Refilled bs is_last) s = Some (ups, s') \<Longrightarrow> cache_run c Q D (responses ups @ outs) B s'"
| retry: "cache_run c Q D outs B s \<Longrightarrow> cache_refill_retry s = (ups, s') \<Longrightarrow> cache_run c Q D outs B s'"
| fsm: "cache_run c Q D outs B s \<Longrightarrow> ca_fsm_event s \<Longrightarrow> port_ok D port
    \<Longrightarrow> cache_fsm_handler c port now s = Some (ups, s') \<Longrightarrow> cache_run c Q D (responses ups @ outs) B s'"
| enable: "cache_run c Q D outs B s \<Longrightarrow> cache_run c Q D outs B (enable_sync active s)"
| flush: "cache_run c Q D outs B s \<Longrightarrow> flush_sync bound active s = (acks, s') \<Longrightarrow> cache_run c Q D outs B s'"
| flush_line: "cache_run c Q D outs B s \<Longrightarrow> cache_run c Q D outs B (flush_line_sync c active s)"
| flush_line_addr: "cache_run c Q D outs B s \<Longrightarrow> cache_run c Q D outs B (flush_line_addr_sync a s)"

text \<open>The event of the queue fires in \<open>n\<close> cycles in a row, as long as it is enqueued.\<close>

primrec cache_drain :: "cache_cfg \<Rightarrow> refill_port \<Rightarrow> int \<Rightarrow> nat \<Rightarrow> cache \<Rightarrow> (creq io_up list \<times> cache) option" where
  "cache_drain c port now 0 s = Some ([], s)"
| "cache_drain c port now (Suc n) s =
     (if \<not> ca_fsm_event s then Some ([], s)
      else case cache_fsm_handler c port now s of None \<Rightarrow> None
         | Some (ups, s1) \<Rightarrow> map_option (\<lambda>(ups1, s2). (ups @ ups1, s2)) (cache_drain c port (now + 1) n s1))"

section \<open>Lines and addresses\<close>

lemma full_addr_line:
  assumes "line_size_bits c < 32"
  shows "ucast (full_addr c (ucast a)) = line_addr c (ucast (drop_bit (line_size_bits c) (a :: u64)))"
proof -
  have "(ucast a :: u32) AND NOT (mask (line_size_bits c))
      = push_bit (line_size_bits c) (ucast (drop_bit (line_size_bits c) a)) AND NOT (mask (line_size_bits c))"
    by (rule bit_word_eqI) (use assms in \<open>auto simp: bit_simps\<close>)
  then show ?thesis by (simp add: line_addr_def full_addr_def mask_eq_exp_minus_1)
qed

lemma line_copy_defined:
  assumes "\<And>d. c_bytes q = Some d \<Longrightarrow> unat (r_size q) \<le> length d \<and> off + unat (r_size q) \<le> length line"
  shows "\<exists>q' line'. line_copy off q line = Some (q', line')"
proof (cases "c_bytes q")
  case (Some d)
  note A = assms[OF Some]
  obtain bs where bs: "bslice off (unat (r_size q)) line = Some bs" using A bslice_defined by blast
  then have "\<exists>d1. blit 0 (unat (r_size q)) bs d = Some d1" using A bslice_length[OF bs] by (intro blit_defined) auto
  moreover have "\<exists>line1. blit off (unat (r_size q)) d line = Some line1" using A by (intro blit_defined) auto
  ultimately show ?thesis using Some bs by (auto simp: line_copy_def)
qed (simp add: line_copy_def)

lemma line_copy_length:
  assumes "line_copy off q line = Some (q', line')"
  shows "length line' = length line" "r_addr q' = r_addr q" "c_id q' = c_id q"
  using assms by (auto simp: line_copy_def blit_length split: option.splits if_splits bind_splits)

section \<open>What every run keeps\<close>

text \<open>The contents \<open>D\<close> of the lines and what the answers \<open>R\<close> are, for requests in \<open>Q\<close>.\<close>

locale cache_content =
  fixes c :: cache_cfg and Q :: "creq \<Rightarrow> bool" and D :: "u64 \<Rightarrow> nat \<Rightarrow> bytes \<Rightarrow> bool" and R :: "u64 \<Rightarrow> creq \<Rightarrow> bool"
  assumes bits: "Q q \<Longrightarrow> line_size_bits c < 32 \<and> cc_line_size c = 2 ^ line_size_bits c"
    and D_length: "D a n bs \<Longrightarrow> length bs = n"
    and Q_tag: "Q q \<Longrightarrow> qtag c q \<noteq> -1"
    and Q_fits: "Q q \<Longrightarrow> c_bytes q = Some d \<Longrightarrow> unat (r_size q) \<le> length d \<and> qoff c q + unat (r_size q) \<le> 2 ^ line_size_bits c"
    and D_write: "Q q \<Longrightarrow> D a n line \<Longrightarrow> line_copy (qoff c q) (q\<lparr>r_latency := l\<rparr>) line = Some (q', line') \<Longrightarrow> D a n line'"
    and D_null: "Q q \<Longrightarrow> c_bytes q = None \<Longrightarrow> D a n bs \<Longrightarrow> D a' n bs"
    and served: "Q q \<Longrightarrow> D (line_addr c (qtag c q)) (2 ^ line_size_bits c) line
      \<Longrightarrow> line_copy (qoff c q) (q\<lparr>r_latency := l\<rparr>) line = Some (q', line') \<Longrightarrow> R (r_addr q) q'"
    and served_null: "Q q \<Longrightarrow> c_bytes q = None \<Longrightarrow> R (r_addr q) q"
    and bypassed: "Q q \<Longrightarrow> \<not> r_is_write q \<longrightarrow> D (bypass_addr c (r_addr q)) (unat (r_size q)) bs
      \<Longrightarrow> R (r_addr q) (completed l v bs (q\<lparr>r_addr := bypass_addr c (r_addr q)\<rparr>))"
begin

definition content_ok :: "cache \<Rightarrow> bool" where
  "content_ok s \<longleftrightarrow> (\<forall>k. length (cn_data (ca_lines s k)) = cc_line_size c
     \<and> (cn_tag (ca_lines s k) \<noteq> -1 \<longrightarrow> D (line_addr c (cn_tag (ca_lines s k))) (2 ^ line_size_bits c) (cn_data (ca_lines s k))))"

text \<open>The refill in flight is that of the first request of the queue.\<close>

definition queue_ok :: "cache \<Rightarrow> bool" where
  "queue_ok s \<longleftrightarrow> (\<forall>q\<in>set (ca_queue s). Q q) \<and> (ca_pending_refill s \<longrightarrow> ca_queue s \<noteq> [] \<and> \<not> ca_refill_retry_pending s
     \<and> ca_refill_tag s = qtag c (hd (ca_queue s)) \<and> ca_refill_addr s = line_addr c (ca_refill_tag s)
     \<and> ca_pending_line_offset s = qoff c (hd (ca_queue s)))"

text \<open>A queue that is not empty has something that will serve it.\<close>

definition armed :: "cache \<Rightarrow> bool" where
  "armed s \<longleftrightarrow> (ca_queue s \<noteq> [] \<longrightarrow> ca_pending_refill s \<or> ca_refill_retry_pending s \<or> ca_fsm_event s)"

lemma content_okD: "content_ok s \<Longrightarrow> length (cn_data (ca_lines s k)) = cc_line_size c"
  "content_ok s \<Longrightarrow> cn_tag (ca_lines s k) = t \<Longrightarrow> t \<noteq> -1 \<Longrightarrow> D (line_addr c t) (2 ^ line_size_bits c) (cn_data (ca_lines s k))"
  by (auto simp: content_ok_def)

lemma content_ok_update:
  assumes "content_ok s" "length (cn_data x) = cc_line_size c"
    "cn_tag x \<noteq> -1 \<Longrightarrow> D (line_addr c (cn_tag x)) (2 ^ line_size_bits c) (cn_data x)"
  shows "content_ok (s\<lparr>ca_lines := (ca_lines s)(k := x)\<rparr>)"
  using assms by (auto simp: content_ok_def)

lemma line_access_ok:
  assumes "content_ok s" "Q q" "cn_tag (ca_lines s k) = qtag c q" "line_access k (qoff c q) (q\<lparr>r_latency := l\<rparr>) s = Some (q', s')"
  shows "R (r_addr q) q'" "content_ok s'" "\<exists>L. s' = s\<lparr>ca_lines := L\<rparr>" "r_addr q' = r_addr q" "c_id q' = c_id q"
proof -
  obtain line' where l: "line_copy (qoff c q) (q\<lparr>r_latency := l\<rparr>) (cn_data (ca_lines s k)) = Some (q', line')"
      and s': "s' = s\<lparr>ca_lines := (ca_lines s)(k := (ca_lines s k)\<lparr>cn_data := line'\<rparr>)\<rparr>"
    using assms(4) by (auto simp: line_access_def)
  have D: "D (line_addr c (qtag c q)) (2 ^ line_size_bits c) (cn_data (ca_lines s k))"
    using content_okD(2)[OF assms(1,3)] Q_tag[OF assms(2)] .
  show "R (r_addr q) q'" using served[OF assms(2) D l] .
  have D': "D (line_addr c (qtag c q)) (2 ^ line_size_bits c) line'" using D_write[OF assms(2) D l] .
  show "content_ok s'" unfolding s' using content_ok_update[OF assms(1)] D' D_length[OF D'] bits[OF assms(2)] assms(3) by simp
  show "\<exists>L. s' = s\<lparr>ca_lines := L\<rparr>" "r_addr q' = r_addr q" "c_id q' = c_id q"
    using s' line_copy_length[OF l] by auto
qed

lemma line_access_defined:
  assumes "content_ok s" "Q q"
  shows "\<exists>r. line_access k (qoff c q) (q\<lparr>r_latency := l\<rparr>) s = Some r"
proof -
  have "\<exists>q' line'. line_copy (qoff c q) (q\<lparr>r_latency := l\<rparr>) (cn_data (ca_lines s k)) = Some (q', line')"
    by (rule line_copy_defined) (use Q_fits[OF assms(2)] bits[OF assms(2)] content_okD(1)[OF assms(1)] in auto)
  then show ?thesis by (auto simp: line_access_def)
qed

lemma fill_size: "Q q \<Longrightarrow> unat (push_bit (line_size_bits c) 1 :: u64) = 2 ^ line_size_bits c"
  using bits[of q] by (simp add: push_bit_eq_mult unat_pow2)

text \<open>The three outcomes of a request.\<close>

lemma handle_req_cases:
  assumes "content_ok s" "Q q" "\<not> ca_pending_refill s" "port_ok D port"
  obtains (answered) q' s' where "handle_req c port now q s = Some (IO_REQ_DONE, q', s')" "R (r_addr q) q'" "r_addr q' = r_addr q"
      "c_id q' = c_id q" "content_ok s'" "ca_queue s' = ca_queue s" "\<not> ca_pending_refill s'"
      "ca_refill_retry_pending s' = ca_refill_retry_pending s" "ca_fsm_event s' = ca_fsm_event s" "ca_enabled s' = ca_enabled s"
  | (granted) s' where "handle_req c port now q s = Some (IO_REQ_GRANTED, q, s')" "content_ok s'" "ca_queue s' = q # ca_queue s"
      "ca_pending_refill s'" "ca_refill_tag s' = qtag c q" "ca_refill_addr s' = line_addr c (qtag c q)"
      "ca_pending_line_offset s' = qoff c q" "\<exists>x. a_status (port x) \<noteq> IO_REQ_DONE"
      "ca_refill_retry_pending s' = ca_refill_retry_pending s"
  | (denied) s' where "handle_req c port now q s = Some (IO_REQ_DENIED, q, s')" "content_ok s'" "ca_queue s' = ca_queue s"
      "\<not> ca_pending_refill s'" "ca_refill_retry_pending s'" "\<exists>x. a_status (port x) \<noteq> IO_REQ_DONE"
proof -
  obtain idx hit where g: "get_line c (r_addr q) s = (idx, qtag c q, qoff c q, hit)" by (simp add: get_line_def Let_def)
  show thesis
  proof (cases hit)
    case (Some k)
    then have k: "cn_tag (ca_lines s k) = qtag c q" using g by (auto simp: get_line_def Let_def find_Some_iff)
    define l where "l = (if now < cn_timestamp (ca_lines s k) then r_latency q + (cn_timestamp (ca_lines s k) - now) else r_latency q)"
    have q: "(if now < cn_timestamp (ca_lines s k) then q\<lparr>r_latency := r_latency q + (cn_timestamp (ca_lines s k) - now)\<rparr> else q)
        = q\<lparr>r_latency := l\<rparr>" by (simp add: l_def)
    obtain q' s' where r: "line_access k (qoff c q) (q\<lparr>r_latency := l\<rparr>) s = Some (q', s')"
      using line_access_defined[OF assms(1,2)] by fastforce
    note A = line_access_ok[OF assms(1,2) k r]
    have "handle_req c port now q s = Some (IO_REQ_DONE, q', s')" using r by (simp add: handle_req_def g Some q Let_def)
    from answered[OF this] show thesis using A assms(3) by auto
  next
    case None
    obtain w v where l: "step_lru c s = (w, s\<lparr>ca_lru_out := v\<rparr>)" by (simp add: step_lru_def Let_def)
    define k where "k = unat idx * cc_ways c + w mod cc_ways c"
    define ans where "ans = port (fill_req c (full_addr c (ucast (r_addr q))) (cn_data (ca_lines s k)))"
    have a: "ucast (full_addr c (ucast (r_addr q))) = line_addr c (qtag c q)" using full_addr_line bits[OF assms(2)] by blast
    define s2 where "s2 = s\<lparr>ca_lru_out := v, ca_refill_addr := line_addr c (qtag c q)\<rparr>"
    note R = cache_refill_def[of c port now idx "ucast (r_addr q)" "qtag c q" q s] l a Let_def ans_def[symmetric] k_def[symmetric]
    show thesis
    proof (cases "a_status ans")
      case IO_REQ_GRANTED
      then have "handle_req c port now q s = Some (IO_REQ_GRANTED, q, s2\<lparr>ca_queue := q # ca_queue s2, ca_refill_line := k,
          ca_refill_tag := qtag c q, ca_pending_refill := True, ca_pending_line_offset := qoff c q\<rparr>)"
        using assms(3) by (simp add: handle_req_def g None R s2_def)
      from granted[OF this] show thesis using assms(1) IO_REQ_GRANTED by (fastforce simp: s2_def content_ok_def ans_def)
    next
      case IO_REQ_DENIED
      then have "handle_req c port now q s = Some (IO_REQ_DENIED, q, s2\<lparr>ca_refill_retry_pending := True\<rparr>)"
        using assms(3) by (simp add: handle_req_def g None R s2_def)
      from denied[OF this] show thesis using assms(1,3) IO_REQ_DENIED by (fastforce simp: s2_def content_ok_def ans_def)
    next
      case IO_REQ_DONE
      have d: "D (line_addr c (qtag c q)) (2 ^ line_size_bits c) (a_bytes ans)"
        using assms(4) IO_REQ_DONE unfolding port_ok_def ans_def by (auto simp: fill_req_def a fill_size[OF assms(2)] simp del: push_bit_of_1)
      define lat where "lat = (if now < ca_refill_timestamp s then ca_refill_timestamp s - now else 0) + a_latency ans + cc_refill_latency c"
      define s3 where "s3 = s2\<lparr>ca_lines := (ca_lines s2)(k := \<lparr>cn_tag = qtag c q, cn_data = a_bytes ans, cn_timestamp = now + lat\<rparr>),
          ca_refill_timestamp := now + lat\<rparr>"
      have r: "cache_refill c port now idx (ucast (r_addr q)) (qtag c q) q s = (Some k, False, q\<lparr>r_latency := r_latency q + lat\<rparr>, s3)"
        using IO_REQ_DONE assms(3) by (simp add: R s3_def s2_def lat_def)
      have s3: "cn_tag (ca_lines s3 k) = qtag c q" "content_ok s3"
        using assms(1) d D_length[OF d] bits[OF assms(2)] by (simp_all add: s3_def s2_def content_ok_def)
      obtain q' s' where acc: "line_access k (qoff c q) (q\<lparr>r_latency := r_latency q + lat\<rparr>) s3 = Some (q', s')"
        using line_access_defined[OF s3(2) assms(2)] by fastforce
      note A = line_access_ok[OF s3(2) assms(2) s3(1) acc]
      have "handle_req c port now q s = Some (IO_REQ_DONE, q', s')" using acc r by (simp add: handle_req_def g None)
      from answered[OF this] show thesis using A assms(3) by (auto simp: s3_def s2_def)
    qed
  qed
qed

lemma check_state_ok [simp]:
  "content_ok (check_state s) = content_ok s" "queue_ok (check_state s) = queue_ok s" "armed (check_state s)"
  "ca_queue (check_state s) = ca_queue s" "ca_pending_refill (check_state s) = ca_pending_refill s"
  "ca_refill_retry_pending (check_state s) = ca_refill_retry_pending s" "ca_enabled (check_state s) = ca_enabled s"
  by (simp_all add: check_state_def content_ok_def queue_ok_def armed_def)

definition cache_ok :: "cache \<Rightarrow> bool" where "cache_ok s \<longleftrightarrow> content_ok s \<and> queue_ok s \<and> armed s"

lemma check_state_cache_ok: "content_ok s \<Longrightarrow> queue_ok s \<Longrightarrow> cache_ok (check_state s)"
  by (simp add: cache_ok_def)

lemma input_ok:
  assumes "cache_ok s" "Q q" "port_ok D port"
  obtains (answered) q' s' where "cache_input_req c port now q s = Some (IO_REQ_DONE, q', s')" "R (r_addr q) q'" "cache_ok s'"
  | (queued) s' where "cache_input_req c port now q s = Some (IO_REQ_GRANTED, q, s')" "ca_enabled s" "cache_ok s'"
      "map c_id (ca_queue s') = map c_id (ca_queue s) @ [c_id q] \<or> ca_queue s' = q # ca_queue s"
  | (forwarded) l v where "\<not> ca_enabled s"
      "cache_input_req c port now q s = Some (IO_REQ_GRANTED, q\<lparr>r_addr := bypass_addr c (r_addr q), r_latency := l, r_resp := v\<rparr>, s)"
  | (denied) s' where "cache_input_req c port now q s = Some (IO_REQ_DENIED, q, s')" "cache_ok s'"
proof (cases "ca_enabled s")
  case False
  define q1 where "q1 = q\<lparr>r_addr := bypass_addr c (r_addr q)\<rparr>"
  have b: "r_addr q1 = bypass_addr c (r_addr q)" "r_size q1 = r_size q" "r_is_write q1 = r_is_write q" by (simp_all add: q1_def)
  have i: "cache_input_req c port now q s = (if a_status (port q1) = IO_REQ_DENIED
      then Some (IO_REQ_DENIED, q, s\<lparr>ca_input_needs_retry := True\<rparr>) else Some (a_status (port q1), CacheV4.forwarded (port q1) q1, s))"
    using False by (simp add: cache_input_req_def q1_def bypass_addr_def Let_def)
  show thesis
  proof (cases "a_status (port q1)")
    case IO_REQ_DONE
    have "R (r_addr q) (completed (a_latency (port q1)) (a_resp (port q1)) (a_bytes (port q1)) q1)"
      unfolding q1_def using assms(2,3) IO_REQ_DONE b by (intro bypassed) (auto simp: port_ok_def q1_def)
    moreover have "completed (a_latency (port q1)) (a_resp (port q1)) (a_bytes (port q1)) q1 = CacheV4.forwarded (port q1) q1"
      using IO_REQ_DONE by (simp add: completed_def CacheV4.forwarded_def)
    ultimately show thesis using i IO_REQ_DONE assms(1) by (intro answered) simp_all
  next
    case IO_REQ_GRANTED
    then show thesis using i False
      by (intro forwarded[of "a_resp (port q1)" "a_latency (port q1)"]) (simp_all add: CacheV4.forwarded_def q1_def)
  next
    case IO_REQ_DENIED
    then have "cache_input_req c port now q s = Some (IO_REQ_DENIED, q, s\<lparr>ca_input_needs_retry := True\<rparr>)" using i by simp
    from denied[OF this] show thesis using assms(1) by (simp add: cache_ok_def content_ok_def queue_ok_def armed_def)
  qed
next
  case True
  note ok = assms(1)[unfolded cache_ok_def]
  show thesis
  proof (cases "ca_pending_refill s \<or> ca_refill_retry_pending s")
    case busy: True
    define s1 where "s1 = s\<lparr>ca_queue := ca_queue s @ [q]\<rparr>"
    have "content_ok s1" "queue_ok s1" using ok assms(2) by (auto simp: s1_def content_ok_def queue_ok_def hd_append)
    moreover have "cache_input_req c port now q s = Some (IO_REQ_GRANTED, q, check_state s1)"
      using True busy by (simp add: cache_input_req_def s1_def)
    ultimately show thesis using True queued[of "check_state s1"] by (simp add: cache_ok_def s1_def)
  next
    case False
    have i: "cache_input_req c port now q s = (case handle_req c port now q s of None \<Rightarrow> None
         | Some (st, q, s1) \<Rightarrow> Some (st, q, if st = IO_REQ_DENIED then s1\<lparr>ca_input_needs_retry := True\<rparr> else s1))"
      using True False by (simp add: cache_input_req_def)
    from False have np: "\<not> ca_pending_refill s" by simp
    show thesis
    proof (rule handle_req_cases[OF conjunct1[OF ok] assms(2) np assms(3), of now])
      fix q' s' assume h: "handle_req c port now q s = Some (IO_REQ_DONE, q', s')" "R (r_addr q) q'" "content_ok s'"
        "ca_queue s' = ca_queue s" "\<not> ca_pending_refill s'" "ca_refill_retry_pending s' = ca_refill_retry_pending s"
        "ca_fsm_event s' = ca_fsm_event s"
      then have "cache_ok s'" using ok False by (auto simp: cache_ok_def queue_ok_def armed_def)
      then show thesis using h i by (intro answered[of q' s']) simp_all
    next
      fix s' assume h: "handle_req c port now q s = Some (IO_REQ_GRANTED, q, s')" "content_ok s'" "ca_queue s' = q # ca_queue s"
        "ca_pending_refill s'" "ca_refill_tag s' = qtag c q" "ca_refill_addr s' = line_addr c (qtag c q)" "ca_pending_line_offset s' = qoff c q"
        "ca_refill_retry_pending s' = ca_refill_retry_pending s"
      then have "cache_ok s'" using ok assms(2) False by (auto simp: cache_ok_def queue_ok_def armed_def)
      then show thesis using h i True by (intro queued[of s']) simp_all
    next
      fix s' assume h: "handle_req c port now q s = Some (IO_REQ_DENIED, q, s')" "content_ok s'" "ca_queue s' = ca_queue s"
        "\<not> ca_pending_refill s'" "ca_refill_retry_pending s'"
      then have k: "cache_ok (s'\<lparr>ca_input_needs_retry := True\<rparr>)" using ok by (auto simp: cache_ok_def content_ok_def queue_ok_def armed_def)
      from h i have "cache_input_req c port now q s = Some (IO_REQ_DENIED, q, s'\<lparr>ca_input_needs_retry := True\<rparr>)" by simp
      from denied[OF this k] show thesis .
    qed
  qed
qed

lemma refill_resp_ok:
  assumes "cache_ok s" "ca_pending_refill s" "D (ca_refill_addr s) (2 ^ line_size_bits c) bs"
  obtains q' s' where "cache_refill_resp (Refilled bs True) s = Some ([Resp q'], s')" "R (r_addr q') q'" "cache_ok s'"
    "ca_queue s' = tl (ca_queue s)" "\<not> ca_pending_refill s'" "ca_refill_retry_pending s' = ca_refill_retry_pending s"
    "c_id q' = c_id (hd (ca_queue s))"
proof -
  note ok = assms(1)[unfolded cache_ok_def]
  obtain q rest where qs: "ca_queue s = q # rest" and Q: "Q q" "\<forall>x\<in>set rest. Q x"
      and t: "ca_refill_tag s = qtag c q" "ca_refill_addr s = line_addr c (qtag c q)" "ca_pending_line_offset s = qoff c q"
    using ok assms(2) by (cases "ca_queue s") (auto simp: queue_ok_def)
  define k where "k = ca_refill_line s"
  define s1 where "s1 = s\<lparr>ca_queue := rest, ca_pending_refill := False, ca_lines := (ca_lines s)(k := (ca_lines s k)\<lparr>cn_data := bs\<rparr>)\<rparr>"
  have bs: "D (line_addr c (qtag c q)) (2 ^ line_size_bits c) bs" using assms(3) t by simp
  show thesis
  proof (cases "c_bytes q")
    case None
    have "content_ok s1" using ok D_length[OF bs] bits[OF Q(1)] D_null[OF Q(1) None bs]
      by (auto simp: s1_def content_ok_def)
    moreover have "queue_ok s1" using Q by (simp add: s1_def queue_ok_def)
    moreover have "cache_refill_resp (Refilled bs True) s = Some ([Resp q], check_state s1)"
      using None by (simp add: qs s1_def k_def Let_def)
    ultimately show thesis using that[of q "check_state s1"] served_null[OF Q(1) None] qs by (simp add: cache_ok_def s1_def)
  next
    case (Some d)
    define s2 where "s2 = s1\<lparr>ca_lines := (ca_lines s1)(k := (ca_lines s1 k)\<lparr>cn_tag := qtag c q\<rparr>)\<rparr>"
    have l2: "content_ok s2" "cn_tag (ca_lines s2 k) = qtag c q"
      using ok bs D_length[OF bs] bits[OF Q(1)] by (auto simp: s2_def s1_def content_ok_def)
    have "q\<lparr>r_latency := r_latency q\<rparr> = q" by simp
    then obtain q' s3 where acc: "line_access k (qoff c q) (q\<lparr>r_latency := r_latency q\<rparr>) s2 = Some (q', s3)"
      using line_access_defined[OF l2(1) Q(1)] by (metis surj_pair)
    note A = line_access_ok[OF l2(1) Q(1) l2(2) acc]
    have "queue_ok s3" using A(3) Q by (auto simp: s2_def s1_def queue_ok_def)
    moreover have "cache_refill_resp (Refilled bs True) s = Some ([Resp q'], check_state s3)"
      using acc Some t by (simp add: qs s2_def s1_def k_def Let_def)
    ultimately show thesis using A that[of q' "check_state s3"] qs by (auto simp: cache_ok_def s2_def s1_def)
  qed
qed

lemma retry_ok:
  assumes "cache_ok s" "cache_refill_retry s = (ups, s')"
  shows "cache_ok s'"
proof -
  have "content_ok (s\<lparr>ca_refill_retry_pending := False, ca_input_needs_retry := b\<rparr>)"
    "queue_ok (s\<lparr>ca_refill_retry_pending := False, ca_input_needs_retry := b\<rparr>)" for b
    using assms(1) by (simp_all add: cache_ok_def content_ok_def queue_ok_def)
  from check_state_cache_ok[OF this(1)[of "False"] this(2)] check_state_cache_ok[OF this(1)[of "ca_input_needs_retry s"] this(2)]
  show ?thesis using assms(2) by (auto simp: cache_refill_retry_def Let_def split: if_splits)
qed

lemma wires_ok:
  "cache_ok s \<Longrightarrow> cache_ok (enable_sync active s)"
  "cache_ok s \<Longrightarrow> flush_sync bound active s = (acks, s') \<Longrightarrow> cache_ok s'"
  "cache_ok s \<Longrightarrow> cache_ok (flush_line_sync c active s)"
  "cache_ok s \<Longrightarrow> cache_ok (flush_line_addr_sync a s)"
  by (auto simp: cache_ok_def content_ok_def queue_ok_def armed_def enable_sync_def cache_enable_def flush_sync_def cache_flush_def
      flush_line_sync_def flush_line_op_def flush_line_addr_sync_def Let_def split: if_splits)

lemma fsm_ok:
  assumes "cache_ok s" "port_ok D port"
  obtains (idle) s' where "cache_fsm_handler c port now s = Some ([], s')" "cache_ok s'"
      "ca_queue s = [] \<or> ca_pending_refill s \<or> ca_refill_retry_pending s"
  | (answered) q' s' where "cache_fsm_handler c port now s = Some ([Resp q'], s')" "R (r_addr q') q'" "cache_ok s'"
      "ca_queue s \<noteq> []" "ca_queue s' = tl (ca_queue s)" "c_id q' = c_id (hd (ca_queue s))"
      "\<not> ca_pending_refill s'" "ca_refill_retry_pending s' = ca_refill_retry_pending s"
  | (waits) s' where "cache_fsm_handler c port now s = Some ([], s')" "cache_ok s'" "ca_queue s' = ca_queue s"
      "ca_pending_refill s' \<or> ca_refill_retry_pending s'" "\<exists>x. a_status (port x) \<noteq> IO_REQ_DONE"
proof -
  define s0 where "s0 = s\<lparr>ca_fsm_event := False\<rparr>"
  note ok = assms(1)[unfolded cache_ok_def]
  show thesis
  proof (cases "ca_queue s = [] \<or> ca_pending_refill s \<or> ca_refill_retry_pending s")
    case True
    then have "cache_fsm_handler c port now s = Some ([], s0)"
      by (cases "ca_queue s") (auto simp: cache_fsm_handler_def s0_def)
    moreover have "cache_ok s0" using ok True by (auto simp: s0_def cache_ok_def content_ok_def queue_ok_def armed_def)
    ultimately show thesis using idle True by blast
  next
    case False
    then obtain q rest where qs: "ca_queue s = q # rest" by (cases "ca_queue s") auto
    define s1 where "s1 = s0\<lparr>ca_queue := rest\<rparr>"
    have s1: "content_ok s1" "\<not> ca_pending_refill s1" "Q q" "\<forall>x\<in>set rest. Q x" "ca_queue s1 = rest" "\<not> ca_refill_retry_pending s1"
      using ok False qs by (auto simp: s1_def s0_def content_ok_def queue_ok_def)
    have f: "cache_fsm_handler c port now s = (case handle_req c port now q s1 of None \<Rightarrow> None
        | Some (st, q, s1) \<Rightarrow> if st = IO_REQ_DONE then Some ([Resp q], check_state s1)
           else if st = IO_REQ_DENIED then Some ([], check_state (s1\<lparr>ca_queue := q # ca_queue s1\<rparr>)) else Some ([], check_state s1))"
      using False by (simp add: cache_fsm_handler_def qs s1_def s0_def)
    show thesis
    proof (rule handle_req_cases[OF s1(1,3,2) assms(2), of now])
      fix q' s' assume h: "handle_req c port now q s1 = Some (IO_REQ_DONE, q', s')" "R (r_addr q) q'" "r_addr q' = r_addr q"
        "c_id q' = c_id q" "content_ok s'" "ca_queue s' = ca_queue s1" "\<not> ca_pending_refill s'"
        "ca_refill_retry_pending s' = ca_refill_retry_pending s1"
      then have "cache_ok (check_state s')" using s1 by (simp add: cache_ok_def queue_ok_def)
      then show thesis using h f False qs s1 answered[of q' "check_state s'"] by simp
    next
      fix s' assume h: "handle_req c port now q s1 = Some (IO_REQ_GRANTED, q, s')" "content_ok s'" "ca_queue s' = q # ca_queue s1"
        "ca_pending_refill s'" "ca_refill_tag s' = qtag c q" "ca_refill_addr s' = line_addr c (qtag c q)" "ca_pending_line_offset s' = qoff c q" "\<exists>x. a_status (port x) \<noteq> IO_REQ_DONE"
        "ca_refill_retry_pending s' = ca_refill_retry_pending s1"
      then have "queue_ok s'" using s1 by (simp add: queue_ok_def)
      then have "cache_ok (check_state s')" using h by (intro check_state_cache_ok)
      then show thesis using h f qs s1 waits[of "check_state s'"] by simp
    next
      fix s' assume h: "handle_req c port now q s1 = Some (IO_REQ_DENIED, q, s')" "content_ok s'" "ca_queue s' = ca_queue s1"
        "\<not> ca_pending_refill s'" "ca_refill_retry_pending s'" "\<exists>x. a_status (port x) \<noteq> IO_REQ_DONE"
      define s3 where "s3 = s'\<lparr>ca_queue := q # rest\<rparr>"
      have "content_ok s3" "queue_ok s3" using h s1 by (simp_all add: s3_def content_ok_def queue_ok_def)
      then have "cache_ok (check_state s3)" by (rule check_state_cache_ok)
      then show thesis using h f qs s1 waits[of "check_state s3"] by (simp add: s3_def)
    qed
  qed
qed

lemma run_inv:
  assumes "cache_run c Q D outs B s"
  shows "cache_ok s \<and> (\<forall>(a, q)\<in>set outs. R a q)
    \<and> (\<forall>(q, q')\<in>set B. Q q \<and> (\<exists>l v. q' = q\<lparr>r_addr := bypass_addr c (r_addr q), r_latency := l, r_resp := v\<rparr>))"
  using assms
proof (induction rule: cache_run.induct)
  case (init bufs bound)
  then show ?case
    by (auto simp: cache_ok_def content_ok_def queue_ok_def armed_def cache_reset_def cache_flush_def Cache_def Let_def)
next
  case (input outs B s q port now st q' s')
  then have "cache_ok s" by blast
  from this input.hyps(2,3) show ?case
    by (rule input_ok[where now = now]) (use input in auto)
next
  case (forwarded outs B s q q' bs l v ups s')
  from forwarded.IH forwarded.hyps(2) obtain l' v' where B: "Q q" "q' = q\<lparr>r_addr := bypass_addr c (r_addr q), r_latency := l', r_resp := v'\<rparr>"
    by blast
  have "completed l v bs q' = completed l v bs (q\<lparr>r_addr := bypass_addr c (r_addr q)\<rparr>)" by (simp add: B(2) completed_def)
  moreover have "R (r_addr q) (completed l v bs (q\<lparr>r_addr := bypass_addr c (r_addr q)\<rparr>))"
    using forwarded.hyps(3) B by (intro bypassed) simp_all
  ultimately have "R (r_addr q) (completed l v bs q')" by simp
  then show ?case using forwarded by (auto simp: responses_def dest: set_remove1_subset[THEN subsetD])
next
  case (refill outs B s is_last bs ups s')
  show ?case
  proof (cases is_last)
    case True
    obtain q' s1 where r: "cache_refill_resp (Refilled bs True) s = Some ([Resp q'], s1)" "R (r_addr q') q'" "cache_ok s1"
      using refill_resp_ok[of s bs] refill True by metis
    then have "ups = [Resp q']" "s' = s1" using refill.hyps(4) True by (simp_all del: cache_refill_resp.simps)
    then show ?thesis using refill.IH r by (simp add: responses_def)
  next
    case False
    then show ?thesis using refill by (simp add: responses_def)
  qed
next
  case (retry outs B s ups s')
  then show ?case using retry_ok by blast
next
  case (fsm outs B s port now ups s')
  then have "cache_ok s" by blast
  from this fsm.hyps(3) show ?case
    by (rule fsm_ok[where now = now]) (use fsm in \<open>auto simp: responses_def\<close>)
qed (use wires_ok in blast)+

lemma drain_all:
  assumes "cache_ok s" "\<not> ca_pending_refill s" "\<not> ca_refill_retry_pending s" "port_ok D port" "\<forall>q. a_status (port q) = IO_REQ_DONE"
  shows "\<exists>ups s'. cache_drain c port now (length (ca_queue s)) s = Some (ups, s') \<and> ca_queue s' = [] \<and> cache_ok s'
    \<and> map (\<lambda>x. c_id (snd x)) (responses ups) = map c_id (ca_queue s)"
  using assms(1-3)
proof (induction "length (ca_queue s)" arbitrary: s now)
  case 0
  then show ?case by (simp add: responses_def)
next
  case (Suc n)
  then have e: "ca_fsm_event s" by (auto simp: cache_ok_def armed_def)
  obtain q' s1 where f: "cache_fsm_handler c port now s = Some ([Resp q'], s1)" "cache_ok s1" "ca_queue s1 = tl (ca_queue s)"
      "c_id q' = c_id (hd (ca_queue s))" "\<not> ca_pending_refill s1" "\<not> ca_refill_retry_pending s1"
    by (rule fsm_ok[OF Suc.prems(1) assms(4), of now]) (use Suc assms(5) in auto)
  have n: "n = length (ca_queue s1)" using f(3) Suc.hyps(2) by (cases "ca_queue s") auto
  obtain ups s' where d: "cache_drain c port (now + 1) n s1 = Some (ups, s')" "ca_queue s' = []" "cache_ok s'"
      "map (\<lambda>x. c_id (snd x)) (responses ups) = map c_id (ca_queue s1)"
    using Suc.hyps(1)[OF n f(2,5,6), of "now + 1"] n by auto
  have "cache_drain c port now (length (ca_queue s)) s = Some (Resp q' # ups, s')"
    unfolding Suc.hyps(2)[symmetric] using e f(1) d(1) by simp
  then show ?case using d f(3,4) Suc.hyps(2) by (cases "ca_queue s") (auto simp: responses_def)
qed

end

section \<open>A read-only memory behind the cache\<close>

definition mem_bytes :: "(u64 \<Rightarrow> u8) \<Rightarrow> u64 \<Rightarrow> nat \<Rightarrow> bytes" where
  "mem_bytes mem a n = map (\<lambda>i. mem (a + of_nat i)) [0..<n]"

text \<open>The geometry that the documentation asks for, the lines relocated and not scaled.\<close>

definition cache_geometry :: "cache_cfg \<Rightarrow> bool" where
  "cache_geometry c \<longleftrightarrow> 1 \<le> line_size_bits c \<and> line_size_bits c < 32 \<and> cc_line_size c = 2 ^ line_size_bits c"

text \<open>What may be read from a memory of \<open>N\<close> bytes: its content, anything beyond it.\<close>

definition mem_readable :: "(u64 \<Rightarrow> u8) \<Rightarrow> nat \<Rightarrow> u64 \<Rightarrow> nat \<Rightarrow> bytes \<Rightarrow> bool" where
  "mem_readable mem N a n bs \<longleftrightarrow> length bs = n \<and> (unat a + n \<le> N \<longrightarrow> bs = mem_bytes mem a n)"

text \<open>A read of some bytes of a line that is in the memory, below 4 GB.\<close>

definition read_ok :: "cache_cfg \<Rightarrow> nat \<Rightarrow> creq \<Rightarrow> bool" where
  "read_ok c N q \<longleftrightarrow> cache_geometry c \<and> cc_refill_shift c = 0 \<and> \<not> r_is_write q
     \<and> (\<exists>d. c_bytes q = Some d \<and> length d = unat (r_size q)) \<and> qoff c q + unat (r_size q) \<le> cc_line_size c
     \<and> unat (r_addr q) + unat (cc_refill_offset c) < 2 ^ 32
     \<and> unat (r_addr q) + unat (cc_refill_offset c) - qoff c q + cc_line_size c \<le> N"

lemma tag_unat: "line_size_bits c < 32 \<Longrightarrow> unat (r_addr q) < 2 ^ 32 \<Longrightarrow> unat (qtag c q) = unat (r_addr q) div 2 ^ line_size_bits c"
proof -
  assume a: "unat (r_addr q) < 2 ^ 32"
  have "unat (r_addr q) div 2 ^ line_size_bits c < 2 ^ 32" using a div_le_dividend le_less_trans by blast
  then show ?thesis by (simp add: unsigned_ucast_eq drop_bit_unat take_bit_nat_eq_self)
qed

lemma tag_empty: "1 \<le> line_size_bits c \<Longrightarrow> line_size_bits c < 32 \<Longrightarrow> unat (r_addr q) < 2 ^ 32 \<Longrightarrow> qtag c q \<noteq> -1"
proof
  assume a: "1 \<le> line_size_bits c" "line_size_bits c < 32" "unat (r_addr q) < 2 ^ 32" "qtag c q = -1"
  have p: "(2::nat) \<le> 2 ^ line_size_bits c" using power_increasing[OF a(1), of "2::nat"] by simp
  have "unat (r_addr q) div 2 ^ line_size_bits c \<le> unat (r_addr q) div 2" by (rule div_le_mono2) (use p in simp_all)
  then have "unat (qtag c q) \<le> unat (r_addr q) div 2" using tag_unat[OF a(2,3)] by simp
  moreover have "unat (-1 :: u32) = 4294967295" by (simp add: unsigned_minus_1_eq_mask mask_eq_exp_minus_1)
  ultimately show False using a(3,4) by simp
qed

lemma read_line_addr:
  assumes "read_ok c N q"
  shows "line_addr c (qtag c q) + of_nat (qoff c q) = r_addr q + cc_refill_offset c"
    "unat (line_addr c (qtag c q)) + 2 ^ line_size_bits c \<le> N"
    "unat (bypass_addr c (r_addr q)) + unat (r_size q) \<le> N"
proof -
  define b where "b = line_size_bits c"
  define t where "t = unat (r_addr q) div 2 ^ b"
  define o' where "o' = unat (cc_refill_offset c)"
  have b: "b < 32" "cc_refill_shift c = 0" "unat (r_addr q) + o' < 2 ^ 32"
    using assms by (auto simp: read_ok_def cache_geometry_def b_def o'_def)
  have m: "qoff c q = unat (r_addr q) mod 2 ^ b" by (simp add: b_def and_mask_unat flip: mask_eq_exp_minus_1)
  have split: "unat (r_addr q) = t * 2 ^ b + unat (r_addr q) mod 2 ^ b" unfolding t_def by (rule div_mult_mod_eq[symmetric])
  have le: "t * 2 ^ b + o' < 2 ^ 32" using b(3) split by linarith
  have ut: "unat (qtag c q) = t" using tag_unat[of c q] b by (simp add: b_def t_def)
  have p: "unat (push_bit b (qtag c q)) = t * 2 ^ b"
    unfolding unsigned_push_bit_eq ut using le by (simp add: push_bit_eq_mult take_bit_nat_eq_self)
  have "push_bit b (qtag c q) AND NOT (mask b) = push_bit b (qtag c q)"
    by (rule bit_word_eqI) (auto simp: bit_simps)
  then have f: "full_addr c (push_bit b (qtag c q)) = push_bit b (qtag c q) + ucast (cc_refill_offset c)"
    using b(2) by (simp add: full_addr_def b_def[symmetric] flip: mask_eq_exp_minus_1)
  have uo: "unat (ucast (cc_refill_offset c) :: u32) = o'"
    using le by (simp add: unsigned_ucast_eq o'_def take_bit_nat_eq_self)
  have "unat (full_addr c (push_bit b (qtag c q))) = t * 2 ^ b + o'"
    unfolding f using p uo le by (subst unat_add_no_wrap) simp_all
  then have l: "unat (line_addr c (qtag c q)) = t * 2 ^ b + o'"
    using le by (simp add: line_addr_def b_def[symmetric] unsigned_ucast_eq take_bit_nat_eq_self)
  have "line_addr c (qtag c q) = of_nat (t * 2 ^ b + o')" unfolding l[symmetric] by simp
  moreover have "r_addr q + cc_refill_offset c = of_nat (unat (r_addr q) + o')" by (simp add: o'_def)
  ultimately show "line_addr c (qtag c q) + of_nat (qoff c q) = r_addr q + cc_refill_offset c"
    unfolding m using split by (simp add: ac_simps flip: of_nat_add)
  have N: "unat (r_addr q) + o' - qoff c q + 2 ^ b \<le> N" "qoff c q + unat (r_size q) \<le> 2 ^ b"
    using assms by (simp_all add: read_ok_def cache_geometry_def o'_def b_def)
  have "t * 2 ^ b + o' + 2 ^ b \<le> N" using N(1)[unfolded m] split by linarith
  then show "unat (line_addr c (qtag c q)) + 2 ^ line_size_bits c \<le> N" unfolding l by (simp add: b_def)
  have "unat (r_addr q + cc_refill_offset c) = unat (r_addr q) + o'"
    unfolding o'_def by (rule unat_add_no_wrap) (use b(3) in \<open>simp add: o'_def\<close>)
  moreover have "qoff c q \<le> unat (r_addr q) + o'" unfolding m by (rule trans_le_add1) (rule mod_less_eq_dividend)
  ultimately show "unat (bypass_addr c (r_addr q)) + unat (r_size q) \<le> N"
    using N by (simp add: bypass_addr_def b(2))
qed

lemma mem_bytes_slice:
  "off + n \<le> m \<Longrightarrow> take n (drop off (mem_bytes mem a m)) = mem_bytes mem (a + of_nat off) n"
  by (rule nth_equalityI) (simp_all add: mem_bytes_def add.assoc)

lemma read_copy_mem:
  assumes "read_ok c N q" "line_copy (qoff c q) (q\<lparr>r_latency := l\<rparr>) (mem_bytes mem a (2 ^ line_size_bits c)) = Some (q', line')"
  shows "line' = mem_bytes mem a (2 ^ line_size_bits c)"
    "c_bytes q' = Some (mem_bytes mem (a + of_nat (qoff c q)) (unat (r_size q)))" "r_size q' = r_size q"
proof -
  obtain d where d: "c_bytes q = Some d" "length d = unat (r_size q)" "\<not> r_is_write q"
      and off: "qoff c q + unat (r_size q) \<le> 2 ^ line_size_bits c"
    using assms(1) by (auto simp: read_ok_def cache_geometry_def)
  have len: "length (mem_bytes mem a n) = n" for a n by (simp add: mem_bytes_def)
  note slice = mem_bytes_slice[OF off, of mem a]
  from assms(2) show "line' = mem_bytes mem a (2 ^ line_size_bits c)"
    "c_bytes q' = Some (mem_bytes mem (a + of_nat (qoff c q)) (unat (r_size q)))" "r_size q' = r_size q"
    using d off slice by (auto simp: line_copy_def bslice_def blit_def len split: if_splits)
qed

text \<open>What a read at an address of the memory gets.\<close>

definition read_result :: "(u64 \<Rightarrow> u8) \<Rightarrow> nat \<Rightarrow> u64 \<Rightarrow> creq \<Rightarrow> bool" where
  "read_result mem N a q \<longleftrightarrow> unat a + unat (r_size q) \<le> N \<and> c_bytes q = Some (mem_bytes mem a (unat (r_size q)))"

interpretation rd: cache_content c "read_ok c N" "mem_readable mem N"
    "\<lambda>a q. read_result mem N (a + cc_refill_offset c) q"
proof
  fix q q' :: creq and bs line line' :: bytes and a a' :: u64 and n :: nat and l :: int and v :: io_resp_status and d :: bytes
  show "line_size_bits c < 32 \<and> cc_line_size c = 2 ^ line_size_bits c" if "read_ok c N q"
    using that by (simp add: read_ok_def cache_geometry_def)
  show "length bs = n" if "mem_readable mem N a n bs" using that by (simp add: mem_readable_def)
  show "qtag c q \<noteq> -1" if "read_ok c N q" using that by (intro tag_empty) (auto simp: read_ok_def cache_geometry_def)
  show "unat (r_size q) \<le> length d \<and> qoff c q + unat (r_size q) \<le> 2 ^ line_size_bits c" if "read_ok c N q" "c_bytes q = Some d"
    using that by (auto simp: read_ok_def cache_geometry_def)
  show "mem_readable mem N a n line'" if "read_ok c N q" "mem_readable mem N a n line"
      "line_copy (qoff c q) (q\<lparr>r_latency := l\<rparr>) line = Some (q', line')"
    using that by (auto simp: line_copy_def read_ok_def split: option.splits if_splits bind_splits)
  show "mem_readable mem N a' n bs" if "read_ok c N q" "c_bytes q = None" using that by (auto simp: read_ok_def)
  show "read_result mem N (r_addr q + cc_refill_offset c) q'"
    if "read_ok c N q" "mem_readable mem N (line_addr c (qtag c q)) (2 ^ line_size_bits c) line"
      "line_copy (qoff c q) (q\<lparr>r_latency := l\<rparr>) line = Some (q', line')"
  proof -
    have l: "line = mem_bytes mem (line_addr c (qtag c q)) (2 ^ line_size_bits c)"
      using that(2) read_line_addr(2)[OF that(1)] by (simp add: mem_readable_def)
    show ?thesis using read_copy_mem[OF that(1) that(3)[unfolded l]] read_line_addr[OF that(1)] that(1)
      by (simp add: read_result_def read_ok_def bypass_addr_def)
  qed
  show "read_result mem N (r_addr q + cc_refill_offset c) q" if "read_ok c N q" "c_bytes q = None"
    using that by (auto simp: read_ok_def)
  show "read_result mem N (r_addr q + cc_refill_offset c) (completed l v bs (q\<lparr>r_addr := bypass_addr c (r_addr q)\<rparr>))"
    if "read_ok c N q" "\<not> r_is_write q \<longrightarrow> mem_readable mem N (bypass_addr c (r_addr q)) (unat (r_size q)) bs"
    using that read_line_addr(3)[OF that(1)] by (auto simp: mem_readable_def read_ok_def completed_def bypass_addr_def read_result_def)
qed

section \<open>Any accesses\<close>

text \<open>Accesses inside a line and inside their buffer, not in the line whose tag is that of an empty one.\<close>

definition fit_ok :: "cache_cfg \<Rightarrow> creq \<Rightarrow> bool" where
  "fit_ok c q \<longleftrightarrow> cache_geometry c \<and> qtag c q \<noteq> -1
     \<and> (\<forall>d. c_bytes q = Some d \<longrightarrow> unat (r_size q) \<le> length d \<and> qoff c q + unat (r_size q) \<le> cc_line_size c)"

interpretation ft: cache_content c "fit_ok c" "\<lambda>a n bs. length bs = n" "\<lambda>a q. True"
  by unfold_locales (auto simp: fit_ok_def cache_geometry_def line_copy_length)

section \<open>Writes answered at once\<close>

lemma get_line_data: "get_line c a (s\<lparr>ca_lines := (ca_lines s)(k := (ca_lines s k)\<lparr>cn_data := line\<rparr>)\<rparr>) = get_line c a s"
proof -
  have "cn_tag (ca_lines (s\<lparr>ca_lines := (ca_lines s)(k := (ca_lines s k)\<lparr>cn_data := line\<rparr>)\<rparr>) j) = cn_tag (ca_lines s j)" for j
    by simp
  then show ?thesis by (simp only: get_line_def)
qed

lemma find_only: "k \<in> set xs \<Longrightarrow> P k \<Longrightarrow> (\<And>j. j \<in> set xs \<Longrightarrow> j \<noteq> k \<Longrightarrow> \<not> P j) \<Longrightarrow> List.find P xs = Some k"
  by (induction xs) auto

lemma write_done:
  assumes "handle_req c port now w s = Some (IO_REQ_DONE, w', s1)" "r_is_write w" "c_bytes w = Some d" "0 < cc_ways c"
    "\<not> ca_pending_refill s" "\<not> ca_refill_retry_pending s" "ca_enabled s"
  shows "\<exists>k off s0 w0 i t. line_access k off w0 s0 = Some (w', s1) \<and> c_bytes w0 = Some d \<and> r_is_write w0 \<and> r_size w0 = r_size w
    \<and> get_line c (r_addr w) s0 = (i, t, off, Some k) \<and> ca_enabled s0 \<and> \<not> ca_pending_refill s0 \<and> \<not> ca_refill_retry_pending s0"
proof -
  obtain i t off hit where g: "get_line c (r_addr w) s = (i, t, off, hit)" using prod_cases4 by blast
  show ?thesis
  proof (cases hit)
    case (Some k)
    have "\<exists>w0. line_access k off w0 s = Some (w', s1) \<and> c_bytes w0 = Some d \<and> r_is_write w0 \<and> r_size w0 = r_size w"
      using assms(1-3) by (auto simp: handle_req_def g Some Let_def split: if_splits)
    then show ?thesis using g Some assms(5-7) by blast
  next
    case None
    obtain line pending req1 s0 where r: "cache_refill c port now i (ucast (r_addr w)) t w s = (line, pending, req1, s0)"
      using prod_cases4 by blast
    obtain k where k: "line = Some k" "line_access k off req1 s0 = Some (w', s1)"
      using assms(1) by (auto simp: handle_req_def g None r split: option.splits if_splits)
    obtain v n where l: "step_lru c s = (n, s\<lparr>ca_lru_out := v\<rparr>)" by (simp add: step_lru_def Let_def)
    have f: "k = unat i * cc_ways c + n mod cc_ways c" "cn_tag (ca_lines s0 k) = t" "\<And>j. j \<noteq> k \<Longrightarrow> ca_lines s0 j = ca_lines s j"
        "c_bytes req1 = c_bytes w" "r_is_write req1 = r_is_write w" "r_size req1 = r_size w"
        "ca_enabled s0 = ca_enabled s" "ca_pending_refill s0 = ca_pending_refill s" "ca_refill_retry_pending s0 = ca_refill_retry_pending s"
      using r k(1) l assms(5) by (auto simp: cache_refill_def Let_def split: io_status.splits)
    have no: "cn_tag (ca_lines s j) \<noteq> t" if "j \<in> set (set_lines c i)" for j
      using g None that by (auto simp: get_line_def Let_def find_None_iff)
    have mem: "k \<in> set (set_lines c i)" using f(1) assms(4) by (auto simp: set_lines_def)
    have "List.find (\<lambda>j. cn_tag (ca_lines s0 j) = t) (set_lines c i) = Some k"
      by (rule find_only[OF mem]) (use f(2,3) no in auto)
    then have "get_line c (r_addr w) s0 = (i, t, off, Some k)" using g by (auto simp: get_line_def Let_def)
    then have "line_access k off req1 s0 = Some (w', s1) \<and> c_bytes req1 = Some d \<and> r_is_write req1 \<and> r_size req1 = r_size w
        \<and> get_line c (r_addr w) s0 = (i, t, off, Some k) \<and> ca_enabled s0 \<and> \<not> ca_pending_refill s0 \<and> \<not> ca_refill_retry_pending s0"
      using k(2) f(4-9) assms by simp
    then show ?thesis by blast
  qed
qed

section \<open>Properties\<close>

text \<open>The cache is transparent to reads. Over a memory of \<open>N\<close> bytes that does not change, and whatever the hits,
  misses, late or refused refills, queued requests, flushes and switches to the bypass in between,
  every read that is answered gets the bytes of the memory at its (relocated) address.\<close>

theorem cache_read_transparent:
  assumes "cache_run c (read_ok c N) (mem_readable mem N) outs B s" "(a, q) \<in> set outs"
  shows "c_bytes q = Some (mem_bytes mem (a + cc_refill_offset c) (unat (r_size q)))"
  using rd.run_inv[OF assms(1)] assms(2) unfolding read_result_def by blast

text \<open>C8: No request is forgotten. In every reachable state, once the refill in flight is answered, or the
  refused one retried, the event of the queue is enqueued until the queue is empty, and every
  queued request is answered, once and in the order of the queue; no copy is out of range and the
  assertion on the refill response holds.\<close>

theorem cache_drains:
  assumes "cache_run c (fit_ok c) (\<lambda>a n bs. length bs = n) outs B s" "\<forall>q. a_status (port q) = IO_REQ_DONE"
    "\<forall>q. length (a_bytes (port q)) = unat (r_size q)" "length bs = 2 ^ line_size_bits c"
  shows "\<exists>ups s1 ups' s2.
    (if ca_pending_refill s then cache_refill_resp (Refilled bs True) s
     else if ca_refill_retry_pending s then Some ([], snd (cache_refill_retry s)) else Some ([], s)) = Some (ups, s1)
    \<and> cache_drain c port now (length (ca_queue s1)) s1 = Some (ups', s2) \<and> ca_queue s2 = []
    \<and> map (\<lambda>x. c_id (snd x)) (responses (ups @ ups')) = map c_id (ca_queue s)"
proof -
  have ok: "ft.cache_ok c s" using ft.run_inv[OF assms(1)] by blast
  have port: "port_ok (\<lambda>a n bs. length bs = n) port" using assms(3) by (simp add: port_ok_def)
  have drain: "\<exists>ups' s2. cache_drain c port now (length (ca_queue s1)) s1 = Some (ups', s2) \<and> ca_queue s2 = []
      \<and> map (\<lambda>x. c_id (snd x)) (responses ups') = map c_id (ca_queue s1)"
    if "ft.cache_ok c s1" "\<not> ca_pending_refill s1" "\<not> ca_refill_retry_pending s1" for s1
    using ft.drain_all[OF that port assms(2), of now] by blast
  show ?thesis
  proof (cases "ca_pending_refill s")
    case True
    then have np: "\<not> ca_refill_retry_pending s" "ca_queue s \<noteq> []" using ok by (auto simp: ft.cache_ok_def ft.queue_ok_def)
    obtain q' s1 where r: "cache_refill_resp (Refilled bs True) s = Some ([Resp q'], s1)" "ft.cache_ok c s1" "ca_queue s1 = tl (ca_queue s)"
        "\<not> ca_pending_refill s1" "\<not> ca_refill_retry_pending s1" "c_id q' = c_id (hd (ca_queue s))"
      using ft.refill_resp_ok[OF ok True assms(4)] np(1) by metis
    obtain ups' s2 where d: "cache_drain c port now (length (ca_queue s1)) s1 = Some (ups', s2)" "ca_queue s2 = []"
        "map (\<lambda>x. c_id (snd x)) (responses ups') = map c_id (ca_queue s1)"
      using drain[OF r(2,4,5)] by blast
    have "map (\<lambda>x. c_id (snd x)) (responses ([Resp q'] @ ups')) = map c_id (ca_queue s)"
      using d(3) r(3,6) np(2) by (cases "ca_queue s") (simp_all add: responses_def)
    then show ?thesis using True r(1) d(1,2)
      by (intro exI[of _ "[Resp q']"], intro exI[of _ s1], intro exI[of _ ups'], intro exI[of _ s2]) (simp del: cache_refill_resp.simps)
  next
    case False
    define s1 where "s1 = (if ca_refill_retry_pending s then snd (cache_refill_retry s) else s)"
    have s1: "ca_queue s1 = ca_queue s" "\<not> ca_pending_refill s1" "\<not> ca_refill_retry_pending s1" "ft.cache_ok c s1"
      using False ok ft.retry_ok[OF ok, of _ "snd (cache_refill_retry s)"]
      by (auto simp: s1_def cache_refill_retry_def ft.check_state_ok Let_def)
    from drain[OF s1(4,2,3)] show ?thesis using False s1(1) by (auto simp: s1_def responses_def)
  qed
qed

text \<open>C18: A write is read back: a read of the same bytes that follows a write answered at once is answered at
  once, from the line, with the bytes that were written, whatever is behind the cache.\<close>

theorem cache_write_read:
  assumes "cache_input_req c port now w s = Some (IO_REQ_DONE, w', s1)" "ca_enabled s" "r_is_write w" "c_bytes w = Some d" "0 < cc_ways c"
    and "\<not> r_is_write r" "r_addr r = r_addr w" "r_size r = r_size w" "c_bytes r = Some e" "length e = unat (r_size r)"
  shows "\<exists>r'. cache_input_req c port' now' r s1 = Some (IO_REQ_DONE, r', s1) \<and> c_bytes r' = Some (take (unat (r_size w)) d)"
proof -
  have idle: "\<not> ca_pending_refill s" "\<not> ca_refill_retry_pending s" and h: "handle_req c port now w s = Some (IO_REQ_DONE, w', s1)"
    using assms(1,2) by (auto simp: cache_input_req_def Let_def split: if_splits option.splits)
  obtain k off s0 w0 i t where acc: "line_access k off w0 s0 = Some (w', s1)" "c_bytes w0 = Some d" "r_is_write w0" "r_size w0 = r_size w"
      and g: "get_line c (r_addr w) s0 = (i, t, off, Some k)"
      and s0: "ca_enabled s0" "\<not> ca_pending_refill s0" "\<not> ca_refill_retry_pending s0"
    using write_done[OF h assms(3-5) idle assms(2)] by metis
  obtain line where l: "blit off (unat (r_size w)) d (cn_data (ca_lines s0 k)) = Some line"
      and s1: "s1 = s0\<lparr>ca_lines := (ca_lines s0)(k := (ca_lines s0 k)\<lparr>cn_data := line\<rparr>)\<rparr>"
    using acc by (auto simp: line_access_def line_copy_def)
  have g1: "get_line c (r_addr r) s1 = (i, t, off, Some k)"
    using g assms(7) get_line_data[of c "r_addr w" s0 k line] by (simp add: s1)
  have d: "bslice off (unat (r_size w)) line = Some (take (unat (r_size w)) d)" using bslice_blit_same[OF l] .
  have n: "unat (r_size w) \<le> length d" using blit_SomeD(2)[OF l] .
  have same: "s1\<lparr>ca_lines := (ca_lines s1)(k := (ca_lines s1 k)\<lparr>cn_data := line\<rparr>)\<rparr> = s1" by (simp add: s1)
  have "line_access k off q s1 = Some (q\<lparr>c_bytes := Some (take (unat (r_size w)) d)\<rparr>, s1)"
    if "\<not> r_is_write q" "r_size q = r_size w" "c_bytes q = Some e" for q
    using that assms(8,10) d n same by (simp add: line_access_def line_copy_def s1 blit_def)
  then have "\<exists>r'. handle_req c port' now' r s1 = Some (IO_REQ_DONE, r', s1) \<and> c_bytes r' = Some (take (unat (r_size w)) d)"
    unfolding handle_req_def g1 using assms(6,8,9) by (simp add: Let_def)
  then show ?thesis using s0 by (auto simp: cache_input_req_def s1)
qed

text \<open>The documentation says that an access over the end of a line is refused with an error; it is not
  detected, and a hit copies out of the line.\<close>

theorem cache_straddle_undefined:
  assumes "get_line c (r_addr q) s = (i, t, off, Some k)" "length (cn_data (ca_lines s k)) < off + unat (r_size q)"
    "c_bytes q = Some d" "ca_enabled s" "\<not> ca_pending_refill s" "\<not> ca_refill_retry_pending s"
  shows "cache_input_req c port now q s = None"
  using assms bslice_undefined[of "cn_data (ca_lines s k)"] blit_undefined[of "cn_data (ca_lines s k)"]
  by (simp add: cache_input_req_def handle_req_def line_access_def line_copy_def Let_def)

text \<open>The status of a refill is not looked at: a line that could not be read is filled all the same and the
  request is answered without error.\<close>

theorem cache_refill_error_ignored:
  assumes "get_line c (r_addr q) s = (i, t, off, None)" "ca_enabled s" "\<not> ca_pending_refill s" "\<not> ca_refill_retry_pending s"
    "\<forall>x. a_status (port x) = IO_REQ_DONE \<and> a_resp (port x) = IO_RESP_INVALID" "c_bytes q = None"
  shows "\<exists>q' s' k. cache_input_req c port now q s = Some (IO_REQ_DONE, q', s') \<and> r_resp q' = r_resp q \<and> cn_tag (ca_lines s' k) = t"
  using assms by (auto simp: cache_input_req_def handle_req_def cache_refill_def line_access_def line_copy_def Let_def split: prod.splits)

text \<open>The tag of an empty line is also that of the last of 2^32 lines: of the last byte of the 4 GB when a line is one
  byte, of addresses beyond the 4 GB otherwise. A read there hits a line that was never filled.\<close>

theorem cache_empty_line_hit:
  assumes "qtag c q = -1" "\<forall>k. cn_tag (ca_lines s k) = -1" "0 < cc_ways c"
  shows "\<exists>i off k. get_line c (r_addr q) s = (i, -1, off, Some k)"
proof -
  have "set_lines c i = unat i * cc_ways c # map (\<lambda>j. unat i * cc_ways c + j) [1..<cc_ways c]" for i
    using assms(3) by (simp add: set_lines_def upt_conv_Cons)
  then show ?thesis using assms(1,2) by (simp add: get_line_def Let_def)
qed

text \<open>A reset drops the retry that the queue waits for without enqueuing the event of the queue: the
  queued requests wait until something else comes.\<close>

theorem cache_reset_strands:
  assumes "ca_queue s \<noteq> []" "ca_refill_retry_pending s" "\<not> ca_pending_refill s" "\<not> ca_fsm_event s"
  shows "(let s' = snd (cache_reset c bound True s) in ca_queue s' \<noteq> [] \<and> \<not> ca_pending_refill s' \<and> \<not> ca_refill_retry_pending s'
    \<and> \<not> ca_fsm_event s')"
  using assms by (simp add: cache_reset_def cache_flush_def Let_def)

text \<open>A flush does not stop the refill in flight: the line is valid after the response, with the data read before
  the flush.\<close>

theorem cache_flush_misses_refill:
  assumes "ca_queue s = q # rest" "c_bytes q = Some d" "cache_refill_resp (Refilled bs True) (snd (cache_flush bound s)) = Some (ups, s')"
  shows "cn_tag (ca_lines s' (ca_refill_line s)) = ca_refill_tag s"
  using assms by (auto simp: cache_flush_def line_access_def check_state_def Let_def)

text \<open>The refill of a late request without a data buffer replaces the data of its line but not its tag: the
  line now gives the data of another address.\<close>

theorem cache_null_request_wrong_data:
  assumes "ca_queue s = q # rest" "c_bytes q = None" "cache_refill_resp (Refilled bs True) s = Some (ups, s')"
  shows "cn_tag (ca_lines s' (ca_refill_line s)) = cn_tag (ca_lines s (ca_refill_line s)) \<and> cn_data (ca_lines s' (ca_refill_line s)) = bs"
  using assms by (auto simp: check_state_def Let_def)

text \<open>A request that comes while others are queued and the refill is over is served before them.\<close>

theorem cache_overtakes:
  assumes "get_line c (r_addr q) s = (i, t, off, Some k)" "c_bytes q = None" "ca_enabled s" "\<not> ca_pending_refill s"
    "\<not> ca_refill_retry_pending s" "ca_queue s = older"
  shows "\<exists>q' s'. cache_input_req c port now q s = Some (IO_REQ_DONE, q', s') \<and> ca_queue s' = older"
  using assms by (auto simp: cache_input_req_def handle_req_def line_access_def line_copy_def Let_def)

section \<open>Examples\<close>

text \<open>Two ways of one line of four bytes, over a memory whose bytes are their addresses.\<close>

definition demo_cache_cfg :: cache_cfg where
  "demo_cache_cfg = \<lparr>cc_size = 8, cc_line_size = 4, cc_ways = 2, cc_enabled = True, cc_refill_shift = 0, cc_refill_offset = 0x100,
     cc_refill_latency = 5\<rparr>"

definition demo_creq :: "u64 \<Rightarrow> u64 \<Rightarrow> bool \<Rightarrow> bytes \<Rightarrow> creq" where
  "demo_creq a n w d = \<lparr>r_addr = a, r_size = n, r_is_write = w, r_opcode = READ, r_data = 0, r_latency = 0, r_resp = IO_RESP_OK,
     r_remaining = 0, r_parent = 0, r_is_first = True, r_is_last = True, c_id = 7, c_bytes = Some d\<rparr>"

definition demo_refill_port :: "io_status \<Rightarrow> refill_port" where
  "demo_refill_port st q = \<lparr>a_status = st, a_latency = 3, a_resp = IO_RESP_OK, a_bytes = mem_bytes ucast (r_addr q) (unat (r_size q))\<rparr>"

definition demo_cache :: cache where
  "demo_cache = snd (cache_reset demo_cache_cfg False True (Cache demo_cache_cfg (\<lambda>_. [0, 0, 0, 0])))"

lemma demo_bits: "line_size_bits demo_cache_cfg = 2" "nb_sets demo_cache_cfg = 1"
  by (simp_all add: line_size_bits_def ceil_log2_def clz32_def bit_len.simps nb_sets_def demo_cache_cfg_def)

lemma demo_refill_port_ok: "port_ok (mem_readable ucast N) (demo_refill_port st)" "port_ok (\<lambda>a n bs. length bs = n) (demo_refill_port st)"
  by (simp_all add: port_ok_def demo_refill_port_def mem_readable_def mem_bytes_def)

lemma demo_run: "cache_run demo_cache_cfg Q D [] [] demo_cache"
  unfolding demo_cache_def by (rule cache_run.init) (simp add: demo_cache_cfg_def)

lemma demo_read_ok: "read_ok demo_cache_cfg 0x1000 (demo_creq 0x21 2 False [0, 0])" "fit_ok demo_cache_cfg (demo_creq 0x21 2 w [0, 0])"
  by (simp_all add: read_ok_def fit_ok_def cache_geometry_def demo_bits)
     (simp_all add: demo_creq_def demo_cache_cfg_def)

lemma demo_lines: "set_lines demo_cache_cfg 0 = [0, 1]"
  by (simp add: set_lines_def demo_cache_cfg_def upt_rec)

lemma demo_get_line: "get_line demo_cache_cfg 0x21 demo_cache = (0, 8, 1, None)"
  by (simp add: get_line_def demo_bits demo_lines Let_def) (simp add: demo_cache_def cache_reset_def cache_flush_def Cache_def)

lemma demo_flags: "ca_enabled demo_cache" "\<not> ca_pending_refill demo_cache" "\<not> ca_refill_retry_pending demo_cache" "ca_queue demo_cache = []"
  by (simp_all add: demo_cache_def cache_reset_def cache_flush_def Cache_def demo_cache_cfg_def)

lemma demo_creq_simps [simp]: "r_addr (demo_creq a n w d) = a" "r_size (demo_creq a n w d) = n" "r_is_write (demo_creq a n w d) = w"
  "c_bytes (demo_creq a n w d) = Some d" "c_id (demo_creq a n w d) = 7"
  by (simp_all add: demo_creq_def)

lemma demo_input:
  "\<exists>q s. cache_input_req demo_cache_cfg (demo_refill_port IO_REQ_DONE) 10 (demo_creq 0x21 2 w [0, 0]) demo_cache = Some (IO_REQ_DONE, q, s)"
proof -
  have ok: "ft.content_ok demo_cache_cfg demo_cache"
    using ft.run_inv[of demo_cache_cfg, OF demo_run] by (auto simp: ft.cache_ok_def)
  have "\<exists>q s. handle_req demo_cache_cfg (demo_refill_port IO_REQ_DONE) 10 (demo_creq 0x21 2 w [0, 0]) demo_cache = Some (IO_REQ_DONE, q, s)"
    by (rule ft.handle_req_cases[OF ok demo_read_ok(2) demo_flags(2) demo_refill_port_ok(2)[of IO_REQ_DONE], of 10 w])
       (auto simp: demo_refill_port_def)
  then show ?thesis using demo_flags by (auto simp: cache_input_req_def)
qed

lemma demo_late:
  "\<exists>s. cache_input_req demo_cache_cfg (demo_refill_port IO_REQ_GRANTED) 10 (demo_creq 0x21 2 w [0, 0]) demo_cache
      = Some (IO_REQ_GRANTED, demo_creq 0x21 2 w [0, 0], s) \<and> ca_pending_refill s \<and> ca_queue s = [demo_creq 0x21 2 w [0, 0]]"
proof -
  obtain n v where l: "step_lru demo_cache_cfg demo_cache = (n, demo_cache\<lparr>ca_lru_out := v\<rparr>)" by (simp add: step_lru_def Let_def)
  have st: "a_status (demo_refill_port x q) = x" for x q by (simp add: demo_refill_port_def)
  show ?thesis using demo_flags by (simp add: cache_input_req_def handle_req_def demo_get_line cache_refill_def l st Let_def)
qed

theorem cache_read_transparent_witness:
  "\<exists>q s. cache_input_req demo_cache_cfg (demo_refill_port IO_REQ_DONE) 10 (demo_creq 0x21 2 False [0, 0]) demo_cache = Some (IO_REQ_DONE, q, s)
     \<and> c_bytes q = Some (mem_bytes ucast 0x121 (unat (r_size q)))"
proof -
  obtain q s where i: "cache_input_req demo_cache_cfg (demo_refill_port IO_REQ_DONE) 10 (demo_creq 0x21 2 False [0, 0]) demo_cache = Some (IO_REQ_DONE, q, s)"
    using demo_input by blast
  have "cache_run demo_cache_cfg (read_ok demo_cache_cfg 0x1000) (mem_readable ucast 0x1000) [(0x21, q)] [] s"
    using cache_run.input[where Q = "read_ok demo_cache_cfg 0x1000" and D = "mem_readable ucast 0x1000",
        OF demo_run demo_read_ok(1) demo_refill_port_ok(1) i] by simp
  from cache_read_transparent[OF this, of "0x21" q] i show ?thesis by (simp add: demo_cache_cfg_def)
qed

theorem cache_drains_witness:
  "\<exists>s ups s1. ca_pending_refill s \<and> map c_id (ca_queue s) = [7] \<and> cache_refill_resp (Refilled [1, 2, 3, 4] True) s = Some (ups, s1)"
proof -
  obtain s where i: "cache_input_req demo_cache_cfg (demo_refill_port IO_REQ_GRANTED) 10 (demo_creq 0x21 2 False [0, 0]) demo_cache
      = Some (IO_REQ_GRANTED, demo_creq 0x21 2 False [0, 0], s)" "ca_pending_refill s" "ca_queue s = [demo_creq 0x21 2 False [0, 0]]"
    using demo_late by blast
  have r: "cache_run demo_cache_cfg (fit_ok demo_cache_cfg) (\<lambda>a n bs. length bs = n) [] [] s"
    using cache_run.input[where Q = "fit_ok demo_cache_cfg" and D = "\<lambda>a n bs. length bs = n",
        OF demo_run demo_read_ok(2) demo_refill_port_ok(2) i(1)] demo_flags(1) by simp
  have "\<forall>q. a_status (demo_refill_port IO_REQ_DONE q) = IO_REQ_DONE" "\<forall>q. length (a_bytes (demo_refill_port IO_REQ_DONE q)) = unat (r_size q)"
    "length [1, 2, 3, 4 :: u8] = 2 ^ line_size_bits demo_cache_cfg"
    by (simp_all add: demo_refill_port_def mem_bytes_def demo_bits)
  from cache_drains[OF r this, of 11] i(2,3) show ?thesis by (auto simp del: cache_refill_resp.simps)
qed

theorem cache_write_read_witness:
  "\<exists>q s r'. cache_input_req demo_cache_cfg (demo_refill_port IO_REQ_DONE) 10 (demo_creq 0x21 2 True [0, 0]) demo_cache = Some (IO_REQ_DONE, q, s)
     \<and> cache_input_req demo_cache_cfg (demo_refill_port IO_REQ_DENIED) 11 (demo_creq 0x21 2 False [9, 9]) s = Some (IO_REQ_DONE, r', s)
     \<and> c_bytes r' = Some [0, 0]"
proof -
  obtain q s where i: "cache_input_req demo_cache_cfg (demo_refill_port IO_REQ_DONE) 10 (demo_creq 0x21 2 True [0, 0]) demo_cache = Some (IO_REQ_DONE, q, s)"
    using demo_input by blast
  have "0 < cc_ways demo_cache_cfg" by (simp add: demo_cache_cfg_def)
  from cache_write_read[OF i demo_flags(1) _ _ this, of "[0, 0]" "demo_creq 0x21 2 False [9, 9]" "[9, 9]" "demo_refill_port IO_REQ_DENIED" 11] i
  show ?thesis by auto
qed

end
