(* ===== verification/CacheMemory.thy ===== *)
theory CacheMemory imports CacheV4 MemoryV3 begin

text \<open>
  The cache (\<open>src/models/cache/cache_v4.cpp\<close>) in front of the memory
  (\<open>src/models/memory/memory_v3.cpp\<close>): the requests that leave the refill port are requests to the memory, which
  answers them at once or, through whatever lies in between, later. The memory keeps its contents: the
  cache never writes a line back, and the masters only read.
\<close>

text \<open>The request that the memory receives for a read at \<open>a\<close> of as many bytes as its buffer has.\<close>

definition memory_read_req :: "u64 \<Rightarrow> bytes \<Rightarrow> mem_req" where
  "memory_read_req a buf = \<lparr>r_addr = a, r_size = of_nat (length buf), r_is_write = False, r_opcode = READ, r_data = 0,
     r_latency = 0, r_resp = IO_RESP_OK, r_remaining = 0, r_parent = 0, r_is_first = True, r_is_last = True,
     r_buf = Some buf, r_second = None, r_initiator = 0\<rparr>"

text \<open>\<open>bs\<close> is what a powered memory with the contents \<open>m\<close> leaves in the buffer of such a request.\<close>

definition served_by :: "memory_cfg \<Rightarrow> bytes \<Rightarrow> u64 \<Rightarrow> nat \<Rightarrow> bytes \<Rightarrow> bool" where
  "served_by mc m a n bs \<longleftrightarrow> (\<exists>cycles period buf ms q ms'. length buf = n \<and> n < 2 ^ 64 \<and> memory_wf mc ms \<and> mm_powered_up ms \<and> mm_data ms = m
     \<and> memory_req mc cycles period (memory_read_req a buf) ms = Some (IO_REQ_DONE, q, ms') \<and> r_buf q = Some bs)"

text \<open>A truncating memory has a size of a power of two.\<close>

definition memory_shape :: "memory_cfg \<Rightarrow> bool" where
  "memory_shape mc \<longleftrightarrow> (mc_truncate mc \<longrightarrow> (\<exists>k<64. mc_size mc = 2 ^ k))"

lemma memory_mask:
  assumes "memory_shape mc" "unat a < unat (mc_size mc)"
  shows "a AND memory_truncate_mask mc = a"
proof (cases "mc_truncate mc")
  case True
  then obtain k where k: "k < 64" "mc_size mc = 2 ^ k" using assms(1) by (auto simp: memory_shape_def)
  have "(2::nat) ^ k < 2 ^ 64" using k(1) by (rule power_strict_increasing) simp
  then have "unat (2 ^ k :: u64) = 2 ^ k" using unat_of_nat[of "2 ^ k", where 'a = 64] by simp
  then have u: "unat (mc_size mc) = 2 ^ k" using k(2) by simp
  have "a AND memory_truncate_mask mc = take_bit k a" using True k
    by (simp add: memory_truncate_mask_def take_bit_eq_mask mask_eq_exp_minus_1)
  moreover have "unat (take_bit k a) = unat a"
    using assms(2) u by (simp add: unsigned_take_bit_eq take_bit_nat_eq_self)
  ultimately show ?thesis by (auto intro: unsigned_word_eqI)
qed (simp add: memory_truncate_mask_def)

lemma served_readable:
  assumes "memory_shape mc" "served_by mc m a n bs"
  shows "mem_readable (\<lambda>x. m ! unat x) (unat (mc_size mc)) a n bs"
proof -
  obtain cy per buf ms q ms' where s: "length buf = n" "n < 2 ^ 64" "memory_wf mc ms" "mm_powered_up ms" "mm_data ms = m"
      "memory_req mc cy per (memory_read_req a buf) ms = Some (IO_REQ_DONE, q, ms')" "r_buf q = Some bs"
    using assms(2) by (auto simp: served_by_def)
  let ?r = "memory_read_req a buf"
  have r: "r_opcode ?r = READ" "r_buf ?r = Some buf" "unat (r_size ?r) = n" "r_addr ?r = a"
    using s(1,2) by (simp_all add: memory_read_req_def unat_of_nat)
  have len: "length bs = n"
    using s(6,7) r s(1) by (auto simp: memory_req_def Let_def memory_handle_read_def blit_def bslice_def split: if_splits)
  moreover have "bs = mem_bytes (\<lambda>x. m ! unat x) a n" if le: "unat a + n \<le> unat (mc_size mc)" and pos: "0 < n"
  proof -
    have off: "mem_offset mc ?r = a" using memory_mask[OF assms(1), of a] le pos r(4) by simp
    have inb: "memory_in_bounds mc ?r" using le r off by (simp add: memory_in_bounds_def)
    have bs: "bs = take n (drop (unat a) m)"
      using memory_req_read[OF s(3) inb r(1) s(4) r(2), of cy per] s r off by simp
    have lm: "length m = unat (mc_size mc)" using s(3,5) by (simp add: memory_wf_def)
    have "m ! (unat a + i) = m ! unat (a + of_nat i)" if "i < n" for i
    proof -
      have "unat a + i < 2 ^ 64" using le that unat_lt2p[of "mc_size mc"] by simp
      then show ?thesis by (simp add: unat_word_ariths unat_of_nat)
    qed
    then show ?thesis unfolding bs mem_bytes_def using le lm
      by (intro nth_equalityI) (auto simp: algebra_simps)
  qed
  moreover have "bs = mem_bytes (\<lambda>x. m ! unat x) a n" if "n = 0" using len that by (simp add: mem_bytes_def)
  ultimately show ?thesis unfolding mem_readable_def by blast
qed

lemma cache_run_mono:
  assumes "cache_run c Q D outs B s" "\<And>a n bs. D a n bs \<Longrightarrow> E a n bs"
  shows "cache_run c Q E outs B s"
  using assms(1)
proof (induction rule: cache_run.induct)
  case (input outs B s q port now st q' s')
  have "port_ok E port" using input.hyps(3) assms(2) by (auto simp: port_ok_def)
  then show ?case using cache_run.input[OF input.IH input.hyps(2) _ input.hyps(4)] by blast
next
  case (forwarded outs B s q q' bs l v ups s')
  show ?case by (rule cache_run.forwarded[OF forwarded.IH forwarded.hyps(2) _ forwarded.hyps(4)]) (use forwarded.hyps(3) assms(2) in blast)
next
  case (refill outs B s is_last bs ups s')
  show ?case by (rule cache_run.refill[OF refill.IH refill.hyps(2) _ refill.hyps(4)]) (use refill.hyps(3) assms(2) in blast)
next
  case (fsm outs B s port now ups s')
  have "port_ok E port" using fsm.hyps(3) assms(2) by (auto simp: port_ok_def)
  then show ?case using cache_run.fsm[OF fsm.IH fsm.hyps(2) _ fsm.hyps(4)] by blast
qed (auto intro: cache_run.init cache_run.retry cache_run.enable cache_run.flush cache_run.flush_line cache_run.flush_line_addr)

section \<open>Property\<close>

text \<open>C4: The cache and the memory together behave as the memory. Whatever the hits, misses, late or refused refills,
  flushes and switches to the bypass, and in whatever order the refills and the requests are served, every
  read answered by a cache in front of a memory gets the bytes that the memory holds at its address, relocated by
  the refill offset of the cache.\<close>

theorem cache_over_memory:
  assumes "cache_run c (read_ok c (unat (mc_size mc))) (served_by mc m) outs B s" "(a, q) \<in> set outs"
    "memory_shape mc" "length m = unat (mc_size mc)"
  shows "c_bytes q = Some (take (unat (r_size q)) (drop (unat (a + cc_refill_offset c)) m))"
proof -
  let ?a = "a + cc_refill_offset c"
  have "cache_run c (read_ok c (unat (mc_size mc))) (mem_readable (\<lambda>x. m ! unat x) (unat (mc_size mc))) outs B s"
    using assms(1) served_readable[OF assms(3)] by (rule cache_run_mono)
  then have b: "c_bytes q = Some (mem_bytes (\<lambda>x. m ! unat x) ?a (unat (r_size q)))" "unat ?a + unat (r_size q) \<le> length m"
    using rd.run_inv assms(2,4) unfolding read_result_def by fastforce+
  have "m ! (unat ?a + i) = m ! unat (?a + of_nat i)" if "i < unat (r_size q)" for i
  proof -
    have "unat ?a + i < 2 ^ 64" using assms(4) b(2) that unat_lt2p[of "mc_size mc"] by simp
    then show ?thesis by (simp add: unat_word_ariths unat_of_nat)
  qed
  then have "mem_bytes (\<lambda>x. m ! unat x) ?a (unat (r_size q)) = take (unat (r_size q)) (drop (unat ?a) m)"
    unfolding mem_bytes_def using b(2) by (intro nth_equalityI) (auto simp: algebra_simps)
  then show ?thesis using b(1) by simp
qed

section \<open>A concrete instance\<close>

definition demo_back_cfg :: memory_cfg where
  "demo_back_cfg = \<lparr>mc_size = 0x200, mc_latency = 1, mc_truncate = True, mc_align = 0, mc_init = False, mc_atomics = True\<rparr>"

definition demo_back :: memory where
  "demo_back = (demo_mem Map.empty)\<lparr>mm_data := replicate 0x200 7\<rparr>"

definition demo_back_port :: refill_port where
  "demo_back_port q = (case memory_req demo_back_cfg 0 1000 (memory_read_req (r_addr q) (replicate (unat (r_size q)) 0)) demo_back of
      None \<Rightarrow> \<lparr>a_status = IO_REQ_DENIED, a_latency = 0, a_resp = IO_RESP_OK, a_bytes = []\<rparr>
    | Some (st, r, ms) \<Rightarrow> \<lparr>a_status = st, a_latency = r_latency r, a_resp = r_resp r, a_bytes = the (r_buf r)\<rparr>)"

lemma demo_back_wf: "memory_wf demo_back_cfg demo_back" "mm_powered_up demo_back" "mm_data demo_back = replicate 0x200 7"
  by (simp_all add: memory_wf_def demo_back_cfg_def demo_back_def demo_mem_def)

lemma demo_back_ok: "port_ok (served_by demo_back_cfg (replicate 0x200 7)) demo_back_port"
proof -
  have "served_by demo_back_cfg (replicate 0x200 7) (r_addr q) (unat (r_size q)) (a_bytes (demo_back_port q))"
    if ok: "a_status (demo_back_port q) = IO_REQ_DONE" for q
  proof -
    let ?b = "replicate (unat (r_size q)) 0 :: bytes"
    obtain r ms where r: "memory_req demo_back_cfg 0 1000 (memory_read_req (r_addr q) ?b) demo_back = Some (IO_REQ_DONE, r, ms)"
        "a_bytes (demo_back_port q) = the (r_buf r)"
      using ok by (cases "memory_req demo_back_cfg 0 1000 (memory_read_req (r_addr q) ?b) demo_back") (auto simp: demo_back_port_def)
    have "r_opcode (memory_read_req (r_addr q) ?b) = READ" "r_buf (memory_read_req (r_addr q) ?b) = Some ?b"
      by (simp_all add: memory_read_req_def)
    then have "r_buf r \<noteq> None"
      using r(1) by (auto simp: memory_req_def Let_def memory_handle_read_def split: if_splits option.splits)
    then show ?thesis unfolding served_by_def using r demo_back_wf unat_lt2p[of "r_size q"]
      by (intro exI[of _ 0] exI[of _ 1000] exI[of _ ?b] exI[of _ demo_back] exI[of _ r] exI[of _ ms]) auto
  qed
  then show ?thesis by (simp add: port_ok_def)
qed

lemma demo_back_fill: "a_status (demo_back_port (fill_req demo_cache_cfg 0x120 d)) = IO_REQ_DONE"
  "length (a_bytes (demo_back_port (fill_req demo_cache_cfg 0x120 d))) = 4"
proof -
  let ?r = "memory_read_req 0x120 (replicate 4 0)"
  have "memory_in_bounds demo_back_cfg ?r"
    by (simp add: memory_in_bounds_def memory_read_req_def demo_back_cfg_def memory_truncate_mask_def)
  from memory_req_read[OF demo_back_wf(1) this _ demo_back_wf(2), of "replicate 4 0" 0 1000]
  show "a_status (demo_back_port (fill_req demo_cache_cfg 0x120 d)) = IO_REQ_DONE"
    "length (a_bytes (demo_back_port (fill_req demo_cache_cfg 0x120 d))) = 4"
    by (simp_all add: demo_back_port_def fill_req_def demo_bits demo_back_wf(3))
      (simp_all add: memory_read_req_def demo_back_cfg_def memory_truncate_mask_def)
qed

lemma demo_back_input:
  "\<exists>q s. cache_input_req demo_cache_cfg demo_back_port 10 (demo_creq 0x21 2 False [0, 0]) demo_cache = Some (IO_REQ_DONE, q, s)"
proof -
  obtain n v where l: "step_lru demo_cache_cfg demo_cache = (n, demo_cache\<lparr>ca_lru_out := v\<rparr>)" by (simp add: step_lru_def Let_def)
  have a: "full_addr demo_cache_cfg 0x21 = 0x120" by (simp add: full_addr_def demo_bits) (simp add: demo_cache_cfg_def)
  show ?thesis using demo_flags demo_back_fill
    by (simp add: cache_input_req_def handle_req_def demo_get_line cache_refill_def l a Let_def line_access_def line_copy_def bslice_def blit_def)
qed

theorem cache_over_memory_witness:
  "\<exists>q s. cache_input_req demo_cache_cfg demo_back_port 10 (demo_creq 0x21 2 False [0, 0]) demo_cache = Some (IO_REQ_DONE, q, s)
     \<and> c_bytes q = Some (take (unat (r_size q)) (drop 0x121 (replicate 0x200 7)))"
proof -
  obtain q s where i: "cache_input_req demo_cache_cfg demo_back_port 10 (demo_creq 0x21 2 False [0, 0]) demo_cache = Some (IO_REQ_DONE, q, s)"
    using demo_back_input by blast
  have sz: "unat (mc_size demo_back_cfg) = 0x200" "memory_shape demo_back_cfg" "cc_refill_offset demo_cache_cfg = 0x100"
    by (auto simp: demo_back_cfg_def memory_shape_def demo_cache_cfg_def intro: exI[of _ 9])
  have q: "read_ok demo_cache_cfg (unat (mc_size demo_back_cfg)) (demo_creq 0x21 2 False [0, 0])"
    unfolding sz by (simp add: read_ok_def cache_geometry_def demo_bits) (simp add: demo_creq_def demo_cache_cfg_def)
  have "cache_run demo_cache_cfg (read_ok demo_cache_cfg (unat (mc_size demo_back_cfg))) (served_by demo_back_cfg (replicate 0x200 7)) [(0x21, q)] [] s"
    using cache_run.input[where Q = "read_ok demo_cache_cfg (unat (mc_size demo_back_cfg))"
        and D = "served_by demo_back_cfg (replicate 0x200 7)", OF demo_run q demo_back_ok i] by simp
  from cache_over_memory[OF this, of "0x21" q] i sz show ?thesis by simp
qed

end
