(* ===== verification/RouterV2.thy ===== *)
theory RouterV2 imports AccessLog "HOL-Library.Signed_Division" begin

text \<open>
  Two of the address-decoding routers of the second request protocol: \<open>src/models/interco/router/
  router_v2_untimed.cpp\<close>, which forwards, and \<open>router_v2_bandwidth.cpp\<close>, which annotates the requests with the
  latency that its bandwidth implies and queues them while an output is stalled. \<open>rc_tree\<close> is the look-up of
  the mapping tree, which belongs to the engine. An output port is a function from the request it gets to the
  answer, with what the target leaves in the request. The requests of the masters from inside \<open>resp()\<close> are
  steps of their own. Not modelled: the thread that runs a debugger command around \<open>dispatch_proxy_req\<close>.
\<close>

section \<open>Requests and configuration\<close>

text \<open>What the field \<open>initiator\<close> of a request points to: something of its master, or the record that a router has
  put there, with the input port (its router and its number), the value it replaces and the waiting thread.\<close>

datatype initiator = Opaque u64 | InFlight (ifl_input: "(nat \<times> nat) option") (saved_initiator: initiator) (proxy_waiter: "nat option")

record rreq = io_req +
  q_id :: nat
  q_initiator :: initiator

record ranswer = io_answer +
  a_initiator :: initiator

record mapping_entry =
  me_id :: nat
  me_base :: u64
  me_size :: u64

record router_output =
  remove_offset :: u64
  add_offset :: u64
  mapping_latency :: int
  out_bound :: bool

record router_cfg =
  rc_name :: nat                \<comment> \<open>the router itself\<close>
  rc_tree :: "u64 \<Rightarrow> u64 \<Rightarrow> bool \<Rightarrow> mapping_entry option"
  rc_error_id :: int
  rc_entries :: "nat \<Rightarrow> router_output"
  rc_nb_inputs :: nat
  rc_bandwidth :: int
  rc_latency :: int

type_synonym targets = "nat \<Rightarrow> rreq \<Rightarrow> ranswer"

text \<open>What a router calls: a request accepted by an output, with the latency added to it; the responses and
  retries of its inputs; the threads it wakes.\<close>

datatype router_call =
  Accepted nat nat nat bool u64 int int   \<comment> \<open>input, output, request, whether it writes, size, cycle, latency\<close>
| Up "nat \<times> nat" rreq
| Up_retry nat
| Notify_replied nat
| Notify_retry nat

text \<open>The request after a target has answered.\<close>

definition target_answer :: "ranswer \<Rightarrow> rreq \<Rightarrow> rreq" where
  "target_answer a q = (if a_status a = IO_REQ_DENIED then q
     else q\<lparr>r_latency := a_latency a, r_resp := a_resp a, q_initiator := a_initiator a\<rparr>)"

section \<open>Decoding\<close>

text \<open>The entry of an access, unless it has to be answered with an error.\<close>

definition straddles :: "u64 \<Rightarrow> u64 \<Rightarrow> mapping_entry \<Rightarrow> bool" where
  "straddles addr sz e \<longleftrightarrow> me_size e \<noteq> 0 \<and> addr + sz > me_base e + me_size e"

definition router_decode :: "router_cfg \<Rightarrow> u64 \<Rightarrow> u64 \<Rightarrow> bool \<Rightarrow> nat option" where
  "router_decode c addr sz is_write =
     (case rc_tree c addr sz is_write of None \<Rightarrow> None
      | Some e \<Rightarrow> if int (me_id e) = rc_error_id c \<or> straddles addr sz e \<or> \<not> out_bound (rc_entries c (me_id e))
                  then None else Some (me_id e))"

definition out_addr :: "router_output \<Rightarrow> u64 \<Rightarrow> u64" where
  "out_addr out addr = addr - remove_offset out + add_offset out"

text \<open>The pulses of the address and size signals of an output.\<close>

definition router_log_access :: "int \<Rightarrow> int \<Rightarrow> u64 \<Rightarrow> u64 \<Rightarrow> access_log \<Rightarrow> (u64 \<times> u64 \<times> int option) \<times> access_log" where
  "router_log_access cycles period addr sz l =
     (let nb = (if cycles > last_logged_access l then 0 else nb_logged_access_in_same_cycle l);
          delay = (if nb > 0 then (if nb < 64 then Some (period - period div 2 ^ nb) else None) else Some 0)
      in ((addr, sz, delay), \<lparr>last_logged_access = cycles, nb_logged_access_in_same_cycle = nb + 1\<rparr>))"

section \<open>The untimed router\<close>

record untimed_router =
  ut_in_flight :: "nat \<rightharpoonup> (nat option \<times> nat option)"    \<comment> \<open>by request: input, waiting thread\<close>
  ut_proxy_retry_waiter :: "nat option"
  ut_log :: "nat \<Rightarrow> access_log"
  ut_pulses :: "(u64 \<times> u64 \<times> int option) list"

definition untimed_req_muxed ::
  "router_cfg \<Rightarrow> targets \<Rightarrow> int \<Rightarrow> int \<Rightarrow> rreq \<Rightarrow> nat \<Rightarrow> untimed_router \<Rightarrow> io_status \<times> rreq \<times> untimed_router" where
  "untimed_req_muxed c dn cycles period req port s =
     (case router_decode c (r_addr req) (r_size req) (r_is_write req) of
        None \<Rightarrow> (IO_REQ_DONE, req\<lparr>r_resp := IO_RESP_INVALID\<rparr>, s)
      | Some m \<Rightarrow>
         (let (p, l) = router_log_access cycles period (r_addr req) (r_size req) (ut_log s m);
              s1 = s\<lparr>ut_log := (ut_log s)(m := l), ut_pulses := ut_pulses s @ [p]\<rparr>;
              q = req\<lparr>r_addr := out_addr (rc_entries c m) (r_addr req)\<rparr>;
              a = dn m q
          in case a_status a of
               IO_REQ_DONE \<Rightarrow> (IO_REQ_DONE, target_answer a q, s1)
             | IO_REQ_GRANTED \<Rightarrow> (IO_REQ_GRANTED, target_answer a q, s1\<lparr>ut_in_flight := (ut_in_flight s1)(q_id req \<mapsto> (Some port, None))\<rparr>)
             | IO_REQ_DENIED \<Rightarrow> (IO_REQ_DENIED, req, s1)))"

text \<open>\<open>None\<close> is the failed assertion, or a response without an input.\<close>

definition untimed_resp_muxed :: "router_cfg \<Rightarrow> rreq \<Rightarrow> untimed_router \<Rightarrow> (router_call list \<times> untimed_router) option" where
  "untimed_resp_muxed c req s =
     (case ut_in_flight s (q_id req) of None \<Rightarrow> None
      | Some (inp, waiter) \<Rightarrow>
         (let s1 = (if r_is_last req then s\<lparr>ut_in_flight := (ut_in_flight s)(q_id req := None)\<rparr> else s)
          in case waiter of Some w \<Rightarrow> Some ([Notify_replied w], s1)
             | None \<Rightarrow> (case inp of None \<Rightarrow> None | Some i \<Rightarrow> Some ([Up (rc_name c, i) req], s1))))"

definition untimed_retry_muxed :: "router_cfg \<Rightarrow> untimed_router \<Rightarrow> router_call list \<times> untimed_router" where
  "untimed_retry_muxed c s =
     (map Up_retry [0..<rc_nb_inputs c] @ (case ut_proxy_retry_waiter s of None \<Rightarrow> [] | Some w \<Rightarrow> [Notify_retry w]),
      s\<lparr>ut_proxy_retry_waiter := None\<rparr>)"

definition untimed_dispatch_proxy_req ::
  "router_cfg \<Rightarrow> targets \<Rightarrow> rreq \<Rightarrow> nat \<Rightarrow> untimed_router \<Rightarrow> io_status \<times> rreq \<times> untimed_router" where
  "untimed_dispatch_proxy_req c dn req waiter s =
     (case router_decode c (r_addr req) (r_size req) (r_is_write req) of
        None \<Rightarrow> (IO_REQ_DONE, req\<lparr>r_resp := IO_RESP_INVALID\<rparr>, s)
      | Some m \<Rightarrow>
         (let q = req\<lparr>r_addr := out_addr (rc_entries c m) (r_addr req)\<rparr>; a = dn m q
          in case a_status a of
               IO_REQ_DONE \<Rightarrow> (IO_REQ_DONE, target_answer a q, s)
             | IO_REQ_GRANTED \<Rightarrow> (IO_REQ_GRANTED, target_answer a q, s\<lparr>ut_in_flight := (ut_in_flight s)(q_id req \<mapsto> (None, Some waiter))\<rparr>)
             | IO_REQ_DENIED \<Rightarrow> (IO_REQ_DENIED, req, s)))"

section \<open>The bandwidth router\<close>

record router_out =
  out_next_available_cycle :: int
  out_stalled :: bool
  out_log :: access_log

record router_in =
  in_next_available_cycle :: int
  in_queue :: "(rreq \<times> nat) list"

record router =
  rt_outs :: "nat \<Rightarrow> router_out"
  rt_ins :: "nat \<Rightarrow> router_in"
  rt_proxy_retry_waiter :: "nat option"
  rt_pulses :: "(u64 \<times> u64 \<times> int option) list"
  rt_reads :: nat
  rt_writes :: nat
  rt_bytes_read :: nat
  rt_bytes_written :: nat
  rt_errors :: nat

definition router_init :: router where
  "router_init = \<lparr>rt_outs = (\<lambda>_. \<lparr>out_next_available_cycle = 0, out_stalled = False, out_log = access_log_init\<rparr>),
     rt_ins = (\<lambda>_. \<lparr>in_next_available_cycle = 0, in_queue = []\<rparr>), rt_proxy_retry_waiter = None, rt_pulses = [],
     rt_reads = 0, rt_writes = 0, rt_bytes_read = 0, rt_bytes_written = 0, rt_errors = 0\<rparr>"

abbreviation set_out :: "nat \<Rightarrow> (router_out \<Rightarrow> router_out) \<Rightarrow> router \<Rightarrow> router" where
  "set_out m f s \<equiv> s\<lparr>rt_outs := (rt_outs s)(m := f (rt_outs s m))\<rparr>"

abbreviation set_in :: "nat \<Rightarrow> (router_in \<Rightarrow> router_in) \<Rightarrow> router \<Rightarrow> router" where
  "set_in i f s \<equiv> s\<lparr>rt_ins := (rt_ins s)(i := f (rt_ins s i))\<rparr>"

definition burst_duration :: "router_cfg \<Rightarrow> u64 \<Rightarrow> int" where
  "burst_duration c sz = (if rc_bandwidth c > 0 then (sint sz + rc_bandwidth c - 1) sdiv rc_bandwidth c else 0)"

definition forward_wait :: "int \<Rightarrow> nat \<Rightarrow> nat \<Rightarrow> router \<Rightarrow> int" where
  "forward_wait now i m s =
     (let wait_in = (if in_next_available_cycle (rt_ins s i) - now < 0 then 0 else in_next_available_cycle (rt_ins s i) - now);
          wait_out = (if out_next_available_cycle (rt_outs s m) - now < 0 then 0 else out_next_available_cycle (rt_outs s m) - now)
      in max wait_in wait_out)"

definition forward_inline ::
  "router_cfg \<Rightarrow> targets \<Rightarrow> int \<Rightarrow> int \<Rightarrow> nat \<Rightarrow> rreq \<Rightarrow> nat \<Rightarrow> router \<Rightarrow> io_status \<times> rreq \<times> router_call list \<times> router" where
  "forward_inline c dn now period i req m s =
     (let out = rc_entries c m;
          wait = forward_wait now i m s;
          burst = burst_duration c (r_size req);
          logical_latency = wait + rc_latency c + mapping_latency out + burst;
          (p, l) = router_log_access now period (r_addr req) (r_size req) (out_log (rt_outs s m));
          s1 = (set_out m (out_log_update (\<lambda>_. l)) s)\<lparr>rt_pulses := rt_pulses s @ [p]\<rparr>;
          q = req\<lparr>r_addr := out_addr out (r_addr req)\<rparr>;
          a = dn m q;
          q1 = target_answer a q;
          q2 = q1\<lparr>r_latency := r_latency q1 + logical_latency\<rparr>;
          s2 = set_out m (out_next_available_cycle_update (\<lambda>_. now + wait + burst))
                (set_in i (in_next_available_cycle_update (\<lambda>_. now + wait + burst)) s1);
          ev = [Accepted i m (q_id req) (r_is_write req) (r_size req) now logical_latency]
      in case a_status a of
           IO_REQ_DONE \<Rightarrow> (IO_REQ_DONE, q2, ev, s2)
         | IO_REQ_GRANTED \<Rightarrow> (IO_REQ_GRANTED, q2\<lparr>q_initiator := InFlight (Some (rc_name c, i)) (q_initiator q1) None\<rparr>, ev, s2)
         | IO_REQ_DENIED \<Rightarrow> (IO_REQ_DENIED, req, [], set_out m (out_stalled_update (\<lambda>_. True)) s1))"

definition router_req_muxed ::
  "router_cfg \<Rightarrow> targets \<Rightarrow> int \<Rightarrow> int \<Rightarrow> rreq \<Rightarrow> nat \<Rightarrow> router \<Rightarrow> io_status \<times> rreq \<times> router_call list \<times> router" where
  "router_req_muxed c dn now period req i s =
     (case router_decode c (r_addr req) (r_size req) (r_is_write req) of
        None \<Rightarrow> (IO_REQ_DONE, req\<lparr>r_resp := IO_RESP_INVALID\<rparr>, [], s\<lparr>rt_errors := rt_errors s + 1\<rparr>)
      | Some m \<Rightarrow>
         (let s1 = (if r_is_write req
                    then s\<lparr>rt_writes := rt_writes s + 1, rt_bytes_written := rt_bytes_written s + unat (r_size req)\<rparr>
                    else s\<lparr>rt_reads := rt_reads s + 1, rt_bytes_read := rt_bytes_read s + unat (r_size req)\<rparr>);
              queued = (\<lambda>q. set_in i (in_queue_update (\<lambda>qs. qs @ [(q, m)])))
          in if out_stalled (rt_outs s1 m) then (IO_REQ_GRANTED, req, [], queued req s1)
             else case forward_inline c dn now period i req m s1 of (st, q, ev, s2) \<Rightarrow>
                    if st = IO_REQ_DENIED then (IO_REQ_GRANTED, q, ev, queued q s2) else (st, q, ev, s2)))"

text \<open>The loop over the queue of an input, the queue taken out of the state. The code reads the output of a request
  that is denied again through a reference to the entry it has removed from the queue, which C++ leaves
  undefined; \<open>m\<close> is the value the entry had.\<close>

fun drain_loop ::
  "router_cfg \<Rightarrow> targets \<Rightarrow> int \<Rightarrow> int \<Rightarrow> nat \<Rightarrow> (rreq \<times> nat) list \<Rightarrow> router \<Rightarrow> router_call list \<times> (rreq \<times> nat) list \<times> router" where
  "drain_loop c dn now period i [] s = ([], [], s)"
| "drain_loop c dn now period i ((req, m) # rest) s =
     (if out_stalled (rt_outs s m) then ([], (req, m) # rest, s)
      else case forward_inline c dn now period i req m s of (st, q, ev, s1) \<Rightarrow>
             if st = IO_REQ_DENIED then ([], (q, m) # rest, s1)
             else case drain_loop c dn now period i rest s1 of (evs, left, s2) \<Rightarrow>
                    (ev @ (if st = IO_REQ_DONE then [Up (rc_name c, i) q] else []) @ evs, left, s2))"

definition drain_queue :: "router_cfg \<Rightarrow> targets \<Rightarrow> int \<Rightarrow> int \<Rightarrow> nat \<Rightarrow> router \<Rightarrow> router_call list \<times> router" where
  "drain_queue c dn now period i s =
     (case drain_loop c dn now period i (in_queue (rt_ins s i)) s of (evs, left, s1) \<Rightarrow>
        (evs, set_in i (in_queue_update (\<lambda>_. left)) s1))"

text \<open>A response finds its input in the request. The third component is the request as the router leaves it.\<close>

definition router_resp_muxed :: "rreq \<Rightarrow> (router_call list \<times> rreq) option" where
  "router_resp_muxed req =
     (case q_initiator req of Opaque _ \<Rightarrow> None
      | InFlight inp saved waiter \<Rightarrow>
         (let req1 = req\<lparr>q_initiator := saved\<rparr>; req2 = (if r_is_last req then req1 else req)
          in case waiter of
               Some w \<Rightarrow> Some (if r_is_last req then [Notify_replied w] else [], req2)
             | None \<Rightarrow> (case inp of None \<Rightarrow> None | Some i \<Rightarrow> Some ([Up i req1], req2))))"

primrec retry_inputs ::
  "router_cfg \<Rightarrow> targets \<Rightarrow> int \<Rightarrow> int \<Rightarrow> nat \<Rightarrow> nat list \<Rightarrow> router \<Rightarrow> router_call list \<times> router" where
  "retry_inputs c dn now period m [] s = ([], s)"
| "retry_inputs c dn now period m (i # js) s =
     (case (if in_queue (rt_ins s i) \<noteq> [] \<and> snd (hd (in_queue (rt_ins s i))) = m
            then drain_queue c dn now period i s else ([], s)) of (evs, s1) \<Rightarrow>
      case retry_inputs c dn now period m js s1 of (evs1, s2) \<Rightarrow> (evs @ evs1, s2))"

definition router_retry_muxed :: "router_cfg \<Rightarrow> targets \<Rightarrow> int \<Rightarrow> int \<Rightarrow> nat \<Rightarrow> router \<Rightarrow> router_call list \<times> router" where
  "router_retry_muxed c dn now period m s =
     (case retry_inputs c dn now period m [0..<rc_nb_inputs c] (set_out m (out_stalled_update (\<lambda>_. False)) s) of (evs, s1) \<Rightarrow>
        (evs @ (case rt_proxy_retry_waiter s1 of None \<Rightarrow> [] | Some w \<Rightarrow> [Notify_retry w]), s1\<lparr>rt_proxy_retry_waiter := None\<rparr>))"

definition router_dispatch_proxy_req ::
  "router_cfg \<Rightarrow> targets \<Rightarrow> rreq \<Rightarrow> nat \<Rightarrow> router \<Rightarrow> io_status \<times> rreq \<times> router" where
  "router_dispatch_proxy_req c dn req waiter s =
     (case router_decode c (r_addr req) (r_size req) (r_is_write req) of
        None \<Rightarrow> (IO_REQ_DONE, req\<lparr>r_resp := IO_RESP_INVALID\<rparr>, s)
      | Some m \<Rightarrow>
         if out_stalled (rt_outs s m) then (IO_REQ_DENIED, req, s)
         else (let q = req\<lparr>r_addr := out_addr (rc_entries c m) (r_addr req)\<rparr>; a = dn m q; q1 = target_answer a q
               in case a_status a of
                    IO_REQ_DONE \<Rightarrow> (IO_REQ_DONE, q1, s)
                  | IO_REQ_GRANTED \<Rightarrow> (IO_REQ_GRANTED, q1\<lparr>q_initiator := InFlight None (q_initiator q1) (Some waiter)\<rparr>, s)
                  | IO_REQ_DENIED \<Rightarrow> (IO_REQ_DENIED, req, set_out m (out_stalled_update (\<lambda>_. True)) s)))"

section \<open>Runs\<close>

text \<open>The runs of a bandwidth router with \<open>n\<close> outputs, with the calls it has made, at any times and for any answers
  of the targets.\<close>

inductive router_run :: "router_cfg \<Rightarrow> nat \<Rightarrow> router_call list \<Rightarrow> router \<Rightarrow> bool" for c n where
  init: "router_run c n [] router_init"
| req: "router_run c n evs s \<Longrightarrow> i < rc_nb_inputs c \<Longrightarrow> 0 \<le> sint (r_size req)
    \<Longrightarrow> router_req_muxed c dn now period req i s = (st, q, ev, s') \<Longrightarrow> router_run c n (evs @ ev) s'"
| retry: "router_run c n evs s \<Longrightarrow> m < n \<Longrightarrow> router_retry_muxed c dn now period m s = (ev, s') \<Longrightarrow> router_run c n (evs @ ev) s'"
| proxy: "router_run c n evs s \<Longrightarrow> router_dispatch_proxy_req c dn req w s = (st, q, s') \<Longrightarrow> router_run c n evs s'"
| proxy_wait: "router_run c n evs s \<Longrightarrow> router_run c n evs (s\<lparr>rt_proxy_retry_waiter := w\<rparr>)"

text \<open>The cycles that an accepted request occupies on its input and on its output: the latency added to it, less
  that of the router and of the mapping, ends with its burst.\<close>

fun window :: "router_cfg \<Rightarrow> router_call \<Rightarrow> int \<times> int" where
  "window c (Accepted i m q wr sz t lat) =
     (let e = t + lat - rc_latency c - mapping_latency (rc_entries c m) in (e - burst_duration c sz, e))"
| "window c _ = (0, 0)"

fun accepted_by :: "(nat \<Rightarrow> nat \<Rightarrow> bool) \<Rightarrow> router_call \<Rightarrow> bool" where
  "accepted_by P (Accepted i m q wr sz t lat) = P i m"
| "accepted_by P _ = False"

abbreviation on_input :: "nat \<Rightarrow> router_call \<Rightarrow> bool" where "on_input i \<equiv> accepted_by (\<lambda>i' m. i' = i)"
abbreviation on_output :: "nat \<Rightarrow> router_call \<Rightarrow> bool" where "on_output m \<equiv> accepted_by (\<lambda>i m'. m' = m)"

fun accepted_size :: "router_call \<Rightarrow> int" where
  "accepted_size (Accepted i m q wr sz t lat) = sint sz"
| "accepted_size _ = 0"

fun accepted_id :: "router_call \<Rightarrow> nat" where
  "accepted_id (Accepted i m q wr sz t lat) = q"
| "accepted_id _ = 0"

section \<open>Windows\<close>

text \<open>The windows of a port follow each other and end before the port is available again.\<close>

definition window_chain :: "router_cfg \<Rightarrow> (router_call \<Rightarrow> bool) \<Rightarrow> int \<Rightarrow> router_call list \<Rightarrow> bool" where
  "window_chain c P nxt evs \<longleftrightarrow> sorted_wrt (\<lambda>v w. snd v \<le> fst w) (map (window c) (filter P evs))
     \<and> (\<forall>e\<in>set evs. P e \<longrightarrow> snd (window c e) \<le> nxt)"

definition window_inv :: "router_cfg \<Rightarrow> router_call list \<Rightarrow> router \<Rightarrow> bool" where
  "window_inv c evs s \<longleftrightarrow> (\<forall>i. window_chain c (on_input i) (in_next_available_cycle (rt_ins s i)) evs)
     \<and> (\<forall>m. window_chain c (on_output m) (out_next_available_cycle (rt_outs s m)) evs)
     \<and> (\<forall>e\<in>set evs. 0 \<le> accepted_size e)"

text \<open>The sizes of the queued requests are those of requests made.\<close>

definition queue_sizes :: "router \<Rightarrow> bool" where
  "queue_sizes s \<longleftrightarrow> (\<forall>i. \<forall>(q, m)\<in>set (in_queue (rt_ins s i)). 0 \<le> sint (r_size q))"

lemma chain_none: "\<forall>e\<in>set ev. \<not> P e \<Longrightarrow> window_chain c P nxt (evs @ ev) = window_chain c P nxt evs"
  by (auto simp: window_chain_def filter_empty_conv)

lemma chain_snoc:
  "window_chain c P nxt evs \<Longrightarrow> nxt \<le> fst (window c e) \<Longrightarrow> fst (window c e) \<le> snd (window c e) \<Longrightarrow> snd (window c e) \<le> nxt'
    \<Longrightarrow> window_chain c P nxt' (evs @ [e])"
  by (fastforce simp: window_chain_def sorted_wrt_append)

lemma window_inv_other:
  assumes "\<forall>e\<in>set ev. \<not> accepted_by (\<lambda>_ _. True) e"
  shows "window_inv c (evs @ ev) s = window_inv c evs s"
proof -
  have n: "\<not> accepted_by P e \<and> 0 \<le> accepted_size e" if "e \<in> set ev" for P e using assms that by (cases e) auto
  then have "window_chain c (accepted_by P) nxt (evs @ ev) = window_chain c (accepted_by P) nxt evs" for P nxt
    by (intro chain_none) auto
  then show ?thesis using n by (auto simp: window_inv_def)
qed

lemma burst_nonneg: "0 \<le> sint sz \<Longrightarrow> 0 \<le> burst_duration c sz"
  by (auto simp: burst_duration_def signed_divide_int_def sgn_if pos_imp_zdiv_nonneg_iff)

lemma burst_covers: "0 < rc_bandwidth c \<Longrightarrow> 0 \<le> sint sz \<Longrightarrow> sint sz \<le> rc_bandwidth c * burst_duration c sz"
proof -
  assume b: "0 < rc_bandwidth c" and s: "0 \<le> sint sz"
  let ?b = "rc_bandwidth c" and ?x = "sint sz + rc_bandwidth c - 1"
  have "burst_duration c sz = ?x div ?b" using b s by (simp add: burst_duration_def signed_divide_int_def sgn_if)
  moreover have "?b * (?x div ?b) + ?x mod ?b = ?x" by simp
  moreover have "?x mod ?b \<le> ?b - 1" using b by (simp add: pos_mod_bound zle_diff1_eq)
  ultimately have "sint sz \<le> ?b * (?x div ?b)" by linarith
  then show ?thesis using \<open>burst_duration c sz = ?x div ?b\<close> by simp
qed

text \<open>A forwarded request is accepted or denied; denied, it is given back as it was and its output is stalled.\<close>

lemma forward_cases:
  assumes "forward_inline c dn now period i req m s = (st, q, ev, s')"
  obtains (denied) "st = IO_REQ_DENIED" "q = req" "ev = []" "out_stalled (rt_outs s' m)"
      "\<And>m'. m' \<noteq> m \<Longrightarrow> rt_outs s' m' = rt_outs s m'"
      "out_next_available_cycle (rt_outs s' m) = out_next_available_cycle (rt_outs s m)" "rt_ins s' = rt_ins s"
      "\<exists>q'. a_status (dn m q') = IO_REQ_DENIED" "rt_proxy_retry_waiter s' = rt_proxy_retry_waiter s"
  | (accepted) lat where "st \<noteq> IO_REQ_DENIED" "ev = [Accepted i m (q_id req) (r_is_write req) (r_size req) now lat]"
      "out_stalled (rt_outs s' m) = out_stalled (rt_outs s m)" "\<And>m'. m' \<noteq> m \<Longrightarrow> rt_outs s' m' = rt_outs s m'"
      "\<And>j. in_queue (rt_ins s' j) = in_queue (rt_ins s j)" "\<And>j. j \<noteq> i \<Longrightarrow> rt_ins s' j = rt_ins s j"
      "out_next_available_cycle (rt_outs s' m) = snd (window c (hd ev))" "in_next_available_cycle (rt_ins s' i) = snd (window c (hd ev))"
      "out_next_available_cycle (rt_outs s m) \<le> fst (window c (hd ev))" "in_next_available_cycle (rt_ins s i) \<le> fst (window c (hd ev))"
      "now \<le> fst (window c (hd ev))" "rt_proxy_retry_waiter s' = rt_proxy_retry_waiter s"
proof -
  obtain p l where log: "router_log_access now period (r_addr req) (r_size req) (out_log (rt_outs s m)) = (p, l)" by fastforce
  let ?q = "req\<lparr>r_addr := out_addr (rc_entries c m) (r_addr req)\<rparr>"
  note F = assms[unfolded forward_inline_def log Let_def prod.case]
  show thesis
  proof (cases "a_status (dn m ?q) = IO_REQ_DENIED")
    case True
    with F show thesis by (intro denied) auto
  next
    case False
    then have "st \<noteq> IO_REQ_DENIED" "ev = [Accepted i m (q_id req) (r_is_write req) (r_size req) now (forward_wait now i m s + rc_latency c
        + mapping_latency (rc_entries c m) + burst_duration c (r_size req))]"
      using F by (cases "a_status (dn m ?q)"; simp)+
    moreover have "rt_outs s' = (rt_outs s)(m := (rt_outs s m)\<lparr>out_log := l, out_next_available_cycle := now + forward_wait now i m s + burst_duration c (r_size req)\<rparr>)"
        "rt_ins s' = (rt_ins s)(i := (rt_ins s i)\<lparr>in_next_available_cycle := now + forward_wait now i m s + burst_duration c (r_size req)\<rparr>)"
        "rt_proxy_retry_waiter s' = rt_proxy_retry_waiter s"
      using F False by (cases "a_status (dn m ?q)"; auto)+
    moreover have "out_next_available_cycle (rt_outs s m) \<le> now + forward_wait now i m s"
        "in_next_available_cycle (rt_ins s i) \<le> now + forward_wait now i m s" "0 \<le> forward_wait now i m s"
      by (auto simp: forward_wait_def Let_def)
    ultimately show thesis by (intro accepted) (auto simp: Let_def)
  qed
qed

lemma forward_windows:
  assumes "forward_inline c dn now period i req m s = (st, q, ev, s')" "window_inv c evs s" "0 \<le> sint (r_size req)"
  shows "window_inv c (evs @ ev) s'"
  using assms(1)
proof (cases rule: forward_cases)
  case denied
  then have "out_next_available_cycle (rt_outs s' m') = out_next_available_cycle (rt_outs s m')" for m' by (cases "m' = m") auto
  then show ?thesis using denied assms(2) by (simp add: window_inv_def)
next
  case (accepted lat)
  let ?e = "Accepted i m (q_id req) (r_is_write req) (r_size req) now lat"
  have w: "fst (window c ?e) \<le> snd (window c ?e)" using burst_nonneg[OF assms(3), of c] by (simp add: Let_def)
  have "window_chain c (on_input j) (in_next_available_cycle (rt_ins s' j)) (evs @ [?e])" for j
  proof (cases "j = i")
    case True
    show ?thesis unfolding True by (rule chain_snoc[of c _ "in_next_available_cycle (rt_ins s i)"]) (use w accepted assms(2) in \<open>auto simp: window_inv_def\<close>)
  next
    case False
    then show ?thesis using accepted(6) assms(2) by (subst chain_none) (auto simp: window_inv_def)
  qed
  moreover have "window_chain c (on_output m') (out_next_available_cycle (rt_outs s' m')) (evs @ [?e])" for m'
  proof (cases "m' = m")
    case True
    show ?thesis unfolding True by (rule chain_snoc[of c _ "out_next_available_cycle (rt_outs s m)"]) (use w accepted assms(2) in \<open>auto simp: window_inv_def\<close>)
  next
    case False
    then show ?thesis using accepted(4) assms(2) by (subst chain_none) (auto simp: window_inv_def)
  qed
  ultimately show ?thesis using accepted(2) assms(2,3) by (auto simp: window_inv_def)
qed


lemma drain_windows:
  assumes "drain_loop c dn now period i qs s = (ev, left, s')" "window_inv c evs s" "\<forall>(q, m)\<in>set qs. 0 \<le> sint (r_size q)"
  shows "window_inv c (evs @ ev) s' \<and> (\<forall>(q, m)\<in>set left. 0 \<le> sint (r_size q)) \<and> (\<forall>j. in_queue (rt_ins s' j) = in_queue (rt_ins s j))"
  using assms
proof (induction c dn now period i qs s arbitrary: ev left s' evs rule: drain_loop.induct)
  case (2 c dn now period i req m rest s)
  show ?case
  proof (cases "out_stalled (rt_outs s m)")
    case True
    then show ?thesis using 2 by auto
  next
    case False
    obtain st q ev1 s1 where f: "forward_inline c dn now period i req m s = (st, q, ev1, s1)" using prod_cases4 by blast
    have w: "window_inv c (evs @ ev1) s1" using forward_windows[OF f 2(3)] 2(4) by auto
    show ?thesis
    proof (cases "st = IO_REQ_DENIED")
      case True
      with f have "ev1 = []" "q = req" "rt_ins s1 = rt_ins s" by (auto elim: forward_cases)
      then show ?thesis using 2(2,4) False f True w by auto
    next
      case st: False
      obtain ev2 s2 where d: "drain_loop c dn now period i rest s1 = (ev2, left, s2)" "s' = s2"
          "ev = ev1 @ (if st = IO_REQ_DONE then [Up (rc_name c, i) q] else []) @ ev2"
        using 2(2) False f st by (auto split: prod.splits)
      let ?u = "if st = IO_REQ_DONE then [Up (rc_name c, i) q] else []"
      have "window_inv c ((evs @ ev1) @ ?u) s1" using w by (subst window_inv_other) auto
      then have "window_inv c (((evs @ ev1) @ ?u) @ ev2) s2 \<and> (\<forall>(q, m)\<in>set left. 0 \<le> sint (r_size q))
          \<and> (\<forall>j. in_queue (rt_ins s2 j) = in_queue (rt_ins s1 j))"
        by (rule 2(1)[OF False f[symmetric] refl refl st d(1)]) (use 2(4) in auto)
      moreover have "in_queue (rt_ins s1 j) = in_queue (rt_ins s j)" for j using f st by (cases rule: forward_cases) auto
      ultimately show ?thesis using d by simp
    qed
  qed
qed auto

lemma retry_windows:
  assumes "retry_inputs c dn now period m js s = (ev, s')" "window_inv c evs s" "queue_sizes s"
  shows "window_inv c (evs @ ev) s' \<and> queue_sizes s'"
  using assms
proof (induction js arbitrary: s ev evs)
  case (Cons i js)
  obtain ev1 s1 where d: "(if in_queue (rt_ins s i) \<noteq> [] \<and> snd (hd (in_queue (rt_ins s i))) = m
            then drain_queue c dn now period i s else ([], s)) = (ev1, s1)" by fastforce
  have "window_inv c (evs @ ev1) s1 \<and> queue_sizes s1"
  proof (cases "in_queue (rt_ins s i) \<noteq> [] \<and> snd (hd (in_queue (rt_ins s i))) = m")
    case True
    obtain left s0 where l: "drain_loop c dn now period i (in_queue (rt_ins s i)) s = (ev1, left, s0)"
        "s1 = set_in i (in_queue_update (\<lambda>_. left)) s0"
      using d True by (auto simp: drain_queue_def split: prod.splits)
    have q: "\<forall>(q, m)\<in>set (in_queue (rt_ins s i)). 0 \<le> sint (r_size q)" using Cons.prems(3) by (auto simp: queue_sizes_def)
    show ?thesis using drain_windows[OF l(1) Cons.prems(2) q] Cons.prems(3) unfolding l(2)
      by (auto simp: window_inv_def queue_sizes_def)
  next
    case False
    then have "ev1 = []" "s1 = s" using d by auto
    then show ?thesis using Cons.prems by simp
  qed
  moreover obtain ev2 where r: "retry_inputs c dn now period m js s1 = (ev2, s')" "ev = ev1 @ ev2"
    using Cons.prems(1) d by (auto split: prod.splits)
  ultimately show ?case using Cons.IH[OF r(1)] r(2) by fastforce
qed simp

text \<open>A state that differs in what the windows do not depend on.\<close>

lemma window_inv_cong:
  "(\<And>i. in_next_available_cycle (rt_ins s' i) = in_next_available_cycle (rt_ins s i)) \<Longrightarrow>
   (\<And>m. out_next_available_cycle (rt_outs s' m) = out_next_available_cycle (rt_outs s m)) \<Longrightarrow> window_inv c evs s \<Longrightarrow> window_inv c evs s'"
  by (simp add: window_inv_def)

lemma req_windows:
  assumes "router_req_muxed c dn now period req i s = (st, q, ev, s')" "window_inv c evs s" "queue_sizes s" "0 \<le> sint (r_size req)"
  shows "window_inv c (evs @ ev) s' \<and> queue_sizes s'"
proof (cases "router_decode c (r_addr req) (r_size req) (r_is_write req)")
  case None
  then have "ev = []" "s' = s\<lparr>rt_errors := rt_errors s + 1\<rparr>" using assms(1) by (simp_all add: router_req_muxed_def)
  then show ?thesis using assms(2,3) by (simp add: window_inv_def queue_sizes_def)
next
  case (Some m)
  define s1 where "s1 = (if r_is_write req
     then s\<lparr>rt_writes := rt_writes s + 1, rt_bytes_written := rt_bytes_written s + unat (r_size req)\<rparr>
     else s\<lparr>rt_reads := rt_reads s + 1, rt_bytes_read := rt_bytes_read s + unat (r_size req)\<rparr>)"
  have s1: "rt_ins s1 = rt_ins s" "rt_outs s1 = rt_outs s" by (simp_all add: s1_def)
  have w: "window_inv c evs s1" "queue_sizes s1" using assms(2,3) s1 by (simp_all add: window_inv_def queue_sizes_def)
  show ?thesis
  proof (cases "out_stalled (rt_outs s m)")
    case True
    then have "s' = set_in i (in_queue_update (\<lambda>qs. qs @ [(req, m)])) s1" "ev = []"
      using assms(1) Some s1 by (auto simp: router_req_muxed_def s1_def[symmetric] Let_def)
    then show ?thesis using w assms(4) by (auto simp: window_inv_def queue_sizes_def)
  next
    case False
    obtain st1 q1 ev1 s2 where f: "forward_inline c dn now period i req m s1 = (st1, q1, ev1, s2)" using prod_cases4 by blast
    have e: "ev = ev1" "s' = (if st1 = IO_REQ_DENIED then set_in i (in_queue_update (\<lambda>qs. qs @ [(q1, m)])) s2 else s2)"
      using assms(1) Some False f s1 by (auto simp: router_req_muxed_def s1_def[symmetric] Let_def split: if_splits)
    have "in_queue (rt_ins s2 j) = in_queue (rt_ins s1 j)" for j using f by (cases rule: forward_cases) auto
    moreover have "st1 = IO_REQ_DENIED \<Longrightarrow> q1 = req" using f by (auto elim: forward_cases)
    ultimately show ?thesis using forward_windows[OF f w(1) assms(4)] w(2) assms(4) unfolding e
      by (auto simp: window_inv_def queue_sizes_def)
  qed
qed

lemma run_windows: "router_run c n evs s \<Longrightarrow> window_inv c evs s \<and> queue_sizes s"
proof (induction rule: router_run.induct)
  case init
  then show ?case by (simp add: window_inv_def window_chain_def queue_sizes_def router_init_def)
next
  case (req evs s i req dn now period st q ev s')
  then show ?case using req_windows[OF req.hyps(4)] by blast
next
  case (retry evs s m dn now period ev s')
  obtain ev1 s1 where r: "retry_inputs c dn now period m [0..<rc_nb_inputs c] (set_out m (out_stalled_update (\<lambda>_. False)) s) = (ev1, s1)"
    by fastforce
  have "window_inv c evs (set_out m (out_stalled_update (\<lambda>_. False)) s)" "queue_sizes (set_out m (out_stalled_update (\<lambda>_. False)) s)"
    using retry.IH by (auto simp: window_inv_def queue_sizes_def)
  from retry_windows[OF r this] have w: "window_inv c (evs @ ev1) s1 \<and> queue_sizes s1" .
  have "ev = ev1 @ (case rt_proxy_retry_waiter s1 of None \<Rightarrow> [] | Some w \<Rightarrow> [Notify_retry w])" "s' = s1\<lparr>rt_proxy_retry_waiter := None\<rparr>"
    using retry.hyps(3) r by (auto simp: router_retry_muxed_def)
  then show ?case using w by (auto simp: window_inv_def queue_sizes_def window_chain_def split: option.splits)
next
  case (proxy evs s dn req w st q s')
  then have "rt_ins s' = rt_ins s" "\<And>m. out_next_available_cycle (rt_outs s' m) = out_next_available_cycle (rt_outs s m)"
    by (auto simp: router_dispatch_proxy_req_def Let_def split: option.splits if_splits io_status.splits)
  then show ?case using proxy.IH by (simp add: window_inv_def queue_sizes_def)
qed (simp add: window_inv_def queue_sizes_def)

section \<open>Bandwidth\<close>

text \<open>The sizes of the requests whose windows lie in an interval.\<close>

definition bytes_within :: "router_cfg \<Rightarrow> (router_call \<Rightarrow> bool) \<Rightarrow> int \<Rightarrow> int \<Rightarrow> router_call list \<Rightarrow> int" where
  "bytes_within c P a b evs = sum_list (map accepted_size (filter (\<lambda>e. P e \<and> a \<le> fst (window c e) \<and> snd (window c e) \<le> b) evs))"

lemma sorted_windows_sum:
  assumes "sorted_wrt (\<lambda>v w. snd v \<le> fst w) (map f es)" "\<forall>e\<in>set es. a \<le> fst (f e) \<and> fst (f e) \<le> snd (f e) \<and> snd (f e) \<le> b" "a \<le> (b :: int)"
  shows "(\<Sum>e\<leftarrow>es. snd (f e) - fst (f e)) \<le> b - a"
  using assms
proof (induction es arbitrary: a)
  case (Cons e es)
  have "(\<Sum>e\<leftarrow>es. snd (f e) - fst (f e)) \<le> b - snd (f e)" using Cons.prems by (intro Cons.IH) auto
  then show ?case using Cons.prems(2) by force
qed simp

lemma bytes_bounded:
  assumes "0 < rc_bandwidth c" "window_chain c P nxt evs" "\<forall>e\<in>set evs. 0 \<le> accepted_size e" "\<And>e. P e \<Longrightarrow> accepted_by (\<lambda>_ _. True) e" "a \<le> b"
  shows "bytes_within c P a b evs \<le> rc_bandwidth c * (b - a)"
proof -
  define es where "es = filter (\<lambda>e. P e \<and> a \<le> fst (window c e) \<and> snd (window c e) \<le> b) evs"
  have e: "accepted_size e \<le> rc_bandwidth c * (snd (window c e) - fst (window c e)) \<and> fst (window c e) \<le> snd (window c e)"
    if "e \<in> set evs" "P e" for e
    using assms(1,3) that assms(4)[OF that(2)] burst_covers[of c] burst_nonneg[of _ c]
    by (cases e) (force simp: Let_def)+
  have "sorted_wrt (\<lambda>v w. snd v \<le> fst w) (map (window c) es)"
  proof -
    have "es = filter (\<lambda>e. a \<le> fst (window c e) \<and> snd (window c e) \<le> b) (filter P evs)" by (simp add: es_def conj_commute)
    then show ?thesis using assms(2) unfolding window_chain_def sorted_wrt_map by (metis sorted_wrt_filter)
  qed
  moreover have "\<forall>e\<in>set es. a \<le> fst (window c e) \<and> fst (window c e) \<le> snd (window c e) \<and> snd (window c e) \<le> b"
    using e by (auto simp: es_def)
  ultimately have s: "(\<Sum>e\<leftarrow>es. snd (window c e) - fst (window c e)) \<le> b - a" by (rule sorted_windows_sum[OF _ _ assms(5)])
  have "(\<Sum>e\<leftarrow>es. accepted_size e) \<le> (\<Sum>e\<leftarrow>es. rc_bandwidth c * (snd (window c e) - fst (window c e)))"
    using e by (intro sum_list_mono) (auto simp: es_def)
  also have "\<dots> = rc_bandwidth c * (\<Sum>e\<leftarrow>es. snd (window c e) - fst (window c e))" by (simp add: sum_list_const_mult)
  also have "\<dots> \<le> rc_bandwidth c * (b - a)" using s assms(1) by simp
  finally show ?thesis by (simp add: bytes_within_def es_def)
qed

text \<open>The channel that a request takes by the documentation (\<open>src/models/interco/router_v2.py\<close>): one for all
  requests when \<open>shared_rw_channel\<close> is set, else one for the reads and one for the writes.\<close>

fun on_channel :: "bool \<Rightarrow> bool \<Rightarrow> router_call \<Rightarrow> bool" where
  "on_channel shared write (Accepted i m q wr sz t lat) = (shared \<or> wr = write)"
| "on_channel shared write _ = False"

text \<open>Reads and writes have the watermarks of a port in common, so that the bound holds for both together.\<close>

lemma port_bytes:
  assumes "router_run c n evs s" "0 < rc_bandwidth c" "a \<le> b"
  shows "bytes_within c (on_output p) a b evs \<le> rc_bandwidth c * (b - a) \<and> bytes_within c (on_input p) a b evs \<le> rc_bandwidth c * (b - a)"
proof -
  have w: "window_inv c evs s" using run_windows[OF assms(1)] by blast
  have P: "on_output p e \<Longrightarrow> accepted_by (\<lambda>_ _. True) e" "on_input p e \<Longrightarrow> accepted_by (\<lambda>_ _. True) e" for e by (cases e; simp)+
  show ?thesis using w assms(2,3) P by (auto simp: window_inv_def intro!: bytes_bounded)
qed

lemma bytes_within_mono:
  assumes "\<forall>e\<in>set evs. 0 \<le> accepted_size e" "\<And>e. Q e \<Longrightarrow> P e"
  shows "bytes_within c Q a b evs \<le> bytes_within c P a b evs"
  using assms(1) by (induction evs) (auto simp: bytes_within_def dest: assms(2))

text \<open>C9: The bandwidth router gives no channel more than its bandwidth, on an output shared by several inputs or on
  an input that spreads its requests over several outputs. The channels are those of the documentation, for either
  setting of \<open>shared_rw_channel\<close>: all the requests of the port when it is set, else the reads, and the writes. In
  any run, whatever the stalls and retries in between, and in any interval of cycles, the requests of a channel whose
  bursts lie in it have no more than \<open>bandwidth\<close> bytes per cycle.\<close>

theorem router_bandwidth:
  assumes "router_run c n evs s" "0 < rc_bandwidth c" "a \<le> b"
  shows "bytes_within c (\<lambda>e. on_output p e \<and> on_channel shared write e) a b evs \<le> rc_bandwidth c * (b - a)
    \<and> bytes_within c (\<lambda>e. on_input p e \<and> on_channel shared write e) a b evs \<le> rc_bandwidth c * (b - a)"
proof -
  have "\<forall>e\<in>set evs. 0 \<le> accepted_size e" using run_windows[OF assms(1)] by (simp add: window_inv_def)
  note M = bytes_within_mono[OF this, where c = c and a = a and b = b]
  show ?thesis using port_bytes[OF assms, of p] M[of "\<lambda>e. on_output p e \<and> on_channel shared write e" "on_output p"]
      M[of "\<lambda>e. on_input p e \<and> on_channel shared write e" "on_input p"] by force
qed

text \<open>The flag itself is not read. The documentation has two channels without it, each with the bandwidth of the
  port; but the reads and the writes of a port together stay within that bandwidth once.\<close>

theorem router_channels_shared:
  assumes "router_run c n evs s" "0 < rc_bandwidth c" "a \<le> b"
  shows "bytes_within c (\<lambda>e. on_output p e \<and> on_channel False False e) a b evs
      + bytes_within c (\<lambda>e. on_output p e \<and> on_channel False True e) a b evs \<le> rc_bandwidth c * (b - a)"
proof -
  have "bytes_within c (\<lambda>e. on_output p e \<and> on_channel False False e) a b es
      + bytes_within c (\<lambda>e. on_output p e \<and> on_channel False True e) a b es = bytes_within c (on_output p) a b es" for es
  proof (induction es)
    case (Cons e es)
    then show ?case by (cases e) (auto simp: bytes_within_def)
  qed (simp add: bytes_within_def)
  then show ?thesis using port_bytes[OF assms, of p] by simp
qed

section \<open>Queues\<close>

text \<open>The request at the head of a queue waits for an output that is stalled, so that its retry will come.\<close>

definition router_heads :: "router_cfg \<Rightarrow> nat \<Rightarrow> router \<Rightarrow> bool" where
  "router_heads c n s \<longleftrightarrow> (\<forall>i. in_queue (rt_ins s i) \<noteq> [] \<longrightarrow> i < rc_nb_inputs c
     \<and> out_stalled (rt_outs s (snd (hd (in_queue (rt_ins s i))))) \<and> (\<forall>x\<in>set (in_queue (rt_ins s i)). snd x < n))"

definition router_ids :: "router_cfg \<Rightarrow> nat \<Rightarrow> bool" where
  "router_ids c n \<longleftrightarrow> (\<forall>a sz w e. rc_tree c a sz w = Some e \<longrightarrow> me_id e < n)"

abbreviation queued_ids :: "nat \<Rightarrow> router \<Rightarrow> nat list" where
  "queued_ids i s \<equiv> map (\<lambda>x. q_id (fst x)) (in_queue (rt_ins s i))"

definition accepted_ids :: "nat \<Rightarrow> router_call list \<Rightarrow> nat list" where
  "accepted_ids i evs = map accepted_id (filter (on_input i) evs)"

lemma accepted_ids_append [simp]: "accepted_ids i (xs @ ys) = accepted_ids i xs @ accepted_ids i ys"
  by (simp add: accepted_ids_def)

lemma accepted_ids_simps [simp]: "accepted_ids i [] = []" "accepted_ids i (Up p q # evs) = accepted_ids i evs"
  "accepted_ids i (Accepted j m k wr sz t l # evs) = (if j = i then [k] else []) @ accepted_ids i evs"
  "accepted_ids i (Notify_retry w # evs) = accepted_ids i evs"
  by (simp_all add: accepted_ids_def)

text \<open>Nothing but a denial stalls an output while requests are forwarded.\<close>

definition stalls_from :: "targets \<Rightarrow> router \<Rightarrow> router \<Rightarrow> bool" where
  "stalls_from dn s s' \<longleftrightarrow> (\<forall>m. out_stalled (rt_outs s m) \<longrightarrow> out_stalled (rt_outs s' m))
     \<and> ((\<forall>m q. a_status (dn m q) \<noteq> IO_REQ_DENIED) \<longrightarrow> (\<forall>m. out_stalled (rt_outs s' m) = out_stalled (rt_outs s m)))"

lemma stalls_trans: "stalls_from dn s s1 \<Longrightarrow> stalls_from dn s1 s2 \<Longrightarrow> stalls_from dn s s2"
  by (auto simp: stalls_from_def)

lemma forward_stalls: "forward_inline c dn now period i req m s = (st, q, ev, s') \<Longrightarrow> stalls_from dn s s'"
  by (erule forward_cases) (auto simp: stalls_from_def; metis)+

lemma drain_heads:
  assumes "drain_loop c dn now period i qs s = (ev, left, s')"
  shows "stalls_from dn s s' \<and> (left \<noteq> [] \<longrightarrow> out_stalled (rt_outs s' (snd (hd left)))) \<and> set left \<subseteq> set qs
    \<and> (\<forall>j. in_queue (rt_ins s' j) = in_queue (rt_ins s j)) \<and> map (\<lambda>x. q_id (fst x)) qs = accepted_ids i ev @ map (\<lambda>x. q_id (fst x)) left
    \<and> (\<forall>j. j \<noteq> i \<longrightarrow> accepted_ids j ev = []) \<and> rt_proxy_retry_waiter s' = rt_proxy_retry_waiter s"
  using assms
proof (induction c dn now period i qs s arbitrary: ev left s' rule: drain_loop.induct)
  case (2 c dn now period i req m rest s)
  show ?case
  proof (cases "out_stalled (rt_outs s m)")
    case True
    then show ?thesis using 2(2) by (auto simp: stalls_from_def)
  next
    case False
    obtain st q ev1 s1 where f: "forward_inline c dn now period i req m s = (st, q, ev1, s1)" using prod_cases4 by blast
    note F = forward_stalls[OF f]
    show ?thesis
    proof (cases "st = IO_REQ_DENIED")
      case True
      with f have "q = req" "rt_ins s1 = rt_ins s" "out_stalled (rt_outs s1 m)" "rt_proxy_retry_waiter s1 = rt_proxy_retry_waiter s"
        by (auto elim: forward_cases)
      then show ?thesis using 2(2) False f True F by auto
    next
      case st: False
      obtain ev2 where d: "drain_loop c dn now period i rest s1 = (ev2, left, s')"
          "ev = ev1 @ (if st = IO_REQ_DONE then [Up (rc_name c, i) q] else []) @ ev2"
        using 2(2) False f st by (auto split: prod.splits)
      note D = 2(1)[OF False f[symmetric] refl refl st d(1)]
      obtain lat where e: "ev1 = [Accepted i m (q_id req) (r_is_write req) (r_size req) now lat]" "\<And>j. in_queue (rt_ins s1 j) = in_queue (rt_ins s j)"
          "rt_proxy_retry_waiter s1 = rt_proxy_retry_waiter s"
        using f st by (cases rule: forward_cases) auto
      show ?thesis using D e d(2) stalls_trans[OF F] by auto
    qed
  qed
qed (auto simp: stalls_from_def)

text \<open>While the inputs that wait for \<open>m\<close> are served, those that are left may have it at their head.\<close>

definition heads_but :: "router_cfg \<Rightarrow> nat \<Rightarrow> nat \<Rightarrow> nat list \<Rightarrow> router \<Rightarrow> bool" where
  "heads_but c n m js s \<longleftrightarrow> (\<forall>i. in_queue (rt_ins s i) \<noteq> [] \<longrightarrow> i < rc_nb_inputs c
     \<and> (out_stalled (rt_outs s (snd (hd (in_queue (rt_ins s i))))) \<or> i \<in> set js \<and> snd (hd (in_queue (rt_ins s i))) = m)
     \<and> (\<forall>x\<in>set (in_queue (rt_ins s i)). snd x < n))"

lemma retry_heads:
  assumes "retry_inputs c dn now period m js s = (ev, s')" "heads_but c n m js s"
  shows "router_heads c n s' \<and> stalls_from dn s s' \<and> (\<forall>i. queued_ids i s = accepted_ids i ev @ queued_ids i s')"
  using assms
proof (induction js arbitrary: s ev)
  case Nil
  then show ?case by (auto simp: heads_but_def router_heads_def stalls_from_def)
next
  case (Cons i js)
  obtain ev1 s1 where d: "(if in_queue (rt_ins s i) \<noteq> [] \<and> snd (hd (in_queue (rt_ins s i))) = m
            then drain_queue c dn now period i s else ([], s)) = (ev1, s1)" by fastforce
  obtain ev2 where r: "retry_inputs c dn now period m js s1 = (ev2, s')" "ev = ev1 @ ev2"
    using Cons.prems(1) d by (auto split: prod.splits)
  have "heads_but c n m js s1 \<and> stalls_from dn s s1 \<and> (\<forall>j. queued_ids j s = accepted_ids j ev1 @ queued_ids j s1)"
  proof (cases "in_queue (rt_ins s i) \<noteq> [] \<and> snd (hd (in_queue (rt_ins s i))) = m")
    case True
    obtain left s0 where l: "drain_loop c dn now period i (in_queue (rt_ins s i)) s = (ev1, left, s0)"
        "s1 = set_in i (in_queue_update (\<lambda>_. left)) s0"
      using d True by (auto simp: drain_queue_def split: prod.splits)
    note D = drain_heads[OF l(1)]
    have q: "in_queue (rt_ins s1 j) = (if j = i then left else in_queue (rt_ins s j))" for j using D unfolding l(2) by simp
    have o: "rt_outs s1 = rt_outs s0" unfolding l(2) by simp
    have "stalls_from dn s s1" using D o by (simp add: stalls_from_def)
    moreover have "queued_ids j s = accepted_ids j ev1 @ queued_ids j s1" for j using D q by simp
    moreover have "heads_but c n m js s1"
      unfolding heads_but_def
    proof (intro allI impI)
      fix j assume j: "in_queue (rt_ins s1 j) \<noteq> []"
      show "j < rc_nb_inputs c \<and> (out_stalled (rt_outs s1 (snd (hd (in_queue (rt_ins s1 j))))) \<or> j \<in> set js \<and> snd (hd (in_queue (rt_ins s1 j))) = m)
          \<and> (\<forall>x\<in>set (in_queue (rt_ins s1 j)). snd x < n)"
      proof (cases "j = i")
        case True
        then show ?thesis using j q[of j] D o Cons.prems(2) \<open>in_queue (rt_ins s i) \<noteq> [] \<and> _\<close> unfolding heads_but_def by auto
      next
        case False
        then have "in_queue (rt_ins s j) \<noteq> []" using j q[of j] by simp
        then have "j < rc_nb_inputs c \<and> (out_stalled (rt_outs s (snd (hd (in_queue (rt_ins s j))))) \<or> j \<in> set js \<and> snd (hd (in_queue (rt_ins s j))) = m)
          \<and> (\<forall>x\<in>set (in_queue (rt_ins s j)). snd x < n)" using Cons.prems(2) False by (auto simp: heads_but_def)
        then show ?thesis using q[of j] False \<open>stalls_from dn s s1\<close> by (auto simp: stalls_from_def)
      qed
    qed
    ultimately show ?thesis by blast
  next
    case False
    then have "ev1 = []" "s1 = s" using d by auto
    then show ?thesis using Cons.prems(2) False by (auto simp: heads_but_def stalls_from_def)
  qed
  then show ?case using Cons.IH[OF r(1)] r(2) stalls_trans by fastforce
qed

lemma router_retry_heads:
  assumes "router_retry_muxed c dn now period m s = (ev, s')" "router_heads c n s"
  shows "router_heads c n s' \<and> (\<forall>i. queued_ids i s = accepted_ids i ev @ queued_ids i s')
    \<and> ((\<forall>m q. a_status (dn m q) \<noteq> IO_REQ_DENIED) \<longrightarrow> (\<forall>k. out_stalled (rt_outs s' k) = (k \<noteq> m \<and> out_stalled (rt_outs s k))))"
proof -
  let ?s = "set_out m (out_stalled_update (\<lambda>_. False)) s"
  obtain ev1 s1 where r: "retry_inputs c dn now period m [0..<rc_nb_inputs c] ?s = (ev1, s1)" by fastforce
  have "heads_but c n m [0..<rc_nb_inputs c] ?s" using assms(2) by (auto simp: heads_but_def router_heads_def)
  note R = retry_heads[OF r this]
  have e: "ev = ev1 @ (case rt_proxy_retry_waiter s1 of None \<Rightarrow> [] | Some w \<Rightarrow> [Notify_retry w])" "s' = s1\<lparr>rt_proxy_retry_waiter := None\<rparr>"
    using assms(1) r by (auto simp: router_retry_muxed_def)
  then have "accepted_ids i ev = accepted_ids i ev1" for i by (simp split: option.splits)
  then show ?thesis using R e(2) by (auto simp: router_heads_def stalls_from_def)
qed

lemma decode_id: "router_ids c n \<Longrightarrow> router_decode c a sz w = Some m \<Longrightarrow> m < n"
  by (auto simp: router_decode_def router_ids_def split: option.splits if_splits)

lemma run_heads:
  assumes "router_run c n evs s" "router_ids c n"
  shows "router_heads c n s"
  using assms(1)
proof (induction rule: router_run.induct)
  case init
  then show ?case by (simp add: router_heads_def router_init_def)
next
  case (req evs s i req dn now period st q ev s')
  show ?case
  proof (cases "router_decode c (r_addr req) (r_size req) (r_is_write req)")
    case None
    then have "s' = s\<lparr>rt_errors := rt_errors s + 1\<rparr>" using req.hyps(4) by (simp add: router_req_muxed_def)
    then show ?thesis using req.IH by (simp add: router_heads_def)
  next
    case (Some m)
    define s1 where "s1 = (if r_is_write req
       then s\<lparr>rt_writes := rt_writes s + 1, rt_bytes_written := rt_bytes_written s + unat (r_size req)\<rparr>
       else s\<lparr>rt_reads := rt_reads s + 1, rt_bytes_read := rt_bytes_read s + unat (r_size req)\<rparr>)"
    have s1: "rt_ins s1 = rt_ins s" "rt_outs s1 = rt_outs s" by (simp_all add: s1_def)
    have m: "m < n" using decode_id[OF assms(2) Some] .
    have push: "router_heads c n (set_in i (in_queue_update (\<lambda>qs. qs @ [(x, m)])) t)"
      if "router_heads c n t" "out_stalled (rt_outs t m)" for t x
      using that m req.hyps(2) by (cases "in_queue (rt_ins t i) = []") (simp_all add: router_heads_def)
    have h: "router_heads c n s1" using req.IH s1 by (simp add: router_heads_def)
    show ?thesis
    proof (cases "out_stalled (rt_outs s m)")
      case True
      then have "s' = set_in i (in_queue_update (\<lambda>qs. qs @ [(req, m)])) s1"
        using req.hyps(4) Some s1 by (auto simp: router_req_muxed_def s1_def[symmetric] Let_def)
      then show ?thesis using push[OF h] True s1 by simp
    next
      case False
      obtain st1 q1 ev1 s2 where f: "forward_inline c dn now period i req m s1 = (st1, q1, ev1, s2)" using prod_cases4 by blast
      have e: "s' = (if st1 = IO_REQ_DENIED then set_in i (in_queue_update (\<lambda>qs. qs @ [(q1, m)])) s2 else s2)"
        using req.hyps(4) Some False f s1 by (auto simp: router_req_muxed_def s1_def[symmetric] Let_def split: if_splits)
      have "in_queue (rt_ins s2 j) = in_queue (rt_ins s1 j)" for j using f by (cases rule: forward_cases) auto
      then have h2: "router_heads c n s2" using h forward_stalls[OF f] by (auto simp: router_heads_def stalls_from_def)
      moreover have "out_stalled (rt_outs s2 m)" if "st1 = IO_REQ_DENIED" using f that by (auto elim: forward_cases)
      ultimately show ?thesis unfolding e using push[OF h2] by auto
    qed
  qed
next
  case (retry evs s m dn now period ev s')
  then show ?case using router_retry_heads by blast
next
  case (proxy evs s dn req w st q s')
  then have "rt_ins s' = rt_ins s" "\<And>m. out_stalled (rt_outs s m) \<Longrightarrow> out_stalled (rt_outs s' m)"
    by (auto simp: router_dispatch_proxy_req_def Let_def split: option.splits if_splits io_status.splits)
  then show ?case using proxy.IH by (auto simp: router_heads_def)
qed (simp add: router_heads_def)

text \<open>Every output retries, one after the other, each with its own time and answers.\<close>

primrec retry_round :: "router_cfg \<Rightarrow> (nat \<Rightarrow> targets) \<Rightarrow> (nat \<Rightarrow> int) \<Rightarrow> int \<Rightarrow> nat list \<Rightarrow> router \<Rightarrow> router_call list \<times> router" where
  "retry_round c dn now period [] s = ([], s)"
| "retry_round c dn now period (m # ms) s =
     (case router_retry_muxed c (dn m) (now m) period m s of (ev, s1) \<Rightarrow>
      case retry_round c dn now period ms s1 of (evs, s2) \<Rightarrow> (ev @ evs, s2))"

lemma round_heads:
  assumes "retry_round c dn now period ms s = (evs, s')" "router_heads c n s" "\<forall>k m q. a_status (dn k m q) \<noteq> IO_REQ_DENIED"
  shows "router_heads c n s' \<and> (\<forall>i. queued_ids i s = accepted_ids i evs @ queued_ids i s')
    \<and> (\<forall>k. out_stalled (rt_outs s' k) = (k \<notin> set ms \<and> out_stalled (rt_outs s k)))"
  using assms(1,2)
proof (induction ms arbitrary: s evs)
  case (Cons m ms)
  obtain ev s1 where r: "router_retry_muxed c (dn m) (now m) period m s = (ev, s1)" by fastforce
  obtain evs1 where rr: "retry_round c dn now period ms s1 = (evs1, s')" "evs = ev @ evs1"
    using Cons.prems(1) r by (auto split: prod.splits)
  note R = router_retry_heads[OF r Cons.prems(2)]
  show ?case using Cons.IH[OF rr(1)] R assms(3) rr(2) by auto
qed simp

text \<open>C10: No request that the bandwidth router has accepted is forgotten. In every reachable state, once each output has
  retried and no target refuses again, all queues are empty, and the requests that an input had in its queue have been
  forwarded once each, in the order they were made.\<close>

theorem router_drains:
  assumes "router_run c n evs s" "router_ids c n" "\<forall>k m q. a_status (dn k m q) \<noteq> IO_REQ_DENIED"
  shows "\<exists>evs' s'. retry_round c dn now period [0..<n] s = (evs', s')
    \<and> (\<forall>i. in_queue (rt_ins s' i) = [] \<and> accepted_ids i evs' = queued_ids i s)"
proof -
  obtain evs' s' where r: "retry_round c dn now period [0..<n] s = (evs', s')" by fastforce
  note R = round_heads[OF r run_heads[OF assms(1,2)] assms(3)]
  have e: "in_queue (rt_ins s' i) = []" for i
  proof (rule ccontr)
    assume q: "in_queue (rt_ins s' i) \<noteq> []"
    then have "snd (hd (in_queue (rt_ins s' i))) < n" "out_stalled (rt_outs s' (snd (hd (in_queue (rt_ins s' i)))))"
      using R by (auto simp: router_heads_def)
    then show False using R by simp
  qed
  then show ?thesis using R r by simp
qed

section \<open>Responses\<close>

text \<open>The beats of a response: all but the last one leave the record of the router in the request.\<close>

primrec router_beats :: "bool list \<Rightarrow> rreq \<Rightarrow> (router_call list \<times> rreq) option" where
  "router_beats [] req = Some ([], req)"
| "router_beats (b # bs) req =
     Option.bind (router_resp_muxed (req\<lparr>r_is_last := b\<rparr>)) (\<lambda>(evs, q).
       map_option (\<lambda>(evs1, q1). (evs @ evs1, q1)) (router_beats bs q))"

text \<open>A granted request comes back to its input at each beat, with the initiator of its master.\<close>

lemma router_response:
  assumes "router_req_muxed c dn now period req i s = (IO_REQ_GRANTED, q, [ev], s')" "\<forall>m q. a_initiator (dn m q) = q_initiator q"
  shows "\<exists>evs q'. router_beats (replicate k False @ [True]) q = Some (evs, q') \<and> q_initiator q' = q_initiator req
    \<and> map (\<lambda>e. case e of Up p x \<Rightarrow> (Some p, q_id x, q_initiator x) | _ \<Rightarrow> (None, 0, Opaque 0)) evs
      = replicate (Suc k) (Some (rc_name c, i), q_id req, q_initiator req)"
proof -
  have "q_initiator q = InFlight (Some (rc_name c, i)) (q_initiator req) None \<and> q_id q = q_id req"
    using assms by (auto simp: router_req_muxed_def forward_inline_def target_answer_def Let_def
        split: option.splits if_splits io_status.splits prod.splits)
  then show ?thesis
  proof (induction k arbitrary: q)
    case 0
    then show ?case by (simp add: router_resp_muxed_def Let_def)
  next
    case (Suc k)
    have q: "q_initiator (q\<lparr>r_is_last := False\<rparr>) = InFlight (Some (rc_name c, i)) (q_initiator req) None \<and> q_id (q\<lparr>r_is_last := False\<rparr>) = q_id req"
      using Suc.prems by simp
    obtain evs q' where r: "router_beats (replicate k False @ [True]) (q\<lparr>r_is_last := False\<rparr>) = Some (evs, q')" "q_initiator q' = q_initiator req"
        "map (\<lambda>e. case e of Up p x \<Rightarrow> (Some p, q_id x, q_initiator x) | _ \<Rightarrow> (None, 0, Opaque 0)) evs
          = replicate (Suc k) (Some (rc_name c, i), q_id req, q_initiator req)"
      using Suc.IH[OF q] by blast
    then show ?case using q by (simp add: router_resp_muxed_def Let_def)
  qed
qed

text \<open>Two routers in a row: the target of an output of the first is an input of the second. The record of the first is
  put in the request after that of the second, so that the response, which reaches the second one first, is
  taken for one of the first: it goes to the master at once, and with the record of the second instead of what
  the master had in the request.\<close>

definition cascaded :: "router_cfg \<Rightarrow> targets \<Rightarrow> int \<Rightarrow> int \<Rightarrow> nat \<Rightarrow> router \<Rightarrow> targets" where
  "cascaded c2 dn now period j s2 m req =
     (case router_req_muxed c2 dn now period req j s2 of (st, q, ev, s) \<Rightarrow>
        \<lparr>a_status = st, a_latency = r_latency q, a_resp = r_resp q, a_initiator = q_initiator q\<rparr>)"

theorem router_cascade_clobbers:
  assumes "router_req_muxed c1 (cascaded c2 dn now period j s2) now period req i s1 = (IO_REQ_GRANTED, q, [ev], s1')"
    and "\<forall>m q. a_status (dn m q) = IO_REQ_GRANTED \<and> a_initiator (dn m q) = q_initiator q" "\<forall>m. \<not> out_stalled (rt_outs s2 m)"
    and "r_is_last q"
  shows "\<exists>x. router_resp_muxed q = Some ([Up (rc_name c1, i) x], x)
    \<and> q_initiator x = InFlight (Some (rc_name c2, j)) (q_initiator req) None"
proof -
  obtain m where m: "a_status (cascaded c2 dn now period j s2 m (req\<lparr>r_addr := out_addr (rc_entries c1 m) (r_addr req)\<rparr>)) = IO_REQ_GRANTED"
      "q_initiator q = InFlight (Some (rc_name c1, i)) (a_initiator (cascaded c2 dn now period j s2 m (req\<lparr>r_addr := out_addr (rc_entries c1 m) (r_addr req)\<rparr>))) None"
    using assms(1) by (auto simp: router_req_muxed_def forward_inline_def target_answer_def Let_def
        split: option.splits if_splits io_status.splits prod.splits)
  have "a_initiator (cascaded c2 dn now period j s2 m x) = InFlight (Some (rc_name c2, j)) (q_initiator x) None"
    if "a_status (cascaded c2 dn now period j s2 m x) = IO_REQ_GRANTED" for x
    using that assms(2,3) by (auto simp: cascaded_def router_req_muxed_def forward_inline_def target_answer_def Let_def
        split: option.splits if_splits io_status.splits prod.splits)
  then show ?thesis using m assms(4) by (simp add: router_resp_muxed_def Let_def)
qed

section \<open>Order\<close>

text \<open>A request goes before an older one of its own input to the same output, address included, when the older one
  is queued behind one for another output: a read can overtake a write to the same address.\<close>

theorem router_overtakes:
  assumes "in_queue (rt_ins s i) = [(a, m1), (w, m2)]" "out_stalled (rt_outs s m1)" "\<not> out_stalled (rt_outs s m2)"
    and "router_decode c (r_addr r) (r_size r) (r_is_write r) = Some m2" "\<forall>m q. a_status (dn m q) = IO_REQ_DONE"
  shows "\<exists>r' lat s'. router_req_muxed c dn now period r i s = (IO_REQ_DONE, r', [Accepted i m2 (q_id r) (r_is_write r) (r_size r) now lat], s')
    \<and> in_queue (rt_ins s' i) = [(a, m1), (w, m2)]"
  using assms by (auto simp: router_req_muxed_def forward_inline_def Let_def split: prod.splits)

text \<open>The end of an access is computed in 64 bits: one that wraps passes the test of the end of its mapping.\<close>

theorem router_straddle_wraps:
  assumes "rc_tree c a sz w = Some e" "a + sz = 0" "int (me_id e) \<noteq> rc_error_id c" "out_bound (rc_entries c (me_id e))"
  shows "router_decode c a sz w = Some (me_id e)"
  using assms by (simp add: router_decode_def straddles_def)

section \<open>Examples\<close>

text \<open>Two targets of 4 KB; both refuse, then both accept.\<close>

definition demo_router :: router_cfg where
  "demo_router = \<lparr>rc_name = 0, rc_tree = (\<lambda>a sz w. Some (if a < 0x1000 then \<lparr>me_id = 0, me_base = 0, me_size = 0x1000\<rparr>
       else \<lparr>me_id = 1, me_base = 0x1000, me_size = 0x1000\<rparr>)),
     rc_error_id = -1, rc_entries = (\<lambda>m. \<lparr>remove_offset = 0, add_offset = 0, mapping_latency = 2, out_bound = True\<rparr>),
     rc_nb_inputs = 1, rc_bandwidth = 4, rc_latency = 1\<rparr>"

definition demo_rreq :: "nat \<Rightarrow> u64 \<Rightarrow> bool \<Rightarrow> rreq" where
  "demo_rreq k a w = \<lparr>r_addr = a, r_size = 8, r_is_write = w, r_opcode = (if w then WRITE else READ), r_data = 0, r_latency = 0,
     r_resp = IO_RESP_OK, r_remaining = 0, r_parent = 0, r_is_first = True, r_is_last = True, q_id = k, q_initiator = Opaque 0\<rparr>"

definition demo_targets :: "io_status \<Rightarrow> targets" where
  "demo_targets st m q = \<lparr>a_status = st, a_latency = 0, a_resp = IO_RESP_OK, a_initiator = q_initiator q\<rparr>"

lemma demo_decode: "router_decode demo_router 0 8 w = Some 0" "router_decode demo_router 0x1000 8 w = Some 1"
  by (simp_all add: router_decode_def demo_router_def straddles_def)

lemma demo_ids: "router_ids demo_router 2" by (auto simp: router_ids_def demo_router_def)

lemma demo_rreq_simps [simp]: "r_addr (demo_rreq k a w) = a" "r_size (demo_rreq k a w) = 8" "r_is_write (demo_rreq k a w) = w" "q_id (demo_rreq k a w) = k"
  by (simp_all add: demo_rreq_def)

text \<open>A run in which a write to the second target is queued behind an access to the first one.\<close>

lemma demo_queued:
  "\<exists>s. router_run demo_router 2 [] s \<and> in_queue (rt_ins s 0) = [(demo_rreq 10 0 False, 0), (demo_rreq 11 0x1000 True, 1)]
     \<and> out_stalled (rt_outs s 0) \<and> out_stalled (rt_outs s 1)"
proof -
  let ?c = demo_router and ?d = "demo_targets IO_REQ_DENIED"
  obtain p l where l: "router_log_access 0 1000 0 8 access_log_init = (p, l)" by fastforce
  obtain s1 where a: "router_req_muxed ?c ?d 0 1000 (demo_rreq 10 0 False) 0 router_init = (IO_REQ_GRANTED, demo_rreq 10 0 False, [], s1)"
      "in_queue (rt_ins s1 0) = [(demo_rreq 10 0 False, 0)]" "out_stalled (rt_outs s1 0)" "\<not> out_stalled (rt_outs s1 1)"
    by (auto simp: router_req_muxed_def demo_decode forward_inline_def demo_targets_def router_init_def l Let_def simp del: One_nat_def)
  obtain p2 l2 where l2: "router_log_access 0 1000 0x1000 8 (out_log (rt_outs s1 1)) = (p2, l2)" by fastforce
  obtain s2 where b: "router_req_muxed ?c ?d 0 1000 (demo_rreq 11 0x1000 True) 0 s1 = (IO_REQ_GRANTED, demo_rreq 11 0x1000 True, [], s2)"
      "in_queue (rt_ins s2 0) = [(demo_rreq 10 0 False, 0), (demo_rreq 11 0x1000 True, 1)]" "out_stalled (rt_outs s2 0)" "out_stalled (rt_outs s2 1)"
    using a(2-4) by (auto simp: router_req_muxed_def demo_decode forward_inline_def demo_targets_def l2 Let_def simp del: One_nat_def)
  have i: "0 < rc_nb_inputs ?c" by (simp add: demo_router_def)
  have "router_run ?c 2 [] s1" using router_run.req[OF router_run.init i _ a(1)] by simp
  from router_run.req[OF this i _ b(1)] b show ?thesis by auto
qed

text \<open>The hypotheses of \<open>router_overtakes\<close> hold in a reachable state.\<close>

lemma router_overtakes_reachable:
  "\<exists>evs s. router_run demo_router 2 evs s \<and> in_queue (rt_ins s 0) = [(demo_rreq 10 0 False, 0), (demo_rreq 11 0x1000 True, 1)]
     \<and> out_stalled (rt_outs s 0) \<and> \<not> out_stalled (rt_outs s 1)"
proof -
  obtain s where s: "router_run demo_router 2 [] s" "in_queue (rt_ins s 0) = [(demo_rreq 10 0 False, 0), (demo_rreq 11 0x1000 True, 1)]"
      "out_stalled (rt_outs s 0)" using demo_queued by blast
  let ?dn = "demo_targets IO_REQ_DONE"
  have "[0..<rc_nb_inputs demo_router] = [0]" by (simp add: demo_router_def)
  then obtain ev s' where r: "router_retry_muxed demo_router ?dn 5 1000 1 s = (ev, s')" "ev = (case rt_proxy_retry_waiter s of None \<Rightarrow> [] | Some w \<Rightarrow> [Notify_retry w])"
      "rt_ins s' = rt_ins s" "out_stalled (rt_outs s' 0)" "\<not> out_stalled (rt_outs s' 1)"
    using s(2,3) by (simp add: router_retry_muxed_def)
  have "router_run demo_router 2 ([] @ ev) s'" by (rule router_run.retry[OF s(1) _ r(1)]) simp
  then show ?thesis using r(3-5) s(2) by (intro exI[of _ ev] exI[of _ s']) simp
qed

theorem router_drains_witness:
  "\<exists>s evs s'. router_run demo_router 2 [] s \<and> queued_ids 0 s = [10, 11]
     \<and> retry_round demo_router (\<lambda>_. demo_targets IO_REQ_DONE) (\<lambda>m. 5) 1000 [0..<2] s = (evs, s')
     \<and> in_queue (rt_ins s' 0) = [] \<and> accepted_ids 0 evs = [10, 11]"
proof -
  obtain s where s: "router_run demo_router 2 [] s" "queued_ids 0 s = [10, 11]" using demo_queued by fastforce
  have "\<forall>k m q. a_status ((\<lambda>_. demo_targets IO_REQ_DONE) k m q) \<noteq> IO_REQ_DENIED" by (simp add: demo_targets_def)
  from router_drains[OF s(1) demo_ids this, of "\<lambda>m. 5" 1000] s show ?thesis by fastforce
qed

theorem router_bandwidth_witness:
  "\<exists>evs s. router_run demo_router 2 evs s \<and> map accepted_id evs = [10, 11] \<and> bytes_within demo_router (\<lambda>e. on_output 1 e \<and> on_channel False True e) 0 4 evs \<le> 16"
proof -
  let ?c = demo_router and ?d = "demo_targets IO_REQ_DONE"
  have i: "0 < rc_nb_inputs ?c" by (simp add: demo_router_def)
  obtain p l where l: "router_log_access 0 1000 0x1000 8 access_log_init = (p, l)" by fastforce
  obtain q1 l1 s1 where a: "router_req_muxed ?c ?d 0 1000 (demo_rreq 10 0x1000 False) 0 router_init = (IO_REQ_DONE, q1, [Accepted 0 1 10 False 8 0 l1], s1)"
      "\<not> out_stalled (rt_outs s1 1)"
    by (auto simp: router_req_muxed_def demo_decode forward_inline_def demo_targets_def router_init_def l Let_def simp del: One_nat_def)
  obtain p2 l3 where l2: "router_log_access 0 1000 0x1000 8 (out_log (rt_outs s1 1)) = (p2, l3)" by fastforce
  obtain q2 l2 s2 where b: "router_req_muxed ?c ?d 0 1000 (demo_rreq 11 0x1000 True) 0 s1 = (IO_REQ_DONE, q2, [Accepted 0 1 11 True 8 0 l2], s2)"
    using a(2) by (auto simp: router_req_muxed_def demo_decode forward_inline_def demo_targets_def l2 Let_def simp del: One_nat_def)
  have "router_run ?c 2 [Accepted 0 1 10 False 8 0 l1] s1" using router_run.req[OF router_run.init i _ a(1)] by simp
  from router_run.req[OF this i _ b] have r: "router_run ?c 2 [Accepted 0 1 10 False 8 0 l1, Accepted 0 1 11 True 8 0 l2] s2" by simp
  have bw: "0 < rc_bandwidth ?c" "rc_bandwidth ?c = 4" by (simp_all add: demo_router_def)
  from router_bandwidth[OF r bw(1), of 0 4 1 False True] r bw(2) show ?thesis by fastforce
qed

end
