(* ===== verification/RouterBackpressure.thy ===== *)
theory RouterBackpressure imports RouterV2 begin

text \<open>
  The router that delays the requests themselves (\<open>src/models/interco/router/router_v2_backpressure.cpp\<close>): one request
  of each input waits for the bandwidth of its ports, and further ones are denied meanwhile. The registers of the
  bandwidth limiters are clocked signals of the engine: \<open>clk\<close> is their \<open>get\<close> and \<open>set\<close> at a cycle. The record that the
  router puts in a request comes from a free list, whose records keep the thread they were last used for.
\<close>

section \<open>State\<close>

record 'c clocked_signal =
  clk_get :: "int \<Rightarrow> 'c \<Rightarrow> int"
  clk_set :: "int \<Rightarrow> int \<Rightarrow> 'c \<Rightarrow> 'c"

record 'c bp_cfg = router_cfg +
  bc_shared :: bool
  bc_clk :: "'c clocked_signal"

record 'c bp_limiter =
  bl_next_read_burst_cycle :: 'c
  bl_next_write_burst_cycle :: 'c

record 'c bp_in =
  bi_bw :: "'c bp_limiter"
  bi_denied_on_output :: "nat \<Rightarrow> bool"
  bi_pending_req :: "rreq option"
  bi_pending_mapping_id :: int
  bi_send_event :: "int option"       \<comment> \<open>the cycle in which it fires, when it is enqueued\<close>

record 'c bp_out =
  bo_bw :: "'c bp_limiter"
  bo_log :: access_log

record 'c bp_router =
  bp_ins :: "nat \<Rightarrow> 'c bp_in"
  bp_outs :: "nat \<Rightarrow> 'c bp_out"
  bp_inflight_free :: "nat option list"   \<comment> \<open>the \<open>proxy_waiter\<close> of the free records\<close>
  bp_proxy_retry_waiter :: "nat option"
  bp_pulses :: "(u64 \<times> u64 \<times> int option) list"
  bp_reads :: nat
  bp_writes :: nat
  bp_bytes_read :: nat
  bp_bytes_written :: nat
  bp_errors :: nat

definition bp_init :: "'c \<Rightarrow> 'c bp_router" where
  "bp_init z = (let l = \<lparr>bl_next_read_burst_cycle = z, bl_next_write_burst_cycle = z\<rparr> in
     \<lparr>bp_ins = (\<lambda>_. \<lparr>bi_bw = l, bi_denied_on_output = (\<lambda>_. False), bi_pending_req = None, bi_pending_mapping_id = -1, bi_send_event = None\<rparr>),
      bp_outs = (\<lambda>_. \<lparr>bo_bw = l, bo_log = access_log_init\<rparr>), bp_inflight_free = [], bp_proxy_retry_waiter = None, bp_pulses = [],
      bp_reads = 0, bp_writes = 0, bp_bytes_read = 0, bp_bytes_written = 0, bp_errors = 0\<rparr>)"

abbreviation upd_in :: "nat \<Rightarrow> ('c bp_in \<Rightarrow> 'c bp_in) \<Rightarrow> 'c bp_router \<Rightarrow> 'c bp_router" where
  "upd_in i f s \<equiv> s\<lparr>bp_ins := (bp_ins s)(i := f (bp_ins s i))\<rparr>"

abbreviation upd_out :: "nat \<Rightarrow> ('c bp_out \<Rightarrow> 'c bp_out) \<Rightarrow> 'c bp_router \<Rightarrow> 'c bp_router" where
  "upd_out m f s \<equiv> s\<lparr>bp_outs := (bp_outs s)(m := f (bp_outs s m))\<rparr>"

section \<open>Bandwidth\<close>

definition bp_register :: "'c bp_cfg \<Rightarrow> bool \<Rightarrow> 'c bp_limiter \<Rightarrow> 'c" where
  "bp_register c is_write l = (if is_write \<or> bc_shared c then bl_next_write_burst_cycle l else bl_next_read_burst_cycle l)"

definition bp_peek :: "'c bp_cfg \<Rightarrow> int \<Rightarrow> bool \<Rightarrow> 'c bp_limiter \<Rightarrow> int" where
  "bp_peek c now is_write l =
     (if rc_bandwidth c = 0 then rc_latency c
      else (let router_delay = clk_get (bc_clk c) now (bp_register c is_write l) - now
            in (if router_delay < 0 then 0 else router_delay) + rc_latency c))"

definition bp_burst_duration :: "'c bp_cfg \<Rightarrow> u64 \<Rightarrow> int" where
  "bp_burst_duration c sz = sint ((sz + word_of_int (rc_bandwidth c) - 1) div word_of_int (rc_bandwidth c) :: u64)"

definition bp_commit :: "'c bp_cfg \<Rightarrow> int \<Rightarrow> u64 \<Rightarrow> bool \<Rightarrow> 'c bp_limiter \<Rightarrow> 'c bp_limiter" where
  "bp_commit c now sz is_write l =
     (if rc_bandwidth c = 0 then l
      else (let r = bp_register c is_write l;
                v = clk_set (bc_clk c) now (max now (clk_get (bc_clk c) now r) + bp_burst_duration c sz) r
            in if is_write \<or> bc_shared c then l\<lparr>bl_next_write_burst_cycle := v\<rparr> else l\<lparr>bl_next_read_burst_cycle := v\<rparr>))"

section \<open>Handlers\<close>

definition bp_alloc_inflight :: "'c bp_router \<Rightarrow> nat option \<times> 'c bp_router" where
  "bp_alloc_inflight s = (case bp_inflight_free s of [] \<Rightarrow> (None, s) | w # ws \<Rightarrow> (w, s\<lparr>bp_inflight_free := ws\<rparr>))"

definition bp_free_inflight :: "nat option \<Rightarrow> 'c bp_router \<Rightarrow> 'c bp_router" where
  "bp_free_inflight w s = s\<lparr>bp_inflight_free := w # bp_inflight_free s\<rparr>"

definition bp_forward ::
  "'c bp_cfg \<Rightarrow> targets \<Rightarrow> int \<Rightarrow> nat \<Rightarrow> rreq \<Rightarrow> nat \<Rightarrow> bool \<Rightarrow> 'c bp_router \<Rightarrow> io_status \<times> rreq \<times> router_call list \<times> 'c bp_router" where
  "bp_forward c dn now i req m from_delayed s =
     (case bp_alloc_inflight s of (w, s1) \<Rightarrow>
       (let q = req\<lparr>q_initiator := InFlight (Some (rc_name c, i)) (q_initiator req) w\<rparr>;
            a = dn m q;
            q1 = target_answer a q;
            s2 = upd_out m (bo_bw_update (bp_commit c now (r_size req) (r_is_write req)))
                  (upd_in i (bi_bw_update (bp_commit c now (r_size req) (r_is_write req))) s1)
        in case a_status a of
             IO_REQ_DENIED \<Rightarrow> (IO_REQ_DENIED, req, [],
               upd_in i (\<lambda>p. let p1 = p\<lparr>bi_denied_on_output := (bi_denied_on_output p)(m := True)\<rparr>
                             in if from_delayed then p1\<lparr>bi_pending_req := Some req, bi_pending_mapping_id := int m\<rparr> else p1)
                 (bp_free_inflight w s1))
           | IO_REQ_DONE \<Rightarrow>
              (let q2 = q1\<lparr>q_initiator := q_initiator req\<rparr>
               in (IO_REQ_DONE, q2, if from_delayed then [Up (rc_name c, i) q2] else [], bp_free_inflight w s2))
           | IO_REQ_GRANTED \<Rightarrow> (IO_REQ_GRANTED, q1, [], s2)))"

definition bp_req_muxed ::
  "'c bp_cfg \<Rightarrow> targets \<Rightarrow> int \<Rightarrow> int \<Rightarrow> rreq \<Rightarrow> nat \<Rightarrow> 'c bp_router \<Rightarrow> io_status \<times> rreq \<times> router_call list \<times> 'c bp_router" where
  "bp_req_muxed c dn now period req i s =
     (if bi_pending_req (bp_ins s i) \<noteq> None then (IO_REQ_DENIED, req, [], s)
      else
       (let s1 = (if r_is_write req
                  then s\<lparr>bp_writes := bp_writes s + 1, bp_bytes_written := bp_bytes_written s + unat (r_size req)\<rparr>
                  else s\<lparr>bp_reads := bp_reads s + 1, bp_bytes_read := bp_bytes_read s + unat (r_size req)\<rparr>)
        in case router_decode (router_cfg.truncate c) (r_addr req) (r_size req) (r_is_write req) of
             None \<Rightarrow> (IO_REQ_DONE, req\<lparr>r_resp := IO_RESP_INVALID\<rparr>, [], s1\<lparr>bp_errors := bp_errors s1 + 1\<rparr>)
           | Some m \<Rightarrow>
              (let d_in = bp_peek c now (r_is_write req) (bi_bw (bp_ins s1 i));
                   d_out = bp_peek c now (r_is_write req) (bo_bw (bp_outs s1 m));
                   delay = max d_in d_out + mapping_latency (rc_entries c m);
                   (p, l) = router_log_access now period (r_addr req) (r_size req) (bo_log (bp_outs s1 m));
                   s2 = (upd_out m (bo_log_update (\<lambda>_. l)) s1)\<lparr>bp_pulses := bp_pulses s1 @ [p]\<rparr>;
                   q = req\<lparr>r_addr := out_addr (rc_entries c m) (r_addr req)\<rparr>
               in if delay = 0 then bp_forward c dn now i q m False s2
                  else (IO_REQ_GRANTED, q, [],
                        upd_in i (\<lambda>p. p\<lparr>bi_pending_req := Some q, bi_pending_mapping_id := int m, bi_send_event := Some (now + delay)\<rparr>) s2))))"

text \<open>\<open>None\<close> is the use of a null request.\<close>

definition bp_send_handler ::
  "'c bp_cfg \<Rightarrow> targets \<Rightarrow> int \<Rightarrow> nat \<Rightarrow> 'c bp_router \<Rightarrow> (router_call list \<times> 'c bp_router) option" where
  "bp_send_handler c dn now i s =
     (case bi_pending_req (bp_ins s i) of None \<Rightarrow> None
      | Some req \<Rightarrow>
         (case bp_forward c dn now i req (nat (bi_pending_mapping_id (bp_ins s i))) True
                 (upd_in i (\<lambda>p. p\<lparr>bi_pending_req := None, bi_pending_mapping_id := -1, bi_send_event := None\<rparr>) s) of
            (st, q, calls, s1) \<Rightarrow> Some (calls @ (if bi_pending_req (bp_ins s1 i) = None then [Up_retry i] else []), s1)))"

definition bp_resp_muxed :: "rreq \<Rightarrow> 'c bp_router \<Rightarrow> (router_call list \<times> rreq \<times> 'c bp_router) option" where
  "bp_resp_muxed req s =
     (case q_initiator req of Opaque _ \<Rightarrow> None
      | InFlight inp saved waiter \<Rightarrow>
         (let req1 = req\<lparr>q_initiator := saved\<rparr>; s1 = bp_free_inflight waiter s
          in case waiter of Some w \<Rightarrow> Some ([Notify_replied w], req1, s1)
             | None \<Rightarrow> (case inp of None \<Rightarrow> None | Some p \<Rightarrow> Some ([Up p req1], req1, s1))))"

definition bp_retry_input ::
  "'c bp_cfg \<Rightarrow> targets \<Rightarrow> int \<Rightarrow> nat \<Rightarrow> nat \<Rightarrow> 'c bp_router \<Rightarrow> router_call list \<times> 'c bp_router" where
  "bp_retry_input c dn now m i s =
     (if \<not> bi_denied_on_output (bp_ins s i) m then ([], s)
      else
       (let s1 = upd_in i (\<lambda>p. p\<lparr>bi_denied_on_output := (bi_denied_on_output p)(m := False)\<rparr>) s
        in case bi_pending_req (bp_ins s i) of
             None \<Rightarrow> ([Up_retry i], s1)
           | Some req \<Rightarrow>
              if bi_pending_mapping_id (bp_ins s i) = int m
              then case bp_forward c dn now i req m True (upd_in i (\<lambda>p. p\<lparr>bi_pending_req := None, bi_pending_mapping_id := -1\<rparr>) s1) of
                     (st, q, calls, s2) \<Rightarrow> (calls, s2)
              else ([Up_retry i], s1)))"

primrec bp_retry_inputs ::
  "'c bp_cfg \<Rightarrow> targets \<Rightarrow> int \<Rightarrow> nat \<Rightarrow> nat list \<Rightarrow> 'c bp_router \<Rightarrow> router_call list \<times> 'c bp_router" where
  "bp_retry_inputs c dn now m [] s = ([], s)"
| "bp_retry_inputs c dn now m (i # js) s =
     (case bp_retry_input c dn now m i s of (calls, s1) \<Rightarrow>
      case bp_retry_inputs c dn now m js s1 of (calls1, s2) \<Rightarrow> (calls @ calls1, s2))"

definition bp_retry_muxed :: "'c bp_cfg \<Rightarrow> targets \<Rightarrow> int \<Rightarrow> nat \<Rightarrow> 'c bp_router \<Rightarrow> router_call list \<times> 'c bp_router" where
  "bp_retry_muxed c dn now m s =
     (case bp_retry_inputs c dn now m [0..<rc_nb_inputs c] s of (calls, s1) \<Rightarrow>
        (calls @ (case bp_proxy_retry_waiter s1 of None \<Rightarrow> [] | Some w \<Rightarrow> [Notify_retry w]), s1\<lparr>bp_proxy_retry_waiter := None\<rparr>))"

definition bp_dispatch_proxy_req ::
  "'c bp_cfg \<Rightarrow> targets \<Rightarrow> rreq \<Rightarrow> nat \<Rightarrow> 'c bp_router \<Rightarrow> io_status \<times> rreq \<times> 'c bp_router" where
  "bp_dispatch_proxy_req c dn req waiter s =
     (case router_decode (router_cfg.truncate c) (r_addr req) (r_size req) (r_is_write req) of
        None \<Rightarrow> (IO_REQ_DONE, req\<lparr>r_resp := IO_RESP_INVALID\<rparr>, s)
      | Some m \<Rightarrow>
         (let q = req\<lparr>r_addr := out_addr (rc_entries c m) (r_addr req)\<rparr>; a = dn m q; q1 = target_answer a q
          in case a_status a of
               IO_REQ_DONE \<Rightarrow> (IO_REQ_DONE, q1, s)
             | IO_REQ_GRANTED \<Rightarrow> (IO_REQ_GRANTED, q1\<lparr>q_initiator := InFlight None (q_initiator q1) (Some waiter)\<rparr>, snd (bp_alloc_inflight s))
             | IO_REQ_DENIED \<Rightarrow> (IO_REQ_DENIED, req, s)))"

section \<open>Steps\<close>

text \<open>The steps of a router whose masters follow the protocol: a master that was denied waits for its retry. The state
  has the inputs whose master waits.\<close>

inductive bp_step :: "'c bp_cfg \<Rightarrow> (nat \<Rightarrow> bool) \<times> 'c bp_router \<Rightarrow> router_call list \<Rightarrow> (nat \<Rightarrow> bool) \<times> 'c bp_router \<Rightarrow> bool" for c where
  req: "\<not> waiting i \<Longrightarrow> i < rc_nb_inputs c \<Longrightarrow> bp_req_muxed c dn now period req i s = (st, q, calls, s')
    \<Longrightarrow> bp_step c (waiting, s) calls (waiting(i := st = IO_REQ_DENIED), s')"
| send: "bi_send_event (bp_ins s i) = Some now \<Longrightarrow> bp_send_handler c dn now i s = Some (calls, s')
    \<Longrightarrow> bp_step c (waiting, s) calls (\<lambda>j. waiting j \<and> Up_retry j \<notin> set calls, s')"
| resp: "bp_resp_muxed req s = Some (calls, q, s') \<Longrightarrow> bp_step c (waiting, s) calls (waiting, s')"
| retry: "bp_retry_muxed c dn now m s = (calls, s') \<Longrightarrow> bp_step c (waiting, s) calls (\<lambda>j. waiting j \<and> Up_retry j \<notin> set calls, s')"
| proxy: "bp_dispatch_proxy_req c dn req w s = (st, q, s') \<Longrightarrow> bp_step c (waiting, s) [] (waiting, s')"
| proxy_wait: "bp_step c (waiting, s) [] (waiting, s\<lparr>bp_proxy_retry_waiter := w\<rparr>)"

inductive bp_reach :: "'c bp_cfg \<Rightarrow> (nat \<Rightarrow> bool) \<times> 'c bp_router \<Rightarrow> bool" for c where
  init: "bp_reach c (\<lambda>_. False, bp_init z)"
| step: "bp_reach c x \<Longrightarrow> bp_step c x calls y \<Longrightarrow> bp_reach c y"

inductive_cases bp_stepE: "bp_step c x calls y"

section \<open>What resumes a held request\<close>

text \<open>An input that holds a request has its event enqueued, or is owed the retry of the output that refused the request,
  and not both. An input that holds none has no event, and a refusal that it is owed the retry of was passed on to
  its master.\<close>

definition bp_input_ok :: "bool \<Rightarrow> 'c bp_in \<Rightarrow> bool" where
  "bp_input_ok waiting p \<longleftrightarrow>
     (case bi_pending_req p of
        Some q \<Rightarrow> (bi_send_event p \<noteq> None \<and> (\<forall>m. \<not> bi_denied_on_output p m) \<and> 0 \<le> bi_pending_mapping_id p
            \<or> bi_send_event p = None \<and> (\<exists>m. bi_pending_mapping_id p = int m \<and> (\<forall>m'. bi_denied_on_output p m' = (m' = m))))
      | None \<Rightarrow> bi_send_event p = None \<and> (\<forall>m. bi_denied_on_output p m \<longrightarrow> waiting \<and> (\<forall>m'. bi_denied_on_output p m' = (m' = m))))"

definition bp_ok :: "(nat \<Rightarrow> bool) \<times> 'c bp_router \<Rightarrow> bool" where
  "bp_ok x \<longleftrightarrow> (\<forall>i. bp_input_ok (fst x i) (bp_ins (snd x) i))"

lemma commit_ins [simp]: "bp_ins (snd (bp_alloc_inflight s)) = bp_ins s" "bp_ins (bp_free_inflight w s) = bp_ins s"
  "bp_outs (snd (bp_alloc_inflight s)) = bp_outs s" "bp_outs (bp_free_inflight w s) = bp_outs s"
  "bp_proxy_retry_waiter (snd (bp_alloc_inflight s)) = bp_proxy_retry_waiter s" "bp_proxy_retry_waiter (bp_free_inflight w s) = bp_proxy_retry_waiter s"
  by (simp_all add: bp_alloc_inflight_def bp_free_inflight_def split: list.split)

text \<open>The three outcomes of a forwarded request.\<close>

lemma bp_forward_cases:
  assumes "bp_forward c dn now i req m d s = (st, q, calls, s')"
  obtains (denied) "st = IO_REQ_DENIED" "q = req" "calls = []" "\<exists>x. a_status (dn m x) = IO_REQ_DENIED"
      "bp_ins s' = (bp_ins s)(i := (let p1 = (bp_ins s i)\<lparr>bi_denied_on_output := (bi_denied_on_output (bp_ins s i))(m := True)\<rparr>
         in if d then p1\<lparr>bi_pending_req := Some req, bi_pending_mapping_id := int m\<rparr> else p1))"
      "bp_proxy_retry_waiter s' = bp_proxy_retry_waiter s"
  | (accepted) b where "st \<noteq> IO_REQ_DENIED" "bp_ins s' = (bp_ins s)(i := bi_bw_update b (bp_ins s i))"
      "calls = (if st = IO_REQ_DONE \<and> d then [Up (rc_name c, i) q] else [])" "bp_proxy_retry_waiter s' = bp_proxy_retry_waiter s"
proof -
  obtain w s1 where a: "bp_alloc_inflight s = (w, s1)" by fastforce
  have s1: "bp_ins s1 = bp_ins s" "bp_proxy_retry_waiter s1 = bp_proxy_retry_waiter s"
    using commit_ins(1)[of s] commit_ins(5)[of s] by (simp_all add: a)
  let ?q = "req\<lparr>q_initiator := InFlight (Some (rc_name c, i)) (q_initiator req) w\<rparr>"
  note F = assms[unfolded bp_forward_def a prod.case Let_def]
  show thesis
  proof (cases "a_status (dn m ?q)")
    case IO_REQ_DENIED
    with F s1 show thesis by (intro denied) (auto simp: Let_def)
  next
    case IO_REQ_DONE
    with F s1 show thesis by (intro accepted) auto
  next
    case IO_REQ_GRANTED
    with F s1 show thesis by (intro accepted) auto
  qed
qed

lemma bp_input_ok_bw [simp]: "bp_input_ok w (bi_bw_update b p) = bp_input_ok w p"
  by (simp add: bp_input_ok_def split: option.split)

text \<open>A step of one input leaves the others alone.\<close>

lemma bp_okI:
  assumes "bp_ok (waiting, s)" "bp_input_ok (w' i) (bp_ins s' i)" "\<And>j. j \<noteq> i \<Longrightarrow> bp_ins s' j = bp_ins s j \<and> w' j = waiting j"
  shows "bp_ok (w', s')"
  unfolding bp_ok_def
proof
  fix j show "bp_input_ok (fst (w', s') j) (bp_ins (snd (w', s')) j)"
    using assms by (cases "j = i") (auto simp: bp_ok_def)
qed

lemma bp_okD: "bp_ok (waiting, s) \<Longrightarrow> bp_input_ok (waiting j) (bp_ins s j)"
  by (simp add: bp_ok_def)

lemma bp_req_ok:
  assumes "bp_req_muxed c dn now period req i s = (st, q, calls, s')" "bp_ok (waiting, s)" "\<not> waiting i"
  shows "bp_ok (waiting(i := st = IO_REQ_DENIED), s')"
proof (cases "bi_pending_req (bp_ins s i)")
  case (Some r)
  then have e: "st = IO_REQ_DENIED" "s' = s" using assms(1) by (auto simp: bp_req_muxed_def)
  have "bp_input_ok True (bp_ins s i)" using bp_okD[OF assms(2), of i] Some by (simp add: bp_input_ok_def)
  then show ?thesis unfolding e by (intro bp_okI[OF assms(2), of _ i]) auto
next
  case None
  define s1 where "s1 = (if r_is_write req
                  then s\<lparr>bp_writes := bp_writes s + 1, bp_bytes_written := bp_bytes_written s + unat (r_size req)\<rparr>
                  else s\<lparr>bp_reads := bp_reads s + 1, bp_bytes_read := bp_bytes_read s + unat (r_size req)\<rparr>)"
  have s1: "bp_ins s1 = bp_ins s" "bp_outs s1 = bp_outs s" by (simp_all add: s1_def)
  have idle: "bi_send_event (bp_ins s i) = None" "\<not> bi_denied_on_output (bp_ins s i) m" for m
    using bp_okD[OF assms(2), of i] assms(3) None by (auto simp: bp_input_ok_def)
  show ?thesis
  proof (cases "router_decode (router_cfg.truncate c) (r_addr req) (r_size req) (r_is_write req)")
    case None': None
    then have "s' = s1\<lparr>bp_errors := bp_errors s1 + 1\<rparr>" "st = IO_REQ_DONE"
      using assms(1) None by (auto simp: bp_req_muxed_def s1_def[symmetric] Let_def)
    then show ?thesis using bp_okD[OF assms(2), of i] assms(3) s1 by (intro bp_okI[OF assms(2), of _ i]) auto
  next
    case (Some m)
    obtain p l where log: "router_log_access now period (r_addr req) (r_size req) (bo_log (bp_outs s m)) = (p, l)" by fastforce
    define s2 where "s2 = (upd_out m (bo_log_update (\<lambda>_. l)) s1)\<lparr>bp_pulses := bp_pulses s1 @ [p]\<rparr>"
    have s2: "bp_ins s2 = bp_ins s" by (simp add: s2_def s1)
    define delay where "delay = max (bp_peek c now (r_is_write req) (bi_bw (bp_ins s i))) (bp_peek c now (r_is_write req) (bo_bw (bp_outs s m)))
        + mapping_latency (rc_entries c m)"
    let ?q = "req\<lparr>r_addr := out_addr (rc_entries c m) (r_addr req)\<rparr>"
    note R = assms(1)[unfolded bp_req_muxed_def s1_def[symmetric] s1]
    show ?thesis
    proof (cases "delay = 0")
      case True
      then have f: "bp_forward c dn now i ?q m False s2 = (st, q, calls, s')"
        using R None Some log by (simp add: Let_def delay_def s2_def s1)
      from f show ?thesis
      proof (cases rule: bp_forward_cases)
        case denied
        then show ?thesis using None idle s2 by (intro bp_okI[OF assms(2), of _ i]) (auto simp: bp_input_ok_def Let_def)
      next
        case (accepted b)
        then show ?thesis using bp_okD[OF assms(2), of i] assms(3) s2 by (intro bp_okI[OF assms(2), of _ i]) auto
      qed
    next
      case False
      then have "st = IO_REQ_GRANTED" "bp_ins s' = (bp_ins s)(i := (bp_ins s i)\<lparr>bi_pending_req := Some ?q,
          bi_pending_mapping_id := int m, bi_send_event := Some (now + delay)\<rparr>)"
        using R None Some log by (auto simp: Let_def delay_def s1)
      then show ?thesis using assms(3) idle by (intro bp_okI[OF assms(2), of _ i]) (auto simp: bp_input_ok_def)
    qed
  qed
qed

lemma bp_send_ok:
  assumes "bi_send_event (bp_ins s i) = Some t" "bp_send_handler c dn now i s = Some (calls, s')" "bp_ok (waiting, s)"
  shows "bp_ok (\<lambda>j. waiting j \<and> Up_retry j \<notin> set calls, s')"
proof -
  obtain req where p: "bi_pending_req (bp_ins s i) = Some req" using assms(2) by (auto simp: bp_send_handler_def split: option.splits)
  have ok: "bp_input_ok (waiting j) (bp_ins s j)" for j using assms(3) by (simp add: bp_ok_def)
  then have flags: "\<not> bi_denied_on_output (bp_ins s i) m" for m
    using assms(1) p ok[of i] by (auto simp: bp_input_ok_def)
  have "0 \<le> bi_pending_mapping_id (bp_ins s i)" using assms(1) p ok[of i] by (auto simp: bp_input_ok_def)
  then obtain k where k: "bi_pending_mapping_id (bp_ins s i) = int k" using zero_le_imp_eq_int by blast
  let ?s = "upd_in i (\<lambda>p. p\<lparr>bi_pending_req := None, bi_pending_mapping_id := -1, bi_send_event := None\<rparr>) s"
  obtain st q calls1 where f: "bp_forward c dn now i req (nat (bi_pending_mapping_id (bp_ins s i))) True ?s = (st, q, calls1, s')"
      "calls = calls1 @ (if bi_pending_req (bp_ins s' i) = None then [Up_retry i] else [])"
    using assms(2) p by (auto simp: bp_send_handler_def split: prod.splits)
  from f(1) show ?thesis
  proof (cases rule: bp_forward_cases)
    case denied
    then show ?thesis using flags f(2) k by (intro bp_okI[OF assms(3), of _ i]) (auto simp: bp_input_ok_def Let_def)
  next
    case (accepted b)
    have "Up_retry j \<in> set calls \<longleftrightarrow> j = i" for j using accepted(2,3) f(2) by auto
    moreover have "bp_input_ok False (bp_ins s' i)" using accepted(2) flags by (simp add: bp_input_ok_def)
    moreover have "bp_ins s' j = bp_ins s j" if "j \<noteq> i" for j using accepted(2) that by simp
    ultimately show ?thesis by (intro bp_okI[OF assms(3), of _ i]) auto
  qed
qed

lemma bp_retry_input_ok:
  assumes "bp_retry_input c dn now m i s = (calls, s')" "bp_ok (waiting, s)"
  shows "bp_ok (\<lambda>j. waiting j \<and> Up_retry j \<notin> set calls, s')"
proof (cases "bi_denied_on_output (bp_ins s i) m")
  case False
  then show ?thesis using assms by (simp add: bp_retry_input_def)
next
  case True
  have ok: "bp_input_ok (waiting j) (bp_ins s j)" for j using assms(2) by (simp add: bp_ok_def)
  let ?s = "upd_in i (\<lambda>p. p\<lparr>bi_denied_on_output := (bi_denied_on_output p)(m := False)\<rparr>) s"
  show ?thesis
  proof (cases "bi_pending_req (bp_ins s i)")
    case None
    then have e: "calls = [Up_retry i]" "s' = ?s" using assms(1) True by (auto simp: bp_retry_input_def Let_def)
    have "\<forall>m'. bi_denied_on_output (bp_ins s i) m' = (m' = m)" "bi_send_event (bp_ins s i) = None"
      using ok[of i] None True by (auto simp: bp_input_ok_def)
    then show ?thesis using None unfolding e by (intro bp_okI[OF assms(2), of _ i]) (auto simp: bp_input_ok_def)
  next
    case (Some req)
    then have p: "bi_pending_mapping_id (bp_ins s i) = int m" "\<forall>m'. bi_denied_on_output (bp_ins s i) m' = (m' = m)" "bi_send_event (bp_ins s i) = None"
      using ok[of i] True by (auto simp: bp_input_ok_def)
    obtain st q where f: "bp_forward c dn now i req m True (upd_in i (\<lambda>p. p\<lparr>bi_pending_req := None, bi_pending_mapping_id := -1\<rparr>) ?s) = (st, q, calls, s')"
      using assms(1) True Some p(1) by (auto simp: bp_retry_input_def Let_def split: prod.splits)
    from f show ?thesis
    proof (cases rule: bp_forward_cases)
      case denied
      then show ?thesis using p by (intro bp_okI[OF assms(2), of _ i]) (auto simp: bp_input_ok_def Let_def)
    next
      case (accepted b)
      have "Up_retry j \<notin> set calls" for j using accepted(3) by auto
      moreover have "bp_input_ok (waiting i) (bp_ins s' i)" using accepted(2) p by (simp add: bp_input_ok_def)
      moreover have "bp_ins s' j = bp_ins s j" if "j \<noteq> i" for j using accepted(2) that by simp
      ultimately show ?thesis by (intro bp_okI[OF assms(2), of _ i]) auto
    qed
  qed
qed

lemma bp_retry_inputs_ok:
  assumes "bp_retry_inputs c dn now m js s = (calls, s')" "bp_ok (waiting, s)"
  shows "bp_ok (\<lambda>j. waiting j \<and> Up_retry j \<notin> set calls, s')"
  using assms
proof (induction js arbitrary: s calls waiting)
  case (Cons i js)
  obtain c1 s1 where h: "bp_retry_input c dn now m i s = (c1, s1)" by fastforce
  obtain c2 where t: "bp_retry_inputs c dn now m js s1 = (c2, s')" "calls = c1 @ c2" using Cons.prems(1) h by (auto split: prod.splits)
  from Cons.IH[OF t(1) bp_retry_input_ok[OF h Cons.prems(2)]] show ?case by (simp add: t(2) conj_assoc)
qed simp

lemma bp_reach_ok: "bp_reach c x \<Longrightarrow> bp_ok x"
proof (induction rule: bp_reach.induct)
  case (init z)
  then show ?case by (simp add: bp_ok_def bp_input_ok_def bp_init_def Let_def)
next
  case (step x calls y)
  from step.hyps(2) step.IH show ?case
  proof (cases rule: bp_step.cases)
    case (req waiting i dn now period req s st q s')
    then show ?thesis using bp_req_ok step.IH by blast
  next
    case (send s i now dn s' waiting)
    then show ?thesis using bp_send_ok step.IH by blast
  next
    case (resp req s q s' waiting)
    then have "bp_ins s' = bp_ins s" by (auto simp: bp_resp_muxed_def Let_def split: initiator.splits option.splits)
    then show ?thesis using resp step.IH by (simp add: bp_ok_def)
  next
    case (retry dn now m s s' waiting)
    obtain calls1 s1 where r: "bp_retry_inputs c dn now m [0..<rc_nb_inputs c] s = (calls1, s1)" by fastforce
    have e: "s' = s1\<lparr>bp_proxy_retry_waiter := None\<rparr>" "\<And>j. Up_retry j \<in> set calls \<longleftrightarrow> Up_retry j \<in> set calls1"
      using retry(3) r by (auto simp: bp_retry_muxed_def split: option.splits)
    show ?thesis using bp_retry_inputs_ok[OF r] step.IH retry e by (simp add: bp_ok_def)
  next
    case (proxy dn req w s st q s' waiting)
    then have "bp_ins s' = bp_ins s"
      by (auto simp: bp_dispatch_proxy_req_def Let_def split: option.splits io_status.splits)
    then show ?thesis using proxy step.IH by (simp add: bp_ok_def)
  next
    case (proxy_wait waiting s w)
    then show ?thesis using step.IH by (simp add: bp_ok_def)
  qed
qed

section \<open>Held requests are served\<close>

lemma bp_retry_input_other:
  assumes "bp_retry_input c dn now m j s = (calls, s')"
  shows "i \<noteq> j \<Longrightarrow> bp_ins s' i = bp_ins s i" "i \<noteq> j \<Longrightarrow> Up_retry i \<notin> set calls" "\<not> bi_denied_on_output (bp_ins s j) m \<Longrightarrow> calls = [] \<and> s' = s"
  using assms by (auto simp: bp_retry_input_def Let_def split: if_splits option.splits prod.splits elim!: bp_forward_cases)

lemma bp_retry_inputs_other:
  "bp_retry_inputs c dn now m js s = (calls, s') \<Longrightarrow> i \<notin> set js \<or> \<not> bi_denied_on_output (bp_ins s i) m
    \<Longrightarrow> bp_ins s' i = bp_ins s i \<and> Up_retry i \<notin> set calls"
proof (induction js arbitrary: s calls)
  case (Cons j js)
  obtain c1 s1 where h: "bp_retry_input c dn now m j s = (c1, s1)" by fastforce
  obtain c2 where t: "bp_retry_inputs c dn now m js s1 = (c2, s')" "calls = c1 @ c2" using Cons.prems(1) h by (auto split: prod.splits)
  have "bp_ins s1 i = bp_ins s i \<and> Up_retry i \<notin> set c1"
    using bp_retry_input_other[OF h] Cons.prems(2) by (cases "i = j") auto
  then show ?case using Cons.IH[OF t(1)] Cons.prems(2) t(2) by auto
qed simp

text \<open>C11: Every request that the router holds is answered. In every reachable state such a request has its event enqueued, or the
  output that refused it owes a retry; and when that comes and the target serves the request, the master gets the
  response and the input is free.\<close>

theorem bp_held_served:
  assumes "bp_reach c (waiting, s)" "bi_pending_req (bp_ins s i) = Some q" "i < rc_nb_inputs c" "\<forall>m q. a_status (dn m q) = IO_REQ_DONE"
  shows "\<exists>calls s' q'. (case bi_send_event (bp_ins s i) of
       Some t \<Rightarrow> bp_send_handler c dn t i s = Some (calls, s')
     | None \<Rightarrow> (\<exists>m. bi_denied_on_output (bp_ins s i) m \<and> bp_retry_muxed c dn now m s = (calls, s')))
    \<and> Up (rc_name c, i) q' \<in> set calls \<and> q_id q' = q_id q \<and> q_initiator q' = q_initiator q \<and> bi_pending_req (bp_ins s' i) = None"
proof -
  have ok: "bp_input_ok (waiting i) (bp_ins s i)" using bp_reach_ok[OF assms(1)] by (rule bp_okD)
  have fwd: "\<exists>q' s1. bp_forward c dn t i q m True s0 = (IO_REQ_DONE, q', [Up (rc_name c, i) q'], s1) \<and> q_id q' = q_id q \<and> q_initiator q' = q_initiator q
      \<and> bi_pending_req (bp_ins s1 i) = bi_pending_req (bp_ins s0 i)" for t m s0
  proof -
    obtain st q' calls s1 where f: "bp_forward c dn t i q m True s0 = (st, q', calls, s1)" using prod_cases4 by blast
    have st: "st = IO_REQ_DONE" "q_id q' = q_id q" "q_initiator q' = q_initiator q"
      using f assms(4) by (auto simp: bp_forward_def target_answer_def Let_def split: prod.splits)
    from f show ?thesis
    proof (cases rule: bp_forward_cases)
      case (accepted b)
      then show ?thesis using f st by simp
    qed (use assms(4) in simp)
  qed
  show ?thesis
  proof (cases "bi_send_event (bp_ins s i)")
    case (Some t)
    obtain q' s1 where "bp_forward c dn t i q (nat (bi_pending_mapping_id (bp_ins s i))) True
        (upd_in i (\<lambda>p. p\<lparr>bi_pending_req := None, bi_pending_mapping_id := -1, bi_send_event := None\<rparr>) s) = (IO_REQ_DONE, q', [Up (rc_name c, i) q'], s1)"
        "q_id q' = q_id q" "q_initiator q' = q_initiator q" "bi_pending_req (bp_ins s1 i) = None"
      using fwd[of t "nat (bi_pending_mapping_id (bp_ins s i))" "upd_in i (\<lambda>p. p\<lparr>bi_pending_req := None, bi_pending_mapping_id := -1, bi_send_event := None\<rparr>) s"]
      by auto
    then show ?thesis using Some assms(2) by (simp add: bp_send_handler_def)
  next
    case None
    then obtain m where m: "bi_pending_mapping_id (bp_ins s i) = int m" "bi_denied_on_output (bp_ins s i) m"
      using ok assms(2) by (auto simp: bp_input_ok_def)
    obtain calls s' where r: "bp_retry_inputs c dn now m [0..<rc_nb_inputs c] s = (calls, s')" by fastforce
    have "\<exists>q'. Up (rc_name c, i) q' \<in> set calls \<and> q_id q' = q_id q \<and> q_initiator q' = q_initiator q \<and> bi_pending_req (bp_ins s' i) = None"
      if "bp_retry_inputs c dn now m js s0 = (calls, s')" "i \<in> set js" "distinct js" "bp_ins s0 i = bp_ins s i" for js s0 calls s'
      using that
    proof (induction js arbitrary: s0 calls)
      case (Cons j js)
      obtain c1 s1 where h: "bp_retry_input c dn now m j s0 = (c1, s1)" by fastforce
      obtain c2 where t: "bp_retry_inputs c dn now m js s1 = (c2, s')" "calls = c1 @ c2" using Cons.prems(1) h by (auto split: prod.splits)
      show ?case
      proof (cases "j = i")
        case False
        then have "bp_ins s1 i = bp_ins s i" using bp_retry_input_other(1)[OF h] Cons.prems(4) by simp
        then show ?thesis using Cons.IH[OF t(1)] Cons.prems False t(2) by auto
      next
        case True
        let ?s0 = "upd_in i (\<lambda>p. p\<lparr>bi_pending_req := None, bi_pending_mapping_id := -1\<rparr>)
            (upd_in i (\<lambda>p. p\<lparr>bi_denied_on_output := (bi_denied_on_output p)(m := False)\<rparr>) s0)"
        obtain q' s2 where f: "bp_forward c dn now i q m True ?s0 = (IO_REQ_DONE, q', [Up (rc_name c, i) q'], s2)" "q_id q' = q_id q"
            "q_initiator q' = q_initiator q" "bi_pending_req (bp_ins s2 i) = None"
          using fwd[of now m ?s0] by auto
        have "c1 = [Up (rc_name c, i) q'] \<and> s1 = s2"
          using h True m f(1) Cons.prems(4) assms(2) by (simp add: bp_retry_input_def Let_def)
        moreover have "bp_ins s' i = bp_ins s1 i" using bp_retry_inputs_other[OF t(1)] Cons.prems(3) True by simp
        ultimately show ?thesis using f t(2) by auto
      qed
    qed simp
    from this[OF r] assms(3) obtain q' where "Up (rc_name c, i) q' \<in> set calls" "q_id q' = q_id q" "q_initiator q' = q_initiator q"
        "bi_pending_req (bp_ins s' i) = None" by auto
    moreover obtain calls2 where "bp_retry_muxed c dn now m s = (calls @ calls2, s'\<lparr>bp_proxy_retry_waiter := None\<rparr>)"
      using r by (simp add: bp_retry_muxed_def)
    ultimately show ?thesis using None m(2)
      by (intro exI[of _ "calls @ calls2"] exI[of _ "s'\<lparr>bp_proxy_retry_waiter := None\<rparr>"] exI[of _ q']) auto
  qed
qed

section \<open>Findings\<close>

text \<open>An input whose master waits for a retry that nothing will give it: the state of such an input never changes.\<close>

definition bp_stuck :: "nat \<Rightarrow> (nat \<Rightarrow> bool) \<times> 'c bp_router \<Rightarrow> bool" where
  "bp_stuck i x \<longleftrightarrow> fst x i \<and> bi_pending_req (bp_ins (snd x) i) = None \<and> bi_send_event (bp_ins (snd x) i) = None
     \<and> (\<forall>m. \<not> bi_denied_on_output (bp_ins (snd x) i) m)"

lemma bp_forward_other: "bp_forward c dn now j req m d s = (st, q, calls, s') \<Longrightarrow> i \<noteq> j \<Longrightarrow> bp_ins s' i = bp_ins s i \<and> Up_retry i \<notin> set calls"
  by (erule bp_forward_cases) auto

lemma bp_stuck_step:
  assumes "bp_step c x calls y" "bp_stuck i x"
  shows "bp_stuck i y"
  using assms
proof (cases rule: bp_step.cases)
  case (req waiting j dn now period req s st q s')
  then have "j \<noteq> i" using assms(2) by (auto simp: bp_stuck_def)
  then have "bp_ins s' i = bp_ins s i"
    using req(5) by (auto simp: bp_req_muxed_def Let_def split: if_splits option.splits prod.splits dest!: bp_forward_other[of _ _ _ _ _ _ _ _ _ _ _ _ i])
  then show ?thesis using req \<open>j \<noteq> i\<close> assms(2) by (simp add: bp_stuck_def)
next
  case (send s j now dn s' waiting)
  then have "j \<noteq> i" using assms(2) by (auto simp: bp_stuck_def)
  then have "bp_ins s' i = bp_ins s i \<and> Up_retry i \<notin> set calls"
    using send(4) by (auto simp: bp_send_handler_def split: if_splits option.splits prod.splits dest!: bp_forward_other[of _ _ _ _ _ _ _ _ _ _ _ _ i])
  then show ?thesis using send assms(2) by (simp add: bp_stuck_def)
next
  case (resp req s q s' waiting)
  then have "bp_ins s' = bp_ins s" by (auto simp: bp_resp_muxed_def Let_def split: initiator.splits option.splits)
  then show ?thesis using resp assms(2) by (simp add: bp_stuck_def)
next
  case (retry dn now m s s' waiting)
  obtain calls1 s1 where r: "bp_retry_inputs c dn now m [0..<rc_nb_inputs c] s = (calls1, s1)" by fastforce
  have "bp_ins s1 i = bp_ins s i \<and> Up_retry i \<notin> set calls1" using bp_retry_inputs_other[OF r] assms(2) retry by (simp add: bp_stuck_def)
  then have "bp_ins s' i = bp_ins s i \<and> Up_retry i \<notin> set calls" using retry(3) r by (auto simp: bp_retry_muxed_def split: option.splits)
  then show ?thesis using retry assms(2) by (simp add: bp_stuck_def)
next
  case (proxy dn req w s st q s' waiting)
  then have "bp_ins s' = bp_ins s" by (auto simp: bp_dispatch_proxy_req_def Let_def split: option.splits io_status.splits)
  then show ?thesis using proxy assms(2) by (simp add: bp_stuck_def)
next
  case (proxy_wait waiting s w)
  then show ?thesis using assms(2) by (simp add: bp_stuck_def)
qed

text \<open>A request denied at once keeps the address of its target: sent again it is decoded at that address.\<close>

theorem bp_denied_translated:
  assumes "bp_req_muxed c dn now period req i s = (IO_REQ_DENIED, q, calls, s')" "bi_pending_req (bp_ins s i) = None"
  shows "\<exists>m. router_decode (router_cfg.truncate c) (r_addr req) (r_size req) (r_is_write req) = Some m
    \<and> q = req\<lparr>r_addr := out_addr (rc_entries c m) (r_addr req)\<rparr>"
proof -
  obtain m where m: "router_decode (router_cfg.truncate c) (r_addr req) (r_size req) (r_is_write req) = Some m"
    using assms by (cases "router_decode (router_cfg.truncate c) (r_addr req) (r_size req) (r_is_write req)") (auto simp: bp_req_muxed_def Let_def)
  have "\<exists>s0. bp_forward c dn now i (req\<lparr>r_addr := out_addr (rc_entries c m) (r_addr req)\<rparr>) m False s0 = (IO_REQ_DENIED, q, calls, s')"
    using assms m by (auto simp: bp_req_muxed_def Let_def split: prod.splits if_splits)
  then show ?thesis using m by (auto elim: bp_forward_cases)
qed

text \<open>The record that a command of the debugger was done with keeps its thread: the next request that gets it
  wakes that thread instead of its master.\<close>

theorem bp_stale_waiter:
  assumes "bp_inflight_free s = Some w # ws" "bp_forward c dn now i req m d s = (IO_REQ_GRANTED, q, calls, s')" "\<forall>m q. a_initiator (dn m q) = q_initiator q"
  shows "\<exists>q' s''. bp_resp_muxed q s' = Some ([Notify_replied w], q', s'')"
proof -
  have "q_initiator q = InFlight (Some (rc_name c, i)) (q_initiator req) (Some w)"
    using assms by (auto simp: bp_forward_def bp_alloc_inflight_def target_answer_def Let_def split: io_status.splits)
  then show ?thesis by (simp add: bp_resp_muxed_def Let_def)
qed

text \<open>The response of a command of the debugger leaves such a record.\<close>

theorem bp_waiter_kept:
  assumes "q_initiator q = InFlight None x (Some w)"
  shows "\<exists>q' s'. bp_resp_muxed q s = Some ([Notify_replied w], q', s') \<and> bp_inflight_free s' = Some w # bp_inflight_free s"
  using assms by (simp add: bp_resp_muxed_def bp_free_inflight_def Let_def)

text \<open>A response of several beats: the first one takes the record out of the request, the next one finds
  what the master had in it.\<close>

theorem bp_second_beat:
  assumes "q_initiator q = InFlight (Some p) (Opaque x) None"
  shows "\<exists>q' s'. bp_resp_muxed q s = Some ([Up p q'], q', s') \<and> bp_resp_muxed q' s' = None"
  using assms by (simp add: bp_resp_muxed_def Let_def)

text \<open>Two accesses of the same direction accepted in the same cycle on a port are accounted as one: the second one reads the
  register before the first one's update and writes the same value.\<close>

theorem bp_same_cycle_free:
  assumes law: "\<And>t v r. clk_get (bc_clk c) t (clk_set (bc_clk c) t v r) = clk_get (bc_clk c) t r"
      "\<And>t t' v r. t < t' \<Longrightarrow> clk_get (bc_clk c) t' (clk_set (bc_clk c) t v r) = v"
    and "rc_bandwidth c \<noteq> 0" "now < t"
  shows "bp_peek c t w (bp_commit c now sz w (bp_commit c now sz w l)) = bp_peek c t w (bp_commit c now sz w l)"
  using assms by (simp add: bp_peek_def bp_commit_def bp_register_def Let_def)

section \<open>Examples\<close>

text \<open>A router that adds one cycle, without a limit on its bandwidth.\<close>

definition demo_bp :: "int bp_cfg" where
  "demo_bp = router_cfg.extend (demo_router\<lparr>rc_bandwidth := 0\<rparr>)
     \<lparr>bc_shared = False, bc_clk = \<lparr>clk_get = (\<lambda>t r. r), clk_set = (\<lambda>t v r. v)\<rparr>\<rparr>"

lemma demo_bp_simps: "rc_nb_inputs demo_bp = 1" "rc_bandwidth demo_bp = 0" "rc_latency demo_bp = 1" "rc_entries demo_bp = rc_entries demo_router"
  "rc_name demo_bp = 0" "router_decode (router_cfg.truncate demo_bp) 0 8 w = Some 0"
  using demo_decode(1)[of w]
  by (simp_all add: demo_bp_def demo_router_def router_cfg.defs router_decode_def)

lemma demo_bp_peek: "bp_peek demo_bp now w l = 1" by (simp add: bp_peek_def demo_bp_simps)

text \<open>A request is held for three cycles.\<close>

lemma demo_bp_held:
  "\<exists>s. bp_reach demo_bp (\<lambda>_. False, s) \<and> bi_pending_req (bp_ins s 0) = Some (demo_rreq 10 0 False) \<and> bi_pending_mapping_id (bp_ins s 0) = 0
     \<and> bi_send_event (bp_ins s 0) = Some 3"
proof -
  obtain p l where log: "router_log_access 0 1000 0 8 access_log_init = (p, l)" by fastforce
  have e: "rc_entries demo_router m = \<lparr>remove_offset = 0, add_offset = 0, mapping_latency = 2, out_bound = True\<rparr>" for m
    by (simp add: demo_router_def)
  have q: "(demo_rreq 10 0 False)\<lparr>r_addr := 0\<rparr> = demo_rreq 10 0 False" by (simp add: demo_rreq_def)
  obtain s where s: "bp_req_muxed demo_bp (demo_targets IO_REQ_DONE) 0 1000 (demo_rreq 10 0 False) 0 (bp_init 0)
      = (IO_REQ_GRANTED, demo_rreq 10 0 False, [], s)"
    "bi_pending_req (bp_ins s 0) = Some (demo_rreq 10 0 False)" "bi_pending_mapping_id (bp_ins s 0) = 0" "bi_send_event (bp_ins s 0) = Some 3"
    by (auto simp: bp_req_muxed_def bp_init_def demo_bp_simps demo_bp_peek e log out_addr_def q Let_def)
  have "bp_step demo_bp (\<lambda>_. False, bp_init 0) [] ((\<lambda>_. False)(0 := IO_REQ_GRANTED = IO_REQ_DENIED), s)"
    by (rule bp_step.req[OF _ _ s(1)]) (simp_all add: demo_bp_simps)
  then have "bp_step demo_bp (\<lambda>_. False, bp_init 0) [] (\<lambda>_. False, s)" by (simp add: fun_upd_idem)
  from bp_reach.step[OF bp_reach.init this] s(2-4) show ?thesis by blast
qed

theorem bp_held_served_witness:
  "\<exists>s calls s' q'. bp_reach demo_bp (\<lambda>_. False, s) \<and> bi_pending_req (bp_ins s 0) = Some (demo_rreq 10 0 False)
     \<and> bp_send_handler demo_bp (demo_targets IO_REQ_DONE) 3 0 s = Some (calls, s') \<and> Up (0, 0) q' \<in> set calls \<and> q_id q' = 10"
proof -
  obtain s where s: "bp_reach demo_bp (\<lambda>_. False, s)" "bi_pending_req (bp_ins s 0) = Some (demo_rreq 10 0 False)" "bi_send_event (bp_ins s 0) = Some 3"
    using demo_bp_held by blast
  have "\<forall>m q. a_status (demo_targets IO_REQ_DONE m q) = IO_REQ_DONE" by (simp add: demo_targets_def)
  from bp_held_served[OF s(1,2) _ this] s show ?thesis by (fastforce simp: demo_bp_simps)
qed

text \<open>The held request is refused by its target and waits for its retry; the master sends another one, which is denied
  because the input is busy; the retry then serves the first one, and nothing ever wakes the master for the second.\<close>

theorem bp_lost_wakeup:
  "\<exists>x. bp_reach demo_bp x \<and> bp_stuck 0 x \<and> (\<forall>y calls. bp_step demo_bp x calls y \<longrightarrow> bp_stuck 0 y)"
proof -
  let ?r = "demo_rreq 10 0 False" and ?r2 = "demo_rreq 11 0 False"
  obtain s where s: "bp_reach demo_bp (\<lambda>_. False, s)" "bi_pending_req (bp_ins s 0) = Some ?r" "bi_pending_mapping_id (bp_ins s 0) = 0"
      "bi_send_event (bp_ins s 0) = Some 3" using demo_bp_held by blast
  have den: "\<exists>s'. bp_send_handler demo_bp (demo_targets IO_REQ_DENIED) 3 0 s = Some ([], s') \<and> bi_pending_req (bp_ins s' 0) = Some ?r"
  proof -
    let ?s0 = "upd_in 0 (\<lambda>p. p\<lparr>bi_pending_req := None, bi_pending_mapping_id := -1, bi_send_event := None\<rparr>) s"
    obtain st q calls s' where f: "bp_forward demo_bp (demo_targets IO_REQ_DENIED) 3 0 ?r 0 True ?s0 = (st, q, calls, s')" using prod_cases4 by blast
    have "st = IO_REQ_DENIED" using f by (auto simp: bp_forward_def demo_targets_def Let_def split: prod.splits)
    from f this have "calls = []" "bi_pending_req (bp_ins s' 0) = Some ?r" by (auto elim!: bp_forward_cases simp: Let_def)
    then show ?thesis using f s(2,3) by (simp add: bp_send_handler_def)
  qed
  then obtain s1 where s1: "bp_send_handler demo_bp (demo_targets IO_REQ_DENIED) 3 0 s = Some ([], s1)" "bi_pending_req (bp_ins s1 0) = Some ?r" by blast
  have r1: "bp_reach demo_bp (\<lambda>_. False, s1)" using bp_reach.step[OF s(1) bp_step.send[OF s(4) s1(1), of "\<lambda>_. False"]] by simp
  have "bp_req_muxed demo_bp (demo_targets IO_REQ_DENIED) 4 1000 ?r2 0 s1 = (IO_REQ_DENIED, ?r2, [], s1)"
    using s1(2) by (simp add: bp_req_muxed_def)
  from bp_step.req[OF _ _ this, of "\<lambda>_. False"] have "bp_step demo_bp (\<lambda>_. False, s1) [] ((\<lambda>_. False)(0 := True), s1)" by (simp add: demo_bp_simps)
  then have r2: "bp_reach demo_bp ((\<lambda>_. False)(0 := True), s1)" by (rule bp_reach.step[OF r1])
  note ok = bp_okD[OF bp_reach_ok[OF r1], of 0]
  have f1: "bi_send_event (bp_ins s1 0) = None"
    using s1(1) s(2) by (auto simp: bp_send_handler_def split: prod.splits elim!: bp_forward_cases)
  then obtain m where m: "bi_pending_mapping_id (bp_ins s1 0) = int m" "\<forall>m'. bi_denied_on_output (bp_ins s1 0) m' = (m' = m)"
    using ok s1(2) by (auto simp: bp_input_ok_def)
  obtain calls s2 where ri: "bp_retry_input demo_bp (demo_targets IO_REQ_DONE) 5 m 0 s1 = (calls, s2)" by fastforce
  have s2: "Up_retry 0 \<notin> set calls" "bi_pending_req (bp_ins s2 0) = None" "bi_send_event (bp_ins s2 0) = None" "\<forall>m'. \<not> bi_denied_on_output (bp_ins s2 0) m'"
    using ri s1(2) m f1 by (auto simp: bp_retry_input_def demo_targets_def Let_def split: prod.splits if_splits elim!: bp_forward_cases)
  obtain calls' s3 where r: "bp_retry_muxed demo_bp (demo_targets IO_REQ_DONE) 5 m s1 = (calls', s3)" by fastforce
  have c: "Up_retry 0 \<notin> set calls'" "bp_ins s3 = bp_ins s2" using r ri s2(1)
    by (auto simp: bp_retry_muxed_def demo_bp_simps split: option.splits)
  have "bp_reach demo_bp (\<lambda>j. ((\<lambda>_. False)(0 := True)) j \<and> Up_retry j \<notin> set calls', s3)" by (rule bp_reach.step[OF r2 bp_step.retry[OF r]])
  moreover have "bp_stuck 0 (\<lambda>j. ((\<lambda>_. False)(0 := True)) j \<and> Up_retry j \<notin> set calls', s3)" using s2 c by (simp add: bp_stuck_def)
  ultimately show ?thesis using bp_stuck_step by blast
qed

end
