(* ===== verification/CoreVSpec.thy ===== *)
theory CoreVSpec imports HwLoop PulpSpec CoreV begin

text \<open>
  What the handlers of theory \<open>CoreV\<close> do, against the handlers of theory \<open>PulpV2\<close>, the reversal of digits,
  and the hardware loops of CORE-V (\<open>src/models/cpu/iss/include/isa/corev.hpp\<close>), with what the code gets wrong.
\<close>

section \<open>The twins of PULP\<close>

text \<open>The handlers of \<open>PulpV2\<close> that are the twins of \<open>corev_scalar_handlers\<close>, in the same order.\<close>

definition pulp_scalar_twins :: "exec list" where
  "pulp_scalar_twins = [
      p_avgu_exec, p_slet_exec, p_sletu_exec, p_min_exec, p_minu_exec, p_max_exec, p_maxu_exec, p_ror_exec,
      p_ff1_exec, p_fl1_exec, p_clb_exec, p_cnt_exec, p_exths_exec, p_exthz_exec, p_extbs_exec, p_extbz_exec,
      p_abs_exec, pv_extract_h_exec, pv_extract_b_exec, pv_extractu_h_exec, pv_extractu_b_exec, pv_insert_h_exec,
      pv_insert_b_exec, pv_shuffle_h_exec, pv_shuffle_h_sci_exec, pv_shuffle_b_exec, pv_shufflei0_b_sci_exec,
      pv_shufflei1_b_sci_exec, pv_shufflei2_b_sci_exec, pv_shufflei3_b_sci_exec, pv_shuffle2_h_exec,
      pv_shuffle2_b_exec, pv_pack_h_exec, pv_packhi_b_exec, pv_packlo_b_exec, p_mac_exec, p_msu_exec, p_mul_exec,
      p_muls_exec, p_mulhhs_exec, p_mulsN_exec, p_mulhhsN_exec, p_mulsNR_exec, p_mulhhsNR_exec, p_mulu_exec,
      p_mulhhu_exec, p_muluN_exec, p_mulhhuN_exec, p_muluNR_exec, p_mulhhuNR_exec, p_macs_exec, p_machhs_exec,
      p_macsN_exec, p_machhsN_exec, p_macsNR_exec, p_machhsNR_exec, p_macu_exec, p_machhu_exec, p_macuN_exec,
      p_machhuN_exec, p_macuNR_exec, p_machhuNR_exec, p_addNi_exec, p_adduNi_exec, p_addRNi_exec, p_adduRNi_exec,
      p_subNi_exec, p_subuNi_exec, p_subRNi_exec, p_subuRNi_exec, p_addN_exec, p_adduN_exec, p_addRN_exec,
      p_adduRN_exec, p_subN_exec, p_subuN_exec, p_subRN_exec, p_subuRN_exec, p_clipi_exec, p_clip_exec, p_bclri_exec,
      p_bclr_exec, p_extracti_exec, p_extractui_exec, p_extract_exec, p_extractu_exec, p_inserti_exec, p_insert_exec,
      p_bseti_exec, p_bset_exec, p_bneimm_exec_fast, p_bneimm_exec, p_beqimm_exec_fast, p_beqimm_exec]"

text \<open>The validity marks of a core, and a core without them.\<close>

definition marks :: "iss \<Rightarrow> (nat \<Rightarrow> u32) \<times> bool \<times> bool \<times> string" where
  "marks s = (regs_memcheck (iss_regfile s), memcheck_enabled (iss_regfile s), memcheck_reg_fault (iss_regfile s),
     memcheck_reg_fault_message (iss_regfile s))"

definition unmarked :: "iss \<Rightarrow> iss" where
  "unmarked = on_rf (\<lambda>rf. rf\<lparr>regs_memcheck := (\<lambda>_. 0), memcheck_reg_fault := False, memcheck_reg_fault_message := []\<rparr>)"

definition twins :: "exec \<Rightarrow> exec \<Rightarrow> bool" where
  "twins c p \<longleftrightarrow> (\<forall>insn pc s. fst (c insn pc s) = fst (p insn pc s)
     \<and> unmarked (snd (c insn pc s)) = unmarked (snd (p insn pc s)) \<and> marks (snd (c insn pc s)) = marks s)"

lemmas mark_defs = memcheck_merge_def memcheck_set_valid_def memcheck_get_valid_def memcheck_get_def memcheck_set_def
  memcheck_branch_reg_def

lemma cv_twins:
  "twins (CV_rr f) (PV_rr f)" "twins (CV_rs f) (PV_rs f)" "twins (CV_ru f) (PV_ru f)" "twins (CV_ru f) (PV_ru_h f)"
  "twins (CV_ru f) (PV_ru_b f)" "twins (CV_rrr g) (PV_rrr g)" "twins (CV_rrs g) (PV_rrs g)" "twins (CV_rru g) (PV_rru g)"
  "twins (CV_r k) (PV_r k)"
  by (simp_all add: twins_def cv_defs pv_defs Let_def marks_def unmarked_def on_rf_def set_reg_def get_reg_def mark_defs)

lemma cv_scalar_twins: "list_all2 twins corev_scalar_handlers pulp_scalar_twins"
  unfolding corev_scalar_handlers_def pulp_scalar_twins_def list_all2_Cons list_all2_Nil
  by (intro conjI TrueI; simp add: twins_def corev_alu_defs pulp_alu_defs Let_def marks_def unmarked_def on_rf_def on_tm_def
      set_reg_def get_reg_def mark_defs iss_insn_next_def)

lemma cv_vector_twins:
  "list_all2 twins (cv_arith_handlers @ cv_dot_handlers @ cv_cmp_handlers) (pv_arith_handlers @ pv_dot_handlers @ pv_cmp_handlers)"
  by (simp add: cv_macro_defs pv_macro_defs cv_twins)

text \<open>C38: The twins. Each scalar and packed handler of CORE-V that has a twin in PULP goes to the same address and
  leaves the same core, but for the validity marks of the registers, which it leaves as they were.\<close>

theorem corev_pulp_twins:
  "list_all2 twins (corev_scalar_handlers @ cv_arith_handlers @ cv_dot_handlers @ cv_cmp_handlers)
     (pulp_scalar_twins @ pv_arith_handlers @ pv_dot_handlers @ pv_cmp_handlers)"
  by (intro list_all2_appendI cv_scalar_twins cv_vector_twins)


text \<open>The two that are written in another way: the clipping to a range that starts at zero.\<close>

lemma CLIP_CLIPU: "0 \<le> sint hi \<Longrightarrow> lib_CLIP a 0 hi = lib_CLIPU a hi"
  by (simp add: CLIP_clamp CLIPU_clamp)

lemma cv_clipu_twin:
  assumes "uint (UIM_GET insn 0) < 32"
  shows "unmarked (snd (cv_clipu_exec insn pc s)) = unmarked (snd (p_clipui_exec insn pc s))"
  using clip_bounds(1,2)[OF assms]
  by (simp add: cv_clipu_exec_def p_clipui_exec_def Let_def CLIP_CLIPU unmarked_def on_rf_def set_reg_def get_reg_def mark_defs)

lemma cv_clipur_twin:
  assumes "0 \<le> sint (REG_GET insn 1 s)"
  shows "unmarked (snd (cv_clipur_exec insn pc s)) = unmarked (snd (p_clipu_exec insn pc s))"
  using assms by (simp add: cv_clipur_exec_def p_clipu_exec_def Let_def CLIP_CLIPU unmarked_def on_rf_def set_reg_def get_reg_def
      mark_defs)

section \<open>The reversal of digits\<close>

text \<open>After \<open>k\<close> iterations the low \<open>k\<close> digits of the result are the digits \<open>k\<close>, \<open>k - 1\<close>, ..., 1 of the input,
  and the input itself is above them.\<close>

definition rev_inv :: "u32 \<Rightarrow> nat \<Rightarrow> nat \<Rightarrow> u32 \<Rightarrow> bool" where
  "rev_inv a r k rv \<longleftrightarrow> (\<forall>j<32. bit rv j = bit a (if j < r * k then r * (k - j div r) + j mod r else j - r * k))"

lemma rev_inv_step:
  assumes "0 < r" "rev_inv a r k rv"
  shows "rev_inv a r (Suc k) (push_bit r rv OR (drop_bit (r * Suc k) a AND mask r))"
  unfolding rev_inv_def
proof (intro allI impI)
  fix j :: nat assume j: "j < 32"
  show "bit (push_bit r rv OR (drop_bit (r * Suc k) a AND mask r)) j
      = bit a (if j < r * Suc k then r * (Suc k - j div r) + j mod r else j - r * Suc k)"
  proof (cases "j < r")
    case True
    then show ?thesis using j by (auto simp: bit_simps)
  next
    case False
    then obtain i where i: "j = r + i" by (metis le_Suc_ex not_less)
    have "bit rv i = bit a (if i < r * k then r * (k - i div r) + i mod r else i - r * k)"
      using assms(2) j i unfolding rev_inv_def by simp
    moreover have "(r + i) div r = Suc (i div r)" using assms(1) div_add_self1[of r i] by simp
    ultimately show ?thesis using j i by (simp add: bit_simps)
  qed
qed

lemma bitrev_loop_inv:
  assumes "0 < r"
  shows "rev_inv a r k rv \<Longrightarrow> rev_inv a r (k + n) (bitrev_loop n r (mask r) (drop_bit (r * k) a) rv)"
proof (induction n arbitrary: k rv)
  case (Suc n)
  have d: "drop_bit r (drop_bit (r * k) a) = drop_bit (r * Suc k) a" by (simp add: add.commute)
  show ?case using Suc.IH[OF rev_inv_step[OF assms Suc.prems]] by (simp only: bitrev_loop.simps Let_def d) simp
qed simp

lemma low_mask: "(ucast (push_bit k 1 - 1 :: u64) :: u32) = mask k" if "k \<le> 32"
  using that by (intro bit_word_eqI) (auto simp: bit_simps mask_eq_exp_minus_1[symmetric])

lemma BITREV_bits:
  fixes a :: u32
  assumes "0 < r" "r \<le> 32" "p < 32" "r dvd (32 - p)"
  defines "n \<equiv> 32 - p"
  shows "bit (lib_BITREV a (of_nat p) (of_nat r)) j \<longleftrightarrow> j < n \<and> bit a (r * (n div r - 1 - j div r) + j mod r)"
proof -
  have s: "(32 - of_nat p :: u32) = of_nat n" using assms(3) by (simp add: n_def of_nat_diff)
  have u: "unat (of_nat r :: u32) = r" "unat (of_nat n :: u32) = n" using assms(2) by (simp_all add: unat_of_nat32 n_def)
  have d: "unat (of_nat n div of_nat r :: u32) = n div r" by (simp add: unat_div u)
  define k where "k = n div r - 1"
  have m: "n = r * Suc k" using assms(1,3,4) unfolding n_def k_def
    by (metis Suc_diff_1 diff_is_0_eq dvd_mult_div_cancel mult_is_0 neq0_conv not_less)
  have inv: "rev_inv a r k (bitrev_loop k r (mask r) a a)"
  proof -
    have "rev_inv a r 0 a" by (simp add: rev_inv_def)
    from bitrev_loop_inv[OF assms(1) this, of k] show ?thesis by simp
  qed
  define rv where "rv = bitrev_loop k r (mask r) a a"
  have b: "lib_BITREV a (of_nat p) (of_nat r) = (if n < 32 then rv AND mask n else rv)"
  proof -
    have "n \<le> 32" by (simp add: n_def)
    then show ?thesis using assms(2) u(2)
      by (simp only: lib_BITREV_def Let_def s u d low_mask rv_def k_def word_less_nat_alt) simp
  qed
  show ?thesis
  proof (cases "j < n")
    case True
    then have "j < 32" by (simp add: n_def)
    then have "bit rv j = bit a (if j < r * k then r * (k - j div r) + j mod r else j - r * k)"
      using inv unfolding rev_inv_def rv_def by blast
    moreover have "j - r * k = r * (k - j div r) + j mod r" if "\<not> j < r * k"
    proof -
      have "j div r = k" using that True m assms(1) by (simp add: div_nat_eqI mult.commute)
      moreover have "j = r * (j div r) + j mod r" by simp
      ultimately show ?thesis by simp
    qed
    ultimately show ?thesis using True by (simp add: b bit_simps k_def)
  next
    case False
    then show ?thesis by (auto simp: b bit_simps n_def dest: bit_imp_le_length)
  qed
qed

text \<open>C35: The reversal of digits. With a radix of \<open>2 ^ r\<close> whose digits fill the \<open>32 - p\<close> bits that take part, \<open>cv.bitrev\<close>
  gives the digits of its register in the reverse order, each as it was, and no other bit; done twice with
  the same immediates it gives back the bits that take part.\<close>

theorem cv_bitrev_reverses:
  assumes "UIM_GET insn 0 = of_nat p" "UIM_GET insn 1 + 1 = of_nat r" "0 < r" "r \<le> 4" "p < 32" "r dvd (32 - p)"
    and "UIM_GET insn' 0 = UIM_GET insn 0" "UIM_GET insn' 1 = UIM_GET insn 1" "REG_IN insn' 0 = REG_OUT insn 0"
    and "s1 = snd (cv_bitrev_exec insn pc s)" "s2 = snd (cv_bitrev_exec insn' pc' s1)" "n = 32 - p"
  shows "bit (regs (iss_regfile s1) (REG_OUT insn 0)) j
      = (j < n \<and> bit (rs1 insn (regs (iss_regfile s))) (r * (n div r - 1 - j div r) + j mod r))
    \<and> regs (iss_regfile s2) (REG_OUT insn' 0) = take_bit n (rs1 insn (regs (iss_regfile s)))"
proof -
  let ?a = "rs1 insn (regs (iss_regfile s))" and ?B = "\<lambda>a. lib_BITREV a (of_nat p) (of_nat r)"
  have r: "regs (iss_regfile s1) (REG_OUT insn 0) = ?B ?a" "regs (iss_regfile s2) (REG_OUT insn' 0) = ?B (?B ?a)"
    using assms(1,2,7-11) by (simp_all add: cv_bitrev_exec_def on_rf_def set_reg_def get_reg_def)
  have r32: "r \<le> 32" using assms(4) by simp
  note B = BITREV_bits[OF assms(3) r32 assms(5,6), folded assms(12)]
  have "bit (?B (?B ?a)) j = bit (take_bit n ?a) j" for j
  proof (cases "j < n")
    case True
    define i where "i = r * (n div r - 1 - j div r) + j mod r"
    have "j div r < n div r" using True assms(3,6,12) by (metis dvd_div_mult_self less_mult_imp_div_less)
    then have q: "i div r = n div r - 1 - j div r" "i mod r = j mod r" "i div r < n div r"
      using assms(3) by (simp_all add: i_def)
    then have "i < n" by (metis div_le_mono leD leI)
    moreover have "r * (n div r - 1 - i div r) + i mod r = j"
      using q \<open>j div r < n div r\<close> by simp
    ultimately show ?thesis using True by (simp only: B i_def[symmetric] bit_take_bit_iff simp_thms)
  next
    case False
    then show ?thesis using B by (simp add: bit_take_bit_iff)
  qed
  then have "?B (?B ?a) = take_bit n ?a" by (intro bit_word_eqI) blast
  then show ?thesis using r B by simp
qed

theorem cv_bitrev_reverses_witness:
  "bit (regs (iss_regfile (snd (cv_bitrev_exec \<lparr>out_regs = [3], in_regs = [1], uim = [24, 0], sim = [], insn_size = 4\<rparr> 0
     (on_rf (set_reg 1 0x25) demo_iss)))) 3) 5"
proof -
  let ?i = "\<lparr>out_regs = [3], in_regs = [1], uim = [24, 0], sim = [], insn_size = 4\<rparr> :: iss_insn"
  let ?j = "\<lparr>out_regs = [4], in_regs = [3], uim = [24, 0], sim = [], insn_size = 4\<rparr> :: iss_insn"
  let ?s = "on_rf (set_reg 1 0x25) demo_iss"
  have "bit (regs (iss_regfile (snd (cv_bitrev_exec ?i 0 ?s))) (REG_OUT ?i 0)) 5
      = (5 < (8 :: nat) \<and> bit (rs1 ?i (regs (iss_regfile ?s))) (1 * (8 div 1 - 1 - 5 div 1) + 5 mod 1))"
    by (rule conjunct1[OF cv_bitrev_reverses[where p = 24 and r = 1 and insn' = ?j and pc' = 4, OF _ _ _ _ _ _ _ _ _ refl refl]])
      simp_all
  then show ?thesis by (simp add: set_reg_def)
qed

section \<open>The hardware loops\<close>

definition COREV_LPSTART :: "nat \<Rightarrow> nat" where "COREV_LPSTART x = 0 + x * 3"
definition COREV_LPEND :: "nat \<Rightarrow> nat" where "COREV_LPEND x = 1 + x * 3"
definition COREV_LPCOUNT :: "nat \<Rightarrow> nat" where "COREV_LPCOUNT x = 2 + x * 3"

lemmas corev_lp_index = COREV_LPSTART_def COREV_LPEND_def COREV_LPCOUNT_def

text \<open>What runs after the last instruction of a body, whose handler is \<open>real\<close>.\<close>

definition corev_loop_end :: "nat \<Rightarrow> u32 \<Rightarrow> hwloop \<Rightarrow> bool \<times> hwloop" where
  "corev_loop_end x pc h =
     (if hwloop_regs h (COREV_LPCOUNT x) \<noteq> 0 \<and> hwloop_regs h (COREV_LPEND x) = pc
      then let h1 = h\<lparr>hwloop_regs := (hwloop_regs h)(COREV_LPCOUNT x := hwloop_regs h (COREV_LPCOUNT x) - 1)\<rparr>
           in if hwloop_regs h1 (COREV_LPCOUNT x) \<noteq> 0
              then (True, h1\<lparr>hwloop_next_insn := hwloop_start_insn h1 x\<rparr>) else (False, h1)
      else (False, h))"

definition corev_hwloop_check_exec :: "exec \<Rightarrow> hw_exec" where
  "corev_hwloop_check_exec real insn pc hs = (case hs of (h, s) \<Rightarrow>
     let interrupted = elw_interrupted h;
         (insn_next, s') = real insn pc s
     in if interrupted then (hwloop_next_insn h, h, s')
        else let (back0, h0) = corev_loop_end 0 pc h
             in if back0 then (hwloop_start_insn h0 0, h0, s')
                else let (back1, h1) = corev_loop_end 1 pc h0
                     in if back1 then (hwloop_start_insn h1 1, h1, s')
                        else (insn_next, h1\<lparr>hwloop_next_insn := insn_next\<rparr>, s'))"

definition corev_hwloop_set_start :: "nat \<Rightarrow> u32 \<Rightarrow> hwloop \<Rightarrow> hwloop" where
  "corev_hwloop_set_start index start h =
     h\<lparr>hwloop_regs := (hwloop_regs h)(COREV_LPSTART index := start),
       hwloop_start_insn := (hwloop_start_insn h)(index := start)\<rparr>"

text \<open>\<open>None\<close> is \<open>abort()\<close>, which ends the simulation.\<close>

definition corev_hwloop_set_insn_end :: "u32 \<Rightarrow> hwloop \<Rightarrow> hwloop option" where
  "corev_hwloop_set_insn_end pc h = None"

definition corev_hwloop_set_end :: "nat \<Rightarrow> u32 \<Rightarrow> hwloop \<Rightarrow> hwloop option" where
  "corev_hwloop_set_end index end_pc h0 =
     (let h = h0\<lparr>hwloop_end_insn := (hwloop_end_insn h0)(index := end_pc)\<rparr>
      in map_option (\<lambda>h. h\<lparr>hwloop_regs := (hwloop_regs h)(COREV_LPEND index := end_pc)\<rparr>) (corev_hwloop_set_insn_end end_pc h))"

definition corev_hwloop_set_count :: "nat \<Rightarrow> u32 \<Rightarrow> hwloop \<Rightarrow> hwloop" where
  "corev_hwloop_set_count index count h = h\<lparr>hwloop_regs := (hwloop_regs h)(COREV_LPCOUNT index := count)\<rparr>"

definition corev_hwloop_set_all :: "nat \<Rightarrow> u32 \<Rightarrow> u32 \<Rightarrow> u32 \<Rightarrow> hwloop \<Rightarrow> hwloop option" where
  "corev_hwloop_set_all index start end_pc count h =
     map_option (\<lambda>h. corev_hwloop_set_count index count (corev_hwloop_set_start index start h)) (corev_hwloop_set_end index end_pc h)"

type_synonym cv_hw_exec = "iss_insn \<Rightarrow> u32 \<Rightarrow> hwloop \<times> iss \<Rightarrow> (u32 \<times> hwloop \<times> iss) option"

definition cv_starti_exec :: cv_hw_exec where
  "cv_starti_exec insn pc hs = (case hs of (h, s) \<Rightarrow>
     Some (iss_insn_next insn pc, corev_hwloop_set_start (unat (UIM_GET insn 0)) (pc + push_bit 1 (UIM_GET insn 1)) h, s))"

definition cv_endi_exec :: cv_hw_exec where
  "cv_endi_exec insn pc hs = (case hs of (h, s) \<Rightarrow>
     map_option (\<lambda>h. (iss_insn_next insn pc, h, s))
       (corev_hwloop_set_end (unat (UIM_GET insn 0)) (pc + push_bit 1 (UIM_GET insn 1)) h))"

definition cv_count_exec :: cv_hw_exec where
  "cv_count_exec insn pc hs = (case hs of (h, s) \<Rightarrow>
     Some (iss_insn_next insn pc, corev_hwloop_set_count (unat (UIM_GET insn 0)) (REG_GET insn 0 s) h, s))"

definition cv_counti_exec :: cv_hw_exec where
  "cv_counti_exec insn pc hs = (case hs of (h, s) \<Rightarrow>
     Some (iss_insn_next insn pc, corev_hwloop_set_count (unat (UIM_GET insn 0)) (UIM_GET insn 1) h, s))"

definition cv_setup_exec :: cv_hw_exec where
  "cv_setup_exec insn pc hs = (case hs of (h, s) \<Rightarrow>
     let index = unat (UIM_GET insn 0);
         count = REG_GET insn 0 s;
         start = pc + insn_size insn;
         end_pc = pc + push_bit 1 (UIM_GET insn 1)
     in map_option (\<lambda>h. (iss_insn_next insn pc, h, s)) (corev_hwloop_set_all index start end_pc count h))"

definition cv_setupi_exec :: cv_hw_exec where
  "cv_setupi_exec insn pc hs = (case hs of (h, s) \<Rightarrow>
     let index = unat (UIM_GET insn 0);
         count = UIM_GET insn 1;
         start = pc + insn_size insn;
         end_pc = pc + push_bit 1 (UIM_GET insn 2)
     in map_option (\<lambda>h. (iss_insn_next insn pc, h, s)) (corev_hwloop_set_all index start end_pc count h))"

text \<open>What the check does for a loop whose end is at \<open>pc\<close>: one iteration less, and back unless it was the last.\<close>

lemma corev_loop_end_counts:
  assumes "hwloop_regs h (COREV_LPCOUNT x) = c" "c \<noteq> 0" "hwloop_regs h (COREV_LPEND x) = pc"
  shows "corev_loop_end x pc h = (c \<noteq> 1, h\<lparr>hwloop_regs := (hwloop_regs h)(COREV_LPCOUNT x := c - 1),
    hwloop_next_insn := (if c \<noteq> 1 then hwloop_start_insn h x else hwloop_next_insn h)\<rparr>)"
  using assms by (simp add: corev_loop_end_def Let_def)

lemma corev_check_inner:
  assumes "hwloop_regs h (COREV_LPCOUNT 0) = c" "1 < c" "hwloop_regs h (COREV_LPEND 0) = pc" "\<not> elw_interrupted h"
    and "corev_hwloop_check_exec real insn pc (h, s) = (next_pc, h', s')"
  shows "next_pc = hwloop_start_insn h 0 \<and> hwloop_regs h' (COREV_LPCOUNT 0) = c - 1
    \<and> hwloop_regs h' (COREV_LPCOUNT 1) = hwloop_regs h (COREV_LPCOUNT 1) \<and> s' = snd (real insn pc s)"
proof -
  have "c \<noteq> 0" "c \<noteq> 1" using assms(2) by auto
  then show ?thesis using corev_loop_end_counts[OF assms(1) _ assms(3)] assms(4,5)
    by (auto simp: corev_hwloop_check_exec_def corev_lp_index split: prod.splits)
qed

section \<open>Where the code departs from this\<close>

text \<open>The validity marks. An operation of CORE-V leaves the mark of its destination as it was: a register that was
  never initialised stays so after it has been computed from initialised registers, and the next
  branch on it is reported as depending on an uninitialised register.\<close>

lemma list_all2_marks: "list_all2 twins cs ps \<Longrightarrow> c \<in> set cs \<Longrightarrow> marks (snd (c insn pc s)) = marks s"
  by (induction rule: list_all2_induct) (auto simp: twins_def)

lemma corev_marks:
  assumes "h \<in> set corev_alu_handlers"
  shows "marks (snd (h insn pc s)) = marks s"
proof -
  consider "h \<in> set (corev_scalar_handlers @ cv_arith_handlers @ cv_dot_handlers @ cv_cmp_handlers)"
    | "h \<in> {cv_clipu_exec, cv_clipur_exec, cv_bitrev_exec}"
    using assms by (auto simp: corev_alu_handlers_def)
  then show ?thesis
  proof cases
    case 1
    have "list_all2 twins (corev_scalar_handlers @ cv_arith_handlers @ cv_dot_handlers @ cv_cmp_handlers)
        (pulp_scalar_twins @ pv_arith_handlers @ pv_dot_handlers @ pv_cmp_handlers)"
      by (intro list_all2_appendI cv_scalar_twins cv_vector_twins)
    then show ?thesis using 1 by (rule list_all2_marks)
  next
    case 2
    then show ?thesis by (auto simp: marks_def cv_clipu_exec_def cv_clipur_exec_def cv_bitrev_exec_def on_rf_def set_reg_def Let_def)
  qed
qed

theorem corev_stale_mark:
  assumes "regs_memcheck (iss_regfile s) = (\<lambda>_. -1)(5 := 0)" "memcheck_enabled (iss_regfile s)" "h \<in> set corev_alu_handlers"
    and "s' = snd (h \<lparr>out_regs = [5], in_regs = [1, 2, 3], uim = u, sim = i, insn_size = 4\<rparr> pc s)"
  shows "memcheck_reg_fault (memcheck_branch_reg 5 (iss_regfile s'))"
  using corev_marks[OF assms(3), of "\<lparr>out_regs = [5], in_regs = [1, 2, 3], uim = u, sim = i, insn_size = 4\<rparr>" pc s] assms
  by (simp add: marks_def memcheck_branch_reg_def memcheck_reg_def)

text \<open>A loop cannot be given an end: three of the six instructions abort the simulation.\<close>

theorem corev_loops_abort:
  "cv_endi_exec insn pc hs = None" "cv_setup_exec insn pc hs = None" "cv_setupi_exec insn pc hs = None"
  by (cases hs; simp add: cv_endi_exec_def cv_setup_exec_def cv_setupi_exec_def corev_hwloop_set_all_def corev_hwloop_set_end_def
      corev_hwloop_set_insn_end_def Let_def)+

text \<open>The CSRs have the numbers of the loop registers of PULP. The start of the second loop of CORE-V is not in
  its CSR, \<open>CSR_HWLOOP1_START - CSR_HWLOOP0_START = 4\<close>, and its count is read as its end, CSR 5.\<close>

theorem corev_csr_numbers:
  assumes "UIM_GET insn 0 = 1" "cv_starti_exec insn pc (h, s) = Some (p, h1, s1)" "cv_count_exec insn pc (h, s) = Some (q, h2, s2)"
  shows "hwloop_read 4 h1 = hwloop_read 4 h \<and> hwloop_read 5 h2 = REG_GET insn 0 s \<and> hwloop_read 6 h2 = hwloop_read 6 h"
  using assms by (auto simp: cv_starti_exec_def cv_count_exec_def corev_hwloop_set_start_def corev_hwloop_set_count_def
      corev_lp_index hwloop_read_def)

end
