(* ===== verification/Spec2Isabelle.thy ===== *)
theory Spec2Isabelle imports RemapperV2 DemuxV2 RwSplitterV2 MemoryV3 LogIcoV2 SplitterV2 LimiterV2 IssPrecise
  Plic Clint Soc CircularBuffer RspCodec RvcSpec PulpSpec HwLoop Prefetch Mmu CacheMemory
  RouterBackpressure CoreVSpec begin

text \<open>
  A verification development for GVSoC, a simulator of systems on chip made of C++ component models
  that exchange requests. The development models four of its layers.

  \<^bold>\<open>The interconnect and the memory\<close> (\<open>src/models/interco/*_v2.cpp\<close>, \<open>src/models/memory/memory_v3.cpp\<close>,
  \<open>src/models/cache/cache_v4.cpp\<close>).
  Components exchange \<open>IoReq\<close> objects through ports: a slave answers a request with \<open>DONE\<close>, \<open>GRANTED\<close>
  (a response follows) or \<open>DENIED\<close> (a \<open>retry\<close> follows). Theory \<open>IoV2\<close> has the request, the statuses and
  the interface \<open>deny_retry\<close>, a locale that the remapper, the demultiplexer and the read/write splitter
  interpret. Each component is a record of the fields of its class and one function per handler; what a
  handler sends to the other components is part of its result, and the answers of the downstream
  component are an argument, so that every behaviour of it is covered.
    \<^item> \<open>RemapperV2\<close>, \<open>DemuxV2\<close>, \<open>RwSplitterV2\<close>: routing by address window, by address bits and by direction,
      with the propagation of retries.
    \<^item> \<open>SplitterV2\<close>: a wide burst cut into chunks over several outputs, in phases. Reachable states are an
      inductive set of handler sequences with the chunks in flight; the bytes owed are conserved.
    \<^item> \<open>LimiterV2\<close>: a bandwidth limiter that emits one chunk per event: conservation, progress, rate.
    \<^item> \<open>LogIcoV2\<close>: the banked crossbar with a round-robin arbiter per bank: winner, fairness, address map.
    \<^item> \<open>RouterV2\<close>: two of the address-decoding routers of \<open>src/models/interco/router\<close>, the untimed one and the one
      that annotates requests with the latency of its bandwidth and queues them while an output is stalled;
      \<open>RouterBackpressure\<close>: the one that holds a request of each input until its ports are available. The look-up of
      the mapping tree and the clocked signals of the engine are parameters.
    \<^item> \<open>MemoryV3\<close>: reads, writes, atomics with load reservations, preload and statistics; \<open>AccessLog\<close> has
      the log it shares with the demultiplexer.
    \<^item> \<open>CacheV4\<close>: the set-associative cache with one refill in flight, its queue, bypass and flushes. The runs are
      an inductive relation over all its handlers, for any memory behind it that answers at once, later or refuses. The
      locale \<open>cache_content\<close> has what the content of the lines and of the answers satisfies, for a kind of
      requests and of memory; it is interpreted for reads over a memory that does not change (\<open>rd\<close>) and for any accesses
      (\<open>ft\<close>). \<open>CacheMemory\<close>: the cache in front of \<open>MemoryV3\<close>.

  \<^bold>\<open>The instruction-set simulator\<close> (\<open>src/models/cpu/iss\<close>), for a timed 32-bit in-order core.
    \<^item> \<open>IsaLib\<close>: the pure operations of \<open>include/isa_lib/int.h\<close>, scalar and packed.
    \<^item> \<open>IssCore\<close>: the state of the core, its register file with a validity bit per register bit, and the
      timing counters.
    \<^item> \<open>IssTrap\<close>: exceptions and the return from them, \<open>mstatus\<close>, interrupt lines, registers and
      arbitration, the control-register instructions, \<open>wfi\<close>.
    \<^item> \<open>IssLsu\<close>: loads and stores through a data port that may answer later or fault.
    \<^item> \<open>Rv32i\<close>, \<open>Rv32m\<close>: every instruction handler of the base instruction set and of the M extension,
      the full and the fast ones; \<open>Rv32Spec\<close>: what they compute, against the operations of the
      instruction set written on integers, and the soundness of the validity bits.
    \<^item> \<open>Rv32c\<close>: the compressed instructions, and that each does what the instruction it stands for does; \<open>RvcSpec\<close>:
      what they compute on the operands of their formats, against the instruction set.
      \<open>PulpV2\<close>: the PULP instructions of \<open>include/isa/pulp_v2.hpp\<close>, accesses with register offset or
      post-increment, scalar and packed operations; \<open>PulpSpec\<close>: what they compute.
    \<^item> \<open>CoreV\<close>: the CORE-V instructions of \<open>include/isa/corev.hpp\<close>; \<open>CoreVSpec\<close>: that they are the PULP ones without the
      validity marks, the reversal of digits, and the hardware loops of CORE-V, which abort.
    \<^item> \<open>HwLoop\<close>: the hardware loops, from the loop instructions and the control registers to the check
      after the last instruction of a body, and the handler stub they put in the instruction cache.
    \<^item> \<open>Prefetch\<close>: the cache of decoded instructions (\<open>src/insn_cache.cpp\<close>) and the one-line prefetcher
      (\<open>src/prefetch/prefetch_single_line.cpp\<close>) with its refills answered at once, later or refused.
    \<^item> \<open>Mmu\<close>: the memory management unit of the 64-bit cores, its three TLBs and the walk of the page tables
      one entry per event, against the translation of Sv39, with what the code leaves unchecked (the bit \<open>U\<close>, pages of 1 GB).
    \<^item> \<open>IssExec\<close>: the two handlers of the instruction event and the reachable states of a core with its
      interrupt lines, its data port and its instruction cache; \<open>IssInv\<close>: the invariant, kept by every
      handler; \<open>IssPrecise\<close>: the refinement of an ideal core that takes exceptions and interrupts between
      any two instructions, the bound on the response to an interrupt, sleep and wake-up.

  \<^bold>\<open>The interrupt controllers\<close> (\<open>src/models/cpu/plic.cpp\<close>, \<open>clint.cpp\<close>).
    \<^item> \<open>Plic\<close>: sources, contexts, arbitration, claim and completion over the register accesses; the
      reachable states are an inductive set, its lines always tell what the contexts have to deliver. The code ignores the
      thresholds: the properties speak of sources over them, and a theorem shows the rest.
    \<^item> \<open>Clint\<close>: software interrupts and timers, with the current time and the clock as arguments.
    \<^item> \<open>Soc\<close>: a hart with both: an interrupt source or a timer that goes up makes the core enter the
      handler within the stall cycles left.

  \<^bold>\<open>The link to the debugger\<close> (\<open>src/models/gdbserver\<close>).
    \<^item> \<open>CircularBuffer\<close>: the ring of bytes between the socket and the decoder. The locale of a queue
      written by blocks is interpreted on it, over the list of bytes it holds.
    \<^item> \<open>RspCodec\<close>: the remote protocol: escaping, runs and checksums of the encoder, the state machine of
      the decoder. What one encodes the other decodes, in whatever pieces it is received.

  Machine integers are words of their width, with the wrap-around of the code; sizes that the code keeps
  in 64 bits and only compares or copies are naturals. Accesses out of range of a block or of a vector are
  \<open>None\<close>, and theorems show when they cannot happen. No definition uses fuel: the loops of the code are
  bounded by the data they run over, and the recursions have termination proofs. The loops that depend
  on the state of a buffer (copies through the ring, the loop of the decoder) are
  \<open>partial_function (option)\<close>, and \<open>write_copy_spec\<close>, \<open>read_copy_spec\<close> and \<open>decode_returns\<close> show that they end.

  \<^bold>\<open>Not modelled.\<close> Traces, energy and statistics that are only printed do not influence the modelled
  state. In the core: the tree of the decoder, which is generated at build time (the decoded instructions
  are an argument of the instruction event), a prefetcher that stalls inside the instruction event (theory
  \<open>Prefetch\<close> has it alone), the MMU connected to the accesses of the core (theory \<open>Mmu\<close> has it alone, 64 bits wide), the PMP
  (which checks nothing), misaligned and atomic accesses, several outstanding requests,
  floating point and vectors, the event loads \<open>p.elw\<close> and \<open>cv.elw\<close>, the stack checks and the other extensions. Of the
  debugger: its commands, sockets and threads. The first versions of the interconnect models and
  routers, the router of beats (it rests on adapters that the engine inserts), the other versions of the cache, the devices and the second
  version of the core are left out.
\<close>

end
